(* ===== verification/Prelude.thy ===== *)
theory Prelude
  imports Main "HOL-Library.Word" "HOL-Library.AList" "HOL-Library.List_Lexorder"
    "HOL-Library.Monad_Syntax"
begin

text \<open>
  What the component theories share: the conventions for machine integers, instants and
  durations, the association lists that stand for Go maps, panics and errors, and the generic
  lemmas on them.

  \<^item> A Go map is an association list with distinct keys, read with \<open>map_of\<close>, written with
    \<open>AList.update\<close> and \<open>AList.delete\<close>. The order of the pairs stands for one possible
    iteration order; Go fixes none, and no result proved here depends on it.
  \<^item> A call that can dereference a nil pointer returns an \<open>option\<close>, and \<open>None\<close> is the panic.
  \<^item> A call that can return an error returns \<open>err + 'a\<close>, and \<open>Inl\<close> is the error.
  \<^item> An instant (\<open>time.Time\<close>) is an \<open>int\<close>, the nanoseconds since the unix epoch, and a
    duration is an \<open>int\<close> in the range of an \<open>int64\<close>; where the source's arithmetic wraps
    or saturates at 64 bits, so do the definitions.
\<close>

named_theorems alist_simps \<open>association lists as maps\<close>
named_theorems store_defs \<open>definitions of the store operations\<close>

type_synonym u8 = "8 word"
type_synonym u16 = "16 word"
type_synonym u32 = "32 word"
type_synonym u64 = "64 word"
type_synonym byte_list = "8 word list"
type_synonym time = int
type_synonym duration = int
type_synonym ('k, 'v) alist = "('k \<times> 'v) list"

section \<open>Signed 64-bit integers\<close>

text \<open>Go's \<open>int64(x)\<close>: two's complement wrap-around.\<close>

definition int64 :: "int \<Rightarrow> int" where
  "int64 x = (x + 2 ^ 63) mod 2 ^ 64 - 2 ^ 63"

definition maxInt64 :: int where
  "maxInt64 = 2 ^ 63 - 1"

definition minInt64 :: int where
  "minInt64 = - (2 ^ 63)"

definition in_int64 :: "int \<Rightarrow> bool" where
  "in_int64 x \<longleftrightarrow> minInt64 \<le> x \<and> x \<le> maxInt64"

lemma in_int64I: "0 \<le> x \<Longrightarrow> x \<le> maxInt64 \<Longrightarrow> in_int64 x"
  by (simp add: in_int64_def minInt64_def)

lemma int64_id [simp]: "in_int64 x \<Longrightarrow> int64 x = x"
  by (simp add: int64_def in_int64_def minInt64_def maxInt64_def)

lemma in_int64_int64 [simp]: "in_int64 (int64 x)"
proof -
  have "0 \<le> (x + 2 ^ 63) mod 2 ^ 64" and "(x + 2 ^ 63) mod 2 ^ 64 < 2 ^ 64"
    by simp_all
  then show ?thesis
    by (simp add: int64_def in_int64_def minInt64_def maxInt64_def)
qed

text \<open>Go's integer division and remainder truncate towards zero.\<close>

definition go_div :: "int \<Rightarrow> int \<Rightarrow> int" where
  "go_div a b = sgn a * sgn b * (\<bar>a\<bar> div \<bar>b\<bar>)"

definition go_mod :: "int \<Rightarrow> int \<Rightarrow> int" where
  "go_mod a b = sgn a * (\<bar>a\<bar> mod \<bar>b\<bar>)"

lemma go_div_nonneg [simp]: "0 \<le> a \<Longrightarrow> 0 < b \<Longrightarrow> go_div a b = a div b"
  by (cases "a = 0") (simp_all add: go_div_def)

lemma go_mod_nonneg [simp]: "0 \<le> a \<Longrightarrow> 0 < b \<Longrightarrow> go_mod a b = a mod b"
  by (cases "a = 0") (simp_all add: go_mod_def)

text \<open>A counter that did not wrap grew.\<close>

lemma word_less_Suc: "n + 1 \<noteq> 0 \<Longrightarrow> n < (n + 1 :: 'a::len word)"
  using unatSuc [of n] by (simp add: word_less_nat_alt add.commute)

section \<open>Instants and durations\<close>

text \<open>The zero \<open>time.Time\<close> is midnight UTC of January 1 of the year 1.\<close>

definition zeroTime :: time where
  "zeroTime = -62135596800000000000"

text \<open>
  \<open>t.UnixNano()\<close> is the low 64 bits of the nanosecond count; \<open>t.Sub(u)\<close> saturates at the
  ends of \<open>int64\<close>; \<open>t.Add(d)\<close> is exact on instants.
\<close>

definition unixNano :: "time \<Rightarrow> int" where
  "unixNano t = int64 t"

definition timeSub :: "time \<Rightarrow> time \<Rightarrow> duration" where
  "timeSub t u = max minInt64 (min maxInt64 (t - u))"

definition timeAdd :: "time \<Rightarrow> duration \<Rightarrow> time" where
  "timeAdd t d = t + d"

lemma timeSub_exact: "in_int64 (t - u) \<Longrightarrow> timeSub t u = t - u"
  by (simp add: timeSub_def in_int64_def)

lemma in_int64_timeSub [simp]: "in_int64 (timeSub t u)"
  by (simp add: timeSub_def in_int64_def minInt64_def maxInt64_def)

section \<open>Association lists as Go maps\<close>

text \<open>Reading a slice-valued map: an absent key gives the nil slice.\<close>

definition lookupSlice :: "('k, 'v list) alist \<Rightarrow> 'k \<Rightarrow> 'v list" where
  "lookupSlice m k = (case map_of m k of None \<Rightarrow> [] | Some xs \<Rightarrow> xs)"

lemma update_fresh [alist_simps]: "k \<notin> fst ` set al \<Longrightarrow> AList.update k v al = al @ [(k, v)]"
  by (induction al) auto

lemma delete_filter [alist_simps]: "AList.delete k al = filter (\<lambda>p. fst p \<noteq> k) al"
  by (auto simp: AList.delete_eq intro: filter_cong)

lemma map_update_same:
  assumes "map_of al k = Some v" and "f (k, v') = f (k, v)"
  shows "map f (AList.update k v' al) = map f al"
  using assms by (induction al) auto

lemma filter_update_same:
  assumes "map_of al k = Some v" and "P (k, v') = P (k, v)"
  shows "map fst (filter P (AList.update k v' al)) = map fst (filter P al)"
  using assms by (induction al) auto

lemma set_update_distinct:
  assumes "distinct (map fst al)"
  shows "set (AList.update k v al) = {p \<in> set al. fst p \<noteq> k} \<union> {(k, v)}"
  using assms by (induction al) force+

lemma map_of_Some_iff: "distinct (map fst al) \<Longrightarrow> map_of al k = Some v \<longleftrightarrow> (k, v) \<in> set al"
  by (rule map_of_eq_Some_iff)

lemma map_of_None_fst: "map_of al k = None \<longleftrightarrow> k \<notin> fst ` set al"
  by (rule map_of_eq_None_iff)

section \<open>Indexes over a map\<close>

text \<open>
  A secondary index that maps a field of the values back to the key, as the source's
  \<open>jobKeys\<close> and \<open>occurrences\<close> do.
\<close>

definition index_by :: "('v \<Rightarrow> 'f) \<Rightarrow> ('k, 'v) alist \<Rightarrow> ('f, 'k) alist" where
  "index_by f al = map (\<lambda>p. (f (snd p), fst p)) al"

definition inj_field :: "('v \<Rightarrow> 'f) \<Rightarrow> ('k, 'v) alist \<Rightarrow> bool" where
  "inj_field f al \<longleftrightarrow> distinct (map (\<lambda>p. f (snd p)) al)"

lemma index_by_Nil [simp]: "index_by f [] = []"
  by (simp add: index_by_def)

lemma inj_field_Nil [simp]: "inj_field f []"
  by (simp add: inj_field_def)

lemma inj_fieldD:
  "inj_field f al \<Longrightarrow> (k, v) \<in> set al \<Longrightarrow> (k', v') \<in> set al \<Longrightarrow> f v = f v' \<Longrightarrow> k = k' \<and> v = v'"
  unfolding inj_field_def by (induction al) force+

lemma index_by_update_same:
  assumes "map_of al k = Some v" and "f v' = f v"
  shows "index_by f (AList.update k v' al) = index_by f al"
  using assms by (simp add: index_by_def map_update_same)

lemma inj_field_update_same:
  assumes "map_of al k = Some v" and "f v' = f v"
  shows "inj_field f (AList.update k v' al) = inj_field f al"
  using assms by (simp add: inj_field_def map_update_same)

lemma index_by_fresh:
  assumes "k \<notin> fst ` set al" and "key \<notin> fst ` set (index_by f al)" and "key = f v"
  shows "AList.update key k (index_by f al) = index_by f (AList.update k v al)"
  using assms by (simp add: update_fresh) (simp add: index_by_def)

lemma inj_field_fresh:
  assumes "k \<notin> fst ` set al" and "f v \<notin> fst ` set (index_by f al)" and "inj_field f al"
  shows "inj_field f (AList.update k v al)"
  using assms by (auto simp: update_fresh inj_field_def index_by_def image_image)

lemma index_by_delete:
  assumes "distinct (map fst al)" and "inj_field f al" and "map_of al k = Some v"
  shows "AList.delete (f v) (index_by f al) = index_by f (AList.delete k al)"
proof -
  have kv: "(k, v) \<in> set al"
    using assms(3) by (rule map_of_SomeD)
  have "f (snd p) = f v \<longleftrightarrow> fst p = k" if "p \<in> set al" for p
  proof -
    obtain k' v' where p: "p = (k', v')" by (cases p)
    show ?thesis
      using that kv assms(1) inj_fieldD [OF assms(2)]
      by (auto simp: p dest: eq_key_imp_eq_value)
  qed
  then have "filter (\<lambda>p. f (snd p) \<noteq> f v) al = filter (\<lambda>p. fst p \<noteq> k) al"
    by (intro filter_cong) auto
  then show ?thesis
    by (simp add: delete_filter index_by_def filter_map o_def)
qed

lemma inj_field_delete: "inj_field f al \<Longrightarrow> inj_field f (AList.delete k al)"
  by (simp add: inj_field_def delete_filter distinct_map_filter)

lemma map_of_index_by:
  assumes "distinct (map fst al)" and "inj_field f al"
  shows "map_of (index_by f al) key = Some k \<longleftrightarrow> (\<exists>v. map_of al k = Some v \<and> f v = key)"
proof -
  have "distinct (map fst (index_by f al))"
    using assms(2) by (simp add: index_by_def inj_field_def o_def)
  then show ?thesis
    by (simp add: map_of_Some_iff assms(1)) (force simp: index_by_def)
qed

lemma map_of_index_by_None:
  "map_of (index_by f al) key = None \<longleftrightarrow> (\<forall>p \<in> set al. f (snd p) \<noteq> key)"
  by (auto simp: map_of_eq_None_iff index_by_def image_image)

text \<open>
  A secondary index that maps a field to the slice of the keys that have it, in the order of
  the map, with no key bound to an empty slice, as \<open>attemptsByExec\<close> and \<open>attemptsByHost\<close> do.
  The field is optional: a value whose field is \<open>None\<close> is not in the index.
\<close>

definition sliced :: "('v \<Rightarrow> 'f option) \<Rightarrow> ('f, 'k list) alist \<Rightarrow> ('k, 'v) alist \<Rightarrow> bool" where
  "sliced f m al \<longleftrightarrow> distinct (map fst m) \<and> (\<forall>x. map_of m x \<noteq> Some [])
     \<and> (\<forall>x. lookupSlice m x = map fst (filter (\<lambda>p. f (snd p) = Some x) al))"

text \<open>Cutting a key out of the slice of one field value.\<close>

definition detachFrom :: "'k \<Rightarrow> 'i \<Rightarrow> ('k, 'i list) alist \<Rightarrow> ('k, 'i list) alist" where
  "detachFrom k i m =
     (let ids = lookupSlice m k;
          m' = (if i \<in> set ids then AList.update k (remove1 i ids) m else m)
      in if lookupSlice m' k = [] then AList.delete k m' else m')"

lemma lookupSlice_Nil [simp]: "lookupSlice [] k = []"
  by (simp add: lookupSlice_def)

lemma lookupSlice_update [simp]:
  "lookupSlice (AList.update k xs m) k' = (if k' = k then xs else lookupSlice m k')"
  by (simp add: lookupSlice_def AList.update_conv')

lemma lookupSlice_delete [simp]:
  "lookupSlice (AList.delete k m) k' = (if k' = k then [] else lookupSlice m k')"
  by (simp add: lookupSlice_def AList.delete_conv')

lemma lookupSlice_detachFrom:
  "lookupSlice (detachFrom k i m) k' = (if k' = k then remove1 i (lookupSlice m k) else lookupSlice m k')"
  by (auto simp: detachFrom_def Let_def remove1_idem)

lemma distinct_detachFrom: "distinct (map fst m) \<Longrightarrow> distinct (map fst (detachFrom k i m))"
  by (simp add: detachFrom_def Let_def distinct_update distinct_delete)

lemma detachFrom_no_empty:
  assumes "\<forall>x. map_of m x \<noteq> Some []"
  shows "\<forall>x. map_of (detachFrom k i m) x \<noteq> Some []"
  using assms
  by (auto simp: detachFrom_def Let_def AList.update_conv' AList.delete_conv' lookupSlice_def
      split: if_splits option.splits)

end
