(* ===== verification/Strconv.thy ===== *)
theory Strconv
  imports Prelude
begin

text \<open>
  The decimal numerals that \<open>yacache/memory.go\<close> keeps its counters in and
  \<open>yaratelimit/yaratelimit.go\<close> its records: what the source uses of Go's \<open>strconv\<close>, \<open>fmt\<close> and
  \<open>strings\<close>. A numeral that is parsed fails with a syntax or a range error.

  The locale \<open>numeral_format\<close> is the contract between a printer and a parser of numerals; the
  clients use the two only through it.
\<close>

named_theorems numeral_simps \<open>parsing what was printed\<close>

section \<open>Printing\<close>

definition digitChar :: "nat \<Rightarrow> char" where
  "digitChar d = char_of (48 + d)"

fun formatNat :: "nat \<Rightarrow> string" where
  "formatNat n = (if n < 10 then [digitChar n] else formatNat (n div 10) @ [digitChar (n mod 10)])"

declare formatNat.simps [simp del]

text \<open>\<open>strconv.Itoa\<close> and the verb \<open>%d\<close>.\<close>

definition formatInt :: "int \<Rightarrow> string" where
  "formatInt i = (if i < 0 then CHR ''-'' # formatNat (nat (- i)) else formatNat (nat i))"

section \<open>Parsing\<close>

datatype numError = ErrSyntax | ErrRange

definition digitOf :: "char \<Rightarrow> nat option" where
  "digitOf c = (if 48 \<le> (of_char c :: nat) \<and> (of_char c :: nat) < 58 then Some (of_char c - 48) else None)"

text \<open>
  The loop of \<open>strconv.ParseUint\<close> in base 10: it stops at the first character that is no digit,
  and at the first digit that takes the value past the bound, whichever comes first.
\<close>

fun parseDigits :: "nat \<Rightarrow> nat \<Rightarrow> string \<Rightarrow> numError + nat" where
  "parseDigits bound n [] = Inr n"
| "parseDigits bound n (c # cs) =
     (case digitOf c of
        None \<Rightarrow> Inl ErrSyntax
      | Some d \<Rightarrow> if n * 10 + d \<ge> bound then Inl ErrRange else parseDigits bound (n * 10 + d) cs)"

definition ParseUint :: "string \<Rightarrow> nat \<Rightarrow> numError + nat" where
  "ParseUint s bits = (if s = '''' then Inl ErrSyntax else parseDigits (2 ^ bits) 0 s)"

text \<open>
  \<open>strconv.ParseInt\<close>: a sign, then an unsigned numeral. A numeral past the bound of the unsigned
  parser is past the bound here, so that its range error and the one below are the same.
\<close>

definition ParseInt :: "string \<Rightarrow> nat \<Rightarrow> numError + int" where
  "ParseInt s bits =
     (if s = '''' then Inl ErrSyntax
      else
        let neg = (hd s = CHR ''-'');
            rest = (if hd s = CHR ''+'' \<or> hd s = CHR ''-'' then tl s else s)
        in (case ParseUint rest bits of
              Inl er \<Rightarrow> Inl er
            | Inr un \<Rightarrow>
                if \<not> neg \<and> un \<ge> 2 ^ (bits - 1) then Inl ErrRange
                else if neg \<and> un > 2 ^ (bits - 1) then Inl ErrRange
                else Inr (if neg then - int un else int un)))"

text \<open>\<open>strconv.Atoi\<close>: an \<open>int\<close> has 64 bits.\<close>

definition Atoi :: "string \<Rightarrow> numError + int" where
  "Atoi s = ParseInt s 64"

section \<open>Splitting\<close>

text \<open>\<open>strings.Split\<close> with a separator of one character: the pieces between the separators.\<close>

fun splitOn :: "char \<Rightarrow> string \<Rightarrow> string list" where
  "splitOn sep [] = [[]]"
| "splitOn sep (c # cs) =
     (if c = sep then [] # splitOn sep cs
      else (case splitOn sep cs of [] \<Rightarrow> [[c]] | p # ps \<Rightarrow> (c # p) # ps))"

section \<open>What is printed parses back\<close>

lemma digitOf_digitChar [simp]: "d < 10 \<Longrightarrow> digitOf (digitChar d) = Some d"
  by (simp add: digitOf_def digitChar_def)

lemma digitChar_values [numeral_simps]:
  "digitChar 0 = CHR ''0''" "digitChar 1 = CHR ''1''" "digitChar (Suc 0) = CHR ''1''" "digitChar 2 = CHR ''2''"
  "digitChar 3 = CHR ''3''" "digitChar 4 = CHR ''4''" "digitChar 5 = CHR ''5''" "digitChar 6 = CHR ''6''"
  "digitChar 7 = CHR ''7''" "digitChar 8 = CHR ''8''" "digitChar 9 = CHR ''9''"
  by (simp_all add: digitChar_def char_of_eq_iff)

lemma digitChar_inj [simp]: "d < 10 \<Longrightarrow> d' < 10 \<Longrightarrow> digitChar d = digitChar d' \<longleftrightarrow> d = d'"
  using digitOf_digitChar by (metis option.inject)

lemma parseDigits_append:
  "parseDigits b n (xs @ ys) =
     (case parseDigits b n xs of Inl er \<Rightarrow> Inl er | Inr m \<Rightarrow> parseDigits b m ys)"
  by (induction xs arbitrary: n) (simp_all split: option.split)

lemma parseDigits_format [numeral_simps]: "n < b \<Longrightarrow> parseDigits b 0 (formatNat n) = Inr n"
proof (induction n rule: formatNat.induct)
  case (1 n)
  have "n div 10 < b" using "1.prems" div_le_dividend [of n 10] by simp
  moreover have "n div 10 * 10 + n mod 10 = n" by (rule div_mult_mod_eq)
  ultimately show ?case
    using "1.IH" "1.prems" by (subst formatNat.simps) (simp add: parseDigits_append)
qed

lemma formatNat_digits: "c \<in> set (formatNat n) \<Longrightarrow> \<exists>d < 10. c = digitChar d"
proof (induction n rule: formatNat.induct)
  case (1 n)
  have "\<exists>d < 10. digitChar (n mod 10) = digitChar d" by (rule exI [of _ "n mod 10"]) simp
  with 1 show ?case unfolding formatNat.simps [of n] by (cases "n < 10") auto
qed

lemma formatNat_nonempty [simp]: "formatNat n \<noteq> ''''"
  by (subst formatNat.simps) simp

lemma digitChar_sign: "d < 10 \<Longrightarrow> digitChar d \<noteq> CHR ''-'' \<and> digitChar d \<noteq> CHR ''+'' \<and> digitChar d \<noteq> CHR '',''"
  using digitOf_digitChar [of d] by (auto simp: digitOf_def)

lemma formatNat_no_sign:
  "CHR ''-'' \<notin> set (formatNat n)" "CHR ''+'' \<notin> set (formatNat n)" "CHR '','' \<notin> set (formatNat n)"
  using formatNat_digits [of _ n] digitChar_sign by metis+

lemma formatNat_hd: "hd (formatNat n) \<noteq> CHR ''-''" "hd (formatNat n) \<noteq> CHR ''+''"
  using formatNat_no_sign [of n] hd_in_set [OF formatNat_nonempty, of n] by metis+

lemma formatInt_no_comma: "CHR '','' \<notin> set (formatInt i)"
  by (simp add: formatInt_def formatNat_no_sign)

lemma ParseUint_format [numeral_simps]: "n < 2 ^ bits \<Longrightarrow> ParseUint (formatNat n) bits = Inr n"
  by (simp add: ParseUint_def parseDigits_format)

lemma ParseInt_format [numeral_simps]:
  assumes "in_int64 i"
  shows "ParseInt (formatInt i) 64 = Inr i"
proof (cases "i < 0")
  case True
  with assms have "nat (- i) < 2 ^ 64" "nat (- i) \<le> 2 ^ 63"
    by (simp_all add: in_int64_def minInt64_def nat_le_iff nat_less_iff)
  with True show ?thesis
    by (simp add: ParseInt_def formatInt_def ParseUint_format)
next
  case False
  with assms have "nat i < 2 ^ 64" "nat i < 2 ^ 63"
    by (simp_all add: in_int64_def maxInt64_def nat_less_iff)
  with False show ?thesis
    by (simp add: ParseInt_def formatInt_def ParseUint_format formatNat_hd)
qed

lemma splitOn_piece: "sep \<notin> set p \<Longrightarrow> splitOn sep p = [p]"
  by (induction p) auto

lemma splitOn_append: "sep \<notin> set p \<Longrightarrow> splitOn sep (p @ sep # q) = p # splitOn sep q"
  by (induction p) auto

section \<open>The contract\<close>

locale numeral_format =
  fixes print_num :: "'n \<Rightarrow> string" and parse_num :: "string \<Rightarrow> numError + 'n" and fits :: "'n \<Rightarrow> bool"
  assumes parses: "fits n \<Longrightarrow> parse_num (print_num n) = Inr n"
    and no_comma: "CHR '','' \<notin> set (print_num n)"
begin

lemma print_inj: "fits m \<Longrightarrow> fits n \<Longrightarrow> print_num m = print_num n \<longleftrightarrow> m = n"
  using parses by (metis Inr_inject)

lemma fields_split: "splitOn (CHR '','') (print_num n @ CHR '','' # q) = print_num n # splitOn (CHR '','') q"
  by (rule splitOn_append) (rule no_comma)

lemma field_alone: "splitOn (CHR '','') (print_num n) = [print_num n]"
  by (rule splitOn_piece) (rule no_comma)

end

interpretation int_numeral: numeral_format formatInt "\<lambda>s. ParseInt s 64" in_int64
  by unfold_locales (simp_all add: ParseInt_format formatInt_no_comma)

interpretation uint8_numeral: numeral_format formatNat "\<lambda>s. ParseUint s 8" "\<lambda>n. n < 2 ^ 8"
  by unfold_locales (simp_all only: ParseUint_format formatNat_no_sign not_False_eq_True)

end
