(* ===== verification/Markdown.thy ===== *)
theory Markdown
  imports Prelude Strconv "HOL-Library.While_Combinator" "HOL-Library.Multiset"
begin

text \<open>
  The Markdown dialect of Telegram messages (\<open>yatgmessageencoding/\<close>: \<open>markdown.go\<close>,
  \<open>delimiters.go\<close>, \<open>helpers.go\<close>, \<open>types.go\<close>): \<open>Parse\<close> turns delimiters into entities, \<open>Unparse\<close>
  writes them back. A Go string is the list of its bytes. Positions are pairs of 32-bit words, a byte
  offset and an offset in UTF-16 code units.

  A loop is a \<open>while_option\<close> whose \<open>None\<close> is a loop that never ends; inside, \<open>None\<close> is a panic. The
  variable \<open>offset\<close> of \<open>Parse\<close> is only written and is left out.
\<close>

section \<open>Runes\<close>

type_synonym rune = nat

definition RuneError :: rune where "RuneError = 0xFFFD"

definition byte_val :: "char \<Rightarrow> nat" where "byte_val c = of_char c"

definition cont_byte :: "nat \<Rightarrow> bool" where "cont_byte b \<longleftrightarrow> 0x80 \<le> b \<and> b \<le> 0xBF"

text \<open>\<open>utf8.DecodeRuneInString\<close>: the first rune and its width, \<open>RuneError\<close> of width one where the
  bytes are not UTF-8.\<close>

definition second_ok :: "nat \<Rightarrow> nat \<Rightarrow> bool" where
  "second_ok b0 b1 \<longleftrightarrow>
     (if b0 = 0xE0 then 0xA0 else if b0 = 0xF0 then 0x90 else 0x80) \<le> b1
     \<and> b1 \<le> (if b0 = 0xED then 0x9F else if b0 = 0xF4 then 0x8F else 0xBF)"

definition DecodeRune :: "string \<Rightarrow> rune \<times> nat" where
  "DecodeRune s =
     (case map byte_val (take 4 s) of
        [] \<Rightarrow> (RuneError, 0)
      | b0 # bs \<Rightarrow>
          if b0 < 0x80 then (b0, 1)
          else if 0xC2 \<le> b0 \<and> b0 \<le> 0xDF \<and> 1 \<le> length bs \<and> cont_byte (bs ! 0)
          then ((b0 - 0xC0) * 64 + (bs ! 0 - 0x80), 2)
          else if 0xE0 \<le> b0 \<and> b0 \<le> 0xEF \<and> 2 \<le> length bs \<and> second_ok b0 (bs ! 0) \<and> cont_byte (bs ! 1)
          then ((b0 - 0xE0) * 4096 + (bs ! 0 - 0x80) * 64 + (bs ! 1 - 0x80), 3)
          else if 0xF0 \<le> b0 \<and> b0 \<le> 0xF4 \<and> 3 \<le> length bs \<and> second_ok b0 (bs ! 0) \<and> cont_byte (bs ! 1)
            \<and> cont_byte (bs ! 2)
          then ((b0 - 0xF0) * 262144 + (bs ! 0 - 0x80) * 4096 + (bs ! 1 - 0x80) * 64 + (bs ! 2 - 0x80), 4)
          else (RuneError, 1))"

text \<open>\<open>string(r)\<close> of a rune, which is \<open>RuneError\<close> where \<open>r\<close> is not a code point.\<close>

definition encodeRune :: "rune \<Rightarrow> string" where
  "encodeRune r0 =
     (let r = (if 0x10FFFF < r0 \<or> 0xD800 \<le> r0 \<and> r0 \<le> 0xDFFF then RuneError else r0)
      in map char_of
        (if r < 0x80 then [r]
         else if r < 0x800 then [0xC0 + r div 64, 0x80 + r mod 64]
         else if r < 0x10000 then [0xE0 + r div 4096, 0x80 + r div 64 mod 64, 0x80 + r mod 64]
         else [0xF0 + r div 262144, 0x80 + r div 4096 mod 64, 0x80 + r div 64 mod 64, 0x80 + r mod 64]))"

text \<open>\<open>range\<close> over a string: its runes.\<close>

lemma DecodeRune_width: "0 < snd (DecodeRune (c # s))"
  by (simp add: DecodeRune_def)

function runesOf :: "string \<Rightarrow> rune list" where
  "runesOf s = (if s = [] then [] else fst (DecodeRune s) # runesOf (drop (snd (DecodeRune s)) s))"
  by pat_completeness auto
termination
proof (relation "measure length")
  fix s :: string
  assume "s \<noteq> []"
  then show "(drop (snd (DecodeRune s)) s, s) \<in> measure length"
    using DecodeRune_width [of "hd s" "tl s"] by simp
qed simp

declare runesOf.simps [simp del]

section \<open>Sizes\<close>

record multiSize =
  sz_utf8 :: u32
  sz_utf16 :: u32

definition maxMultiSize :: multiSize where
  "maxMultiSize = \<lparr>sz_utf8 = - 1, sz_utf16 = - 1\<rparr>"

definition size_Add :: "multiSize \<Rightarrow> multiSize \<Rightarrow> multiSize" where
  "size_Add m n = \<lparr>sz_utf8 = sz_utf8 m + sz_utf8 n, sz_utf16 = sz_utf16 m + sz_utf16 n\<rparr>"

definition size_Sub :: "multiSize \<Rightarrow> multiSize \<Rightarrow> multiSize" where
  "size_Sub m n = \<lparr>sz_utf8 = sz_utf8 m - sz_utf8 n, sz_utf16 = sz_utf16 m - sz_utf16 n\<rparr>"

definition unitsOf :: "rune \<Rightarrow> nat" where
  "unitsOf r = (if r \<le> 0xFFFF then 1 else 2)"

definition getUTF16LECUSize :: "string \<Rightarrow> u32" where
  "getUTF16LECUSize s = of_nat (sum_list (map unitsOf (runesOf s)))"

definition getUTF8Size :: "string \<Rightarrow> u32" where
  "getUTF8Size s = of_nat (length s)"

definition getMultiSize :: "string \<Rightarrow> multiSize" where
  "getMultiSize s = \<lparr>sz_utf8 = getUTF8Size s, sz_utf16 = getUTF16LECUSize s\<rparr>"

section \<open>Delimiters\<close>

type_synonym delimiter = string

definition lineBreak :: char where "lineBreak = CHR 0x0A"
definition preDelim :: delimiter where "preDelim = replicate 3 (CHR 0x60)"
definition boldDelim :: delimiter where "boldDelim = ''**''"
definition italicDelim :: delimiter where "italicDelim = ''__''"
definition underlineDelim :: delimiter where "underlineDelim = ''++''"
definition strikeDelim :: delimiter where "strikeDelim = ''~~''"
definition spoilerDelim :: delimiter where "spoilerDelim = ''||''"
definition quoteDelim :: delimiter where "quoteDelim = ''&&''"
definition codeDelim :: delimiter where "codeDelim = [CHR 0x60]"
definition linkStartDelim :: delimiter where "linkStartDelim = ''[''"
definition linkMiddleDelim :: delimiter where "linkMiddleDelim = ''](''"
definition linkEndDelim :: delimiter where "linkEndDelim = '')''"
definition escapeDelim :: delimiter where "escapeDelim = [CHR 0x5C]"

definition allStandardDelimiters :: "delimiter list" where
  "allStandardDelimiters =
     [preDelim, boldDelim, italicDelim, underlineDelim, strikeDelim, spoilerDelim, quoteDelim, codeDelim]"

definition allURLLikeDelimiters :: "delimiter list" where
  "allURLLikeDelimiters = [linkStartDelim, linkMiddleDelim, linkEndDelim]"

definition allDelimiters :: "delimiter list" where
  "allDelimiters = allStandardDelimiters @ allURLLikeDelimiters"

definition largestDelimiterSize :: nat where
  "largestDelimiterSize = fold (\<lambda>d. max (length d)) allDelimiters 0"

text \<open>The size of a delimiter that is none is zero, as a missing key of the map.\<close>

definition delim_Size :: "delimiter \<Rightarrow> multiSize" where
  "delim_Size d = (if d \<in> set allDelimiters \<or> d = escapeDelim then getMultiSize d else \<lparr>sz_utf8 = 0, sz_utf16 = 0\<rparr>)"

definition charsToEscape :: "rune list" where
  "charsToEscape = remdups (concat (map runesOf (allDelimiters @ [escapeDelim])))"

text \<open>The message entities of gotd that have a delimiter, and one for all others.\<close>

datatype messageEntity =
    Bold (ent_Offset: int) (ent_Length: int) | Italic (ent_Offset: int) (ent_Length: int)
  | Underline (ent_Offset: int) (ent_Length: int) | Strike (ent_Offset: int) (ent_Length: int)
  | Spoiler (ent_Offset: int) (ent_Length: int) | Blockquote (ent_Offset: int) (ent_Length: int)
  | CodeEntity (ent_Offset: int) (ent_Length: int) | Pre (ent_Offset: int) (ent_Length: int) string
  | TextURL (ent_Offset: int) (ent_Length: int) string | CustomEmoji (ent_Offset: int) (ent_Length: int) int
  | OtherEntity (ent_Offset: int) (ent_Length: int)

definition CreateEntity :: "delimiter \<Rightarrow> u32 \<Rightarrow> u32 \<Rightarrow> string \<Rightarrow> messageEntity option" where
  "CreateEntity d off len param =
     (let i = uint off; n = uint len
      in if d = boldDelim then Some (Bold i n)
         else if d = italicDelim then Some (Italic i n)
         else if d = underlineDelim then Some (Underline i n)
         else if d = strikeDelim then Some (Strike i n)
         else if d = spoilerDelim then Some (Spoiler i n)
         else if d = quoteDelim then Some (Blockquote i n)
         else if d = codeDelim then Some (CodeEntity i n)
         else if d = preDelim then Some (Pre i n param)
         else if d \<in> set allURLLikeDelimiters then
           Some (case ParseInt param 64 of Inr uid \<Rightarrow> CustomEmoji i n uid | Inl _ \<Rightarrow> TextURL i n param)
         else None)"

fun getDelimiterForEntity :: "messageEntity \<Rightarrow> delimiter" where
  "getDelimiterForEntity (Bold _ _) = boldDelim"
| "getDelimiterForEntity (Italic _ _) = italicDelim"
| "getDelimiterForEntity (Underline _ _) = underlineDelim"
| "getDelimiterForEntity (Strike _ _) = strikeDelim"
| "getDelimiterForEntity (Spoiler _ _) = spoilerDelim"
| "getDelimiterForEntity (Blockquote _ _) = quoteDelim"
| "getDelimiterForEntity (CodeEntity _ _) = codeDelim"
| "getDelimiterForEntity (Pre _ _ _) = preDelim"
| "getDelimiterForEntity (TextURL _ _ _) = linkStartDelim"
| "getDelimiterForEntity (CustomEmoji _ _ _) = linkStartDelim"
| "getDelimiterForEntity (OtherEntity _ _) = ''''"

end
