(* ===== verification/Markdown_Text.thy ===== *)
theory Markdown_Text
  imports Markdown
begin

text \<open>
  Texts as sequences of code points: \<open>utf8\<close> writes them as bytes, decoding reads them back, and
  \<open>pos\<close> is the position after them. No delimiter begins with a byte of a rune that needs no escape.
\<close>

named_theorems md_delims \<open>the delimiters, written out\<close>

declare preDelim_def [md_delims] boldDelim_def [md_delims] italicDelim_def [md_delims] underlineDelim_def [md_delims]
  strikeDelim_def [md_delims] spoilerDelim_def [md_delims] quoteDelim_def [md_delims] codeDelim_def [md_delims]
  linkStartDelim_def [md_delims] linkMiddleDelim_def [md_delims] linkEndDelim_def [md_delims] escapeDelim_def [md_delims]
  allStandardDelimiters_def [md_delims] allURLLikeDelimiters_def [md_delims] allDelimiters_def [md_delims]

section \<open>Runes\<close>

definition codePoint :: "rune \<Rightarrow> bool" where
  "codePoint r \<longleftrightarrow> r < 0xD800 \<or> 0xDFFF < r \<and> r \<le> 0x10FFFF"

lemma byte_val_char [simp]: "n < 256 \<Longrightarrow> byte_val (char_of n) = n"
  by (simp add: byte_val_def)

lemma split64: "r div 4096 * 4096 + r div 64 mod 64 * 64 + r mod 64 = r" for r :: nat
proof -
  have "r div 4096 = r div 64 div 64" by (simp add: div_mult2_eq [symmetric])
  then show ?thesis
    using div_mult_mod_eq [of r 64] div_mult_mod_eq [of "r div 64" 64] by linarith
qed

lemma split64':
  "r div 262144 * 262144 + r div 4096 mod 64 * 4096 + r div 64 mod 64 * 64 + r mod 64 = r" for r :: nat
proof -
  have "r div 262144 = r div 4096 div 64" by (simp add: div_mult2_eq [symmetric])
  then show ?thesis
    using split64 [of r] div_mult_mod_eq [of "r div 4096" 64] by linarith
qed

lemma div_le_lt: "a * k \<le> r \<Longrightarrow> r < b * k \<Longrightarrow> 0 < k \<Longrightarrow> a \<le> r div k \<and> r div k < b" for a b k r :: nat
  by (simp add: less_mult_imp_div_less less_eq_div_iff_mult_less_eq)

lemma DecodeRune_encode:
  assumes "codePoint r"
  shows "DecodeRune (encodeRune r @ s) = (r, length (encodeRune r))"
proof -
  have ok: "\<not> (0x10FFFF < r \<or> 0xD800 \<le> r \<and> r \<le> 0xDFFF)" using assms by (auto simp: codePoint_def)
  note e = encodeRune_def [of r, unfolded if_not_P [OF ok] Let_def]
  consider "r < 0x80" | "0x80 \<le> r" "r < 0x800" | "0x800 \<le> r" "r < 0x10000" | "0x10000 \<le> r" "r \<le> 0x10FFFF"
    using assms by (fastforce simp: codePoint_def)
  then show ?thesis
  proof cases
    case 1
    then show ?thesis by (simp add: e DecodeRune_def)
  next
    case 2
    define a b where "a = r div 64" and "b = r mod 64"
    have ab: "2 \<le> a" "a < 32" "b < 64"
      using div_le_lt [of 2 64 r 32] 2 by (simp_all add: a_def b_def)
    have r: "r = a * 64 + b" by (simp add: a_def b_def)
    show ?thesis
      using 2 ab r unfolding e a_def [symmetric] b_def [symmetric] by (simp add: DecodeRune_def cont_byte_def)
  next
    case 3
    define a b c where "a = r div 4096" and "b = r div 64 mod 64" and "c = r mod 64"
    have a: "a < 16" unfolding a_def using div_le_lt [of 0 4096 r 16] 3 by simp
    have bc: "b < 64" "c < 64" by (simp_all add: b_def c_def)
    have r: "r = a * 4096 + b * 64 + c" using split64 [of r] by (simp add: a_def b_def c_def)
    have "second_ok (0xE0 + a) (0x80 + b)"
      using 3 ok a bc unfolding second_ok_def r by (auto split: if_splits)
    then show ?thesis
      using 3 a bc r unfolding e a_def [symmetric] b_def [symmetric] c_def [symmetric]
      by (simp add: DecodeRune_def cont_byte_def)
  next
    case 4
    define a b c d where "a = r div 262144" and "b = r div 4096 mod 64" and "c = r div 64 mod 64" and "d = r mod 64"
    have a: "a < 5" unfolding a_def using div_le_lt [of 0 262144 r 5] 4 by simp
    have bcd: "b < 64" "c < 64" "d < 64" by (simp_all add: b_def c_def d_def)
    have r: "r = a * 262144 + b * 4096 + c * 64 + d" using split64' [of r] by (simp add: a_def b_def c_def d_def)
    have "second_ok (0xF0 + a) (0x80 + b)"
      using 4 a bcd unfolding second_ok_def r by (auto split: if_splits)
    then show ?thesis
      using 4 a bcd r unfolding e a_def [symmetric] b_def [symmetric] c_def [symmetric] d_def [symmetric]
      by (simp add: DecodeRune_def cont_byte_def)
  qed
qed

lemma length_encodeRune: "0 < length (encodeRune r) \<and> length (encodeRune r) \<le> 4"
  by (simp add: encodeRune_def Let_def)

lemma encodeRune_nonempty [simp]: "encodeRune r \<noteq> []"
  using length_encodeRune [of r] by auto

lemma runesOf_Nil [simp]: "runesOf [] = []"
  by (simp add: runesOf.simps)

lemma runesOf_encode: "codePoint r \<Longrightarrow> runesOf (encodeRune r @ s) = r # runesOf s"
  by (subst runesOf.simps) (simp add: DecodeRune_encode)

section \<open>Texts\<close>

definition utf8 :: "rune list \<Rightarrow> string" where
  "utf8 rs = concat (map encodeRune rs)"

definition units :: "rune list \<Rightarrow> nat" where
  "units rs = sum_list (map unitsOf rs)"

lemma utf8_simps [simp]: "utf8 [] = []" "utf8 (r # rs) = encodeRune r @ utf8 rs" "utf8 (rs @ qs) = utf8 rs @ utf8 qs"
  by (simp_all add: utf8_def)

lemma units_simps [simp]: "units [] = 0" "units (r # rs) = unitsOf r + units rs" "units (rs @ qs) = units rs + units qs"
  by (simp_all add: units_def)

lemma unitsOf_le: "unitsOf r \<le> 2" "0 < unitsOf r"
  by (simp_all add: unitsOf_def)

lemma units_le: "list_all codePoint rs \<Longrightarrow> units rs \<le> length (utf8 rs)"
proof (induction rs)
  case (Cons r rs)
  then have "unitsOf r \<le> length (encodeRune r)"
    by (auto simp: unitsOf_def encodeRune_def codePoint_def Let_def)
  then show ?case using Cons by simp
qed simp

lemma runesOf_utf8: "list_all codePoint rs \<Longrightarrow> runesOf (utf8 rs @ s) = rs @ runesOf s"
  by (induction rs) (simp_all add: runesOf_encode)

definition pos :: "rune list \<Rightarrow> multiSize" where
  "pos rs = \<lparr>sz_utf8 = of_nat (length (utf8 rs)), sz_utf16 = of_nat (units rs)\<rparr>"

lemma getMultiSize_utf8: "list_all codePoint rs \<Longrightarrow> getMultiSize (utf8 rs) = pos rs"
  using runesOf_utf8 [of rs "[]"]
  by (simp add: getMultiSize_def getUTF8Size_def getUTF16LECUSize_def pos_def units_def)

lemma pos_add: "list_all codePoint qs \<Longrightarrow> size_Add (pos rs) (getMultiSize (utf8 qs)) = pos (rs @ qs)"
  by (simp add: getMultiSize_utf8) (simp add: pos_def size_Add_def)

lemma pos_add_rune: "codePoint r \<Longrightarrow> size_Add (pos rs) (getMultiSize (encodeRune r)) = pos (rs @ [r])"
  using pos_add [of "[r]" rs] by simp

lemma pos_zero: "pos [] = \<lparr>sz_utf8 = 0, sz_utf16 = 0\<rparr>"
  by (simp add: pos_def)

lemma unat_pos: "length (utf8 rs) < 2 ^ 32 \<Longrightarrow> unat (sz_utf8 (pos rs)) = length (utf8 rs)"
  by (simp add: pos_def unat_of_nat take_bit_nat_eq_self)

lemma pos_not_max:
  assumes "length (utf8 rs) < 2 ^ 32 - 1"
  shows "pos rs \<noteq> maxMultiSize"
proof
  assume "pos rs = maxMultiSize"
  then have "unat (sz_utf8 (pos rs)) = unat (- 1 :: u32)" by (simp add: maxMultiSize_def)
  moreover have "unat (- 1 :: u32) = 2 ^ 32 - 1" by (simp add: unsigned_minus_1_eq_mask mask_eq_exp_minus_1)
  ultimately show False using assms unat_pos [of rs] by simp
qed

section \<open>Delimiters\<close>

lemma runesOf_ascii: "list_all (\<lambda>c. byte_val c < 0x80) s \<Longrightarrow> runesOf s = map byte_val s"
proof (induction s)
  case (Cons c s)
  then have "DecodeRune (c # s) = (byte_val c, 1)" by (simp add: DecodeRune_def)
  then show ?case using Cons runesOf.simps [of "c # s"] by simp
qed simp

lemma charsToEscape_eq: "set charsToEscape = {0x60, 0x2A, 0x5F, 0x2B, 0x7E, 0x7C, 0x26, 0x5B, 0x5D, 0x28, 0x29, 0x5C}"
  by (simp add: charsToEscape_def md_delims runesOf_ascii byte_val_def numeral_3_eq_3) auto

lemma delim_first: "d \<in> set allDelimiters \<Longrightarrow> d \<noteq> [] \<and> byte_val (hd d) \<in> set charsToEscape"
  by (auto simp: charsToEscape_eq md_delims byte_val_def numeral_3_eq_3)

lemma delim_length: "d \<in> set allDelimiters \<Longrightarrow> 0 < length d \<and> length d \<le> 3"
  by (auto simp: md_delims)

lemma largestDelimiterSize_3: "largestDelimiterSize = 3"
  by (simp add: largestDelimiterSize_def md_delims)

lemma hd_encodeRune: "codePoint r \<Longrightarrow> byte_val (hd (encodeRune r)) = r \<or> 0x80 \<le> byte_val (hd (encodeRune r)) \<and> 0x80 \<le> r"
proof -
  assume "codePoint r"
  then have ok: "\<not> (0x10FFFF < r \<or> 0xD800 \<le> r \<and> r \<le> 0xDFFF)" by (auto simp: codePoint_def)
  have "r div 64 < 32" if "r < 0x800" using div_le_lt [of 0 64 r 32] that by simp
  moreover have "r div 4096 < 16" if "r < 0x10000" using div_le_lt [of 0 4096 r 16] that by simp
  moreover have "r div 262144 < 5" using div_le_lt [of 0 262144 r 5] ok by simp
  ultimately show ?thesis
    unfolding encodeRune_def if_not_P [OF ok] Let_def by auto
qed

lemma special_ascii: "r \<in> set charsToEscape \<Longrightarrow> r < 0x80"
  unfolding charsToEscape_eq by auto

lemma plain_first:
  assumes "codePoint r" and "r \<notin> set charsToEscape"
  shows "byte_val (hd (encodeRune r)) \<notin> set charsToEscape"
proof
  assume "byte_val (hd (encodeRune r)) \<in> set charsToEscape"
  then have "byte_val (hd (encodeRune r)) < 0x80" by (rule special_ascii)
  then have "byte_val (hd (encodeRune r)) = r" using hd_encodeRune [OF assms(1)] by linarith
  then show False using \<open>byte_val (hd (encodeRune r)) \<in> set charsToEscape\<close> assms(2) by simp
qed

lemma encodeRune_special: "r \<in> set charsToEscape \<Longrightarrow> codePoint r \<and> encodeRune r = [char_of r]"
  using special_ascii [of r] by (simp add: codePoint_def encodeRune_def)

end
