(* ===== verification/Markdown_Parse.thy ===== *)
theory Markdown_Parse
  imports Markdown
begin

text \<open>
  \<open>Parse\<close> of \<open>yatgmessageencoding/markdown.go\<close>. One iteration of its loop over the text is
  \<open>parseStep\<close>; the loop inside it that tries the longest delimiter first is \<open>foundDelimiter\<close>, since
  what follows a match always leaves that loop.
\<close>

section \<open>The loop\<close>

record parseState =
  ps_text :: string
  ps_entities :: "messageEntity list"
  ps_stack :: "delimiter \<Rightarrow> multiSize"
  ps_link :: multiSize
  ps_emoji :: multiSize
  ps_preLanguage :: string
  ps_isEscaped :: nat
  ps_index :: multiSize

definition ps_at :: "parseState \<Rightarrow> nat" where
  "ps_at st = unat (sz_utf8 (ps_index st))"

text \<open>\<open>m.text[:position] + m.text[position+size:]\<close>, a panic where the slice is out of range.\<close>

definition removeAt :: "nat \<Rightarrow> nat \<Rightarrow> string \<Rightarrow> string option" where
  "removeAt position n s = (if position + n \<le> length s then Some (take position s @ drop (position + n) s) else None)"

definition moveOn :: "rune \<Rightarrow> parseState \<Rightarrow> parseState" where
  "moveOn r st = st\<lparr>ps_index := size_Add (ps_index st) (getMultiSize (encodeRune r))\<rparr>"

definition sliceAt :: "string \<Rightarrow> nat \<Rightarrow> nat \<Rightarrow> delimiter" where
  "sliceAt s i n = drop (min i (length s - 1)) (take (min (i + n) (length s)) s)"

definition foundDelimiter :: "string \<Rightarrow> nat \<Rightarrow> delimiter option" where
  "foundDelimiter s i =
     List.find (\<lambda>d. d \<in> set allURLLikeDelimiters \<or> d \<in> set allStandardDelimiters)
       (map (sliceAt s i) (rev [1..<Suc largestDelimiterSize]))"

text \<open>A delimiter that was recognized is cut out and the text at the same position looked at again.\<close>

text \<open>\<open>if entity != nil\<close>, the entity is appended.\<close>

definition entityList :: "messageEntity option \<Rightarrow> messageEntity list" where
  "entityList en = (case en of None \<Rightarrow> [] | Some e \<Rightarrow> [e])"

definition cutDelimiter :: "delimiter \<Rightarrow> parseState \<Rightarrow> parseState option" where
  "cutDelimiter d st =
     map_option (\<lambda>s. st\<lparr>ps_text := s\<rparr>) (removeAt (ps_at st) (unat (sz_utf8 (delim_Size d))) (ps_text st))"

text \<open>The target of a link whose text began at \<open>start\<close>: all up to the closing parenthesis. Without
  one the delimiter stays where it is. The state given back has the link's start cleared by the caller.\<close>

definition closeLink :: "multiSize \<Rightarrow> parseState \<Rightarrow> parseState option" where
  "closeLink start st =
     (let i = ps_at st + length linkMiddleDelim;
          tail = drop i (ps_text st);
          url = takeWhile (\<lambda>c. c \<noteq> hd linkEndDelim) tail
      in if hd linkEndDelim \<notin> set tail then Some st
         else map_option
           (\<lambda>s. st\<lparr>ps_text := s,
              ps_entities := ps_entities st @ entityList (CreateEntity linkMiddleDelim (sz_utf16 start)
                (sz_utf16 (ps_index st) - sz_utf16 start) url)\<rparr>)
           (removeAt (ps_at st) (unat (sz_utf8 (size_Add (size_Add (delim_Size linkMiddleDelim) (getMultiSize url))
              (delim_Size linkEndDelim)))) (ps_text st)))"

definition urlLikeStep :: "delimiter \<Rightarrow> rune \<Rightarrow> parseState \<Rightarrow> parseState option" where
  "urlLikeStep d r st =
     (if d = linkStartDelim then
        (if ps_link st = maxMultiSize then cutDelimiter d (st\<lparr>ps_link := ps_index st\<rparr>)
         else if ps_emoji st = maxMultiSize then cutDelimiter d (st\<lparr>ps_emoji := ps_index st\<rparr>)
         else Some (moveOn r st))
      else if d = linkMiddleDelim then
        (if ps_link st \<noteq> maxMultiSize then
           map_option (\<lambda>st. st\<lparr>ps_link := maxMultiSize\<rparr>) (closeLink (ps_link st) st)
         else if ps_emoji st \<noteq> maxMultiSize then
           map_option (\<lambda>st. st\<lparr>ps_emoji := maxMultiSize\<rparr>) (closeLink (ps_emoji st) st)
         else Some st)
      else Some (moveOn r st))"

text \<open>What follows an opening code block up to the end of its line is its language.\<close>

definition takeLanguage :: "parseState \<Rightarrow> parseState option" where
  "takeLanguage st =
     (let i = ps_at st + length preDelim;
          lang = takeWhile (\<lambda>c. c \<noteq> lineBreak) (drop i (ps_text st));
          st = st\<lparr>ps_preLanguage := lang\<rparr>
      in if lang = [] then Some st
         else map_option (\<lambda>s. st\<lparr>ps_text := s\<rparr>) (removeAt i (length lang + 1) (ps_text st)))"

text \<open>A line break before the delimiter that closes a code block goes with it.\<close>

definition dropLineBreak :: "parseState \<Rightarrow> parseState option" where
  "dropLineBreak st =
     (if ps_at st \<noteq> 0 \<and> ps_text st ! (ps_at st - 1) = lineBreak
      then map_option (\<lambda>s. st\<lparr>ps_text := s, ps_index := size_Sub (ps_index st) (getMultiSize [lineBreak])\<rparr>)
             (removeAt (ps_at st - 1) 1 (ps_text st))
      else Some st)"

definition standardStep :: "delimiter \<Rightarrow> parseState \<Rightarrow> parseState option" where
  "standardStep d st =
     (if ps_stack st d = maxMultiSize then
        (let st = st\<lparr>ps_stack := (ps_stack st)(d := ps_index st)\<rparr>
         in Option.bind (if d = preDelim then takeLanguage st else Some st) (cutDelimiter d))
      else
        Option.bind (if d = preDelim then dropLineBreak st else Some st)
          (\<lambda>st. cutDelimiter d (st\<lparr>
             ps_entities := ps_entities st @ entityList (CreateEntity d (sz_utf16 (ps_stack st d))
               (sz_utf16 (ps_index st) - sz_utf16 (ps_stack st d)) (ps_preLanguage st)),
             ps_stack := (ps_stack st)(d := maxMultiSize)\<rparr>)))"

definition parseStep :: "parseState \<Rightarrow> parseState option" where
  "parseStep st =
     (let r = fst (DecodeRune (drop (ps_at st) (ps_text st)))
      in if 0 < ps_isEscaped st then Some (moveOn r (st\<lparr>ps_isEscaped := ps_isEscaped st - 1\<rparr>))
         else if encodeRune r = escapeDelim then
           map_option (\<lambda>st. st\<lparr>ps_isEscaped := ps_isEscaped st + unat (sz_utf8 (delim_Size escapeDelim))\<rparr>)
             (cutDelimiter escapeDelim st)
         else case foundDelimiter (ps_text st) (ps_at st) of
           None \<Rightarrow> Some (moveOn r st)
         | Some d \<Rightarrow> if d \<in> set allURLLikeDelimiters then urlLikeStep d r st else standardStep d st)"

definition parseRunning :: "parseState option \<Rightarrow> bool" where
  "parseRunning x = (case x of None \<Rightarrow> False | Some st \<Rightarrow> ps_at st < length (ps_text st))"

definition parseLoop :: "parseState \<Rightarrow> parseState option option" where
  "parseLoop st = while_option parseRunning (\<lambda>x. Option.bind x parseStep) (Some st)"

definition parseInit :: "string \<Rightarrow> parseState" where
  "parseInit s = \<lparr>ps_text = s, ps_entities = [], ps_stack = \<lambda>_. maxMultiSize, ps_link = maxMultiSize,
     ps_emoji = maxMultiSize, ps_preLanguage = [], ps_isEscaped = 0, ps_index = \<lparr>sz_utf8 = 0, sz_utf16 = 0\<rparr>\<rparr>"

text \<open>A parse may never return, panic, or return the text and its entities.\<close>

datatype 'a outcome = NeverReturns | Panics | Returns 'a

definition Parse :: "string \<Rightarrow> (string \<times> messageEntity list) outcome" where
  "Parse s =
     (case parseLoop (parseInit s) of
        None \<Rightarrow> NeverReturns
      | Some None \<Rightarrow> Panics
      | Some (Some st) \<Rightarrow> Returns (ps_text st, ps_entities st))"

section \<open>Unfolding the loop\<close>

lemma parseLoop_step:
  assumes "ps_at st < length (ps_text st)"
  shows "parseLoop st = (case parseStep st of None \<Rightarrow> Some None | Some st' \<Rightarrow> parseLoop st')"
  unfolding parseLoop_def
  by (subst while_option_unfold)
     (auto simp: parseRunning_def assms while_option_unfold [where s = None] split: option.split)

lemma parseLoop_end: "\<not> ps_at st < length (ps_text st) \<Longrightarrow> parseLoop st = Some (Some st)"
  unfolding parseLoop_def by (subst while_option_unfold) (simp add: parseRunning_def)

lemma parseLoop_stuck:
  assumes "ps_at st < length (ps_text st)" and "parseStep st = Some st"
  shows "parseLoop st = None"
proof -
  have "((\<lambda>x. Option.bind x parseStep) ^^ k) (Some st) = Some st" for k
    by (induction k) (simp_all add: assms(2))
  then show ?thesis
    by (simp add: parseLoop_def while_option_def parseRunning_def assms(1))
qed

end
