(* ===== verification/Markdown_Outcomes.thy ===== *)
theory Markdown_Outcomes
  imports Markdown_Text Markdown_Parse "HOL-Library.Sublist"
begin

text \<open>
  How a parse ends: it returns on every text without an unescaped link delimiter out of place and
  without a code block left open, and it hangs or panics on others.
\<close>

section \<open>What is left of the text\<close>

definition unread :: "parseState \<Rightarrow> string" where
  "unread st = drop (ps_at st) (ps_text st)"

definition isDelimiter :: "string \<Rightarrow> bool" where
  "isDelimiter d \<longleftrightarrow> d \<in> set allURLLikeDelimiters \<or> d \<in> set allStandardDelimiters"

definition firstDelimiter :: "string \<Rightarrow> delimiter option" where
  "firstDelimiter u = List.find isDelimiter [take 3 u, take 2 u, take 1 u]"

lemma isDelimiter_iff: "isDelimiter d \<longleftrightarrow> d \<in> set allDelimiters"
  by (auto simp: isDelimiter_def allDelimiters_def)

lemma sliceAt_take: "i < length s \<Longrightarrow> sliceAt s i n = take n (drop i s)"
  by (cases "i + n \<le> length s") (simp_all add: sliceAt_def drop_take min_def)

lemma foundDelimiter_first:
  assumes "i < length s"
  shows "foundDelimiter s i = firstDelimiter (drop i s)"
proof -
  have "map (sliceAt s i) (rev [1..<Suc largestDelimiterSize]) = [take 3 (drop i s), take 2 (drop i s), take 1 (drop i s)]"
    using assms by (simp add: largestDelimiterSize_3 sliceAt_take numeral_3_eq_3 numeral_2_eq_2)
  then show ?thesis
    by (simp add: foundDelimiter_def firstDelimiter_def isDelimiter_def cong: if_cong)
qed

lemma firstDelimiter_prefix:
  assumes "firstDelimiter u = Some d"
  shows "d \<in> set allDelimiters \<and> take (length d) u = d"
proof -
  have "isDelimiter d" "d = take 3 u \<or> d = take 2 u \<or> d = take 1 u"
    using assms by (auto simp: firstDelimiter_def split: if_splits)
  then show ?thesis by (auto simp: isDelimiter_iff min_def)
qed

lemma firstDelimiter_plain:
  assumes "u \<noteq> []" and "byte_val (hd u) \<notin> set charsToEscape"
  shows "firstDelimiter u = None"
proof -
  have "\<not> isDelimiter (take n u)" if "0 < n" for n
    using delim_first [of "take n u"] assms that by (auto simp: isDelimiter_iff)
  then show ?thesis by (simp add: firstDelimiter_def)
qed

lemma delim_Size_length:
  "d \<in> set allDelimiters \<or> d = escapeDelim \<Longrightarrow> unat (sz_utf8 (delim_Size d)) = length d"
proof -
  assume d: "d \<in> set allDelimiters \<or> d = escapeDelim"
  then have "length d \<le> 3" using delim_length [of d] by (auto simp: escapeDelim_def)
  then show ?thesis
    using d by (simp add: delim_Size_def getMultiSize_def getUTF8Size_def unat_of_nat take_bit_nat_eq_self)
qed

lemma DecodeRune_wide:
  assumes "0x80 \<le> byte_val c"
  shows "0x80 \<le> fst (DecodeRune (c # s))"
proof -
  define b0 bs where "b0 = byte_val c" and "bs = map byte_val (take 3 s)"
  have m: "map byte_val (take 4 (c # s)) = b0 # bs" by (simp add: b0_def bs_def)
  have e: "0x80 \<le> (b0 - 0xE0) * 4096 + (bs ! 0 - 0x80) * 64 + x" if "0xE0 \<le> b0" "second_ok b0 (bs ! 0)" for x
    using that by (cases "b0 = 0xE0") (simp_all add: second_ok_def, linarith)
  have f: "0x80 \<le> (b0 - 0xF0) * 262144 + (bs ! 0 - 0x80) * 4096 + y + x" if "0xF0 \<le> b0" "second_ok b0 (bs ! 0)" for x y
    using that by (cases "b0 = 0xF0") (simp_all add: second_ok_def, linarith)
  have d: "0x80 \<le> (b0 - 0xC0) * 64 + x" if "0xC2 \<le> b0" for x
    using that by simp
  show ?thesis
    using assms unfolding DecodeRune_def m list.case b0_def [symmetric]
    by (simp add: d e f RuneError_def)
qed

lemma escape_first:
  assumes "encodeRune (fst (DecodeRune u)) = escapeDelim" and "u \<noteq> []"
  shows "take (length escapeDelim) u = escapeDelim"
proof -
  obtain c s where u: "u = c # s" using assms(2) by (cases u) auto
  have e: "encodeRune (fst (DecodeRune u)) = [CHR 0x5C]" using assms(1) by (simp add: escapeDelim_def)
  have "fst (DecodeRune u) < 0x80"
  proof (rule ccontr)
    assume "\<not> fst (DecodeRune u) < 0x80"
    then have "length (encodeRune (fst (DecodeRune u))) \<noteq> 1" by (simp add: encodeRune_def RuneError_def Let_def)
    then show False using e by simp
  qed
  moreover have "fst (DecodeRune u) = byte_val c" if "fst (DecodeRune u) < 0x80"
    using DecodeRune_wide [of c s] that by (cases "byte_val c < 0x80") (simp_all add: u, simp add: DecodeRune_def)
  ultimately have "encodeRune (byte_val c) = [CHR 0x5C]" "byte_val c < 0x80" using e by auto
  then have "c = CHR 0x5C" by (simp add: encodeRune_def byte_val_def)
  then show ?thesis by (simp add: u escapeDelim_def)
qed

section \<open>Progress\<close>

text \<open>A step cuts some bytes off what is left, or is at a link's middle; it panics only at a code
  block that is opened on the last line.\<close>

definition progress :: "parseState \<Rightarrow> parseState option \<Rightarrow> bool" where
  "progress st x \<longleftrightarrow>
     (case x of
        None \<Rightarrow> \<exists>u. unread st = preDelim @ u \<and> u \<noteq> [] \<and> lineBreak \<notin> set u
      | Some st' \<Rightarrow> length (ps_text st') \<le> length (ps_text st)
          \<and> (\<exists>n. unread st' = drop n (unread st) \<and> (0 < n \<or> take 2 (unread st) = linkMiddleDelim)))"

definition in_text :: "parseState \<Rightarrow> bool" where
  "in_text st \<longleftrightarrow> ps_at st < length (ps_text st) \<and> length (ps_text st) < 2 ^ 32 - 4"

lemma removeAt_Some:
  "removeAt i n s = Some s' \<Longrightarrow> i + n \<le> length s \<and> drop i s' = drop (i + n) s \<and> length s' = length s - n \<and> take i s' = take i s"
  by (auto simp: removeAt_def split: if_splits)

lemma removeAt_fits: "i + n \<le> length s \<Longrightarrow> removeAt i n s = Some (take i s @ drop (i + n) s)"
  by (simp add: removeAt_def)

lemma ps_at_moveOn:
  assumes "in_text st"
  shows "ps_at (moveOn r st) = ps_at st + length (encodeRune r)"
proof -
  have l: "ps_at st + length (encodeRune r) < 2 ^ 32"
    using assms length_encodeRune [of r] by (simp add: in_text_def)
  then have "unat (of_nat (length (encodeRune r)) :: u32) = length (encodeRune r)"
    by (simp add: unat_of_nat take_bit_nat_eq_self)
  then have "unat (sz_utf8 (ps_index st) + of_nat (length (encodeRune r))) = ps_at st + length (encodeRune r)"
    using l by (subst unat_add_lem [THEN iffD1]) (simp_all add: ps_at_def)
  then show ?thesis
    by (simp add: moveOn_def size_Add_def ps_at_def getMultiSize_def getUTF8Size_def)
qed

lemma moveOn_progress: "in_text st \<Longrightarrow> progress st (Some (moveOn r st))"
  using ps_at_moveOn [of st r] length_encodeRune [of r]
  by (auto simp: progress_def unread_def moveOn_def add.commute intro!: exI [of _ "length (encodeRune r)"])

lemma cut_at_front:
  assumes "in_text st" and "d \<in> set allDelimiters \<or> d = escapeDelim" and "take (length d) (unread st) = d"
  shows "cutDelimiter d st = Some (st\<lparr>ps_text := take (ps_at st) (ps_text st) @ drop (length d) (unread st)\<rparr>)"
proof -
  have "length d = min (length (ps_text st) - ps_at st) (length d)"
    using arg_cong [OF assms(3), of length] by (simp add: unread_def)
  then have "ps_at st + length d \<le> length (ps_text st)"
    using assms(1) by (simp add: in_text_def) linarith
  then show ?thesis
    by (simp add: cutDelimiter_def delim_Size_length assms(2) removeAt_fits unread_def add.commute)
qed

lemma unread_cut:
  assumes "in_text st"
  shows "unread (st\<lparr>ps_text := take (ps_at st) (ps_text st) @ u\<rparr>) = u"
  using assms by (simp add: unread_def ps_at_def in_text_def)

lemma unread_upd [simp]:
  "unread (st\<lparr>ps_entities := es\<rparr>) = unread st" "unread (st\<lparr>ps_stack := sk\<rparr>) = unread st"
  "unread (st\<lparr>ps_link := l\<rparr>) = unread st" "unread (st\<lparr>ps_emoji := l\<rparr>) = unread st"
  "unread (st\<lparr>ps_preLanguage := g\<rparr>) = unread st" "unread (st\<lparr>ps_isEscaped := n\<rparr>) = unread st"
  "ps_at (st\<lparr>ps_entities := es\<rparr>) = ps_at st" "ps_at (st\<lparr>ps_stack := sk\<rparr>) = ps_at st"
  "ps_at (st\<lparr>ps_link := l\<rparr>) = ps_at st" "ps_at (st\<lparr>ps_emoji := l\<rparr>) = ps_at st"
  "ps_at (st\<lparr>ps_preLanguage := g\<rparr>) = ps_at st" "ps_at (st\<lparr>ps_isEscaped := n\<rparr>) = ps_at st"
  "ps_at (st\<lparr>ps_text := t\<rparr>) = ps_at st"
  by (simp_all add: unread_def ps_at_def)

lemma in_text_upd [simp]:
  "in_text (st\<lparr>ps_entities := es\<rparr>) = in_text st" "in_text (st\<lparr>ps_stack := sk\<rparr>) = in_text st"
  "in_text (st\<lparr>ps_link := l\<rparr>) = in_text st" "in_text (st\<lparr>ps_emoji := l\<rparr>) = in_text st"
  "in_text (st\<lparr>ps_preLanguage := g\<rparr>) = in_text st" "in_text (st\<lparr>ps_isEscaped := n\<rparr>) = in_text st"
  by (simp_all add: in_text_def)

lemma progress_upd [simp]:
  "progress (st\<lparr>ps_entities := es\<rparr>) x = progress st x" "progress (st\<lparr>ps_stack := sk\<rparr>) x = progress st x"
  "progress (st\<lparr>ps_link := l\<rparr>) x = progress st x" "progress (st\<lparr>ps_emoji := l\<rparr>) x = progress st x"
  "progress (st\<lparr>ps_preLanguage := g\<rparr>) x = progress st x" "progress (st\<lparr>ps_isEscaped := n\<rparr>) x = progress st x"
  by (simp_all add: progress_def split: option.split)

lemma cut_progress:
  assumes "in_text st" and "d \<in> set allDelimiters \<or> d = escapeDelim" and "take (length d) (unread st) = d"
  shows "progress st (cutDelimiter d st)"
proof -
  have "0 < length d" using assms(2) delim_length [of d] by (auto simp: escapeDelim_def)
  then show ?thesis
    using assms(1) unfolding cut_at_front [OF assms]
    by (auto simp: progress_def unread_cut [OF assms(1)] in_text_def unread_def [of st]
        intro!: exI [of _ "length d"])
qed


lemma takeWhile_shorter: "x \<in> set xs \<Longrightarrow> \<not> P x \<Longrightarrow> length (takeWhile P xs) < length xs"
  by (induction xs) auto

lemma linkMiddle_take: "take (length linkMiddleDelim) u = linkMiddleDelim \<longleftrightarrow> take 2 u = linkMiddleDelim"
  by (simp add: linkMiddleDelim_def numeral_2_eq_2)

lemma url_size:
  assumes "length url < 2 ^ 32 - 3"
  shows "unat (sz_utf8 (size_Add (size_Add (delim_Size linkMiddleDelim) (getMultiSize url)) (delim_Size linkEndDelim)))
    = length url + 3"
proof -
  have d: "unat (sz_utf8 (delim_Size linkMiddleDelim)) = 2" "unat (sz_utf8 (delim_Size linkEndDelim)) = 1"
    by (simp_all add: delim_Size_length md_delims)
  have "sz_utf8 (delim_Size linkMiddleDelim) = of_nat 2" "sz_utf8 (delim_Size linkEndDelim) = of_nat 1"
    unfolding d [symmetric] by simp_all
  then have "sz_utf8 (size_Add (size_Add (delim_Size linkMiddleDelim) (getMultiSize url)) (delim_Size linkEndDelim))
      = of_nat (length url + 3)"
    by (simp add: size_Add_def getMultiSize_def getUTF8Size_def)
  moreover have "unat (of_nat (length url + 3) :: u32) = length url + 3"
    using assms by (simp only: unat_of_nat) (simp add: take_bit_nat_eq_self)
  ultimately show ?thesis by simp
qed

lemma closeLink_progress:
  assumes t: "in_text st" and u: "take (length linkMiddleDelim) (unread st) = linkMiddleDelim"
  shows "progress st (closeLink start st) \<and> closeLink start st \<noteq> None"
proof -
  define tail where "tail = drop 2 (unread st)"
  define url where "url = takeWhile (\<lambda>c. c \<noteq> hd linkEndDelim) tail"
  have tail': "drop (ps_at st + length linkMiddleDelim) (ps_text st) = tail"
    by (simp add: tail_def unread_def linkMiddleDelim_def add.commute)
  show ?thesis
  proof (cases "hd linkEndDelim \<in> set tail")
    case False
    then show ?thesis using u unfolding linkMiddle_take by (auto simp: closeLink_def tail' Let_def progress_def intro!: exI [of _ 0])
  next
    case True
    have "length url < length tail"
      using True takeWhile_shorter [of "hd linkEndDelim" tail "\<lambda>c. c \<noteq> hd linkEndDelim"] by (auto simp: url_def)
    then have fits: "ps_at st + (length url + 3) \<le> length (ps_text st)"
      using t by (simp add: tail_def unread_def in_text_def)
    then have small: "length url < 2 ^ 32 - 3" using t by (simp add: in_text_def)
    show ?thesis
      using True t fits unfolding closeLink_def tail' Let_def url_def [symmetric]
      by (auto simp: url_size [OF small] removeAt_fits progress_def unread_def in_text_def add.commute
          intro!: exI [of _ "length url + 3"])
  qed
qed

lemma urlLikeStep_progress:
  assumes t: "in_text st" and d: "d \<in> set allURLLikeDelimiters" "take (length d) (unread st) = d"
  shows "progress st (urlLikeStep d r st)"
proof -
  have all: "d \<in> set allDelimiters \<or> d = escapeDelim" using d(1) by (simp add: allDelimiters_def)
  have mid: "progress st (map_option f (closeLink start st))"
    if "d = linkMiddleDelim" and "\<And>s. unread (f s) = unread s" "\<And>s. ps_text (f s) = ps_text s" for f start
    using closeLink_progress [OF t, of start] d(2) that by (auto simp: progress_def split: option.splits)
  have cut: "progress st (cutDelimiter d (st\<lparr>ps_link := l\<rparr>))" "progress st (cutDelimiter d (st\<lparr>ps_emoji := l\<rparr>))" for l
    using cut_progress [of "st\<lparr>ps_link := l\<rparr>" d] cut_progress [of "st\<lparr>ps_emoji := l\<rparr>" d] t all d(2) by simp_all
  show ?thesis
    using mid cut moveOn_progress [OF t] d(2)
    by (auto simp: urlLikeStep_def linkMiddle_take progress_def [of st "Some st"] intro!: exI [of _ 0])
qed

lemma takeLanguage_progress:
  assumes t: "in_text st" and u: "take (length preDelim) (unread st) = preDelim"
  shows "(case takeLanguage st of
      None \<Rightarrow> \<exists>u. unread st = preDelim @ u \<and> u \<noteq> [] \<and> lineBreak \<notin> set u
    | Some st' \<Rightarrow> in_text st' \<and> length (ps_text st') \<le> length (ps_text st) \<and> take (length preDelim) (unread st') = preDelim
        \<and> (\<exists>n. drop (length preDelim) (unread st') = drop n (unread st) \<and> 0 < n))"
proof -
  define tail where "tail = drop (length preDelim) (unread st)"
  define lang where "lang = takeWhile (\<lambda>c. c \<noteq> lineBreak) tail"
  have rem: "unread st = preDelim @ tail"
    using u append_take_drop_id [of "length preDelim" "unread st"] by (simp add: tail_def)
  have lr: "length (unread st) = 3 + length tail" by (simp add: rem preDelim_def)
  have len: "ps_at st + length preDelim + length tail = length (ps_text st)"
    using arg_cong [OF rem, of length] t by (simp add: unread_def in_text_def) linarith
  have tail': "drop (ps_at st + length preDelim) (ps_text st) = tail"
    by (simp add: tail_def unread_def add.commute)
  show ?thesis
  proof (cases "lang = []")
    case True
    then show ?thesis
      using t u unfolding takeLanguage_def tail' Let_def lang_def [symmetric]
      by (auto simp: preDelim_def intro!: exI [of _ "length preDelim"])
  next
    case False
    show ?thesis
    proof (cases "lineBreak \<in> set tail")
      case True
      then have l: "length lang + 1 \<le> length tail"
        using takeWhile_shorter [of lineBreak tail "\<lambda>c. c \<noteq> lineBreak"] by (auto simp: lang_def)
      have "removeAt (ps_at st + length preDelim) (length lang + 1) (ps_text st)
          = Some (take (ps_at st) (ps_text st) @ preDelim @ drop (length lang + 1) tail)"
      proof -
        have "take (ps_at st + length preDelim) (ps_text st) = take (ps_at st) (ps_text st) @ preDelim"
          using u by (simp add: take_add unread_def)
        moreover have "drop (ps_at st + length preDelim + (length lang + 1)) (ps_text st) = drop (length lang + 1) tail"
          unfolding tail' [symmetric] by (simp add: add.commute)
        ultimately show ?thesis using l len by (subst removeAt_fits) simp_all
      qed
      then have e: "takeLanguage st = Some (st\<lparr>ps_preLanguage := lang,
          ps_text := take (ps_at st) (ps_text st) @ preDelim @ drop (length lang + 1) tail\<rparr>)"
        using False unfolding takeLanguage_def tail' Let_def lang_def [symmetric] by simp
      have r: "unread (st\<lparr>ps_preLanguage := lang,
          ps_text := take (ps_at st) (ps_text st) @ preDelim @ drop (length lang + 1) tail\<rparr>)
          = preDelim @ drop (length lang + 1) tail"
        using unread_cut [of "st\<lparr>ps_preLanguage := lang\<rparr>"] t by simp
      have "drop (length preDelim) (preDelim @ drop (length lang + 1) tail)
          = drop (length preDelim + (length lang + 1)) (unread st)"
        by (simp add: rem)
      then show ?thesis
        unfolding e option.case r using t len l lr
        by (auto simp: in_text_def ps_at_def preDelim_def intro!: exI [of _ "length preDelim + (length lang + 1)"])
    next
      case no: False
      then have "lang = tail" by (auto simp: lang_def takeWhile_eq_all_conv)
      then have "takeLanguage st = None"
        using False len unfolding takeLanguage_def tail' Let_def lang_def [symmetric] by (simp add: removeAt_def)
      then show ?thesis using rem no False \<open>lang = tail\<close> by auto
    qed
  qed
qed


lemma dropLineBreak_remaining:
  assumes t: "in_text st"
  shows "\<exists>st'. dropLineBreak st = Some st' \<and> in_text st' \<and> length (ps_text st') \<le> length (ps_text st)
    \<and> unread st' = unread st"
proof (cases "ps_at st \<noteq> 0 \<and> ps_text st ! (ps_at st - 1) = lineBreak")
  case False
  then have "dropLineBreak st = Some st" by (auto simp: dropLineBreak_def)
  then show ?thesis using t by simp
next
  case True
  define i where "i = ps_at st - 1"
  have i: "ps_at st = Suc i" using True by (simp add: i_def)
  have il: "Suc i < length (ps_text st)" using t by (simp add: in_text_def i)
  let ?st = "st\<lparr>ps_text := take i (ps_text st) @ drop (Suc i) (ps_text st),
     ps_index := size_Sub (ps_index st) (getMultiSize [lineBreak])\<rparr>"
  have "dropLineBreak st = Some ?st"
    using True il by (simp add: dropLineBreak_def i removeAt_def)
  moreover have "ps_at ?st = i"
  proof -
    have "1 \<le> sz_utf8 (ps_index st)"
      using True unfolding ps_at_def by (simp add: word_le_nat_alt)
    then have "unat (sz_utf8 (ps_index st) - 1) = i"
      by (simp add: unat_sub ps_at_def i_def)
    then show ?thesis
      unfolding ps_at_def by (simp add: size_Sub_def getMultiSize_def getUTF8Size_def)
  qed
  ultimately show ?thesis
    using t il by (auto simp: in_text_def unread_def i)
qed

lemma standardStep_progress:
  assumes t: "in_text st" and d: "d \<in> set allStandardDelimiters" "take (length d) (unread st) = d"
  shows "progress st (standardStep d st)"
proof -
  have all: "d \<in> set allDelimiters \<or> d = escapeDelim" using d(1) by (simp add: allDelimiters_def)
  have cut: "progress st (cutDelimiter d st')"
    if "in_text st'" "unread st' = unread st" "length (ps_text st') \<le> length (ps_text st)" for st'
    using cut_progress [OF that(1) all] d(2) that(2,3) by (auto simp: progress_def split: option.splits)
  show ?thesis
  proof (cases "ps_stack st d = maxMultiSize")
    case False
    obtain st' where s: "dropLineBreak st = Some st'" "in_text st'" "length (ps_text st') \<le> length (ps_text st)"
        "unread st' = unread st"
      using dropLineBreak_remaining [OF t] by blast
    show ?thesis
      using False cut t s by (auto simp: standardStep_def Let_def)
  next
    case opens: True
    show ?thesis
    proof (cases "d = preDelim")
      case no: False
      then show ?thesis using opens cut t by (simp add: standardStep_def Let_def)
    next
      case pre: True
      let ?st = "st\<lparr>ps_stack := (ps_stack st)(preDelim := ps_index st)\<rparr>"
      have L: "case takeLanguage ?st of
          None \<Rightarrow> \<exists>u. unread st = preDelim @ u \<and> u \<noteq> [] \<and> lineBreak \<notin> set u
        | Some st' \<Rightarrow> in_text st' \<and> length (ps_text st') \<le> length (ps_text st) \<and> take (length preDelim) (unread st') = preDelim
            \<and> (\<exists>n. drop (length preDelim) (unread st') = drop n (unread st) \<and> 0 < n)"
        using takeLanguage_progress [of ?st] t d(2) pre by (simp cong: option.case_cong)
      have s: "standardStep d st = Option.bind (takeLanguage ?st) (cutDelimiter preDelim)"
        using opens pre by (simp add: standardStep_def Let_def)
      show ?thesis
      proof (cases "takeLanguage ?st")
        case None
        then show ?thesis using L by (simp add: s progress_def)
      next
        case (Some st')
        then have st': "in_text st'" "length (ps_text st') \<le> length (ps_text st)"
          "take (length preDelim) (unread st') = preDelim"
          "\<exists>n. drop (length preDelim) (unread st') = drop n (unread st) \<and> 0 < n"
          using L by simp_all
        have p: "preDelim \<in> set allDelimiters \<or> preDelim = escapeDelim" by (simp add: md_delims)
        have "length (take (ps_at st') (ps_text st') @ drop (length preDelim) (unread st')) \<le> length (ps_text st')"
          by (simp add: unread_def)
        then show ?thesis
          using st' unfolding s Some Option.bind.simps cut_at_front [OF st'(1) p st'(3)]
          by (auto simp: progress_def unread_cut)
      qed
    qed
  qed
qed

lemma parseStep_progress:
  assumes t: "in_text st"
  shows "progress st (parseStep st)"
proof -
  let ?u = "unread st"
  let ?r = "fst (DecodeRune ?u)"
  have ne: "?u \<noteq> []" using t by (simp add: unread_def in_text_def)
  have step: "parseStep st = (if 0 < ps_isEscaped st then Some (moveOn ?r (st\<lparr>ps_isEscaped := ps_isEscaped st - 1\<rparr>))
      else if encodeRune ?r = escapeDelim then
        map_option (\<lambda>st. st\<lparr>ps_isEscaped := ps_isEscaped st + unat (sz_utf8 (delim_Size escapeDelim))\<rparr>)
          (cutDelimiter escapeDelim st)
      else case firstDelimiter ?u of
        None \<Rightarrow> Some (moveOn ?r st)
      | Some d \<Rightarrow> if d \<in> set allURLLikeDelimiters then urlLikeStep d ?r st else standardStep d st)"
    using t unfolding parseStep_def Let_def unread_def by (simp add: foundDelimiter_first in_text_def cong: option.case_cong)
  consider "0 < ps_isEscaped st" | "ps_isEscaped st = 0" "encodeRune ?r = escapeDelim"
    | "ps_isEscaped st = 0" "encodeRune ?r \<noteq> escapeDelim" "firstDelimiter ?u = None"
    | d where "ps_isEscaped st = 0" "encodeRune ?r \<noteq> escapeDelim" "firstDelimiter ?u = Some d"
    by (cases "firstDelimiter ?u") auto
  then show ?thesis
  proof cases
    case 1
    then show ?thesis
      using moveOn_progress [of "st\<lparr>ps_isEscaped := ps_isEscaped st - 1\<rparr>"] t by (simp add: step)
  next
    case 2
    have "take (length escapeDelim) ?u = escapeDelim"
      using 2(2) ne by (rule escape_first)
    then have "progress st (cutDelimiter escapeDelim st)" using cut_progress [OF t] by simp
    then show ?thesis using 2 by (auto simp: step progress_def split: option.splits)
  next
    case 3
    then show ?thesis using moveOn_progress [OF t] by (simp add: step)
  next
    case 4
    have d: "d \<in> set allDelimiters" "take (length d) ?u = d" using firstDelimiter_prefix [OF 4(3)] by simp_all
    then show ?thesis
      using 4 urlLikeStep_progress [OF t _ d(2)] standardStep_progress [OF t _ d(2)]
      by (auto simp: step allDelimiters_def)
  qed
qed


section \<open>Texts that are parsed\<close>

definition blocksClosed :: "string \<Rightarrow> bool" where
  "blocksClosed s \<longleftrightarrow> (\<forall>u. suffix (preDelim @ u) s \<longrightarrow> u = [] \<or> lineBreak \<in> set u)"

lemma parseLoop_returns:
  assumes "suffix (unread st) s" and "\<not> sublist linkMiddleDelim s" and "length (ps_text st) < 2 ^ 32 - 4"
    and "blocksClosed s"
  shows "\<exists>st'. parseLoop st = Some (Some st') \<and> length (ps_text st') \<le> length (ps_text st)"
  using assms
proof (induction "length (unread st)" arbitrary: st rule: less_induct)
  case less
  show ?case
  proof (cases "ps_at st < length (ps_text st)")
    case False
    then show ?thesis by (simp add: parseLoop_end)
  next
    case True
    then have t: "in_text st" using less.prems by (simp add: in_text_def)
    show ?thesis
    proof (cases "parseStep st")
      case None
      then show ?thesis
        using parseStep_progress [OF t] less.prems(1,4) by (auto simp: progress_def blocksClosed_def)
    next
      case (Some st')
      then obtain n where len: "length (ps_text st') \<le> length (ps_text st)"
        and n: "unread st' = drop n (unread st)" "0 < n \<or> take 2 (unread st) = linkMiddleDelim"
        using parseStep_progress [OF t] by (auto simp: progress_def)
      have "\<not> take 2 (unread st) = linkMiddleDelim"
      proof
        assume "take 2 (unread st) = linkMiddleDelim"
        then have "unread st = linkMiddleDelim @ drop 2 (unread st)" by (metis append_take_drop_id)
        then show False using less.prems(1,2) by (metis suffix_def sublist_def)
      qed
      then have "length (unread st') < length (unread st)"
        using n t by (auto simp: unread_def in_text_def)
      moreover have "suffix (unread st') s"
        unfolding n(1) using less.prems(1) suffix_drop suffix_order.trans by blast
      ultimately have "\<exists>st''. parseLoop st' = Some (Some st'') \<and> length (ps_text st'') \<le> length (ps_text st')"
        using less.hyps less.prems len by simp
      then show ?thesis
        using len by (auto simp: parseLoop_step [OF True] Some)
    qed
  qed
qed

text \<open>
  C33. A parse returns on every text, valid UTF-8 or not, that is shorter than 4 GiB less four bytes, has
  no closing bracket directly followed by an opening parenthesis, and on its last line has no fence of
  three backquotes with anything after it, whatever other delimiters it has and however they nest or
  stay open: it neither hangs nor panics, and the text only gets shorter. The condition on fences is
  about the text alone, so it also leaves out texts that are parsed, like one whose last line closes a
  block and goes on; a fence that ends the text, or has a line break somewhere after it, is within it.
\<close>

theorem parse_returns:
  assumes "length s < 2 ^ 32 - 4" and "\<not> sublist linkMiddleDelim s" and "blocksClosed s"
  shows "\<exists>t es. Parse s = Returns (t, es) \<and> length t \<le> length s"
proof -
  have "unread (parseInit s) = s" "ps_text (parseInit s) = s"
    by (simp_all add: unread_def parseInit_def ps_at_def)
  then show ?thesis
    using parseLoop_returns [of "parseInit s" s] assms by (auto simp: Parse_def)
qed

theorem parse_returns_witness:
  "\<exists>t es. Parse ''**a __b** c)'' = Returns (t, es) \<and> length t \<le> length ''**a __b** c)''"
proof -
  have "blocksClosed ''**a __b** c)''"
    by (auto simp: blocksClosed_def preDelim_def numeral_3_eq_3 suffix_def Cons_eq_append_conv)
  moreover have "\<not> sublist linkMiddleDelim ''**a __b** c)''"
    by (simp add: linkMiddleDelim_def sublist_code)
  ultimately show ?thesis
    by (intro parse_returns) simp_all
qed

section \<open>Texts that are not\<close>

definition plain :: "rune list \<Rightarrow> bool" where
  "plain rs \<longleftrightarrow> list_all (\<lambda>r. codePoint r \<and> r \<notin> set charsToEscape) rs"

lemma plain_codePoints: "plain rs \<Longrightarrow> list_all codePoint rs"
  by (auto simp: plain_def list_all_iff)

text \<open>The states of a parse that is at a rune boundary: the text before the position is \<open>done\<close>.\<close>

definition parseAt :: "rune list \<Rightarrow> string \<Rightarrow> parseState \<Rightarrow> parseState" where
  "parseAt rs u st = st\<lparr>ps_text := utf8 rs @ u, ps_index := pos rs, ps_isEscaped := 0\<rparr>"

lemma parseAt_simps:
  assumes "length (utf8 rs @ u) < 2 ^ 32 - 4"
  shows "ps_at (parseAt rs u st) = length (utf8 rs)" "unread (parseAt rs u st) = u"
    "u \<noteq> [] \<Longrightarrow> in_text (parseAt rs u st)"
proof -
  have "length (utf8 rs) < 2 ^ 32" using assms by simp
  then show p: "ps_at (parseAt rs u st) = length (utf8 rs)"
    by (simp add: ps_at_def parseAt_def unat_pos)
  then show "unread (parseAt rs u st) = u" "u \<noteq> [] \<Longrightarrow> in_text (parseAt rs u st)"
    using assms by (simp_all add: unread_def in_text_def) (simp_all add: parseAt_def)
qed

lemma parseAt_step:
  assumes "length (utf8 rs @ u) < 2 ^ 32 - 4" and "u \<noteq> []"
  shows "parseLoop (parseAt rs u st) =
    (case parseStep (parseAt rs u st) of None \<Rightarrow> Some None | Some st' \<Rightarrow> parseLoop st')"
  using parseAt_simps(3) [OF assms] by (intro parseLoop_step) (simp add: in_text_def)

lemma parseStep_at:
  assumes "length (utf8 rs @ u) < 2 ^ 32 - 4" and "u \<noteq> []" and "hd u \<noteq> CHR 0x5C"
  shows "parseStep (parseAt rs u st) =
    (case firstDelimiter u of
       None \<Rightarrow> Some (moveOn (fst (DecodeRune u)) (parseAt rs u st))
     | Some d \<Rightarrow> if d \<in> set allURLLikeDelimiters then urlLikeStep d (fst (DecodeRune u)) (parseAt rs u st)
                 else standardStep d (parseAt rs u st))"
proof -
  let ?st = "parseAt rs u st"
  have t: "in_text ?st" and r: "unread ?st = u" using parseAt_simps [OF assms(1)] assms(2) by simp_all
  have "encodeRune (fst (DecodeRune u)) \<noteq> escapeDelim"
    using escape_first [OF _ assms(2)] assms(2,3) by (auto simp: escapeDelim_def take_Suc)
  moreover have "drop (ps_at ?st) (ps_text ?st) = u" using r by (simp add: unread_def)
  moreover have "ps_isEscaped ?st = 0" by (simp add: parseAt_def)
  ultimately show ?thesis
    using t by (simp add: parseStep_def Let_def foundDelimiter_first in_text_def cong: option.case_cong)
qed

lemma moveOn_at: "codePoint r \<Longrightarrow> moveOn r (parseAt rs (encodeRune r @ u) st) = parseAt (rs @ [r]) u st"
  by (simp add: moveOn_def parseAt_def pos_add_rune)

lemma parse_plain_rune:
  assumes "length (utf8 rs @ encodeRune r @ u) < 2 ^ 32 - 4" and r: "codePoint r" "r \<notin> set charsToEscape"
  shows "parseLoop (parseAt rs (encodeRune r @ u) st) = parseLoop (parseAt (rs @ [r]) u st)"
proof -
  let ?u = "encodeRune r @ u"
  have b: "byte_val (hd ?u) \<notin> set charsToEscape" using plain_first [OF r] by simp
  then have "hd ?u \<noteq> CHR 0x5C" by (auto simp: charsToEscape_eq byte_val_def)
  then have "parseStep (parseAt rs ?u st) = Some (moveOn r (parseAt rs ?u st))"
    using firstDelimiter_plain [OF _ b] by (subst parseStep_at [OF assms(1)]) (simp_all add: DecodeRune_encode r)
  then show ?thesis
    using parseAt_step [OF assms(1)] by (simp add: moveOn_at r)
qed

lemma parse_plain:
  assumes "plain qs" and "length (utf8 rs @ utf8 qs @ u) < 2 ^ 32 - 4"
  shows "parseLoop (parseAt rs (utf8 qs @ u) st) = parseLoop (parseAt (rs @ qs) u st)"
  using assms
proof (induction qs arbitrary: rs)
  case (Cons r qs)
  then have "parseLoop (parseAt rs (encodeRune r @ utf8 qs @ u) st) = parseLoop (parseAt (rs @ [r]) (utf8 qs @ u) st)"
    by (intro parse_plain_rune) (simp_all add: plain_def)
  moreover have "parseLoop (parseAt (rs @ [r]) (utf8 qs @ u) st) = parseLoop (parseAt ((rs @ [r]) @ qs) u st)"
    using Cons.prems by (intro Cons.IH) (simp_all add: plain_def)
  ultimately show ?case by simp
qed simp

lemma parseInit_at: "parseInit s = parseAt [] s (parseInit s)"
  by (simp add: parseAt_def parseInit_def pos_zero)

lemma first_linkMiddle: "firstDelimiter (linkMiddleDelim @ u) = Some linkMiddleDelim"
  by (auto simp: firstDelimiter_def isDelimiter_def md_delims numeral_3_eq_3 numeral_2_eq_2)

lemma first_pre: "firstDelimiter (preDelim @ u) = Some preDelim"
  by (simp add: firstDelimiter_def isDelimiter_def md_delims numeral_3_eq_3)

text \<open>
  C34. Two kinds of text stop the parser. After any text without special characters, a closing
  bracket directly followed by an opening parenthesis, with no link open, makes it loop for ever at
  that place, whatever follows; and three backquotes with something after them on the last line make
  it slice the text past its end and panic.
\<close>

theorem parse_hangs_and_panics:
  assumes "plain qs" and "length (utf8 qs @ u) < 2 ^ 32 - 8"
  shows "Parse (utf8 qs @ linkMiddleDelim @ u) = NeverReturns
    \<and> (u \<noteq> [] \<and> lineBreak \<notin> set u \<longrightarrow> Parse (utf8 qs @ preDelim @ u) = Panics)"
proof (intro conjI impI)
  let ?s = "utf8 qs @ linkMiddleDelim @ u" and ?v = "linkMiddleDelim @ u"
  have len: "length (utf8 qs @ ?v) < 2 ^ 32 - 4" using assms(2) by (simp add: linkMiddleDelim_def)
  let ?st = "parseAt qs ?v (parseInit ?s)"
  have "parseLoop (parseInit ?s) = parseLoop ?st"
    using parse_plain [OF assms(1), of "[]" ?v] len by (subst parseInit_at) simp
  moreover have "parseStep ?st = Some ?st"
    using first_linkMiddle [of u]
    by (subst parseStep_at [OF len]) (simp_all add: md_delims urlLikeStep_def parseAt_def parseInit_def)
  moreover have "in_text ?st" by (rule parseAt_simps(3) [OF len]) (simp add: linkMiddleDelim_def)
  ultimately show "Parse ?s = NeverReturns"
    by (simp add: Parse_def parseLoop_stuck in_text_def)
next
  assume u: "u \<noteq> [] \<and> lineBreak \<notin> set u"
  let ?s = "utf8 qs @ preDelim @ u" and ?v = "preDelim @ u"
  have len: "length (utf8 qs @ ?v) < 2 ^ 32 - 4" using assms(2) by (simp add: preDelim_def)
  let ?st = "parseAt qs ?v (parseInit ?s)"
  have "parseLoop (parseInit ?s) = parseLoop ?st"
    using parse_plain [OF assms(1), of "[]" ?v] len by (subst parseInit_at) simp
  moreover have "parseStep ?st = None"
  proof -
    have "parseStep ?st = standardStep preDelim ?st"
    proof -
      have "preDelim @ u \<noteq> []" "hd (preDelim @ u) \<noteq> CHR 0x5C" "preDelim \<notin> set allURLLikeDelimiters"
        by (simp_all add: md_delims numeral_3_eq_3)
      then show ?thesis by (simp add: parseStep_at [OF len] first_pre)
    qed
    moreover have "standardStep preDelim ?st = Option.bind (takeLanguage (?st\<lparr>ps_stack := (ps_stack ?st)(preDelim := ps_index ?st)\<rparr>)) (cutDelimiter preDelim)"
      by (simp add: standardStep_def parseAt_def parseInit_def Let_def)
    moreover have "takeLanguage (?st\<lparr>ps_stack := (ps_stack ?st)(preDelim := ps_index ?st)\<rparr>) = None"
    proof -
      have "drop (ps_at ?st + length preDelim) (ps_text ?st) = u"
        using parseAt_simps(1) [OF len] by (simp add: parseAt_def)
      moreover have tw: "takeWhile (\<lambda>c. c \<noteq> lineBreak) u = u" using u by (auto simp: takeWhile_eq_all_conv)
      moreover have "length (ps_text ?st) = ps_at ?st + length preDelim + length u"
        using parseAt_simps(1) [OF len] by (simp add: parseAt_def)
      ultimately show ?thesis
        using u by (simp add: takeLanguage_def Let_def removeAt_def tw)
    qed
    ultimately show ?thesis by simp
  qed
  moreover have "parseLoop ?st = (case parseStep ?st of None \<Rightarrow> Some None | Some st' \<Rightarrow> parseLoop st')"
    by (rule parseAt_step [OF len]) (simp add: preDelim_def)
  ultimately show "Parse ?s = Panics"
    by (simp add: Parse_def)
qed

theorem parse_hangs_and_panics_witness:
  "Parse ''a](b'' = NeverReturns \<and> Parse (preDelim @ ''code'' @ preDelim) = Panics"
proof -
  have "of_char (CHR ''a'') = (97 :: nat)" by simp
  then have c: "char_of (97 :: nat) = CHR ''a''" by (metis char_of_char)
  have a: "plain [0x61]" "utf8 [0x61] = ''a''"
    by (simp_all add: plain_def charsToEscape_eq codePoint_def utf8_def encodeRune_def c)
  have "Parse (utf8 [0x61] @ linkMiddleDelim @ ''b'') = NeverReturns"
    using parse_hangs_and_panics [OF a(1), of "''b''"] unfolding a(2) by simp
  moreover have "Parse (utf8 [] @ preDelim @ ''code'' @ preDelim) = Panics"
    using parse_hangs_and_panics [of "[]" "''code'' @ preDelim"] by (simp add: plain_def preDelim_def lineBreak_def)
  ultimately show ?thesis unfolding a(2) by (simp add: linkMiddleDelim_def)
qed

end
