(* ===== verification/Markdown_Render.thy ===== *)
theory Markdown_Render
  imports Markdown_Outcomes
begin

text \<open>
  Messages made of pieces, each plain or of one style, how they are written and what they mean; and
  that \<open>Parse\<close> reads a written message back.
\<close>

section \<open>Pieces\<close>

datatype piece = Plain "rune list" | Styled delimiter "rune list"

definition flatDelimiters :: "delimiter list" where
  "flatDelimiters = [boldDelim, italicDelim, underlineDelim, strikeDelim, spoilerDelim, quoteDelim, codeDelim]"

fun pieceText :: "piece \<Rightarrow> rune list" where
  "pieceText (Plain t) = t"
| "pieceText (Styled d t) = t"

definition escape :: "rune list \<Rightarrow> string" where
  "escape rs = concat (map (\<lambda>r. (if r \<in> set charsToEscape then escapeDelim else []) @ encodeRune r) rs)"

fun pieceMarkup :: "piece \<Rightarrow> string" where
  "pieceMarkup (Plain t) = escape t"
| "pieceMarkup (Styled d t) = d @ escape t @ d"

definition textOf :: "piece list \<Rightarrow> rune list" where "textOf ps = concat (map pieceText ps)"
definition render :: "piece list \<Rightarrow> string" where "render ps = concat (map pieceMarkup ps)"

definition entityAt :: "delimiter \<Rightarrow> nat \<Rightarrow> nat \<Rightarrow> messageEntity" where
  "entityAt d off n = the (CreateEntity d (of_nat off) (of_nat n) [])"

fun entitiesOf :: "nat \<Rightarrow> piece list \<Rightarrow> messageEntity list" where
  "entitiesOf off [] = []"
| "entitiesOf off (Plain t # ps) = entitiesOf (off + units t) ps"
| "entitiesOf off (Styled d t # ps) = entityAt d off (units t) # entitiesOf (off + units t) ps"

definition wellFormed :: "piece \<Rightarrow> bool" where
  "wellFormed p \<longleftrightarrow> pieceText p \<noteq> [] \<and> list_all codePoint (pieceText p)
     \<and> (case p of Plain _ \<Rightarrow> True | Styled d _ \<Rightarrow> d \<in> set flatDelimiters)"

lemma piece_simps [simp]:
  "textOf [] = []" "textOf (p # ps) = pieceText p @ textOf ps" "render [] = []" "render (p # ps) = pieceMarkup p @ render ps"
  "escape [] = []" "escape (r # rs) = (if r \<in> set charsToEscape then escapeDelim else []) @ encodeRune r @ escape rs"
  by (simp_all add: textOf_def render_def escape_def)

lemma length_escape: "length (utf8 rs) \<le> length (escape rs)"
  by (induction rs) auto

lemma length_render: "length (utf8 (textOf ps)) \<le> length (render ps)"
proof (induction ps)
  case (Cons p ps)
  have "length (utf8 (pieceText p)) \<le> length (pieceMarkup p)"
    using length_escape [of "pieceText p"] by (cases p) auto
  then show ?case using Cons by simp
qed simp

lemma escape_first_byte: "rs \<noteq> [] \<Longrightarrow> list_all codePoint rs \<Longrightarrow> hd (escape rs @ u) \<noteq> CHR 0x60"
proof -
  assume "rs \<noteq> []" "list_all codePoint rs"
  then obtain r qs where rs: "rs = r # qs" and r: "codePoint r" by (cases rs) auto
  show ?thesis
  proof (cases "r \<in> set charsToEscape")
    case True
    then show ?thesis by (simp add: rs escapeDelim_def)
  next
    case False
    then have "byte_val (hd (encodeRune r)) \<notin> set charsToEscape" by (rule plain_first [OF r])
    then have "hd (encodeRune r) \<noteq> CHR 0x60" by (auto simp: charsToEscape_eq byte_val_def)
    then show ?thesis using False by (simp add: rs)
  qed
qed

section \<open>The entities of a style\<close>

lemma flat_delims: "d \<in> set flatDelimiters \<Longrightarrow> d \<in> set allStandardDelimiters \<and> d \<noteq> preDelim \<and> d \<notin> set allURLLikeDelimiters \<and> d \<in> set allDelimiters
    \<and> d \<noteq> [] \<and> hd d \<noteq> CHR 0x5C"
  by (auto simp: flatDelimiters_def md_delims numeral_3_eq_3)

lemma CreateEntity_flat:
  assumes "d \<in> set flatDelimiters"
  shows "CreateEntity d off n param = Some (the (CreateEntity d off n []))
    \<and> ent_Offset (the (CreateEntity d off n [])) = uint off \<and> ent_Length (the (CreateEntity d off n [])) = uint n
    \<and> getDelimiterForEntity (the (CreateEntity d off n [])) = d"
  using assms by (auto simp: flatDelimiters_def CreateEntity_def md_delims)

lemma only_pre: "isDelimiter x \<Longrightarrow> length x = 3 \<Longrightarrow> hd x = CHR 0x60"
  by (auto simp: isDelimiter_def md_delims numeral_3_eq_3)

lemma first_flat:
  assumes d: "d \<in> set flatDelimiters" and u: "d = codeDelim \<Longrightarrow> hd u \<noteq> CHR 0x60 \<or> u = []
      \<or> tl u \<noteq> [] \<and> hd u = CHR 0x60 \<and> hd (tl u) \<noteq> CHR 0x60"
  shows "firstDelimiter (d @ u) = Some d"
proof (cases "d = codeDelim")
  case True
  then obtain "hd u \<noteq> CHR 0x60 \<or> u = [] \<or> (\<exists>c v. u = CHR 0x60 # c # v \<and> c \<noteq> CHR 0x60)"
    using u by (cases u; cases "tl u") auto
  then show ?thesis
    unfolding True
    by (cases u; cases "tl u") (auto simp: firstDelimiter_def isDelimiter_def md_delims numeral_3_eq_3 numeral_2_eq_2)
next
  case False
  have two: "length d = 2" "hd d \<noteq> CHR 0x60" "isDelimiter d"
    using d False by (auto simp: flatDelimiters_def isDelimiter_def md_delims)
  show ?thesis
  proof (cases u)
    case Nil
    then show ?thesis using two by (simp add: firstDelimiter_def)
  next
    case (Cons c v)
    have t: "take 3 (d @ u) = d @ [c]" "take 2 (d @ u) = d" using two by (simp_all add: Cons)
    have "hd (d @ [c]) \<noteq> CHR 0x60" using two by (cases d) auto
    then have "\<not> isDelimiter (d @ [c])" using only_pre [of "d @ [c]"] two by auto
    then show ?thesis using two(3) unfolding firstDelimiter_def t by simp
  qed
qed

section \<open>Parsing what was written\<close>

lemma parse_escaped_rune:
  assumes len: "length (utf8 rs @ escapeDelim @ encodeRune r @ u) < 2 ^ 32 - 4" and r: "codePoint r"
  shows "parseLoop (parseAt rs (escapeDelim @ encodeRune r @ u) st) = parseLoop (parseAt (rs @ [r]) u st)"
proof -
  let ?u = "encodeRune r @ u"
  let ?st = "parseAt rs (escapeDelim @ ?u) st" and ?st' = "(parseAt rs ?u st)\<lparr>ps_isEscaped := 1\<rparr>"
  have t: "in_text ?st" "unread ?st = escapeDelim @ ?u" "ps_at ?st = length (utf8 rs)"
    using parseAt_simps [OF len] by (simp_all add: escapeDelim_def)
  have len': "length (utf8 rs @ ?u) < 2 ^ 32 - 4" using len by simp
  have t': "ps_at ?st' = length (utf8 rs)" "unread ?st' = ?u" "in_text ?st'"
    using parseAt_simps [OF len', of st] by (simp_all add: in_text_def unread_def)
  have "DecodeRune (escapeDelim @ ?u) = (0x5C, 1)"
    by (simp add: DecodeRune_def escapeDelim_def byte_val_def)
  moreover have e: "encodeRune 0x5C = escapeDelim"
  proof -
    have "of_char (CHR 0x5C) = (0x5C :: nat)" by simp
    then have "char_of (0x5C :: nat) = CHR 0x5C" by (metis char_of_char)
    then show ?thesis by (simp add: encodeRune_def escapeDelim_def)
  qed
  moreover have "cutDelimiter escapeDelim ?st = Some (parseAt rs ?u st)"
    using cut_at_front [OF t(1), of escapeDelim] t by (simp add: escapeDelim_def) (simp add: parseAt_def)
  ultimately have "parseStep ?st = Some ?st'"
    using t(2) unfolding parseStep_def unread_def [symmetric]
    by (simp add: delim_Size_length) (simp add: parseAt_def escapeDelim_def)
  then have "parseLoop ?st = parseLoop ?st'"
    using parseLoop_step [of ?st] t(1) by (simp add: in_text_def)
  also have "parseStep ?st' = Some (parseAt (rs @ [r]) u st)"
  proof -
    have "fst (DecodeRune (drop (ps_at ?st') (ps_text ?st'))) = r"
      using t'(2) by (simp add: unread_def DecodeRune_encode r)
    then have "parseStep ?st' = Some (moveOn r (?st'\<lparr>ps_isEscaped := 0\<rparr>))"
      by (simp add: parseStep_def)
    then show ?thesis
      using moveOn_at [OF r, of rs u st] by (simp add: parseAt_def)
  qed
  then have "parseLoop ?st' = parseLoop (parseAt (rs @ [r]) u st)"
    using parseLoop_step [of ?st'] t'(3) by (simp add: in_text_def)
  finally show ?thesis .
qed

lemma parse_text:
  assumes "list_all codePoint qs" and "length (utf8 rs @ escape qs @ u) < 2 ^ 32 - 4"
  shows "parseLoop (parseAt rs (escape qs @ u) st) = parseLoop (parseAt (rs @ qs) u st)"
  using assms
proof (induction qs arbitrary: rs)
  case (Cons r qs)
  have r: "codePoint r" using Cons.prems by simp
  have IH: "parseLoop (parseAt (rs @ [r]) (escape qs @ u) st) = parseLoop (parseAt ((rs @ [r]) @ qs) u st)"
    using Cons.prems by (intro Cons.IH) simp_all
  show ?case
  proof (cases "r \<in> set charsToEscape")
    case True
    then show ?thesis
      using parse_escaped_rune [of rs r "escape qs @ u" st] Cons.prems r IH by simp
  next
    case False
    then show ?thesis
      using parse_plain_rune [of rs r "escape qs @ u" st] Cons.prems r IH by simp
  qed
qed simp

lemma parseAt_upd:
  "(parseAt rs u st)\<lparr>ps_stack := sk\<rparr> = parseAt rs u (st\<lparr>ps_stack := sk\<rparr>)"
  "(parseAt rs u st)\<lparr>ps_entities := es\<rparr> = parseAt rs u (st\<lparr>ps_entities := es\<rparr>)"
  "ps_stack (parseAt rs u st) = ps_stack st" "ps_entities (parseAt rs u st) = ps_entities st"
  "ps_index (parseAt rs u st) = pos rs"
  by (simp_all add: parseAt_def)

lemma cut_at:
  assumes "length (utf8 rs @ d @ u) < 2 ^ 32 - 4" and "d \<in> set flatDelimiters"
  shows "cutDelimiter d (parseAt rs (d @ u) st) = Some (parseAt rs u st)"
proof -
  have "in_text (parseAt rs (d @ u) st)" "unread (parseAt rs (d @ u) st) = d @ u"
    "ps_at (parseAt rs (d @ u) st) = length (utf8 rs)"
    using parseAt_simps [OF assms(1)] flat_delims [OF assms(2)] by simp_all
  then show ?thesis
    using cut_at_front [of "parseAt rs (d @ u) st" d] flat_delims [OF assms(2)] by simp (simp add: parseAt_def)
qed

lemma parse_open:
  assumes len: "length (utf8 rs @ d @ u) < 2 ^ 32 - 4" and d: "d \<in> set flatDelimiters"
    and "ps_stack st d = maxMultiSize" and first: "firstDelimiter (d @ u) = Some d"
  shows "parseLoop (parseAt rs (d @ u) st) = parseLoop (parseAt rs u (st\<lparr>ps_stack := (ps_stack st)(d := pos rs)\<rparr>))"
proof -
  let ?st = "st\<lparr>ps_stack := (ps_stack st)(d := pos rs)\<rparr>"
  have "standardStep d (parseAt rs (d @ u) st) = cutDelimiter d (parseAt rs (d @ u) ?st)"
    using assms(3) flat_delims [OF d] by (simp add: standardStep_def parseAt_upd Let_def)
  then have "parseStep (parseAt rs (d @ u) st) = Some (parseAt rs u ?st)"
    using flat_delims [OF d] first cut_at [OF len d] by (subst parseStep_at [OF len]) simp_all
  then show ?thesis
    using parseAt_step [OF len] flat_delims [OF d] by simp
qed

lemma parse_close:
  assumes len: "length (utf8 (rs @ qs) @ d @ u) < 2 ^ 32 - 4" and d: "d \<in> set flatDelimiters"
    and s: "ps_stack st d = pos rs" and first: "firstDelimiter (d @ u) = Some d"
  shows "parseLoop (parseAt (rs @ qs) (d @ u) st) = parseLoop (parseAt (rs @ qs) u
    (st\<lparr>ps_entities := ps_entities st @ [entityAt d (units rs) (units qs)],
        ps_stack := (ps_stack st)(d := maxMultiSize)\<rparr>))"
proof -
  let ?st = "st\<lparr>ps_entities := ps_entities st @ [entityAt d (units rs) (units qs)],
        ps_stack := (ps_stack st)(d := maxMultiSize)\<rparr>"
  have "sz_utf16 (pos (rs @ qs)) - sz_utf16 (pos rs) = of_nat (units qs)"
    by (simp add: pos_def)
  then have "entityList (CreateEntity d (sz_utf16 (pos rs)) (sz_utf16 (pos (rs @ qs)) - sz_utf16 (pos rs)) p)
      = [entityAt d (units rs) (units qs)]" for p
    using CreateEntity_flat [OF d, of "sz_utf16 (pos rs)" "of_nat (units qs)" p]
    by (simp add: entityList_def entityAt_def) (simp add: pos_def)
  moreover have "pos rs \<noteq> maxMultiSize" using len by (intro pos_not_max) simp
  ultimately have "standardStep d (parseAt (rs @ qs) (d @ u) st) = cutDelimiter d (parseAt (rs @ qs) (d @ u) ?st)"
    using s flat_delims [OF d] by (simp add: standardStep_def parseAt_upd Let_def)
  then have "parseStep (parseAt (rs @ qs) (d @ u) st) = Some (parseAt (rs @ qs) u ?st)"
    using flat_delims [OF d] first cut_at [OF len d] by (subst parseStep_at [OF len]) simp_all
  then show ?thesis
    using parseAt_step [OF len] flat_delims [OF d] by simp
qed

text \<open>A written message does not begin with two backquotes.\<close>

lemma render_first: "list_all wellFormed ps \<Longrightarrow> render ps = [] \<or> hd (render ps) \<noteq> CHR 0x60
    \<or> tl (render ps) \<noteq> [] \<and> hd (render ps) = CHR 0x60 \<and> hd (tl (render ps)) \<noteq> CHR 0x60"
proof (cases ps)
  case (Cons p ps')
  assume "list_all wellFormed ps"
  then have wf: "wellFormed p" by (simp add: Cons)
  show ?thesis
  proof (cases p)
    case (Plain t)
    then show ?thesis using wf Cons escape_first_byte [of t "render ps'"] by (simp add: wellFormed_def)
  next
    case (Styled d t)
    then have t: "t \<noteq> []" "list_all codePoint t" "d \<in> set flatDelimiters" using wf by (simp_all add: wellFormed_def)
    have e: "hd (escape t @ d @ render ps') \<noteq> CHR 0x60" by (rule escape_first_byte [OF t(1,2)])
    moreover have "escape t @ d @ render ps' \<noteq> []" using t(3) flat_delims by auto
    moreover have "d = codeDelim \<or> hd (d @ escape t @ d @ render ps') \<noteq> CHR 0x60"
      using t(3) by (auto simp: flatDelimiters_def md_delims)
    ultimately show ?thesis by (auto simp: Cons Styled codeDelim_def)
  qed
qed simp

lemma parse_render:
  assumes "list_all wellFormed ps" and "length (utf8 rs @ render ps) < 2 ^ 32 - 4" and "ps_stack st = (\<lambda>_. maxMultiSize)"
  shows "parseLoop (parseAt rs (render ps) st)
    = Some (Some (parseAt (rs @ textOf ps) [] (st\<lparr>ps_entities := ps_entities st @ entitiesOf (units rs) ps\<rparr>)))"
  using assms
proof (induction ps arbitrary: rs st)
  case Nil
  then have "ps_at (parseAt rs [] st) = length (utf8 rs)" using parseAt_simps(1) [of rs "[]" st] by simp
  then show ?case by (simp add: parseLoop_end parseAt_def)
next
  case (Cons p ps)
  have wf: "list_all wellFormed ps" "wellFormed p" using Cons.prems(1) by simp_all
  have len: "length (utf8 (rs @ pieceText p) @ render ps) < 2 ^ 32 - 4"
    using Cons.prems(2) length_escape [of "pieceText p"] by (cases p) simp_all
  show ?case
  proof (cases p)
    case (Plain t)
    then have "parseLoop (parseAt rs (escape t @ render ps) st) = parseLoop (parseAt (rs @ t) (render ps) st)"
      using Cons.prems wf(2) by (intro parse_text) (simp_all add: wellFormed_def Plain)
    then show ?thesis
      using Cons.IH [OF wf(1), of "rs @ t" st] Cons.prems(3) len by (simp add: Plain)
  next
    case (Styled d t)
    have d: "d \<in> set flatDelimiters" and t: "t \<noteq> []" "list_all codePoint t"
      using wf(2) by (simp_all add: wellFormed_def Styled)
    let ?st = "st\<lparr>ps_stack := (ps_stack st)(d := pos rs)\<rparr>"
    let ?last = "st\<lparr>ps_entities := ps_entities st @ [entityAt d (units rs) (units t)]\<rparr>"
    have "parseLoop (parseAt rs (d @ escape t @ d @ render ps) st) = parseLoop (parseAt rs (escape t @ d @ render ps) ?st)"
      using Cons.prems(2,3) escape_first_byte [OF t] by (intro parse_open d first_flat) (simp_all add: Styled)
    also have "\<dots> = parseLoop (parseAt (rs @ t) (d @ render ps) ?st)"
      using Cons.prems(2) t by (intro parse_text) (simp_all add: Styled)
    also have "\<dots> = parseLoop (parseAt (rs @ t) (render ps) ?last)"
    proof -
      have "length (utf8 (rs @ t) @ d @ render ps) < 2 ^ 32 - 4"
        using Cons.prems(2) length_escape [of t] by (simp add: Styled)
      moreover have same: "?last\<lparr>ps_stack := \<lambda>_. maxMultiSize\<rparr> = ?last"
        using Cons.prems(3) by (cases st) simp
      moreover have "firstDelimiter (d @ render ps) = Some d"
        using first_flat [OF d, of "render ps"] render_first [OF wf(1)] by auto
      ultimately show ?thesis
        using parse_close [of rs t d "render ps" ?st] d Cons.prems(3) by (simp add: fun_upd_idem) (simp only: same)
    qed
    also have "\<dots> = Some (Some (parseAt (rs @ t @ textOf ps) [] (?last\<lparr>ps_entities := ps_entities ?last @ entitiesOf (units rs + units t) ps\<rparr>)))"
      using Cons.IH [OF wf(1), of "rs @ t" ?last] Cons.prems(3) len by (simp add: Styled)
    finally show ?thesis by (simp add: Styled)
  qed
qed

lemma Parse_render:
  assumes "list_all wellFormed ps" and "length (render ps) < 2 ^ 32 - 4"
  shows "Parse (render ps) = Returns (utf8 (textOf ps), entitiesOf 0 ps)"
proof -
  have "parseLoop (parseInit (render ps)) = Some (Some (parseAt (textOf ps) [] ((parseInit (render ps))\<lparr>ps_entities := entitiesOf 0 ps\<rparr>)))"
    using parse_render [OF assms(1), of "[]" "parseInit (render ps)"] assms(2)
    by (subst parseInit_at) (simp add: parseInit_def)
  then show ?thesis by (simp add: Parse_def parseAt_def)
qed

end
