(* ===== verification/Markdown_Unparse.thy ===== *)
theory Markdown_Unparse
  imports Markdown
begin

text \<open>
  \<open>Unparse\<close> of \<open>yatgmessageencoding/markdown.go\<close>. The order in which Go iterates over the map of
  delimiters is an argument, any function of the state, and so is the sort, which \<open>slices.SortFunc\<close>
  leaves open for entities that compare equal. The encoder itself keeps nothing between calls but the
  capacity of its slice of entities (\<open>me_cap\<close>), which decides whether a call panics.
\<close>

record urlLikeState =
  startPosition :: multiSize
  middlePosition :: multiSize
  url_URL :: string

definition noURL :: urlLikeState where
  "noURL = \<lparr>startPosition = maxMultiSize, middlePosition = maxMultiSize, url_URL = []\<rparr>"

record unparseState =
  un_text :: string
  un_entities :: "messageEntity list"
  un_stack :: "delimiter \<Rightarrow> multiSize"
  un_link :: urlLikeState
  un_emoji :: urlLikeState
  un_offset :: multiSize
  un_index :: multiSize

definition un_at :: "unparseState \<Rightarrow> nat" where
  "un_at st = unat (sz_utf8 (un_index st))"

text \<open>The position in the text as it was, in UTF-16 code units.\<close>

definition un_here :: "unparseState \<Rightarrow> u32" where
  "un_here st = sz_utf16 (un_index st) - sz_utf16 (un_offset st)"

section \<open>The order of entities\<close>

fun isTextURL :: "messageEntity \<Rightarrow> bool" where "isTextURL (TextURL _ _ _) = True" | "isTextURL _ = False"
fun isCustomEmoji :: "messageEntity \<Rightarrow> bool" where "isCustomEmoji (CustomEmoji _ _ _) = True" | "isCustomEmoji _ = False"
fun isPre :: "messageEntity \<Rightarrow> bool" where "isPre (Pre _ _ _) = True" | "isPre _ = False"

definition compareEntities :: "messageEntity \<Rightarrow> messageEntity \<Rightarrow> int" where
  "compareEntities a b =
     (if ent_Offset a < ent_Offset b then - 1
      else if ent_Offset b < ent_Offset a then 1
      else if isTextURL a \<and> isCustomEmoji b then - 1
      else if isCustomEmoji a \<and> isTextURL b then 1
      else if isPre b then - 1
      else 0)"

text \<open>What a sort by \<open>compareEntities\<close> promises: a permutation, and where no two entities begin at
  the same place, which makes the comparison a strict order, the sorted one.\<close>

definition sortsEntities :: "(messageEntity list \<Rightarrow> messageEntity list) \<Rightarrow> bool" where
  "sortsEntities srt \<longleftrightarrow> (\<forall>es. mset (srt es) = mset es
     \<and> (distinct (map ent_Offset es) \<longrightarrow> sorted_wrt (\<lambda>a b. compareEntities a b \<le> 0) (srt es)))"

section \<open>Insertions\<close>

definition insertStringAt :: "nat \<Rightarrow> string \<Rightarrow> string \<Rightarrow> string" where
  "insertStringAt position str s = take position s @ str @ drop position s"

definition shiftBoth :: "multiSize \<Rightarrow> unparseState \<Rightarrow> unparseState" where
  "shiftBoth n st = st\<lparr>un_offset := size_Add (un_offset st) n, un_index := size_Add (un_index st) n\<rparr>"

definition insertString :: "string \<Rightarrow> unparseState \<Rightarrow> unparseState" where
  "insertString str st = shiftBoth (getMultiSize str) (st\<lparr>un_text := insertStringAt (un_at st) str (un_text st)\<rparr>)"

definition insertDelimiter :: "delimiter \<Rightarrow> unparseState \<Rightarrow> unparseState" where
  "insertDelimiter d st = shiftBoth (delim_Size d) (st\<lparr>un_text := insertStringAt (un_at st) d (un_text st)\<rparr>)"

definition reached :: "multiSize \<Rightarrow> unparseState \<Rightarrow> bool" where
  "reached p st \<longleftrightarrow> p \<noteq> maxMultiSize \<and> sz_utf16 p \<le> un_here st"

definition closePre :: "unparseState \<Rightarrow> unparseState" where
  "closePre st =
     (if reached (un_stack st preDelim) st
      then insertDelimiter preDelim (insertString [lineBreak] (st\<lparr>un_stack := (un_stack st)(preDelim := maxMultiSize)\<rparr>))
      else st)"

definition linkTarget :: "urlLikeState \<Rightarrow> string" where
  "linkTarget u = linkMiddleDelim @ url_URL u @ linkEndDelim"

definition closeURLs :: "unparseState \<Rightarrow> unparseState" where
  "closeURLs st =
     (let st = (if reached (middlePosition (un_emoji st)) st
                then (insertString (linkTarget (un_emoji st)) st)\<lparr>un_emoji := noURL\<rparr> else st)
      in if reached (middlePosition (un_link st)) st
         then (insertString (linkTarget (un_link st)) st)\<lparr>un_link := noURL\<rparr> else st)"

definition closeDelimiter :: "delimiter \<Rightarrow> unparseState \<Rightarrow> unparseState" where
  "closeDelimiter d st =
     (if reached (un_stack st d) st then insertDelimiter d (st\<lparr>un_stack := (un_stack st)(d := maxMultiSize)\<rparr>) else st)"

text \<open>Where an entity that begins here ends; the byte offset is not known and not used.\<close>

definition endOf :: "messageEntity \<Rightarrow> unparseState \<Rightarrow> multiSize" where
  "endOf e st = \<lparr>sz_utf8 = - 1, sz_utf16 = un_here st + word_of_int (ent_Length e)\<rparr>"

definition openURL :: "delimiter \<Rightarrow> messageEntity \<Rightarrow> string \<Rightarrow> unparseState \<Rightarrow> unparseState \<times> urlLikeState" where
  "openURL d e url st =
     (let st = insertDelimiter d st
      in (st, \<lparr>startPosition = un_index st, middlePosition = endOf e st, url_URL = url\<rparr>))"

definition openEntity :: "messageEntity \<Rightarrow> unparseState \<Rightarrow> unparseState" where
  "openEntity e st =
     (let d = getDelimiterForEntity e
      in if d = '''' then st
         else case e of
           Pre _ _ language \<Rightarrow>
             (let st = insertString (language @ [lineBreak]) (insertDelimiter d st)
              in st\<lparr>un_stack := (un_stack st)(d := endOf e st)\<rparr>)
         | TextURL _ _ url \<Rightarrow>
             (if startPosition (un_link st) = maxMultiSize
              then (let (st, u) = openURL d e url st in st\<lparr>un_link := u\<rparr>) else st)
         | CustomEmoji _ _ documentID \<Rightarrow>
             (if startPosition (un_link st) = maxMultiSize
              then (let (st, u) = openURL d e (formatInt documentID) st in st\<lparr>un_link := u\<rparr>)
              else if startPosition (un_emoji st) = maxMultiSize
              then (let (st, u) = openURL d e (formatInt documentID) st in st\<lparr>un_emoji := u\<rparr>) else st)
         | _ \<Rightarrow>
             (let st = insertDelimiter d st
              in if d \<in> set allDelimiters then st\<lparr>un_stack := (un_stack st)(d := endOf e st)\<rparr> else st))"

fun openEntities :: "messageEntity list \<Rightarrow> unparseState \<Rightarrow> unparseState" where
  "openEntities [] st = st\<lparr>un_entities := []\<rparr>"
| "openEntities (e # es) st =
     (if word_of_int (ent_Offset e) \<noteq> un_here st then st\<lparr>un_entities := e # es\<rparr>
      else openEntities es (openEntity e st))"

section \<open>The loop\<close>

definition escapeHere :: "unparseState \<Rightarrow> unparseState" where
  "escapeHere st =
     (if fst (DecodeRune (drop (un_at st) (un_text st))) \<in> set charsToEscape then insertDelimiter escapeDelim st else st)"

definition unparseStep :: "(unparseState \<Rightarrow> delimiter list) \<Rightarrow> unparseState \<Rightarrow> unparseState" where
  "unparseStep ord st =
     (let curRune = fst (DecodeRune (drop (un_at st) (un_text st)));
          st = closeURLs (closePre st);
          st = fold closeDelimiter (ord st) st;
          st = escapeHere (openEntities (un_entities st) st)
      in st\<lparr>un_index := size_Add (un_index st) (getMultiSize (encodeRune curRune))\<rparr>)"

definition unparseLoop :: "(unparseState \<Rightarrow> delimiter list) \<Rightarrow> unparseState \<Rightarrow> unparseState option" where
  "unparseLoop ord st = while_option (\<lambda>st. un_at st < length (un_text st)) (unparseStep ord) st"

definition unparseInit :: "string \<Rightarrow> messageEntity list \<Rightarrow> unparseState" where
  "unparseInit s es = \<lparr>un_text = s, un_entities = es, un_stack = \<lambda>_. maxMultiSize, un_link = noURL, un_emoji = noURL,
     un_offset = \<lparr>sz_utf8 = 0, sz_utf16 = 0\<rparr>, un_index = \<lparr>sz_utf8 = 0, sz_utf16 = 0\<rparr>\<rparr>"

text \<open>What is still open at the end of the text is closed there. A link is not.\<close>

definition closeRest :: "(unparseState \<Rightarrow> delimiter list) \<Rightarrow> unparseState \<Rightarrow> string" where
  "closeRest ord st =
     (let (s, stack) = (if un_stack st preDelim \<noteq> maxMultiSize
                        then (un_text st @ [lineBreak] @ preDelim, (un_stack st)(preDelim := maxMultiSize))
                        else (un_text st, un_stack st))
      in fold (\<lambda>d s. if stack d \<noteq> maxMultiSize then s @ d else s) (ord st) s)"

definition unparseText ::
    "(messageEntity list \<Rightarrow> messageEntity list) \<Rightarrow> (unparseState \<Rightarrow> delimiter list) \<Rightarrow> string \<Rightarrow> messageEntity list
      \<Rightarrow> unparseState option" where
  "unparseText srt ord s es = unparseLoop ord (unparseInit s (srt es))"

section \<open>The encoder\<close>

record markdownEncoding =
  me_cap :: nat

definition NewMarkdownEncoding :: markdownEncoding where
  "NewMarkdownEncoding = \<lparr>me_cap = 64\<rparr>"

text \<open>The capacity \<open>Unparse\<close> asks \<open>make\<close> for, \<open>None\<close> where it divides by zero.\<close>

definition unparseCap :: "nat \<Rightarrow> nat \<Rightarrow> nat option" where
  "unparseCap c n =
     (if c < n then (if c = 0 then None else Some (2 * (c * (n div c + 1)))) else Some (2 * c))"

datatype 'a unparseOutcome = UnparseHangs | UnparsePanics | Unparsed 'a

text \<open>\<open>make\<close> panics above \<open>maxCap\<close> elements. Every entity taken off the front of the slice takes one
  off its capacity.\<close>

definition Unparse ::
    "nat \<Rightarrow> (messageEntity list \<Rightarrow> messageEntity list) \<Rightarrow> (unparseState \<Rightarrow> delimiter list) \<Rightarrow> string \<Rightarrow> messageEntity list
      \<Rightarrow> markdownEncoding \<Rightarrow> (string \<times> markdownEncoding) unparseOutcome" where
  "Unparse maxCap srt ord s es md =
     (case unparseCap (me_cap md) (length es) of
        None \<Rightarrow> UnparsePanics
      | Some c \<Rightarrow>
          if maxCap < c then UnparsePanics
          else case unparseText srt ord s es of
            None \<Rightarrow> UnparseHangs
          | Some st \<Rightarrow> Unparsed (closeRest ord st, md\<lparr>me_cap := c - (length es - length (un_entities st))\<rparr>))"

text \<open>What a parse leaves of the encoder: a fresh slice, of the capacity \<open>append\<close> gives it.\<close>

definition afterParse :: "(nat \<Rightarrow> nat) \<Rightarrow> messageEntity list \<Rightarrow> markdownEncoding \<Rightarrow> markdownEncoding" where
  "afterParse appendCap es md = md\<lparr>me_cap := appendCap (length es)\<rparr>"

end
