(* ===== verification/Markdown_Roundtrip.thy ===== *)
theory Markdown_Roundtrip
  imports Markdown_Render Markdown_Unparse
begin

text \<open>
  What \<open>Unparse\<close> writes: for a message of plain and styled pieces exactly \<open>render\<close>, which \<open>Parse\<close>
  reads back; and what it loses, or fails at.
\<close>

section \<open>Positions\<close>

text \<open>The loop at a rune boundary: \<open>out\<close> has been written, \<open>rest\<close> is left of the text, \<open>con\<close> consumed.\<close>

definition boundary :: "unparseState \<Rightarrow> string \<Rightarrow> rune list \<Rightarrow> rune list \<Rightarrow> bool" where
  "boundary st out rst con \<longleftrightarrow> un_text st = out @ utf8 rst \<and> un_at st = length out \<and> un_here st = of_nat (units con)"

lemma insert_fields [simp]:
  "un_stack (insertDelimiter d st) = un_stack st" "un_entities (insertDelimiter d st) = un_entities st"
  "un_link (insertDelimiter d st) = un_link st" "un_emoji (insertDelimiter d st) = un_emoji st"
  "un_here (insertDelimiter d st) = un_here st"
  by (simp_all add: insertDelimiter_def shiftBoth_def un_here_def size_Add_def)

lemma upd_here [simp]:
  "un_here (st\<lparr>un_stack := sk\<rparr>) = un_here st" "un_here (st\<lparr>un_entities := es\<rparr>) = un_here st"
  "un_here (st\<lparr>un_link := l\<rparr>) = un_here st" "un_at (st\<lparr>un_stack := sk\<rparr>) = un_at st"
  "un_at (st\<lparr>un_entities := es\<rparr>) = un_at st" "un_at (st\<lparr>un_link := l\<rparr>) = un_at st"
  by (simp_all add: un_here_def un_at_def)

lemma boundary_upd [simp]:
  "boundary (st\<lparr>un_stack := sk\<rparr>) = boundary st" "boundary (st\<lparr>un_entities := es\<rparr>) = boundary st"
  "boundary (st\<lparr>un_link := l\<rparr>) = boundary st"
  by (simp_all add: boundary_def fun_eq_iff)

lemma unat_word_add:
  "unat w + n < 2 ^ 32 \<Longrightarrow> unat (w + of_nat n :: u32) = unat w + n"
  by (subst unat_add_lem [THEN iffD1]) (simp_all add: unat_of_nat take_bit_nat_eq_self)

lemma insertDelimiter_boundary:
  assumes "boundary st out rst con" and "d \<in> set allDelimiters \<or> d = escapeDelim" and "length out + length d < 2 ^ 32"
  shows "boundary (insertDelimiter d st) (out @ d) rst con"
proof -
  have "sz_utf8 (delim_Size d) = of_nat (length d)"
    using arg_cong [OF delim_Size_length [OF assms(2)], of "of_nat :: nat \<Rightarrow> u32"] by simp
  then have "un_at (insertDelimiter d st) = length out + length d"
    using assms(1,3) unat_word_add [of "sz_utf8 (un_index st)" "length d"]
    by (simp add: boundary_def insertDelimiter_def shiftBoth_def size_Add_def un_at_def)
  then show ?thesis
    using assms(1) by (simp add: boundary_def) (simp add: insertDelimiter_def shiftBoth_def insertStringAt_def)
qed

section \<open>Between two runes\<close>

text \<open>A message in the middle: the piece \<open>q\<close> is left of has the style \<open>dopt\<close>.\<close>

definition styleEnd :: "delimiter option \<Rightarrow> delimiter" where
  "styleEnd dopt = (case dopt of None \<Rightarrow> [] | Some d \<Rightarrow> d)"

definition stackOf :: "delimiter option \<Rightarrow> nat \<Rightarrow> delimiter \<Rightarrow> multiSize" where
  "stackOf dopt n = (case dopt of None \<Rightarrow> (\<lambda>_. maxMultiSize)
     | Some d \<Rightarrow> (\<lambda>_. maxMultiSize)(d := \<lparr>sz_utf8 = - 1, sz_utf16 = of_nat n\<rparr>))"

definition middle ::
    "unparseState \<Rightarrow> string \<Rightarrow> rune list \<Rightarrow> delimiter option \<Rightarrow> rune list \<Rightarrow> piece list \<Rightarrow> bool" where
  "middle st out con dopt q ps \<longleftrightarrow> boundary st out (q @ textOf ps) con \<and> un_link st = noURL \<and> un_emoji st = noURL
     \<and> un_stack st = stackOf dopt (units con + units q) \<and> un_entities st = entitiesOf (units con + units q) ps
     \<and> list_all wellFormed ps \<and> list_all codePoint q \<and> (\<forall>d. dopt = Some d \<longrightarrow> d \<in> set flatDelimiters)
     \<and> length (out @ escape q @ styleEnd dopt @ render ps) < 2 ^ 32 - 4
     \<and> units con + units (q @ textOf ps) < 2 ^ 32 - 1"

lemma word_le_of_nat: "a < 2 ^ 32 \<Longrightarrow> b < 2 ^ 32 \<Longrightarrow> (of_nat a :: u32) \<le> of_nat b \<longleftrightarrow> a \<le> b"
  by (simp add: word_le_nat_alt unat_of_nat take_bit_nat_eq_self)

lemma word_eq_of_nat: "a < 2 ^ 32 \<Longrightarrow> b < 2 ^ 32 \<Longrightarrow> (of_nat a :: u32) = of_nat b \<longleftrightarrow> a = b"
  using word_le_of_nat [of a b] word_le_of_nat [of b a] by auto

lemma units_0 [simp]: "units q = 0 \<longleftrightarrow> q = []"
  using unitsOf_le(2) by (cases q) auto

lemma reached_style:
  assumes "middle st out con (Some d) q ps"
  shows "reached (un_stack st d) st \<longleftrightarrow> q = []"
proof -
  have m: "un_stack st d = \<lparr>sz_utf8 = - 1, sz_utf16 = of_nat (units con + units q)\<rparr>" "un_here st = of_nat (units con)"
    using assms by (simp_all add: middle_def stackOf_def boundary_def)
  have b: "units con + units q < 2 ^ 32 - 1" using assms by (simp add: middle_def)
  have "(of_nat (units con + units q) :: u32) \<noteq> - 1"
  proof
    assume "(of_nat (units con + units q) :: u32) = - 1"
    then have "(of_nat (units con + units q) :: u32) = of_nat (2 ^ 32 - 1)" by simp
    then show False using b word_eq_of_nat [of "units con + units q" "2 ^ 32 - 1"] by simp
  qed
  then have "un_stack st d \<noteq> maxMultiSize" by (simp only: m maxMultiSize_def multiSize.iffs) simp
  moreover have "(of_nat (units con + units q) :: u32) \<le> of_nat (units con) \<longleftrightarrow> q = []"
    using b by (subst word_le_of_nat) simp_all
  ultimately show ?thesis by (simp add: reached_def m)
qed

lemma reached_max [simp]: "\<not> reached maxMultiSize st"
  by (simp add: reached_def)

lemma close_nothing:
  assumes "\<And>d. \<not> reached (un_stack st d) st"
  shows "fold closeDelimiter ds st = st"
  using assms by (induction ds) (simp_all add: closeDelimiter_def)

lemma close_style:
  assumes "\<And>e. e \<noteq> d \<Longrightarrow> un_stack st e = maxMultiSize" and "reached (un_stack st d) st" and "d \<in> set ds"
  shows "fold closeDelimiter ds st = insertDelimiter d (st\<lparr>un_stack := \<lambda>_. maxMultiSize\<rparr>)"
  using assms
proof (induction ds)
  case (Cons e ds)
  show ?case
  proof (cases "e = d")
    case True
    have "(un_stack st)(d := maxMultiSize) = (\<lambda>_. maxMultiSize)" using Cons.prems(1) by auto
    then have "closeDelimiter e st = insertDelimiter d (st\<lparr>un_stack := \<lambda>_. maxMultiSize\<rparr>)"
      using Cons.prems(2) True by (simp add: closeDelimiter_def)
    then show ?thesis by (simp add: close_nothing)
  next
    case False
    then have "closeDelimiter e st = st" using Cons.prems(1) by (simp add: closeDelimiter_def)
    then show ?thesis using Cons False by simp
  qed
qed simp

text \<open>The first part of an iteration closes a style whose piece is used up.\<close>

lemma closing_id: "middle st out con dopt q ps \<Longrightarrow> closeURLs (closePre st) = st"
proof -
  assume m: "middle st out con dopt q ps"
  then have "un_stack st preDelim = maxMultiSize"
    using flat_delims by (auto simp: middle_def stackOf_def split: option.splits)
  then show ?thesis
    using m by (simp add: closePre_def closeURLs_def middle_def noURL_def)
qed

lemma closing_step:
  assumes m: "middle st out con dopt q ps" and o: "set ds = set allDelimiters"
  shows "q = [] \<Longrightarrow> middle (fold closeDelimiter ds st) (out @ styleEnd dopt) con None [] ps"
    and "q \<noteq> [] \<Longrightarrow> fold closeDelimiter ds st = st"
proof -
  show "fold closeDelimiter ds st = st" if "q \<noteq> []"
  proof (cases dopt)
    case None
    then show ?thesis using m by (intro close_nothing) (simp add: middle_def stackOf_def)
  next
    case (Some d)
    have "\<not> reached (un_stack st e) st" for e
      using m Some reached_style [of st out con d q ps] that by (cases "e = d") (auto simp: middle_def stackOf_def)
    then show ?thesis by (rule close_nothing)
  qed
  show "middle (fold closeDelimiter ds st) (out @ styleEnd dopt) con None [] ps" if "q = []"
  proof (cases dopt)
    case None
    then have "fold closeDelimiter ds st = st" using m by (intro close_nothing) (simp add: middle_def stackOf_def)
    then show ?thesis using m that None by (simp add: styleEnd_def)
  next
    case (Some d)
    have d: "d \<in> set allDelimiters" using m Some flat_delims by (simp add: middle_def)
    have b: "boundary st out (textOf ps) con" "length out + length d < 2 ^ 32"
      using m that Some by (simp_all add: middle_def styleEnd_def)
    have "fold closeDelimiter ds st = insertDelimiter d (st\<lparr>un_stack := \<lambda>_. maxMultiSize\<rparr>)"
      using m Some that reached_style [of st out con d q ps] d o
      by (intro close_style) (auto simp: middle_def stackOf_def)
    moreover have "boundary (insertDelimiter d (st\<lparr>un_stack := \<lambda>_. maxMultiSize\<rparr>)) (out @ d) (textOf ps) con"
      using b d by (intro insertDelimiter_boundary) simp_all
    ultimately show ?thesis
      using m that Some by (simp add: middle_def stackOf_def styleEnd_def)
  qed
qed


section \<open>Opening and consuming\<close>

lemma entityAt_flat:
  assumes "d \<in> set flatDelimiters"
  shows "word_of_int (ent_Offset (entityAt d off n)) = (of_nat off :: u32)"
    "word_of_int (ent_Length (entityAt d off n)) = (of_nat n :: u32)" "getDelimiterForEntity (entityAt d off n) = d"
  using CreateEntity_flat [OF assms, of "of_nat off" "of_nat n", THEN conjunct2] by (simp_all add: entityAt_def)

lemma openEntity_flat:
  assumes "d \<in> set flatDelimiters"
  shows "openEntity (entityAt d off n) st = (let st = insertDelimiter d st
    in st\<lparr>un_stack := (un_stack st)(d := \<lparr>sz_utf8 = - 1, sz_utf16 = un_here st + of_nat n\<rparr>)\<rparr>)"
proof -
  note e = entityAt_flat [OF assms, of off n] and d = flat_delims [OF assms]
  have "linkStartDelim \<notin> set allStandardDelimiters" by (simp add: md_delims numeral_3_eq_3)
  then have "openEntity (entityAt d off n) st = (let st = insertDelimiter d st
      in st\<lparr>un_stack := (un_stack st)(d := endOf (entityAt d off n) st)\<rparr>)"
    using e(3) d by (cases "entityAt d off n") (auto simp: openEntity_def Let_def)
  then show ?thesis by (simp add: endOf_def e(2) Let_def)
qed

lemma entities_later:
  assumes "list_all wellFormed ps" and "off + units (textOf ps) < 2 ^ 32" and "e \<in> set (entitiesOf off ps)"
  shows "\<exists>m. off \<le> m \<and> m < 2 ^ 32 \<and> word_of_int (ent_Offset e) = (of_nat m :: u32) \<and> ent_Offset e = int m"
  using assms
proof (induction off ps rule: entitiesOf.induct)
  case (2 off t ps)
  then show ?case by fastforce
next
  case (3 off d t ps)
  then have d: "d \<in> set flatDelimiters" by (simp add: wellFormed_def)
  show ?case
  proof (cases "e = entityAt d off (units t)")
    case True
    have "unat (of_nat off :: u32) = off" using 3(3) by (simp add: unat_of_nat take_bit_nat_eq_self)
    then have "uint (of_nat off :: u32) = int off" by (simp only: uint_nat)
    then have "ent_Offset e = int off"
      using CreateEntity_flat [OF d, of "of_nat off" "of_nat (units t)", THEN conjunct2] by (simp add: True entityAt_def)
    then show ?thesis
      using 3(3) entityAt_flat(1) [OF d, of off "units t"] by (intro exI [of _ off]) (simp add: True)
  next
    case False
    then show ?thesis using 3 by fastforce
  qed
qed simp

lemma open_nothing:
  assumes "middle st out con dopt q ps" and "q \<noteq> [] \<or> ps = []"
  shows "openEntities (un_entities st) st = st"
proof (cases "un_entities st")
  case Nil
  then show ?thesis by (cases st) simp
next
  case (Cons e es)
  have m: "un_entities st = entitiesOf (units con + units q) ps" "list_all wellFormed ps" "un_here st = of_nat (units con)"
    "units con + units q + units (textOf ps) < 2 ^ 32"
    using assms(1) by (simp_all add: middle_def boundary_def)
  have "e \<in> set (entitiesOf (units con + units q) ps)" using Cons m(1) by (metis list.set_intros(1))
  from entities_later [OF m(2,4) this]
  obtain n where "units con + units q \<le> n" "n < 2 ^ 32" "word_of_int (ent_Offset e) = (of_nat n :: u32)"
    by blast
  moreover have "q \<noteq> []" using assms(2) m(1) Cons by auto
  then have "0 < units q" using units_0 [of q] by linarith
  ultimately have "word_of_int (ent_Offset e) \<noteq> un_here st"
    using m(3,4) by (simp add: word_eq_of_nat)
  then show ?thesis using Cons by (cases st) simp
qed

text \<open>The second part opens the style of the piece that begins here.\<close>

lemma opening_step:
  assumes m: "middle st out con None [] (p # ps)"
  shows "\<exists>out' dopt. middle (openEntities (un_entities st) st) out' con dopt (pieceText p) ps
    \<and> out' @ escape (pieceText p) @ styleEnd dopt = out @ pieceMarkup p"
proof (cases p)
  case (Plain t)
  have "middle st out con None t ps"
    using m by (simp add: middle_def Plain wellFormed_def stackOf_def styleEnd_def add.assoc)
  then show ?thesis
    using open_nothing [of st out con None t ps] m
    by (intro exI [of _ out] exI [of _ None]) (simp add: Plain middle_def wellFormed_def styleEnd_def)
next
  case (Styled d t)
  have d: "d \<in> set flatDelimiters" "d \<in> set allDelimiters" and t: "t \<noteq> []" "list_all codePoint t"
    using m flat_delims by (simp_all add: middle_def Styled wellFormed_def)
  let ?st = "(insertDelimiter d (st\<lparr>un_entities := entitiesOf (units con + units t) ps\<rparr>))\<lparr>un_stack := stackOf (Some d) (units con + units t)\<rparr>"
  have here: "un_here st = of_nat (units con)" and stack: "un_stack st = (\<lambda>_. maxMultiSize)"
    and es: "un_entities st = entityAt d (units con) (units t) # entitiesOf (units con + units t) ps"
    using m by (simp_all add: middle_def boundary_def stackOf_def Styled)
  have "boundary (insertDelimiter d (st\<lparr>un_entities := entitiesOf (units con + units t) ps\<rparr>)) (out @ d) (t @ textOf ps) con"
    using m d by (intro insertDelimiter_boundary) (simp_all add: middle_def Styled styleEnd_def)
  then have mid: "middle ?st (out @ d) con (Some d) t ps"
    using m d t by (simp add: middle_def Styled styleEnd_def wellFormed_def add.assoc)
  have "openEntities (un_entities st) st = openEntities (entitiesOf (units con + units t) ps)
      ((insertDelimiter d st)\<lparr>un_stack := stackOf (Some d) (units con + units t)\<rparr>)"
    unfolding es using entityAt_flat [OF d(1), of "units con" "units t"]
    by (simp add: here openEntity_flat [OF d(1)] Let_def stack stackOf_def)
  also have "\<dots> = openEntities (un_entities ?st) ?st"
  proof (cases "entitiesOf (units con + units t) ps")
    case Nil
    then show ?thesis by (simp add: insertDelimiter_def shiftBoth_def un_at_def)
  next
    case (Cons e es)
    have "openEntities (un_entities ?st) ?st = ?st" using open_nothing [OF mid] t by simp
    moreover have "word_of_int (ent_Offset e) \<noteq> un_here ?st"
    proof
      assume "word_of_int (ent_Offset e) = un_here ?st"
      moreover obtain n where "units con + units t \<le> n" "n < 2 ^ 32" "word_of_int (ent_Offset e) = (of_nat n :: u32)"
        using entities_later [of ps "units con + units t" e] mid Cons by (auto simp: middle_def)
      moreover have "0 < units t" using t units_0 [of t] by linarith
      ultimately show False using mid here by (simp add: word_eq_of_nat middle_def)
    qed
    ultimately show ?thesis
      using Cons by (simp add: insertDelimiter_def shiftBoth_def un_at_def un_here_def)
  qed
  also have "\<dots> = ?st" using open_nothing [OF mid] t by simp
  finally show ?thesis
    using mid by (intro exI [of _ "out @ d"] exI [of _ "Some d"]) (simp add: Styled styleEnd_def)
qed

text \<open>The last part writes the next rune.\<close>

definition nextRune :: "rune \<Rightarrow> unparseState \<Rightarrow> unparseState" where
  "nextRune r st = st\<lparr>un_index := size_Add (un_index st) (getMultiSize (encodeRune r))\<rparr>"

lemma nextRune_fields [simp]:
  "un_stack (nextRune r st) = un_stack st" "un_entities (nextRune r st) = un_entities st" "un_link (nextRune r st) = un_link st"
  "un_emoji (nextRune r st) = un_emoji st" "un_text (nextRune r st) = un_text st"
  by (simp_all add: nextRune_def)

lemma nextRune_step:
  assumes m: "middle st out con dopt (r # q) ps"
  shows "middle (nextRune r (escapeHere st)) (out @ escape [r]) (con @ [r]) dopt q ps"
proof -
  have r: "codePoint r" and b: "boundary st out (r # q @ textOf ps) con"
    and len: "length (out @ escape (r # q) @ styleEnd dopt @ render ps) < 2 ^ 32 - 4"
    using m by (simp_all add: middle_def)
  let ?e = "if r \<in> set charsToEscape then escapeDelim else []"
  have "fst (DecodeRune (drop (un_at st) (un_text st))) = r"
    using b r by (simp add: boundary_def DecodeRune_encode)
  then have esc: "escapeHere st = (if r \<in> set charsToEscape then insertDelimiter escapeDelim st else st)"
    by (simp add: escapeHere_def)
  have b': "boundary (escapeHere st) (out @ ?e) (r # q @ textOf ps) con"
  proof (cases "r \<in> set charsToEscape")
    case True
    then show ?thesis using insertDelimiter_boundary [OF b, of escapeDelim] len by (simp add: esc)
  next
    case False
    then show ?thesis using b by (simp add: esc)
  qed
  have n: "getMultiSize (encodeRune r) = \<lparr>sz_utf8 = of_nat (length (encodeRune r)), sz_utf16 = of_nat (unitsOf r)\<rparr>"
    using getMultiSize_utf8 [of "[r]"] r by (simp add: pos_def)
  have "un_at (nextRune r (escapeHere st)) = length (out @ ?e) + length (encodeRune r)"
    using b' len unat_word_add [of "sz_utf8 (un_index (escapeHere st))" "length (encodeRune r)"]
    by (simp add: nextRune_def un_at_def size_Add_def n boundary_def)
  moreover have "un_here (nextRune r (escapeHere st)) = un_here (escapeHere st) + of_nat (unitsOf r)"
    by (simp add: nextRune_def un_here_def size_Add_def n)
  ultimately have "boundary (nextRune r (escapeHere st)) (out @ escape [r]) (q @ textOf ps) (con @ [r])"
    using b' by (simp add: boundary_def)
  then show ?thesis
    using m esc by (simp add: middle_def add.assoc)
qed

section \<open>The whole text\<close>

lemma iteration:
  assumes m: "middle st out con dopt q ps" and o: "set (ord (closeURLs (closePre st))) = set allDelimiters"
    and rst: "q @ textOf ps = r # rs"
  shows "\<exists>out' dopt' q' ps'. middle (unparseStep ord st) out' (con @ [r]) dopt' q' ps' \<and> q' @ textOf ps' = rs
    \<and> out' @ escape q' @ styleEnd dopt' @ render ps' = out @ escape q @ styleEnd dopt @ render ps"
proof -
  have cp: "list_all codePoint (q @ textOf ps)"
  proof -
    have "list_all wellFormed ps \<Longrightarrow> list_all codePoint (textOf ps)"
      by (induction ps) (auto simp: wellFormed_def)
    then show ?thesis using m by (simp add: middle_def)
  qed
  have cur: "fst (DecodeRune (drop (un_at st) (un_text st))) = r"
    using m rst cp by (simp add: middle_def boundary_def DecodeRune_encode)
  let ?c = "fold closeDelimiter (ord st) st"
  have step: "unparseStep ord st = nextRune r (escapeHere (openEntities (un_entities ?c) ?c))"
    using closing_id [OF m] cur by (simp add: unparseStep_def nextRune_def Let_def)
  have o': "set (ord st) = set allDelimiters" using o closing_id [OF m] by simp
  show ?thesis
  proof (cases q)
    case (Cons r' q')
    then have "?c = st" "openEntities (un_entities st) st = st"
      using closing_step(2) [OF m o'] open_nothing [OF m] by simp_all
    then show ?thesis
      using nextRune_step [of st out con dopt r q' ps] m rst Cons unfolding step
      by (intro exI [of _ "out @ escape [r]"] exI [of _ dopt] exI [of _ q'] exI [of _ ps]) simp
  next
    case Nil
    then have c: "middle ?c (out @ styleEnd dopt) con None [] ps" using closing_step(1) [OF m o'] by simp
    obtain p ps' where ps: "ps = p # ps'" using rst Nil by (cases ps) auto
    obtain out' dopt' where o2: "middle (openEntities (un_entities ?c) ?c) out' con dopt' (pieceText p) ps'"
        "out' @ escape (pieceText p) @ styleEnd dopt' = (out @ styleEnd dopt) @ pieceMarkup p"
      using opening_step [OF c [unfolded ps]] by blast
    obtain q' where q': "pieceText p = r # q'"
      using c rst Nil ps by (cases "pieceText p") (auto simp: middle_def wellFormed_def)
    have "out' @ escape (r # q') @ styleEnd dopt' @ render ps' = out @ styleEnd dopt @ render ps"
      using o2(2) by (simp add: ps q' flip: append_assoc)
    then show ?thesis
      using nextRune_step [OF o2(1) [unfolded q']] rst Nil unfolding step
      by (intro exI [of _ "out' @ escape [r]"] exI [of _ dopt'] exI [of _ q'] exI [of _ ps']) (simp add: ps q')
  qed
qed

lemma closeRest_style:
  assumes "un_stack st = stackOf dopt n" and "\<forall>d. dopt = Some d \<longrightarrow> d \<in> set flatDelimiters" and "n < 2 ^ 32 - 1"
    and "mset (ord st) = mset allDelimiters"
  shows "closeRest ord st = un_text st @ styleEnd dopt"
proof -
  have pre: "un_stack st preDelim = maxMultiSize"
    using assms(1,2) flat_delims by (auto simp: stackOf_def split: option.splits)
  have "distinct allDelimiters" by (simp add: md_delims numeral_3_eq_3)
  then have dist: "distinct (ord st)" "set (ord st) = set allDelimiters"
    using assms(4) mset_eq_imp_distinct_iff mset_eq_setD by blast+
  have none: "fold (\<lambda>e s. if un_stack st e \<noteq> maxMultiSize then s @ e else s) ds s = s"
    if "\<And>e. e \<in> set ds \<Longrightarrow> un_stack st e = maxMultiSize" for ds s
    using that by (induction ds arbitrary: s) simp_all
  have one: "fold (\<lambda>e s. if un_stack st e \<noteq> maxMultiSize then s @ e else s) ds s = s @ d"
    if "d \<in> set ds" "distinct ds" "un_stack st d \<noteq> maxMultiSize" "\<And>e. e \<noteq> d \<Longrightarrow> un_stack st e = maxMultiSize" for d ds s
    using that(1,2)
  proof (induction ds arbitrary: s)
    case (Cons e ds)
    show ?case
    proof (cases "e = d")
      case True
      have "un_stack st x = maxMultiSize" if "x \<in> set ds" for x
      proof -
        have "x \<noteq> d" using Cons.prems(2) True that by auto
        then show ?thesis using \<open>\<And>e. e \<noteq> d \<Longrightarrow> un_stack st e = maxMultiSize\<close> by simp
      qed
      then show ?thesis using none [of ds] True \<open>un_stack st d \<noteq> maxMultiSize\<close> by simp
    next
      case False
      then have "un_stack st e = maxMultiSize" using \<open>\<And>e. e \<noteq> d \<Longrightarrow> un_stack st e = maxMultiSize\<close> by simp
      then show ?thesis using Cons False by simp
    qed
  qed simp
  have rest: "closeRest ord st = fold (\<lambda>e s. if un_stack st e \<noteq> maxMultiSize then s @ e else s) (ord st) (un_text st)"
    by (simp add: closeRest_def pre)
  show ?thesis
  proof (cases dopt)
    case None
    then show ?thesis using none [of "ord st"] assms(1) by (simp add: rest stackOf_def styleEnd_def)
  next
    case (Some d)
    have "(of_nat n :: u32) \<noteq> - 1"
    proof
      assume "(of_nat n :: u32) = - 1"
      then have "(of_nat n :: u32) = of_nat (2 ^ 32 - 1)" by simp
      then show False using assms(3) word_eq_of_nat [of n "2 ^ 32 - 1"] by simp
    qed
    then have "un_stack st d \<noteq> maxMultiSize"
      by (simp add: assms(1) Some stackOf_def maxMultiSize_def)
    moreover have "d \<in> set (ord st)" using assms(2) Some flat_delims dist(2) by simp
    ultimately show ?thesis
      using one [of d "ord st" "un_text st"] dist(1) assms(1) by (simp add: rest Some stackOf_def styleEnd_def)
  qed
qed

lemma unparse_middle:
  assumes "middle st out con dopt q ps" and o: "\<And>st. mset (ord st) = mset allDelimiters"
  shows "\<exists>st'. unparseLoop ord st = Some st' \<and> closeRest ord st' = out @ escape q @ styleEnd dopt @ render ps
    \<and> un_entities st' = []"
  using assms(1)
proof (induction "q @ textOf ps" arbitrary: st out con dopt q ps)
  case Nil
  have "ps = []"
  proof (cases ps)
    case (Cons p ps')
    then show ?thesis using Nil by (simp add: middle_def wellFormed_def)
  qed simp
  then have e: "q = []" "ps = []" using Nil by simp_all
  then have "unparseLoop ord st = Some st"
    using Nil.prems unfolding unparseLoop_def by (subst while_option_unfold) (simp add: middle_def boundary_def)
  moreover have "closeRest ord st = un_text st @ styleEnd dopt"
    using Nil.prems o by (intro closeRest_style) (auto simp: middle_def)
  ultimately show ?case using Nil.prems e by (simp add: middle_def boundary_def)
next
  case (Cons r rs)
  have "set (ord st) = set allDelimiters" for st using o mset_eq_setD by blast
  then obtain out' dopt' q' ps' where n: "middle (unparseStep ord st) out' (con @ [r]) dopt' q' ps'" "q' @ textOf ps' = rs"
      "out' @ escape q' @ styleEnd dopt' @ render ps' = out @ escape q @ styleEnd dopt @ render ps"
    using iteration [OF Cons.prems, of ord r rs] Cons(2) by metis
  have "un_at st < length (un_text st)"
    using Cons.prems unfolding middle_def boundary_def Cons(2) [symmetric] by simp
  then have "unparseLoop ord st = unparseLoop ord (unparseStep ord st)"
    unfolding unparseLoop_def by (subst while_option_unfold) simp
  then show ?case using Cons(1) [OF n(2) [symmetric] n(1)] n(3) by simp
qed


lemma entities_sorted:
  assumes "list_all wellFormed ps" and "off + units (textOf ps) < 2 ^ 32"
  shows "sorted_wrt (<) (map ent_Offset (entitiesOf off ps))"
  using assms
proof (induction off ps rule: entitiesOf.induct)
  case (3 off d t ps)
  have "ent_Offset (entityAt d off (units t)) < ent_Offset e" if "e \<in> set (entitiesOf (off + units t) ps)" for e
  proof -
    have "list_all wellFormed ps" "off + units t + units (textOf ps) < 2 ^ 32"
      using 3(2,3) by (simp_all add: add.assoc)
    from entities_later [OF this that] obtain n where n: "off + units t \<le> n" "ent_Offset e = int n" by blast
    obtain m where m: "m < 2 ^ 32" "word_of_int (ent_Offset (entityAt d off (units t))) = (of_nat m :: u32)"
        "ent_Offset (entityAt d off (units t)) = int m"
      using entities_later [OF 3(2,3), of "entityAt d off (units t)"] by auto
    have "d \<in> set flatDelimiters" "t \<noteq> []" using 3(2) by (simp_all add: wellFormed_def)
    then have "(of_nat m :: u32) = of_nat off" "0 < units t"
      using m(2) entityAt_flat(1) [of d off "units t"] units_0 [of t] by (simp, linarith)
    then have "m = off" using m(1) 3(3) by (subst (asm) word_eq_of_nat) simp_all
    then show ?thesis using n m(3) \<open>0 < units t\<close> by simp
  qed
  then show ?case using 3 by simp
qed (simp_all add: add.assoc)

lemma sort_id:
  assumes srt: "sortsEntities srt" and es: "sorted_wrt (<) (map ent_Offset es)"
  shows "srt es = es"
proof -
  have d: "distinct (map ent_Offset es)" "sorted (map ent_Offset es)"
    using es by (simp_all add: strict_sorted_iff)
  have m: "mset (srt es) = mset es" and s: "sorted_wrt (\<lambda>a b. compareEntities a b \<le> 0) (srt es)"
    using srt d(1) unfolding sortsEntities_def by blast+
  have "sorted_wrt (\<lambda>a b. ent_Offset a \<le> ent_Offset b) (srt es)"
    by (rule sorted_wrt_mono_rel [OF _ s]) (simp add: compareEntities_def split: if_splits)
  then have s': "sorted (map ent_Offset (srt es))" by (simp add: sorted_wrt_map)
  have set: "set (srt es) = set es" using m by (rule mset_eq_setD)
  have "mset (map ent_Offset (srt es)) = mset (map ent_Offset es)" using m by simp
  then have d': "distinct (map ent_Offset (srt es))" using d(1) mset_eq_imp_distinct_iff by blast
  have "inj_on ent_Offset (set (srt es) \<union> set es)" using d(1) set by (simp add: distinct_map)
  then show ?thesis
    using map_sorted_distinct_set_unique [OF _ s' d' d(2,1) set] by blast
qed

lemma unparse_pieces:
  assumes srt: "sortsEntities srt" and ord: "\<And>st. mset (ord st) = mset allDelimiters"
    and wf: "list_all wellFormed ps" and len: "length (render ps) < 2 ^ 32 - 4"
  shows "\<exists>st. unparseText srt ord (utf8 (textOf ps)) (entitiesOf 0 ps) = Some st \<and> closeRest ord st = render ps
    \<and> un_entities st = []"
proof -
  have "list_all codePoint (textOf ps)" using wf by (induction ps) (auto simp: wellFormed_def)
  then have u: "units (textOf ps) < 2 ^ 32 - 1"
    using units_le length_render [of ps] len by fastforce
  then have s: "srt (entitiesOf 0 ps) = entitiesOf 0 ps"
    using entities_sorted [OF wf, of 0] by (intro sort_id srt) simp
  have "middle (unparseInit (utf8 (textOf ps)) (entitiesOf 0 ps)) [] [] None [] ps"
    using wf len u
    by (simp add: middle_def boundary_def unparseInit_def un_at_def un_here_def stackOf_def styleEnd_def)
  then show ?thesis
    using unparse_middle [of _ "[]" "[]" None "[]" ps ord] ord by (simp add: unparseText_def s styleEnd_def)
qed

text \<open>
  C32. Formatting survives a round trip through an encoder whose slice has a usable capacity. Take any
  message of non-empty plain pieces and pieces in one of the seven simple styles, of any code points, the
  special characters included, whose rendering is shorter than 4 GiB less four bytes. Let the sort be a
  permutation that orders entities with different offsets, let each visit of a map be some order of its
  keys, and let the capacity the encoder asks \<open>make\<close> for be neither a division by zero nor past
  what \<open>make\<close> allows: an encoder that has parsed a text without entities divides by zero when
  it writes one, and one that has written very often asks for too much (\<open>encoder_wears_out\<close>).
  Then writing the message gives its rendering, with each special character escaped, and parsing that gives
  back the text and the entities, with their offsets in UTF-16 code units.
\<close>

theorem formatting_survives:
  assumes "sortsEntities srt" and "\<forall>st. mset (ord st) = mset allDelimiters"
    and "list_all wellFormed ps" and "length (render ps) < 2 ^ 32 - 4"
    and "unparseCap (me_cap md) (length (entitiesOf 0 ps)) = Some c" and "c \<le> maxCap"
  shows "(\<exists>md'. Unparse maxCap srt ord (utf8 (textOf ps)) (entitiesOf 0 ps) md = Unparsed (render ps, md'))
    \<and> Parse (render ps) = Returns (utf8 (textOf ps), entitiesOf 0 ps)"
  using unparse_pieces [of srt ord ps] Parse_render [of ps] assms by (auto simp: Unparse_def)

lemma sorts_insort: "sortsEntities (\<lambda>es. sort_key ent_Offset es)"
proof -
  have "sorted_wrt (\<lambda>a b. compareEntities a b \<le> 0) xs" if "sorted_wrt (<) (map ent_Offset xs)" for xs
    using that unfolding sorted_wrt_map by (rule sorted_wrt_mono_rel [rotated]) (simp add: compareEntities_def)
  then show ?thesis
    by (simp add: sortsEntities_def strict_sorted_iff distinct_map)
qed

theorem formatting_survives_witness:
  "let ps = [Plain [0x61, 0x2A], Styled codeDelim [0x1F600], Styled boldDelim [0x62]]
   in \<exists>md'. Unparse 1000 (sort_key ent_Offset) (\<lambda>_. allDelimiters) (utf8 (textOf ps)) (entitiesOf 0 ps) NewMarkdownEncoding
        = Unparsed (render ps, md')"
proof -
  let ?ps = "[Plain [0x61, 0x2A], Styled codeDelim [0x1F600], Styled boldDelim [0x62]]"
  have wf: "list_all wellFormed ?ps" by (simp add: wellFormed_def codePoint_def flatDelimiters_def)
  have e: "length (escape rs) \<le> 10 * length rs" for rs
  proof (induction rs)
    case (Cons r rs)
    then show ?case using length_encodeRune [of r] by (simp add: escapeDelim_def)
  qed simp
  have "length (render ?ps) \<le> 40 + 8"
    using e [of "[0x61, 0x2A]"] e [of "[0x1F600]"] e [of "[0x62]"] by (simp add: md_delims del: piece_simps(5,6))
  then have "length (render ?ps) < 2 ^ 32 - 4" by simp
  then show ?thesis
    using formatting_survives [OF sorts_insort _ wf, of "\<lambda>_. allDelimiters" NewMarkdownEncoding 128 1000]
    by (simp add: NewMarkdownEncoding_def unparseCap_def Let_def)
qed

end
