(* ===== verification/Markdown_Capacity.thy ===== *)
theory Markdown_Capacity
  imports Markdown_Roundtrip
begin

text \<open>
  What becomes of an encoder that is used again: every \<open>Unparse\<close> doubles the capacity it
  allocates, and a \<open>Parse\<close> that finds no entity makes the next \<open>Unparse\<close> divide by zero.
\<close>

fun unparseAgain ::
    "nat \<Rightarrow> (messageEntity list \<Rightarrow> messageEntity list) \<Rightarrow> (unparseState \<Rightarrow> delimiter list) \<Rightarrow> string \<Rightarrow> nat
      \<Rightarrow> markdownEncoding \<Rightarrow> markdownEncoding unparseOutcome" where
  "unparseAgain maxCap srt ord s 0 md = Unparsed md"
| "unparseAgain maxCap srt ord s (Suc n) md =
     (case Unparse maxCap srt ord s [] md of
        Unparsed (_, md') \<Rightarrow> unparseAgain maxCap srt ord s n md'
      | UnparseHangs \<Rightarrow> UnparseHangs | UnparsePanics \<Rightarrow> UnparsePanics)"

lemma unparse_doubles:
  assumes "sortsEntities srt" and "\<forall>st. mset (ord st) = mset allDelimiters" and "list_all codePoint rs"
    and "2 * length (escape rs) < 2 ^ 32 - 4" and "2 * me_cap md \<le> maxCap"
  shows "\<exists>s. Unparse maxCap srt ord (utf8 rs) [] md = Unparsed (s, md\<lparr>me_cap := 2 * me_cap md\<rparr>)"
proof -
  define ps where "ps = (if rs = [] then [] else [Plain rs])"
  have ps: "list_all wellFormed ps" "textOf ps = rs" "entitiesOf 0 ps = []" "render ps = escape rs"
    using assms(3) by (auto simp: ps_def wellFormed_def)
  then obtain st where "unparseText srt ord (utf8 rs) [] = Some st" "un_entities st = []"
    using unparse_pieces [of srt ord ps] assms by auto
  then show ?thesis using assms(5) by (simp add: Unparse_def unparseCap_def)
qed

lemma unparseAgain_cap:
  assumes "sortsEntities srt" and "\<forall>st. mset (ord st) = mset allDelimiters" and "list_all codePoint rs"
    and "2 * length (escape rs) < 2 ^ 32 - 4" and "me_cap md * 2 ^ n \<le> maxCap"
  shows "unparseAgain maxCap srt ord (utf8 rs) n md = Unparsed (md\<lparr>me_cap := me_cap md * 2 ^ n\<rparr>)"
  using assms(5)
proof (induction n arbitrary: md)
  case (Suc n)
  have "2 * me_cap md * 1 \<le> 2 * me_cap md * 2 ^ n" by (rule mult_le_mono2) simp
  also have "\<dots> = me_cap md * 2 ^ Suc n" by simp
  also note Suc.prems
  finally have "2 * me_cap md \<le> maxCap" by simp
  then obtain s where s: "Unparse maxCap srt ord (utf8 rs) [] md = Unparsed (s, md\<lparr>me_cap := 2 * me_cap md\<rparr>)"
    using unparse_doubles [OF assms(1-4)] by blast
  have "unparseAgain maxCap srt ord (utf8 rs) n (md\<lparr>me_cap := 2 * me_cap md\<rparr>)
      = Unparsed (md\<lparr>me_cap := 2 * me_cap md * 2 ^ n\<rparr>)"
    using Suc.IH [of "md\<lparr>me_cap := 2 * me_cap md\<rparr>"] Suc.prems by (simp add: mult.assoc mult.left_commute)
  then show ?case by (simp add: s mult.assoc mult.left_commute)
qed simp

lemma unparseAgain_Suc:
  "unparseAgain maxCap srt ord s (Suc n) md =
    (case unparseAgain maxCap srt ord s n md of
       Unparsed md' \<Rightarrow> (case Unparse maxCap srt ord s [] md' of
          Unparsed (_, md'') \<Rightarrow> Unparsed md'' | UnparseHangs \<Rightarrow> UnparseHangs | UnparsePanics \<Rightarrow> UnparsePanics)
     | UnparseHangs \<Rightarrow> UnparseHangs | UnparsePanics \<Rightarrow> UnparsePanics)"
proof (induction n arbitrary: md)
  case (Suc n)
  show ?case
  proof (cases "Unparse maxCap srt ord s [] md")
    case (Unparsed x)
    then show ?thesis using Suc.IH [of "snd x"] by (cases x) simp
  qed simp_all
qed (simp split: unparseOutcome.split)

text \<open>
  An encoder wears out. Every call of \<open>Unparse\<close> doubles the capacity it allocates, also for a
  text without a single entity: after \<open>n\<close> calls on a new encoder it is \<open>64 * 2 ^ n\<close>, so that the
  first call past what \<open>make\<close> allows, the thirty-ninth at the latest on a 64-bit machine, panics.
  And after a parse that found no entity, the next \<open>Unparse\<close> with one divides by zero.
\<close>

theorem encoder_wears_out:
  assumes "sortsEntities srt" and "\<forall>st. mset (ord st) = mset allDelimiters" and "list_all codePoint rs"
    and "2 * length (escape rs) < 2 ^ 32 - 4" and "64 * 2 ^ n \<le> maxCap"
  shows "unparseAgain maxCap srt ord (utf8 rs) n NewMarkdownEncoding = Unparsed \<lparr>me_cap = 64 * 2 ^ n\<rparr>
    \<and> (maxCap < 64 * 2 ^ Suc n \<longrightarrow> unparseAgain maxCap srt ord (utf8 rs) (Suc n) NewMarkdownEncoding = UnparsePanics)
    \<and> (es \<noteq> [] \<and> appendCap 0 = 0 \<longrightarrow> Unparse maxCap srt ord s es (afterParse appendCap [] md) = UnparsePanics)"
proof -
  have c: "unparseAgain maxCap srt ord (utf8 rs) n NewMarkdownEncoding = Unparsed \<lparr>me_cap = 64 * 2 ^ n\<rparr>"
    using unparseAgain_cap [OF assms(1-4), of NewMarkdownEncoding n maxCap] assms(5) by (simp add: NewMarkdownEncoding_def)
  moreover have "unparseAgain maxCap srt ord (utf8 rs) (Suc n) NewMarkdownEncoding = UnparsePanics"
    if "maxCap < 64 * 2 ^ Suc n"
    unfolding unparseAgain_Suc c using that by (simp add: Unparse_def unparseCap_def)
  ultimately show ?thesis
    by (auto simp: Unparse_def unparseCap_def afterParse_def)
qed

theorem encoder_wears_out_witness:
  "unparseAgain (2 ^ 44) (sort_key ent_Offset) (\<lambda>_. allDelimiters) (utf8 []) 39 NewMarkdownEncoding = UnparsePanics"
  using encoder_wears_out [OF sorts_insort, of "\<lambda>_. allDelimiters" "[]" 38 "2 ^ 44"]
  by (simp del: unparseAgain.simps)

end
