(* ===== verification/Update_Scheduler.thy ===== *)
theory Update_Scheduler
  imports Prelude Strconv
begin

text \<open>
  The keyed scheduler of the Telegram bot (\<open>yatgbot/update_scheduler.go\<close>): updates of one user or
  one chat are handled one after the other in the order they came, the others concurrently.

  A pointer to a job is its index in \<open>us_heap\<close>, the jobs ever made. Every critical section is one
  operation, \<open>Enqueue\<close> or \<open>finish\<close>; \<open>us_running\<close> has the goroutines between their start and
  their \<open>finish\<close>, and \<open>us_unkeyed\<close> the handlers started without a key, which the scheduler does not
  follow. A handler is opaque, a number.
\<close>

type_synonym handler = nat

record asyncUpdateJob =
  ju_keys :: "string list"
  ju_run :: handler
  ju_started :: bool
  ju_done :: bool

record asyncUpdateScheduler =
  us_heap :: "asyncUpdateJob list"
  us_jobs :: "nat list"
  us_keyQueues :: "string \<Rightarrow> nat list option"
  us_busyKeys :: "string set"
  us_running :: "nat list"
  us_unkeyed :: "handler list"

definition newAsyncUpdateScheduler :: asyncUpdateScheduler where
  "newAsyncUpdateScheduler =
     \<lparr>us_heap = [], us_jobs = [], us_keyQueues = \<lambda>_. None, us_busyKeys = {}, us_running = [], us_unkeyed = []\<rparr>"

definition jobAt :: "asyncUpdateScheduler \<Rightarrow> nat \<Rightarrow> asyncUpdateJob" where
  "jobAt s j = us_heap s ! j"

definition keysOf :: "asyncUpdateScheduler \<Rightarrow> nat \<Rightarrow> string list" where
  "keysOf s j = ju_keys (jobAt s j)"

text \<open>Reading a key without a queue gives the nil slice.\<close>

definition queueAt :: "asyncUpdateScheduler \<Rightarrow> string \<Rightarrow> nat list" where
  "queueAt s k = (case us_keyQueues s k of None \<Rightarrow> [] | Some q \<Rightarrow> q)"

fun uniqueFrom :: "string set \<Rightarrow> string list \<Rightarrow> string list" where
  "uniqueFrom seen [] = []"
| "uniqueFrom seen (v # vs) = (if v \<in> seen then uniqueFrom seen vs else v # uniqueFrom (insert v seen) vs)"

definition uniqueStrings :: "string list \<Rightarrow> string list" where
  "uniqueStrings vs = (if length vs < 2 then vs else uniqueFrom {} vs)"

definition canStartLocked :: "asyncUpdateScheduler \<Rightarrow> nat \<Rightarrow> bool" where
  "canStartLocked s j \<longleftrightarrow>
     (\<forall>k \<in> set (keysOf s j). k \<notin> us_busyKeys s \<and> queueAt s k \<noteq> [] \<and> hd (queueAt s k) = j)"

definition markStarted :: "nat \<Rightarrow> asyncUpdateScheduler \<Rightarrow> asyncUpdateScheduler" where
  "markStarted j s = s\<lparr>us_heap := (us_heap s)[j := (jobAt s j)\<lparr>ju_started := True\<rparr>],
     us_busyKeys := us_busyKeys s \<union> set (keysOf s j)\<rparr>"

text \<open>The loop of \<open>collectRunnableLocked\<close> over the jobs.\<close>

fun collectRunnable :: "nat list \<Rightarrow> asyncUpdateScheduler \<Rightarrow> nat list \<times> asyncUpdateScheduler" where
  "collectRunnable [] s = ([], s)"
| "collectRunnable (j # js) s =
     (if ju_started (jobAt s j) \<or> ju_done (jobAt s j) \<or> \<not> canStartLocked s j then collectRunnable js s
      else (let (runnable, s') = collectRunnable js (markStarted j s) in (j # runnable, s')))"

definition startJobs :: "nat list \<Rightarrow> asyncUpdateScheduler \<Rightarrow> asyncUpdateScheduler" where
  "startJobs js s = s\<lparr>us_running := us_running s @ js\<rparr>"

definition collectAndStart :: "asyncUpdateScheduler \<Rightarrow> asyncUpdateScheduler" where
  "collectAndStart s = (let (runnable, s') = collectRunnable (us_jobs s) s in startJobs runnable s')"

text \<open>A job at the end of the slice of jobs and of the queue of each of its keys.\<close>

definition appendJob :: "string list \<Rightarrow> handler \<Rightarrow> asyncUpdateScheduler \<Rightarrow> asyncUpdateScheduler" where
  "appendJob keys run s =
     (let j = length (us_heap s)
      in s\<lparr>us_heap := us_heap s @ [\<lparr>ju_keys = keys, ju_run = run, ju_started = False, ju_done = False\<rparr>],
           us_jobs := us_jobs s @ [j],
           us_keyQueues := fold (\<lambda>k q. q(k \<mapsto> (case q k of None \<Rightarrow> [] | Some is \<Rightarrow> is) @ [j])) keys (us_keyQueues s)\<rparr>)"

definition us_Enqueue :: "string list \<Rightarrow> handler option \<Rightarrow> asyncUpdateScheduler \<Rightarrow> asyncUpdateScheduler" where
  "us_Enqueue keys run s =
     (case run of
        None \<Rightarrow> s
      | Some h \<Rightarrow>
          (let keys = uniqueStrings keys
           in if keys = [] then s\<lparr>us_unkeyed := us_unkeyed s @ [h]\<rparr>
              else collectAndStart (appendJob keys h s)))"

text \<open>What \<open>finish\<close> does to one key of its job.\<close>

definition releaseKey :: "nat \<Rightarrow> string \<Rightarrow> asyncUpdateScheduler \<Rightarrow> asyncUpdateScheduler" where
  "releaseKey j k s =
     (let s = s\<lparr>us_busyKeys := us_busyKeys s - {k}\<rparr>;
          queue = queueAt s k
      in if queue = [] then s
         else (let queue = (if hd queue = j then tl queue else remove1 j queue)
               in s\<lparr>us_keyQueues := (us_keyQueues s)(k := (if queue = [] then None else Some queue))\<rparr>))"

definition markDone :: "nat \<Rightarrow> asyncUpdateScheduler \<Rightarrow> asyncUpdateScheduler" where
  "markDone j s = s\<lparr>us_heap := (us_heap s)[j := (jobAt s j)\<lparr>ju_done := True\<rparr>]\<rparr>"

definition dropDone :: "asyncUpdateScheduler \<Rightarrow> asyncUpdateScheduler" where
  "dropDone s = s\<lparr>us_jobs := dropWhile (\<lambda>j. ju_done (jobAt s j)) (us_jobs s)\<rparr>"

text \<open>The goroutine of the job ends with \<open>finish\<close>.\<close>

definition us_finish :: "nat \<Rightarrow> asyncUpdateScheduler \<Rightarrow> asyncUpdateScheduler" where
  "us_finish j s =
     collectAndStart (dropDone (fold (releaseKey j) (keysOf s j) (markDone j (s\<lparr>us_running := remove1 j (us_running s)\<rparr>))))"

datatype updateOp = OpEnqueue "string list" "handler option" | OpFinish nat

text \<open>Only a goroutine that runs ends.\<close>

fun update_step :: "updateOp \<Rightarrow> asyncUpdateScheduler \<Rightarrow> asyncUpdateScheduler" where
  "update_step (OpEnqueue keys run) s = us_Enqueue keys run s"
| "update_step (OpFinish j) s = (if j \<in> set (us_running s) then us_finish j s else s)"

definition update_run :: "updateOp list \<Rightarrow> asyncUpdateScheduler \<Rightarrow> asyncUpdateScheduler" where
  "update_run ops s = fold update_step ops s"

section \<open>The keys of an update\<close>

text \<open>\<open>UpdateData.sequencingKeys\<close>: the user and the chat, where they are known.\<close>

definition sequencingKeys :: "int \<Rightarrow> int \<Rightarrow> string list" where
  "sequencingKeys userID chatID =
     (if userID \<noteq> 0 then [''user:'' @ formatInt userID] else [])
     @ (if chatID \<noteq> 0 then [''chat:'' @ formatInt chatID] else [])"

lemma formatInt_inj: "in_int64 a \<Longrightarrow> in_int64 b \<Longrightarrow> formatInt a = formatInt b \<longleftrightarrow> a = b"
  by (metis ParseInt_format sum.inject(2))

lemma sequencingKeys_meet:
  assumes "in_int64 u" "in_int64 u'" "in_int64 c" "in_int64 c'"
  shows "set (sequencingKeys u c) \<inter> set (sequencingKeys u' c') \<noteq> {}
    \<longleftrightarrow> (u \<noteq> 0 \<and> u = u') \<or> (c \<noteq> 0 \<and> c = c')"
  using assms by (auto simp: sequencingKeys_def formatInt_inj)

end
