(* ===== verification/Bot_Updates.thy ===== *)
theory Bot_Updates
  imports Update_Scheduler
begin

text \<open>
  What the bot makes of the updates gotd hands it (\<open>yatgbot/updates.go\<close>, \<open>utils.go\<close>,
  \<open>short_updates.go\<close>, and the identifiers of \<open>dispatcher.go\<close>): every kind of update has a function
  that finds its user, chat and input peer, or drops it; \<open>wrapAsync\<close> decides how it is dispatched.

  The types are gotd's, cut down to the fields the bot reads. A Go map is an association list whose
  order is the order of iteration. The last constructor of \<open>tgUpdate\<close> stands for all kinds the bot is
  not bound to.
\<close>

section \<open>Peers and entities\<close>

datatype peer = PeerUser int | PeerChat int | PeerChannel int

datatype inputPeer =
    InputPeerUser (ip_UserID: int) (ip_AccessHash: int)
  | InputPeerChat int
  | InputPeerChannel int int

record tgUser =
  usr_AccessHash :: int
  usr_LangCode :: string

record tgChannel =
  chn_ID :: int
  chn_AccessHash :: int

record tgEntities =
  te_Short :: bool
  te_Users :: "(int, tgUser) alist"
  te_Chats :: "(int, int) alist"
  te_Channels :: "(int, tgChannel) alist"

definition makeInputPeer :: "peer \<Rightarrow> tgEntities \<Rightarrow> inputPeer option" where
  "makeInputPeer p ents =
     (case p of
        PeerUser uid \<Rightarrow>
          (case map_of (te_Users ents) uid of
             None \<Rightarrow> if te_Short ents then Some (InputPeerUser uid 0) else None
           | Some u \<Rightarrow> Some (InputPeerUser uid (usr_AccessHash u)))
      | PeerChat cid \<Rightarrow> Some (InputPeerChat cid)
      | PeerChannel cid \<Rightarrow>
          (case map_of (te_Channels ents) cid of
             None \<Rightarrow> None
           | Some c \<Rightarrow> Some (InputPeerChannel cid (chn_AccessHash c))))"

definition getChatID :: "peer \<Rightarrow> tgEntities \<Rightarrow> int option" where
  "getChatID p ents =
     (case p of
        PeerUser uid \<Rightarrow> Some uid
      | PeerChat cid \<Rightarrow> Some cid
      | PeerChannel cid \<Rightarrow> map_option chn_ID (map_of (te_Channels ents) cid))"

definition getUserID :: "peer \<Rightarrow> peer option \<Rightarrow> int option" where
  "getUserID p fromID =
     (case p of
        PeerUser uid \<Rightarrow> Some uid
      | PeerChat _ \<Rightarrow> (case fromID of Some (PeerUser uid) \<Rightarrow> Some uid | _ \<Rightarrow> None)
      | PeerChannel _ \<Rightarrow> None)"

section \<open>Updates\<close>

datatype tgMessage =
    Message peer "peer option" string
  | MessageService peer "peer option" string
  | MessageEmpty

datatype tgUpdate =
    UpdateNewMessage tgMessage
  | UpdateBotCallbackQuery int peer string
  | UpdateDeleteMessages
  | UpdateEditMessage tgMessage
  | UpdateNewChannelMessage tgMessage
  | UpdateEditChannelMessage tgMessage
  | UpdateChannelParticipant int int
  | UpdateDeleteChannelMessages int
  | UpdateBotMessageReactions peer
  | UpdateBotPrecheckoutQuery int
  | UpdateBotInlineQuery int
  | UpdateMessageReactions peer
  | UpdateUnbound

record updateData =
  ud_userID :: int
  ud_chatID :: int
  ud_ent :: tgEntities
  ud_update :: tgUpdate
  ud_inputPeer :: "inputPeer option"

definition buildPeerUpdateData ::
    "tgEntities \<Rightarrow> tgUpdate \<Rightarrow> peer \<Rightarrow> peer option \<Rightarrow> updateData option" where
  "buildPeerUpdateData ents upd p fromID =
     (case getChatID p ents of
        None \<Rightarrow> None
      | Some chat \<Rightarrow>
          (case makeInputPeer p ents of
             None \<Rightarrow> None
           | Some ip \<Rightarrow>
               Some \<lparr>ud_userID = (case getUserID p fromID of None \<Rightarrow> 0 | Some u \<Rightarrow> u), ud_chatID = chat,
                     ud_ent = ents, ud_update = upd, ud_inputPeer = Some ip\<rparr>))"

text \<open>A query of a user: the chat is the first one among the entities, whichever Go visits first.\<close>

definition buildUserScopedUpdateData :: "tgEntities \<Rightarrow> tgUpdate \<Rightarrow> int \<Rightarrow> updateData option" where
  "buildUserScopedUpdateData ents upd uid =
     (case map_of (te_Users ents) uid of
        None \<Rightarrow> None
      | Some u \<Rightarrow>
          (let (chat, ip) = (case te_Chats ents of
                  (_, c) # _ \<Rightarrow> (c, InputPeerChat c)
                | [] \<Rightarrow> (uid, InputPeerUser uid (usr_AccessHash u)))
           in Some \<lparr>ud_userID = uid, ud_chatID = chat, ud_ent = ents, ud_update = upd, ud_inputPeer = Some ip\<rparr>))"

text \<open>A new message that the bot itself sent is dropped.\<close>

definition buildNewMessageUpdateData :: "int \<Rightarrow> tgEntities \<Rightarrow> tgMessage \<Rightarrow> updateData option" where
  "buildNewMessageUpdateData botID ents msg =
     (case msg of
        Message p fromID _ \<Rightarrow>
          if fromID = Some (PeerUser botID) then None
          else buildPeerUpdateData ents (UpdateNewMessage msg) p fromID
      | MessageService p fromID _ \<Rightarrow> buildPeerUpdateData ents (UpdateNewMessage msg) p fromID
      | MessageEmpty \<Rightarrow> None)"

definition buildNewChannelMessageUpdateData :: "tgEntities \<Rightarrow> tgMessage \<Rightarrow> updateData option" where
  "buildNewChannelMessageUpdateData ents msg =
     (case msg of
        Message p fromID _ \<Rightarrow> buildPeerUpdateData ents (UpdateNewChannelMessage msg) p fromID
      | MessageService p fromID _ \<Rightarrow> buildPeerUpdateData ents (UpdateNewChannelMessage msg) p fromID
      | MessageEmpty \<Rightarrow> None)"

definition buildEditMessageUpdateData :: "tgEntities \<Rightarrow> tgMessage \<Rightarrow> updateData option" where
  "buildEditMessageUpdateData ents msg =
     (case msg of Message p fromID _ \<Rightarrow> buildPeerUpdateData ents (UpdateEditMessage msg) p fromID | _ \<Rightarrow> None)"

definition buildEditChannelMessageUpdateData :: "tgEntities \<Rightarrow> tgMessage \<Rightarrow> updateData option" where
  "buildEditChannelMessageUpdateData ents msg =
     (case msg of Message p fromID _ \<Rightarrow> buildPeerUpdateData ents (UpdateEditChannelMessage msg) p fromID | _ \<Rightarrow> None)"

definition buildBotPrecheckoutQueryUpdateData :: "tgEntities \<Rightarrow> int \<Rightarrow> updateData option" where
  "buildBotPrecheckoutQueryUpdateData ents uid = buildUserScopedUpdateData ents (UpdateBotPrecheckoutQuery uid) uid"

definition buildBotInlineQueryUpdateData :: "tgEntities \<Rightarrow> int \<Rightarrow> updateData option" where
  "buildBotInlineQueryUpdateData ents uid = buildUserScopedUpdateData ents (UpdateBotInlineQuery uid) uid"

definition buildBotCallbackQueryUpdateData :: "tgEntities \<Rightarrow> int \<Rightarrow> peer \<Rightarrow> string \<Rightarrow> updateData option" where
  "buildBotCallbackQueryUpdateData ents uid p q =
     (case getChatID p ents of
        None \<Rightarrow> None
      | Some chat \<Rightarrow>
          (case makeInputPeer p ents of
             None \<Rightarrow> None
           | Some ip \<Rightarrow>
               Some \<lparr>ud_userID = uid, ud_chatID = chat, ud_ent = ents, ud_update = UpdateBotCallbackQuery uid p q,
                     ud_inputPeer = Some ip\<rparr>))"

definition buildBotMessageReactionsUpdateData :: "tgEntities \<Rightarrow> peer \<Rightarrow> updateData option" where
  "buildBotMessageReactionsUpdateData ents p =
     (case getChatID p ents of
        None \<Rightarrow> None
      | Some chat \<Rightarrow>
          (case makeInputPeer p ents of
             None \<Rightarrow> None
           | Some ip \<Rightarrow>
               Some \<lparr>ud_userID = 0, ud_chatID = chat, ud_ent = ents, ud_update = UpdateBotMessageReactions p,
                     ud_inputPeer = Some ip\<rparr>))"

definition buildDeleteMessagesUpdateData :: "tgEntities \<Rightarrow> updateData" where
  "buildDeleteMessagesUpdateData ents =
     \<lparr>ud_userID = 0, ud_chatID = 0, ud_ent = ents, ud_update = UpdateDeleteMessages, ud_inputPeer = None\<rparr>"

definition buildDeleteChannelMessagesUpdateData :: "tgEntities \<Rightarrow> int \<Rightarrow> updateData" where
  "buildDeleteChannelMessagesUpdateData ents channel =
     \<lparr>ud_userID = 0, ud_chatID = channel, ud_ent = ents, ud_update = UpdateDeleteChannelMessages channel,
      ud_inputPeer = None\<rparr>"

definition buildChannelParticipantUpdateData :: "tgEntities \<Rightarrow> int \<Rightarrow> int \<Rightarrow> updateData" where
  "buildChannelParticipantUpdateData ents channel uid =
     \<lparr>ud_userID = uid, ud_chatID = channel, ud_ent = ents, ud_update = UpdateChannelParticipant channel uid,
      ud_inputPeer = None\<rparr>"

text \<open>\<open>Bind\<close>: the function for each kind of update; the kinds it does not name never arrive.\<close>

definition buildUpdateData :: "int \<Rightarrow> tgEntities \<Rightarrow> tgUpdate \<Rightarrow> updateData option" where
  "buildUpdateData botID ents upd =
     (case upd of
        UpdateNewMessage msg \<Rightarrow> buildNewMessageUpdateData botID ents msg
      | UpdateBotCallbackQuery uid p q \<Rightarrow> buildBotCallbackQueryUpdateData ents uid p q
      | UpdateDeleteMessages \<Rightarrow> Some (buildDeleteMessagesUpdateData ents)
      | UpdateEditMessage msg \<Rightarrow> buildEditMessageUpdateData ents msg
      | UpdateNewChannelMessage msg \<Rightarrow> buildNewChannelMessageUpdateData ents msg
      | UpdateEditChannelMessage msg \<Rightarrow> buildEditChannelMessageUpdateData ents msg
      | UpdateChannelParticipant channel uid \<Rightarrow> Some (buildChannelParticipantUpdateData ents channel uid)
      | UpdateDeleteChannelMessages channel \<Rightarrow> Some (buildDeleteChannelMessagesUpdateData ents channel)
      | UpdateBotMessageReactions p \<Rightarrow> buildBotMessageReactionsUpdateData ents p
      | UpdateBotPrecheckoutQuery uid \<Rightarrow> buildBotPrecheckoutQueryUpdateData ents uid
      | UpdateBotInlineQuery uid \<Rightarrow> buildBotInlineQueryUpdateData ents uid
      | UpdateMessageReactions _ \<Rightarrow> None
      | UpdateUnbound \<Rightarrow> None)"

text \<open>\<open>wrapAsync\<close>: the update is dropped, dispatched before the handler returns, dispatched in a
  goroutine of its own, or queued with its keys (\<open>us_Enqueue\<close>).\<close>

datatype delivery = Dropped | Inline updateData | Spawned updateData | Queued "string list" updateData

definition wrapAsync :: "bool \<Rightarrow> bool \<Rightarrow> int \<Rightarrow> tgEntities \<Rightarrow> tgUpdate \<Rightarrow> delivery" where
  "wrapAsync syncMode scheduled botID ents upd =
     (case buildUpdateData botID ents upd of
        None \<Rightarrow> Dropped
      | Some ud \<Rightarrow>
          if syncMode then Inline ud
          else if \<not> scheduled then Spawned ud
          else Queued (sequencingKeys (ud_userID ud) (ud_chatID ud)) ud)"

text \<open>\<open>Bind\<close> keeps a scheduler only when the feature is on and dispatching is not synchronous.\<close>

definition FeatureSequentialUpdates :: u8 where "FeatureSequentialUpdates = 1"

definition features_Has :: "u8 \<Rightarrow> u8 \<Rightarrow> bool" where
  "features_Has f flag \<longleftrightarrow> and f flag = flag"

definition Bind :: "u8 \<Rightarrow> bool \<Rightarrow> int \<Rightarrow> tgEntities \<Rightarrow> tgUpdate \<Rightarrow> delivery" where
  "Bind features syncMode =
     wrapAsync syncMode (\<not> (\<not> features_Has features FeatureSequentialUpdates \<or> syncMode))"

section \<open>Messages\<close>

definition ExtractMessageFromUpdate :: "tgUpdate \<Rightarrow> string option" where
  "ExtractMessageFromUpdate upd =
     (case upd of
        UpdateNewMessage (Message _ _ txt) \<Rightarrow> Some txt
      | UpdateNewChannelMessage (Message _ _ txt) \<Rightarrow> Some txt
      | _ \<Rightarrow> None)"

definition ExtractMessageServiceFromUpdate :: "tgUpdate \<Rightarrow> string option" where
  "ExtractMessageServiceFromUpdate upd =
     (case upd of
        UpdateNewMessage (MessageService _ _ action) \<Rightarrow> Some action
      | UpdateNewChannelMessage (MessageService _ _ action) \<Rightarrow> Some action
      | _ \<Rightarrow> None)"

text \<open>The short forms of a message, whose fields go to a message of the long form.\<close>

record shortMessage =
  sm_Out :: bool
  sm_UserID :: int
  sm_ChatID :: "int option"
  sm_Message :: string

datatype tgUpdates = UpdatesShort shortMessage | UpdatesList "tgUpdate list"

definition shortMessageToMessage :: "shortMessage \<Rightarrow> tgMessage" where
  "shortMessageToMessage m =
     Message (case sm_ChatID m of None \<Rightarrow> PeerUser (sm_UserID m) | Some chat \<Rightarrow> PeerChat chat)
       (Some (PeerUser (sm_UserID m))) (sm_Message m)"

definition normalizeShortUpdates :: "tgUpdates \<Rightarrow> tgUpdates" where
  "normalizeShortUpdates us =
     (case us of
        UpdatesShort m \<Rightarrow>
          if sm_Out m then us else UpdatesList [UpdateNewMessage (shortMessageToMessage m)]
      | _ \<Rightarrow> us)"

section \<open>What is bound\<close>

lemma buildUpdateData_update: "buildUpdateData botID ents upd = Some ud \<Longrightarrow> ud_update ud = upd"
  by (cases upd)
    (auto simp: buildUpdateData_def buildNewMessageUpdateData_def buildNewChannelMessageUpdateData_def
      buildEditMessageUpdateData_def buildEditChannelMessageUpdateData_def buildPeerUpdateData_def
      buildBotCallbackQueryUpdateData_def buildBotMessageReactionsUpdateData_def buildDeleteMessagesUpdateData_def
      buildDeleteChannelMessagesUpdateData_def buildChannelParticipantUpdateData_def
      buildBotPrecheckoutQueryUpdateData_def buildBotInlineQueryUpdateData_def buildUserScopedUpdateData_def
      split: tgMessage.splits option.splits if_splits list.splits)

lemma Bind_sequential:
  "Bind features syncMode botID ents upd = Queued ks ud \<longleftrightarrow>
     features_Has features FeatureSequentialUpdates \<and> \<not> syncMode \<and> buildUpdateData botID ents upd = Some ud
     \<and> ks = sequencingKeys (ud_userID ud) (ud_chatID ud)"
  by (auto simp: Bind_def wrapAsync_def split: option.splits)

text \<open>An incoming short message reaches the dispatcher, with the sender as its user and, outside
  groups, as its chat, unless the bot sent it.\<close>

lemma short_message_dispatched:
  assumes "\<not> sm_Out m" and "sm_UserID m \<noteq> botID" and "te_Short ents"
  shows "\<exists>upd ud. normalizeShortUpdates (UpdatesShort m) = UpdatesList [upd]
    \<and> buildUpdateData botID ents upd = Some ud \<and> ud_userID ud = sm_UserID m
    \<and> ud_chatID ud = (case sm_ChatID m of None \<Rightarrow> sm_UserID m | Some chat \<Rightarrow> chat)
    \<and> ExtractMessageFromUpdate upd = Some (sm_Message m)"
  using assms
  by (auto simp: normalizeShortUpdates_def shortMessageToMessage_def buildUpdateData_def buildNewMessageUpdateData_def
      buildPeerUpdateData_def getChatID_def makeInputPeer_def getUserID_def ExtractMessageFromUpdate_def
      split: option.split)

end
