(* ===== verification/Bot_Router.thy ===== *)
theory Bot_Router
  imports Bot_Updates "HOL-Library.Sublist"
begin

text \<open>
  Routing an update to its handlers (\<open>yatgbot/router.go\<close>, \<open>filter.go\<close>, \<open>middlewares.go\<close>, \<open>dispatch\<close>
  of \<open>dispatcher.go\<close>). Router groups point at each other, so they live in a store from addresses to
  records. Filters, handlers and middlewares are the caller's: functions of a world \<open>'w\<close> that they
  read and change, the state storage included, and of the errors \<open>'e\<close> they return; \<open>ErrRouteMismatch\<close>
  is any error that \<open>errors.Is\<close> finds to be it. A localizer is a value of \<open>'l\<close>.

  Walks along pointers are \<open>partial_function\<close>s: \<open>None\<close> is a walk that does not end.
\<close>

section \<open>Filters\<close>

record filterDependencies =
  fd_storage :: string
  fd_userID :: int
  fd_update :: tgUpdate

datatype 'e botError = ErrRouteMismatch | BotError 'e

type_synonym ('e, 'w) updateFilter = "filterDependencies \<Rightarrow> 'w \<Rightarrow> ('e botError + bool) \<times> 'w"

definition StateIs :: "('w \<Rightarrow> string \<Rightarrow> 'e botError + string) \<Rightarrow> string list \<Rightarrow> ('e, 'w) updateFilter" where
  "StateIs getState want deps w =
     (case getState w (fd_storage deps) of Inl e \<Rightarrow> (Inl e, w) | Inr s \<Rightarrow> (Inr (s \<in> set want), w))"

definition TextEq :: "string \<Rightarrow> ('e, 'w) updateFilter" where
  "TextEq want deps w = (Inr (ExtractMessageFromUpdate (fd_update deps) = Some want), w)"

definition TextRegex :: "(string \<Rightarrow> bool) \<Rightarrow> ('e, 'w) updateFilter" where
  "TextRegex matchString deps w =
     (Inr (case ExtractMessageFromUpdate (fd_update deps) of Some m \<Rightarrow> matchString m | None \<Rightarrow> False), w)"

definition CallbackEq :: "string \<Rightarrow> ('e, 'w) updateFilter" where
  "CallbackEq dat deps w =
     (Inr (case fd_update deps of UpdateBotCallbackQuery _ _ q \<Rightarrow> q = dat | _ \<Rightarrow> False), w)"

definition CallbackPrefix :: "string \<Rightarrow> ('e, 'w) updateFilter" where
  "CallbackPrefix pre deps w =
     (Inr (case fd_update deps of UpdateBotCallbackQuery _ _ q \<Rightarrow> prefix pre q | _ \<Rightarrow> False), w)"

definition MessageServiceActionFilter :: "(string \<Rightarrow> bool) \<Rightarrow> ('e, 'w) updateFilter" where
  "MessageServiceActionFilter isT deps w =
     (Inr (case ExtractMessageServiceFromUpdate (fd_update deps) of Some a \<Rightarrow> isT a | None \<Rightarrow> False), w)"

definition MessageServiceFilter :: "('e, 'w) updateFilter" where
  "MessageServiceFilter deps w = (Inr (ExtractMessageServiceFromUpdate (fd_update deps) \<noteq> None), w)"

fun OneOfFilter :: "('e, 'w) updateFilter list \<Rightarrow> ('e, 'w) updateFilter" where
  "OneOfFilter [] deps w = (Inr False, w)"
| "OneOfFilter (f # fs) deps w =
     (case f deps w of
        (Inl e, w') \<Rightarrow> (Inl e, w')
      | (Inr ok, w') \<Rightarrow> if ok then (Inr True, w') else OneOfFilter fs deps w')"

fun AllOfFilter :: "('e, 'w) updateFilter list \<Rightarrow> ('e, 'w) updateFilter" where
  "AllOfFilter [] deps w = (Inr True, w)"
| "AllOfFilter (f # fs) deps w =
     (case f deps w of
        (Inl e, w') \<Rightarrow> (Inl e, w')
      | (Inr ok, w') \<Rightarrow> if \<not> ok then (Inr False, w') else AllOfFilter fs deps w')"

section \<open>Handlers and middlewares\<close>

record 'l handlerData =
  hd_Entities :: tgEntities
  hd_Update :: tgUpdate
  hd_UserID :: int
  hd_Peer :: "inputPeer option"
  hd_StateStorage :: string
  hd_Localizer :: "'l option"

type_synonym ('l, 'e, 'w) handlerNext =
  "'l handlerData \<Rightarrow> tgUpdate \<Rightarrow> 'w \<Rightarrow> 'e botError option \<times> 'w"

type_synonym ('l, 'e, 'w) handlerMiddleware =
  "'l handlerData \<Rightarrow> tgUpdate \<Rightarrow> ('l, 'e, 'w) handlerNext \<Rightarrow> 'w \<Rightarrow> 'e botError option \<times> 'w"

fun chainMiddleware ::
    "('l, 'e, 'w) handlerNext \<Rightarrow> ('l, 'e, 'w) handlerMiddleware list \<Rightarrow> ('l, 'e, 'w) handlerNext" where
  "chainMiddleware final [] = final"
| "chainMiddleware final (mw # mws) = chainMiddleware (\<lambda>hdata upd. mw hdata upd final) mws"

text \<open>The dynamic type of an update, which \<open>wrapHandler\<close> asserts.\<close>

datatype updateKind =
    KNewMessage | KBotCallbackQuery | KDeleteMessages | KEditMessage | KNewChannelMessage | KEditChannelMessage
  | KChannelParticipant | KDeleteChannelMessages | KBotMessageReactions | KBotPrecheckoutQuery | KBotInlineQuery
  | KMessageReactions | KUnbound

fun kindOf :: "tgUpdate \<Rightarrow> updateKind" where
  "kindOf (UpdateNewMessage _) = KNewMessage"
| "kindOf (UpdateBotCallbackQuery _ _ _) = KBotCallbackQuery"
| "kindOf UpdateDeleteMessages = KDeleteMessages"
| "kindOf (UpdateEditMessage _) = KEditMessage"
| "kindOf (UpdateNewChannelMessage _) = KNewChannelMessage"
| "kindOf (UpdateEditChannelMessage _) = KEditChannelMessage"
| "kindOf (UpdateChannelParticipant _ _) = KChannelParticipant"
| "kindOf (UpdateDeleteChannelMessages _) = KDeleteChannelMessages"
| "kindOf (UpdateBotMessageReactions _) = KBotMessageReactions"
| "kindOf (UpdateBotPrecheckoutQuery _) = KBotPrecheckoutQuery"
| "kindOf (UpdateBotInlineQuery _) = KBotInlineQuery"
| "kindOf (UpdateMessageReactions _) = KMessageReactions"
| "kindOf UpdateUnbound = KUnbound"

definition wrapHandler :: "updateKind \<Rightarrow> ('l, 'e, 'w) handlerNext \<Rightarrow> ('l, 'e, 'w) handlerNext" where
  "wrapHandler k h hdata upd w = (if kindOf upd \<noteq> k then (Some ErrRouteMismatch, w) else h hdata upd w)"

section \<open>Router groups\<close>

record ('l, 'e, 'w) route =
  rt_filters :: "('e, 'w) updateFilter list"
  rt_handler :: "('l, 'e, 'w) handlerNext"

record ('l, 'e, 'w) routerGroup =
  rg_parent :: "nat option"
  rg_base :: "('e, 'w) updateFilter list"
  rg_sub :: "nat list"
  rg_routes :: "('l, 'e, 'w) route list"
  rg_middlewares :: "('l, 'e, 'w) handlerMiddleware list"

type_synonym ('l, 'e, 'w) routers = "nat \<Rightarrow> ('l, 'e, 'w) routerGroup"

definition NewRouterGroup :: "('l, 'e, 'w) routerGroup" where
  "NewRouterGroup = \<lparr>rg_parent = None, rg_base = [], rg_sub = [], rg_routes = [], rg_middlewares = []\<rparr>"

definition includeOne :: "nat \<Rightarrow> nat \<Rightarrow> ('l, 'e, 'w) routers \<Rightarrow> ('l, 'e, 'w) routers" where
  "includeOne r s st =
     (let st = st(s := (st s)\<lparr>rg_parent := Some r\<rparr>)
      in st(r := (st r)\<lparr>rg_sub := rg_sub (st r) @ [s]\<rparr>))"

definition IncludeRouter :: "nat \<Rightarrow> nat list \<Rightarrow> ('l, 'e, 'w) routers \<Rightarrow> ('l, 'e, 'w) routers" where
  "IncludeRouter r subs st = fold (includeOne r) subs st"

text \<open>\<open>OnMessage\<close>, \<open>OnCallback\<close> and the others: the kind of update is the type of the handler.\<close>

definition OnUpdate ::
    "updateKind \<Rightarrow> nat \<Rightarrow> ('l, 'e, 'w) handlerNext \<Rightarrow> ('e, 'w) updateFilter list
      \<Rightarrow> ('l, 'e, 'w) routers \<Rightarrow> ('l, 'e, 'w) routers" where
  "OnUpdate k r h filters st =
     st(r := (st r)\<lparr>rg_routes := rg_routes (st r) @ [\<lparr>rt_filters = filters, rt_handler = wrapHandler k h\<rparr>]\<rparr>)"

abbreviation OnCallback where "OnCallback \<equiv> OnUpdate KBotCallbackQuery"
abbreviation OnMessage where "OnMessage \<equiv> OnUpdate KNewMessage"
abbreviation OnMessageReactions where "OnMessageReactions \<equiv> OnUpdate KMessageReactions"

definition AddMiddleware ::
    "nat \<Rightarrow> ('l, 'e, 'w) handlerMiddleware list \<Rightarrow> ('l, 'e, 'w) routers \<Rightarrow> ('l, 'e, 'w) routers" where
  "AddMiddleware r mws st = st(r := (st r)\<lparr>rg_middlewares := rg_middlewares (st r) @ mws\<rparr>)"

text \<open>From a group up to the root.\<close>

partial_function (option) parentChain :: "('l, 'e, 'w) routers \<Rightarrow> nat \<Rightarrow> nat list option" where
  "parentChain st r =
     (case rg_parent (st r) of
        None \<Rightarrow> Some [r]
      | Some p \<Rightarrow> Option.bind (parentChain st p) (\<lambda>c. Some (r # c)))"

text \<open>The middlewares of the parents come first. The order of memory writes inside \<open>append\<close> is the
  subject of \<open>Bot_Middleware\<close>.\<close>

partial_function (option) collectMiddlewares ::
    "('l, 'e, 'w) routers \<Rightarrow> nat \<Rightarrow> ('l, 'e, 'w) handlerMiddleware list option" where
  "collectMiddlewares st r =
     (case rg_parent (st r) of
        None \<Rightarrow> Some (rg_middlewares (st r))
      | Some p \<Rightarrow> Option.bind (collectMiddlewares st p) (\<lambda>mws. Some (mws @ rg_middlewares (st r))))"

text \<open>The filters of the groups, the root first, then those of the route.\<close>

definition checkFilters ::
    "('l, 'e, 'w) routers \<Rightarrow> nat \<Rightarrow> filterDependencies \<Rightarrow> ('e, 'w) updateFilter list \<Rightarrow> 'w
      \<Rightarrow> (('e botError + bool) \<times> 'w) option" where
  "checkFilters st r deps local w =
     Option.bind (parentChain st r)
       (\<lambda>chain. Some (AllOfFilter (concat (map (\<lambda>g. rg_base (st g)) (rev chain)) @ local) deps w))"

section \<open>Dispatching\<close>

datatype ('l, 'e) derived = InvalidLanguage | DeriveFailed 'e | Derived 'l

record ('l, 'e) botDispatcher =
  bd_Localizer :: 'l
  bd_Derive :: "'l \<Rightarrow> string \<Rightarrow> ('l, 'e) derived"
  bd_MainRouter :: "nat option"

definition localizerFor :: "('l, 'e) botDispatcher \<Rightarrow> updateData \<Rightarrow> 'e botError + 'l option" where
  "localizerFor d ud =
     (case map_of (te_Users (ud_ent ud)) (ud_userID ud) of
        None \<Rightarrow> Inr None
      | Some u \<Rightarrow>
          if usr_LangCode u = [] then Inr None
          else case bd_Derive d (bd_Localizer d) (usr_LangCode u) of
            Derived l \<Rightarrow> Inr (Some l)
          | InvalidLanguage \<Rightarrow> Inr (Some (bd_Localizer d))
          | DeriveFailed e \<Rightarrow> Inl (BotError e))"

definition depsOf :: "updateData \<Rightarrow> filterDependencies" where
  "depsOf ud = \<lparr>fd_storage = formatInt (ud_chatID ud), fd_userID = ud_userID ud, fd_update = ud_update ud\<rparr>"

definition handlerDataOf :: "updateData \<Rightarrow> 'l option \<Rightarrow> 'l handlerData" where
  "handlerDataOf ud l =
     \<lparr>hd_Entities = ud_ent ud, hd_Update = ud_update ud, hd_UserID = ud_userID ud, hd_Peer = ud_inputPeer ud,
      hd_StateStorage = formatInt (ud_chatID ud), hd_Localizer = l\<rparr>"

text \<open>One route: it ends the dispatch with an error, has handled the update, or leaves it to the next.\<close>

datatype 'e routed = Failed "'e botError" | Handled | Passed

definition tryRoute ::
    "('l, 'e) botDispatcher \<Rightarrow> ('l, 'e, 'w) routers \<Rightarrow> nat \<Rightarrow> updateData \<Rightarrow> ('l, 'e, 'w) route \<Rightarrow> 'w
      \<Rightarrow> ('e routed \<times> 'w) option" where
  "tryRoute d st r ud rt w =
     Option.bind (checkFilters st r (depsOf ud) (rt_filters rt) w)
       (\<lambda>(checked, w).
          case checked of
            Inl e \<Rightarrow> Some (Failed e, w)
          | Inr False \<Rightarrow> Some (Passed, w)
          | Inr True \<Rightarrow>
              (case localizerFor d ud of
                 Inl e \<Rightarrow> Some (Failed e, w)
               | Inr l \<Rightarrow>
                   Option.bind (collectMiddlewares st r)
                     (\<lambda>mws. case chainMiddleware (rt_handler rt) mws (handlerDataOf ud l) (ud_update ud) w of
                        (None, w) \<Rightarrow> Some (Handled, w)
                      | (Some ErrRouteMismatch, w) \<Rightarrow> Some (Passed, w)
                      | (Some e, w) \<Rightarrow> Some (Failed e, w))))"

fun tryRoutes ::
    "('l, 'e) botDispatcher \<Rightarrow> ('l, 'e, 'w) routers \<Rightarrow> nat \<Rightarrow> updateData \<Rightarrow> ('l, 'e, 'w) route list \<Rightarrow> 'w
      \<Rightarrow> ('e routed \<times> 'w) option" where
  "tryRoutes d st r ud [] w = Some (Passed, w)"
| "tryRoutes d st r ud (rt # rts) w =
     Option.bind (tryRoute d st r ud rt w)
       (\<lambda>(res, w). case res of Passed \<Rightarrow> tryRoutes d st r ud rts w | _ \<Rightarrow> Some (res, w))"

text \<open>\<open>dispatchRouter\<close> for one sub-router after the other, until one fails.\<close>

partial_function (option) dispatchRouters ::
    "('l, 'e) botDispatcher \<Rightarrow> ('l, 'e, 'w) routers \<Rightarrow> updateData \<Rightarrow> nat list \<Rightarrow> 'w
      \<Rightarrow> ('e botError option \<times> 'w) option" where
  "dispatchRouters d st ud rs w =
     (case rs of
        [] \<Rightarrow> Some (None, w)
      | r # rs \<Rightarrow>
          Option.bind (tryRoutes d st r ud (rg_routes (st r)) w)
            (\<lambda>(res, w).
               case res of
                 Failed e \<Rightarrow> Some (Some e, w)
               | Handled \<Rightarrow> dispatchRouters d st ud rs w
               | Passed \<Rightarrow>
                   Option.bind (dispatchRouters d st ud (rg_sub (st r)) w)
                     (\<lambda>(err, w). case err of
                        Some e \<Rightarrow> Some (Some e, w)
                      | None \<Rightarrow> dispatchRouters d st ud rs w)))"

definition dispatchRouter ::
    "('l, 'e) botDispatcher \<Rightarrow> ('l, 'e, 'w) routers \<Rightarrow> updateData \<Rightarrow> nat option \<Rightarrow> 'w
      \<Rightarrow> ('e botError option \<times> 'w) option" where
  "dispatchRouter d st ud r w = (case r of None \<Rightarrow> Some (None, w) | Some r \<Rightarrow> dispatchRouters d st ud [r] w)"

definition dispatch ::
    "('l, 'e) botDispatcher \<Rightarrow> ('l, 'e, 'w) routers \<Rightarrow> updateData \<Rightarrow> 'w \<Rightarrow> ('e botError option \<times> 'w) option" where
  "dispatch d st ud w = dispatchRouter d st ud (bd_MainRouter d) w"

lemmas dispatchRouters_simps = dispatchRouters.simps [where rs = "[]"] dispatchRouters.simps [where rs = "_ # _"]

end
