(* ===== verification/Bot_Dispatch.thy ===== *)
theory Bot_Dispatch
  imports Bot_Router
begin

text \<open>
  What dispatching promises: it returns for every tree of routers, it runs in each router the first
  route that fits and else all sub-routers, and never a handler of message reactions.
\<close>

section \<open>Dispatching returns\<close>

text \<open>Routers put together by the methods, numbered so that each is included only in earlier ones.\<close>

inductive assembled :: "nat \<Rightarrow> ('l, 'e, 'w) routers \<Rightarrow> bool" for N where
  assembled_new: "assembled N (\<lambda>_. NewRouterGroup)"
| assembled_include: "assembled N st \<Longrightarrow> \<forall>s\<in>set subs. r < s \<and> s < N \<Longrightarrow> assembled N (IncludeRouter r subs st)"
| assembled_on: "assembled N st \<Longrightarrow> assembled N (OnUpdate k r h filters st)"
| assembled_add: "assembled N st \<Longrightarrow> assembled N (AddMiddleware r mws st)"

definition downward :: "nat \<Rightarrow> ('l, 'e, 'w) routers \<Rightarrow> bool" where
  "downward N st \<longleftrightarrow> (\<forall>r. \<forall>s\<in>set (rg_sub (st r)). r < s \<and> s < N) \<and> (\<forall>s p. rg_parent (st s) = Some p \<longrightarrow> p < s)"

lemma downward_include1: "downward N st \<Longrightarrow> r < s \<and> s < N \<Longrightarrow> downward N (includeOne r s st)"
  unfolding downward_def includeOne_def Let_def by simp

lemma downward_include: "downward N st \<Longrightarrow> \<forall>s\<in>set subs. r < s \<and> s < N \<Longrightarrow> downward N (IncludeRouter r subs st)"
  by (induction subs arbitrary: st) (simp_all add: IncludeRouter_def downward_include1)

lemma assembled_downward: "assembled N st \<Longrightarrow> downward N st"
proof (induction rule: assembled.induct)
  case assembled_new
  then show ?case by (simp add: downward_def NewRouterGroup_def)
next
  case (assembled_include st subs r)
  then show ?case by (simp add: downward_include)
qed (simp_all add: downward_def OnUpdate_def AddMiddleware_def)

lemma parentChain_returns: "downward N st \<Longrightarrow> parentChain st r \<noteq> None"
proof (induction r rule: less_induct)
  case (less r)
  then have "rg_parent (st r) = Some p \<Longrightarrow> parentChain st p \<noteq> None" for p by (simp add: downward_def)
  then show ?case by (subst parentChain.simps) (auto split: option.split)
qed

lemma collectMiddlewares_returns: "downward N st \<Longrightarrow> collectMiddlewares st r \<noteq> None"
proof (induction r rule: less_induct)
  case (less r)
  then have "rg_parent (st r) = Some p \<Longrightarrow> collectMiddlewares st p \<noteq> None" for p by (simp add: downward_def)
  then show ?case by (subst collectMiddlewares.simps) (auto split: option.split)
qed

lemma tryRoute_returns:
  assumes "downward N st"
  shows "\<exists>x. tryRoute d st r ud rt w = Some x"
proof -
  obtain c m where "parentChain st r = Some c" "collectMiddlewares st r = Some m"
    using parentChain_returns [OF assms, of r] collectMiddlewares_returns [OF assms, of r] by blast
  then show ?thesis
    by (auto simp: tryRoute_def checkFilters_def split: prod.split sum.split option.split botError.split bool.split)
qed

lemma tryRoutes_returns: "downward N st \<Longrightarrow> \<exists>x. tryRoutes d st r ud rts w = Some x"
proof (induction rts arbitrary: w)
  case (Cons rt rts)
  obtain res w' where "tryRoute d st r ud rt w = Some (res, w')"
    using tryRoute_returns [OF Cons.prems, of d r ud rt w] by auto
  then show ?case using Cons by (simp split: routed.split)
qed simp

lemma dispatchRouters_list:
  assumes "\<And>r w. r \<in> set rs \<Longrightarrow> \<exists>x. dispatchRouters d st ud (rg_sub (st r)) w = Some x" and "downward N st"
  shows "\<exists>x. dispatchRouters d st ud rs w = Some x"
  using assms(1)
proof (induction rs arbitrary: w)
  case Nil
  then show ?case by (simp add: dispatchRouters_simps)
next
  case (Cons r rs)
  obtain res w' where t: "tryRoutes d st r ud (rg_routes (st r)) w = Some (res, w')"
    using tryRoutes_returns [OF assms(2), of d r ud "rg_routes (st r)" w] by auto
  obtain err w2 where s: "dispatchRouters d st ud (rg_sub (st r)) w' = Some (err, w2)"
    using Cons.prems [of r w'] by auto
  have "\<exists>x. dispatchRouters d st ud rs w = Some x" for w using Cons by simp
  then show ?case
    by (subst dispatchRouters_simps(2)) (simp add: t s split: routed.split option.split)
qed

lemma downward_sub: "downward N st \<Longrightarrow> s \<in> set (rg_sub (st r)) \<Longrightarrow> N - s < N - r"
  unfolding downward_def by (metis diff_less_mono2 less_trans)

lemma dispatchRouters_subs: "downward N st \<Longrightarrow> \<exists>x. dispatchRouters d st ud (rg_sub (st r)) w = Some x"
proof (induction "N - r" arbitrary: r w rule: less_induct)
  case less
  have "\<exists>x. dispatchRouters d st ud (rg_sub (st s)) w = Some x" if "s \<in> set (rg_sub (st r))" for s w
    using downward_sub [OF less.prems that] less.prems by (rule less.hyps)
  then show ?case using less.prems(1) by (rule dispatchRouters_list)
qed

lemma dispatchRouters_returns: "downward N st \<Longrightarrow> \<exists>x. dispatchRouters d st ud rs w = Some x"
  by (rule dispatchRouters_list) (rule dispatchRouters_subs)

lemma parentChain_cycle: "rg_parent (st r) = Some r \<Longrightarrow> parentChain st r = None"
proof (rule ccontr)
  assume p: "rg_parent (st r) = Some r" and "parentChain st r \<noteq> None"
  then obtain c where c: "parentChain st r = Some c" by blast
  have "parentChain st r = Some (r # c)" by (subst parentChain.simps) (simp add: p c)
  with c show False by simp
qed

text \<open>
  C36. Dispatching returns on every tree of routers: whatever groups, routes and middlewares were put
  together, and whatever filters and handlers do, as long as each group is included only in groups made
  before it, an update comes to an end, with an error or without. A group with a route that was
  included in itself hangs on the first update.
\<close>

theorem dispatch_returns:
  assumes "assembled N st"
  shows "(\<exists>err w'. dispatch d st ud w = Some (err, w'))
    \<and> (bd_MainRouter d = Some r \<and> rg_routes (st r) \<noteq> [] \<longrightarrow> dispatch d (IncludeRouter r [r] st) ud w = None)"
proof (intro conjI impI)
  show "\<exists>err w'. dispatch d st ud w = Some (err, w')"
    using dispatchRouters_returns [OF assembled_downward [OF assms], of d ud _ w]
    by (simp add: dispatch_def dispatchRouter_def split: option.split)
next
  assume *: "bd_MainRouter d = Some r \<and> rg_routes (st r) \<noteq> []"
  let ?st = "IncludeRouter r [r] st"
  have "rg_parent (?st r) = Some r" "rg_routes (?st r) = rg_routes (st r)"
    by (simp_all add: IncludeRouter_def includeOne_def)
  moreover obtain rt rts where "rg_routes (st r) = rt # rts" using * by (cases "rg_routes (st r)") auto
  ultimately have "tryRoutes d ?st r ud (rg_routes (?st r)) w = None"
    by (simp add: tryRoute_def checkFilters_def parentChain_cycle)
  then show "dispatch d ?st ud w = None"
    using * by (simp add: dispatch_def dispatchRouter_def dispatchRouters_simps(2))
qed

section \<open>Which handlers run\<close>

text \<open>Routes whose filters only look, and whose handlers succeed.\<close>

record ('l, 'w) routeDecl =
  dc_kind :: updateKind
  dc_filters :: "(filterDependencies \<Rightarrow> bool) list"
  dc_effect :: "'l handlerData \<Rightarrow> tgUpdate \<Rightarrow> 'w \<Rightarrow> 'w"

definition routeOf :: "('l, 'w) routeDecl \<Rightarrow> ('l, 'e, 'w) route" where
  "routeOf dc =
     \<lparr>rt_filters = map (\<lambda>p deps w. (Inr (p deps), w)) (dc_filters dc),
      rt_handler = wrapHandler (dc_kind dc) (\<lambda>hdata upd w. (None, dc_effect dc hdata upd w))\<rparr>"

definition declares :: "('l, 'e, 'w) routers \<Rightarrow> (nat \<Rightarrow> ('l, 'w) routeDecl list) \<Rightarrow> bool" where
  "declares st decls \<longleftrightarrow>
     (\<forall>r. rg_routes (st r) = map routeOf (decls r) \<and> rg_base (st r) = [] \<and> rg_middlewares (st r) = [])"

definition fits :: "updateData \<Rightarrow> ('l, 'w) routeDecl \<Rightarrow> bool" where
  "fits ud dc \<longleftrightarrow> kindOf (ud_update ud) = dc_kind dc \<and> (\<forall>p\<in>set (dc_filters dc). p (depsOf ud))"

text \<open>The routes that answer an update: in each router the first that fits, else those of all its
  sub-routers.\<close>

inductive answered_by ::
    "(nat \<Rightarrow> nat list) \<Rightarrow> (nat \<Rightarrow> ('l, 'w) routeDecl list) \<Rightarrow> updateData \<Rightarrow> nat list
      \<Rightarrow> ('l, 'w) routeDecl list \<Rightarrow> bool" for sub decls ud where
  answered_none: "answered_by sub decls ud [] []"
| answered_here: "List.find (fits ud) (decls r) = Some dc \<Longrightarrow> answered_by sub decls ud rs dcs
    \<Longrightarrow> answered_by sub decls ud (r # rs) (dc # dcs)"
| answered_below: "List.find (fits ud) (decls r) = None \<Longrightarrow> answered_by sub decls ud (sub r) ecs
    \<Longrightarrow> answered_by sub decls ud rs dcs \<Longrightarrow> answered_by sub decls ud (r # rs) (ecs @ dcs)"

inductive_simps answered_simps:
  "answered_by sub decls ud [] dcs"
  "answered_by sub decls ud (r # rs) dcs"

lemma AllOf_pure:
  "AllOfFilter (map (\<lambda>p deps w. (Inr (p deps), w)) ps) deps w = (Inr (\<forall>p\<in>set ps. p deps), w)"
  by (induction ps) simp_all

lemma no_middlewares:
  assumes "downward N st" and "\<And>g. rg_middlewares (st g) = []"
  shows "collectMiddlewares st r = Some []"
proof (induction r rule: less_induct)
  case (less r)
  then show ?case using assms
    by (subst collectMiddlewares.simps) (auto simp: downward_def split: option.split)
qed

definition effectOf :: "updateData \<Rightarrow> 'l option \<Rightarrow> ('l, 'w) routeDecl \<Rightarrow> 'w \<Rightarrow> 'w" where
  "effectOf ud l dc = dc_effect dc (handlerDataOf ud l) (ud_update ud)"

lemma tryRoute_declared:
  assumes "downward N st" and "declares st decls" and "localizerFor d ud = Inr l"
  shows "tryRoute d st r ud (routeOf dc) w = Some (if fits ud dc then (Handled, effectOf ud l dc w) else (Passed, w))"
proof -
  obtain c where c: "parentChain st r = Some c" using parentChain_returns [OF assms(1)] by blast
  have b: "concat (map (\<lambda>g. rg_base (st g)) (rev c)) = []" using assms(2) by (simp add: declares_def)
  have m: "collectMiddlewares st r = Some []"
    using assms(2) by (intro no_middlewares [OF assms(1)]) (simp add: declares_def)
  show ?thesis
    by (simp add: tryRoute_def checkFilters_def c b AllOf_pure routeOf_def fits_def m assms(3) effectOf_def
        wrapHandler_def split: bool.split)
qed

lemma tryRoutes_declared:
  assumes "downward N st" and "declares st decls" and "localizerFor d ud = Inr l"
  shows "tryRoutes d st r ud (map routeOf dcs) w =
    Some (case List.find (fits ud) dcs of None \<Rightarrow> (Passed, w) | Some dc \<Rightarrow> (Handled, effectOf ud l dc w))"
  by (induction dcs) (simp_all add: tryRoute_declared [OF assms])

lemma dispatchRouters_declared:
  assumes "downward N st" and "declares st decls" and "localizerFor d ud = Inr l"
    and "\<And>r w. r \<in> set rs \<Longrightarrow> \<exists>dcs. answered_by (\<lambda>g. rg_sub (st g)) decls ud (rg_sub (st r)) dcs
      \<and> (\<forall>w. dispatchRouters d st ud (rg_sub (st r)) w = Some (None, fold (effectOf ud l) dcs w))"
  shows "\<exists>dcs. answered_by (\<lambda>g. rg_sub (st g)) decls ud rs dcs
    \<and> (\<forall>w. dispatchRouters d st ud rs w = Some (None, fold (effectOf ud l) dcs w))"
  using assms(4)
proof (induction rs)
  case Nil
  then show ?case by (auto simp: dispatchRouters_simps intro: answered_none)
next
  case (Cons r rs)
  obtain dcs where dcs: "answered_by (\<lambda>g. rg_sub (st g)) decls ud rs dcs"
      "\<And>w. dispatchRouters d st ud rs w = Some (None, fold (effectOf ud l) dcs w)"
    using Cons by fastforce
  obtain ecs where ecs: "answered_by (\<lambda>g. rg_sub (st g)) decls ud (rg_sub (st r)) ecs"
      "\<And>w. dispatchRouters d st ud (rg_sub (st r)) w = Some (None, fold (effectOf ud l) ecs w)"
    using Cons.prems [of r] by fastforce
  have t: "rg_routes (st r) = map routeOf (decls r)" using assms(2) by (simp add: declares_def)
  show ?case
  proof (cases "List.find (fits ud) (decls r)")
    case None
    have "dispatchRouters d st ud (r # rs) w = Some (None, fold (effectOf ud l) (ecs @ dcs) w)" for w
      by (simp add: dispatchRouters_simps(2) t tryRoutes_declared [OF assms(1-3)] None ecs(2) dcs(2))
    with answered_below [OF None ecs(1) dcs(1)] show ?thesis by blast
  next
    case (Some dc)
    have "dispatchRouters d st ud (r # rs) w = Some (None, fold (effectOf ud l) (dc # dcs) w)" for w
      by (simp add: dispatchRouters_simps(2) t tryRoutes_declared [OF assms(1-3)] Some dcs(2))
    with answered_here [OF Some dcs(1)] show ?thesis by blast
  qed
qed

text \<open>
  C35. Which handlers an update reaches when nothing but its routes decides. Take a tree of router groups
  built by the methods of the package, each included under one with a smaller number, none with
  middlewares or base filters (a middleware may swallow the update), whose filters only look at the update
  and whose handlers succeed, and let the dispatcher have a main router and the derivation of the sender's
  localizer succeed. Then a dispatch runs in each router the first route, in the order of declaration, whose
  handler takes this kind of update and whose filters all pass; where none does, it goes on to the
  sub-routers, and to all of them: one that has handled the update does not keep it from the next. Nothing
  else happens to the world.
\<close>

theorem dispatch_answers:
  assumes "assembled N st" and "declares st decls" and "localizerFor d ud = Inr l" and "bd_MainRouter d = Some r"
  shows "\<exists>dcs. answered_by (\<lambda>g. rg_sub (st g)) decls ud [r] dcs
    \<and> (\<forall>w. dispatch d st ud w = Some (None, fold (effectOf ud l) dcs w))"
proof -
  note down = assembled_downward [OF assms(1)]
  have "\<exists>dcs. answered_by (\<lambda>g. rg_sub (st g)) decls ud (rg_sub (st r)) dcs
      \<and> (\<forall>w. dispatchRouters d st ud (rg_sub (st r)) w = Some (None, fold (effectOf ud l) dcs w))" for r
  proof (induction "N - r" arbitrary: r rule: less_induct)
    case less
    show ?case
      by (rule dispatchRouters_declared [OF down assms(2,3)]) (rule less, rule downward_sub [OF down])
  qed
  then show ?thesis
    unfolding dispatch_def dispatchRouter_def assms(4) option.case
    by (rule dispatchRouters_declared [OF down assms(2,3)])
qed

text \<open>A main router without routes and two sub-routers that both take new messages.\<close>

definition demoRoute :: "nat \<Rightarrow> ('l, nat list) routeDecl" where
  "demoRoute n = \<lparr>dc_kind = KNewMessage, dc_filters = [], dc_effect = \<lambda>_ _ w. w @ [n]\<rparr>"

definition demoDecls :: "nat \<Rightarrow> ('l, nat list) routeDecl list" where
  "demoDecls r = (if r = 1 \<or> r = 2 then [demoRoute r] else [])"

definition demoOn :: "nat \<Rightarrow> ('l, 'e, nat list) routers \<Rightarrow> ('l, 'e, nat list) routers" where
  "demoOn r = OnMessage r (\<lambda>hdata upd w. (None, w @ [r])) []"

definition demoRouters :: "('l, 'e, nat list) routers" where
  "demoRouters = demoOn 2 (demoOn 1 (IncludeRouter 0 [1, 2] (\<lambda>_. NewRouterGroup)))"

definition demoDispatcher :: "(unit, unit) botDispatcher" where
  "demoDispatcher = \<lparr>bd_Localizer = (), bd_Derive = \<lambda>_ _. InvalidLanguage, bd_MainRouter = Some 0\<rparr>"

definition demoEntities :: tgEntities where
  "demoEntities = \<lparr>te_Short = True, te_Users = [], te_Chats = [], te_Channels = []\<rparr>"

definition demoData :: updateData where
  "demoData = the (buildUpdateData 1 demoEntities (UpdateNewMessage (Message (PeerUser 7) (Some (PeerUser 7)) ''hi'')))"

lemma demo_assembled: "assembled 3 demoRouters"
  unfolding demoRouters_def demoOn_def by (intro assembled_on assembled_include assembled_new) auto

lemma demo_routers: "rg_sub (demoRouters r) = (if r = 0 then [1, 2] else [])"
  "rg_base (demoRouters r) = []" "rg_middlewares (demoRouters r) = []" "rg_routes (demoRouters r) = map routeOf (demoDecls r)"
  by (simp_all add: demoRouters_def demoOn_def OnUpdate_def IncludeRouter_def includeOne_def NewRouterGroup_def
      demoDecls_def demoRoute_def routeOf_def)

lemma demo_data: "ud_update demoData = UpdateNewMessage (Message (PeerUser 7) (Some (PeerUser 7)) ''hi'')"
  "ud_ent demoData = demoEntities" "ud_userID demoData = 7"
  by (simp_all add: demoData_def buildUpdateData_def buildNewMessageUpdateData_def buildPeerUpdateData_def getChatID_def
      makeInputPeer_def getUserID_def demoEntities_def)

theorem dispatch_returns_witness:
  "\<exists>err w'. dispatch demoDispatcher demoRouters demoData [] = Some (err, w')"
  using dispatch_returns [OF demo_assembled] by blast

theorem dispatch_answers_witness: "dispatch demoDispatcher demoRouters demoData [] = Some (None, [1, 2])"
proof -
  have l: "localizerFor demoDispatcher demoData = Inr None"
    by (simp add: localizerFor_def demo_data demoEntities_def)
  have m: "bd_MainRouter demoDispatcher = Some 0" by (simp add: demoDispatcher_def)
  have "declares (demoRouters :: (unit, unit, nat list) routers) demoDecls" by (simp add: declares_def demo_routers)
  from dispatch_answers [OF demo_assembled this l m] obtain dcs where
    dcs: "answered_by (\<lambda>g. rg_sub (demoRouters g :: (unit, unit, nat list) routerGroup)) demoDecls demoData [0]
        (dcs :: (unit, nat list) routeDecl list)"
      "dispatch demoDispatcher demoRouters demoData [] = Some (None, fold (effectOf demoData None) dcs [])"
    by blast
  have f: "fits demoData (demoRoute n)" for n by (simp add: fits_def demoRoute_def demo_data)
  have "dcs = [demoRoute 1, demoRoute 2]"
    using dcs(1) by (simp add: answered_simps demo_routers demoDecls_def f)
  then show ?thesis using dcs(2) by (simp add: effectOf_def demoRoute_def)
qed

section \<open>Kinds that never arrive\<close>

lemma dispatchRouters_same:
  assumes "downward N st" and sub: "\<And>r. rg_sub (st' r) = rg_sub (st r)"
    and same: "\<And>r w. tryRoutes d st' r ud (rg_routes (st' r)) w = tryRoutes d st r ud (rg_routes (st r)) w"
  shows "dispatchRouters d st' ud rs w = dispatchRouters d st ud rs w"
proof -
  have list: "dispatchRouters d st' ud rs w = dispatchRouters d st ud rs w"
    if "\<And>r w. r \<in> set rs \<Longrightarrow> dispatchRouters d st' ud (rg_sub (st r)) w = dispatchRouters d st ud (rg_sub (st r)) w"
    for rs w
    using that
  proof (induction rs arbitrary: w)
    case (Cons r rs)
    then have "dispatchRouters d st' ud rs w = dispatchRouters d st ud rs w"
      "dispatchRouters d st' ud (rg_sub (st r)) w = dispatchRouters d st ud (rg_sub (st r)) w" for w by simp_all
    then show ?case
      by (simp add: dispatchRouters_simps(2) same sub cong: routed.case_cong option.case_cong)
  qed (simp add: dispatchRouters_simps)
  have "dispatchRouters d st' ud (rg_sub (st r)) w = dispatchRouters d st ud (rg_sub (st r)) w" for r w
  proof (induction "N - r" arbitrary: r w rule: less_induct)
    case less
    show ?case by (rule list) (rule less, rule downward_sub [OF assms(1)])
  qed
  then show ?thesis by (rule list)
qed

lemma OnUpdate_simps:
  "rg_parent (OnUpdate k r h fs st g) = rg_parent (st g)" "rg_base (OnUpdate k r h fs st g) = rg_base (st g)"
  "rg_sub (OnUpdate k r h fs st g) = rg_sub (st g)" "rg_middlewares (OnUpdate k r h fs st g) = rg_middlewares (st g)"
  "rg_routes (OnUpdate k r h fs st g) = rg_routes (st g)
    @ (if g = r then [\<lparr>rt_filters = fs, rt_handler = wrapHandler k h\<rparr>] else [])"
  by (simp_all add: OnUpdate_def)

lemma collectMiddlewares_OnUpdate:
  assumes "downward N st"
  shows "collectMiddlewares (OnUpdate k r h fs st) g = collectMiddlewares st g"
proof (induction g rule: less_induct)
  case (less g)
  then have "rg_parent (st g) = Some p \<Longrightarrow> collectMiddlewares (OnUpdate k r h fs st) p = collectMiddlewares st p" for p
    using assms by (simp add: downward_def)
  then show ?case
    by (subst (1 2) collectMiddlewares.simps) (simp add: OnUpdate_simps split: option.split)
qed

lemma parentChain_OnUpdate:
  assumes "downward N st"
  shows "parentChain (OnUpdate k r h fs st) g = parentChain st g"
proof (induction g rule: less_induct)
  case (less g)
  then have "rg_parent (st g) = Some p \<Longrightarrow> parentChain (OnUpdate k r h fs st) p = parentChain st p" for p
    using assms by (simp add: downward_def)
  then show ?case
    by (subst (1 2) parentChain.simps) (simp add: OnUpdate_simps split: option.split)
qed

lemma tryRoute_OnUpdate:
  assumes "downward N st"
  shows "tryRoute d (OnUpdate k r h fs st) g ud rt w = tryRoute d st g ud rt w"
  by (simp add: tryRoute_def checkFilters_def parentChain_OnUpdate [OF assms] collectMiddlewares_OnUpdate [OF assms]
      OnUpdate_simps cong: sum.case_cong bool.case_cong prod.case_cong)

lemma tryRoutes_OnUpdate:
  assumes "downward N st"
  shows "tryRoutes d (OnUpdate k r h fs st) g ud rts w = tryRoutes d st g ud rts w"
  by (induction rts arbitrary: w) (simp_all add: tryRoute_OnUpdate [OF assms] cong: routed.case_cong)

lemma tryRoutes_append:
  "tryRoutes d st g ud (xs @ ys) w = Option.bind (tryRoutes d st g ud xs w)
     (\<lambda>(res, w). case res of Passed \<Rightarrow> tryRoutes d st g ud ys w | _ \<Rightarrow> Some (res, w))"
proof (induction xs arbitrary: w)
  case (Cons x xs)
  show ?case
  proof (cases "tryRoute d st g ud x w")
    case (Some y)
    then show ?thesis using Cons by (cases y) (simp split: routed.split)
  qed simp
qed simp

lemma tryRoute_unfit:
  assumes "downward N st" and "\<And>g. rg_middlewares (st g) = []" and "kindOf (ud_update ud) \<noteq> k"
  shows "tryRoute d st g ud \<lparr>rt_filters = fs, rt_handler = wrapHandler k h\<rparr> w
    = tryRoute d st g ud \<lparr>rt_filters = fs, rt_handler = wrapHandler k h'\<rparr> w"
  by (simp add: tryRoute_def no_middlewares [OF assms(1,2)] wrapHandler_def assms(3)
      cong: sum.case_cong bool.case_cong)

text \<open>
  Handlers of message reactions never run. \<open>OnMessageReactions\<close> registers a handler for a kind of
  update that \<open>Bind\<close> does not listen to (it listens to the reactions a bot gets, another kind), so
  whatever update arrives and wherever in a tree of routers without middlewares the handler stands,
  dispatching does the same for any other handler in its place.
\<close>

theorem reaction_handlers_never_run:
  assumes "assembled N st" and "\<And>g. rg_middlewares (st g) = []" and "buildUpdateData botID ents upd = Some ud"
  shows "dispatch d (OnMessageReactions r h fs st) ud w = dispatch d (OnMessageReactions r h' fs st) ud w"
proof -
  note down = assembled_downward [OF assms(1)]
  have k: "kindOf (ud_update ud) \<noteq> KMessageReactions"
    using assms(3) buildUpdateData_update [OF assms(3)] by (cases upd) (auto simp: buildUpdateData_def)
  let ?on = "\<lambda>h. OnMessageReactions r h fs st"
  have "dispatchRouters d (?on h) ud rs w = dispatchRouters d (?on h') ud rs w" for rs w
  proof (rule dispatchRouters_same)
    show "downward N (?on h')" using assembled_downward [OF assembled_on [OF assms(1)]] .
    show "tryRoutes d (?on h) g ud (rg_routes (?on h g)) w = tryRoutes d (?on h') g ud (rg_routes (?on h' g)) w" for g w
      unfolding OnUpdate_simps(5) tryRoutes_OnUpdate [OF down] tryRoutes_append
      by (simp add: tryRoute_unfit [OF down assms(2) k, of d _ fs h _ h'] cong: routed.case_cong)
  qed (simp add: OnUpdate_simps)
  then show ?thesis by (simp add: dispatch_def dispatchRouter_def cong: option.case_cong)
qed

theorem reaction_handlers_never_run_witness:
  "dispatch demoDispatcher (OnMessageReactions 0 (\<lambda>_ _ w. (None, w @ [9])) [] demoRouters)
      (buildDeleteMessagesUpdateData demoEntities) []
    = dispatch demoDispatcher (OnMessageReactions 0 (\<lambda>_ _ w. (None, [])) [] demoRouters)
      (buildDeleteMessagesUpdateData demoEntities) []"
  by (rule reaction_handlers_never_run [OF demo_assembled, of 5 demoEntities UpdateDeleteMessages])
    (simp_all add: demo_routers buildUpdateData_def)

end
