(* ===== verification/Bot_Middleware.thy ===== *)
theory Bot_Middleware
  imports Bot_Router
begin

text \<open>
  \<open>collectMiddlewares\<close> on the memory it works on: \<open>append(r.parent.collectMiddlewares(), r.middlewares...)\<close>
  writes behind the parent's slice when its array has room, and two dispatches run at the same time.
  Middlewares are any values \<open>'m\<close> here; an array is the list of its cells, as long as its capacity.
\<close>

section \<open>Slices\<close>

record slice =
  sl_array :: nat
  sl_len :: nat

type_synonym 'm arrays = "'m list list"

definition readSlice :: "'m arrays \<Rightarrow> slice \<Rightarrow> 'm list" where
  "readSlice mem s = take (sl_len s) (mem ! sl_array s)"

definition writeAt :: "nat \<Rightarrow> 'm list \<Rightarrow> 'm list \<Rightarrow> 'm list" where
  "writeAt i xs cells = take i cells @ xs @ drop (i + length xs) cells"

text \<open>Go's \<open>append\<close>: in place where the capacity is enough, else into a new array with the cells
  \<open>spare\<close> behind, as many as the runtime likes.\<close>

definition appendSlice :: "'m list \<Rightarrow> slice \<Rightarrow> 'm list \<Rightarrow> 'm arrays \<Rightarrow> slice \<times> 'm arrays" where
  "appendSlice spare s xs mem =
     (let n = sl_len s + length xs
      in if n \<le> length (mem ! sl_array s)
         then (s\<lparr>sl_len := n\<rparr>, mem[sl_array s := writeAt (sl_len s) xs (mem ! sl_array s)])
         else (\<lparr>sl_array = length mem, sl_len = n\<rparr>, mem @ [readSlice mem s @ xs @ spare]))"

section \<open>Two dispatches\<close>

text \<open>A dispatch in a group below the root first collects, then chains what its slice holds by then.\<close>

datatype 'm worker =
    Collecting "'m list"
  | Chaining slice
  | Chained "'m list"

record 'm race =
  rc_mem :: "'m arrays"
  rc_root :: slice
  rc_workers :: "nat \<Rightarrow> 'm worker"

definition workerStep1 :: "'m list \<Rightarrow> nat \<Rightarrow> 'm race \<Rightarrow> 'm race" where
  "workerStep1 spare i c =
     (case rc_workers c i of
        Collecting own \<Rightarrow>
          (let (s, mem) = appendSlice spare (rc_root c) own (rc_mem c)
           in c\<lparr>rc_mem := mem, rc_workers := (rc_workers c)(i := Chaining s)\<rparr>)
      | Chaining s \<Rightarrow> c\<lparr>rc_workers := (rc_workers c)(i := Chained (readSlice (rc_mem c) s))\<rparr>
      | Chained _ \<Rightarrow> c)"

text \<open>Any interleaving is a list of the dispatches that step, with the spare cells \<open>append\<close> would get.\<close>

definition race_run :: "(nat \<times> 'm list) list \<Rightarrow> 'm race \<Rightarrow> 'm race" where
  "race_run steps c = fold (\<lambda>(i, spare). workerStep1 spare i) steps c"

definition race_start :: "'m list \<Rightarrow> 'm list \<Rightarrow> (nat \<Rightarrow> 'm list) \<Rightarrow> 'm race" where
  "race_start mws spare own =
     \<lparr>rc_mem = [mws @ spare], rc_root = \<lparr>sl_array = 0, sl_len = length mws\<rparr>, rc_workers = \<lambda>i. Collecting (own i)\<rparr>"

text \<open>With a full array every dispatch has an array of its own.\<close>

definition worker_ok :: "'m list \<Rightarrow> 'm list \<Rightarrow> 'm arrays \<Rightarrow> 'm worker \<Rightarrow> bool" where
  "worker_ok mws own mem wk =
     (case wk of
        Collecting o' \<Rightarrow> o' = own
      | Chaining s \<Rightarrow> sl_array s < length mem \<and> readSlice mem s = mws @ own
      | Chained ms \<Rightarrow> ms = mws @ own)"

definition race_inv :: "'m list \<Rightarrow> (nat \<Rightarrow> 'm list) \<Rightarrow> 'm race \<Rightarrow> bool" where
  "race_inv mws own c \<longleftrightarrow>
     rc_mem c \<noteq> [] \<and> rc_mem c ! 0 = mws \<and> rc_root c = \<lparr>sl_array = 0, sl_len = length mws\<rparr>
     \<and> (\<forall>i. worker_ok mws (own i) (rc_mem c) (rc_workers c i))"

lemma worker_ok_grow: "worker_ok mws own mem wk \<Longrightarrow> worker_ok mws own (mem @ [cells]) wk"
  by (cases wk) (simp_all add: worker_ok_def readSlice_def nth_append)

lemma race_inv_step:
  assumes inv: "race_inv mws own c" and own: "\<And>i. own i \<noteq> []"
  shows "race_inv mws own (workerStep1 spare j c)"
proof (cases "rc_workers c j")
  case (Collecting o')
  have "worker_ok mws (own j) (rc_mem c) (rc_workers c j)" using inv by (simp add: race_inv_def)
  then have o': "o' = own j" by (simp add: worker_ok_def Collecting)
  have root: "rc_mem c \<noteq> []" "rc_mem c ! 0 = mws" "rc_root c = \<lparr>sl_array = 0, sl_len = length mws\<rparr>"
    using inv by (simp_all add: race_inv_def)
  have "appendSlice spare (rc_root c) (own j) (rc_mem c)
      = (\<lparr>sl_array = length (rc_mem c), sl_len = length mws + length (own j)\<rparr>, rc_mem c @ [mws @ own j @ spare])"
    using own [of j] by (simp add: appendSlice_def root Let_def readSlice_def)
  then have c': "workerStep1 spare j c = c\<lparr>rc_mem := rc_mem c @ [mws @ own j @ spare],
      rc_workers := (rc_workers c)(j := Chaining \<lparr>sl_array = length (rc_mem c), sl_len = length mws + length (own j)\<rparr>)\<rparr>"
    by (simp add: workerStep1_def Collecting o')
  have "worker_ok mws (own i) (rc_mem c @ [mws @ own j @ spare]) (rc_workers c i)" for i
    using inv by (intro worker_ok_grow) (simp add: race_inv_def)
  then show ?thesis
    using root by (simp add: c' race_inv_def nth_append) (simp add: worker_ok_def readSlice_def nth_append)
next
  case (Chaining s)
  have "worker_ok mws (own j) (rc_mem c) (rc_workers c j)" using inv by (simp add: race_inv_def)
  then have "worker_ok mws (own j) (rc_mem c) (Chained (readSlice (rc_mem c) s))" by (simp add: worker_ok_def Chaining)
  then show ?thesis using inv by (simp add: race_inv_def workerStep1_def Chaining)
next
  case (Chained ms)
  then show ?thesis using inv by (simp add: workerStep1_def)
qed

lemma race_overwrites:
  assumes "length (own 0) \<le> length spare" and "length (own 1) \<le> length spare"
  shows "rc_workers (race_run [(0, []), (1, []), (0, [])] (race_start mws spare own)) 0
    = Chained (mws @ take (length (own 0)) (own 1) @ drop (length (own 1)) (own 0))"
  using assms
  by (simp add: race_run_def race_start_def workerStep1_def appendSlice_def Let_def writeAt_def readSlice_def)

text \<open>
  C37. Which middlewares guard a handler. Take groups below a root with middlewares, each with
  middlewares of its own, and updates dispatched in them at the same time. If the root's slice has no
  capacity left, each dispatch chains the root's middlewares and its own, whatever the interleaving and
  whatever capacity Go gives the new slices. If the root's slice has spare room that the own lists of the
  first and of the second group both fit in, not necessarily as long as each other, an interleaving exists
  after which a handler of the first group runs behind the root's middlewares and, in the places of its
  own, those of the second group as far as these reach: with a second list no shorter, none of its own
  guards is left. (A list longer than the room is copied elsewhere and overwrites nothing.)
\<close>

theorem middlewares_may_swap:
  assumes "\<And>i. own i \<noteq> []"
  shows "(rc_workers (race_run steps (race_start mws [] own)) i = Chained ms \<longrightarrow> ms = mws @ own i)
    \<and> (length (own 0) \<le> length spare \<and> length (own 1) \<le> length spare \<longrightarrow>
       (\<exists>steps. rc_workers (race_run steps (race_start mws spare own)) 0
          = Chained (mws @ take (length (own 0)) (own 1) @ drop (length (own 1)) (own 0))))"
proof (intro conjI impI)
  have "race_inv mws own (race_run steps (race_start mws [] own))"
  proof (induction steps rule: rev_induct)
    case Nil
    then show ?case by (simp add: race_run_def race_start_def race_inv_def worker_ok_def)
  next
    case (snoc x steps)
    then show ?case using race_inv_step [OF _ assms] by (cases x) (simp add: race_run_def)
  qed
  then have "worker_ok mws (own i) (rc_mem (race_run steps (race_start mws [] own)))
      (rc_workers (race_run steps (race_start mws [] own)) i)"
    by (simp add: race_inv_def)
  then show "ms = mws @ own i" if "rc_workers (race_run steps (race_start mws [] own)) i = Chained ms"
    by (simp add: that worker_ok_def)
qed (use race_overwrites [of own spare mws] in blast)

theorem middlewares_may_swap_witness:
  "\<exists>steps. rc_workers (race_run steps (race_start [''log'', ''trace'', ''limit''] [''free''] (\<lambda>i. if i = 0 then [''admins''] else [''all'']))) 0
    = Chained [''log'', ''trace'', ''limit'', ''all'']"
  using middlewares_may_swap [of "\<lambda>i. if i = 0 then [''admins''] else [''all'']" "[]" "[''log'', ''trace'', ''limit'']" 0 "[]" "[''free'']"]
  by simp

end
