(* ===== verification/Totp.thy ===== *)
theory Totp
  imports Prelude Strconv
begin

text \<open>
  Time-based one-time passwords (\<open>yatotp/yatotp.go\<close>, \<open>types.go\<close>, \<open>constants.go\<close>). HMAC is an
  argument, a function of the algorithm, the key and the message; what is asked of it is the length of
  its sum. Secrets and codes are strings of ASCII bytes; what \<open>strings.ToUpper\<close> makes of other letters
  is not modelled. \<open>None\<close> is a panic, \<open>Inl\<close> an error.
\<close>

section \<open>Configuration\<close>

datatype totpError =
    ErrSecretRequired | ErrSecretInvalid | ErrSecretTooShort | ErrCodeRequired | ErrCodeLength | ErrCodeNotNumeric
  | ErrConfigDigits | ErrConfigPeriod | ErrConfigSkew | ErrConfigAlgorithm | ErrConfigIssuerInvalid
  | ErrAccountNameRequired | ErrAccountNameInvalid

definition AlgorithmSHA1 :: string where "AlgorithmSHA1 = ''SHA1''"
definition AlgorithmSHA256 :: string where "AlgorithmSHA256 = ''SHA256''"
definition AlgorithmSHA512 :: string where "AlgorithmSHA512 = ''SHA512''"
definition DefaultPeriod :: u32 where "DefaultPeriod = 30"
definition DefaultDigits :: u8 where "DefaultDigits = 6"
definition MinDigits :: u8 where "MinDigits = 6"
definition MaxDigits :: u8 where "MaxDigits = 8"
definition MaxSkew :: u8 where "MaxSkew = 10"
definition minSecretBytes :: nat where "minSecretBytes = 16"

record totpConfig =
  tc_Issuer :: string
  tc_Algorithm :: string
  tc_Digits :: u8
  tc_Period :: u32
  tc_Skew :: u8

definition Algorithm_Validate :: "string \<Rightarrow> totpError option" where
  "Algorithm_Validate a =
     (if a = AlgorithmSHA1 \<or> a = AlgorithmSHA256 \<or> a = AlgorithmSHA512 then None else Some ErrConfigAlgorithm)"

definition Digits_Validate :: "u8 \<Rightarrow> totpError option" where
  "Digits_Validate n = (if n < MinDigits \<or> MaxDigits < n then Some ErrConfigDigits else None)"

definition Period_Validate :: "u32 \<Rightarrow> totpError option" where
  "Period_Validate n = (if n = 0 then Some ErrConfigPeriod else None)"

definition Skew_Validate :: "u8 \<Rightarrow> totpError option" where
  "Skew_Validate n = (if MaxSkew < n then Some ErrConfigSkew else None)"

definition Issuer_Validate :: "string \<Rightarrow> totpError option" where
  "Issuer_Validate s = (if CHR '':'' \<in> set s then Some ErrConfigIssuerInvalid else None)"

definition AccountName_Validate :: "string \<Rightarrow> totpError option" where
  "AccountName_Validate s =
     (if s = [] then Some ErrAccountNameRequired else if CHR '':'' \<in> set s then Some ErrAccountNameInvalid else None)"

definition Config_Validate :: "totpConfig \<Rightarrow> totpError option" where
  "Config_Validate c =
     (case Issuer_Validate (tc_Issuer c) of Some e \<Rightarrow> Some e
      | None \<Rightarrow> (case Algorithm_Validate (tc_Algorithm c) of Some e \<Rightarrow> Some e
      | None \<Rightarrow> (case Digits_Validate (tc_Digits c) of Some e \<Rightarrow> Some e
      | None \<Rightarrow> (case Period_Validate (tc_Period c) of Some e \<Rightarrow> Some e
      | None \<Rightarrow> Skew_Validate (tc_Skew c)))))"

text \<open>Zero fields get their defaults, but for the skew, and nothing is validated.\<close>

definition NewAuthenticator :: "totpConfig option \<Rightarrow> totpConfig" where
  "NewAuthenticator cfg =
     (let c = (case cfg of None \<Rightarrow> \<lparr>tc_Issuer = [], tc_Algorithm = [], tc_Digits = 0, tc_Period = 0, tc_Skew = 0\<rparr>
               | Some c \<Rightarrow> c);
          c = (if tc_Algorithm c = [] then c\<lparr>tc_Algorithm := AlgorithmSHA1\<rparr> else c);
          c = (if tc_Digits c = 0 then c\<lparr>tc_Digits := DefaultDigits\<rparr> else c)
      in if tc_Period c = 0 then c\<lparr>tc_Period := DefaultPeriod\<rparr> else c)"

section \<open>Secrets\<close>

definition base32Alphabet :: string where "base32Alphabet = ''ABCDEFGHIJKLMNOPQRSTUVWXYZ234567''"

definition base32Char :: "nat \<Rightarrow> char" where "base32Char n = base32Alphabet ! n"

definition base32Value :: "char \<Rightarrow> nat option" where
  "base32Value c = (if c \<in> set base32Alphabet then Some (length (takeWhile (\<lambda>x. x \<noteq> c) base32Alphabet)) else None)"

text \<open>Numbers in base \<open>2 ^ k\<close>, the most significant digit first.\<close>

definition fromDigits :: "nat \<Rightarrow> nat list \<Rightarrow> nat" where
  "fromDigits b ds = foldl (\<lambda>n d. n * b + d) 0 ds"

fun toDigits :: "nat \<Rightarrow> nat \<Rightarrow> nat \<Rightarrow> nat list" where
  "toDigits b 0 n = []"
| "toDigits b (Suc k) n = toDigits b k (n div b) @ [n mod b]"

text \<open>
  \<open>encoding/base32\<close> without padding: up to five bytes make as many digits as their bits need, and up
  to eight digits give the whole bytes among their bits. As in Go, a last group of one, three or six
  digits, which no encoder writes, gives no byte, and spare bits are not looked at.
\<close>

definition encodeGroup :: "byte_list \<Rightarrow> nat list" where
  "encodeGroup bs =
     (let n = length bs; k = (8 * n + 4) div 5
      in toDigits 32 k (fromDigits 256 (map unat bs) * 2 ^ (5 * k - 8 * n)))"

definition decodeGroup :: "nat list \<Rightarrow> byte_list" where
  "decodeGroup ds =
     (let k = length ds
      in if k \<in> {1, 3, 6} then []
         else map of_nat (toDigits 256 (5 * k div 8) (fromDigits 32 ds div 2 ^ (5 * k - 8 * (5 * k div 8)))))"

fun groups :: "nat \<Rightarrow> 'a list \<Rightarrow> 'a list list" where
  "groups n xs = (if n = 0 \<or> xs = [] then [] else take n xs # groups n (drop n xs))"

declare groups.simps [simp del]

definition EncodeToString :: "byte_list \<Rightarrow> string" where
  "EncodeToString bs = map base32Char (concat (map encodeGroup (groups 5 bs)))"

text \<open>Line breaks are left out before decoding.\<close>

definition DecodeString :: "string \<Rightarrow> byte_list option" where
  "DecodeString s =
     (let cs = filter (\<lambda>c. c \<noteq> CHR 0x0A \<and> c \<noteq> CHR 0x0D) s
      in if \<exists>c\<in>set cs. base32Value c = None then None
         else Some (concat (map decodeGroup (groups 8 (map (\<lambda>c. the (base32Value c)) cs)))))"

definition asciiUpper :: "char \<Rightarrow> char" where
  "asciiUpper c = (let n = of_char c :: nat in if 97 \<le> n \<and> n \<le> 122 then char_of (n - 32) else c)"

definition asciiSpace :: "char \<Rightarrow> bool" where
  "asciiSpace c \<longleftrightarrow> of_char c = (32 :: nat) \<or> 9 \<le> (of_char c :: nat) \<and> (of_char c :: nat) \<le> 13"

definition TrimSpace :: "string \<Rightarrow> string" where
  "TrimSpace s = rev (dropWhile asciiSpace (rev (dropWhile asciiSpace s)))"

definition TrimRight :: "char \<Rightarrow> string \<Rightarrow> string" where
  "TrimRight c s = rev (dropWhile (\<lambda>x. x = c) (rev s))"

definition normalizeSecret :: "string \<Rightarrow> string" where
  "normalizeSecret s = TrimRight (CHR ''='') (filter (\<lambda>c. c \<noteq> CHR '' '') (map asciiUpper (TrimSpace s)))"

definition secret_decode :: "string \<Rightarrow> totpError + byte_list" where
  "secret_decode s = (case DecodeString (normalizeSecret s) of None \<Rightarrow> Inl ErrSecretInvalid | Some bs \<Rightarrow> Inr bs)"

definition Secret_Validate :: "string \<Rightarrow> totpError option" where
  "Secret_Validate s =
     (if s = [] then Some ErrSecretRequired
      else case secret_decode s of
        Inl e \<Rightarrow> Some e
      | Inr bs \<Rightarrow> if length bs < minSecretBytes then Some ErrSecretTooShort else None)"

text \<open>The random bytes are an argument, \<open>None\<close> where reading them fails.\<close>

definition NewSecretWithSize :: "(nat \<Rightarrow> byte_list option) \<Rightarrow> nat \<Rightarrow> totpError option + string" where
  "NewSecretWithSize random len =
     (if len < minSecretBytes then Inl (Some ErrSecretTooShort)
      else case random len of None \<Rightarrow> Inl None | Some raw \<Rightarrow> Inr (EncodeToString raw))"

section \<open>Codes\<close>

definition totp_Counter :: "totpConfig \<Rightarrow> time \<Rightarrow> u64" where
  "totp_Counter c at =
     (let seconds = at div 1000000000
      in if seconds < 0 then 0 else of_nat (nat seconds div unat (tc_Period c)))"

definition bigEndian :: "nat \<Rightarrow> nat \<Rightarrow> byte_list" where
  "bigEndian k n = map of_nat (toDigits 256 k n)"

definition GenerateAt ::
    "(string \<Rightarrow> byte_list \<Rightarrow> byte_list \<Rightarrow> byte_list) \<Rightarrow> totpConfig \<Rightarrow> string \<Rightarrow> u64 \<Rightarrow> (totpError + string) option" where
  "GenerateAt hmac c secret counter =
     (case secret_decode secret of
        Inl e \<Rightarrow> Some (Inl e)
      | Inr key \<Rightarrow>
          if length key < minSecretBytes then Some (Inl ErrSecretTooShort)
          else
            (let sum = hmac (tc_Algorithm c) key (bigEndian 8 (unat counter));
                 offset = unat (and (last sum) 0x0F)
             in if length sum < offset + 4 then None
                else
                  (let truncated = and (of_nat (fromDigits 256 (map unat (take 4 (drop offset sum))))) 0x7FFFFFFF;
                       modulus = ((\<lambda>m. m * 10) ^^ unat (tc_Digits c)) 1 :: u32
                   in if modulus = 0 then None
                      else
                        (let digits = formatNat (unat (truncated mod modulus))
                         in Some (Inr (replicate (unat (tc_Digits c) - length digits) (CHR ''0'') @ digits))))))"

definition Generate ::
    "(string \<Rightarrow> byte_list \<Rightarrow> byte_list \<Rightarrow> byte_list) \<Rightarrow> totpConfig \<Rightarrow> string \<Rightarrow> time \<Rightarrow> (totpError + string) option" where
  "Generate hmac c secret at = GenerateAt hmac c secret (totp_Counter c at)"

definition checkCodeShape :: "totpConfig \<Rightarrow> string \<Rightarrow> totpError option" where
  "checkCodeShape c code =
     (if code = [] then Some ErrCodeRequired
      else if length code \<noteq> unat (tc_Digits c) then Some ErrCodeLength
      else if \<exists>x\<in>set code. digitOf x = None then Some ErrCodeNotNumeric
      else None)"

text \<open>One iteration of the loop over the candidates; the last that matches is kept.\<close>

fun tryCandidates ::
    "(u64 \<Rightarrow> (totpError + string) option) \<Rightarrow> string \<Rightarrow> u64 list \<Rightarrow> u64 \<times> bool \<Rightarrow> (totpError + u64 \<times> bool) option" where
  "tryCandidates gen code [] res = Some (Inr res)"
| "tryCandidates gen code (k # ks) res =
     (case gen k of
        None \<Rightarrow> None
      | Some (Inl e) \<Rightarrow> Some (Inl e)
      | Some (Inr expected) \<Rightarrow> tryCandidates gen code ks (if expected = code then (k, True) else res))"

text \<open>The counter of an instant is below \<open>2 ^ 63\<close>, so that adding the skew does not wrap and the loop
  from the lowest candidate to the highest ends.\<close>

definition candidates :: "u64 \<Rightarrow> u64 \<Rightarrow> u64 list" where
  "candidates current skew =
     (let lowest = (if current > skew then current - skew else 0)
      in map of_nat [unat lowest..<Suc (unat (current + skew))])"

definition totp_Validate ::
    "(string \<Rightarrow> byte_list \<Rightarrow> byte_list \<Rightarrow> byte_list) \<Rightarrow> totpConfig \<Rightarrow> string \<Rightarrow> string \<Rightarrow> time
      \<Rightarrow> (totpError + u64 \<times> bool) option" where
  "totp_Validate hmac c secret code at =
     (case checkCodeShape c code of
        Some e \<Rightarrow> Some (Inl e)
      | None \<Rightarrow>
          tryCandidates (GenerateAt hmac c secret) code (candidates (totp_Counter c at) (ucast (tc_Skew c))) (0, False))"

definition ValidateAfter ::
    "(string \<Rightarrow> byte_list \<Rightarrow> byte_list \<Rightarrow> byte_list) \<Rightarrow> totpConfig \<Rightarrow> string \<Rightarrow> string \<Rightarrow> time \<Rightarrow> u64
      \<Rightarrow> (totpError + u64 \<times> bool) option" where
  "ValidateAfter hmac c secret code at lastAccepted =
     (case totp_Validate hmac c secret code at of
        Some (Inr (matched, True)) \<Rightarrow> Some (Inr (matched, \<not> matched \<le> lastAccepted))
      | res \<Rightarrow> res)"

section \<open>Recovery codes\<close>

definition NewRecoveryCodes :: "(nat \<Rightarrow> byte_list option) \<Rightarrow> nat \<Rightarrow> string list option" where
  "NewRecoveryCodes random count =
     (if count = 0 \<or> 64 < count then None
      else if \<exists>i<count. random i = None then None
      else Some (map (\<lambda>i. EncodeToString (the (random i))) [0..<count]))"

definition RecoveryCode_Matches :: "string \<Rightarrow> string \<Rightarrow> bool" where
  "RecoveryCode_Matches code other \<longleftrightarrow> code = other"

end
