(* ===== verification/Totp_Props.thy ===== *)
theory Totp_Props
  imports Totp
begin

text \<open>
  One-time passwords: a minted secret decodes to its random bytes, a generated code is accepted within
  the skew, and no time step is accepted twice.
\<close>

section \<open>Digits\<close>

lemma unat_of_nat_id: "n < 2 ^ LENGTH('a) \<Longrightarrow> unat (of_nat n :: 'a::len word) = n"
  by (simp add: unsigned_of_nat take_bit_nat_eq_self)

lemma fromDigits_append [simp]: "fromDigits b (xs @ [x]) = fromDigits b xs * b + x"
  by (simp add: fromDigits_def)

lemma length_toDigits [simp]: "length (toDigits b k n) = k"
  by (induction k arbitrary: n) simp_all

lemma toDigits_bound: "0 < b \<Longrightarrow> x \<in> set (toDigits b k n) \<Longrightarrow> x < b"
  by (induction k arbitrary: n) auto

lemma fromDigits_toDigits: "n < b ^ k \<Longrightarrow> fromDigits b (toDigits b k n) = n"
proof (induction k arbitrary: n)
  case 0
  then show ?case by (simp add: fromDigits_def)
next
  case (Suc k)
  then have "n div b < b ^ k" by (simp add: less_mult_imp_div_less mult.commute)
  then show ?case using Suc.IH [of "n div b"] by simp
qed

lemma toDigits_fromDigits: "\<forall>d\<in>set ds. d < b \<Longrightarrow> toDigits b (length ds) (fromDigits b ds) = ds"
  by (induction ds rule: rev_induct) simp_all

lemma fromDigits_bound: "\<forall>d\<in>set ds. d < b \<Longrightarrow> fromDigits b ds < b ^ length ds"
proof (induction ds rule: rev_induct)
  case Nil
  then show ?case by (simp add: fromDigits_def)
next
  case (snoc d ds)
  then have "fromDigits b ds * b + d < (fromDigits b ds + 1) * b" by simp
  also have "\<dots> \<le> b ^ length ds * b" using snoc by (intro mult_le_mono1) simp
  finally show ?case by (simp add: mult.commute)
qed

section \<open>Base 32\<close>

lemma decode_encodeGroup:
  assumes "bs \<noteq> []" and "length bs \<le> 5"
  shows "decodeGroup (encodeGroup bs) = bs"
proof -
  define n where "n = length bs"
  define k where "k = (8 * n + 4) div 5"
  have "0 < n" "n \<le> 5" using assms by (auto simp: n_def)
  then have "n \<in> {1, 2, 3, 4, 5}" by simp presburger
  then have k: "5 * k div 8 = n" "8 * n \<le> 5 * k" "k \<notin> {1, 3, 6}" by (auto simp: k_def)
  let ?m = "fromDigits 256 (map unat bs)"
  have b: "\<forall>d\<in>set (map unat bs). d < 256"
  proof -
    have "unat x < 256" for x :: "8 word" using unsigned_less [of x, where 'a = nat] by simp
    then show ?thesis by simp
  qed
  have "?m < 256 ^ n" using fromDigits_bound [OF b] by (simp add: n_def)
  then have "?m * 2 ^ (5 * k - 8 * n) < 256 ^ n * 2 ^ (5 * k - 8 * n)" by simp
  also have "(256 :: nat) ^ n = 2 ^ (8 * n)" by (simp add: power_mult)
  also have "2 ^ (8 * n) * 2 ^ (5 * k - 8 * n) = (2 :: nat) ^ (5 * k)" using k(2) by (simp flip: power_add)
  also have "\<dots> = 32 ^ k" by (simp add: power_mult)
  finally have "fromDigits 32 (encodeGroup bs) = ?m * 2 ^ (5 * k - 8 * n)"
    by (simp add: encodeGroup_def Let_def n_def [symmetric] k_def [symmetric] fromDigits_toDigits)
  moreover have "length (encodeGroup bs) = k" by (simp add: encodeGroup_def Let_def n_def k_def)
  ultimately have "decodeGroup (encodeGroup bs) = map of_nat (toDigits 256 n ?m)"
    using k(1,3) by (simp add: decodeGroup_def Let_def)
  also have "toDigits 256 n ?m = map unat bs"
    using toDigits_fromDigits [OF b] by (simp add: n_def)
  finally show ?thesis by (simp add: map_idI)
qed

lemma length_encodeGroup: "length (encodeGroup bs) = (8 * length bs + 4) div 5"
  by (simp add: encodeGroup_def Let_def)

lemma groups_Nil: "groups n [] = []"
  by (subst groups.simps) (rule if_P, simp)

lemma groups_step: "0 < n \<Longrightarrow> xs \<noteq> [] \<Longrightarrow> groups n xs = take n xs # groups n (drop n xs)"
  by (subst groups.simps) (rule if_not_P, simp)

lemmas groups_simps = groups_Nil groups_step

lemma groups_encoded: "groups 8 (concat (map encodeGroup (groups 5 bs))) = map encodeGroup (groups 5 bs)"
proof (induction bs rule: length_induct)
  case (1 bs)
  show ?case
  proof (cases "bs = []")
    case False
    let ?e = "encodeGroup (take 5 bs)"
    have "0 < length (take 5 bs)" using False by simp
    then have "0 < length ?e" unfolding length_encodeGroup by presburger
    then have ne: "?e \<noteq> []" by auto
    show ?thesis
    proof (cases "length bs < 5")
      case True
      then have "length ?e \<le> 8" unfolding length_encodeGroup by simp
      then show ?thesis using True False ne by (simp add: groups_simps)
    next
      case False2: False
      then have "length ?e = 8" by (simp add: length_encodeGroup)
      moreover have "groups 8 (concat (map encodeGroup (groups 5 (drop 5 bs)))) = map encodeGroup (groups 5 (drop 5 bs))"
        using 1 False by simp
      ultimately show ?thesis using False ne by (simp add: groups_simps)
    qed
  qed (simp add: groups_simps)
qed

lemma decode_groups: "concat (map decodeGroup (map encodeGroup (groups 5 bs))) = bs"
proof (induction bs rule: length_induct)
  case (1 bs)
  show ?case
  proof (cases "bs = []")
    case False
    then show ?thesis using 1 by (simp add: groups_simps decode_encodeGroup)
  qed (simp add: groups_simps)
qed

lemma encodeGroup_bound: "x \<in> set (encodeGroup bs) \<Longrightarrow> x < 32"
  using toDigits_bound [of 32] by (auto simp: encodeGroup_def Let_def)

lemma base32_char: "n < 32 \<Longrightarrow> base32Value (base32Char n) = Some n \<and> base32Char n \<in> set base32Alphabet"
proof -
  have "\<forall>n\<in>set [0..<32]. base32Value (base32Char n) = Some n \<and> base32Char n \<in> set base32Alphabet"
    by (simp add: upt_rec base32Value_def base32Char_def base32Alphabet_def)
  then show "n < 32 \<Longrightarrow> ?thesis" by simp
qed

lemma alphabet_chars: "c \<in> set base32Alphabet \<Longrightarrow>
    asciiUpper c = c \<and> \<not> asciiSpace c \<and> c \<noteq> CHR '' '' \<and> c \<noteq> CHR ''='' \<and> c \<noteq> CHR 0x0A \<and> c \<noteq> CHR 0x0D"
  by (auto simp: base32Alphabet_def asciiUpper_def asciiSpace_def)

lemma normalize_alphabet:
  assumes "set s \<subseteq> set base32Alphabet"
  shows "normalizeSecret s = s"
proof -
  have c: "asciiUpper x = x" "\<not> asciiSpace x" "x \<noteq> CHR '' ''" "x \<noteq> CHR ''=''" if "x \<in> set s" for x
    using alphabet_chars assms that by blast+
  have d: "dropWhile P xs = xs" if "\<And>x. x \<in> set xs \<Longrightarrow> \<not> P x" for P and xs :: string
    using that by (cases xs) auto
  have "TrimSpace s = s" using d [of s asciiSpace] d [of "rev s" asciiSpace] c(2) by (simp add: TrimSpace_def)
  moreover have "map asciiUpper s = s" using c(1) by (simp add: map_idI)
  moreover have "filter (\<lambda>x. x \<noteq> CHR '' '') s = s" using c(3) by (simp add: filter_id_conv)
  moreover have "TrimRight (CHR ''='') s = s" using c(4) d [of "rev s" "\<lambda>x. x = CHR ''=''"] by (simp add: TrimRight_def)
  ultimately show ?thesis by (simp add: normalizeSecret_def)
qed

lemma set_groups: "x \<in> set (concat (map encodeGroup gs)) \<Longrightarrow> x < 32"
  using encodeGroup_bound by auto

lemma DecodeString_encode: "DecodeString (EncodeToString bs) = Some bs"
proof -
  let ?ds = "concat (map encodeGroup (groups 5 bs))"
  have v: "map (\<lambda>c. the (base32Value c)) (map base32Char ?ds) = ?ds"
    unfolding map_map by (rule map_idI) (use set_groups base32_char in fastforce)
  have s: "set (EncodeToString bs) \<subseteq> set base32Alphabet"
    using base32_char set_groups unfolding EncodeToString_def by fastforce
  then have f: "filter (\<lambda>c. c \<noteq> CHR 0x0A \<and> c \<noteq> CHR 0x0D) (EncodeToString bs) = EncodeToString bs"
    using alphabet_chars by (simp add: filter_id_conv subset_iff)
  have n: "\<not> (\<exists>c\<in>set (EncodeToString bs). base32Value c = None)"
    using s by (auto simp: base32Value_def)
  show ?thesis
    unfolding DecodeString_def f Let_def if_not_P [OF n]
    unfolding EncodeToString_def v groups_encoded by (simp only: decode_groups)
qed

text \<open>
  A minted secret decodes to the random bytes it was made of, and is valid.
\<close>

theorem minted_secret_decodes:
  assumes "random len = Some raw" and "length raw = len" and "minSecretBytes \<le> len"
  shows "\<exists>s. NewSecretWithSize random len = Inr s \<and> secret_decode s = Inr raw \<and> Secret_Validate s = None"
proof -
  have s: "set (EncodeToString raw) \<subseteq> set base32Alphabet"
    using base32_char set_groups unfolding EncodeToString_def by fastforce
  have d: "secret_decode (EncodeToString raw) = Inr raw"
    by (simp add: secret_decode_def normalize_alphabet [OF s] DecodeString_encode)
  moreover have "EncodeToString raw \<noteq> []"
  proof
    assume "EncodeToString raw = []"
    then have "raw = []" using DecodeString_encode [of raw] by (simp add: DecodeString_def groups_simps)
    then show False using assms(2,3) by (simp add: minSecretBytes_def)
  qed
  ultimately show ?thesis
    using assms by (simp add: NewSecretWithSize_def Secret_Validate_def)
qed

theorem minted_secret_decodes_witness:
  "\<exists>s. NewSecretWithSize (\<lambda>n. Some (replicate n 7)) 20 = Inr s \<and> secret_decode s = Inr (replicate 20 7)
    \<and> Secret_Validate s = None"
  by (rule minted_secret_decodes) (simp_all add: minSecretBytes_def)

section \<open>Codes\<close>

lemma length_formatNat: "n < 10 ^ k \<Longrightarrow> 0 < k \<Longrightarrow> length (formatNat n) \<le> k"
proof (induction n arbitrary: k rule: formatNat.induct)
  case (1 n)
  show ?case
  proof (cases "n < 10")
    case True
    then show ?thesis using 1 by (simp add: formatNat.simps [of n])
  next
    case False
    obtain j where k: "k = Suc j" using 1 by (cases k) auto
    have "n div 10 < 10 ^ j" using 1 k by (simp add: less_mult_imp_div_less mult.commute)
    moreover from this have "0 < j" using False by (cases j) auto
    ultimately show ?thesis using 1 False k by (simp add: formatNat.simps [of n])
  qed
qed

lemma modulus_pow: "((\<lambda>m. m * 10) ^^ k) 1 = (of_nat (10 ^ k) :: u32)"
  by (induction k) (simp_all add: mult.commute)

lemma modulus_eq:
  assumes "Digits_Validate n = None"
  shows "(10 :: nat) ^ unat n < 2 ^ 32" "6 \<le> unat n"
proof -
  have n: "6 \<le> unat n" "unat n \<le> 8"
    using assms by (simp_all add: Digits_Validate_def MinDigits_def MaxDigits_def word_less_nat_alt split: if_splits)
  have "(10 :: nat) ^ unat n \<le> 10 ^ 8" using n(2) by (intro power_increasing) simp_all
  then show "(10 :: nat) ^ unat n < 2 ^ 32" by simp
  show "6 \<le> unat n" by (rule n(1))
qed

text \<open>What the code asks of HMAC: a sum of twenty bytes at least.\<close>

definition macLength :: "(string \<Rightarrow> byte_list \<Rightarrow> byte_list \<Rightarrow> byte_list) \<Rightarrow> bool" where
  "macLength hmac \<longleftrightarrow> (\<forall>a k m. 20 \<le> length (hmac a k m))"

lemma GenerateAt_returns:
  assumes mac: "macLength hmac" and n: "Digits_Validate (tc_Digits c) = None" and s: "Secret_Validate s = None"
  shows "\<exists>code. GenerateAt hmac c s k = Some (Inr code) \<and> length code = unat (tc_Digits c)
    \<and> (\<forall>x\<in>set code. digitOf x \<noteq> None)"
proof -
  obtain key where key: "secret_decode s = Inr key" "\<not> length key < minSecretBytes"
    using s by (auto simp: Secret_Validate_def split: if_splits sum.splits)
  let ?sum = "hmac (tc_Algorithm c) key (bigEndian 8 (unat k))"
  let ?o = "unat (and (last ?sum) 0x0F)"
  have "and (last ?sum) 0x0F \<le> 0x0F" by (rule word_and_le1)
  then have "?o \<le> 15" unfolding word_le_nat_alt by simp
  moreover have "20 \<le> length ?sum" using mac by (simp add: macLength_def)
  ultimately have o: "\<not> length ?sum < ?o + 4" by linarith
  define d where "d = unat (tc_Digits c)"
  note d = modulus_eq [OF n, folded d_def]
  define t where "t = (and (of_nat (fromDigits 256 (map unat (take 4 (drop ?o ?sum))))) 0x7FFFFFFF :: u32)"
  define M where "M = (10 :: nat) ^ d"
  have M: "unat (of_nat M :: u32) = M" by (rule unat_of_nat_id) (use d(1) in \<open>simp add: M_def\<close>)
  have M0: "0 < M" by (simp add: M_def)
  then have m0: "(of_nat M :: u32) \<noteq> 0" using M by (metis less_numeral_extra(3) unat_0)
  have pow: "((\<lambda>m. m * 10) ^^ d) 1 = (of_nat M :: u32)" by (simp only: modulus_pow M_def)
  let ?digits = "formatNat (unat (t mod of_nat M))"
  have "unat (t mod of_nat M) < M" using M M0 by (simp add: unat_mod_distrib)
  then have len: "length ?digits \<le> d" using d(2) by (intro length_formatNat) (simp_all add: M_def)
  have "GenerateAt hmac c s k = Some (Inr (replicate (d - length ?digits) (CHR ''0'') @ ?digits))"
    using o m0 by (simp add: GenerateAt_def key Let_def t_def [symmetric] d_def [symmetric] pow)
  moreover have "\<forall>x\<in>set (replicate (d - length ?digits) (CHR ''0'') @ ?digits). digitOf x \<noteq> None"
    using formatNat_digits [of _ "unat (t mod of_nat M)"] by (fastforce simp: digitOf_def [of "CHR ''0''"])
  ultimately show ?thesis using len by (simp add: d_def)
qed

lemma tryCandidates_result:
  assumes "\<And>k. k \<in> set ks \<Longrightarrow> \<exists>c. gen k = Some (Inr c)"
  shows "\<exists>r. tryCandidates gen code ks res = Some (Inr r)
    \<and> ((\<exists>k\<in>set ks. gen k = Some (Inr code)) \<longrightarrow> snd r \<and> fst r \<in> set ks \<and> gen (fst r) = Some (Inr code)
         \<and> (\<forall>k\<in>set ks. gen k = Some (Inr code) \<and> sorted ks \<longrightarrow> k \<le> fst r))
    \<and> (\<not> (\<exists>k\<in>set ks. gen k = Some (Inr code)) \<longrightarrow> r = res)"
  using assms
proof (induction ks arbitrary: res)
  case (Cons k ks)
  obtain c where c: "gen k = Some (Inr c)" using Cons.prems by fastforce
  let ?res = "if c = code then (k, True) else res"
  have "\<exists>c. gen k = Some (Inr c)" if "k \<in> set ks" for k using Cons.prems that by simp
  from Cons.IH [OF this, of ?res] obtain r where
    r: "tryCandidates gen code ks ?res = Some (Inr r)"
      "(\<exists>k\<in>set ks. gen k = Some (Inr code)) \<longrightarrow> snd r \<and> fst r \<in> set ks \<and> gen (fst r) = Some (Inr code)
         \<and> (\<forall>k\<in>set ks. gen k = Some (Inr code) \<and> sorted ks \<longrightarrow> k \<le> fst r)"
      "\<not> (\<exists>k\<in>set ks. gen k = Some (Inr code)) \<longrightarrow> r = ?res" by blast
  show ?case
  proof (cases "\<exists>k\<in>set ks. gen k = Some (Inr code)")
    case True
    then show ?thesis using r c by (intro exI [of _ r]) auto
  next
    case False
    then have "r = ?res" using r(3) by blast
    then show ?thesis using r(1) c False by (intro exI [of _ r]) auto
  qed
qed simp

lemma counter_bound: "at < 2 ^ 63 * 1000000000 \<Longrightarrow> unat (totp_Counter c at) < 2 ^ 63"
proof -
  assume a: "at < 2 ^ 63 * 1000000000"
  let ?n = "nat (at div 1000000000) div unat (tc_Period c)"
  have "at div 1000000000 < 2 ^ 63" using a by (simp add: div_less_iff_less_mult)
  then have "nat (at div 1000000000) < 2 ^ 63" by (simp add: nat_less_iff)
  then have n: "?n < 2 ^ 63" by (rule le_less_trans [OF div_le_dividend])
  then have "unat (of_nat ?n :: u64) = ?n" by (intro unat_of_nat_id) simp
  then show ?thesis using n by (simp add: totp_Counter_def Let_def)
qed

text \<open>Two time steps at most the skew apart.\<close>

definition within :: "'a::len word \<Rightarrow> u64 \<Rightarrow> u64 \<Rightarrow> bool" where
  "within skew k j \<longleftrightarrow> unat k \<le> unat j + unat skew \<and> unat j \<le> unat k + unat skew"

lemma candidates_window:
  assumes "unat current < 2 ^ 63" and "unat skew < 256"
  shows "k \<in> set (candidates current skew) \<longleftrightarrow> within skew k current"
    and "sorted (candidates current skew)"
proof -
  have hi: "unat (current + skew) = unat current + unat skew"
    using assms by (intro unat_add_lem [THEN iffD1]) simp
  let ?lo = "unat (if current > skew then current - skew else 0)"
  have lo: "?lo = unat current - unat skew"
    by (auto simp: unat_sub word_less_nat_alt word_le_nat_alt)
  have c: "candidates current skew = map of_nat [unat current - unat skew..<Suc (unat current + unat skew)]"
    by (simp only: candidates_def Let_def lo hi)
  have u: "unat (of_nat n :: u64) = n" if "n < Suc (unat current + unat skew)" for n
    using that assms by (intro unat_of_nat_id) simp
  show "k \<in> set (candidates current skew) \<longleftrightarrow> within skew k current"
  proof
    assume "k \<in> set (candidates current skew)"
    then obtain n where "k = of_nat n" "unat current - unat skew \<le> n" "n < Suc (unat current + unat skew)"
      unfolding c by auto
    then show "within skew k current" using u [of n] by (simp add: within_def)
  next
    assume "within skew k current"
    then have "unat k \<in> set [unat current - unat skew..<Suc (unat current + unat skew)]" by (auto simp: within_def)
    then have "of_nat (unat k) \<in> set (candidates current skew)" unfolding c set_map by (rule imageI)
    then show "k \<in> set (candidates current skew)" by simp
  qed
  show "sorted (candidates current skew)"
    unfolding c sorted_map
    by (rule sorted_wrt_mono_rel [OF _ sorted_upt]) (simp add: word_le_nat_alt u del: upt_Suc)
qed

definition instant_ok :: "time \<Rightarrow> bool" where
  "instant_ok at \<longleftrightarrow> at < 2 ^ 63 * 1000000000"

lemma candidates_of:
  assumes "instant_ok at"
  shows "k \<in> set (candidates (totp_Counter c at) (ucast (tc_Skew c)))
      \<longleftrightarrow> within (tc_Skew c) k (totp_Counter c at)"
    and "sorted (candidates (totp_Counter c at) (ucast (tc_Skew c)))"
proof -
  have sk: "unat (tc_Skew c) < 256" using unsigned_less [of "tc_Skew c", where 'a = nat] by simp
  have u: "unat (ucast (tc_Skew c) :: u64) = unat (tc_Skew c)"
    unfolding unsigned_ucast_eq by (rule take_bit_nat_eq_self) (use sk in simp)
  have "unat (totp_Counter c at) < 2 ^ 63" using counter_bound assms by (simp add: instant_ok_def)
  moreover have "unat (ucast (tc_Skew c) :: u64) < 256" unfolding u by (rule sk)
  ultimately show "k \<in> set (candidates (totp_Counter c at) (ucast (tc_Skew c))) \<longleftrightarrow> within (tc_Skew c) k (totp_Counter c at)"
    "sorted (candidates (totp_Counter c at) (ucast (tc_Skew c)))"
    using candidates_window [of "totp_Counter c at" "ucast (tc_Skew c)"] by (simp_all only: within_def u)
qed

text \<open>
  C39. A code that was generated is accepted. Under a valid configuration and secret, a code has as many
  digits as configured, and a verifier whose clock is at most the skew of time steps away accepts it,
  for its own step or a later one in the window that has the same code. HMAC is any function whose sums
  have twenty bytes or more.
\<close>

theorem generated_code_accepted:
  assumes "macLength hmac" and "Config_Validate c = None" and "Secret_Validate s = None" and "instant_ok t"
    and "within (tc_Skew c) (totp_Counter c t0) (totp_Counter c t)"
  shows "\<exists>code k. Generate hmac c s t0 = Some (Inr code) \<and> length code = unat (tc_Digits c)
    \<and> totp_Validate hmac c s code t = Some (Inr (k, True))
    \<and> totp_Counter c t0 \<le> k \<and> GenerateAt hmac c s k = Some (Inr code)"
proof -
  have dig: "Digits_Validate (tc_Digits c) = None"
    using assms(2) by (simp add: Config_Validate_def split: option.splits)
  note gen = GenerateAt_returns [OF assms(1) dig assms(3)]
  obtain code where code: "Generate hmac c s t0 = Some (Inr code)" "length code = unat (tc_Digits c)"
      "\<forall>x\<in>set code. digitOf x \<noteq> None"
    using gen [of "totp_Counter c t0"] unfolding Generate_def by blast
  have "checkCodeShape c code = None"
    using code(2,3) modulus_eq(2) [OF dig] by (auto simp: checkCodeShape_def)
  moreover obtain r where "tryCandidates (GenerateAt hmac c s) code
        (candidates (totp_Counter c t) (ucast (tc_Skew c))) (0, False) = Some (Inr r)"
      "snd r" "GenerateAt hmac c s (fst r) = Some (Inr code)" "totp_Counter c t0 \<le> fst r"
    using tryCandidates_result [of "candidates (totp_Counter c t) (ucast (tc_Skew c))" "GenerateAt hmac c s" code "(0, False)"]
      gen code(1) candidates_of [OF assms(4)] assms(5) unfolding Generate_def by blast
  ultimately show ?thesis
    using code(1,2) by (intro exI [of _ code] exI [of _ "fst r"]) (cases r, simp add: totp_Validate_def)
qed

definition demoSecret :: string where "demoSecret = replicate 32 (CHR ''A'')"

lemma demo_secret: "Secret_Validate demoSecret = None"
  by code_simp

definition demoConfig :: totpConfig where
  "demoConfig = NewAuthenticator (Some \<lparr>tc_Issuer = [], tc_Algorithm = [], tc_Digits = 0, tc_Period = 0, tc_Skew = 1\<rparr>)"

theorem generated_code_accepted_witness:
  "\<exists>code k. Generate (\<lambda>_ _ m. replicate 20 0 @ m) demoConfig demoSecret 59000000000 = Some (Inr code)
    \<and> totp_Validate (\<lambda>_ _ m. replicate 20 0 @ m) demoConfig demoSecret code 89000000000 = Some (Inr (k, True))"
proof -
  have mac: "macLength (\<lambda>_ _ m. replicate 20 0 @ m)" by (simp add: macLength_def)
  have "Config_Validate demoConfig = None" by code_simp
  moreover have "within (tc_Skew demoConfig) (totp_Counter demoConfig 59000000000) (totp_Counter demoConfig 89000000000)"
    by code_simp
  moreover have "instant_ok 89000000000" by (simp add: instant_ok_def)
  ultimately show ?thesis using generated_code_accepted [OF mac _ demo_secret] by blast
qed

section \<open>Replay\<close>

text \<open>The attempts of a user, each a code and an instant; the counter of an accepted one is persisted.\<close>

fun logins ::
    "(string \<Rightarrow> byte_list \<Rightarrow> byte_list \<Rightarrow> byte_list) \<Rightarrow> totpConfig \<Rightarrow> string \<Rightarrow> u64 \<Rightarrow> (string \<times> time) list
      \<Rightarrow> (u64 \<times> string \<times> time) list" where
  "logins hmac c s lastAccepted [] = []"
| "logins hmac c s lastAccepted ((code, at) # attempts) =
     (case ValidateAfter hmac c s code at lastAccepted of
        Some (Inr (k, True)) \<Rightarrow> (k, code, at) # logins hmac c s k attempts
      | _ \<Rightarrow> logins hmac c s lastAccepted attempts)"

lemma tryCandidates_sound:
  "tryCandidates gen code ks res = Some (Inr (k, True)) \<Longrightarrow> res = (k, True) \<or> k \<in> set ks \<and> gen k = Some (Inr code)"
proof (induction ks arbitrary: res)
  case (Cons x ks)
  from Cons.prems obtain e where e: "gen x = Some (Inr e)"
      "tryCandidates gen code ks (if e = code then (x, True) else res) = Some (Inr (k, True))"
    by (auto split: option.splits sum.splits)
  show ?case using Cons.IH [OF e(2)] e(1) by (auto split: if_splits)
qed simp

lemma ValidateAfter_sound:
  assumes "ValidateAfter hmac c s code at n = Some (Inr (k, True))" and "instant_ok at"
  shows "n < k" "GenerateAt hmac c s k = Some (Inr code)"
    "within (tc_Skew c) k (totp_Counter c at)"
proof -
  have v: "totp_Validate hmac c s code at = Some (Inr (k, True))" and "\<not> k \<le> n"
    using assms(1) by (auto simp: ValidateAfter_def split: option.splits sum.splits prod.splits bool.splits)
  then show "n < k" by simp
  have "k \<in> set (candidates (totp_Counter c at) (ucast (tc_Skew c))) \<and> GenerateAt hmac c s k = Some (Inr code)"
    using v by (auto simp: totp_Validate_def dest: tryCandidates_sound split: option.splits)
  then show "GenerateAt hmac c s k = Some (Inr code)"
    "within (tc_Skew c) k (totp_Counter c at)"
    using candidates_of(1) [OF assms(2)] by simp_all
qed

text \<open>
  C38. No time step is accepted twice. However the attempts of a user follow each other, with whatever
  codes and clocks, those that \<open>ValidateAfter\<close> accepts match strictly increasing time steps, all above
  the one persisted before; each is within the skew of its clock, and its code is the code of its step.
  So a code seen in transit is of no use for its own step once its owner has used it.
\<close>

theorem no_replay:
  assumes "\<forall>(code, at)\<in>set attempts. instant_ok at"
  shows "sorted_wrt (<) (n # map fst (logins hmac c s n attempts))
    \<and> (\<forall>(k, code, at)\<in>set (logins hmac c s n attempts). (code, at) \<in> set attempts
         \<and> GenerateAt hmac c s k = Some (Inr code)
         \<and> within (tc_Skew c) k (totp_Counter c at))"
  using assms
proof (induction attempts arbitrary: n)
  case (Cons a attempts)
  obtain code at where a: "a = (code, at)" by (cases a)
  have ok: "instant_ok at" "\<forall>(code, at)\<in>set attempts. instant_ok at" using Cons.prems by (simp_all add: a)
  show ?case
  proof (cases "\<exists>k. ValidateAfter hmac c s code at n = Some (Inr (k, True))")
    case True
    then obtain k where k: "ValidateAfter hmac c s code at n = Some (Inr (k, True))" by blast
    note v = ValidateAfter_sound [OF k ok(1)]
    show ?thesis using Cons.IH [OF ok(2), of k] v by (auto simp: a k)
  next
    case False
    then have "logins hmac c s n (a # attempts) = logins hmac c s n attempts"
      by (auto simp: a split: option.split sum.split prod.split bool.split)
    then show ?thesis using Cons.IH [OF ok(2), of n] by fastforce
  qed
qed simp

theorem no_replay_witness:
  "sorted_wrt (<) (0 # map fst (logins (\<lambda>_ _ m. replicate 20 0 @ m) demoConfig demoSecret 0
     [(''000000'', 59000000000), (''000000'', 60000000000)]))"
  using no_replay [of "[(''000000'', 59000000000), (''000000'', 60000000000)]" 0
    "\<lambda>_ _ m. replicate 20 0 @ m" demoConfig demoSecret]
  by (simp add: instant_ok_def)

end
