(* ===== verification/Value_Parser.thy ===== *)
theory Value_Parser
  imports Prelude Strconv
begin

text \<open>
  Parsing a text into a value of a type (\<open>valueparser/value_parser.go\<close>, \<open>try_unmarshal.go\<close>), for the calls
  that parse into the very type they return. A type is its kind, whether it is declared under a name of
  its own, and the method it may have to read itself from a text, which is the caller's code. The integer
  kinds have their width; floating-point kinds are not modelled.
\<close>

section \<open>Types and values\<close>

datatype goValue = GoString string | GoInt int | GoUint nat | GoBool bool | GoBytes string

datatype valueKind = KindString | KindInt nat | KindUint nat | KindBool | KindBytes

datatype textMethod = NoMethod | UnmarshalText "string \<Rightarrow> string + goValue" | Unmarshal "string \<Rightarrow> string + goValue"

record valueType =
  vt_kind :: valueKind
  vt_named :: bool
  vt_method :: textMethod

datatype parseErr = ErrInvalidValue | ErrUnparsableValue | ErrMethod string

fun zeroOf :: "valueKind \<Rightarrow> goValue" where
  "zeroOf KindString = GoString ''''"
| "zeroOf (KindInt _) = GoInt 0"
| "zeroOf (KindUint _) = GoUint 0"
| "zeroOf KindBool = GoBool False"
| "zeroOf KindBytes = GoBytes ''''"

text \<open>\<open>strconv.ParseBool\<close>.\<close>

definition ParseBool :: "string \<Rightarrow> bool option" where
  "ParseBool s =
     (if s \<in> set [''1'', ''t'', ''T'', ''TRUE'', ''true'', ''True''] then Some True
      else if s \<in> set [''0'', ''f'', ''F'', ''FALSE'', ''false'', ''False''] then Some False
      else None)"

section \<open>Parsing\<close>

text \<open>The value and the error are both returned, as in Go: with an error comes the zero value.\<close>

definition TryUnmarshal :: "valueType \<Rightarrow> string \<Rightarrow> goValue \<times> parseErr option" where
  "TryUnmarshal vt val =
     (case vt_method vt of
        NoMethod \<Rightarrow> (zeroOf (vt_kind vt), Some ErrUnparsableValue)
      | UnmarshalText f \<Rightarrow>
          (case f val of Inl er \<Rightarrow> (zeroOf (vt_kind vt), Some (ErrMethod er)) | Inr v \<Rightarrow> (v, None))
      | Unmarshal f \<Rightarrow>
          (case f val of Inl _ \<Rightarrow> (zeroOf (vt_kind vt), Some ErrUnparsableValue) | Inr v \<Rightarrow> (v, None)))"

text \<open>
  The assertion \<open>any(value).(T)\<close> holds for the predeclared string type only, and \<open>any([]byte(value)).(T)\<close>
  for the unnamed slice type only.
\<close>

definition ParseValue :: "valueType \<Rightarrow> string \<Rightarrow> goValue \<times> parseErr option" where
  "ParseValue vt val =
     (case vt_kind vt of
        KindString \<Rightarrow>
          if vt_named vt then (zeroOf KindString, Some ErrInvalidValue)
          else (case TryUnmarshal vt val of (u, None) \<Rightarrow> (u, None) | (_, Some _) \<Rightarrow> (GoString val, None))
      | KindInt bits \<Rightarrow>
          (case ParseInt val bits of
             Inr i \<Rightarrow> (GoInt i, None)
           | Inl ErrRange \<Rightarrow> (zeroOf (KindInt bits), Some ErrInvalidValue)
           | Inl ErrSyntax \<Rightarrow> TryUnmarshal vt val)
      | KindUint bits \<Rightarrow>
          (case ParseUint val bits of
             Inr n \<Rightarrow> (GoUint n, None)
           | Inl ErrRange \<Rightarrow> (zeroOf (KindUint bits), Some ErrInvalidValue)
           | Inl ErrSyntax \<Rightarrow> TryUnmarshal vt val)
      | KindBool \<Rightarrow> (case ParseBool val of Some b \<Rightarrow> (GoBool b, None) | None \<Rightarrow> TryUnmarshal vt val)
      | KindBytes \<Rightarrow> if vt_named vt then TryUnmarshal vt val else (GoBytes val, None))"

definition stringType :: valueType where
  "stringType = \<lparr>vt_kind = KindString, vt_named = False, vt_method = NoMethod\<rparr>"

definition intType :: "nat \<Rightarrow> valueType" where
  "intType bits = \<lparr>vt_kind = KindInt bits, vt_named = False, vt_method = NoMethod\<rparr>"

lemma ParseValue_string [simp]: "ParseValue stringType s = (GoString s, None)"
  by (simp add: ParseValue_def stringType_def TryUnmarshal_def)

lemma ParseValue_named_string: "vt_kind vt = KindString \<Longrightarrow> vt_named vt \<Longrightarrow> ParseValue vt s = (GoString '''', Some ErrInvalidValue)"
  by (simp add: ParseValue_def)

lemma ParseValue_int: "in_int64 i \<Longrightarrow> ParseValue (intType 64) (formatInt i) = (GoInt i, None)"
  by (simp add: ParseValue_def intType_def ParseInt_format)

lemma parseDigits_range: "0 < b \<Longrightarrow> b \<le> n \<Longrightarrow> parseDigits b 0 (formatNat n) = Inl ErrRange"
proof (induction n rule: formatNat.induct)
  case (1 n)
  show ?case
  proof (cases "n < 10")
    case True
    with 1 show ?thesis by (subst formatNat.simps) simp
  next
    case False
    have "parseDigits b 0 (formatNat (n div 10)) = (if n div 10 < b then Inr (n div 10) else Inl ErrRange)"
      using 1 False by (simp add: parseDigits_format)
    then show ?thesis
      using False 1(3) by (subst formatNat.simps) (simp add: parseDigits_append div_mult_mod_eq)
  qed
qed

text \<open>A number too large for the width gives the zero value, and an error.\<close>

lemma ParseValue_too_large:
  assumes "vt_kind vt = KindInt bits" and "0 < bits" and "2 ^ (bits - 1) \<le> i"
  shows "fst (ParseValue vt (formatInt i)) = GoInt 0"
proof -
  define n where "n = nat i"
  have i: "\<not> i < 0" using assms(3) by (smt (verit) zero_le_power)
  have f: "formatInt i = formatNat n" using i by (simp add: formatInt_def n_def)
  have "(2 :: nat) ^ (bits - 1) \<le> n" using assms(3) i unfolding n_def by (simp add: le_nat_iff)
  moreover have "hd (formatNat n) \<noteq> CHR ''-''" "hd (formatNat n) \<noteq> CHR ''+''" by (fact formatNat_hd)+
  ultimately have "ParseInt (formatNat n) bits = Inl ErrRange"
    using parseDigits_range [of "2 ^ bits" n] parseDigits_format [of n "2 ^ bits"]
    by (cases "n < 2 ^ bits") (simp_all add: ParseInt_def ParseUint_def)
  then show ?thesis by (simp add: ParseValue_def assms(1) f)
qed

end
