(* ===== verification/Time_Hash.thy ===== *)
theory Time_Hash
  imports Prelude Strconv Value_Parser
begin

text \<open>
  Salted and time-bound hashes (\<open>yahash/yahash.go\<close>). The hashing function is the caller's, from a
  main value and further arguments to anything that can be compared. The type parameter of the data is
  an argument \<open>vt\<close> of the operations that parse the number of a window into it. The package's own hash is
  FNV.
\<close>

section \<open>The helper\<close>

record 'o timeHash =
  th_hasher :: "goValue \<Rightarrow> goValue list \<Rightarrow> 'o"
  th_stepInterval :: duration
  th_secret :: goValue
  th_backStepCount :: u16

definition NewHash :: "(goValue \<Rightarrow> goValue list \<Rightarrow> 'o) \<Rightarrow> goValue \<Rightarrow> duration \<Rightarrow> u16 \<Rightarrow> 'o timeHash" where
  "NewHash f secret stepInterval back =
     \<lparr>th_hasher = f, th_stepInterval = (if stepInterval < 1000000000 then 1000000000 else stepInterval),
      th_secret = secret, th_backStepCount = back\<rparr>"

definition hash_Hash :: "'o timeHash \<Rightarrow> goValue \<Rightarrow> goValue list \<Rightarrow> 'o" where
  "hash_Hash h dat args = th_hasher h dat (args @ [th_secret h])"

text \<open>The number of the window an instant lies in: whole seconds by whole seconds.\<close>

definition windowOf :: "'o timeHash \<Rightarrow> time \<Rightarrow> int" where
  "windowOf h t = go_div (t div 1000000000) (go_div (th_stepInterval h) 1000000000)"

text \<open>The error of the parse is ignored: the hash is then that of the zero value.\<close>

definition HashWithTime :: "valueType \<Rightarrow> 'o timeHash \<Rightarrow> time \<Rightarrow> goValue list \<Rightarrow> 'o" where
  "HashWithTime vt h t args = th_hasher h (fst (ParseValue vt (formatInt (windowOf h t)))) (args @ [th_secret h])"

definition ValidateWithoutTime :: "'o timeHash \<Rightarrow> 'o \<Rightarrow> goValue \<Rightarrow> goValue list \<Rightarrow> bool" where
  "ValidateWithoutTime h expected dat args \<longleftrightarrow> hash_Hash h dat args = expected"

text \<open>The clock is an argument; \<open>h.stepInterval * -time.Duration(i)\<close> wraps at 64 bits.\<close>

definition ValidateWithCustomBackStepCount ::
    "valueType \<Rightarrow> 'o timeHash \<Rightarrow> time \<Rightarrow> 'o \<Rightarrow> u16 \<Rightarrow> goValue list \<Rightarrow> bool" where
  "ValidateWithCustomBackStepCount vt h now expected back args \<longleftrightarrow>
     list_ex (\<lambda>i. HashWithTime vt h (timeAdd now (int64 (th_stepInterval h * - int i))) args = expected)
       [0..<Suc (unat back)]"

definition hash_Validate :: "valueType \<Rightarrow> 'o timeHash \<Rightarrow> time \<Rightarrow> 'o \<Rightarrow> goValue list \<Rightarrow> bool" where
  "hash_Validate vt h now expected args =
     ValidateWithCustomBackStepCount vt h now expected (th_backStepCount h) args"

section \<open>FNV\<close>

text \<open>\<open>hash/fnv\<close>: \<open>New64\<close> and \<open>New32\<close> multiply first and then add the byte, which is FNV-1.\<close>

definition fnvWrite :: "'a::len word \<Rightarrow> 'a word \<Rightarrow> string \<Rightarrow> 'a word" where
  "fnvWrite prime h s = foldl (\<lambda>h c. xor (h * prime) (of_nat (of_char c))) h s"

definition FNVStringToInt64 :: "string \<Rightarrow> string list \<Rightarrow> int" where
  "FNVStringToInt64 dat args =
     sint (foldl (fnvWrite 1099511628211) (fnvWrite 1099511628211 (14695981039346656037 :: u64) dat) args)"

definition FNVStringToInt32 :: "string \<Rightarrow> string list \<Rightarrow> int" where
  "FNVStringToInt32 dat args =
     sint (foldl (fnvWrite 16777619) (fnvWrite 16777619 (2166136261 :: u32) dat) args)"

section \<open>Windows\<close>

lemma go_div_seconds: "0 < k \<Longrightarrow> go_div (k * 1000000000) 1000000000 = k"
  by simp

lemma div_back: "(now + 1000000000 * (k * - i)) div 1000000000 div k = now div 1000000000 div k - i"
  if "0 < k" for now k i :: int
proof -
  have "(now + 1000000000 * (k * - i)) div 1000000000 = now div 1000000000 + k * - i" by simp
  also have "\<dots> div k = now div 1000000000 div k + - i"
    using that by (subst div_mult_self2) simp_all
  finally show ?thesis by simp
qed

lemma window_back:
  assumes k: "th_stepInterval h = k * 1000000000" "0 < k" and i: "i \<le> n" and n: "n * (k * 1000000000) \<le> now"
    and b: "n * (k * 1000000000) \<le> maxInt64" and "0 \<le> i"
  shows "windowOf h (timeAdd now (int64 (th_stepInterval h * - i))) = now div 1000000000 div k - i"
proof -
  have le: "i * (k * 1000000000) \<le> n * (k * 1000000000)"
    using i k(2) by (intro mult_right_mono) simp_all
  have "0 \<le> i * (k * 1000000000)" using k(2) \<open>0 \<le> i\<close> by simp
  then have "in_int64 (th_stepInterval h * - i)"
    using le b by (simp add: in_int64_def minInt64_def maxInt64_def k(1) mult.commute mult.left_commute)
  then have t: "timeAdd now (int64 (th_stepInterval h * - i)) = now + 1000000000 * (k * - i)"
    by (simp add: timeAdd_def k(1))
  have "0 \<le> now + 1000000000 * (k * - i)" using le n by (simp add: mult.commute mult.left_commute)
  then have "0 \<le> (now + 1000000000 * (k * - i)) div 1000000000" by (rule pos_imp_zdiv_nonneg_iff [THEN iffD2, rotated]) simp
  then show ?thesis
    unfolding t windowOf_def using k div_back [OF k(2), of now i] by (simp add: go_div_seconds)
qed

lemma formatNat_inj: "formatNat m = formatNat n \<Longrightarrow> m = n"
proof -
  assume f: "formatNat m = formatNat n"
  have "m < 2 ^ max m n" "n < 2 ^ max m n"
    using less_exp [of "max m n"] by linarith+
  then have "Inr m = (Inr n :: numError + nat)" using f ParseUint_format by metis
  then show "m = n" by simp
qed

lemma inj_formatInt: "inj formatInt"
proof (rule injI)
  fix a b :: int
  assume f: "formatInt a = formatInt b"
  have neg: "formatInt i = CHR ''-'' # formatNat (nat (- i))" if "i < 0" for i using that by (simp add: formatInt_def)
  have pos: "formatInt i = formatNat (nat i)" if "\<not> i < 0" for i using that by (simp add: formatInt_def)
  show "a = b"
  proof (cases "a < 0"; cases "b < 0")
    assume ab: "a < 0" "b < 0"
    then have "nat (- a) = nat (- b)" using f neg formatNat_inj by simp
    then show ?thesis using ab by simp
  next
    assume ab: "a < 0" "\<not> b < 0"
    then have "hd (formatNat (nat b)) = CHR ''-''" using f neg [OF ab(1)] pos [OF ab(2)] by (metis list.sel(1))
    then show ?thesis using formatNat_hd by blast
  next
    assume ab: "\<not> a < 0" "b < 0"
    then have "hd (formatNat (nat a)) = CHR ''-''" using f neg [OF ab(2)] pos [OF ab(1)] by (metis list.sel(1))
    then show ?thesis using formatNat_hd by blast
  next
    assume ab: "\<not> a < 0" "\<not> b < 0"
    then have "nat a = nat b" using f pos formatNat_inj by simp
    then show ?thesis using ab by simp
  qed
qed

lemma windows_apart:
  fixes now made n k :: int
  assumes "0 < k"
  shows "now \<le> made + n * (k * 1000000000) \<Longrightarrow> now div 1000000000 div k \<le> made div 1000000000 div k + n"
    and "made + n * (k * 1000000000) \<le> now \<Longrightarrow> made div 1000000000 div k + n \<le> now div 1000000000 div k"
proof -
  have e: "(made + n * (k * 1000000000)) div 1000000000 div k = made div 1000000000 div k + n"
  proof -
    have "made + n * (k * 1000000000) = made + 1000000000 * (k * - (- n))" by simp
    then show ?thesis using div_back [OF assms, of made "- n"] by (simp only: diff_minus_eq_add)
  qed
  show "now \<le> made + n * (k * 1000000000) \<Longrightarrow> now div 1000000000 div k \<le> made div 1000000000 div k + n"
    unfolding e [symmetric] using assms by (intro zdiv_mono1) simp_all
  show "made + n * (k * 1000000000) \<le> now \<Longrightarrow> made div 1000000000 div k + n \<le> now div 1000000000 div k"
    unfolding e [symmetric] using assms by (intro zdiv_mono1) simp_all
qed

text \<open>The hash of a window, and the windows in which a validation looks.\<close>

definition windowHash :: "valueType \<Rightarrow> 'o timeHash \<Rightarrow> goValue list \<Rightarrow> int \<Rightarrow> 'o" where
  "windowHash vt h args w = th_hasher h (fst (ParseValue vt (formatInt w))) (args @ [th_secret h])"

definition openWindows :: "'o timeHash \<Rightarrow> time \<Rightarrow> int set" where
  "openWindows h now = {windowOf h now - int (unat (th_backStepCount h)) .. windowOf h now}"

lemma HashWithTime_window: "HashWithTime vt h t args = windowHash vt h args (windowOf h t)"
  by (simp add: HashWithTime_def windowHash_def)

lemma validate_windows:
  assumes h: "th_stepInterval h = k * 1000000000" "0 < k" and n: "n = int (unat (th_backStepCount h))"
    and b: "n * (k * 1000000000) \<le> now" "n * (k * 1000000000) \<le> maxInt64"
  shows "hash_Validate vt h now expected args \<longleftrightarrow> (\<exists>w\<in>openWindows h now. windowHash vt h args w = expected)"
proof -
  have "0 \<le> n" by (simp add: n)
  then have zero: "timeAdd now (int64 (th_stepInterval h * - 0)) = now" by (simp add: timeAdd_def int64_def)
  have w: "windowOf h (timeAdd now (int64 (th_stepInterval h * - int i))) = windowOf h now - int i" if "int i \<le> n" for i
    using window_back [OF h that b] window_back [OF h \<open>0 \<le> n\<close> b order_refl, unfolded zero] by simp
  have "hash_Validate vt h now expected args
      \<longleftrightarrow> (\<exists>i. int i \<le> n \<and> windowHash vt h args (windowOf h (timeAdd now (int64 (th_stepInterval h * - int i)))) = expected)"
    unfolding hash_Validate_def ValidateWithCustomBackStepCount_def list_ex_iff HashWithTime_window n of_nat_le_iff
    by (simp add: Bex_def less_Suc_eq_le del: upt_Suc)
  also have "\<dots> \<longleftrightarrow> (\<exists>i. int i \<le> n \<and> windowHash vt h args (windowOf h now - int i) = expected)"
    using w by metis
  also have "\<dots> \<longleftrightarrow> (\<exists>w\<in>openWindows h now. windowHash vt h args w = expected)"
  proof
    assume "\<exists>w\<in>openWindows h now. windowHash vt h args w = expected"
    then obtain w where w: "windowOf h now - n \<le> w" "w \<le> windowOf h now" "windowHash vt h args w = expected"
      by (auto simp: openWindows_def n)
    then have "int (nat (windowOf h now - w)) \<le> n" "windowOf h now - int (nat (windowOf h now - w)) = w" by simp_all
    with w(3) show "\<exists>i. int i \<le> n \<and> windowHash vt h args (windowOf h now - int i) = expected" by metis
  qed (force simp: openWindows_def n)
  finally show ?thesis .
qed

lemma window_of_instant:
  assumes "th_stepInterval h = k * 1000000000" "0 < k" "0 \<le> t"
  shows "windowOf h t = t div 1000000000 div k"
  unfolding windowOf_def assms(1) go_div_seconds [OF assms(2)] using assms
  by (intro go_div_nonneg) (simp_all add: pos_imp_zdiv_nonneg_iff)

text \<open>
  C40. How long a time-bound hash is accepted. Take any hashing function and any type of data, an interval
  of whole seconds, clocks after the unix epoch that the configured number of steps back does not leave,
  and steps back whose length together fits 64 bits. Then a hash made at most that many intervals ago is
  accepted. One made in a window that is neither the current one nor one of the configured number before
  it is refused unless its hash is, by a collision, that of one of these windows; a hashing function of
  finitely many results has collisions, so the condition is only about the windows at hand. And a hash
  made that many intervals and one more ago was made in no such window.
\<close>

theorem accepted_in_window:
  assumes h: "th_stepInterval h = k * 1000000000" "0 < k" and n: "n = int (unat (th_backStepCount h))"
    and made: "0 \<le> made" and b: "n * (k * 1000000000) \<le> now" "n * (k * 1000000000) \<le> maxInt64"
  shows "(made \<le> now \<and> now - made \<le> n * (k * 1000000000)
       \<longrightarrow> hash_Validate vt h now (HashWithTime vt h made args) args)
    \<and> (windowOf h made \<notin> openWindows h now
         \<and> (\<forall>w\<in>openWindows h now. windowHash vt h args w \<noteq> windowHash vt h args (windowOf h made))
       \<longrightarrow> \<not> hash_Validate vt h now (HashWithTime vt h made args) args)
    \<and> (made + (n + 1) * (k * 1000000000) \<le> now \<longrightarrow> windowOf h made \<notin> openWindows h now)"
proof -
  have "0 \<le> n * (k * 1000000000)" using n h(2) by simp
  then have now: "0 \<le> now" using b(1) by linarith
  have open_windows: "openWindows h now = {windowOf h now - n .. windowOf h now}" by (simp add: openWindows_def n)
  note W = window_of_instant [OF h now] window_of_instant [OF h made]
  have "windowOf h made \<in> openWindows h now" if "made \<le> now" "now - made \<le> n * (k * 1000000000)"
    using windows_apart(1) [OF h(2), of now made n] windows_apart(2) [OF h(2), of made 0 now] that
    by (simp add: W open_windows)
  moreover have "windowOf h made \<notin> openWindows h now" if "made + (n + 1) * (k * 1000000000) \<le> now"
    using windows_apart(2) [OF h(2), of made "n + 1" now] that by (simp add: W open_windows)
  ultimately show ?thesis
    unfolding validate_windows [OF h n b] HashWithTime_window by blast
qed

definition goText :: "goValue \<Rightarrow> string" where
  "goText v = (case v of GoString s \<Rightarrow> s | _ \<Rightarrow> '''')"

text \<open>A helper over the package's own hash, with windows of a minute and one step back.\<close>

definition demoHash :: "int timeHash" where
  "demoHash = NewHash (\<lambda>x as. FNVStringToInt64 (goText x) (map goText as)) (GoString ''s'') 60000000000 1"

lemma demoHash_simps: "th_stepInterval demoHash = 60 * 1000000000" "unat (th_backStepCount demoHash) = 1"
  by (simp_all add: demoHash_def NewHash_def)

theorem accepted_in_window_witness:
  "hash_Validate stringType demoHash 900000000000 (HashWithTime stringType demoHash 845000000000 [GoString ''u'']) [GoString ''u'']
    \<and> \<not> hash_Validate stringType demoHash 900000000000 (HashWithTime stringType demoHash 780000000000 [GoString ''u'']) [GoString ''u'']"
proof -
  let ?u = "[GoString ''u'']"
  have "openWindows demoHash 900000000000 = {14, 15}" "windowOf demoHash 780000000000 = 13"
    by (auto simp: openWindows_def demoHash_simps windowOf_def)
  moreover have "windowHash stringType demoHash ?u 14 \<noteq> windowHash stringType demoHash ?u 13"
    "windowHash stringType demoHash ?u 15 \<noteq> windowHash stringType demoHash ?u 13"
    by code_simp+
  ultimately show ?thesis
    using accepted_in_window [OF demoHash_simps(1) _ refl, of 845000000000 900000000000 stringType ?u]
      accepted_in_window [OF demoHash_simps(1) _ refl, of 780000000000 900000000000 stringType ?u]
    by (simp add: demoHash_simps maxInt64_def)
qed

text \<open>Over strings the windows have different data, so that only the hashing function can confuse them.\<close>

lemma string_windows_differ:
  "fst (ParseValue stringType (formatInt v)) = fst (ParseValue stringType (formatInt w)) \<longleftrightarrow> v = w"
  by (simp add: inj_eq [OF inj_formatInt])

text \<open>
  The comment on \<open>HashWithTime\<close> says that its parse cannot fail. It does for a type the number of a window does
  not fit in: all such windows then have the hash of the zero value, and a hash is accepted for ever.
\<close>

lemma narrow_type_never_expires:
  assumes "vt_kind vt = KindInt bits" and "0 < bits"
    and "2 ^ (bits - 1) \<le> windowOf h made" and "2 ^ (bits - 1) \<le> windowOf h now"
  shows "hash_Validate vt h now (HashWithTime vt h made args) args"
proof -
  have "HashWithTime vt h now args = HashWithTime vt h made args"
    unfolding HashWithTime_def using ParseValue_too_large [OF assms(1,2)] assms(3,4) by simp
  moreover have "timeAdd now (int64 (th_stepInterval h * - int 0)) = now" by (simp add: timeAdd_def int64_def)
  ultimately show ?thesis
    unfolding hash_Validate_def ValidateWithCustomBackStepCount_def list_ex_iff by (intro bexI [of _ 0]) (simp, simp add: upt_conv_Cons del: upt_Suc)
qed

lemma named_string_never_expires:
  assumes "vt_kind vt = KindString" and "vt_named vt"
  shows "HashWithTime vt h t args = HashWithTime vt h u args"
  by (simp add: HashWithTime_def ParseValue_named_string [OF assms])

text \<open>With an interval that is no multiple of a second the windows are shorter than the steps taken back,
  and some are skipped: a hash made one second ago is refused though five intervals are allowed.\<close>

definition pairHash :: "duration \<Rightarrow> (goValue \<times> goValue list) timeHash" where
  "pairHash interval = NewHash (\<lambda>x as. (x, as)) (GoString ''secret'') interval 5"

lemma fractional_interval_skips:
  "\<not> hash_Validate stringType (pairHash 1500000000) 3000000000
      (HashWithTime stringType (pairHash 1500000000) 2000000000 []) []"
  by code_simp

text \<open>The package's own hash does not tell where one argument ends and the next begins.\<close>

lemma fnvWrite_append: "fnvWrite p h (s @ t) = fnvWrite p (fnvWrite p h s) t"
  by (simp add: fnvWrite_def)

lemma fnv_ignores_boundaries:
  assumes "concat (dat # args) = concat (dat' # args')"
  shows "FNVStringToInt64 dat args = FNVStringToInt64 dat' args'" "FNVStringToInt32 dat args = FNVStringToInt32 dat' args'"
proof -
  have f: "foldl (fnvWrite p) (fnvWrite p h d) as = fnvWrite p h (concat (d # as))"
    for p h :: "'a::len word" and d as
    by (induction as arbitrary: d) (simp_all flip: fnvWrite_append)
  show "FNVStringToInt64 dat args = FNVStringToInt64 dat' args'" "FNVStringToInt32 dat args = FNVStringToInt32 dat' args'"
    by (simp_all only: FNVStringToInt64_def FNVStringToInt32_def f assms)
qed

end
