(* ===== verification/Bit_Flags.thy ===== *)
theory Bit_Flags
  imports Prelude
begin

unbundle bit_operations_syntax

text \<open>
  Flags in an unsigned integer: lists of bit positions (\<open>yaflags/yaflags.go\<close>), and the boolean fields
  of a structure (\<open>yaautoflags/yaautoflags.go\<close>). The first package is generic in the integer, here a
  word of any width that a \<open>uint8\<close> can count. A structure is the list of its fields as reflection
  shows them, without embedded ones; a field whose name does not begin with a capital cannot be set,
  which is a panic, \<open>None\<close>.
\<close>

section \<open>Bit positions\<close>

datatype flagsError = ErrTooManyBits | ErrBitIndexOutOfRange

definition typeBitSize :: "'w::len itself \<Rightarrow> u8" where
  "typeBitSize t = of_nat LENGTH('w)"

fun packBits :: "u8 list \<Rightarrow> 'w::len word \<Rightarrow> flagsError + 'w word" where
  "packBits [] flags = Inr flags"
| "packBits (b # bs) flags =
     (if typeBitSize TYPE('w) \<le> b then Inl ErrBitIndexOutOfRange
      else packBits bs (flags OR push_bit (unat b) 1))"

definition PackBitIndexes :: "u8 list \<Rightarrow> flagsError + 'w::len word" where
  "PackBitIndexes bs =
     (if unat (typeBitSize TYPE('w)) < length bs then Inl ErrTooManyBits else packBits bs 0)"

definition UnpackBitIndexes :: "'w::len word \<Rightarrow> u8 list" where
  "UnpackBitIndexes flags =
     (if flags = 0 then []
      else filter (\<lambda>b. flags AND push_bit (unat b) 1 \<noteq> 0) (map of_nat [0..<unat (typeBitSize TYPE('w))]))"

lemma unat_of_u8: "n < 256 \<Longrightarrow> unat (of_nat n :: u8) = n"
  by (simp add: unsigned_of_nat take_bit_nat_eq_self)

lemma packBits_bits:
  assumes w: "LENGTH('w) < 256" and p: "packBits bs (flags :: 'w::len word) = Inr res"
  shows "(\<forall>b\<in>set bs. unat b < LENGTH('w)) \<and> (\<forall>n<LENGTH('w). bit res n \<longleftrightarrow> bit flags n \<or> (\<exists>b\<in>set bs. unat b = n))"
  using p
proof (induction bs arbitrary: flags)
  case (Cons b bs)
  have t: "unat (typeBitSize TYPE('w)) = LENGTH('w)" using w by (simp add: typeBitSize_def unat_of_u8)
  have b: "\<not> typeBitSize TYPE('w) \<le> b" and r: "packBits bs (flags OR push_bit (unat b) 1) = Inr res"
    using Cons.prems by (simp_all split: if_splits)
  have lt: "unat b < LENGTH('w)" using b t by (simp add: word_less_nat_alt word_le_nat_alt)
  then show ?case using Cons.IH [OF r] by (auto simp: bit_simps)
qed simp

lemma packBits_ok:
  assumes "LENGTH('w) < 256" and "\<forall>b\<in>set bs. unat b < LENGTH('w)"
  shows "\<exists>res. packBits bs (flags :: 'w::len word) = Inr res"
  using assms(2)
proof (induction bs arbitrary: flags)
  case (Cons b bs)
  have "\<not> typeBitSize TYPE('w) \<le> b"
    using Cons.prems assms(1) by (simp add: word_le_nat_alt typeBitSize_def unat_of_u8)
  then show ?case using Cons by simp
qed simp

lemma UnpackBitIndexes_eq:
  assumes "LENGTH('w) < 256"
  shows "UnpackBitIndexes (flags :: 'w::len word) = map of_nat (filter (bit flags) [0..<LENGTH('w)])"
proof (cases "flags = 0")
  case True
  then show ?thesis by (simp add: UnpackBitIndexes_def)
next
  case False
  have t: "unat (typeBitSize TYPE('w)) = LENGTH('w)" using assms by (simp add: typeBitSize_def unat_of_u8)
  have "filter (\<lambda>b. bit flags (unat b)) (map of_nat [0..<LENGTH('w)] :: u8 list)
      = map of_nat (filter (\<lambda>n. bit flags (unat (of_nat n :: u8))) [0..<LENGTH('w)])"
    by (simp add: filter_map comp_def)
  also have "filter (\<lambda>n. bit flags (unat (of_nat n :: u8))) [0..<LENGTH('w)] = filter (bit flags) [0..<LENGTH('w)]"
    using assms by (intro filter_cong) (simp_all add: unat_of_u8)
  finally show ?thesis
    by (simp only: UnpackBitIndexes_def t False if_False bit_iff_and_push_bit_not_eq_0)
qed

lemma unpacked_sorted:
  assumes "LENGTH('w) < 256"
  shows "UnpackBitIndexes (flags :: 'w::len word) = sorted_list_of_set {b. unat b < LENGTH('w) \<and> bit flags (unat b)}"
proof -
  let ?xs = "map of_nat (filter (bit flags) [0..<LENGTH('w)]) :: u8 list"
  have u: "unat (of_nat n :: u8) = n" if "n < LENGTH('w)" for n using that assms by (simp add: unat_of_u8)
  have "set ?xs = {b. unat b < LENGTH('w) \<and> bit flags (unat b)}"
  proof (intro set_eqI iffI)
    fix b :: u8
    assume "b \<in> {b. unat b < LENGTH('w) \<and> bit flags (unat b)}"
    then have "unat b \<in> set (filter (bit flags) [0..<LENGTH('w)])" by simp
    then have "of_nat (unat b) \<in> set ?xs" unfolding set_map by (rule imageI)
    then show "b \<in> set ?xs" by simp
  qed (auto simp: u)
  moreover have "sorted ?xs"
    unfolding sorted_map by (rule sorted_wrt_mono_rel [OF _ sorted_wrt_filter [OF sorted_upt]])
      (simp add: word_le_nat_alt u)
  moreover have "inj_on (of_nat :: nat \<Rightarrow> u8) (set (filter (bit flags) [0..<LENGTH('w)]))"
    by (rule inj_on_inverseI [where g = unat]) (simp add: u)
  then have "distinct ?xs" by (simp add: distinct_map)
  ultimately show ?thesis
    unfolding UnpackBitIndexes_eq [OF assms] by (metis sorted_list_of_set.idem_if_sorted_distinct)
qed

text \<open>
  Packing bit positions and unpacking them are inverse, for every unsigned type: packing succeeds
  exactly for as many positions as the type has bits, or fewer, all of them in range; unpacking then
  gives the positions in ascending order, each once; and every integer is packed from its positions.
\<close>

theorem pack_unpack_bits:
  assumes "LENGTH('w::len) < 256"
  shows "(case PackBitIndexes bs of
      Inr (flags :: 'w word) \<Rightarrow> UnpackBitIndexes flags = sorted_list_of_set (set bs)
    | Inl _ \<Rightarrow> LENGTH('w) < length bs \<or> (\<exists>b\<in>set bs. LENGTH('w) \<le> unat b))
    \<and> PackBitIndexes (UnpackBitIndexes (flags :: 'w word)) = Inr flags"
proof -
  have t: "unat (typeBitSize TYPE('w)) = LENGTH('w)" using assms by (simp add: typeBitSize_def unat_of_u8)
  have pack: "UnpackBitIndexes res = sorted_list_of_set (set bs)" if "packBits bs 0 = Inr (res :: 'w word)" for bs res
  proof -
    have "{b. unat b < LENGTH('w) \<and> bit res (unat b)} = set bs"
      using packBits_bits [OF assms that] by (auto dest: word_unat_eq_iff [THEN iffD2])
    then show ?thesis by (simp add: unpacked_sorted [OF assms])
  qed
  have one: "case PackBitIndexes bs of
      Inr (flags :: 'w word) \<Rightarrow> UnpackBitIndexes flags = sorted_list_of_set (set bs)
    | Inl _ \<Rightarrow> LENGTH('w) < length bs \<or> (\<exists>b\<in>set bs. LENGTH('w) \<le> unat b)"
  proof (cases "LENGTH('w) < length bs \<or> (\<exists>b\<in>set bs. LENGTH('w) \<le> unat b)")
    case True
    then show ?thesis using pack [of bs] by (auto simp: PackBitIndexes_def t split: sum.split)
  next
    case False
    then obtain res where "packBits bs 0 = Inr (res :: 'w word)"
      using packBits_ok [OF assms, of bs 0] by (auto simp: not_le)
    then show ?thesis using False pack [of bs res] by (simp add: PackBitIndexes_def t)
  qed
  let ?bs = "UnpackBitIndexes flags"
  have len: "length ?bs \<le> LENGTH('w)"
    using length_filter_le [of "bit flags" "[0..<LENGTH('w)]"] by (simp add: UnpackBitIndexes_eq [OF assms])
  have set: "set ?bs = {b. unat b < LENGTH('w) \<and> bit flags (unat b)}" by (simp add: unpacked_sorted [OF assms])
  then obtain res where res: "packBits ?bs 0 = Inr (res :: 'w word)"
    using packBits_ok [OF assms, of ?bs 0] by auto
  have "res = flags"
  proof (rule bit_word_eqI)
    fix n
    assume n: "n < LENGTH('w)"
    then have "unat (of_nat n :: u8) = n" using assms by (simp add: unat_of_u8)
    then have "(\<exists>b\<in>set ?bs. unat b = n) \<longleftrightarrow> bit flags n" using n unfolding set by (auto intro: exI [of _ "of_nat n :: u8"])
    then show "bit res n = bit flags n" using packBits_bits [OF assms res] n by simp
  qed
  then show ?thesis using one res len by (simp add: PackBitIndexes_def t not_less)
qed

theorem pack_unpack_bits_witness:
  "PackBitIndexes (UnpackBitIndexes (0xA5 :: 8 word)) = Inr (0xA5 :: 8 word)"
  using pack_unpack_bits [where 'w = 8 and flags = "0xA5"] by simp

section \<open>The boolean fields of a structure\<close>

datatype autoFlagsError =
    ErrInstanceNil | ErrInstanceNotStruct | ErrFlagsFieldNotFound | ErrFlagsFieldTypeMismatch | ErrTooManyFlags

datatype fieldValue = FBool bool | FUint nat u64 | FOther

type_synonym structField = "string \<times> fieldValue"

datatype flagsInstance = NilPointer | NotStruct | Struct "structField list"

definition flagsFieldName :: string where "flagsFieldName = ''Flags''"

text \<open>\<open>reflect.Value.SetBool\<close> panics on a field that is not exported.\<close>

definition exported :: "string \<Rightarrow> bool" where
  "exported name \<longleftrightarrow> name \<noteq> [] \<and> 65 \<le> (of_char (hd name) :: nat) \<and> (of_char (hd name) :: nat) \<le> 90"

record packState =
  pk_size :: u8
  pk_flags :: u64
  pk_next :: u8

text \<open>The loop of \<open>PackFlags\<close>. The size of the flags field, in bits, is zero until it is found.\<close>

fun packFields :: "structField list \<Rightarrow> packState \<Rightarrow> autoFlagsError + packState" where
  "packFields [] st = Inr st"
| "packFields ((name, v) # fs) st =
     (let st = (case v of
            FBool b \<Rightarrow> st\<lparr>pk_flags := (if b then pk_flags st OR push_bit (unat (pk_next st)) 1 else pk_flags st),
              pk_next := pk_next st + 1\<rparr>
          | _ \<Rightarrow> st)
      in if name = flagsFieldName then
           (case v of FUint n _ \<Rightarrow> packFields fs (st\<lparr>pk_size := of_nat n\<rparr>) | _ \<Rightarrow> Inl ErrFlagsFieldTypeMismatch)
         else packFields fs st)"

definition setFlags :: "u64 \<Rightarrow> structField list \<Rightarrow> structField list" where
  "setFlags flags fs =
     map (\<lambda>(name, v). (name, if name = flagsFieldName then
       (case v of FUint n _ \<Rightarrow> FUint n (take_bit n flags) | _ \<Rightarrow> v) else v)) fs"

definition PackFlags :: "flagsInstance \<Rightarrow> autoFlagsError + structField list" where
  "PackFlags inst =
     (case inst of
        NilPointer \<Rightarrow> Inl ErrInstanceNil
      | NotStruct \<Rightarrow> Inl ErrInstanceNotStruct
      | Struct fs \<Rightarrow>
          (case packFields fs \<lparr>pk_size = 0, pk_flags = 0, pk_next = 0\<rparr> of
             Inl e \<Rightarrow> Inl e
           | Inr st \<Rightarrow>
               if pk_size st = 0 then Inl ErrFlagsFieldNotFound
               else if pk_size st \<le> pk_next st then Inl ErrFlagsFieldNotFound
               else Inr (setFlags (pk_flags st) fs)))"

text \<open>The loop of \<open>UnpackFlags\<close>.\<close>

fun unpackFields :: "u64 \<Rightarrow> u8 \<Rightarrow> structField list \<Rightarrow> u8 \<Rightarrow> (autoFlagsError + structField list) option" where
  "unpackFields flags sz [] n = Some (Inr [])"
| "unpackFields flags sz ((name, v) # fs) n =
     (case v of
        FBool _ \<Rightarrow>
          if sz \<le> n then Some (Inl ErrTooManyFlags)
          else if \<not> exported name then None
          else map_option (map_sum id ((#) (name, FBool (drop_bit (unat n) flags AND 1 = 1))))
                 (unpackFields flags sz fs (n + 1))
      | _ \<Rightarrow> map_option (map_sum id ((#) (name, v))) (unpackFields flags sz fs n))"

definition UnpackFlags :: "flagsInstance \<Rightarrow> (autoFlagsError + structField list) option" where
  "UnpackFlags inst =
     (case inst of
        NilPointer \<Rightarrow> Some (Inl ErrInstanceNil)
      | NotStruct \<Rightarrow> Some (Inl ErrInstanceNotStruct)
      | Struct fs \<Rightarrow>
          (case map_of fs flagsFieldName of
             None \<Rightarrow> Some (Inl ErrFlagsFieldNotFound)
           | Some (FUint n flags) \<Rightarrow> unpackFields flags (of_nat n) fs 0
           | Some _ \<Rightarrow> Some (Inl ErrFlagsFieldTypeMismatch)))"

section \<open>Packing and unpacking a structure\<close>

fun boolsOf :: "structField list \<Rightarrow> bool list" where
  "boolsOf [] = []"
| "boolsOf ((_, FBool b) # fs) = b # boolsOf fs"
| "boolsOf ((_, FUint _ _) # fs) = boolsOf fs"
| "boolsOf ((_, FOther) # fs) = boolsOf fs"

lemma packFields_bits:
  assumes "packFields fs st = Inr st'" and "unat (pk_next st) + length (boolsOf fs) < 256"
  shows "unat (pk_next st') = unat (pk_next st) + length (boolsOf fs)
    \<and> (\<forall>j<64. bit (pk_flags st') j \<longleftrightarrow> bit (pk_flags st) j
        \<or> (unat (pk_next st) \<le> j \<and> j < unat (pk_next st) + length (boolsOf fs) \<and> boolsOf fs ! (j - unat (pk_next st))))"
  using assms
proof (induction fs st rule: packFields.induct)
  case (2 name v fs st)
  show ?case
  proof (cases v)
    case (FBool b)
    let ?st = "st\<lparr>pk_flags := (if b then pk_flags st OR push_bit (unat (pk_next st)) 1 else pk_flags st), pk_next := pk_next st + 1\<rparr>"
    have n: "unat (pk_next st + 1) = Suc (unat (pk_next st))"
      using 2(4) by (simp add: unat_word_ariths(1) FBool)
    have ne: "name \<noteq> flagsFieldName" using 2(3) by (auto simp: FBool Let_def)
    have p: "packFields fs ?st = Inr st'" using 2(3) ne by (simp add: FBool Let_def)
    have IH: "unat (pk_next st') = Suc (unat (pk_next st)) + length (boolsOf fs)
      \<and> (\<forall>j<64. bit (pk_flags st') j \<longleftrightarrow> bit (pk_flags ?st) j
        \<or> (Suc (unat (pk_next st)) \<le> j \<and> j < Suc (unat (pk_next st)) + length (boolsOf fs)
            \<and> boolsOf fs ! (j - Suc (unat (pk_next st)))))"
      using 2(2) [OF refl ne] p 2(4) n by (simp add: FBool)
    have "bit (pk_flags ?st) j \<longleftrightarrow> bit (pk_flags st) j \<or> (b \<and> j = unat (pk_next st))" if "j < 64" for j
      using that by (auto simp: bit_simps)
    then show ?thesis
      using IH by (auto simp: FBool nth_Cons' le_Suc_eq Suc_le_eq not_less_eq)
  next
    case (FUint n x)
    then show ?thesis using 2 by (simp split: if_splits)
  next
    case FOther
    then show ?thesis using 2 by (simp split: if_splits)
  qed
qed auto

lemma packFields_size:
  assumes "packFields fs st = Inr st'" and "distinct (map fst fs)"
  shows "(case map_of fs flagsFieldName of None \<Rightarrow> pk_size st' = pk_size st
    | Some (FUint n _) \<Rightarrow> pk_size st' = of_nat n | Some _ \<Rightarrow> False)"
  using assms
proof (induction fs st rule: packFields.induct)
  case (2 name v fs st)
  show ?case
  proof (cases "name = flagsFieldName")
    case True
    then have "map_of fs flagsFieldName = None" using 2(4) by (force simp: map_of_eq_None_iff)
    then show ?thesis using 2 True by (cases v) auto
  next
    case False
    then show ?thesis using 2 by (cases v) (simp_all cong: option.case_cong)
  qed
qed simp

text \<open>Structures that differ only in the values of their boolean fields.\<close>

definition sameField :: "structField \<Rightarrow> structField \<Rightarrow> bool" where
  "sameField f g \<longleftrightarrow> fst f = fst g \<and> (snd f = snd g \<or> (\<exists>a b. snd f = FBool a \<and> snd g = FBool b))"

definition settable :: "structField list \<Rightarrow> bool" where
  "settable fs \<longleftrightarrow> (\<forall>(name, v)\<in>set fs. (\<exists>b. v = FBool b) \<longrightarrow> exported name)"

lemma unpackFields_bits:
  assumes "list_all2 sameField fs gs" and "settable fs"
    and "unat n + length (boolsOf fs) \<le> unat sz"
    and "\<forall>i<length (boolsOf fs). bit flags (unat n + i) \<longleftrightarrow> boolsOf fs ! i"
  shows "unpackFields flags sz gs n = Some (Inr fs)"
  using assms
proof (induction fs gs arbitrary: n rule: list_all2_induct)
  case (Cons f fs g gs)
  obtain name v where f: "f = (name, v)" by (cases f)
  obtain w where g: "g = (name, w)" "v = w \<or> (\<exists>a b. v = FBool a \<and> w = FBool b)"
    using Cons.hyps(1) f by (cases g) (auto simp: sameField_def)
  have set: "settable fs" using Cons.prems(1) by (simp add: settable_def)
  show ?case
  proof (cases v)
    case (FBool b)
    obtain b' where w: "w = FBool b'" using g(2) FBool by auto
    have lt: "unat n < unat sz" using Cons.prems(2) by (simp add: f FBool)
    have "unat n + 1 < 2 ^ LENGTH(8)" using lt unsigned_less [of sz, where 'a = nat] by linarith
    then have n: "unat (n + 1) = Suc (unat n)" by (simp add: unat_word_ariths(1))
    have "unpackFields flags sz gs (n + 1) = Some (Inr fs)"
    proof (rule Cons.IH [OF set])
      show "unat (n + 1) + length (boolsOf fs) \<le> unat sz" using Cons.prems(2) n by (simp add: f FBool)
      show "\<forall>i<length (boolsOf fs). bit flags (unat (n + 1) + i) \<longleftrightarrow> boolsOf fs ! i"
        using Cons.prems(3) n by (auto simp: f FBool dest: spec [of _ "Suc _"])
    qed
    moreover have "exported name" using Cons.prems(1) by (simp add: settable_def f FBool)
    moreover have "drop_bit (unat n) flags AND 1 = 1 \<longleftrightarrow> b"
      using Cons.prems(3) by (auto simp: f FBool and_one_eq bit_iff_odd_drop_bit mod_2_eq_odd dest: spec [of _ 0])
    ultimately show ?thesis
      using lt by (simp add: f g(1) w FBool word_le_nat_alt)
  next
    case (FUint m x)
    then have "w = FUint m x" using g(2) by auto
    then show ?thesis using Cons.IH [OF set, of n] Cons.prems(2,3) FUint by (simp add: f g(1))
  next
    case FOther
    then have "w = FOther" using g(2) by auto
    then show ?thesis using Cons.IH [OF set, of n] Cons.prems(2,3) FOther by (simp add: f g(1))
  qed
qed simp

lemma boolsOf_set: "\<forall>b. (flagsFieldName, FBool b) \<notin> set fs \<Longrightarrow> boolsOf (setFlags flags fs) = boolsOf fs"
  by (induction fs rule: boolsOf.induct) (auto simp: setFlags_def split: fieldValue.split)

lemma settable_set: "settable fs \<Longrightarrow> settable (setFlags flags fs)"
proof (induction fs)
  case (Cons f fs)
  then show ?case by (cases f; cases "snd f") (auto simp: settable_def setFlags_def)
qed (simp add: setFlags_def)

lemma map_of_set: "map_of (setFlags flags fs) flagsFieldName =
    map_option (\<lambda>v. case v of FUint n _ \<Rightarrow> FUint n (take_bit n flags) | _ \<Rightarrow> v) (map_of fs flagsFieldName)"
  by (induction fs) (auto simp: setFlags_def split: fieldValue.split)

lemma map_of_same: "list_all2 sameField fs gs \<Longrightarrow> map_of fs name = Some (FUint n x) \<Longrightarrow> map_of gs name = Some (FUint n x)"
  by (induction fs gs rule: list_all2_induct) (auto simp: sameField_def split: if_splits)

text \<open>
  The boolean fields of a structure survive in its flags. When \<open>PackFlags\<close> succeeds, whatever
  becomes of the boolean fields afterwards, \<open>UnpackFlags\<close> restores every one of them, and nothing else
  changes. It does not succeed for as many boolean fields as the flags have bits, although
  \<open>UnpackFlags\<close> would.
\<close>

theorem pack_unpack_fields:
  assumes "PackFlags (Struct fs) = Inr fs'" and "list_all2 sameField fs' gs" and "settable fs"
    and "distinct (map fst fs)" and "length (boolsOf fs) < 256" and "map_of fs flagsFieldName = Some (FUint n x)"
    and "n \<le> 64"
  shows "UnpackFlags (Struct gs) = Some (Inr fs') \<and> length (boolsOf fs) < n"
proof -
  obtain st where st: "packFields fs \<lparr>pk_size = 0, pk_flags = 0, pk_next = 0\<rparr> = Inr st"
      "\<not> pk_size st \<le> pk_next st" "fs' = setFlags (pk_flags st) fs"
    using assms(1) by (auto simp: PackFlags_def split: sum.splits if_splits)
  have bits: "unat (pk_next st) = length (boolsOf fs)"
      "\<And>j. j < 64 \<Longrightarrow> bit (pk_flags st) j \<longleftrightarrow> j < length (boolsOf fs) \<and> boolsOf fs ! j"
    using packFields_bits [OF st(1)] assms(5) by simp_all
  have "pk_size st = of_nat n" using packFields_size [OF st(1) assms(4)] assms(6) by simp
  moreover have n: "unat (of_nat n :: u8) = n" using assms(7) by (simp add: unat_of_u8)
  ultimately have len: "length (boolsOf fs) < n" using st(2) bits(1) by (simp add: word_le_nat_alt)
  have nb: "\<forall>b. (flagsFieldName, FBool b) \<notin> set fs"
    using assms(4,6) by (metis fieldValue.distinct(1) map_of_is_SomeI option.inject)
  then have b': "boolsOf fs' = boolsOf fs" by (simp add: st(3) boolsOf_set)
  have "map_of gs flagsFieldName = Some (FUint n (take_bit n (pk_flags st)))"
    using map_of_set [of "pk_flags st" fs] assms(6) by (intro map_of_same [OF assms(2)]) (simp add: st(3))
  moreover have "unpackFields (take_bit n (pk_flags st)) (of_nat n) gs 0 = Some (Inr fs')"
  proof (rule unpackFields_bits [OF assms(2)])
    show "settable fs'" unfolding st(3) using assms(3) by (rule settable_set)
    show "unat (0 :: u8) + length (boolsOf fs') \<le> unat (of_nat n :: u8)" using len n b' by simp
    show "\<forall>i<length (boolsOf fs'). bit (take_bit n (pk_flags st)) (unat (0 :: u8) + i) \<longleftrightarrow> boolsOf fs' ! i"
      using len bits(2) assms(7) b' by (simp add: bit_take_bit_iff)
  qed
  ultimately show ?thesis using len by (simp add: UnpackFlags_def)
qed

theorem pack_unpack_fields_witness:
  "UnpackFlags (Struct [(''A'', FBool False), (''Flags'', FUint 8 2), (''B'', FBool False)])
    = Some (Inr [(''A'', FBool False), (''Flags'', FUint 8 2), (''B'', FBool True)])"
proof -
  let ?fs = "[(''A'', FBool False), (''Flags'', FUint 8 0), (''B'', FBool True)]"
  have "PackFlags (Struct ?fs) = Inr [(''A'', FBool False), (''Flags'', FUint 8 2), (''B'', FBool True)]"
    by code_simp
  moreover have "settable ?fs" by (simp add: settable_def exported_def)
  ultimately show ?thesis
    using pack_unpack_fields [of ?fs _ "[(''A'', FBool False), (''Flags'', FUint 8 2), (''B'', FBool False)]" 8 0]
    by (simp add: sameField_def flagsFieldName_def ex_bool_eq)
qed

end
