(* ===== verification/Float_Double.thy ===== *)
theory Float_Double
  imports Prelude "HOL-Library.Log_Nat"
begin

text \<open>
  The part of Go's \<open>float64\<close> that \<open>yabackoff\<close> uses: finite numbers \<open>m * 2 ^ e\<close>, the conversion of
  an integer, the product rounded to 53 bits with ties to even, comparison, and the conversion to a
  \<open>time.Duration\<close>, which truncates and for a number that does not fit is whatever the implementation
  makes of it (the argument \<open>wild\<close>). The range of the exponent is not bounded: a product that IEEE 754
  rounds to infinity or to a subnormal number is converted to a duration that does not fit, or to zero,
  in either reading.
\<close>

type_synonym f64 = "int \<times> int"

definition round53 :: "f64 \<Rightarrow> f64" where
  "round53 x =
     (let (m, e) = x;
          s = nat (bitlen \<bar>m\<bar> - 53);
          q = \<bar>m\<bar> div 2 ^ s;
          r = \<bar>m\<bar> mod 2 ^ s
      in if s = 0 then (m, e)
         else (sgn m * (if 2 * r > 2 ^ s \<or> 2 * r = 2 ^ s \<and> odd q then q + 1 else q), e + int s))"

definition f64_of_int :: "int \<Rightarrow> f64" where
  "f64_of_int i = round53 (i, 0)"

definition f64_mul :: "f64 \<Rightarrow> f64 \<Rightarrow> f64" where
  "f64_mul x y = round53 (fst x * fst y, snd x + snd y)"

definition f64_le :: "f64 \<Rightarrow> f64 \<Rightarrow> bool" where
  "f64_le x y =
     (if snd x \<le> snd y then fst x \<le> fst y * 2 ^ nat (snd y - snd x)
      else fst x * 2 ^ nat (snd x - snd y) \<le> fst y)"

definition f64_trunc :: "f64 \<Rightarrow> int" where
  "f64_trunc x = (if 0 \<le> snd x then fst x * 2 ^ nat (snd x) else go_div (fst x) (2 ^ nat (- snd x)))"

definition f64_to_int64 :: "(f64 \<Rightarrow> int) \<Rightarrow> f64 \<Rightarrow> int" where
  "f64_to_int64 wild x = (if in_int64 (f64_trunc x) then f64_trunc x else wild x)"

section \<open>Bounds by whole numbers\<close>

text \<open>A whole number is exact up to \<open>2 ^ 53\<close>.\<close>

lemma bitlen_le: "0 \<le> a \<Longrightarrow> a < 2 ^ n \<Longrightarrow> bitlen a \<le> int n"
  using bitlen_le_iff_power [of a n] by simp

lemma round53_small: "\<bar>m\<bar> < 2 ^ 53 \<Longrightarrow> round53 (m, e) = (m, e)"
  using bitlen_le [of "\<bar>m\<bar>" 53] by (simp add: round53_def)

lemma f64_of_int_exact: "\<bar>i\<bar> < 2 ^ 53 \<Longrightarrow> f64_of_int i = (i, 0)"
  by (simp add: f64_of_int_def round53_small)

lemma le_div_iff: "0 < b \<Longrightarrow> k \<le> m div b \<longleftrightarrow> k * b \<le> m" for k m b :: int
proof
  assume "0 < b" and "k \<le> m div b"
  then have "k * b \<le> m div b * b" by (simp add: mult_right_mono)
  also have "\<dots> \<le> m" using div_mult_mod_eq [of m b] pos_mod_sign [OF \<open>0 < b\<close>, of m] by linarith
  finally show "k * b \<le> m" .
next
  assume "0 < b" and "k * b \<le> m"
  then show "k \<le> m div b" using zdiv_mono1 [of "k * b" m b] by simp
qed

lemma pow_split: "a = b + c \<Longrightarrow> (2::int) ^ a = 2 ^ b * 2 ^ c"
  by (simp add: power_add)

lemma f64_trunc_ge:
  assumes "0 < m" and "f64_le (k, 0) (m, e)"
  shows "k \<le> f64_trunc (m, e)"
  using assms by (auto simp: f64_le_def f64_trunc_def le_div_iff split: if_splits)

lemma f64_trunc_le:
  assumes "0 < m" and "f64_le (m, e) (k, 0)"
  shows "f64_trunc (m, e) \<le> k"
proof (cases "0 \<le> e")
  case False
  then have "m \<le> k * 2 ^ nat (- e)" using assms(2) by (simp add: f64_le_def)
  then have "m div 2 ^ nat (- e) \<le> k * 2 ^ nat (- e) div 2 ^ nat (- e)" by (intro zdiv_mono1) simp_all
  then show ?thesis using False assms(1) by (simp add: f64_trunc_def)
qed (use assms(2) in \<open>auto simp: f64_le_def f64_trunc_def split: if_splits\<close>)

lemma f64_trunc_pos: "0 < m \<Longrightarrow> 0 \<le> f64_trunc (m, e)"
  by (rule f64_trunc_ge) (simp_all add: f64_le_def)

text \<open>How a number of more than 53 bits is rounded.\<close>

lemma round53_cases:
  assumes m: "0 < m"
  obtains (same) "round53 (m, e) = (m, e)"
  | (rounded) s q q' where "0 < s" "round53 (m, e) = (q', e + int s)" "q = m div 2 ^ s" "2 ^ 52 \<le> q"
      "q \<le> q'" "q' \<le> q + 1" "q' = q \<or> q * 2 ^ s < m"
proof -
  define s where "s = nat (bitlen m - 53)"
  define q where "q = m div 2 ^ s"
  define r where "r = m mod 2 ^ s"
  show thesis
  proof (cases "s = 0")
    case True
    then show thesis using m same by (simp add: round53_def s_def)
  next
    case False
    have "(2::int) ^ (52 + s) \<le> m"
      using bitlen_bounds [OF m] False by (auto simp: s_def nat_add_distrib [symmetric] intro: order_trans [rotated])
    then have q: "2 ^ 52 \<le> q"
      unfolding q_def by (subst le_div_iff) (simp_all add: power_add)
    have mq: "m = q * 2 ^ s + r" unfolding q_def r_def by (rule div_mult_mod_eq [symmetric])
    define q' where "q' = (if 2 * r > 2 ^ s \<or> 2 * r = 2 ^ s \<and> odd q then q + 1 else q)"
    have "round53 (m, e) = (q', e + int s)"
      using m False by (simp add: round53_def Let_def s_def q_def r_def q'_def)
    moreover have "q' = q \<or> q * 2 ^ s < m"
      using mq by (auto simp: q'_def) (smt (verit) zero_less_power)+
    ultimately show thesis
      using rounded [of s q' q] False q by (simp add: q_def) (simp add: q'_def q_def)
  qed
qed

lemma round53_ge:
  assumes m: "0 < m" and k: "0 \<le> k" "k \<le> 2 ^ 53" and le: "f64_le (k, 0) (m, e)"
  shows "f64_le (k, 0) (round53 (m, e)) \<and> 0 < fst (round53 (m, e))"
  using m
proof (cases rule: round53_cases [of m e])
  case same
  then show ?thesis using le m by simp
next
  case (rounded s q q')
  have "k \<le> q' * 2 ^ nat (e + int s)" if "0 < e + int s"
  proof -
    have "(2::int) ^ 52 * 2 ^ 1 \<le> q' * 2 ^ nat (e + int s)"
      using rounded that by (intro mult_mono power_increasing) simp_all
    then show ?thesis using k by simp
  qed
  moreover have "k * 2 ^ nat (- (e + int s)) \<le> q'" if "e + int s \<le> 0"
  proof -
    have "k * 2 ^ nat (- e) \<le> m" using le rounded(1) that by (simp add: f64_le_def split: if_splits)
    moreover have "nat (- e) = nat (- (e + int s)) + s" using that by simp
    ultimately have "k * 2 ^ nat (- (e + int s)) * 2 ^ s \<le> m" by (simp add: power_add mult.assoc)
    then have "k * 2 ^ nat (- (e + int s)) \<le> q" unfolding rounded(3) by (subst le_div_iff) simp_all
    then show ?thesis using rounded(5) by simp
  qed
  moreover have "0 < q'" using rounded(4,5) by simp
  ultimately show ?thesis
    unfolding rounded(2) by (cases "0 < e + int s") (auto simp: f64_le_def)
qed

lemma round53_le:
  assumes m: "0 < m" and le: "f64_le (m, e) (2 ^ n, 0)"
  shows "f64_le (round53 (m, e)) (2 ^ n, 0)"
  using m
proof (cases rule: round53_cases [of m e])
  case same
  then show ?thesis using le by simp
next
  case (rounded s q q')
  have top: "m * 2 ^ nat e \<le> 2 ^ n * 2 ^ nat (- e)"
    using le by (simp add: f64_le_def split: if_splits)
  have "q * 2 ^ s \<le> m" using le_div_iff [of "2 ^ s" q m] rounded(3) by simp
  then have "q * 2 ^ s * 2 ^ nat e \<le> 2 ^ n * 2 ^ nat (- e)"
    by (rule order_trans [OF mult_right_mono top]) simp
  then have "q * (2 ^ s * 2 ^ nat e) \<le> 2 ^ n * 2 ^ nat (- e)" by (simp add: mult.assoc)
  moreover have "(2::int) ^ 52 * (2 ^ s * 2 ^ nat e) \<le> q * (2 ^ s * 2 ^ nat e)"
    by (rule mult_right_mono [OF rounded(4)]) simp
  ultimately have "(2::int) ^ 52 * (2 ^ s * 2 ^ nat e) \<le> 2 ^ n * 2 ^ nat (- e)"
    by (rule order_trans [rotated])
  then have "(2::int) ^ (52 + s + nat e) \<le> 2 ^ (n + nat (- e))"
    by (simp add: power_add mult.assoc)
  then have "52 + s + nat e \<le> n + nat (- e)" by simp
  then have E: "e + int s \<le> int n" by linarith
  define K where "K = (2::int) ^ nat (int n - (e + int s))"
  have K: "K * 2 ^ s * 2 ^ nat e = 2 ^ n * 2 ^ nat (- e)"
    unfolding K_def power_add [symmetric] using E by (intro arg_cong [where f = "\<lambda>x. 2 ^ x"]) linarith
  have mK: "m \<le> K * 2 ^ s"
    using top unfolding K [symmetric] by simp
  have "q' \<le> K"
  proof (cases "q < K")
    case False
    then have "K * 2 ^ s \<le> q * 2 ^ s" by simp
    then have "q * 2 ^ s = K * 2 ^ s" "\<not> q * 2 ^ s < m" using mK \<open>q * 2 ^ s \<le> m\<close> by linarith+
    then have "q = K" "\<not> q * 2 ^ s < m" by simp_all
    then show ?thesis using rounded(7) by simp
  qed (use rounded(6) in simp)
  then have "q' * 2 ^ nat (e + int s) \<le> K * 2 ^ nat (e + int s)" by (intro mult_right_mono) simp_all
  moreover have "K * 2 ^ nat (e + int s) = 2 ^ n * 2 ^ nat (- (e + int s))"
    unfolding K_def power_add [symmetric] using E by (intro arg_cong [where f = "\<lambda>x. 2 ^ x"]) linarith
  ultimately show ?thesis
    using rounded(2) by (auto simp: f64_le_def split: if_splits)
qed

end
