(* ===== verification/Backoff.thy ===== *)
theory Backoff
  imports Float_Double
begin

text \<open>
  The exponential back-off (\<open>yabackoff/exponential.go\<close>, \<open>yabackoff.go\<close>). A call that reads the clock
  takes its readings as arguments, and \<open>wild\<close> is what the implementation makes of a \<open>float64\<close> that
  no \<open>time.Duration\<close> holds. \<open>Wait\<close> is \<open>Next\<close> followed by a sleep of the delay.
\<close>

record exponential =
  bo_initialInterval :: duration
  bo_multiplier :: f64
  bo_maxInterval :: duration
  bo_currentInterval :: duration
  bo_lastWaitEnd :: time
  bo_resetAfter :: duration

definition DefaultInitialInterval :: duration where "DefaultInitialInterval = 500000000"
definition DefaultMultiplier :: f64 where "DefaultMultiplier = (3, -1)"
definition DefaultMaxInterval :: duration where "DefaultMaxInterval = 60000000000"

definition NewExponential :: "duration \<Rightarrow> f64 \<Rightarrow> duration \<Rightarrow> duration \<Rightarrow> exponential" where
  "NewExponential initial mult maxi resetAfter =
     \<lparr>bo_initialInterval = initial, bo_multiplier = mult, bo_maxInterval = maxi, bo_currentInterval = 0,
      bo_lastWaitEnd = zeroTime, bo_resetAfter = resetAfter\<rparr>"

definition bo_Reset :: "exponential \<Rightarrow> exponential" where
  "bo_Reset e = e\<lparr>bo_currentInterval := 0, bo_lastWaitEnd := zeroTime\<rparr>"

definition safety :: "exponential \<Rightarrow> exponential" where
  "safety e =
     e\<lparr>bo_initialInterval := (if bo_initialInterval e = 0 then DefaultInitialInterval else bo_initialInterval e),
       bo_maxInterval := (if bo_maxInterval e = 0 then DefaultMaxInterval else bo_maxInterval e),
       bo_multiplier := (if fst (bo_multiplier e) = 0 then DefaultMultiplier else bo_multiplier e)\<rparr>"

definition autoReset :: "time \<Rightarrow> exponential \<Rightarrow> exponential" where
  "autoReset now e =
     (if bo_resetAfter e = 0 then e
      else if bo_currentInterval e \<noteq> bo_initialInterval e \<and> bo_resetAfter e \<le> timeSub now (bo_lastWaitEnd e)
      then bo_Reset e else e)"

definition incrementCurrentInterval :: "(f64 \<Rightarrow> int) \<Rightarrow> time \<Rightarrow> time \<Rightarrow> exponential \<Rightarrow> exponential" where
  "incrementCurrentInterval wild now now' e =
     (let e = autoReset now e;
          cur = bo_currentInterval e;
          delay =
            (if cur = 0 then bo_initialInterval e
             else if f64_le (f64_of_int (bo_maxInterval e)) (f64_of_int cur) then bo_maxInterval e
             else min (f64_to_int64 wild (f64_mul (f64_of_int cur) (bo_multiplier e))) (bo_maxInterval e))
      in e\<lparr>bo_currentInterval := delay, bo_lastWaitEnd := timeAdd now' delay\<rparr>)"

definition bo_Next :: "(f64 \<Rightarrow> int) \<Rightarrow> time \<Rightarrow> time \<Rightarrow> exponential \<Rightarrow> duration \<times> exponential" where
  "bo_Next wild now now' e =
     (let e = incrementCurrentInterval wild now now' (safety e) in (bo_currentInterval e, e))"

definition Current :: "exponential \<Rightarrow> duration \<times> exponential" where
  "Current e =
     (if bo_currentInterval e = 0 then (let e = safety e in (bo_initialInterval e, e)) else (bo_currentInterval e, e))"

section \<open>One delay\<close>

text \<open>
  Settings that are free of surprises: the first delay is positive and not above the cap, the cap is
  at most \<open>2 ^ 52\<close> nanoseconds, 52 days, and the multiplier is between 1 and 1024.
\<close>

definition sane :: "exponential \<Rightarrow> bool" where
  "sane e \<longleftrightarrow> 0 < bo_initialInterval e \<and> bo_initialInterval e \<le> bo_maxInterval e \<and> bo_maxInterval e \<le> 2 ^ 52
     \<and> 0 < fst (bo_multiplier e) \<and> f64_le (1, 0) (bo_multiplier e) \<and> f64_le (bo_multiplier e) (1024, 0)"

definition bo_ok :: "exponential \<Rightarrow> bool" where
  "bo_ok e \<longleftrightarrow> sane e \<and> (bo_currentInterval e = 0
     \<or> bo_initialInterval e \<le> bo_currentInterval e \<and> bo_currentInterval e \<le> bo_maxInterval e)"

lemma scaled_ge:
  assumes "0 \<le> a" and "0 < c" and "2 * k \<le> a * c" and "f64_le (a, -1) (mm, me)"
  shows "f64_le (k, 0) (c * mm, me)"
proof (cases "-1 \<le> me")
  case True
  then have a: "a \<le> mm * 2 ^ nat (me + 1)" using assms(4) by (simp add: f64_le_def add.commute)
  have "a * c \<le> mm * 2 ^ nat (me + 1) * c"
    using a assms(2) by (intro mult_right_mono) simp_all
  then have k: "2 * k \<le> c * (mm * 2 ^ nat (me + 1))" using assms(3) by (simp add: mult.commute mult.left_commute)
  show ?thesis
  proof (cases "0 \<le> me")
    case True
    then have "nat (me + 1) = Suc (nat me)" by simp
    then show ?thesis using k True by (simp add: f64_le_def mult.assoc)
  next
    case False
    then have "me = -1" using \<open>-1 \<le> me\<close> by simp
    then show ?thesis using k by (simp add: f64_le_def)
  qed
next
  case False
  then have a: "a * 2 ^ nat (- 1 - me) \<le> mm" using assms(4) by (simp add: f64_le_def)
  have "2 * k * 2 ^ nat (- 1 - me) \<le> a * c * 2 ^ nat (- 1 - me)"
    using assms(3) by (intro mult_right_mono) simp_all
  also have "\<dots> = c * (a * 2 ^ nat (- 1 - me))" by simp
  also have "\<dots> \<le> c * mm" using a assms(2) by (intro mult_left_mono) simp_all
  finally have "2 * k * 2 ^ nat (- 1 - me) \<le> c * mm" .
  moreover have "nat (- me) = Suc (nat (- 1 - me))" using False by simp
  ultimately show ?thesis using False by (simp add: f64_le_def mult.commute mult.left_commute)
qed

lemma f64_le_half: "f64_le (1, 0) x \<Longrightarrow> f64_le (2, -1) x"
proof -
  assume h: "f64_le (1, 0) x"
  obtain m e where x: "x = (m, e)" by (cases x)
  consider "0 \<le> e" | "e = -1" | "e < -1" by linarith
  then show "f64_le (2, -1) x"
  proof cases
    case 1
    then have "nat (e + 1) = Suc (nat e)" by simp
    then show ?thesis using h 1 by (simp add: x f64_le_def add.commute)
  next
    case 2
    then show ?thesis using h by (simp add: x f64_le_def)
  next
    case 3
    then have "nat (- e) = Suc (nat (- 1 - e))" by simp
    then show ?thesis using h 3 by (simp add: x f64_le_def mult.commute)
  qed
qed

lemma scaled_le:
  assumes "0 < c" and "c \<le> 2 ^ 52" and "0 < mm" and "f64_le (mm, me) (1024, 0)"
  shows "f64_le (c * mm, me) (2 ^ 62, 0)"
proof (cases "0 \<le> me")
  case True
  then have "mm * 2 ^ nat me \<le> 1024" using assms(4) by (auto simp: f64_le_def split: if_splits)
  then have "c * (mm * 2 ^ nat me) \<le> 2 ^ 52 * 1024"
    using assms by (intro mult_mono) simp_all
  then show ?thesis using True by (auto simp: f64_le_def mult.assoc)
next
  case False
  then have "mm \<le> 1024 * 2 ^ nat (- me)" using assms(4) by (simp add: f64_le_def)
  then have "c * mm \<le> 2 ^ 52 * (1024 * 2 ^ nat (- me))"
    using assms by (intro mult_mono) simp_all
  then show ?thesis using False by (simp add: f64_le_def)
qed

text \<open>The product of a delay and the multiplier fits, and is not below any whole number up to its
  exact value.\<close>

lemma product_fits:
  assumes "0 < c" and "c \<le> 2 ^ 52" and mult: "0 < fst x" "f64_le (1, 0) x" "f64_le x (1024, 0)"
    and k: "0 \<le> a" "f64_le (a, -1) x" "2 * k \<le> a * c" "0 \<le> k" "k \<le> 2 ^ 53"
  shows "k \<le> f64_to_int64 wild (f64_mul (f64_of_int c) x)"
proof -
  obtain mm me where x: "x = (mm, me)" by (cases x)
  have m: "0 < c * mm" using assms(1) mult(1) by (simp add: x)
  have p: "f64_mul (f64_of_int c) x = round53 (c * mm, me)"
    using assms(1,2) by (simp add: f64_mul_def f64_of_int_exact x)
  obtain m' e' where r: "round53 (c * mm, me) = (m', e')" by (cases "round53 (c * mm, me)")
  have ge: "f64_le (k, 0) (m', e') \<and> 0 < m'"
    using round53_ge [OF m k(4,5) scaled_ge [OF k(1) assms(1) k(3) k(2) [unfolded x]]] by (simp add: r)
  have "f64_le (m', e') (2 ^ 62, 0)"
    using round53_le [OF m scaled_le [OF assms(1,2), of mm me]] mult(1,3) by (simp add: x r)
  then have "f64_trunc (m', e') \<le> 2 ^ 62" and "0 \<le> f64_trunc (m', e')"
    using f64_trunc_le f64_trunc_pos ge by blast+
  then have "in_int64 (f64_trunc (m', e'))"
    by (intro in_int64I) (simp_all add: maxInt64_def)
  then show ?thesis
    using f64_trunc_ge ge by (simp add: p r f64_to_int64_def)
qed


lemma safety_sane [simp]: "sane e \<Longrightarrow> safety e = e"
  by (auto simp: safety_def sane_def)

lemma cap_reached_iff:
  assumes "sane e" and "0 \<le> c" and "c \<le> bo_maxInterval e"
  shows "f64_le (f64_of_int (bo_maxInterval e)) (f64_of_int c) \<longleftrightarrow> c = bo_maxInterval e"
  using assms by (simp add: sane_def f64_of_int_exact f64_le_def) linarith

text \<open>What one call returns: the first delay when the back-off is fresh or was idle for long enough,
  otherwise the last one times the multiplier, up to the cap.\<close>

definition idle :: "time \<Rightarrow> exponential \<Rightarrow> bool" where
  "idle now e \<longleftrightarrow> bo_resetAfter e \<noteq> 0 \<and> bo_currentInterval e \<noteq> bo_initialInterval e
     \<and> bo_resetAfter e \<le> timeSub now (bo_lastWaitEnd e)"

lemma next_delay:
  assumes ok: "bo_ok e"
  defines "c \<equiv> bo_currentInterval e"
  shows "bo_Next wild now now' e =
    (let d = (if c = 0 \<or> idle now e then bo_initialInterval e
              else min (f64_to_int64 wild (f64_mul (f64_of_int c) (bo_multiplier e))) (bo_maxInterval e))
     in (d, e\<lparr>bo_currentInterval := d, bo_lastWaitEnd := timeAdd now' d\<rparr>))"
proof -
  have s: "sane e" using ok by (simp add: bo_ok_def)
  have capped: "bo_maxInterval e = min (f64_to_int64 wild (f64_mul (f64_of_int c) (bo_multiplier e))) (bo_maxInterval e)"
    if "c = bo_maxInterval e"
  proof -
    have "c \<le> f64_to_int64 wild (f64_mul (f64_of_int c) (bo_multiplier e))"
      using s that by (intro product_fits [where a = 2]) (auto simp: sane_def f64_le_half)
    then show ?thesis using that by simp
  qed
  have range: "c = 0 \<or> 0 \<le> c \<and> c \<le> bo_maxInterval e"
    using ok by (auto simp: bo_ok_def sane_def c_def)
  show ?thesis
  proof (cases "c = 0 \<or> idle now e")
    case True
    then show ?thesis
      using s by (auto simp: bo_Next_def incrementCurrentInterval_def autoReset_def idle_def bo_Reset_def c_def Let_def)
  next
    case False
    then have "autoReset now e = e" by (auto simp: autoReset_def idle_def)
    then show ?thesis
      using False range capped cap_reached_iff [OF s, of c] s
      by (auto simp: bo_Next_def incrementCurrentInterval_def Let_def simp flip: c_def)
  qed
qed

lemma next_ok:
  assumes ok: "bo_ok e" and n: "bo_Next wild now now' e = (d, e')"
  shows "bo_ok e' \<and> bo_currentInterval e' = d \<and> bo_initialInterval e \<le> d \<and> d \<le> bo_maxInterval e
    \<and> (idle now e \<or> bo_currentInterval e \<le> d)
    \<and> bo_initialInterval e' = bo_initialInterval e \<and> bo_maxInterval e' = bo_maxInterval e
    \<and> bo_multiplier e' = bo_multiplier e \<and> bo_resetAfter e' = bo_resetAfter e"
proof -
  let ?c = "bo_currentInterval e"
  have s: "sane e" using ok by (simp add: bo_ok_def)
  have "?c \<le> f64_to_int64 wild (f64_mul (f64_of_int ?c) (bo_multiplier e))" if "?c \<noteq> 0"
    using ok that by (intro product_fits [where a = 2]) (auto simp: bo_ok_def sane_def f64_le_half)
  then show ?thesis
    using n ok s unfolding next_delay [OF ok] by (auto simp: bo_ok_def sane_def Let_def split: if_splits)
qed

lemma next_grows:
  assumes ok: "bo_ok e" and n: "bo_Next wild now now' e = (d, e')" and c: "bo_currentInterval e \<noteq> 0"
    and "bo_resetAfter e = 0" and i: "2 \<le> bo_initialInterval e" and f: "f64_le (3, -1) (bo_multiplier e)"
  shows "bo_currentInterval e \<le> d \<and> (d = bo_maxInterval e \<or> 5 * bo_currentInterval e \<le> 4 * d)"
proof -
  let ?c = "bo_currentInterval e"
  have c2: "2 \<le> ?c" "?c \<le> 2 ^ 52" using ok c i by (auto simp: bo_ok_def sane_def)
  have "(5 * ?c + 3) div 4 \<le> f64_to_int64 wild (f64_mul (f64_of_int ?c) (bo_multiplier e))"
    using ok c2 f by (intro product_fits [where a = 3]) (simp_all add: bo_ok_def sane_def, linarith?)
  moreover have "d = min (f64_to_int64 wild (f64_mul (f64_of_int ?c) (bo_multiplier e))) (bo_maxInterval e)"
    using n c assms(4) unfolding next_delay [OF ok] by (simp add: idle_def Let_def)
  moreover have "?c \<le> bo_maxInterval e" using ok c by (auto simp: bo_ok_def)
  ultimately show ?thesis using c2 by linarith
qed

section \<open>Sequences of delays\<close>

fun delays :: "(f64 \<Rightarrow> int) \<Rightarrow> (time \<times> time) list \<Rightarrow> exponential \<Rightarrow> duration list" where
  "delays wild [] e = []"
| "delays wild ((now, now') # clocks) e = (let (d, e') = bo_Next wild now now' e in d # delays wild clocks e')"

lemma delays_range:
  "bo_ok e \<Longrightarrow> \<forall>d \<in> set (delays wild clocks e). bo_initialInterval e \<le> d \<and> d \<le> bo_maxInterval e"
proof (induction wild clocks e rule: delays.induct)
  case (2 wild now now' clocks e)
  obtain d e' where n: "bo_Next wild now now' e = (d, e')" by (cases "bo_Next wild now now' e")
  show ?case
    using "2.IH" [OF n [symmetric] refl] next_ok [OF "2.prems" n] by (simp add: n)
qed simp

lemma length_delays [simp]: "length (delays wild clocks e) = length clocks"
  by (induction wild clocks e rule: delays.induct) (auto split: prod.splits)

lemma delays_sorted:
  assumes "bo_ok e" and "bo_resetAfter e = 0"
  shows "sorted (delays wild clocks e) \<and> (\<forall>d \<in> set (delays wild clocks e). bo_currentInterval e \<le> d)"
  using assms
proof (induction wild clocks e rule: delays.induct)
  case (2 wild now now' clocks e)
  obtain d e' where n: "bo_Next wild now now' e = (d, e')" by (cases "bo_Next wild now now' e")
  have k: "bo_ok e'" "bo_currentInterval e' = d" "bo_resetAfter e' = 0"
    using next_ok [OF "2.prems"(1) n] "2.prems"(2) by simp_all
  have "bo_currentInterval e \<le> d"
    using next_ok [OF "2.prems"(1) n] "2.prems"(2) by (simp add: idle_def)
  then show ?case
    using "2.IH" [OF n [symmetric] refl k(1,3)] k(2) by (fastforce simp: n)
qed simp

lemma delays_grow:
  assumes "bo_ok e" and "bo_resetAfter e = 0" and "2 \<le> bo_initialInterval e" and "f64_le (3, -1) (bo_multiplier e)"
    and "bo_currentInterval e \<noteq> 0" and "n < length clocks"
  shows "min (bo_maxInterval e * 4 ^ Suc n) (bo_currentInterval e * 5 ^ Suc n) \<le> delays wild clocks e ! n * 4 ^ Suc n"
  using assms
proof (induction wild clocks e arbitrary: n rule: delays.induct)
  case (2 wild now now' clocks e)
  obtain d e' where nx: "bo_Next wild now now' e = (d, e')" by (cases "bo_Next wild now now' e")
  note k = next_ok [OF "2.prems"(1) nx] and g = next_grows [OF "2.prems"(1) nx "2.prems"(5,2,3,4)]
  show ?case
  proof (cases n)
    case 0
    then show ?thesis using g by (auto simp: nx)
  next
    case (Suc i)
    have "d \<noteq> 0" using k "2.prems"(3) by simp
    then have IH: "min (bo_maxInterval e * 4 ^ n) (d * 5 ^ n) \<le> delays wild clocks e' ! i * 4 ^ n"
      using "2.IH" [OF nx [symmetric] refl, of i] k "2.prems" Suc by simp
    have "min (bo_maxInterval e * 4 ^ Suc n) (bo_currentInterval e * 5 ^ Suc n) \<le> 4 * min (bo_maxInterval e * 4 ^ n) (d * 5 ^ n)"
    proof (cases "d = bo_maxInterval e")
      case True
      then have "bo_maxInterval e * 4 ^ n \<le> d * 5 ^ n"
        using k "2.prems"(3) by (intro mult_mono power_mono) simp_all
      then show ?thesis by simp
    next
      case False
      then have "5 * bo_currentInterval e * 5 ^ n \<le> 4 * d * 5 ^ n"
        using g by (intro mult_right_mono) simp_all
      then have "bo_currentInterval e * 5 ^ Suc n \<le> 4 * (d * 5 ^ n)" by (simp add: mult.commute mult.left_commute)
      moreover have "bo_maxInterval e * 4 ^ Suc n = 4 * (bo_maxInterval e * 4 ^ n)" by simp
      ultimately show ?thesis by linarith
    qed
    then show ?thesis using IH by (simp add: nx Suc)
  qed
qed simp

text \<open>
  Delays grow to the cap and no further. With settings that are free of surprises, zeros replaced
  by the defaults, and no idle reset, the delays of any number of calls, whatever the clock shows,
  begin with the initial interval, never shrink, and stay between it and the cap. If the
  multiplier is at least one and a half they grow geometrically until they are at the cap, by at
  least a quarter each, in spite of the rounding to \<open>float64\<close> and to whole nanoseconds.
\<close>

theorem backoff_grows_to_cap:
  assumes "e = safety (NewExponential initial mult maxi 0)" and "sane e"
    and "ds = delays wild clocks (NewExponential initial mult maxi 0)"
  shows "length ds = length clocks \<and> (clocks \<noteq> [] \<longrightarrow> hd ds = bo_initialInterval e) \<and> sorted ds
    \<and> (\<forall>d \<in> set ds. bo_initialInterval e \<le> d \<and> d \<le> bo_maxInterval e)
    \<and> (2 \<le> bo_initialInterval e \<and> f64_le (3, -1) (bo_multiplier e)
       \<longrightarrow> (\<forall>n < length ds. min (bo_maxInterval e * 4 ^ n) (bo_initialInterval e * 5 ^ n) \<le> ds ! n * 4 ^ n))"
proof -
  have e: "bo_ok e" "bo_resetAfter e = 0" "bo_currentInterval e = 0"
    using assms(2) by (simp_all add: bo_ok_def) (simp_all add: assms(1) safety_def NewExponential_def)
  have "bo_Next wild now now' (NewExponential initial mult maxi 0) = bo_Next wild now now' e" for now now'
    using assms(2) unfolding bo_Next_def assms(1) [symmetric] by simp
  then have ds: "ds = delays wild clocks e"
    unfolding assms(3) by (cases clocks) auto
  have first: "bo_Next wild now now' e = (bo_initialInterval e, e\<lparr>bo_currentInterval := bo_initialInterval e,
      bo_lastWaitEnd := timeAdd now' (bo_initialInterval e)\<rparr>)" for now now'
    unfolding next_delay [OF e(1)] by (simp add: e(3) Let_def)
  have grow: "min (bo_maxInterval e * 4 ^ n) (bo_initialInterval e * 5 ^ n) \<le> ds ! n * 4 ^ n"
    if g: "2 \<le> bo_initialInterval e" "f64_le (3, -1) (bo_multiplier e)" and n: "n < length ds" for n
  proof (cases n)
    case 0
    then show ?thesis using n by (cases clocks) (auto simp: ds first min_def)
  next
    case (Suc i)
    then obtain c cs where clocks: "clocks = c # cs" "i < length cs" using n ds by (cases clocks) auto
    obtain e' where n0: "bo_Next wild (fst c) (snd c) e = (bo_initialInterval e, e')" using first by blast
    note k = next_ok [OF e(1) n0]
    have "bo_currentInterval e' \<noteq> 0" using k g by simp
    then show ?thesis
      using delays_grow [of e' i cs wild] k g e clocks n0 by (cases c) (simp add: ds Suc)
  qed
  show ?thesis
    using delays_range [OF e(1)] delays_sorted [OF e(1,2)] grow first
    by (cases clocks) (auto simp: ds)
qed


theorem backoff_grows_to_cap_witness:
  "let ds = delays (\<lambda>_. minInt64) [(0, 0), (0, 0), (0, 0)] (NewExponential 0 (0, 0) 0 0)
   in ds = [500000000, 750000000, 1125000000] \<and> (\<forall>n < 3. min (60000000000 * 4 ^ n) (500000000 * 5 ^ n) \<le> ds ! n * 4 ^ n)"
proof -
  let ?e = "NewExponential 0 (0, 0) 0 0"
  have sane: "sane (safety ?e)"
    by (simp add: sane_def safety_def NewExponential_def f64_le_def DefaultInitialInterval_def DefaultMaxInterval_def
        DefaultMultiplier_def)
  have ds: "delays (\<lambda>_. minInt64) [(0, 0), (0, 0), (0, 0)] ?e = [500000000, 750000000, 1125000000]"
    by (simp add: bo_Next_def incrementCurrentInterval_def autoReset_def safety_def NewExponential_def
        DefaultInitialInterval_def DefaultMaxInterval_def DefaultMultiplier_def f64_of_int_exact f64_mul_def
        round53_small f64_le_def f64_to_int64_def f64_trunc_def go_div_def in_int64_def minInt64_def maxInt64_def)
  have "2 \<le> bo_initialInterval (safety ?e) \<and> f64_le (3, -1) (bo_multiplier (safety ?e))"
    by (simp add: safety_def NewExponential_def f64_le_def DefaultInitialInterval_def DefaultMultiplier_def)
  then show ?thesis
    using backoff_grows_to_cap [OF refl sane refl, of "\<lambda>_. minInt64" "[(0, 0), (0, 0), (0, 0)]"]
    unfolding ds Let_def by (simp add: safety_def NewExponential_def DefaultInitialInterval_def DefaultMaxInterval_def)
qed

text \<open>The first delay is not capped.\<close>

lemma first_delay_above_cap:
  "fst (bo_Next wild now now' (NewExponential 120000000000 (2, 0) 60000000000 0)) = 120000000000"
  by (simp add: bo_Next_def incrementCurrentInterval_def autoReset_def safety_def NewExponential_def Let_def)

text \<open>A product that no duration holds is not capped either: where the conversion gives the least
  \<open>int64\<close>, as on amd64, the second delay is negative.\<close>

lemma overflow_passes_cap:
  "delays (\<lambda>_. minInt64) [(0, 0), (0, 0)] (NewExponential 1000000000 (1, 34) 60000000000 0)
    = [1000000000, minInt64]"
  by (simp add: bo_Next_def incrementCurrentInterval_def autoReset_def safety_def NewExponential_def Let_def
      f64_of_int_exact f64_le_def f64_mul_def f64_to_int64_def f64_trunc_def in_int64_def minInt64_def maxInt64_def
      round53_small)

end
