(* ===== verification/Thread_Safe_Set.thy ===== *)
theory Thread_Safe_Set
  imports Prelude
begin

text \<open>
  The generic set (\<open>yathreadsafeset/yathreadsafeset.go\<close>, \<open>utils.go\<close>): a map from values to the
  empty struct, \<open>None\<close> when the zero value has not been used yet. Every method starts with
  \<open>safetyCheck\<close> and runs under the set's lock. A method that takes another set copies both maps
  first. The order of the association list stands for the order in which Go happens to iterate.

  The locale \<open>value_set\<close> is the contract over the mathematical set of members.
\<close>

section \<open>The set\<close>

record 'a tset =
  ts_data :: "('a, unit) alist option"

definition NewThreadSafeSet :: "'a tset" where
  "NewThreadSafeSet = \<lparr>ts_data = Some []\<rparr>"

definition set_safetyCheck :: "'a tset \<Rightarrow> 'a tset" where
  "set_safetyCheck m = (case ts_data m of None \<Rightarrow> m\<lparr>ts_data := Some []\<rparr> | Some _ \<Rightarrow> m)"

definition dataOf :: "'a tset \<Rightarrow> ('a, unit) alist" where
  "dataOf m = (case ts_data m of None \<Rightarrow> [] | Some d \<Rightarrow> d)"

definition set_Clear :: "'a tset \<Rightarrow> 'a tset" where
  "set_Clear m = m\<lparr>ts_data := Some []\<rparr>"

text \<open>\<open>maps.Copy(dst, src)\<close>: the entries of \<open>src\<close>, in some order, are stored into \<open>dst\<close>.\<close>

fun mapsCopy :: "('k, 'v) alist \<Rightarrow> ('k, 'v) alist \<Rightarrow> ('k, 'v) alist" where
  "mapsCopy dst [] = dst"
| "mapsCopy dst ((k, v) # src) = mapsCopy (AList.update k v dst) src"

definition CopyRaw :: "'a tset \<Rightarrow> ('a, unit) alist" where
  "CopyRaw m = mapsCopy [] (dataOf m)"

definition set_Copy :: "'a tset \<Rightarrow> 'a tset" where
  "set_Copy m = \<lparr>ts_data = Some (mapsCopy [] (dataOf m))\<rparr>"

definition set_Delete :: "'a tset \<Rightarrow> 'a \<Rightarrow> 'a tset" where
  "set_Delete m v = m\<lparr>ts_data := Some (AList.delete v (dataOf m))\<rparr>"

definition Has :: "'a tset \<Rightarrow> 'a \<Rightarrow> bool" where
  "Has m v \<longleftrightarrow> map_of (dataOf m) v \<noteq> None"

text \<open>The callback of an iteration reads and changes a state of its own.\<close>

definition Iterate :: "'a tset \<Rightarrow> ('a \<Rightarrow> 's \<Rightarrow> 's) \<Rightarrow> 's \<Rightarrow> 's" where
  "Iterate m fn s = fold (\<lambda>p. fn (fst p)) (dataOf m) s"

definition IterateOnCopy :: "'a tset \<Rightarrow> ('a \<Rightarrow> 's \<Rightarrow> 's) \<Rightarrow> 's \<Rightarrow> 's" where
  "IterateOnCopy m fn s = fold (\<lambda>p. fn (fst p)) (CopyRaw m) s"

fun iterateBreak :: "('a \<Rightarrow> 's \<Rightarrow> bool \<times> 's) \<Rightarrow> ('a, unit) alist \<Rightarrow> 's \<Rightarrow> 's" where
  "iterateBreak fn [] s = s"
| "iterateBreak fn (p # ps) s =
     (let (go_on, s') = fn (fst p) s in if \<not> go_on then s' else iterateBreak fn ps s')"

definition IterateWithBreak :: "'a tset \<Rightarrow> ('a \<Rightarrow> 's \<Rightarrow> bool \<times> 's) \<Rightarrow> 's \<Rightarrow> 's" where
  "IterateWithBreak m fn s = iterateBreak fn (dataOf m) s"

definition Length :: "'a tset \<Rightarrow> nat" where
  "Length m = length (dataOf m)"

definition Pop :: "'a tset \<Rightarrow> 'a \<Rightarrow> bool \<times> 'a tset" where
  "Pop m v =
     (if map_of (dataOf m) v \<noteq> None
      then (True, m\<lparr>ts_data := Some (AList.delete v (dataOf m))\<rparr>)
      else (False, set_safetyCheck m))"

definition set_Set :: "'a tset \<Rightarrow> 'a \<Rightarrow> 'a tset" where
  "set_Set m v = m\<lparr>ts_data := Some (AList.update v () (dataOf m))\<rparr>"

definition ImportFromMap :: "'a tset \<Rightarrow> ('a, unit) alist \<Rightarrow> 'a tset" where
  "ImportFromMap m src = m\<lparr>ts_data := Some (mapsCopy (dataOf m) src)\<rparr>"

definition set_Values :: "'a tset \<Rightarrow> 'a list" where
  "set_Values m = map fst (dataOf m)"

text \<open>The loops that add the values of one map that are, or are not, in another.\<close>

definition addWhen :: "('a \<Rightarrow> bool) \<Rightarrow> ('a, unit) alist \<Rightarrow> ('a, unit) alist \<Rightarrow> ('a, unit) alist" where
  "addWhen P src dst = fold (\<lambda>p d. if P (fst p) then AList.update (fst p) () d else d) src dst"

definition Intersect :: "'a tset \<Rightarrow> 'a tset \<Rightarrow> 'a tset" where
  "Intersect m other =
     (let left = CopyRaw m; right = CopyRaw other
      in \<lparr>ts_data = Some (addWhen (\<lambda>k. map_of right k \<noteq> None) left [])\<rparr>)"

definition DeleteMultiple :: "'a tset \<Rightarrow> 'a list \<Rightarrow> 'a tset" where
  "DeleteMultiple m vs = m\<lparr>ts_data := Some (fold AList.delete vs (dataOf m))\<rparr>"

definition IsEmpty :: "'a tset \<Rightarrow> bool" where
  "IsEmpty m \<longleftrightarrow> Length m = 0"

definition IsEqual :: "'a tset \<Rightarrow> 'a tset \<Rightarrow> bool" where
  "IsEqual m other =
     (let left = CopyRaw m; right = CopyRaw other
      in if length left \<noteq> length right then False
         else list_all (\<lambda>p. map_of right (fst p) \<noteq> None) left)"

definition set_Union :: "'a tset \<Rightarrow> 'a tset \<Rightarrow> 'a tset" where
  "set_Union m other =
     (let left = CopyRaw m; right = CopyRaw other
      in \<lparr>ts_data = Some (mapsCopy (mapsCopy [] left) right)\<rparr>)"

definition Difference :: "'a tset \<Rightarrow> 'a tset \<Rightarrow> 'a tset" where
  "Difference m other =
     (let left = CopyRaw m; right = CopyRaw other
      in \<lparr>ts_data = Some (addWhen (\<lambda>k. map_of right k = None) left [])\<rparr>)"

definition SymmetricDifference :: "'a tset \<Rightarrow> 'a tset \<Rightarrow> 'a tset" where
  "SymmetricDifference m other =
     (let left = CopyRaw m; right = CopyRaw other;
          result = addWhen (\<lambda>k. map_of right k = None) left []
      in \<lparr>ts_data = Some (addWhen (\<lambda>k. map_of left k = None) right result)\<rparr>)"

section \<open>The contract\<close>

locale value_set =
  fixes wf :: "'s \<Rightarrow> bool" and members :: "'s \<Rightarrow> 'a set"
    and new :: 's and put :: "'s \<Rightarrow> 'a \<Rightarrow> 's" and take_out :: "'s \<Rightarrow> 'a \<Rightarrow> 's"
    and listing :: "'s \<Rightarrow> 'a list" and copy :: "'s \<Rightarrow> 's" and diff :: "'s \<Rightarrow> 's \<Rightarrow> 's"
  assumes wf_new: "wf new" and members_new: "members new = {}"
    and wf_put: "wf m \<Longrightarrow> wf (put m v)" and members_put: "wf m \<Longrightarrow> members (put m v) = insert v (members m)"
    and wf_take: "wf m \<Longrightarrow> wf (take_out m v)" and members_take: "wf m \<Longrightarrow> members (take_out m v) = members m - {v}"
    and listing: "wf m \<Longrightarrow> set (listing m) = members m \<and> distinct (listing m)"
    and wf_copy: "wf m \<Longrightarrow> wf (copy m)" and members_copy: "wf m \<Longrightarrow> members (copy m) = members m"
    and wf_diff: "wf m \<Longrightarrow> wf n \<Longrightarrow> wf (diff m n)"
    and members_diff: "wf m \<Longrightarrow> wf n \<Longrightarrow> members (diff m n) = members m - members n"
begin

lemma wf_put_all: "wf m \<Longrightarrow> wf (fold (\<lambda>v m. put m v) vs m)"
  by (induction vs arbitrary: m) (simp_all add: wf_put)

lemma members_put_all: "wf m \<Longrightarrow> members (fold (\<lambda>v m. put m v) vs m) = members m \<union> set vs"
  by (induction vs arbitrary: m) (auto simp: wf_put members_put)

lemma length_listing: "wf m \<Longrightarrow> length (listing m) = card (members m)"
  using listing [of m] distinct_card by metis

end

section \<open>The invariant\<close>

definition ts_inv :: "'a tset \<Rightarrow> bool" where
  "ts_inv m \<longleftrightarrow> distinct (map fst (dataOf m))"

definition Members :: "'a tset \<Rightarrow> 'a set" where
  "Members m = fst ` set (dataOf m)"

lemma dataOf_simps [simp]:
  "dataOf (m\<lparr>ts_data := Some d\<rparr>) = d" "dataOf \<lparr>ts_data = Some d\<rparr> = d"
  "dataOf (set_safetyCheck m) = dataOf m"
  by (simp_all add: dataOf_def set_safetyCheck_def split: option.splits)

lemma Members_data:
  "Members (m\<lparr>ts_data := Some d\<rparr>) = fst ` set d" "Members \<lparr>ts_data = Some d\<rparr> = fst ` set d"
  "Members (set_safetyCheck m) = Members m"
  by (simp_all add: Members_def)

lemma Members_fold: "fst ` set (dataOf m) = Members m"
  by (simp add: Members_def)

lemma mapsCopy_dom: "fst ` set (mapsCopy dst src) = fst ` set dst \<union> fst ` set src"
  by (induction dst src rule: mapsCopy.induct) (auto simp: dom_update)

lemma mapsCopy_distinct: "distinct (map fst dst) \<Longrightarrow> distinct (map fst (mapsCopy dst src))"
  by (induction dst src rule: mapsCopy.induct) (simp_all add: distinct_update)

lemma addWhen_dom: "fst ` set (addWhen P src dst) = fst ` set dst \<union> {k \<in> fst ` set src. P k}"
  unfolding addWhen_def by (induction src arbitrary: dst) (auto simp: dom_update)

lemma addWhen_distinct: "distinct (map fst dst) \<Longrightarrow> distinct (map fst (addWhen P src dst))"
  unfolding addWhen_def by (induction src arbitrary: dst) (auto simp: distinct_update)

lemma dom_delete: "fst ` set (AList.delete k d) = fst ` set d - {k}"
  by (auto simp: delete_filter)

lemma delete_all:
  "fst ` set (fold AList.delete vs d) = fst ` set d - set vs"
  "distinct (map fst d) \<Longrightarrow> distinct (map fst (fold AList.delete vs d))"
  by (induction vs arbitrary: d) (auto simp: dom_delete distinct_delete)

lemma lookup_Members: "map_of (CopyRaw m) k = None \<longleftrightarrow> k \<notin> Members m"
  by (simp add: map_of_None_fst CopyRaw_def mapsCopy_dom Members_def)

lemmas set_op_defs = NewThreadSafeSet_def set_Clear_def set_Copy_def set_Delete_def Pop_def set_Set_def
  ImportFromMap_def Intersect_def DeleteMultiple_def set_Union_def Difference_def SymmetricDifference_def
  Let_def

lemma CopyRaw_dom [simp]: "fst ` set (CopyRaw m) = Members m"
  by (simp add: CopyRaw_def mapsCopy_dom Members_def)

lemma Members_ops:
  "Members NewThreadSafeSet = {}" "Members (set_Clear m) = {}" "Members (set_Copy m) = Members m"
  "Members (set_Delete m v) = Members m - {v}" "Members (snd (Pop m v)) = Members m - {v}"
  "Members (set_Set m v) = insert v (Members m)"
  "Members (ImportFromMap m src) = Members m \<union> fst ` set src"
  "Members (DeleteMultiple m vs) = Members m - set vs"
  "Members (Intersect m n) = Members m \<inter> Members n"
  "Members (set_Union m n) = Members m \<union> Members n"
  "Members (Difference m n) = Members m - Members n"
  "Members (SymmetricDifference m n) = (Members m - Members n) \<union> (Members n - Members m)"
  by (auto simp: Members_data set_op_defs mapsCopy_dom addWhen_dom delete_all dom_delete dom_update
      lookup_Members map_of_None_fst Members_fold simp del: not_None_eq)

lemma ts_inv_ops:
  "ts_inv NewThreadSafeSet" "ts_inv (set_Clear m)" "ts_inv (set_Copy m)" "ts_inv (Intersect m n)"
  "ts_inv (set_Union m n)" "ts_inv (Difference m n)" "ts_inv (SymmetricDifference m n)"
  "ts_inv m \<Longrightarrow> ts_inv (set_Delete m v)" "ts_inv m \<Longrightarrow> ts_inv (snd (Pop m v))"
  "ts_inv m \<Longrightarrow> ts_inv (set_Set m v)" "ts_inv m \<Longrightarrow> ts_inv (ImportFromMap m src)"
  "ts_inv m \<Longrightarrow> ts_inv (DeleteMultiple m vs)"
  by (simp_all add: ts_inv_def set_op_defs mapsCopy_distinct addWhen_distinct delete_all distinct_delete
      distinct_update)

lemma set_Values_members: "ts_inv m \<Longrightarrow> set (set_Values m) = Members m \<and> distinct (set_Values m)"
  by (simp add: ts_inv_def set_Values_def Members_def)

lemma Length_card: "ts_inv m \<Longrightarrow> Length m = card (Members m)"
  unfolding ts_inv_def Length_def Members_def
  by (metis distinct_card length_map set_map)

lemma Has_Members: "Has m v \<longleftrightarrow> v \<in> Members m"
  by (simp add: Has_def Members_def map_of_eq_None_iff)

interpretation ts: value_set ts_inv Members NewThreadSafeSet set_Set set_Delete set_Values set_Copy Difference
  by unfold_locales (simp_all add: Members_ops ts_inv_ops set_Values_members)

lemma IsEqual_Members:
  assumes "ts_inv m" and "ts_inv n"
  shows "IsEqual m n \<longleftrightarrow> Members m = Members n"
proof -
  have len: "length (CopyRaw k) = card (Members k)" for k :: "'a tset"
    using distinct_card [of "map fst (CopyRaw k)"] mapsCopy_distinct [of "[]" "dataOf k"]
    by (simp add: CopyRaw_def [symmetric])
  have all: "list_all (\<lambda>p. map_of (CopyRaw n) (fst p) \<noteq> None) (CopyRaw m) \<longleftrightarrow> Members m \<subseteq> Members n"
    unfolding lookup_Members list_all_iff CopyRaw_dom [of m, symmetric] image_subset_iff by simp
  have "finite (Members n)" by (simp add: Members_def)
  then show ?thesis
    unfolding IsEqual_def Let_def len all by (metis card_subset_eq order_refl)
qed

text \<open>
  Every operation of the set is the operation on the mathematical set of its members: the
  listing holds each member once, the length is their number, and adding, deleting, popping,
  copying, importing, intersection, union, difference, symmetric difference and equality are
  what their names say, for sets of any history including the zero value.
\<close>

theorem set_algebra:
  assumes "ts_inv m" and "ts_inv n"
  shows "set (set_Values m) = Members m \<and> distinct (set_Values m) \<and> Length m = card (Members m)
    \<and> (Has m v \<longleftrightarrow> v \<in> Members m) \<and> (fst (Pop m v) \<longleftrightarrow> v \<in> Members m) \<and> (IsEmpty m \<longleftrightarrow> Members m = {})
    \<and> Members (set_Set m v) = insert v (Members m) \<and> Members (set_Delete m v) = Members m - {v}
    \<and> Members (snd (Pop m v)) = Members m - {v} \<and> Members (DeleteMultiple m vs) = Members m - set vs
    \<and> Members (set_Copy m) = Members m \<and> Members (ImportFromMap m src) = Members m \<union> fst ` set src
    \<and> Members (Intersect m n) = Members m \<inter> Members n \<and> Members (set_Union m n) = Members m \<union> Members n
    \<and> Members (Difference m n) = Members m - Members n
    \<and> Members (SymmetricDifference m n) = (Members m - Members n) \<union> (Members n - Members m)
    \<and> (IsEqual m n \<longleftrightarrow> Members m = Members n)"
proof -
  have "fst (Pop m v) \<longleftrightarrow> v \<in> Members m"
    using Has_Members [of m v] by (simp add: Pop_def Has_def)
  moreover have "IsEmpty m \<longleftrightarrow> Members m = {}"
    by (simp add: IsEmpty_def Length_def Members_def)
  ultimately show ?thesis
    using assms by (simp add: Members_ops set_Values_members Length_card Has_Members IsEqual_Members)
qed

theorem set_algebra_witness:
  "Members (Intersect (set_Set (set_Set NewThreadSafeSet ''a'') ''b'') (set_Set \<lparr>ts_data = None\<rparr> ''b'')) = {''b''}"
proof -
  have "ts_inv (set_Set (set_Set NewThreadSafeSet ''a'') ''b'')" "ts_inv (set_Set \<lparr>ts_data = None\<rparr> ''b'')"
    by (simp_all add: ts_inv_def NewThreadSafeSet_def set_Set_def dataOf_def)
  from set_algebra [OF this] show ?thesis
    by (simp add: Members_ops(1,6) Members_def [of "\<lparr>ts_data = None\<rparr>"] dataOf_def)
qed

end
