(* ===== verification/Thread_Safe_Map.thy ===== *)
theory Thread_Safe_Map
  imports Prelude Thread_Safe_Set
begin

text \<open>
  The generic map (\<open>threadsafemap/thread_safe_map.go\<close>, \<open>utils.go\<close>): a Go map, \<open>None\<close> when the zero
  value has not been used yet. Every method starts with \<open>safetyCheck\<close> and then runs under the map's
  lock; the order of the association list stands for the order in which Go happens to iterate. The
  callback of an iteration reads and changes a state of its own.

  The locale \<open>value_map\<close> is the contract over a mathematical map. Its lemmas say what callers use the
  two atomic operations for: \<open>GetOrSet\<close> initializes a key once, and \<open>Update\<close> loses no update.
\<close>

section \<open>The map\<close>

record ('k, 'v) tmap =
  tm_data :: "('k, 'v) alist option"

definition NewThreadSafeMap :: "('k, 'v) tmap" where
  "NewThreadSafeMap = \<lparr>tm_data = Some []\<rparr>"

definition map_safetyCheck :: "('k, 'v) tmap \<Rightarrow> ('k, 'v) tmap" where
  "map_safetyCheck m = (case tm_data m of None \<Rightarrow> m\<lparr>tm_data := Some []\<rparr> | Some _ \<Rightarrow> m)"

definition entries :: "('k, 'v) tmap \<Rightarrow> ('k, 'v) alist" where
  "entries m = (case tm_data m of None \<Rightarrow> [] | Some d \<Rightarrow> d)"

definition map_Clear :: "('k, 'v) tmap \<Rightarrow> ('k, 'v) tmap" where
  "map_Clear m = (map_safetyCheck m)\<lparr>tm_data := Some []\<rparr>"

definition map_Copy :: "('k, 'v) tmap \<Rightarrow> ('k, 'v) alist \<times> ('k, 'v) tmap" where
  "map_Copy m = (let m = map_safetyCheck m in (mapsCopy [] (entries m), m))"

definition map_Delete :: "('k, 'v) tmap \<Rightarrow> 'k \<Rightarrow> ('k, 'v) tmap" where
  "map_Delete m k = (let m = map_safetyCheck m in m\<lparr>tm_data := Some (AList.delete k (entries m))\<rparr>)"

text \<open>A read of an absent key gives the zero value of the type beside \<open>false\<close>; here it is \<open>None\<close>.\<close>

definition map_Get :: "('k, 'v) tmap \<Rightarrow> 'k \<Rightarrow> 'v option \<times> ('k, 'v) tmap" where
  "map_Get m k = (let m = map_safetyCheck m in (map_of (entries m) k, m))"

definition GetOrDefault :: "('k, 'v) tmap \<Rightarrow> 'k \<Rightarrow> 'v \<Rightarrow> 'v \<times> ('k, 'v) tmap" where
  "GetOrDefault m k d =
     (let m = map_safetyCheck m in (case map_of (entries m) k of Some v \<Rightarrow> v | None \<Rightarrow> d, m))"

definition GetOrSet :: "('k, 'v) tmap \<Rightarrow> 'k \<Rightarrow> 'v \<Rightarrow> ('v \<times> bool) \<times> ('k, 'v) tmap" where
  "GetOrSet m k v =
     (let m = map_safetyCheck m
      in case map_of (entries m) k of
           Some existing \<Rightarrow> ((existing, True), m)
         | None \<Rightarrow> ((v, False), m\<lparr>tm_data := Some (AList.update k v (entries m))\<rparr>))"

definition map_Has :: "('k, 'v) tmap \<Rightarrow> 'k \<Rightarrow> bool \<times> ('k, 'v) tmap" where
  "map_Has m k = (let m = map_safetyCheck m in (map_of (entries m) k \<noteq> None, m))"

definition map_Iterate :: "('k, 'v) tmap \<Rightarrow> ('k \<Rightarrow> 'v \<Rightarrow> 's \<Rightarrow> 's) \<Rightarrow> 's \<Rightarrow> 's \<times> ('k, 'v) tmap" where
  "map_Iterate m fn s = (let m = map_safetyCheck m in (fold (\<lambda>(k, v). fn k v) (entries m) s, m))"

definition map_IterateOnCopy :: "('k, 'v) tmap \<Rightarrow> ('k \<Rightarrow> 'v \<Rightarrow> 's \<Rightarrow> 's) \<Rightarrow> 's \<Rightarrow> 's \<times> ('k, 'v) tmap" where
  "map_IterateOnCopy m fn s = (let (c, m) = map_Copy m in (fold (\<lambda>(k, v). fn k v) c s, m))"

fun entriesBreak :: "('k \<Rightarrow> 'v \<Rightarrow> 's \<Rightarrow> bool \<times> 's) \<Rightarrow> ('k, 'v) alist \<Rightarrow> 's \<Rightarrow> 's" where
  "entriesBreak fn [] s = s"
| "entriesBreak fn ((k, v) # ps) s = (let (go_on, s') = fn k v s in if \<not> go_on then s' else entriesBreak fn ps s')"

definition map_IterateWithBreak ::
    "('k, 'v) tmap \<Rightarrow> ('k \<Rightarrow> 'v \<Rightarrow> 's \<Rightarrow> bool \<times> 's) \<Rightarrow> 's \<Rightarrow> 's \<times> ('k, 'v) tmap" where
  "map_IterateWithBreak m fn s = (let m = map_safetyCheck m in (entriesBreak fn (entries m) s, m))"

definition map_Keys :: "('k, 'v) tmap \<Rightarrow> 'k list \<times> ('k, 'v) tmap" where
  "map_Keys m = (let m = map_safetyCheck m in (map fst (entries m), m))"

definition map_Length :: "('k, 'v) tmap \<Rightarrow> nat \<times> ('k, 'v) tmap" where
  "map_Length m = (let m = map_safetyCheck m in (length (entries m), m))"

definition map_Pop :: "('k, 'v) tmap \<Rightarrow> 'k \<Rightarrow> 'v option \<times> ('k, 'v) tmap" where
  "map_Pop m k =
     (let m = map_safetyCheck m
      in case map_of (entries m) k of
           Some v \<Rightarrow> (Some v, m\<lparr>tm_data := Some (AList.delete k (entries m))\<rparr>)
         | None \<Rightarrow> (None, m))"

definition map_Set :: "('k, 'v) tmap \<Rightarrow> 'k \<Rightarrow> 'v \<Rightarrow> ('k, 'v) tmap" where
  "map_Set m k v = (let m = map_safetyCheck m in m\<lparr>tm_data := Some (AList.update k v (entries m))\<rparr>)"

definition map_ImportFromMap :: "('k, 'v) tmap \<Rightarrow> ('k, 'v) alist \<Rightarrow> ('k, 'v) tmap" where
  "map_ImportFromMap m src = (let m = map_safetyCheck m in m\<lparr>tm_data := Some (mapsCopy (entries m) src)\<rparr>)"

definition map_Update :: "('k, 'v) tmap \<Rightarrow> 'k \<Rightarrow> ('v option \<Rightarrow> 'v) \<Rightarrow> ('k, 'v) tmap" where
  "map_Update m k fn =
     (let m = map_safetyCheck m
      in m\<lparr>tm_data := Some (AList.update k (fn (map_of (entries m) k)) (entries m))\<rparr>)"

definition map_Values :: "('k, 'v) tmap \<Rightarrow> 'v list \<times> ('k, 'v) tmap" where
  "map_Values m = (let m = map_safetyCheck m in (map snd (entries m), m))"

section \<open>The contract\<close>

locale value_map =
  fixes wf :: "'m \<Rightarrow> bool" and get :: "'m \<Rightarrow> 'k \<Rightarrow> 'v option"
    and getOrSet :: "'m \<Rightarrow> 'k \<Rightarrow> 'v \<Rightarrow> ('v \<times> bool) \<times> 'm" and upd :: "'m \<Rightarrow> 'k \<Rightarrow> ('v option \<Rightarrow> 'v) \<Rightarrow> 'm"
  assumes wf_getOrSet: "wf m \<Longrightarrow> wf (snd (getOrSet m k v))"
    and found: "wf m \<Longrightarrow> get m k = Some u \<Longrightarrow> getOrSet m k v = ((u, True), m)"
    and absent: "wf m \<Longrightarrow> get m k = None \<Longrightarrow> fst (getOrSet m k v) = (v, False) \<and> get (snd (getOrSet m k v)) = (get m)(k \<mapsto> v)"
    and wf_upd: "wf m \<Longrightarrow> wf (upd m k f)"
    and get_upd: "wf m \<Longrightarrow> get (upd m k f) = (get m)(k \<mapsto> f (get m k))"
begin

fun setters :: "'k \<Rightarrow> 'v list \<Rightarrow> 'm \<Rightarrow> ('v \<times> bool) list" where
  "setters k [] m = []"
| "setters k (v # vs) m = (let (r, m') = getOrSet m k v in r # setters k vs m')"

lemma setters_found: "wf m \<Longrightarrow> get m k = Some u \<Longrightarrow> setters k vs m = map (\<lambda>_. (u, True)) vs"
  by (induction vs) (simp_all add: found)

text \<open>Of any number of callers that initialize one key, the first sets it and all get its value.\<close>

lemma initialized_once:
  assumes "wf m" and "get m k = None"
  shows "setters k (v # vs) m = (v, False) # map (\<lambda>_. (v, True)) vs"
proof -
  obtain r m' where c: "getOrSet m k v = (r, m')" by (cases "getOrSet m k v")
  have "r = (v, False)" and "get m' k = Some v" and "wf m'"
    using absent [OF assms, of v] wf_getOrSet [OF assms(1), of k v] by (simp_all add: c)
  then show ?thesis
    by (simp add: c setters_found)
qed

text \<open>Updates of one key compose, whatever updates of other keys come between.\<close>

lemma wf_updates: "wf m \<Longrightarrow> wf (fold (\<lambda>(k, f) m. upd m k f) us m)"
  by (induction us arbitrary: m) (auto simp: wf_upd)

lemma no_update_lost:
  "wf m \<Longrightarrow> get (fold (\<lambda>(k, f) m. upd m k f) us m) k
    = fold (\<lambda>f x. Some (f x)) (map snd (filter (\<lambda>u. fst u = k) us)) (get m k)"
  by (induction us arbitrary: m) (auto simp: wf_upd get_upd)

end

section \<open>The invariant\<close>

definition tm_inv :: "('k, 'v) tmap \<Rightarrow> bool" where
  "tm_inv m \<longleftrightarrow> distinct (map fst (entries m))"

definition content :: "('k, 'v) tmap \<Rightarrow> 'k \<Rightarrow> 'v option" where
  "content m = map_of (entries m)"

lemma entries_simps [simp]:
  "entries (m\<lparr>tm_data := Some d\<rparr>) = d" "entries \<lparr>tm_data = Some d\<rparr> = d" "entries (map_safetyCheck m) = entries m"
  by (simp_all add: entries_def map_safetyCheck_def split: option.splits)

lemma map_of_mapsCopy: "distinct (map fst src) \<Longrightarrow> map_of (mapsCopy dst src) = map_of dst ++ map_of src"
  by (induction dst src rule: mapsCopy.induct) (auto simp: AList.update_conv' map_add_upd_left dom_map_of_conv_image_fst)

lemmas map_op_defs = NewThreadSafeMap_def map_Clear_def map_Copy_def map_Delete_def map_Get_def GetOrDefault_def
  GetOrSet_def map_Has_def map_Keys_def map_Length_def map_Pop_def map_Set_def map_ImportFromMap_def map_Update_def
  map_Values_def Let_def

lemma tm_inv_ops:
  "tm_inv NewThreadSafeMap" "tm_inv (map_Clear m)"
  "tm_inv m \<Longrightarrow> tm_inv (map_Delete m k)" "tm_inv m \<Longrightarrow> tm_inv (snd (GetOrSet m k v))"
  "tm_inv m \<Longrightarrow> tm_inv (snd (map_Pop m k))" "tm_inv m \<Longrightarrow> tm_inv (map_Set m k v)"
  "tm_inv m \<Longrightarrow> tm_inv (map_ImportFromMap m src)" "tm_inv m \<Longrightarrow> tm_inv (map_Update m k f)"
  by (simp_all add: tm_inv_def map_op_defs distinct_delete distinct_update mapsCopy_distinct split: option.splits)

text \<open>Every operation is the one on the mathematical map.\<close>

lemma content_ops:
  "content NewThreadSafeMap = Map.empty" "content \<lparr>tm_data = None\<rparr> = Map.empty" "content (map_Clear m) = Map.empty"
  "content (map_Delete m k) = (content m)(k := None)" "content (map_Set m k v) = (content m)(k \<mapsto> v)"
  "content (map_Update m k f) = (content m)(k \<mapsto> f (content m k))"
  "distinct (map fst src) \<Longrightarrow> content (map_ImportFromMap m src) = content m ++ map_of src"
  "fst (map_Get m k) = content m k" "fst (map_Has m k) \<longleftrightarrow> content m k \<noteq> None"
  "fst (GetOrDefault m k d) = (case content m k of Some v \<Rightarrow> v | None \<Rightarrow> d)"
  "fst (map_Pop m k) = content m k" "content (snd (map_Pop m k)) = (content m)(k := None)"
  "tm_inv m \<Longrightarrow> map_of (fst (map_Copy m)) = content m"
  by (auto simp: content_def tm_inv_def map_op_defs entries_def AList.update_conv' AList.delete_conv' map_of_mapsCopy
      fun_eq_iff map_safetyCheck_def split: option.splits)

lemma listing_ops:
  assumes "tm_inv m"
  shows "distinct (fst (map_Keys m)) \<and> set (fst (map_Keys m)) = dom (content m)"
    "set (fst (map_Values m)) = ran (content m)" "fst (map_Length m) = card (dom (content m))"
proof -
  show keys: "distinct (fst (map_Keys m)) \<and> set (fst (map_Keys m)) = dom (content m)"
    using assms by (simp add: tm_inv_def map_op_defs content_def dom_map_of_conv_image_fst)
  show "set (fst (map_Values m)) = ran (content m)"
    using assms by (simp add: tm_inv_def map_op_defs content_def ran_distinct)
  show "fst (map_Length m) = card (dom (content m))"
    using keys distinct_card [of "map fst (entries m)"] by (simp add: map_op_defs)
qed

interpretation tm: value_map tm_inv content GetOrSet map_Update
proof
  fix m :: "('a, 'b) tmap" and k u v
  assume "tm_inv m" and "content m k = Some u"
  then show "GetOrSet m k v = ((u, True), m)"
    by (auto simp: GetOrSet_def content_def entries_def map_safetyCheck_def split: option.splits)
next
  fix m :: "('a, 'b) tmap" and k v
  assume "content m k = None"
  then show "fst (GetOrSet m k v) = (v, False) \<and> content (snd (GetOrSet m k v)) = (content m)(k \<mapsto> v)"
    by (auto simp: GetOrSet_def content_def AList.update_conv')
qed (simp_all add: tm_inv_ops content_ops)

text \<open>The callbacks see each entry of the map once; stopping early sees a prefix of them.\<close>

lemma iterations_agree:
  "fst (map_Iterate m (\<lambda>k v acc. acc @ [(k, v)]) []) = entries m"
  "tm_inv m \<Longrightarrow> map_of (fst (map_IterateOnCopy m (\<lambda>k v acc. acc @ [(k, v)]) [])) = content m"
proof -
  have f: "fold (\<lambda>(k, v) acc. acc @ [(k, v)]) ps acc = acc @ ps" for ps acc :: "('a \<times> 'b) list"
    by (induction ps arbitrary: acc) auto
  show "fst (map_Iterate m (\<lambda>k v acc. acc @ [(k, v)]) []) = entries m"
    by (simp add: map_Iterate_def Let_def f)
  show "map_of (fst (map_IterateOnCopy m (\<lambda>k v acc. acc @ [(k, v)]) [])) = content m" if "tm_inv m"
    using content_ops(13) [OF that] by (simp add: map_IterateOnCopy_def f split: prod.splits)
qed

lemma break_prefix:
  "\<exists>n. entriesBreak (\<lambda>k v acc. (P k v, acc @ [(k, v)])) ps acc = acc @ take n ps
    \<and> (\<forall>p \<in> set (take (n - 1) ps). P (fst p) (snd p))"
proof (induction ps arbitrary: acc)
  case (Cons p ps)
  obtain k v where p: "p = (k, v)" by (cases p)
  show ?case
  proof (cases "P k v")
    case True
    obtain n where "entriesBreak (\<lambda>k v acc. (P k v, acc @ [(k, v)])) ps (acc @ [(k, v)]) = (acc @ [(k, v)]) @ take n ps"
      and "\<forall>p \<in> set (take (n - 1) ps). P (fst p) (snd p)"
      using Cons.IH by blast
    then show ?thesis
      using True by (intro exI [of _ "Suc n"]) (cases n; simp add: p)
  next
    case False
    then show ?thesis by (intro exI [of _ 1]) (simp add: p)
  qed
qed simp

end
