(* ===== verification/Protocol_Types.thy ===== *)
theory Protocol_Types
  imports Prelude
begin

text \<open>
  The types and constants of the wire protocol (\<open>yascheduler/protocol/types.go\<close>,
  \<open>constants.go\<close>, \<open>errors.go\<close>, \<open>protocol.go\<close>). A Go string is a \<open>string\<close> whose characters
  are its bytes. The enumerations of the protocol travel as raw bytes and any value of the byte
  may arrive, so they stay machine words with named values, as in the source.
\<close>

section \<open>Identifiers\<close>

type_synonym messageType = u8
type_synonym errorCode = u16
type_synonym correlationID = u64
type_synonym jobUUID = byte_list
type_synonym executionID = u64
type_synonym attemptID = u64
type_synonym executorType = string
type_synonym instanceID = string
type_synonym functionName = string
type_synonym functionVersion = string
type_synonym scheduleKind = u8
type_synonym backfillMode = u8
type_synonym retryPolicy = u8
type_synonym overlapPolicy = u8
type_synonym label = string
type_synonym pinPolicy = u8
type_synonym resultMode = u8

text \<open>A \<open>JobUUID\<close> is an array of 16 bytes; the zero value is all zeros.\<close>

definition uuidSize :: nat where
  "uuidSize = 16"

definition IsZero :: "jobUUID \<Rightarrow> bool" where
  "IsZero j \<longleftrightarrow> j = replicate 16 0"

lemma IsZero_iff: "IsZero j \<longleftrightarrow> j = [0, 0, 0, 0, 0, 0, 0, 0, 0, 0, 0, 0, 0, 0, 0, 0]"
  by (simp add: IsZero_def numeral_eq_Suc)

section \<open>Records\<close>

record wireError =
  e_Code :: errorCode
  e_Retryable :: bool
  e_Message :: string

record functionSpec =
  f_Name :: functionName
  f_Version :: functionVersion
  f_InputSignature :: string
  f_OutputSignature :: string

record scheduleSpec =
  s_Kind :: scheduleKind
  s_StartUnixNano :: int
  s_IntervalMillis :: u64

record backfillSpec =
  b_Mode :: backfillMode
  b_MaxCount :: u32
  b_MaxAgeMillis :: u64

record retrySpec =
  rt_Policy :: retryPolicy
  rt_MaxRetries :: u32
  rt_InitialDelayMillis :: u64
  rt_MaxDelayMillis :: u64
  rt_MultiplierBits :: u64

record pinSpec =
  p_Label :: label
  p_Policy :: pinPolicy

section \<open>Constants\<close>

definition Magic :: u32 where "Magic = 0x59415343"
definition Version3 :: u8 where "Version3 = 3"
definition CurrentVersion :: u8 where "CurrentVersion = Version3"
definition HeaderSize :: nat where "HeaderSize = 20"

definition DefaultMaxFrameSize :: u32 where "DefaultMaxFrameSize = 1048576"
definition DefaultMaxStringLen :: u32 where "DefaultMaxStringLen = 4096"
definition DefaultMaxBytesLen :: u32 where "DefaultMaxBytesLen = 524288"
definition DefaultMaxFunctions :: u32 where "DefaultMaxFunctions = 1024"
definition DefaultMaxLabelLen :: u32 where "DefaultMaxLabelLen = 128"
definition DefaultMaxLabels :: u32 where "DefaultMaxLabels = 64"
definition DefaultMaxResultBytes :: u32 where "DefaultMaxResultBytes = 65536"

abbreviation (input) MessageTypeRegister :: messageType where "MessageTypeRegister \<equiv> 1"
abbreviation (input) MessageTypeRegisterAck :: messageType where "MessageTypeRegisterAck \<equiv> 2"
abbreviation (input) MessageTypeHeartbeat :: messageType where "MessageTypeHeartbeat \<equiv> 3"
abbreviation (input) MessageTypeHeartbeatAck :: messageType where "MessageTypeHeartbeatAck \<equiv> 4"
abbreviation (input) MessageTypeExecRequest :: messageType where "MessageTypeExecRequest \<equiv> 5"
abbreviation (input) MessageTypeExecAccept :: messageType where "MessageTypeExecAccept \<equiv> 6"
abbreviation (input) MessageTypeExecResult :: messageType where "MessageTypeExecResult \<equiv> 7"
abbreviation (input) MessageTypeCancel :: messageType where "MessageTypeCancel \<equiv> 8"
abbreviation (input) MessageTypeProtocolError :: messageType where "MessageTypeProtocolError \<equiv> 9"
abbreviation (input) MessageTypeJobUpsert :: messageType where "MessageTypeJobUpsert \<equiv> 10"
abbreviation (input) MessageTypeJobUpsertAck :: messageType where "MessageTypeJobUpsertAck \<equiv> 11"
abbreviation (input) MessageTypeShutdown :: messageType where "MessageTypeShutdown \<equiv> 12"
abbreviation (input) MessageTypeLabelUpdate :: messageType where "MessageTypeLabelUpdate \<equiv> 13"
abbreviation (input) MessageTypeLabelUpdateAck :: messageType where "MessageTypeLabelUpdateAck \<equiv> 14"
abbreviation (input) MessageTypeResultDelivery :: messageType where "MessageTypeResultDelivery \<equiv> 15"
abbreviation (input) MessageTypeResultDeliveryAck :: messageType where "MessageTypeResultDeliveryAck \<equiv> 16"
abbreviation (input) MessageTypeJobDelete :: messageType where "MessageTypeJobDelete \<equiv> 17"
abbreviation (input) MessageTypeJobDeleteAck :: messageType where "MessageTypeJobDeleteAck \<equiv> 18"

definition ErrorCodeMalformedFrame :: errorCode where "ErrorCodeMalformedFrame = 2"
definition ErrorCodeUnknownFunction :: errorCode where "ErrorCodeUnknownFunction = 6"
definition ErrorCodeIncompatibleFunction :: errorCode where "ErrorCodeIncompatibleFunction = 7"
definition ErrorCodeInternal :: errorCode where "ErrorCodeInternal = 13"
definition ErrorCodeLabelRejected :: errorCode where "ErrorCodeLabelRejected = 15"

definition ScheduleKindOneShot :: scheduleKind where "ScheduleKindOneShot = 1"
definition ScheduleKindFixedInterval :: scheduleKind where "ScheduleKindFixedInterval = 2"

definition BackfillModeInherit :: backfillMode where "BackfillModeInherit = 0"
definition BackfillModeEnabled :: backfillMode where "BackfillModeEnabled = 1"
definition BackfillModeDisabled :: backfillMode where "BackfillModeDisabled = 2"

definition RetryPolicyInherit :: retryPolicy where "RetryPolicyInherit = 0"
definition RetryPolicyNone :: retryPolicy where "RetryPolicyNone = 1"
definition RetryPolicyImmediate :: retryPolicy where "RetryPolicyImmediate = 2"
definition RetryPolicyFixed :: retryPolicy where "RetryPolicyFixed = 3"
definition RetryPolicyExponential :: retryPolicy where "RetryPolicyExponential = 4"

definition OverlapPolicyInherit :: overlapPolicy where "OverlapPolicyInherit = 0"
definition OverlapPolicyAllow :: overlapPolicy where "OverlapPolicyAllow = 1"
definition OverlapPolicySkip :: overlapPolicy where "OverlapPolicySkip = 2"

definition PinPolicyStrict :: pinPolicy where "PinPolicyStrict = 0"
definition PinPolicyPreferred :: pinPolicy where "PinPolicyPreferred = 1"

definition ResultModeIgnore :: resultMode where "ResultModeIgnore = 0"
definition ResultModeDeliver :: resultMode where "ResultModeDeliver = 1"

definition DefaultMaxRetries :: u32 where "DefaultMaxRetries = 3"

lemmas scheduleKind_defs = ScheduleKindOneShot_def ScheduleKindFixedInterval_def
lemmas backfillMode_defs = BackfillModeInherit_def BackfillModeEnabled_def BackfillModeDisabled_def
lemmas retryPolicy_defs = RetryPolicyInherit_def RetryPolicyNone_def RetryPolicyImmediate_def
  RetryPolicyFixed_def RetryPolicyExponential_def
lemmas overlapPolicy_defs = OverlapPolicyInherit_def OverlapPolicyAllow_def OverlapPolicySkip_def

text \<open>The kinds, modes and policies named in the source are pairwise distinct.\<close>

lemma scheduleKind_distinct [simp]:
  "ScheduleKindOneShot \<noteq> ScheduleKindFixedInterval"
  "ScheduleKindFixedInterval \<noteq> ScheduleKindOneShot"
  by (simp_all add: scheduleKind_defs)

lemma overlapPolicy_distinct [simp]:
  "OverlapPolicyAllow \<noteq> OverlapPolicySkip" "OverlapPolicySkip \<noteq> OverlapPolicyAllow"
  "OverlapPolicyInherit \<noteq> OverlapPolicySkip" "OverlapPolicySkip \<noteq> OverlapPolicyInherit"
  by (simp_all add: overlapPolicy_defs)

section \<open>Wire limits\<close>

record limits =
  l_MaxFrameSize :: u32
  l_MaxStringLen :: u32
  l_MaxBytesLen :: u32
  l_MaxFunctions :: u32
  l_MaxLabelLen :: u32
  l_MaxLabels :: u32
  l_MaxResultBytes :: u32

definition DefaultLimits :: limits where
  "DefaultLimits = \<lparr>
     l_MaxFrameSize = DefaultMaxFrameSize,
     l_MaxStringLen = DefaultMaxStringLen,
     l_MaxBytesLen = DefaultMaxBytesLen,
     l_MaxFunctions = DefaultMaxFunctions,
     l_MaxLabelLen = DefaultMaxLabelLen,
     l_MaxLabels = DefaultMaxLabels,
     l_MaxResultBytes = DefaultMaxResultBytes\<rparr>"

definition orDefault :: "u32 \<Rightarrow> u32 \<Rightarrow> u32" where
  "orDefault v d = (if v = 0 then d else v)"

definition limits_normalized :: "limits \<Rightarrow> limits" where
  "limits_normalized l = \<lparr>
     l_MaxFrameSize = orDefault (l_MaxFrameSize l) DefaultMaxFrameSize,
     l_MaxStringLen = orDefault (l_MaxStringLen l) DefaultMaxStringLen,
     l_MaxBytesLen = orDefault (l_MaxBytesLen l) DefaultMaxBytesLen,
     l_MaxFunctions = orDefault (l_MaxFunctions l) DefaultMaxFunctions,
     l_MaxLabelLen = orDefault (l_MaxLabelLen l) DefaultMaxLabelLen,
     l_MaxLabels = orDefault (l_MaxLabels l) DefaultMaxLabels,
     l_MaxResultBytes = orDefault (l_MaxResultBytes l) DefaultMaxResultBytes\<rparr>"

lemmas default_limit_defs = DefaultMaxFrameSize_def DefaultMaxStringLen_def DefaultMaxBytesLen_def
  DefaultMaxFunctions_def DefaultMaxLabelLen_def DefaultMaxLabels_def DefaultMaxResultBytes_def

lemma limits_normalized_idem [simp]:
  "limits_normalized (limits_normalized l) = limits_normalized l"
  by (simp add: limits_normalized_def orDefault_def default_limit_defs)

end
