(* ===== verification/Store_Types.thy ===== *)
theory Store_Types
  imports Protocol_Types
begin

text \<open>
  The persistent model of the scheduler (\<open>yascheduler/store/models.go\<close>, \<open>types.go\<close>,
  \<open>constants.go\<close>, \<open>errors.go\<close>) and the transition table of an execution
  (\<open>transitions.go\<close>). The source's states are bytes; the defined ones are constructors and
  every other byte is \<open>StateUndefined\<close> or \<open>AttemptUndefined\<close>, which takes the source's
  default branches.
\<close>

section \<open>States\<close>

datatype executionState =
    StateScheduled
  | StateReady
  | StateWaitingExecutor
  | StateWaitingCompatible
  | StateDispatching
  | StateRunning
  | StateRetryWait
  | StateSucceeded
  | StateFailed
  | StateCancelled
  | StateSkipped
  | StateWaitingLabel
  | StateUndefined u8

datatype attemptState =
    AttemptDispatched
  | AttemptAccepted
  | AttemptSucceeded
  | AttemptFunctionFailed
  | AttemptInfraFailed
  | AttemptLost
  | AttemptCancelled
  | AttemptUndefined u8

fun Terminal :: "executionState \<Rightarrow> bool" where
  "Terminal StateSucceeded = True"
| "Terminal StateFailed = True"
| "Terminal StateCancelled = True"
| "Terminal StateSkipped = True"
| "Terminal StateScheduled = False"
| "Terminal StateReady = False"
| "Terminal StateWaitingExecutor = False"
| "Terminal StateWaitingCompatible = False"
| "Terminal StateWaitingLabel = False"
| "Terminal StateDispatching = False"
| "Terminal StateRunning = False"
| "Terminal StateRetryWait = False"
| "Terminal (StateUndefined _) = False"

fun AttemptTerminal :: "attemptState \<Rightarrow> bool" where
  "AttemptTerminal AttemptSucceeded = True"
| "AttemptTerminal AttemptFunctionFailed = True"
| "AttemptTerminal AttemptInfraFailed = True"
| "AttemptTerminal AttemptLost = True"
| "AttemptTerminal AttemptCancelled = True"
| "AttemptTerminal AttemptDispatched = False"
| "AttemptTerminal AttemptAccepted = False"
| "AttemptTerminal (AttemptUndefined _) = False"

section \<open>Records\<close>

datatype err =
    ErrNilJob
  | ErrZeroJobUUID
  | ErrNilResult
  | ErrJobNotFound
  | ErrExecutionNotFound
  | ErrAttemptNotFound
  | ErrResultNotFound
  | ErrVersionConflict
  | ErrTerminalState
  | ErrIllegalTransition

record job =
  j_ID :: jobUUID
  j_Key :: string
  j_ExecutorType :: executorType
  j_Function :: functionSpec
  j_Args :: byte_list
  j_Schedule :: scheduleSpec
  j_Enabled :: bool
  j_Backfill :: backfillSpec
  j_Retry :: retrySpec
  j_Overlap :: overlapPolicy
  j_Pin :: pinSpec
  j_ResultMode :: resultMode
  j_SubmitterInstanceID :: instanceID
  j_SkippedOccurrences :: u64
  j_Version :: u64
  j_CreatedAt :: time
  j_UpdatedAt :: time

record execution =
  x_ID :: executionID
  x_JobID :: jobUUID
  x_ScheduledAt :: time
  x_State :: executionState
  x_FunctionAttempts :: u32
  x_CurrentAttemptID :: attemptID
  x_NextAttemptAt :: time
  x_LeaseExpiresAt :: time
  x_Backfilled :: bool
  x_LastError :: string
  x_WaitReason :: string
  x_Version :: u64
  x_CreatedAt :: time
  x_UpdatedAt :: time

record attempt =
  a_ID :: attemptID
  a_ExecutionID :: executionID
  a_Number :: u32
  a_InstanceID :: instanceID
  a_State :: attemptState
  a_Error :: string
  a_CreatedAt :: time
  a_UpdatedAt :: time

text \<open>A partial update: \<open>None\<close> is a nil field, which leaves the stored value alone.\<close>

record executionUpdate =
  u_State :: "executionState option"
  u_FunctionAttempts :: "u32 option"
  u_CurrentAttemptID :: "attemptID option"
  u_NextAttemptAt :: "time option"
  u_LeaseExpiresAt :: "time option"
  u_LastError :: "string option"
  u_WaitReason :: "string option"

definition emptyUpdate :: executionUpdate where
  "emptyUpdate = \<lparr>u_State = None, u_FunctionAttempts = None, u_CurrentAttemptID = None,
     u_NextAttemptAt = None, u_LeaseExpiresAt = None, u_LastError = None, u_WaitReason = None\<rparr>"

record pendingResult =
  r_JobUUID :: jobUUID
  r_InstanceID :: instanceID
  r_ExecutionID :: executionID
  r_Success :: bool
  r_HasValue :: bool
  r_Payload :: byte_list
  r_Cause :: "wireError option"
  r_Attempts :: u32
  r_CreatedAt :: time
  r_LastSentAt :: time

section \<open>The transition table\<close>

fun executionTransitions :: "executionState \<Rightarrow> executionState list option" where
  "executionTransitions StateScheduled = Some
     [StateReady, StateDispatching, StateWaitingExecutor, StateWaitingCompatible,
      StateWaitingLabel, StateCancelled, StateSkipped]"
| "executionTransitions StateReady = Some
     [StateDispatching, StateWaitingExecutor, StateWaitingCompatible, StateWaitingLabel,
      StateCancelled, StateSkipped]"
| "executionTransitions StateWaitingExecutor = Some
     [StateReady, StateDispatching, StateWaitingCompatible, StateWaitingLabel,
      StateCancelled, StateSkipped]"
| "executionTransitions StateWaitingCompatible = Some
     [StateReady, StateDispatching, StateWaitingExecutor, StateWaitingLabel,
      StateCancelled, StateSkipped]"
| "executionTransitions StateWaitingLabel = Some
     [StateReady, StateDispatching, StateWaitingExecutor, StateWaitingCompatible,
      StateCancelled, StateSkipped]"
| "executionTransitions StateDispatching = Some
     [StateRunning, StateReady, StateWaitingExecutor, StateWaitingCompatible,
      StateWaitingLabel, StateCancelled]"
| "executionTransitions StateRunning = Some
     [StateSucceeded, StateFailed, StateRetryWait, StateReady, StateCancelled]"
| "executionTransitions StateRetryWait = Some
     [StateDispatching, StateReady, StateWaitingExecutor, StateWaitingCompatible,
      StateWaitingLabel, StateCancelled]"
| "executionTransitions StateSucceeded = Some []"
| "executionTransitions StateFailed = Some []"
| "executionTransitions StateCancelled = Some []"
| "executionTransitions StateSkipped = Some []"
| "executionTransitions (StateUndefined _) = None"

definition CanTransition :: "executionState \<Rightarrow> executionState \<Rightarrow> bool" where
  "CanTransition from to =
     (case executionTransitions from of None \<Rightarrow> False | Some targets \<Rightarrow> to \<in> set targets)"

lemma terminal_no_transition: "Terminal s \<Longrightarrow> \<not> CanTransition s t"
  by (cases s) (simp_all add: CanTransition_def)

lemma CanTransition_neq: "CanTransition s t \<Longrightarrow> s \<noteq> t"
  by (cases s) (auto simp: CanTransition_def)

text \<open>The reflexive and transitive closure of the table: the lives an execution may have.\<close>

inductive transitions :: "executionState \<Rightarrow> executionState \<Rightarrow> bool" where
  stay: "transitions s s"
| move: "transitions s t \<Longrightarrow> CanTransition t u \<Longrightarrow> transitions s u"

inductive_cases transitions_step: "transitions s t"

lemma transitions_trans: "transitions t u \<Longrightarrow> transitions s t \<Longrightarrow> transitions s u"
  by (induction rule: transitions.induct) (auto intro: transitions.move)

lemma transitions_one: "CanTransition s t \<Longrightarrow> transitions s t"
  by (blast intro: transitions.intros)

lemma transitions_terminal: "transitions s t \<Longrightarrow> Terminal s \<Longrightarrow> t = s"
  by (induction rule: transitions.induct) (auto simp: terminal_no_transition)

lemma CanTransition_to_defined: "\<not> CanTransition s (StateUndefined b)"
  by (cases s) (simp_all add: CanTransition_def)

end
