(* ===== verification/Schedule.thy ===== *)
theory Schedule
  imports Store_Types
begin

text \<open>
  When the occurrences of a schedule fall (\<open>yascheduler/engine/schedule.go\<close>): the start of a
  one-shot schedule, or the start and every interval after it. Durations are 64-bit integers, so
  \<open>Time.Sub\<close> saturates and the product of \<open>nextOccurrence\<close> wraps.
\<close>

definition millisecond :: duration where "millisecond = 1000000"

definition maxIntervalMillis :: u64 where "maxIntervalMillis = 9223372036854"

definition millisDuration :: "u64 \<Rightarrow> duration" where
  "millisDuration millis =
     (if maxIntervalMillis < millis then maxInt64 else int64 (int64 (uint millis) * millisecond))"

definition occurrenceCount :: "duration \<Rightarrow> u64" where
  "occurrenceCount periods = (if periods < 0 then 0 else word_of_int periods)"

definition scheduleInterval :: "scheduleSpec \<Rightarrow> duration option" where
  "scheduleInterval spec =
     (if s_Kind spec \<noteq> ScheduleKindFixedInterval \<or> s_IntervalMillis spec = 0 then None
      else Some (millisDuration (s_IntervalMillis spec)))"

definition scheduleStart :: "scheduleSpec \<Rightarrow> time" where
  "scheduleStart spec = s_StartUnixNano spec"

definition scheduleContains :: "scheduleSpec \<Rightarrow> time \<Rightarrow> bool" where
  "scheduleContains spec occurrence =
     (let start = scheduleStart spec in
      if s_Kind spec = ScheduleKindOneShot then occurrence = start
      else if s_Kind spec = ScheduleKindFixedInterval then
        (case scheduleInterval spec of
           None \<Rightarrow> False
         | Some interval \<Rightarrow>
             if occurrence < start then False
             else go_mod (timeSub occurrence start) interval = 0)
      else False)"

definition nextOccurrence :: "scheduleSpec \<Rightarrow> time \<Rightarrow> time option" where
  "nextOccurrence spec after =
     (let start = scheduleStart spec in
      if s_Kind spec = ScheduleKindOneShot then (if after < start then Some start else None)
      else if s_Kind spec = ScheduleKindFixedInterval then
        (case scheduleInterval spec of
           None \<Rightarrow> None
         | Some interval \<Rightarrow>
             if after < start then Some start
             else
               let elapsed = timeSub after start;
                   periods = int64 (go_div elapsed interval + 1)
               in Some (timeAdd start (int64 (periods * interval))))
      else None)"

text \<open>
  The loop of \<open>missedOccurrences\<close>, from the newest occurrence back. \<open>None\<close> is a loop that does
  not end.
\<close>

partial_function (option) collectMissed ::
    "time \<Rightarrow> duration \<Rightarrow> u64 \<Rightarrow> duration \<Rightarrow> time \<Rightarrow> time list \<Rightarrow> time \<Rightarrow> time list option" where
  "collectMissed start interval maxCount maxAge oldest collected occurrence =
     (if occurrence < start then Some collected
      else if 0 < maxCount \<and> maxCount \<le> of_nat (length collected) then Some collected
      else if 0 < maxAge \<and> occurrence < oldest then Some collected
      else collectMissed start interval maxCount maxAge oldest (collected @ [occurrence])
             (timeAdd occurrence (int64 (- interval))))"

definition missedOccurrences ::
    "scheduleSpec \<Rightarrow> time \<Rightarrow> u64 \<Rightarrow> duration \<Rightarrow> (time list \<times> u64) option" where
  "missedOccurrences spec until maxCount maxAge =
     (let start = scheduleStart spec in
      if s_Kind spec = ScheduleKindOneShot then
        (if until < start then Some ([], 0)
         else if 0 < maxAge \<and> maxAge < timeSub until start then Some ([], 1)
         else Some ([start], 0))
      else if s_Kind spec = ScheduleKindFixedInterval then
        (case scheduleInterval spec of
           None \<Rightarrow> Some ([], 0)
         | Some interval \<Rightarrow>
             if until < start then Some ([], 0)
             else
               let elapsed = timeSub until start;
                   periods = go_div elapsed interval;
                   total = occurrenceCount periods + 1;
                   oldest = (if 0 < maxAge then timeAdd until (int64 (- maxAge)) else zeroTime);
                   occurrence = timeAdd start (int64 (elapsed - go_mod elapsed interval))
               in (case collectMissed start interval maxCount maxAge oldest [] occurrence of
                     None \<Rightarrow> None
                   | Some collected \<Rightarrow> Some (rev collected, total - of_nat (length collected))))
      else Some ([], 0))"

section \<open>Facts\<close>

lemma millis_bounds:
  fixes x :: int
  assumes "0 \<le> x" and "x \<le> 9223372036854"
  shows "in_int64 x \<and> in_int64 (x * millisecond) \<and> 0 \<le> x * millisecond \<and> x * millisecond \<le> maxInt64"
  using assms by (simp add: in_int64_def minInt64_def maxInt64_def millisecond_def)

lemma millisDuration_eq:
  "millisDuration millis = (if maxIntervalMillis < millis then maxInt64 else uint millis * millisecond)"
proof (cases "maxIntervalMillis < millis")
  case False
  then have "uint millis \<le> 9223372036854"
    by (simp add: word_less_def maxIntervalMillis_def)
  with millis_bounds [of "uint millis"] False show ?thesis by (simp add: millisDuration_def)
qed (simp add: millisDuration_def)

lemma millisDuration_bounds: "0 \<le> millisDuration millis \<and> millisDuration millis \<le> maxInt64"
proof (cases "maxIntervalMillis < millis")
  case False
  then have "uint millis \<le> 9223372036854"
    by (simp add: word_less_def maxIntervalMillis_def)
  with millis_bounds [of "uint millis"] False show ?thesis by (simp add: millisDuration_eq)
qed (simp add: millisDuration_eq maxInt64_def)

lemma in_int64_millisDuration [simp]: "in_int64 (millisDuration millis)"
  using millisDuration_bounds [of millis] by (simp add: in_int64_def minInt64_def)

lemma millisDuration_pos:
  assumes "millis \<noteq> 0"
  shows "0 < millisDuration millis"
proof -
  have "0 < uint millis"
    using assms uint_ge_0 [of millis] by (metis order_le_less uint_0_iff)
  then show ?thesis
    by (simp add: millisDuration_eq maxInt64_def millisecond_def)
qed

lemma scheduleInterval_pos: "scheduleInterval spec = Some interval \<Longrightarrow> 0 < interval \<and> in_int64 interval"
  by (auto simp: scheduleInterval_def millisDuration_pos split: if_splits)

text \<open>The instants at which a schedule fires.\<close>

definition occurrencesOf :: "scheduleSpec \<Rightarrow> time set" where
  "occurrencesOf spec =
     (if s_Kind spec = ScheduleKindOneShot then {scheduleStart spec}
      else case scheduleInterval spec of
             None \<Rightarrow> {}
           | Some interval \<Rightarrow> {scheduleStart spec + int k * interval | k. True})"

lemma scheduleInterval_kind: "scheduleInterval spec = Some interval \<Longrightarrow> s_Kind spec = ScheduleKindFixedInterval"
  by (simp add: scheduleInterval_def split: if_splits)

lemma progression_iff:
  assumes "(0 :: int) < d" and "start \<le> t"
  shows "(\<exists>k. t = start + int k * d) \<longleftrightarrow> (t - start) mod d = 0"
proof
  assume "(t - start) mod d = 0"
  then obtain j where j: "t - start = d * j" by (auto simp: mod_eq_0_iff_dvd dvd_def)
  then have "0 \<le> d * j" using assms by linarith
  with assms(1) have "0 \<le> j" by (simp add: zero_le_mult_iff)
  with j show "\<exists>k. t = start + int k * d"
    by (intro exI [of _ "nat j"]) (simp add: algebra_simps)
qed auto

lemma progression_least:
  assumes "(0 :: int) < d" and "start \<le> after"
  defines "t \<equiv> start + ((after - start) div d + 1) * d"
  shows "after < t \<and> (\<exists>k. t = start + int k * d) \<and> (\<forall>k. after < start + int k * d \<longrightarrow> t \<le> start + int k * d)"
proof (intro conjI allI impI)
  show "after < t"
    unfolding t_def ring_distribs
    using pos_mod_bound [OF assms(1), of "after - start"] minus_div_mult_eq_mod [of "after - start" d] by linarith
  show "\<exists>k. t = start + int k * d"
    using assms by (intro exI [of _ "nat ((after - start) div d + 1)"]) (simp add: t_def pos_imp_zdiv_nonneg_iff)
  fix k
  assume "after < start + int k * d"
  then have "(after - start) div d < int k"
    using mult_right_mono [of "int k" "(after - start) div d" d] assms(1)
      minus_div_mult_eq_mod [of "after - start" d] pos_mod_sign [OF assms(1), of "after - start"] by linarith
  then have "((after - start) div d + 1) * d \<le> int k * d"
    using assms(1) by (intro mult_right_mono) auto
  then show "t \<le> start + int k * d"
    by (simp add: t_def)
qed

section \<open>The backward loop\<close>

text \<open>The loop stops, and keeps a maximal run of newest occurrences within the caps.\<close>

definition keptRun :: "(nat \<Rightarrow> time) \<Rightarrow> u64 \<Rightarrow> duration \<Rightarrow> time \<Rightarrow> nat \<Rightarrow> nat \<Rightarrow> bool" where
  "keptRun occ maxCount maxAge oldest lo n \<longleftrightarrow> lo \<le> n
     \<and> (0 < maxCount \<longrightarrow> n - lo \<le> unat maxCount)
     \<and> (0 < maxAge \<longrightarrow> (\<forall>k \<in> {lo..<n}. oldest \<le> occ k))
     \<and> (0 < lo \<longrightarrow> 0 < maxCount \<and> n - lo = unat maxCount \<or> 0 < maxAge \<and> occ (lo - 1) < oldest)"

lemma collectMissed_returns:
  fixes start interval oldest :: int
  defines "occ \<equiv> \<lambda>k. start + int k * interval"
  assumes d: "0 < interval" "in_int64 interval" and n: "n < 2 ^ 64" "m \<le> n"
    and col: "collected = rev (map occ [m..<n])"
    and kept: "0 < maxCount \<Longrightarrow> n - m \<le> unat maxCount" "0 < maxAge \<Longrightarrow> \<forall>k \<in> {m..<n}. oldest \<le> occ k"
  shows "\<exists>lo. keptRun occ maxCount maxAge oldest lo n
    \<and> collectMissed start interval maxCount maxAge oldest collected (start + (int m - 1) * interval)
        = Some (rev (map occ [lo..<n]))"
  using n(2) col kept
proof (induction m arbitrary: collected)
  case 0
  then show ?case
    using d by (intro exI [of _ 0]) (auto simp: keptRun_def collectMissed.simps)
next
  case (Suc m)
  let ?here = "start + int m * interval"
  have len: "length collected = n - Suc m" and here: "\<not> ?here < start"
    using Suc.prems(2) d by (auto simp: mult_less_0_iff)
  have cap: "maxCount \<le> of_nat (length collected) \<longleftrightarrow> unat maxCount \<le> n - Suc m"
    using n(1) by (simp add: len word_le_nat_alt unsigned_of_nat take_bit_nat_eq_self)
  have neg: "int64 (- interval) = - interval"
    using d by (intro int64_id) (auto simp: in_int64_def minInt64_def maxInt64_def)
  note unfold = collectMissed.simps [of start interval maxCount maxAge oldest collected "?here"]
  consider (count) "0 < maxCount" "unat maxCount \<le> n - Suc m" | (age) "0 < maxAge" "?here < oldest"
    | (keep) "\<not> (0 < maxCount \<and> unat maxCount \<le> n - Suc m)" "\<not> (0 < maxAge \<and> ?here < oldest)" by blast
  then show ?case
  proof cases
    case keep
    have "collected @ [?here] = rev (map occ [m..<n])"
      using Suc.prems(1,2) by (simp add: upt_conv_Cons occ_def)
    moreover have "\<forall>k \<in> {m..<n}. oldest \<le> occ k" if "0 < maxAge"
    proof
      fix k
      assume "k \<in> {m..<n}"
      then show "oldest \<le> occ k"
        using Suc.prems(4) [OF that] keep(2) that by (cases "k = m") (auto simp: occ_def)
    qed
    moreover have "n - m \<le> unat maxCount" if "0 < maxCount"
      using keep(1) that Suc.prems(1) by linarith
    ultimately have "\<exists>lo. keptRun occ maxCount maxAge oldest lo n
        \<and> collectMissed start interval maxCount maxAge oldest (collected @ [?here]) (start + (int m - 1) * interval)
          = Some (rev (map occ [lo..<n]))"
      using Suc.prems(1) by (intro Suc.IH) auto
    moreover have "timeAdd ?here (int64 (- interval)) = start + (int m - 1) * interval"
      by (simp add: timeAdd_def neg algebra_simps)
    moreover have "collectMissed start interval maxCount maxAge oldest collected ?here
        = collectMissed start interval maxCount maxAge oldest (collected @ [?here]) (timeAdd ?here (int64 (- interval)))"
      using keep here by (subst unfold) (auto simp: cap)
    ultimately show ?thesis
      by simp
  next
    case count
    then have "collectMissed start interval maxCount maxAge oldest collected ?here = Some collected"
      using here by (subst unfold) (auto simp: cap)
    with count show ?thesis
      using Suc.prems by (intro exI [of _ "Suc m"]) (simp add: keptRun_def)
  next
    case age
    then have "collectMissed start interval maxCount maxAge oldest collected ?here = Some collected"
      using here by (subst unfold) auto
    with age show ?thesis
      using Suc.prems by (intro exI [of _ "Suc m"]) (simp add: keptRun_def occ_def)
  qed
qed

lemma elapsed_div:
  assumes "0 < interval" and "start \<le> until" and "until - start \<le> maxInt64"
  shows "timeSub until start = until - start" "nat ((until - start) div interval) < 2 ^ 63"
    "until - start - (until - start) mod interval = int (nat ((until - start) div interval)) * interval"
proof -
  have "(until - start) div interval * 1 \<le> (until - start) div interval * interval"
    using assms by (intro mult_left_mono) (auto simp: pos_imp_zdiv_nonneg_iff)
  then have "(until - start) div interval \<le> until - start"
    using minus_div_mult_eq_mod [of "until - start" interval] pos_mod_sign [OF assms(1), of "until - start"]
    by linarith
  then show "nat ((until - start) div interval) < 2 ^ 63"
    using assms by (simp add: maxInt64_def)
  show "timeSub until start = until - start"
    using assms by (intro timeSub_exact) (simp add: in_int64_def minInt64_def)
  show "until - start - (until - start) mod interval = int (nat ((until - start) div interval)) * interval"
    using assms by (simp add: pos_imp_zdiv_nonneg_iff minus_mod_eq_div_mult)
qed

lemma missedOccurrences_fixed:
  assumes iv: "scheduleInterval spec = Some interval" and start: "scheduleStart spec \<le> until"
    and near: "until - scheduleStart spec \<le> maxInt64" and age: "in_int64 maxAge"
  defines "occ \<equiv> \<lambda>k. scheduleStart spec + int k * interval"
    and "n \<equiv> nat ((until - scheduleStart spec) div interval) + 1"
  shows "\<exists>lo. keptRun occ maxCount maxAge (until - maxAge) lo n
    \<and> missedOccurrences spec until maxCount maxAge = Some (map occ [lo..<n], of_nat lo)"
proof -
  let ?start = "scheduleStart spec"
  let ?oldest = "if 0 < maxAge then timeAdd until (int64 (- maxAge)) else zeroTime"
  have d: "0 < interval" "in_int64 interval" using scheduleInterval_pos [OF iv] by auto
  note el = elapsed_div [OF d(1) start near]
  have q: "0 \<le> (until - ?start) div interval"
    using d start by (simp add: pos_imp_zdiv_nonneg_iff)
  have oldest: "?oldest = until - maxAge" if "0 < maxAge"
    using that age by (subst int64_id) (auto simp: timeAdd_def in_int64_def minInt64_def maxInt64_def)
  have occurrence: "timeAdd ?start (int64 (until - ?start - (until - ?start) mod interval)) = ?start + (int n - 1) * interval"
  proof -
    have "in_int64 (until - ?start - (until - ?start) mod interval)"
      using d near start pos_mod_bound [OF d(1), of "until - ?start"] pos_mod_sign [OF d(1), of "until - ?start"]
        zmod_le_nonneg_dividend [of "until - ?start" interval]
      by (auto simp: in_int64_def minInt64_def)
    then show ?thesis by (simp add: el(3) timeAdd_def n_def)
  qed
  have "n < 2 ^ 64" using el(2) by (simp add: n_def)
  from collectMissed_returns [OF d this order_refl, of "[]" ?start maxCount maxAge ?oldest]
  obtain lo where lo: "keptRun occ maxCount maxAge ?oldest lo n"
    "collectMissed ?start interval maxCount maxAge ?oldest [] (?start + (int n - 1) * interval)
      = Some (rev (map occ [lo..<n]))"
    by (auto simp: occ_def)
  have "occurrenceCount ((until - ?start) div interval) + 1 = of_nat n"
    using q by (simp add: occurrenceCount_def n_def)
  moreover have "of_nat n - of_nat (n - lo) = (of_nat lo :: u64)"
    using lo(1) by (simp add: keptRun_def of_nat_diff)
  moreover have "keptRun occ maxCount maxAge (until - maxAge) lo n"
    using lo(1) oldest by (auto simp: keptRun_def)
  ultimately show ?thesis
    using lo(2) start d iv
    by (intro exI [of _ lo]) (simp add: missedOccurrences_def Let_def el(1) occurrence scheduleInterval_kind rev_map)
qed

section \<open>Properties\<close>

text \<open>
  \<open>scheduleContains\<close> recognises exactly the instants at which a schedule fires, the start and
  every whole interval after it, for any instant within the reach of a 64-bit duration of the start.
\<close>

theorem schedule_contains_exact:
  assumes "t - scheduleStart spec \<le> maxInt64"
  shows "scheduleContains spec t \<longleftrightarrow> t \<in> occurrencesOf spec"
proof (cases "s_Kind spec = ScheduleKindOneShot \<or> scheduleInterval spec = None")
  case False
  then obtain interval where iv: "scheduleInterval spec = Some interval" by auto
  have d: "0 < interval" using scheduleInterval_pos [OF iv] by simp
  show ?thesis
  proof (cases "t < scheduleStart spec")
    case True
    then have "t \<noteq> scheduleStart spec + int k * interval" for k
      using d mult_nonneg_nonneg [of "int k" interval] by linarith
    then show ?thesis
      using True iv scheduleInterval_kind [OF iv] by (simp add: scheduleContains_def occurrencesOf_def)
  next
    case False
    then show ?thesis
      using iv d assms progression_iff [OF d, of "scheduleStart spec" t]
      by (simp add: scheduleContains_def occurrencesOf_def scheduleInterval_kind elapsed_div(1))
  qed
qed (auto simp: scheduleContains_def occurrencesOf_def Let_def scheduleInterval_def)

lemma schedule_contains_exact_witness:
  "scheduleContains \<lparr>s_Kind = 2, s_StartUnixNano = 5, s_IntervalMillis = 1\<rparr> 3000005
     \<longleftrightarrow> 3000005 \<in> occurrencesOf \<lparr>s_Kind = 2, s_StartUnixNano = 5, s_IntervalMillis = 1\<rparr>"
  by (rule schedule_contains_exact) (simp add: scheduleStart_def maxInt64_def)

text \<open>
  C25. \<open>nextOccurrence\<close> returns the least instant after the given one at which the schedule fires,
  and nothing exactly when it never fires again, as long as the next period ends within the reach
  of a 64-bit duration of the start.
\<close>

theorem next_occurrence_least:
  assumes "\<forall>interval. scheduleInterval spec = Some interval \<longrightarrow> after - scheduleStart spec + interval \<le> maxInt64"
  shows "case nextOccurrence spec after of
           None \<Rightarrow> \<forall>t \<in> occurrencesOf spec. t \<le> after
         | Some t \<Rightarrow> t \<in> occurrencesOf spec \<and> after < t \<and> (\<forall>u \<in> occurrencesOf spec. after < u \<longrightarrow> t \<le> u)"
proof (cases "s_Kind spec = ScheduleKindOneShot \<or> scheduleInterval spec = None")
  case False
  then obtain interval where iv: "scheduleInterval spec = Some interval" by auto
  let ?start = "scheduleStart spec"
  have d: "0 < interval" using scheduleInterval_pos [OF iv] by simp
  have occ: "occurrencesOf spec = {?start + int k * interval | k. True}"
    using iv scheduleInterval_kind [OF iv] by (simp add: occurrencesOf_def)
  show ?thesis
  proof (cases "after < ?start")
    case True
    then show ?thesis
      using iv scheduleInterval_kind [OF iv] d
      by (auto simp: nextOccurrence_def occ intro: exI [of _ 0])
  next
    case False
    let ?q = "(after - ?start) div interval"
    have near: "after - ?start + interval \<le> maxInt64" using assms iv by simp
    have q: "0 \<le> ?q" "?q < 2 ^ 63"
      using elapsed_div(2) [OF d, of ?start after] False near d by (auto simp: pos_imp_zdiv_nonneg_iff)
    have bound: "0 \<le> (?q + 1) * interval" "(?q + 1) * interval \<le> maxInt64"
    proof -
      show "0 \<le> (?q + 1) * interval" using q d by simp
      show "(?q + 1) * interval \<le> maxInt64"
        unfolding ring_distribs using near minus_div_mult_eq_mod [of "after - ?start" interval]
          pos_mod_sign [OF d, of "after - ?start"] by linarith
    qed
    have "(?q + 1) * 1 \<le> (?q + 1) * interval"
      using q d by (intro mult_left_mono) auto
    then have "?q + 1 \<le> maxInt64"
      using order_trans [OF _ bound(2)] by simp
    moreover have "0 \<le> ?q + 1"
      using q(1) by simp
    ultimately have "in_int64 (?q + 1)" "in_int64 ((?q + 1) * interval)"
      using bound by (blast intro: in_int64I)+
    then have "int64 (?q + 1) = ?q + 1" "int64 ((?q + 1) * interval) = (?q + 1) * interval"
      by simp_all
    then have "nextOccurrence spec after = Some (?start + (?q + 1) * interval)"
      using iv scheduleInterval_kind [OF iv] False d near
      by (simp add: nextOccurrence_def Let_def elapsed_div(1) timeAdd_def)
    then show ?thesis
      using progression_least [OF d, of ?start after] False by (auto simp: occ)
  qed
qed (auto simp: nextOccurrence_def occurrencesOf_def Let_def scheduleInterval_def)

lemma next_occurrence_least_witness:
  "case nextOccurrence \<lparr>s_Kind = 2, s_StartUnixNano = 5, s_IntervalMillis = 1\<rparr> 3000004 of
     None \<Rightarrow> \<forall>t \<in> occurrencesOf \<lparr>s_Kind = 2, s_StartUnixNano = 5, s_IntervalMillis = 1\<rparr>. t \<le> 3000004
   | Some t \<Rightarrow> t \<in> occurrencesOf \<lparr>s_Kind = 2, s_StartUnixNano = 5, s_IntervalMillis = 1\<rparr> \<and> 3000004 < t
       \<and> (\<forall>u \<in> occurrencesOf \<lparr>s_Kind = 2, s_StartUnixNano = 5, s_IntervalMillis = 1\<rparr>. 3000004 < u \<longrightarrow> t \<le> u)"
  by (rule next_occurrence_least)
     (simp add: scheduleStart_def maxInt64_def scheduleInterval_def scheduleKind_defs millisDuration_eq
        maxIntervalMillis_def millisecond_def)

text \<open>
  C26. Backfilling a fixed-interval schedule yields the newest missed occurrences. Let the schedule have
  started and its start lie at most the largest 64-bit duration (about 292 years) before the present
  instant, beyond which \<open>time.Sub\<close> saturates, and let the age cap be a 64-bit duration. Then the backward
  loop returns: it yields, oldest first, the longest run of the newest occurrences up to now that the
  count cap and the age cap allow, and it reports every older occurrence as skipped.
\<close>

theorem missed_occurrences_newest:
  assumes "scheduleInterval spec = Some interval" and "scheduleStart spec \<le> until"
    and "until - scheduleStart spec \<le> maxInt64" and "in_int64 maxAge"
  shows "\<exists>lo. keptRun (\<lambda>k. scheduleStart spec + int k * interval) maxCount maxAge (until - maxAge) lo
        (nat ((until - scheduleStart spec) div interval) + 1)
    \<and> missedOccurrences spec until maxCount maxAge =
        Some (map (\<lambda>k. scheduleStart spec + int k * interval)
               [lo..<nat ((until - scheduleStart spec) div interval) + 1], of_nat lo)"
  using assms by (rule missedOccurrences_fixed)

lemma missed_occurrences_newest_witness:
  "\<exists>lo. keptRun (\<lambda>k. 5 + int k * 1000000) 2 0 3000006 lo 4
    \<and> missedOccurrences \<lparr>s_Kind = 2, s_StartUnixNano = 5, s_IntervalMillis = 1\<rparr> 3000006 2 0 =
        Some (map (\<lambda>k. 5 + int k * 1000000) [lo..<4], of_nat lo)"
  using missed_occurrences_newest [of "\<lparr>s_Kind = 2, s_StartUnixNano = 5, s_IntervalMillis = 1\<rparr>" 1000000 3000006 0 2]
  by (simp add: scheduleStart_def maxInt64_def minInt64_def in_int64_def scheduleInterval_def scheduleKind_defs
      millisDuration_eq maxIntervalMillis_def millisecond_def)

text \<open>
  A schedule that the engine's validation admits can make \<open>nextOccurrence\<close> wrap: with an
  hourly interval from the earliest representable start, the occurrence after an instant of this
  century lies before the start of the schedule.
\<close>

theorem next_occurrence_wraps:
  "\<exists>spec t. scheduleInterval spec = Some 3600000000000 \<and> in_int64 (scheduleStart spec)
     \<and> s_IntervalMillis spec \<le> maxIntervalMillis
     \<and> nextOccurrence spec 1700000000000000000 = Some t \<and> t < scheduleStart spec"
proof (intro exI conjI)
  let ?spec = "\<lparr>s_Kind = ScheduleKindFixedInterval, s_StartUnixNano = minInt64, s_IntervalMillis = 3600000\<rparr>"
  show iv: "scheduleInterval ?spec = Some 3600000000000"
    by (simp add: scheduleInterval_def millisDuration_eq maxIntervalMillis_def millisecond_def)
  show "in_int64 (scheduleStart ?spec)" "s_IntervalMillis ?spec \<le> maxIntervalMillis"
    by (simp_all add: scheduleStart_def in_int64_def minInt64_def maxInt64_def maxIntervalMillis_def)
  show "nextOccurrence ?spec 1700000000000000000 = Some (-18446743310564327424)"
    using iv by (simp add: nextOccurrence_def Let_def scheduleStart_def timeSub_def timeAdd_def int64_def
        minInt64_def maxInt64_def)
  show "-18446743310564327424 < scheduleStart ?spec"
    by (simp add: scheduleStart_def minInt64_def)
qed

end
