(* ===== verification/Engine_Config.thy ===== *)
theory Engine_Config
  imports Schedule
begin

text \<open>
  The engine's settings (\<open>yascheduler/engine/config.go\<close>, \<open>constants.go\<close>), its retry policy
  (\<open>retry.go\<close>) and its counters (\<open>metrics.go\<close>). The exponential delay is computed in
  \<open>float64\<close>; its operations are the fields of a record \<open>float64\<close>, a parameter, as HOL has no
  IEEE arithmetic.
\<close>

section \<open>Settings\<close>

definition second :: duration where "second = 1000 * millisecond"
definition minute :: duration where "minute = 60 * second"
definition hour :: duration where "hour = 60 * minute"

definition DefaultLease :: duration where "DefaultLease = 30 * second"
definition DefaultMaxExecution :: duration where "DefaultMaxExecution = hour"
definition DefaultReconcileInterval :: duration where "DefaultReconcileInterval = 5 * second"
definition DefaultRedispatchDelay :: duration where "DefaultRedispatchDelay = 250 * millisecond"
definition DefaultRetryInitialDelay :: duration where "DefaultRetryInitialDelay = second"
definition DefaultRetryMaxDelay :: duration where "DefaultRetryMaxDelay = minute"
definition DefaultBackfillMaxAge :: duration where "DefaultBackfillMaxAge = 24 * hour"
definition DefaultResultRetention :: duration where "DefaultResultRetention = 5 * minute"
definition DefaultExecutionRetention :: duration where "DefaultExecutionRetention = 24 * hour"
definition DefaultDispatchBatch :: int where "DefaultDispatchBatch = 256"
definition DefaultBackfillMaxCount :: u64 where "DefaultBackfillMaxCount = 100"
definition DefaultMaxPendingResults :: u64 where "DefaultMaxPendingResults = 1024"
definition DefaultMaxPendingResultsPerInstance :: u64 where "DefaultMaxPendingResultsPerInstance = 256"

lemmas duration_defs = millisecond_def second_def minute_def hour_def
lemmas default_config_defs = DefaultLease_def DefaultMaxExecution_def DefaultReconcileInterval_def
  DefaultRedispatchDelay_def DefaultRetryInitialDelay_def DefaultRetryMaxDelay_def
  DefaultBackfillMaxAge_def DefaultResultRetention_def DefaultExecutionRetention_def
  DefaultDispatchBatch_def DefaultBackfillMaxCount_def DefaultMaxPendingResults_def
  DefaultMaxPendingResultsPerInstance_def duration_defs

record config =
  cf_Lease :: duration
  cf_MaxExecution :: duration
  cf_ReconcileInterval :: duration
  cf_DispatchBatch :: int
  cf_RedispatchDelay :: duration
  cf_RetryInitialDelay :: duration
  cf_RetryMaxDelay :: duration
  cf_DefaultBackfill :: backfillMode
  cf_BackfillMaxCount :: u64
  cf_BackfillMaxAge :: duration
  cf_ExecutionRetention :: duration
  cf_ResultRetention :: duration
  cf_MaxPendingResults :: u64
  cf_MaxPendingResultsPerInstance :: u64

definition zeroConfig :: config where
  "zeroConfig = \<lparr>cf_Lease = 0, cf_MaxExecution = 0, cf_ReconcileInterval = 0, cf_DispatchBatch = 0,
     cf_RedispatchDelay = 0, cf_RetryInitialDelay = 0, cf_RetryMaxDelay = 0, cf_DefaultBackfill = 0,
     cf_BackfillMaxCount = 0, cf_BackfillMaxAge = 0, cf_ExecutionRetention = 0, cf_ResultRetention = 0,
     cf_MaxPendingResults = 0, cf_MaxPendingResultsPerInstance = 0\<rparr>"

text \<open>A field that is not positive takes its default.\<close>

definition positiveOr :: "int \<Rightarrow> int \<Rightarrow> int" where
  "positiveOr v d = (if v \<le> 0 then d else v)"

definition nonzeroOr :: "u64 \<Rightarrow> u64 \<Rightarrow> u64" where
  "nonzeroOr v d = (if v = 0 then d else v)"

definition config_normalized :: "config \<Rightarrow> config" where
  "config_normalized c =
     (let age = positiveOr (cf_BackfillMaxAge c) DefaultBackfillMaxAge;
          retention = positiveOr (cf_ExecutionRetention c) DefaultExecutionRetention
      in \<lparr>cf_Lease = positiveOr (cf_Lease c) DefaultLease,
          cf_MaxExecution = positiveOr (cf_MaxExecution c) DefaultMaxExecution,
          cf_ReconcileInterval = positiveOr (cf_ReconcileInterval c) DefaultReconcileInterval,
          cf_DispatchBatch = positiveOr (cf_DispatchBatch c) DefaultDispatchBatch,
          cf_RedispatchDelay = positiveOr (cf_RedispatchDelay c) DefaultRedispatchDelay,
          cf_RetryInitialDelay = positiveOr (cf_RetryInitialDelay c) DefaultRetryInitialDelay,
          cf_RetryMaxDelay = positiveOr (cf_RetryMaxDelay c) DefaultRetryMaxDelay,
          cf_DefaultBackfill = cf_DefaultBackfill c,
          cf_BackfillMaxCount = nonzeroOr (cf_BackfillMaxCount c) DefaultBackfillMaxCount,
          cf_BackfillMaxAge = age,
          cf_ExecutionRetention = (if retention < age then age else retention),
          cf_ResultRetention = positiveOr (cf_ResultRetention c) DefaultResultRetention,
          cf_MaxPendingResults = nonzeroOr (cf_MaxPendingResults c) DefaultMaxPendingResults,
          cf_MaxPendingResultsPerInstance =
            nonzeroOr (cf_MaxPendingResultsPerInstance c) DefaultMaxPendingResultsPerInstance\<rparr>)"

section \<open>Retries\<close>

definition firstAttemptNumber :: u32 where "firstAttemptNumber = 1"

definition maxFunctionAttempts :: "retrySpec \<Rightarrow> u32" where
  "maxFunctionAttempts spec =
     (if rt_Policy spec = RetryPolicyInherit then DefaultMaxRetries + firstAttemptNumber
      else if rt_Policy spec = RetryPolicyNone then firstAttemptNumber
      else if rt_Policy spec = RetryPolicyImmediate \<or> rt_Policy spec = RetryPolicyFixed
        \<or> rt_Policy spec = RetryPolicyExponential then rt_MaxRetries spec + firstAttemptNumber
      else DefaultMaxRetries + firstAttemptNumber)"

record 'f float64 =
  fl_frombits :: "u64 \<Rightarrow> 'f"
  fl_of_int :: "int \<Rightarrow> 'f"
  fl_isnan :: "'f \<Rightarrow> bool"
  fl_isinf :: "'f \<Rightarrow> bool"
  fl_le :: "'f \<Rightarrow> 'f \<Rightarrow> bool"
  fl_less :: "'f \<Rightarrow> 'f \<Rightarrow> bool"
  fl_sub :: "'f \<Rightarrow> 'f \<Rightarrow> 'f"
  fl_mul :: "'f \<Rightarrow> 'f \<Rightarrow> 'f"
  fl_pow :: "'f \<Rightarrow> 'f \<Rightarrow> 'f"
  fl_to_duration :: "'f \<Rightarrow> duration"

definition DefaultRetryMultiplier :: int where "DefaultRetryMultiplier = 2"

definition retryDelay :: "'f float64 \<Rightarrow> retrySpec \<Rightarrow> u32 \<Rightarrow> config \<Rightarrow> duration" where
  "retryDelay fl spec consumedAttempts cfg =
     (let initial = millisDuration (rt_InitialDelayMillis spec);
          initial = (if initial \<le> 0 then cf_RetryInitialDelay cfg else initial);
          maxDelay = millisDuration (rt_MaxDelayMillis spec);
          maxDelay = (if maxDelay \<le> 0 then cf_RetryMaxDelay cfg else maxDelay);
          multiplier = fl_frombits fl (rt_MultiplierBits spec);
          multiplier = (if fl_le fl multiplier (fl_of_int fl 1) \<or> fl_isnan fl multiplier \<or> fl_isinf fl multiplier
                        then fl_of_int fl DefaultRetryMultiplier else multiplier)
      in if rt_Policy spec = RetryPolicyImmediate then 0
         else if rt_Policy spec = RetryPolicyFixed then initial
         else if rt_Policy spec = RetryPolicyNone then 0
         else if rt_Policy spec = RetryPolicyInherit \<or> rt_Policy spec = RetryPolicyExponential then
           (let e = fl_sub fl (fl_of_int fl (uint consumedAttempts)) (fl_of_int fl (uint firstAttemptNumber));
                e = (if fl_less fl e (fl_of_int fl 0) then fl_of_int fl 0 else e);
                scaled = fl_mul fl (fl_of_int fl initial) (fl_pow fl multiplier e)
            in if fl_less fl (fl_of_int fl maxDelay) scaled then maxDelay else fl_to_duration fl scaled)
         else initial)"

section \<open>Counters\<close>

record metrics =
  mt_Dispatches :: u64
  mt_DispatchFailures :: u64
  mt_FunctionSuccesses :: u64
  mt_FunctionFailures :: u64
  mt_FunctionRetries :: u64
  mt_InfraRedispatches :: u64
  mt_WaitingExecutor :: u64
  mt_WaitingCompatible :: u64
  mt_WaitingCapacity :: u64
  mt_WaitingLabel :: u64
  mt_SkippedOverlaps :: u64
  mt_BackfillCreated :: u64
  mt_BackfillSkipped :: u64
  mt_StaleMessages :: u64
  mt_ProtocolErrors :: u64
  mt_LabelPinFallbacks :: u64
  mt_LabelUpdatesRejected :: u64
  mt_LabelWithdrawnInFlight :: u64
  mt_ResultsStored :: u64
  mt_ResultsDelivered :: u64
  mt_ResultsRedelivered :: u64
  mt_ResultsAcked :: u64
  mt_ResultsDropped :: u64
  mt_ResultsExpired :: u64
  mt_ResultsAbandoned :: u64
  mt_ExecutionsExpired :: u64
  mt_AttemptsPurged :: u64

definition zeroMetrics :: metrics where
  "zeroMetrics = \<lparr>mt_Dispatches = 0, mt_DispatchFailures = 0, mt_FunctionSuccesses = 0,
     mt_FunctionFailures = 0, mt_FunctionRetries = 0, mt_InfraRedispatches = 0, mt_WaitingExecutor = 0,
     mt_WaitingCompatible = 0, mt_WaitingCapacity = 0, mt_WaitingLabel = 0, mt_SkippedOverlaps = 0,
     mt_BackfillCreated = 0, mt_BackfillSkipped = 0, mt_StaleMessages = 0, mt_ProtocolErrors = 0,
     mt_LabelPinFallbacks = 0, mt_LabelUpdatesRejected = 0, mt_LabelWithdrawnInFlight = 0,
     mt_ResultsStored = 0, mt_ResultsDelivered = 0, mt_ResultsRedelivered = 0, mt_ResultsAcked = 0,
     mt_ResultsDropped = 0, mt_ResultsExpired = 0, mt_ResultsAbandoned = 0, mt_ExecutionsExpired = 0,
     mt_AttemptsPurged = 0\<rparr>"

definition metrics_Snapshot :: "metrics \<Rightarrow> (string, u64) alist" where
  "metrics_Snapshot m =
     [(''dispatches'', mt_Dispatches m), (''dispatch_failures'', mt_DispatchFailures m),
      (''function_successes'', mt_FunctionSuccesses m), (''function_failures'', mt_FunctionFailures m),
      (''function_retries'', mt_FunctionRetries m), (''infra_redispatches'', mt_InfraRedispatches m),
      (''waiting_executor'', mt_WaitingExecutor m), (''waiting_compatible'', mt_WaitingCompatible m),
      (''waiting_capacity'', mt_WaitingCapacity m), (''waiting_label'', mt_WaitingLabel m),
      (''skipped_overlaps'', mt_SkippedOverlaps m), (''backfill_created'', mt_BackfillCreated m),
      (''backfill_skipped'', mt_BackfillSkipped m), (''stale_messages'', mt_StaleMessages m),
      (''protocol_errors'', mt_ProtocolErrors m), (''label_pin_fallbacks'', mt_LabelPinFallbacks m),
      (''label_updates_rejected'', mt_LabelUpdatesRejected m),
      (''label_withdrawn_in_flight'', mt_LabelWithdrawnInFlight m),
      (''results_stored'', mt_ResultsStored m), (''results_delivered'', mt_ResultsDelivered m),
      (''results_redelivered'', mt_ResultsRedelivered m), (''results_acked'', mt_ResultsAcked m),
      (''results_dropped'', mt_ResultsDropped m), (''results_expired'', mt_ResultsExpired m),
      (''results_abandoned'', mt_ResultsAbandoned m), (''executions_expired'', mt_ExecutionsExpired m),
      (''attempts_purged'', mt_AttemptsPurged m)]"

section \<open>Properties\<close>

lemma positiveOr_pos: "0 < d \<Longrightarrow> 0 < positiveOr v d" and positiveOr_id [simp]: "0 < v \<Longrightarrow> positiveOr v d = v"
  by (auto simp: positiveOr_def)

lemma nonzeroOr_pos: "d \<noteq> 0 \<Longrightarrow> nonzeroOr v d \<noteq> 0" and nonzeroOr_id [simp]: "v \<noteq> 0 \<Longrightarrow> nonzeroOr v d = v"
  by (auto simp: nonzeroOr_def)

text \<open>
  A normalized configuration is usable whatever it was built from: every duration and cap in
  it is positive, no field that was positive is changed except an execution retention below the
  backfill age, which is raised to it, and normalizing again changes nothing. In particular a
  purged occurrence has already aged out of the backfill window.
\<close>

theorem config_normalized_usable:
  "(let n = config_normalized c in
      0 < cf_Lease n \<and> 0 < cf_MaxExecution n \<and> 0 < cf_ReconcileInterval n \<and> 0 < cf_DispatchBatch n
      \<and> 0 < cf_RedispatchDelay n \<and> 0 < cf_RetryInitialDelay n \<and> 0 < cf_RetryMaxDelay n
      \<and> cf_BackfillMaxCount n \<noteq> 0 \<and> 0 < cf_BackfillMaxAge n \<and> cf_BackfillMaxAge n \<le> cf_ExecutionRetention n
      \<and> 0 < cf_ResultRetention n \<and> cf_MaxPendingResults n \<noteq> 0 \<and> cf_MaxPendingResultsPerInstance n \<noteq> 0
      \<and> cf_ExecutionRetention n =
          max (positiveOr (cf_ExecutionRetention c) DefaultExecutionRetention) (cf_BackfillMaxAge n)
      \<and> config_normalized n = n)"
proof -
  define n where "n = config_normalized c"
  have pos: "0 < cf_Lease n" "0 < cf_MaxExecution n" "0 < cf_ReconcileInterval n" "0 < cf_DispatchBatch n"
    "0 < cf_RedispatchDelay n" "0 < cf_RetryInitialDelay n" "0 < cf_RetryMaxDelay n" "0 < cf_BackfillMaxAge n"
    "0 < cf_ResultRetention n"
    by (simp_all add: n_def config_normalized_def Let_def positiveOr_pos default_config_defs)
  have nz: "cf_BackfillMaxCount n \<noteq> 0" "cf_MaxPendingResults n \<noteq> 0" "cf_MaxPendingResultsPerInstance n \<noteq> 0"
    by (simp_all add: n_def config_normalized_def Let_def nonzeroOr_pos default_config_defs)
  have ret: "cf_ExecutionRetention n =
      max (positiveOr (cf_ExecutionRetention c) DefaultExecutionRetention) (cf_BackfillMaxAge n)"
    by (simp add: n_def config_normalized_def Let_def)
  then have "cf_BackfillMaxAge n \<le> cf_ExecutionRetention n" by simp
  moreover from this pos nz have "config_normalized n = n"
    by (simp add: config_normalized_def Let_def)
  ultimately show ?thesis
    using pos nz ret unfolding n_def [symmetric] Let_def by blast
qed

text \<open>
  A job may run its function once more than the retries it asks for, and the default number of
  times when it asks for none or for an unknown policy; the one exception is a request for the
  largest count, whose budget wraps to zero attempts.
\<close>

theorem attempt_budget:
  "unat (maxFunctionAttempts spec) =
     (if rt_Policy spec = RetryPolicyNone then 1
      else if rt_Policy spec \<in> {RetryPolicyImmediate, RetryPolicyFixed, RetryPolicyExponential} then
        (if rt_MaxRetries spec = - 1 then 0 else unat (rt_MaxRetries spec) + 1)
      else 4)"
proof -
  have "unat (w + 1) = unat w + 1" if "w \<noteq> - 1" for w :: u32
    using that unatSuc [of w] by (simp add: add.commute eq_neg_iff_add_eq_0)
  then show ?thesis
    by (auto simp: maxFunctionAttempts_def firstAttemptNumber_def DefaultMaxRetries_def retryPolicy_defs)
qed

end
