(* ===== verification/Memstore.thy ===== *)
theory Memstore
  imports Store_Types "HOL-Library.Product_Lexorder"
begin

text \<open>
  The in-memory store (\<open>yascheduler/store/memstore/memstore.go\<close>). Every method takes the
  store's lock for its whole body, so each is one atomic operation on the record \<open>memstore\<close>.

  A method that reads the store's clock advances \<open>ms_tick\<close>; \<open>ms_clock\<close> is the sequence of
  instants the time source returns, which nothing constrains. A method whose body can
  dereference a nil pointer returns an \<open>option\<close>, with \<open>None\<close> for the panic. A method that can
  return an error returns it in a sum, beside the store it leaves.
\<close>

section \<open>The store\<close>

type_synonym jobKey = "executorType \<times> string"
type_synonym occurrenceKey = "jobUUID \<times> int"

record memstore =
  ms_jobs :: "(jobUUID, job) alist"
  ms_jobKeys :: "(jobKey, jobUUID) alist"
  ms_executions :: "(executionID, execution) alist"
  ms_occurrences :: "(occurrenceKey, executionID) alist"
  ms_nextExecutionID :: executionID
  ms_attempts :: "(attemptID, attempt) alist"
  ms_attemptsByExec :: "(executionID, attemptID list) alist"
  ms_attemptsByHost :: "(instanceID, attemptID list) alist"
  ms_nextAttemptID :: attemptID
  ms_results :: "(jobUUID, pendingResult) alist"
  ms_resultsByInstance :: "(instanceID, jobUUID list) alist"
  ms_maxResults :: u64
  ms_maxResultsPerInstance :: u64
  ms_clock :: "nat \<Rightarrow> time"
  ms_tick :: nat
  ms_executionsOrdered :: "executionID list"

definition DefaultMaxResults :: u64 where "DefaultMaxResults = 1024"
definition DefaultMaxResultsPerInstance :: u64 where "DefaultMaxResultsPerInstance = 256"

definition NewStore :: "u64 \<Rightarrow> u64 \<Rightarrow> (nat \<Rightarrow> time) \<Rightarrow> memstore" where
  "NewStore maxResults maxResultsPerInstance clk = \<lparr>
     ms_jobs = [], ms_jobKeys = [], ms_executions = [], ms_occurrences = [],
     ms_nextExecutionID = 0, ms_attempts = [], ms_attemptsByExec = [], ms_attemptsByHost = [],
     ms_nextAttemptID = 0, ms_results = [], ms_resultsByInstance = [],
     ms_maxResults = (if maxResults = 0 then DefaultMaxResults else maxResults),
     ms_maxResultsPerInstance =
       (if maxResultsPerInstance = 0 then DefaultMaxResultsPerInstance else maxResultsPerInstance),
     ms_clock = clk, ms_tick = 0, ms_executionsOrdered = []\<rparr>"

text \<open>\<open>s.clock()\<close>: the instant read, and the store with the read counted.\<close>

definition readClock :: "memstore \<Rightarrow> time \<times> memstore" where
  "readClock s = (ms_clock s (ms_tick s), s\<lparr>ms_tick := Suc (ms_tick s)\<rparr>)"

abbreviation ms_now :: "memstore \<Rightarrow> time" where
  "ms_now s \<equiv> ms_clock s (ms_tick s)"

definition SetClock :: "memstore \<Rightarrow> (nat \<Rightarrow> time) \<Rightarrow> memstore" where
  "SetClock s clk = s\<lparr>ms_clock := clk, ms_tick := 0\<rparr>"

section \<open>Jobs\<close>

definition scopedKey :: "job \<Rightarrow> jobKey" where
  "scopedKey j = (j_ExecutorType j, j_Key j)"

definition UpsertJob :: "memstore \<Rightarrow> job option \<Rightarrow> ((err + job) \<times> memstore) option" where
  "UpsertJob s jp =
     (case jp of
        None \<Rightarrow> Some (Inl ErrNilJob, s)
      | Some jb \<Rightarrow>
          let (now, s) = readClock s; scoped = scopedKey jb in
          (case map_of (ms_jobKeys s) scoped of
             Some existingID \<Rightarrow>
               (case map_of (ms_jobs s) existingID of
                  None \<Rightarrow> None
                | Some existing \<Rightarrow>
                    let updated = jb\<lparr>
                          j_ID := j_ID existing,
                          j_CreatedAt := j_CreatedAt existing,
                          j_SkippedOccurrences := j_SkippedOccurrences existing,
                          j_Version := j_Version existing + 1,
                          j_UpdatedAt := now\<rparr>
                    in Some (Inr updated,
                         s\<lparr>ms_jobs := AList.update (j_ID existing) updated (ms_jobs s)\<rparr>))
           | None \<Rightarrow>
               if IsZero (j_ID jb) then Some (Inl ErrZeroJobUUID, s)
               else
                 let created = jb\<lparr>j_Version := 1, j_CreatedAt := now, j_UpdatedAt := now\<rparr>
                 in Some (Inr created,
                      s\<lparr>ms_jobs := AList.update (j_ID created) created (ms_jobs s),
                        ms_jobKeys := AList.update scoped (j_ID created) (ms_jobKeys s)\<rparr>)))"

definition GetJob :: "memstore \<Rightarrow> jobUUID \<Rightarrow> err + job" where
  "GetJob s i = (case map_of (ms_jobs s) i of None \<Rightarrow> Inl ErrJobNotFound | Some jb \<Rightarrow> Inr jb)"

definition GetJobByKey :: "memstore \<Rightarrow> executorType \<Rightarrow> string \<Rightarrow> (err + job) option" where
  "GetJobByKey s et key =
     (case map_of (ms_jobKeys s) (et, key) of
        None \<Rightarrow> Some (Inl ErrJobNotFound)
      | Some i \<Rightarrow> map_option Inr (map_of (ms_jobs s) i))"

definition DeleteJob :: "memstore \<Rightarrow> jobUUID \<Rightarrow> bool \<times> memstore" where
  "DeleteJob s i =
     (case map_of (ms_jobs s) i of
        None \<Rightarrow> (False, s)
      | Some jb \<Rightarrow> (True, s\<lparr>ms_jobs := AList.delete i (ms_jobs s),
                       ms_jobKeys := AList.delete (scopedKey jb) (ms_jobKeys s)\<rparr>))"

definition SetJobEnabled :: "memstore \<Rightarrow> jobUUID \<Rightarrow> bool \<Rightarrow> (err + unit) \<times> memstore" where
  "SetJobEnabled s i enabled =
     (case map_of (ms_jobs s) i of
        None \<Rightarrow> (Inl ErrJobNotFound, s)
      | Some jb \<Rightarrow>
          let (now, s) = readClock s in
          (Inr (), s\<lparr>ms_jobs := AList.update i
             (jb\<lparr>j_Enabled := enabled, j_Version := j_Version jb + 1, j_UpdatedAt := now\<rparr>)
             (ms_jobs s)\<rparr>))"

definition AddSkippedOccurrences :: "memstore \<Rightarrow> jobUUID \<Rightarrow> u64 \<Rightarrow> (err + unit) \<times> memstore" where
  "AddSkippedOccurrences s i count =
     (case map_of (ms_jobs s) i of
        None \<Rightarrow> (Inl ErrJobNotFound, s)
      | Some jb \<Rightarrow>
          let (now, s) = readClock s in
          (Inr (), s\<lparr>ms_jobs := AList.update i
             (jb\<lparr>j_SkippedOccurrences := j_SkippedOccurrences jb + count, j_UpdatedAt := now\<rparr>)
             (ms_jobs s)\<rparr>))"

text \<open>\<open>sort.Slice\<close> by identifier: identifiers are distinct, so the order is determined.\<close>

definition ListEnabledJobs :: "memstore \<Rightarrow> job list" where
  "ListEnabledJobs s = sort_key j_ID (filter j_Enabled (map snd (ms_jobs s)))"

section \<open>Executions\<close>

definition occurrenceOf :: "execution \<Rightarrow> occurrenceKey" where
  "occurrenceOf x = (x_JobID x, unixNano (x_ScheduledAt x))"

definition CreateExecution ::
  "memstore \<Rightarrow> jobUUID \<Rightarrow> time \<Rightarrow> executionState \<Rightarrow> bool
     \<Rightarrow> ((err + execution \<times> bool) \<times> memstore) option" where
  "CreateExecution s jobID scheduledAt state backfilled =
     (if map_of (ms_jobs s) jobID = None then Some (Inl ErrJobNotFound, s)
      else
        let key = (jobID, unixNano scheduledAt) in
        (case map_of (ms_occurrences s) key of
           Some existingID \<Rightarrow>
             map_option (\<lambda>x. (Inr (x, False), s)) (map_of (ms_executions s) existingID)
         | None \<Rightarrow>
             let nextID = ms_nextExecutionID s + 1;
                 (now, s) = readClock s;
                 x = \<lparr>x_ID = nextID, x_JobID = jobID, x_ScheduledAt = scheduledAt, x_State = state,
                      x_FunctionAttempts = 0, x_CurrentAttemptID = 0,
                      x_NextAttemptAt = scheduledAt, x_LeaseExpiresAt = zeroTime,
                      x_Backfilled = backfilled, x_LastError = '''', x_WaitReason = '''',
                      x_Version = 1, x_CreatedAt = now, x_UpdatedAt = now\<rparr>
             in Some (Inr (x, True),
                  s\<lparr>ms_nextExecutionID := nextID,
                    ms_executions := AList.update nextID x (ms_executions s),
                    ms_occurrences := AList.update key nextID (ms_occurrences s),
                    ms_executionsOrdered := ms_executionsOrdered s @ [nextID]\<rparr>)))"

definition GetExecution :: "memstore \<Rightarrow> executionID \<Rightarrow> err + execution" where
  "GetExecution s i =
     (case map_of (ms_executions s) i of None \<Rightarrow> Inl ErrExecutionNotFound | Some x \<Rightarrow> Inr x)"

definition orKeep :: "'a option \<Rightarrow> 'a \<Rightarrow> 'a" where
  "orKeep u old = (case u of None \<Rightarrow> old | Some new \<Rightarrow> new)"

text \<open>The assignments of \<open>UpdateExecution\<close> after its checks.\<close>

definition applyUpdate :: "executionUpdate \<Rightarrow> time \<Rightarrow> execution \<Rightarrow> execution" where
  "applyUpdate u now x = x\<lparr>
     x_State := orKeep (u_State u) (x_State x),
     x_FunctionAttempts := orKeep (u_FunctionAttempts u) (x_FunctionAttempts x),
     x_CurrentAttemptID := orKeep (u_CurrentAttemptID u) (x_CurrentAttemptID x),
     x_NextAttemptAt := orKeep (u_NextAttemptAt u) (x_NextAttemptAt x),
     x_LeaseExpiresAt := orKeep (u_LeaseExpiresAt u) (x_LeaseExpiresAt x),
     x_LastError := orKeep (u_LastError u) (x_LastError x),
     x_WaitReason := orKeep (u_WaitReason u) (x_WaitReason x),
     x_Version := x_Version x + 1,
     x_UpdatedAt := now\<rparr>"

text \<open>The state check of \<open>UpdateExecution\<close>: the error it returns, if any.\<close>

definition stateCheck :: "executionUpdate \<Rightarrow> execution \<Rightarrow> err option" where
  "stateCheck u x =
     (case u_State u of
        None \<Rightarrow> None
      | Some to \<Rightarrow>
          if to = x_State x then None
          else if Terminal (x_State x) then Some ErrTerminalState
          else if \<not> CanTransition (x_State x) to then Some ErrIllegalTransition
          else None)"

definition UpdateExecution ::
  "memstore \<Rightarrow> executionID \<Rightarrow> u64 \<Rightarrow> executionUpdate \<Rightarrow> (err + execution) \<times> memstore" where
  "UpdateExecution s i expectedVersion u =
     (case map_of (ms_executions s) i of
        None \<Rightarrow> (Inl ErrExecutionNotFound, s)
      | Some x \<Rightarrow>
          if x_Version x \<noteq> expectedVersion then (Inl ErrVersionConflict, s)
          else (case stateCheck u x of
                  Some e \<Rightarrow> (Inl e, s)
                | None \<Rightarrow>
                    let (now, s) = readClock s; x' = applyUpdate u now x
                    in (Inr x', s\<lparr>ms_executions := AList.update i x' (ms_executions s)\<rparr>)))"

fun executionDue :: "execution \<Rightarrow> time \<Rightarrow> bool" where
  "executionDue x now =
     (case x_State x of
        StateScheduled \<Rightarrow> x_ScheduledAt x \<le> now
      | StateReady \<Rightarrow> x_NextAttemptAt x \<le> now
      | StateRetryWait \<Rightarrow> x_NextAttemptAt x \<le> now
      | _ \<Rightarrow> False)"

fun executionWakeTime :: "execution \<Rightarrow> time option" where
  "executionWakeTime x =
     (case x_State x of
        StateScheduled \<Rightarrow> Some (x_ScheduledAt x)
      | StateReady \<Rightarrow> Some (x_NextAttemptAt x)
      | StateRetryWait \<Rightarrow> Some (x_NextAttemptAt x)
      | _ \<Rightarrow> None)"

text \<open>
  The loops over \<open>executionsOrdered\<close> look every identifier up and dereference what they find;
  a positive limit cuts the sorted result.
\<close>

definition orderedExecutions :: "memstore \<Rightarrow> execution list option" where
  "orderedExecutions s = those (map (map_of (ms_executions s)) (ms_executionsOrdered s))"

definition capped :: "int \<Rightarrow> 'a list \<Rightarrow> 'a list" where
  "capped limit xs = (if 0 < limit \<and> limit < int (length xs) then take (nat limit) xs else xs)"

definition DueExecutions :: "memstore \<Rightarrow> time \<Rightarrow> int \<Rightarrow> execution list option" where
  "DueExecutions s now limit =
     map_option (\<lambda>xs. capped limit
         (sort_key (\<lambda>x. (x_ScheduledAt x, x_ID x)) (filter (\<lambda>x. executionDue x now) xs)))
       (orderedExecutions s)"

text \<open>\<open>NextWakeAt\<close>: the loop over the map of executions, with the pair of its two variables.\<close>

fun earliestWake :: "(time \<times> bool) \<Rightarrow> execution list \<Rightarrow> time \<times> bool" where
  "earliestWake acc [] = acc"
| "earliestWake (earliest, found) (x # xs) =
     (case executionWakeTime x of
        None \<Rightarrow> earliestWake (earliest, found) xs
      | Some wake \<Rightarrow>
          if \<not> found \<or> wake < earliest then earliestWake (wake, True) xs
          else earliestWake (earliest, found) xs)"

definition NextWakeAt :: "memstore \<Rightarrow> time \<times> bool" where
  "NextWakeAt s = earliestWake (zeroTime, False) (map snd (ms_executions s))"

definition ExecutionsInStates :: "memstore \<Rightarrow> executionState list \<Rightarrow> execution list option" where
  "ExecutionsInStates s states =
     map_option (filter (\<lambda>x. x_State x \<in> set states)) (orderedExecutions s)"

definition ExecutionsForJob :: "memstore \<Rightarrow> jobUUID \<Rightarrow> execution list option" where
  "ExecutionsForJob s jobID = map_option (filter (\<lambda>x. x_JobID x = jobID)) (orderedExecutions s)"

definition inLease :: "execution \<Rightarrow> bool" where
  "inLease x \<longleftrightarrow> x_State x = StateDispatching \<or> x_State x = StateRunning"

definition HasActiveExecution :: "memstore \<Rightarrow> jobUUID \<Rightarrow> executionID \<Rightarrow> bool" where
  "HasActiveExecution s jobID exclude =
     list_ex (\<lambda>x. \<not> (x_JobID x \<noteq> jobID \<or> x_ID x = exclude) \<and> inLease x) (map snd (ms_executions s))"

definition HasPendingOccurrence :: "memstore \<Rightarrow> jobUUID \<Rightarrow> bool" where
  "HasPendingOccurrence s jobID =
     list_ex (\<lambda>x. x_JobID x = jobID \<and> \<not> Terminal (x_State x)) (map snd (ms_executions s))"

definition ExpiredLeases :: "memstore \<Rightarrow> time \<Rightarrow> execution list option" where
  "ExpiredLeases s now =
     map_option (filter (\<lambda>x. inLease x \<and> x_LeaseExpiresAt x \<le> now)) (orderedExecutions s)"

text \<open>\<open>detachExecutionOrder\<close> cuts the first occurrence of the identifier out of the slice.\<close>

definition detachExecutionOrder :: "memstore \<Rightarrow> executionID \<Rightarrow> memstore" where
  "detachExecutionOrder s i = s\<lparr>ms_executionsOrdered := remove1 i (ms_executionsOrdered s)\<rparr>"

definition DeleteExecution :: "memstore \<Rightarrow> executionID \<Rightarrow> bool \<times> memstore" where
  "DeleteExecution s i =
     (case map_of (ms_executions s) i of
        None \<Rightarrow> (False, s)
      | Some x \<Rightarrow> (True, detachExecutionOrder
          (s\<lparr>ms_executions := AList.delete i (ms_executions s),
             ms_occurrences := AList.delete (occurrenceOf x) (ms_occurrences s)\<rparr>) i))"

definition ExpiredExecutions :: "memstore \<Rightarrow> time \<Rightarrow> int \<Rightarrow> execution list option" where
  "ExpiredExecutions s before limit =
     map_option (\<lambda>xs. capped limit
         (sort_key (\<lambda>x. (x_UpdatedAt x, x_ID x))
           (filter (\<lambda>x. Terminal (x_State x) \<and> x_UpdatedAt x < before) xs)))
       (orderedExecutions s)"

section \<open>Attempts\<close>

definition CreateAttempt ::
  "memstore \<Rightarrow> executionID \<Rightarrow> u32 \<Rightarrow> instanceID \<Rightarrow> (err + attempt) \<times> memstore" where
  "CreateAttempt s execID number inst =
     (if map_of (ms_executions s) execID = None then (Inl ErrExecutionNotFound, s)
      else
        let nextID = ms_nextAttemptID s + 1;
            (now, s) = readClock s;
            a = \<lparr>a_ID = nextID, a_ExecutionID = execID, a_Number = number, a_InstanceID = inst,
                 a_State = AttemptDispatched, a_Error = '''', a_CreatedAt = now, a_UpdatedAt = now\<rparr>
        in (Inr a,
            s\<lparr>ms_nextAttemptID := nextID,
              ms_attempts := AList.update nextID a (ms_attempts s),
              ms_attemptsByExec := AList.update execID
                (lookupSlice (ms_attemptsByExec s) execID @ [nextID]) (ms_attemptsByExec s),
              ms_attemptsByHost := AList.update inst
                (lookupSlice (ms_attemptsByHost s) inst @ [nextID]) (ms_attemptsByHost s)\<rparr>))"

definition GetAttempt :: "memstore \<Rightarrow> attemptID \<Rightarrow> err + attempt" where
  "GetAttempt s i =
     (case map_of (ms_attempts s) i of None \<Rightarrow> Inl ErrAttemptNotFound | Some a \<Rightarrow> Inr a)"

text \<open>
  The three detach helpers have one shape, \<open>detachFrom\<close>: the first occurrence of the identifier is cut out
  of the slice under the key (the slice is written back only when it was found), and an empty
  slice is dropped from the map.
\<close>

definition detachAttemptFromExec :: "memstore \<Rightarrow> executionID \<Rightarrow> attemptID \<Rightarrow> memstore" where
  "detachAttemptFromExec s execID i =
     s\<lparr>ms_attemptsByExec := detachFrom execID i (ms_attemptsByExec s)\<rparr>"

definition detachAttemptFromHost :: "memstore \<Rightarrow> instanceID \<Rightarrow> attemptID \<Rightarrow> memstore" where
  "detachAttemptFromHost s inst i =
     s\<lparr>ms_attemptsByHost := detachFrom inst i (ms_attemptsByHost s)\<rparr>"

definition detachResult :: "memstore \<Rightarrow> instanceID \<Rightarrow> jobUUID \<Rightarrow> memstore" where
  "detachResult s inst i =
     s\<lparr>ms_resultsByInstance := detachFrom inst i (ms_resultsByInstance s)\<rparr>"

definition UpdateAttemptState ::
  "memstore \<Rightarrow> attemptID \<Rightarrow> attemptState list \<Rightarrow> attemptState \<Rightarrow> string
     \<Rightarrow> (err + bool) \<times> memstore" where
  "UpdateAttemptState s i from to errorText =
     (case map_of (ms_attempts s) i of
        None \<Rightarrow> (Inl ErrAttemptNotFound, s)
      | Some a \<Rightarrow>
          if from \<noteq> [] \<and> a_State a \<notin> set from then (Inr False, s)
          else
            let (now, s) = readClock s;
                a' = a\<lparr>a_State := to,
                       a_Error := (if errorText \<noteq> '''' then errorText else a_Error a),
                       a_UpdatedAt := now\<rparr>;
                s' = s\<lparr>ms_attempts := AList.update i a' (ms_attempts s)\<rparr>
            in (Inr True,
                if AttemptTerminal to then detachAttemptFromHost s' (a_InstanceID a) i else s'))"

definition AttemptsForExecution :: "memstore \<Rightarrow> executionID \<Rightarrow> attempt list option" where
  "AttemptsForExecution s execID =
     those (map (map_of (ms_attempts s)) (lookupSlice (ms_attemptsByExec s) execID))"

definition AttemptsOnInstance ::
  "memstore \<Rightarrow> instanceID \<Rightarrow> attemptState list \<Rightarrow> attempt list option" where
  "AttemptsOnInstance s inst states =
     map_option (filter (\<lambda>a. states = [] \<or> a_State a \<in> set states))
       (those (map (map_of (ms_attempts s)) (lookupSlice (ms_attemptsByHost s) inst)))"

definition DeleteAttempt :: "memstore \<Rightarrow> attemptID \<Rightarrow> bool \<times> memstore" where
  "DeleteAttempt s i =
     (case map_of (ms_attempts s) i of
        None \<Rightarrow> (False, s)
      | Some a \<Rightarrow> (True, detachAttemptFromHost
          (detachAttemptFromExec (s\<lparr>ms_attempts := AList.delete i (ms_attempts s)\<rparr>)
             (a_ExecutionID a) i)
          (a_InstanceID a) i))"

section \<open>Pending results\<close>

definition StoreResult :: "memstore \<Rightarrow> pendingResult option \<Rightarrow> (err + bool) \<times> memstore" where
  "StoreResult s rp =
     (case rp of
        None \<Rightarrow> (Inl ErrNilResult, s)
      | Some r \<Rightarrow>
          let existing = map_of (ms_results s) (r_JobUUID r);
              found = (existing \<noteq> None);
              moved = (case existing of None \<Rightarrow> False | Some x \<Rightarrow> r_InstanceID x \<noteq> r_InstanceID r);
              held = lookupSlice (ms_resultsByInstance s) (r_InstanceID r)
          in
          if \<not> found \<and> unat (ms_maxResults s) \<le> length (ms_results s) then (Inr False, s)
          else if (\<not> found \<or> moved) \<and> unat (ms_maxResultsPerInstance s) \<le> length held
          then (Inr False, s)
          else
            let (stored, s) =
                  (case existing of
                     Some x \<Rightarrow> (r\<lparr>r_Attempts := r_Attempts x, r_CreatedAt := r_CreatedAt x,
                                  r_LastSentAt := r_LastSentAt x\<rparr>, s)
                   | None \<Rightarrow> let (now, s) = readClock s
                             in (r\<lparr>r_Attempts := 0, r_CreatedAt := now, r_LastSentAt := zeroTime\<rparr>, s));
                s = (case existing of
                       Some x \<Rightarrow> if moved then detachResult s (r_InstanceID x) (r_JobUUID r) else s
                     | None \<Rightarrow> s);
                s = (if \<not> found \<or> moved
                     then s\<lparr>ms_resultsByInstance := AList.update (r_InstanceID r)
                              (lookupSlice (ms_resultsByInstance s) (r_InstanceID r) @ [r_JobUUID r])
                              (ms_resultsByInstance s)\<rparr>
                     else s)
            in (Inr True, s\<lparr>ms_results := AList.update (r_JobUUID r) stored (ms_results s)\<rparr>))"

definition DeleteResult :: "memstore \<Rightarrow> jobUUID \<Rightarrow> bool \<times> memstore" where
  "DeleteResult s i =
     (case map_of (ms_results s) i of
        None \<Rightarrow> (False, s)
      | Some r \<Rightarrow> (True, detachResult (s\<lparr>ms_results := AList.delete i (ms_results s)\<rparr>)
                           (r_InstanceID r) i))"

text \<open>
  \<open>ResultsForInstance\<close>: the loop stops at a positive limit before it dereferences the next
  entry.
\<close>

fun collectResults ::
  "(jobUUID, pendingResult) alist \<Rightarrow> int \<Rightarrow> pendingResult list \<Rightarrow> jobUUID list
     \<Rightarrow> pendingResult list option" where
  "collectResults m limit acc [] = Some acc"
| "collectResults m limit acc (i # is) =
     (if 0 < limit \<and> limit \<le> int (length acc) then Some acc
      else case map_of m i of
             None \<Rightarrow> None
           | Some r \<Rightarrow> collectResults m limit (acc @ [r]) is)"

definition ResultsForInstance :: "memstore \<Rightarrow> instanceID \<Rightarrow> int \<Rightarrow> pendingResult list option" where
  "ResultsForInstance s inst limit =
     collectResults (ms_results s) limit [] (lookupSlice (ms_resultsByInstance s) inst)"

definition MarkResultSent :: "memstore \<Rightarrow> jobUUID \<Rightarrow> time \<Rightarrow> (err + unit) \<times> memstore" where
  "MarkResultSent s i at =
     (case map_of (ms_results s) i of
        None \<Rightarrow> (Inl ErrResultNotFound, s)
      | Some r \<Rightarrow> (Inr (), s\<lparr>ms_results := AList.update i
          (r\<lparr>r_Attempts := r_Attempts r + 1, r_LastSentAt := at\<rparr>) (ms_results s)\<rparr>))"

definition ExpiredResults :: "memstore \<Rightarrow> time \<Rightarrow> int \<Rightarrow> pendingResult list" where
  "ExpiredResults s before limit =
     capped limit (sort_key (\<lambda>r. (r_CreatedAt r, r_JobUUID r))
       (filter (\<lambda>r. r_CreatedAt r < before) (map snd (ms_results s))))"

definition CountResults :: "memstore \<Rightarrow> nat" where
  "CountResults s = length (ms_results s)"

end
