(* ===== verification/Ring_Buffer.thy ===== *)
theory Ring_Buffer
  imports Prelude
begin

text \<open>
  The keyed ring buffer (\<open>yaringbuffer/yaringbuffer.go\<close>): a slice of entries, an index from keys
  to positions, and a cursor. Every method runs under the buffer's lock, so each is one
  operation on the record \<open>ring\<close>. Reading or slicing out of range panics, which is \<open>None\<close>; the
  zero value that goes with a \<open>found\<close> of false is \<open>None\<close> of the value.

  The locale \<open>selection_ring\<close> is the contract the registry relies on, over the list of turns:
  the entries in the order in which they will be served.
\<close>

section \<open>The buffer\<close>

record ('k, 'v) ring =
  rb_entries :: "('k \<times> 'v) list"
  rb_cap :: nat
  rb_index :: "('k, nat) alist option"
  rb_cursor :: nat

definition DefaultInitialCapacity :: nat where "DefaultInitialCapacity = 8"
definition GrowthFactor :: nat where "GrowthFactor = 2"

definition ring_New :: "int \<Rightarrow> ('k, 'v) ring" where
  "ring_New initialCapacity =
     (let capacity = (if initialCapacity \<le> 0 then DefaultInitialCapacity else nat initialCapacity)
      in \<lparr>rb_entries = [], rb_cap = capacity, rb_index = Some [], rb_cursor = 0\<rparr>)"

text \<open>The zero value of the type, which the methods initialize lazily.\<close>

definition zeroRing :: "('k, 'v) ring" where
  "zeroRing = \<lparr>rb_entries = [], rb_cap = 0, rb_index = None, rb_cursor = 0\<rparr>"

definition safetyCheck :: "('k, 'v) ring \<Rightarrow> ('k, 'v) ring" where
  "safetyCheck r = (case rb_index r of None \<Rightarrow> r\<lparr>rb_index := Some []\<rparr> | Some _ \<Rightarrow> r)"

definition indexOf :: "('k, 'v) ring \<Rightarrow> ('k, nat) alist" where
  "indexOf r = (case rb_index r of None \<Rightarrow> [] | Some m \<Rightarrow> m)"

definition grow :: "('k, 'v) ring \<Rightarrow> ('k, 'v) ring" where
  "grow r = (let capacity = rb_cap r * GrowthFactor
     in r\<lparr>rb_cap := (if capacity = 0 then DefaultInitialCapacity else capacity)\<rparr>)"

definition ring_Upsert :: "('k, 'v) ring \<Rightarrow> 'k \<Rightarrow> 'v \<Rightarrow> (bool \<times> ('k, 'v) ring) option" where
  "ring_Upsert r key v =
     (let r = safetyCheck r in
      case map_of (indexOf r) key of
        Some pos \<Rightarrow>
          if pos < length (rb_entries r)
          then Some (True, r\<lparr>rb_entries := (rb_entries r)[pos := (fst (rb_entries r ! pos), v)]\<rparr>)
          else None
      | None \<Rightarrow>
          let r = (if length (rb_entries r) = rb_cap r then grow r else r) in
          Some (False, r\<lparr>rb_index := Some (AList.update key (length (rb_entries r)) (indexOf r)),
                         rb_entries := rb_entries r @ [(key, v)]\<rparr>))"

text \<open>The loop of \<open>Remove\<close> that renumbers the entries from a position on.\<close>

fun reindex :: "('k \<times> 'v) list \<Rightarrow> nat \<Rightarrow> ('k, nat) alist \<Rightarrow> ('k, nat) alist" where
  "reindex [] i m = m"
| "reindex (e # es) i m = reindex es (Suc i) (AList.update (fst e) i m)"

definition ring_Remove :: "('k, 'v) ring \<Rightarrow> 'k \<Rightarrow> (bool \<times> ('k, 'v) ring) option" where
  "ring_Remove r key =
     (let r = safetyCheck r in
      case map_of (indexOf r) key of
        None \<Rightarrow> Some (False, r)
      | Some pos \<Rightarrow>
          if pos < length (rb_entries r) then
            let index = AList.delete key (indexOf r);
                entries = take pos (rb_entries r) @ drop (Suc pos) (rb_entries r);
                index = reindex (drop pos entries) pos index;
                cursor = (if pos < rb_cursor r then rb_cursor r - 1 else rb_cursor r);
                cursor = (if length entries \<le> cursor then 0 else cursor)
            in Some (True, r\<lparr>rb_entries := entries, rb_index := Some index, rb_cursor := cursor\<rparr>)
          else None)"

definition ring_Get :: "('k, 'v) ring \<Rightarrow> 'k \<Rightarrow> ('v option \<times> ('k, 'v) ring) option" where
  "ring_Get r key =
     (let r = safetyCheck r in
      case map_of (indexOf r) key of
        None \<Rightarrow> Some (None, r)
      | Some pos \<Rightarrow>
          if pos < length (rb_entries r) then Some (Some (snd (rb_entries r ! pos)), r) else None)"

definition ring_Len :: "('k, 'v) ring \<Rightarrow> nat" where
  "ring_Len r = length (rb_entries r)"

definition ring_Next :: "('k, 'v) ring \<Rightarrow> ('v option \<times> ('k, 'v) ring) option" where
  "ring_Next r =
     (let r = safetyCheck r in
      if rb_entries r = [] then Some (None, r)
      else if rb_cursor r < length (rb_entries r)
      then Some (Some (snd (rb_entries r ! rb_cursor r)),
                 r\<lparr>rb_cursor := (rb_cursor r + 1) mod length (rb_entries r)\<rparr>)
      else None)"

fun scanMatch ::
  "('k, 'v) ring \<Rightarrow> ('v \<Rightarrow> bool) \<Rightarrow> nat list \<Rightarrow> 'v option \<times> ('k, 'v) ring" where
  "scanMatch r match [] = (None, r)"
| "scanMatch r match (offset # offsets) =
     (let total = length (rb_entries r); pos = (rb_cursor r + offset) mod total in
      if match (snd (rb_entries r ! pos))
      then (Some (snd (rb_entries r ! pos)), r\<lparr>rb_cursor := (pos + 1) mod total\<rparr>)
      else scanMatch r match offsets)"

definition ring_NextMatch :: "('k, 'v) ring \<Rightarrow> ('v \<Rightarrow> bool) \<Rightarrow> 'v option \<times> ('k, 'v) ring" where
  "ring_NextMatch r match = (let r = safetyCheck r in scanMatch r match [0..<length (rb_entries r)])"

definition ring_Keys :: "('k, 'v) ring \<Rightarrow> 'k list" where
  "ring_Keys r = map (\<lambda>offset. fst (rb_entries r ! ((rb_cursor r + offset) mod length (rb_entries r))))
     [0..<length (rb_entries r)]"

definition ring_Values :: "('k, 'v) ring \<Rightarrow> 'v list" where
  "ring_Values r = map (\<lambda>offset. snd (rb_entries r ! ((rb_cursor r + offset) mod length (rb_entries r))))
     [0..<length (rb_entries r)]"

definition ring_Clear :: "('k, 'v) ring \<Rightarrow> ('k, 'v) ring" where
  "ring_Clear r = r\<lparr>rb_entries := [], rb_cap := 0, rb_index := Some [], rb_cursor := 0\<rparr>"

section \<open>The contract\<close>

text \<open>Repeated selection, with the values it hands out.\<close>

fun serve :: "('r \<Rightarrow> 'v option \<times> 'r) \<Rightarrow> nat \<Rightarrow> 'r \<Rightarrow> 'v option list \<times> 'r" where
  "serve pick 0 r = ([], r)"
| "serve pick (Suc n) r =
     (let (v, r') = pick r; (vs, r'') = serve pick n r' in (v # vs, r''))"

locale selection_ring =
  fixes inv :: "'r \<Rightarrow> bool"
    and turns :: "'r \<Rightarrow> ('k \<times> 'v) list"
    and upsert :: "'r \<Rightarrow> 'k \<Rightarrow> 'v \<Rightarrow> (bool \<times> 'r) option"
    and remove :: "'r \<Rightarrow> 'k \<Rightarrow> (bool \<times> 'r) option"
    and next_match :: "'r \<Rightarrow> ('v \<Rightarrow> bool) \<Rightarrow> 'v option \<times> 'r"
  assumes distinct_turns: "inv r \<Longrightarrow> distinct (map fst (turns r))"
    and upsert_held: "inv r \<Longrightarrow> key \<in> fst ` set (turns r) \<Longrightarrow>
      \<exists>r'. upsert r key v = Some (True, r') \<and> inv r' \<and> turns r' = AList.update key v (turns r)"
    and upsert_new: "inv r \<Longrightarrow> key \<notin> fst ` set (turns r) \<Longrightarrow>
      \<exists>r' xs ys. upsert r key v = Some (False, r') \<and> inv r'
        \<and> turns r = xs @ ys \<and> turns r' = xs @ (key, v) # ys"
    and remove_turns: "inv r \<Longrightarrow>
      \<exists>r'. remove r key = Some (key \<in> fst ` set (turns r), r') \<and> inv r'
        \<and> turns r' = filter (\<lambda>p. fst p \<noteq> key) (turns r)"
    and match_found: "inv r \<Longrightarrow> turns r = xs @ (key, v) # ys \<Longrightarrow> match v \<Longrightarrow>
      \<forall>p \<in> set xs. \<not> match (snd p) \<Longrightarrow>
      \<exists>r'. next_match r match = (Some v, r') \<and> inv r' \<and> turns r' = ys @ xs @ [(key, v)]"
    and match_none: "inv r \<Longrightarrow> \<forall>p \<in> set (turns r). \<not> match (snd p) \<Longrightarrow>
      \<exists>r'. next_match r match = (None, r') \<and> inv r' \<and> turns r' = turns r"
begin

lemma upsert_set:
  assumes "inv r"
  shows "\<exists>b r'. upsert r key v = Some (b, r') \<and> inv r'
    \<and> set (turns r') = {p \<in> set (turns r). fst p \<noteq> key} \<union> {(key, v)}"
proof (cases "key \<in> fst ` set (turns r)")
  case True
  then show ?thesis
    using upsert_held [OF assms True, of v] set_update_distinct [OF distinct_turns [OF assms]] by metis
next
  case False
  then obtain r' xs ys where r': "upsert r key v = Some (False, r')" "inv r'"
    "turns r = xs @ ys" "turns r' = xs @ (key, v) # ys"
    using upsert_new [OF assms] by blast
  have "set (turns r') = {p \<in> set (turns r). fst p \<noteq> key} \<union> {(key, v)}"
    using False unfolding r'(3,4) by auto
  with r'(1,2) show ?thesis by blast
qed

text \<open>Selection finds a matching entry when there is one, and moves turns without losing any.\<close>

lemma match_cases:
  assumes "inv r"
  obtains
    (found) xs key v ys r' where "turns r = xs @ (key, v) # ys" "match v"
      "\<forall>p \<in> set xs. \<not> match (snd p)" "next_match r match = (Some v, r')" "inv r'"
      "turns r' = ys @ xs @ [(key, v)]"
  | (none) r' where "\<forall>p \<in> set (turns r). \<not> match (snd p)" "next_match r match = (None, r')"
      "inv r'" "turns r' = turns r"
proof (cases "\<exists>p \<in> set (turns r). match (snd p)")
  case True
  then obtain xs p ys where p: "turns r = xs @ p # ys" "match (snd p)" "\<forall>q \<in> set xs. \<not> match (snd q)"
    using split_list_first_prop [of "turns r" "\<lambda>p. match (snd p)"] by blast
  obtain key v where kv: "p = (key, v)" by (cases p)
  have "turns r = xs @ (key, v) # ys" and m: "match v"
    using p(1,2) by (simp_all add: kv)
  with p(3) obtain r' where "next_match r match = (Some v, r')" "inv r'" "turns r' = ys @ xs @ [(key, v)]"
    using match_found [OF assms, of xs key v ys match] by blast
  with \<open>turns r = xs @ (key, v) # ys\<close> m p(3) show ?thesis by (rule found)
next
  case False
  with match_none [OF assms, of match] none show ?thesis by blast
qed

lemma match_set: "inv r \<Longrightarrow> set (turns (snd (next_match r match))) = set (turns r)"
  by (erule match_cases [of r match]) auto

lemma match_inv: "inv r \<Longrightarrow> inv (snd (next_match r match))"
  by (erule match_cases [of r match]) auto

lemma match_filter:
  assumes "inv r"
  shows "map snd (filter (\<lambda>p. match (snd p)) (turns (snd (next_match r match))))
    = rotate1 (map snd (filter (\<lambda>p. match (snd p)) (turns r)))"
    and "fst (next_match r match) = (case map snd (filter (\<lambda>p. match (snd p)) (turns r)) of
      [] \<Rightarrow> None | v # _ \<Rightarrow> Some v)"
  using assms by (auto elim!: match_cases [of r match] simp: filter_empty_conv)

text \<open>Round robin: the matching entries are served in turn, each once before any is served again.\<close>

lemma serve_round_robin:
  assumes "inv r" and "map snd (filter (\<lambda>p. match (snd p)) (turns r)) = vs" and "vs \<noteq> []"
  shows "fst (serve (\<lambda>r. next_match r match) n r) = map (\<lambda>i. Some (vs ! (i mod length vs))) [0..<n]"
  using assms
proof (induction n arbitrary: r vs)
  case 0
  then show ?case by simp
next
  case (Suc n)
  obtain v r' where r': "next_match r match = (v, r')" by (cases "next_match r match")
  have v: "v = Some (hd vs)"
    using match_filter(2) [OF Suc.prems(1), of match] Suc.prems(2,3) r' by (cases vs) auto
  have "fst (serve (\<lambda>r. next_match r match) n r')
      = map (\<lambda>i. Some (rotate1 vs ! (i mod length (rotate1 vs)))) [0..<n]"
    using Suc.prems match_filter(1) [OF Suc.prems(1), of match] match_inv [OF Suc.prems(1), of match] r'
    by (intro Suc.IH) auto
  also have "\<dots> = map (\<lambda>i. Some (vs ! (Suc i mod length vs))) [0..<n]"
    using Suc.prems(3) by (auto simp: nth_rotate1 mod_Suc_eq)
  finally show ?case
    using Suc.prems(3) v r'
    by (cases "serve (\<lambda>r. next_match r match) n r'")
      (simp add: hd_conv_nth upt_conv_Cons map_Suc_upt [symmetric] o_def del: upt_Suc)
qed

end

section \<open>The invariant\<close>

definition rb_inv :: "('k, 'v) ring \<Rightarrow> bool" where
  "rb_inv r \<longleftrightarrow> distinct (map fst (rb_entries r)) \<and> length (rb_entries r) \<le> rb_cap r
     \<and> (\<forall>key i. map_of (indexOf r) key = Some i
          \<longleftrightarrow> i < length (rb_entries r) \<and> fst (rb_entries r ! i) = key)
     \<and> (rb_cursor r < length (rb_entries r) \<or> rb_cursor r = 0)"

definition rb_turns :: "('k, 'v) ring \<Rightarrow> ('k \<times> 'v) list" where
  "rb_turns r = drop (rb_cursor r) (rb_entries r) @ take (rb_cursor r) (rb_entries r)"

lemma rb_turns_rotate: "rb_inv r \<Longrightarrow> rb_turns r = rotate (rb_cursor r) (rb_entries r)"
  by (cases "rb_entries r = []") (auto simp: rb_turns_def rb_inv_def rotate_drop_take)

lemma length_rb_turns [simp]: "length (rb_turns r) = length (rb_entries r)"
  by (simp add: rb_turns_def)

lemma set_rb_turns [simp]: "set (rb_turns r) = set (rb_entries r)"
  unfolding rb_turns_def by (metis append_take_drop_id set_append sup_commute)

lemma rb_turns_distinct: "rb_inv r \<Longrightarrow> distinct (map fst (rb_turns r))"
  by (simp add: rb_turns_rotate rotate_map [symmetric]) (simp add: rb_inv_def)

lemma indexOf_safetyCheck [simp]: "indexOf (safetyCheck r) = indexOf r"
  by (simp add: safetyCheck_def indexOf_def split: option.splits)

lemma safetyCheck_fields [simp]:
  "rb_entries (safetyCheck r) = rb_entries r" "rb_cap (safetyCheck r) = rb_cap r"
  "rb_cursor (safetyCheck r) = rb_cursor r" "rb_turns (safetyCheck r) = rb_turns r"
  by (simp_all add: safetyCheck_def rb_turns_def split: option.splits)

lemma rb_inv_safetyCheck [simp]: "rb_inv (safetyCheck r) = rb_inv r"
  by (simp add: rb_inv_def)

lemma grow_fields [simp]:
  "rb_entries (grow r) = rb_entries r" "rb_index (grow r) = rb_index r"
  "rb_cursor (grow r) = rb_cursor r" "indexOf (grow r) = indexOf r" "rb_cap r < rb_cap (grow r)"
  by (simp_all add: grow_def Let_def indexOf_def GrowthFactor_def DefaultInitialCapacity_def)

lemma rb_inv_New [simp]: "rb_inv (ring_New c)" "rb_turns (ring_New c) = []"
  by (simp_all add: ring_New_def rb_inv_def rb_turns_def indexOf_def Let_def)

lemma rb_inv_zero: "rb_inv zeroRing" "rb_turns zeroRing = []"
  by (simp_all add: zeroRing_def rb_inv_def rb_turns_def indexOf_def)

lemma rb_inv_Clear: "rb_inv (ring_Clear r)" "rb_turns (ring_Clear r) = []"
  by (simp_all add: ring_Clear_def rb_inv_def rb_turns_def indexOf_def)

lemma rb_inv_index:
  assumes "rb_inv r"
  shows "map_of (indexOf r) key = None \<longleftrightarrow> key \<notin> fst ` set (rb_entries r)"
proof -
  have "map_of (indexOf r) key \<noteq> None \<longleftrightarrow> (\<exists>i. map_of (indexOf r) key = Some i)"
    by auto
  also have "\<dots> \<longleftrightarrow> key \<in> fst ` set (rb_entries r)"
    using assms by (force simp: rb_inv_def in_set_conv_nth image_iff)
  finally show ?thesis by blast
qed

text \<open>Replacing a value keeps every turn; a new key joins behind the tail of the slice.\<close>

lemma update_nth_key:
  assumes "distinct (map fst xs)" and "i < length xs" and "fst (xs ! i) = k"
  shows "AList.update k v xs = xs[i := (k, v)]"
  using assms
proof (induction xs arbitrary: i)
  case (Cons x xs)
  then show ?case
    using nth_mem [of "i - 1" xs] by (cases x; cases i) auto
qed simp

lemma rb_Upsert_held:
  assumes inv: "rb_inv r" and "key \<in> fst ` set (rb_turns r)"
  shows "\<exists>r'. ring_Upsert r key v = Some (True, r') \<and> rb_inv r'
    \<and> rb_turns r' = AList.update key v (rb_turns r)"
proof -
  let ?es = "rb_entries r" and ?c = "rb_cursor r"
  obtain i where i: "map_of (indexOf r) key = Some i"
    using assms rb_inv_index [OF inv, of key] by auto
  with inv have key: "i < length ?es" "fst (?es ! i) = key"
    by (simp_all add: rb_inv_def)
  define r' where "r' = safetyCheck r\<lparr>rb_entries := ?es[i := (key, v)]\<rparr>"
  have up: "ring_Upsert r key v = Some (True, r')"
    using i key by (simp add: ring_Upsert_def Let_def r'_def)
  have keys: "map fst (?es[i := (key, v)]) = map fst ?es"
    using key by (simp add: map_update) (metis list_update_id nth_map)
  have "indexOf r' = indexOf r"
    by (simp add: r'_def indexOf_def safetyCheck_def split: option.splits)
  moreover have "fst (?es[i := (key, v)] ! j) = fst (?es ! j)" if "j < length ?es" for j
    using that keys by (metis length_list_update nth_map)
  ultimately have inv': "rb_inv r'"
    using inv keys by (auto simp: rb_inv_def) (auto simp: r'_def rb_inv_def keys)
  have "AList.update key v (rb_turns r) = rb_turns r'"
  proof (cases "i < ?c")
    case True
    then have "rb_turns r ! (length ?es - ?c + i) = ?es ! i"
      using key(1) inv by (auto simp: rb_turns_def rb_inv_def nth_append)
    then show ?thesis
      using True key inv rb_turns_distinct [OF inv]
      by (subst update_nth_key [of _ "length ?es - ?c + i"])
        (auto simp: r'_def rb_turns_def rb_inv_def list_update_append drop_update_cancel take_update_swap)
  next
    case False
    then have "rb_turns r ! (i - ?c) = ?es ! i"
      using key(1) by (auto simp: rb_turns_def nth_append)
    then show ?thesis
      using False key inv rb_turns_distinct [OF inv]
      by (subst update_nth_key [of _ "i - ?c"])
        (auto simp: r'_def rb_turns_def rb_inv_def list_update_append drop_update_swap take_update_cancel)
  qed
  with up inv' show ?thesis by auto
qed

lemma rb_Upsert_new:
  assumes inv: "rb_inv r" and new: "key \<notin> fst ` set (rb_turns r)"
  shows "\<exists>r'. ring_Upsert r key v = Some (False, r') \<and> rb_inv r'
    \<and> rb_turns r' = drop (rb_cursor r) (rb_entries r) @ (key, v) # take (rb_cursor r) (rb_entries r)"
proof -
  let ?s = "safetyCheck r"
  define g where "g = (if length (rb_entries r) = rb_cap r then grow ?s else ?s)"
  define r' where "r' = g\<lparr>rb_index := Some (AList.update key (length (rb_entries r)) (indexOf r)),
      rb_entries := rb_entries r @ [(key, v)]\<rparr>"
  have g: "rb_entries g = rb_entries r" "rb_cursor g = rb_cursor r" "indexOf g = indexOf r"
    "length (rb_entries r) < rb_cap g"
    using inv grow_fields(5) [of ?s] by (auto simp: g_def rb_inv_def)
  have none: "map_of (indexOf r) key = None"
    using new rb_inv_index [OF inv, of key] by simp
  then have "ring_Upsert r key v = Some (False, r')"
    using g by (simp add: ring_Upsert_def Let_def r'_def g_def [symmetric])
  moreover have "rb_inv r'"
    using inv g new
    by (auto simp: rb_inv_def r'_def indexOf_def [of "g\<lparr>rb_index := _, rb_entries := _\<rparr>"]
        AList.update_conv' nth_append image_iff less_Suc_eq dest: nth_mem)
  moreover have "rb_turns r' = drop (rb_cursor r) (rb_entries r) @ (key, v) # take (rb_cursor r) (rb_entries r)"
    using inv g by (auto simp: rb_turns_def r'_def rb_inv_def)
  ultimately show ?thesis by blast
qed

lemma reindex_out: "key \<notin> fst ` set es \<Longrightarrow> map_of (reindex es i m) key = map_of m key"
  by (induction es i m rule: reindex.induct) (auto simp: AList.update_conv')

lemma reindex_in:
  assumes "distinct (map fst es)" and "j < length es"
  shows "map_of (reindex es i m) (fst (es ! j)) = Some (i + j)"
  using assms
proof (induction es arbitrary: i j m)
  case (Cons e es)
  then show ?case
    by (cases j) (auto simp: reindex_out AList.update_conv')
qed simp

lemma index_iff:
  assumes "distinct (map fst es)" and "\<And>j. j < length es \<Longrightarrow> map_of m (fst (es ! j)) = Some j"
    and "\<And>k. k \<notin> fst ` set es \<Longrightarrow> map_of m k = None"
  shows "map_of m k = Some j \<longleftrightarrow> j < length es \<and> fst (es ! j) = k"
proof
  assume k: "map_of m k = Some j"
  with assms(3) obtain n where "n < length es" "fst (es ! n) = k"
    by (metis (no_types, lifting) imageE in_set_conv_nth option.distinct(1))
  with k assms(2) show "j < length es \<and> fst (es ! j) = k" by force
qed (use assms(2) in auto)

text \<open>Removal compacts the slice and keeps the next turn.\<close>

lemma rb_Remove_absent:
  "rb_inv r \<Longrightarrow> key \<notin> fst ` set (rb_turns r) \<Longrightarrow> ring_Remove r key = Some (False, safetyCheck r)"
  using rb_inv_index [of r key] by (simp add: ring_Remove_def Let_def)

lemma rb_Remove_held:
  assumes inv: "rb_inv r" and "key \<in> fst ` set (rb_turns r)"
  shows "\<exists>r'. ring_Remove r key = Some (True, r') \<and> rb_inv r'
    \<and> rb_turns r' = filter (\<lambda>p. fst p \<noteq> key) (rb_turns r)"
proof -
  let ?c = "rb_cursor r"
  obtain i where i: "map_of (indexOf r) key = Some i"
    using assms rb_inv_index [OF inv, of key] by auto
  with inv have key: "i < length (rb_entries r)" "fst (rb_entries r ! i) = key"
    by (simp_all add: rb_inv_def)
  define xs e ys where "xs = take i (rb_entries r)" and "e = rb_entries r ! i"
    and "ys = drop (Suc i) (rb_entries r)"
  have es: "rb_entries r = xs @ e # ys" and len: "length xs = i" and e: "fst e = key"
    using key by (simp_all add: xs_def ys_def e_def id_take_nth_drop [symmetric])
  have dist: "distinct (map fst (xs @ e # ys))"
    using inv by (simp add: rb_inv_def es)
  then have absent: "key \<notin> fst ` set xs" "key \<notin> fst ` set ys" and dist': "distinct (map fst (xs @ ys))"
    by (auto simp: e)
  define c1 where "c1 = (if i < ?c then ?c - 1 else ?c)"
  define c2 where "c2 = (if length (xs @ ys) \<le> c1 then 0 else c1)"
  define idx where "idx = reindex ys i (AList.delete key (indexOf r))"
  define r' where "r' = safetyCheck r\<lparr>rb_entries := xs @ ys, rb_index := Some idx, rb_cursor := c2\<rparr>"
  have rem: "ring_Remove r key = Some (True, r')"
    using i key(1) len
    by (simp add: ring_Remove_def Let_def r'_def idx_def c2_def c1_def xs_def [symmetric] ys_def [symmetric])
  have old: "map_of (indexOf r) (fst (xs ! j)) = Some j" if "j < i" for j
    using inv that len by (simp add: rb_inv_def es nth_append)
  have new: "map_of idx (fst ((xs @ ys) ! j)) = Some j" if "j < length (xs @ ys)" for j
  proof (cases "j < i")
    case True
    then have "xs ! j \<in> set xs" using len by simp
    with dist' absent have "fst (xs ! j) \<notin> fst ` set ys" "fst (xs ! j) \<noteq> key" by auto
    with True old len show ?thesis
      by (simp add: idx_def reindex_out AList.delete_conv' nth_append)
  next
    case False
    with that len dist' reindex_in [of ys "j - i" i] show ?thesis
      by (simp add: idx_def nth_append)
  qed
  have none: "map_of idx k = None" if "k \<notin> fst ` set (xs @ ys)" for k
  proof -
    have "map_of idx k = (if k = key then None else map_of (indexOf r) k)"
      using that reindex_out [of k ys] by (simp add: idx_def AList.delete_conv' image_Un)
    with that rb_inv_index [OF inv, of k] e show ?thesis by (auto simp: es)
  qed
  have "length (xs @ ys) \<le> rb_cap r"
    using inv by (simp add: rb_inv_def es)
  moreover have "indexOf r' = idx" "rb_entries r' = xs @ ys" "rb_cap r' = rb_cap r" "rb_cursor r' = c2"
    by (simp_all add: r'_def indexOf_def)
  moreover have "c2 < length (xs @ ys) \<or> c2 = 0"
    by (simp add: c2_def)
  ultimately have "rb_inv r'"
    using dist' index_iff [OF dist' new none] unfolding rb_inv_def by simp
  moreover have "rb_turns r' = filter (\<lambda>p. fst p \<noteq> key) (rb_turns r)"
  proof -
    have keep: "filter (\<lambda>p. fst p \<noteq> key) zs = zs" if "set zs \<subseteq> set xs \<union> set ys" for zs
      using absent that by (intro filter_True) auto
    have "rb_turns r' = drop c1 (xs @ ys) @ take c1 (xs @ ys)"
      by (simp add: rb_turns_def r'_def c2_def)
    also have "\<dots> = filter (\<lambda>p. fst p \<noteq> key) (drop ?c (xs @ e # ys) @ take ?c (xs @ e # ys))"
    proof (cases "i < ?c")
      case True
      then obtain d where c: "?c = Suc (i + d)" using less_iff_Suc_add by blast
      have "set (drop d ys) \<subseteq> set xs \<union> set ys" "set xs \<subseteq> set xs \<union> set ys" "set (take d ys) \<subseteq> set xs \<union> set ys"
        using set_drop_subset [of d ys] set_take_subset [of d ys] by auto
      then show ?thesis
        by (simp add: c1_def c len e keep)
    next
      case False
      have "set (drop ?c xs) \<subseteq> set xs \<union> set ys" "set ys \<subseteq> set xs \<union> set ys" "set (take ?c xs) \<subseteq> set xs \<union> set ys"
        using set_drop_subset [of ?c xs] set_take_subset [of ?c xs] by auto
      with False show ?thesis
        by (simp add: c1_def len e keep)
    qed
    finally show ?thesis by (simp add: rb_turns_def es)
  qed
  ultimately show ?thesis using rem by blast
qed

text \<open>Selection scans one lap in turn order.\<close>

lemma rb_turns_nth:
  assumes "rb_inv r" and "n < length (rb_entries r)"
  shows "rb_turns r ! n = rb_entries r ! ((rb_cursor r + n) mod length (rb_entries r))"
  using assms by (simp add: rb_turns_rotate nth_rotate)

lemma rb_turns_advance:
  assumes "rb_inv r" and "rb_turns r = xs @ p # ys"
  shows "rb_inv (r\<lparr>rb_cursor := ((rb_cursor r + length xs) mod length (rb_entries r) + 1) mod length (rb_entries r)\<rparr>)"
    and "rb_turns (r\<lparr>rb_cursor := ((rb_cursor r + length xs) mod length (rb_entries r) + 1) mod length (rb_entries r)\<rparr>)
      = ys @ xs @ [p]"
proof -
  let ?es = "rb_entries r" and ?c = "((rb_cursor r + length xs) mod length (rb_entries r) + 1) mod length (rb_entries r)"
  have len: "length ?es = Suc (length xs + length ys)"
    using arg_cong [OF assms(2), of length] by simp
  then have ne: "0 < length ?es" by simp
  show inv: "rb_inv (r\<lparr>rb_cursor := ?c\<rparr>)"
    using assms(1) ne by (simp add: rb_inv_def indexOf_def)
  have "rb_turns (r\<lparr>rb_cursor := ?c\<rparr>) = rotate ?c ?es"
    using rb_turns_rotate [OF inv] by simp
  also have "\<dots> = rotate (Suc (length xs)) (rotate (rb_cursor r) ?es)"
    by (metis add.commute add_Suc_right mod_Suc_eq plus_1_eq_Suc rotate_conv_mod rotate_rotate)
  also have "\<dots> = rotate (length (xs @ [p])) ((xs @ [p]) @ ys)"
    using assms by (simp flip: rb_turns_rotate)
  also have "\<dots> = ys @ xs @ [p]"
    by (simp only: rotate_append)
  finally show "rb_turns (r\<lparr>rb_cursor := ?c\<rparr>) = ys @ xs @ [p]" .
qed

lemma scanMatch_skip:
  assumes "rb_inv r" and "n \<le> length (rb_entries r)"
    and "\<forall>p \<in> set (take n (rb_turns r)). \<not> match (snd p)"
  shows "scanMatch r match [0..<length (rb_entries r)] = scanMatch r match [n..<length (rb_entries r)]"
  using assms(2,3)
proof (induction n)
  case (Suc n)
  then have "n < length (rb_entries r)" by simp
  moreover from this Suc.prems(2) have "\<not> match (snd (rb_turns r ! n))" "\<forall>p \<in> set (take n (rb_turns r)). \<not> match (snd p)"
    by (auto simp: take_Suc_conv_app_nth)
  ultimately show ?case
    using Suc.IH by (simp add: upt_conv_Cons Let_def rb_turns_nth [OF assms(1)])
qed simp

lemma rb_NextMatch_found:
  assumes inv: "rb_inv r" and turns: "rb_turns r = xs @ (key, v) # ys" and m: "match v"
    and skip: "\<forall>p \<in> set xs. \<not> match (snd p)"
  shows "\<exists>r'. ring_NextMatch r match = (Some v, r') \<and> rb_inv r' \<and> rb_turns r' = ys @ xs @ [(key, v)]"
proof -
  let ?s = "safetyCheck r"
  have len: "length xs < length (rb_entries r)"
    using arg_cong [OF turns, of length] by simp
  have "scanMatch ?s match [0..<length (rb_entries ?s)] = scanMatch ?s match [length xs..<length (rb_entries ?s)]"
    using inv len turns skip by (intro scanMatch_skip) auto
  also have "\<dots> = (Some v, ?s\<lparr>rb_cursor := ((rb_cursor ?s + length xs) mod length (rb_entries ?s) + 1) mod length (rb_entries ?s)\<rparr>)"
  proof -
    have "rb_entries ?s ! ((rb_cursor ?s + length xs) mod length (rb_entries ?s)) = (key, v)"
      using len rb_turns_nth [of ?s "length xs"] inv turns by simp
    moreover have "[length xs..<length (rb_entries ?s)] = length xs # [Suc (length xs)..<length (rb_entries ?s)]"
      using len by (simp add: upt_conv_Cons)
    ultimately show ?thesis
      using m by (simp only: scanMatch.simps Let_def snd_conv if_True)
  qed
  finally show ?thesis
    using rb_turns_advance [of ?s xs "(key, v)" ys] inv turns
    unfolding ring_NextMatch_def Let_def by simp
qed

lemma rb_NextMatch_none:
  assumes "rb_inv r" and "\<forall>p \<in> set (rb_turns r). \<not> match (snd p)"
  shows "ring_NextMatch r match = (None, safetyCheck r)"
  using assms scanMatch_skip [of "safetyCheck r" "length (rb_entries r)" match]
  by (simp add: ring_NextMatch_def Let_def)

interpretation rb: selection_ring rb_inv rb_turns ring_Upsert ring_Remove ring_NextMatch
proof
  fix r :: "('k, 'v) ring" and key :: 'k and v :: 'v
  assume inv: "rb_inv r"
  then show "distinct (map fst (rb_turns r))" by (rule rb_turns_distinct)
  show "\<exists>r'. ring_Upsert r key v = Some (True, r') \<and> rb_inv r' \<and> rb_turns r' = AList.update key v (rb_turns r)"
    if "key \<in> fst ` set (rb_turns r)"
    using inv that by (rule rb_Upsert_held)
  show "\<exists>r' xs ys. ring_Upsert r key v = Some (False, r') \<and> rb_inv r'
      \<and> rb_turns r = xs @ ys \<and> rb_turns r' = xs @ (key, v) # ys"
    if "key \<notin> fst ` set (rb_turns r)"
    using rb_Upsert_new [OF inv that, of v] unfolding rb_turns_def [of r] by blast
  show "\<exists>r'. ring_Remove r key = Some (key \<in> fst ` set (rb_turns r), r') \<and> rb_inv r'
      \<and> rb_turns r' = filter (\<lambda>p. fst p \<noteq> key) (rb_turns r)"
  proof (cases "key \<in> fst ` set (rb_turns r)")
    case True
    then show ?thesis using rb_Remove_held [OF inv True] by simp
  next
    case False
    then have "filter (\<lambda>p. fst p \<noteq> key) (rb_turns r) = rb_turns r"
      by (intro filter_True) auto
    with False show ?thesis using rb_Remove_absent [OF inv False] inv by simp
  qed
next
  fix r :: "('k, 'v) ring" and xs ys :: "('k \<times> 'v) list" and key :: 'k and v :: 'v and match :: "'v \<Rightarrow> bool"
  assume "rb_inv r" "rb_turns r = xs @ (key, v) # ys" "match v" "\<forall>p \<in> set xs. \<not> match (snd p)"
  then show "\<exists>r'. ring_NextMatch r match = (Some v, r') \<and> rb_inv r' \<and> rb_turns r' = ys @ xs @ [(key, v)]"
    by (rule rb_NextMatch_found)
next
  fix r :: "('k, 'v) ring" and match :: "'v \<Rightarrow> bool"
  assume "rb_inv r" "\<forall>p \<in> set (rb_turns r). \<not> match (snd p)"
  then show "\<exists>r'. ring_NextMatch r match = (None, r') \<and> rb_inv r' \<and> rb_turns r' = rb_turns r"
    using rb_NextMatch_none by fastforce
qed

lemma ring_Values_turns: "rb_inv r \<Longrightarrow> ring_Values r = map snd (rb_turns r)"
  by (rule nth_equalityI) (simp_all add: ring_Values_def rb_turns_nth)

lemma ring_Keys_turns: "rb_inv r \<Longrightarrow> ring_Keys r = map fst (rb_turns r)"
  by (rule nth_equalityI) (simp_all add: ring_Keys_def rb_turns_nth)

lemma ring_Get_turns:
  assumes "rb_inv r"
  shows "ring_Get r key = Some (map_of (rb_turns r) key, safetyCheck r)"
proof (cases "map_of (indexOf r) key")
  case None
  with assms rb_inv_index [OF assms, of key] have "map_of (rb_turns r) key = None"
    by (simp add: map_of_eq_None_iff)
  with None show ?thesis by (simp add: ring_Get_def Let_def)
next
  case (Some i)
  with assms have i: "i < length (rb_entries r)" "fst (rb_entries r ! i) = key"
    by (simp_all add: rb_inv_def)
  then have "(key, snd (rb_entries r ! i)) \<in> set (rb_turns r)"
    by (metis nth_mem prod.collapse set_rb_turns)
  with Some i rb_turns_distinct [OF assms] show ?thesis by (simp add: ring_Get_def Let_def)
qed

lemma ring_Next_match: "rb_inv r \<Longrightarrow> ring_Next r = Some (ring_NextMatch r (\<lambda>_. True))"
  by (cases "rb_entries r")
     (auto simp: ring_Next_def ring_NextMatch_def Let_def rb_inv_def upt_conv_Cons simp del: upt_Suc)

declare set_rb_turns [simp del]

section \<open>Runs\<close>

text \<open>The calls that change a buffer, in any order.\<close>

datatype ('k, 'v) ring_op =
    RingUpsert 'k 'v
  | RingRemove 'k
  | RingNext
  | RingNextMatch "'v \<Rightarrow> bool"
  | RingClear

fun ring_step :: "('k, 'v) ring_op \<Rightarrow> ('k, 'v) ring \<Rightarrow> ('k, 'v) ring option" where
  "ring_step (RingUpsert key v) r = map_option snd (ring_Upsert r key v)"
| "ring_step (RingRemove key) r = map_option snd (ring_Remove r key)"
| "ring_step RingNext r = map_option snd (ring_Next r)"
| "ring_step (RingNextMatch match) r = Some (snd (ring_NextMatch r match))"
| "ring_step RingClear r = Some (ring_Clear r)"

fun ring_run :: "('k, 'v) ring_op list \<Rightarrow> ('k, 'v) ring \<Rightarrow> ('k, 'v) ring option" where
  "ring_run [] r = Some r"
| "ring_run (c # cs) r = Option.bind (ring_step c r) (ring_run cs)"

lemma ring_step_inv: "rb_inv r \<Longrightarrow> \<exists>r'. ring_step c r = Some r' \<and> rb_inv r'"
  using rb.upsert_set [of r] rb.remove_turns [of r] rb.match_inv [of r] rb_inv_Clear [of r]
  by (cases c) (fastforce simp: ring_Next_match)+

lemma ring_run_inv: "rb_inv r \<Longrightarrow> \<exists>r'. ring_run cs r = Some r' \<and> rb_inv r'"
proof (induction cs arbitrary: r)
  case (Cons c cs)
  then show ?case using ring_step_inv [of r c] by auto
qed simp

text \<open>
  No sequence of calls on a ring buffer, from a fresh or a zero one, indexes its slice out of
  range; afterwards the index and the slice agree: the keys are distinct, their number is the
  length, and \<open>Get\<close> finds the value of every key that is listed and of no other.
\<close>

theorem ring_runs_safely:
  "\<exists>r. ring_run cs (ring_New c) = Some r \<and> distinct (ring_Keys r) \<and> ring_Len r = length (ring_Keys r)
     \<and> (\<forall>key. map_option fst (ring_Get r key) = Some (map_of (zip (ring_Keys r) (ring_Values r)) key))"
proof -
  obtain r where r: "ring_run cs (ring_New c) = Some r" "rb_inv r"
    using ring_run_inv rb_inv_New(1) by blast
  then show ?thesis
    using rb_turns_distinct [of r]
    by (auto simp: ring_Keys_turns ring_Values_turns ring_Len_def ring_Get_turns zip_map_fst_snd)
qed

text \<open>
  Selection is round robin: as long as some value matches, repeated calls of \<open>NextMatch\<close>
  return the matching values in ring order from the cursor, each exactly once per lap, and never
  fail.
\<close>

theorem ring_round_robin:
  assumes "rb_inv r" and "filter match (ring_Values r) = vs" and "vs \<noteq> []"
  shows "fst (serve (\<lambda>r. ring_NextMatch r match) n r) = map (\<lambda>i. Some (vs ! (i mod length vs))) [0..<n]"
  using rb.serve_round_robin [OF assms(1) _ assms(3)] assms(2)
  by (simp add: ring_Values_turns [OF assms(1)] filter_map o_def)

theorem ring_round_robin_witness:
  "fst (serve (\<lambda>r. ring_NextMatch r odd) 5
     (the (ring_run [RingUpsert ''a'' 1, RingUpsert ''b'' 2, RingUpsert ''c'' (3::nat)] (ring_New 0))))
   = [Some 1, Some 3, Some 1, Some 3, Some 1]"
proof -
  let ?cs = "[RingUpsert ''a'' 1, RingUpsert ''b'' 2, RingUpsert ''c'' (3::nat)]"
  let ?r = "the (ring_run ?cs (ring_New 0))"
  obtain r where "ring_run ?cs (ring_New 0) = Some r" "rb_inv r"
    using ring_run_inv [OF rb_inv_New(1)] by blast
  then have "rb_inv ?r" by (simp only: option.sel)
  moreover have "filter odd (ring_Values ?r) = [1, 3]"
    by (simp add: ring_New_def ring_Upsert_def ring_Values_def safetyCheck_def indexOf_def Let_def
        DefaultInitialCapacity_def upt_rec)
  ultimately show ?thesis
    using ring_round_robin [of ?r odd "[1, 3]" 5] by (simp add: upt_rec numeral_2_eq_2 mod_Suc)
qed

text \<open>
  Joining and leaving disturb nobody's turn: replacing the value of a key keeps every key's
  place, a new key is inserted without reordering the others, and removing a key keeps the order
  of the others, starting from the same next one.
\<close>

theorem ring_keeps_turns:
  assumes "rb_inv r"
  shows "(\<exists>r'. ring_Remove r key = Some (key \<in> set (ring_Keys r), r') \<and> rb_inv r'
      \<and> ring_Keys r' = filter (\<lambda>k. k \<noteq> key) (ring_Keys r))
    \<and> (\<exists>r'. ring_Upsert r key v = Some (key \<in> set (ring_Keys r), r') \<and> rb_inv r'
      \<and> filter (\<lambda>k. k \<noteq> key) (ring_Keys r') = filter (\<lambda>k. k \<noteq> key) (ring_Keys r)
      \<and> (key \<in> set (ring_Keys r) \<longrightarrow> ring_Keys r' = ring_Keys r)
      \<and> map_option fst (ring_Get r' key) = Some (Some v))"
proof (intro conjI)
  show "\<exists>r'. ring_Remove r key = Some (key \<in> set (ring_Keys r), r') \<and> rb_inv r'
      \<and> ring_Keys r' = filter (\<lambda>k. k \<noteq> key) (ring_Keys r)"
    using rb.remove_turns [OF assms, of key] assms
    by (auto simp: ring_Keys_turns filter_map o_def)
  show "\<exists>r'. ring_Upsert r key v = Some (key \<in> set (ring_Keys r), r') \<and> rb_inv r'
      \<and> filter (\<lambda>k. k \<noteq> key) (ring_Keys r') = filter (\<lambda>k. k \<noteq> key) (ring_Keys r)
      \<and> (key \<in> set (ring_Keys r) \<longrightarrow> ring_Keys r' = ring_Keys r)
      \<and> map_option fst (ring_Get r' key) = Some (Some v)"
  proof (cases "key \<in> set (ring_Keys r)")
    case True
    then obtain r' where "ring_Upsert r key v = Some (True, r')" "rb_inv r'"
      "rb_turns r' = AList.update key v (rb_turns r)"
      using rb_Upsert_held [OF assms, of key v] by (auto simp: ring_Keys_turns assms)
    moreover from True have "map fst (AList.update key v (rb_turns r)) = map fst (rb_turns r)"
      by (simp add: ring_Keys_turns assms update_keys)
    ultimately show ?thesis
      using True by (simp add: ring_Keys_turns assms ring_Get_turns AList.update_conv')
  next
    case False
    then obtain r' where r': "ring_Upsert r key v = Some (False, r')" "rb_inv r'"
      "rb_turns r' = drop (rb_cursor r) (rb_entries r) @ (key, v) # take (rb_cursor r) (rb_entries r)"
      using rb_Upsert_new [OF assms, of key v] by (auto simp: ring_Keys_turns assms)
    moreover have "map_of (rb_turns r') key = Some v"
      using rb_turns_distinct [OF r'(2)] unfolding r'(3)
      by (subst map_of_Some_iff) (simp_all only: set_append list.set Un_iff insert_iff, simp)
    ultimately show ?thesis
      using False by (simp add: ring_Keys_turns assms ring_Get_turns rb_turns_def filter_map o_def)
  qed
qed

theorem ring_keeps_turns_witness:
  "\<exists>r'. ring_Remove (ring_New 0 :: (string, nat) ring) ''a'' = Some (False, r') \<and> ring_Keys r' = []"
proof -
  have keys: "ring_Keys (ring_New 0 :: (string, nat) ring) = []"
    by (simp add: ring_Keys_turns)
  from ring_keeps_turns [OF rb_inv_New(1), of 0 "''a''" "0::nat"] show ?thesis
    unfolding keys by auto
qed

end
