(* ===== verification/Registry.thy ===== *)
theory Registry
  imports Ring_Buffer Thread_Safe_Set Store_Types
begin

text \<open>
  The executor registry (\<open>yascheduler/engine/registry.go\<close>): the connected executors, a ring of
  them per executor type and a ring per routing label.

  An \<open>*ExecutorEntry\<close> is shared between the maps, the rings and the engine, so entries live in a
  heap \<open>rg_heap\<close> and the maps and rings hold references; a new entry gets the next free
  reference. A ring is reached only through the map that holds it, so it is stored by value in
  the map. The sender of an entry is named by a number; what it does with a message belongs to
  the engine. A method that uses a ring returns \<open>None\<close> where the ring panics.
\<close>

section \<open>Entries\<close>

type_synonym functionKey = "functionName \<times> functionVersion"
type_synonym entryRef = nat
type_synonym senderID = nat

record executorEntry =
  en_instanceID :: instanceID
  en_executorType :: executorType
  en_generation :: u64
  en_capacity :: u32
  en_functions :: "(functionKey, functionSpec) alist"
  en_sender :: senderID
  en_labels :: "label tset"
  en_inFlight :: "attemptID tset"
  en_closed :: bool
  en_lastHeartbeat :: int

definition keyOf :: "functionSpec \<Rightarrow> functionKey" where
  "keyOf spec = (f_Name spec, f_Version spec)"

definition Supports :: "executorEntry \<Rightarrow> functionSpec \<Rightarrow> bool" where
  "Supports e spec =
     (case map_of (en_functions e) (keyOf spec) of
        None \<Rightarrow> False
      | Some loc \<Rightarrow>
          if f_InputSignature spec \<noteq> '''' \<and> f_InputSignature spec \<noteq> f_InputSignature loc then False
          else if f_OutputSignature spec \<noteq> '''' \<and> f_OutputSignature spec \<noteq> f_OutputSignature loc then False
          else True)"

definition entryLabels :: "executorEntry \<Rightarrow> label list" where
  "entryLabels e = set_Values (en_labels e)"

definition HasCapacity :: "executorEntry \<Rightarrow> bool" where
  "HasCapacity e = (if en_capacity e = 0 then True
     else Length (en_inFlight e) < unat (en_capacity e))"

definition Alive :: "executorEntry \<Rightarrow> bool" where
  "Alive e \<longleftrightarrow> \<not> en_closed e"

definition InFlight :: "executorEntry \<Rightarrow> nat" where
  "InFlight e = Length (en_inFlight e)"

section \<open>The registry\<close>

record registryChange =
  rc_ExecutorType :: executorType
  rc_Labels :: "label list"

type_synonym executorRing = "(instanceID, entryRef) ring"

record registry =
  rg_heap :: "entryRef \<Rightarrow> executorEntry"
  rg_free :: entryRef
  rg_pools :: "(executorType, executorRing) alist"
  rg_labelPools :: "(label, executorRing) alist"
  rg_entries :: "(instanceID, entryRef) alist"
  rg_generation :: u64
  rg_notify :: bool

definition nilEntry :: executorEntry where
  "nilEntry = \<lparr>en_instanceID = '''', en_executorType = '''', en_generation = 0, en_capacity = 0,
     en_functions = [], en_sender = 0, en_labels = \<lparr>ts_data = None\<rparr>, en_inFlight = \<lparr>ts_data = None\<rparr>,
     en_closed = False, en_lastHeartbeat = 0\<rparr>"

definition NewExecutorRegistry :: registry where
  "NewExecutorRegistry = \<lparr>rg_heap = \<lambda>_. nilEntry, rg_free = 0, rg_pools = [], rg_labelPools = [],
     rg_entries = [], rg_generation = 0, rg_notify = False\<rparr>"

definition updateEntry :: "registry \<Rightarrow> entryRef \<Rightarrow> (executorEntry \<Rightarrow> executorEntry) \<Rightarrow> registry" where
  "updateEntry rg ref f = rg\<lparr>rg_heap := (rg_heap rg)(ref := f (rg_heap rg ref))\<rparr>"

definition MarkClosed :: "registry \<Rightarrow> entryRef \<Rightarrow> registry" where
  "MarkClosed rg ref = updateEntry rg ref (\<lambda>e. e\<lparr>en_closed := True\<rparr>)"

definition AddInFlight :: "registry \<Rightarrow> entryRef \<Rightarrow> attemptID \<Rightarrow> registry" where
  "AddInFlight rg ref i = updateEntry rg ref (\<lambda>e. e\<lparr>en_inFlight := set_Set (en_inFlight e) i\<rparr>)"

definition ReleaseInFlight :: "registry \<Rightarrow> entryRef \<Rightarrow> attemptID \<Rightarrow> registry" where
  "ReleaseInFlight rg ref i = updateEntry rg ref (\<lambda>e. e\<lparr>en_inFlight := snd (Pop (en_inFlight e) i)\<rparr>)"

definition Heartbeat :: "registry \<Rightarrow> entryRef \<Rightarrow> time \<Rightarrow> registry" where
  "Heartbeat rg ref now = updateEntry rg ref (\<lambda>e. e\<lparr>en_lastHeartbeat := unixNano now\<rparr>)"

text \<open>The pool or ring of a key, created on demand, receives an entry.\<close>

definition joinRing ::
  "('l, executorRing) alist \<Rightarrow> 'l \<Rightarrow> instanceID \<Rightarrow> entryRef \<Rightarrow> ('l, executorRing) alist option" where
  "joinRing m key inst ref =
     (let ring = (case map_of m key of None \<Rightarrow> ring_New 0 | Some ring \<Rightarrow> ring)
      in map_option (\<lambda>(_, ring'). AList.update key ring' m) (ring_Upsert ring inst ref))"

text \<open>\<open>leaveRing\<close> takes an instance out of the ring of a key, if there is one.\<close>

definition leaveRing ::
  "bool \<Rightarrow> ('l, executorRing) alist \<Rightarrow> 'l \<Rightarrow> instanceID \<Rightarrow> ('l, executorRing) alist option" where
  "leaveRing dropEmpty m key inst =
     (case map_of m key of
        None \<Rightarrow> Some m
      | Some ring \<Rightarrow> map_option (\<lambda>(_, ring').
          if dropEmpty \<and> ring_Len ring' = 0 then AList.delete key m else AList.update key ring' m)
            (ring_Remove ring inst))"

fun attachLabels ::
  "(label, executorRing) alist \<Rightarrow> instanceID \<Rightarrow> entryRef \<Rightarrow> label list \<Rightarrow> (label, executorRing) alist option" where
  "attachLabels m inst ref [] = Some m"
| "attachLabels m inst ref (l # ls) =
     do { m \<leftarrow> joinRing m l inst ref; attachLabels m inst ref ls }"

fun detachLabels ::
  "(label, executorRing) alist \<Rightarrow> instanceID \<Rightarrow> label list \<Rightarrow> (label, executorRing) alist option" where
  "detachLabels m inst [] = Some m"
| "detachLabels m inst (l # ls) =
     do { m \<leftarrow> leaveRing True m l inst; detachLabels m inst ls }"

definition SetNotify :: "registry \<Rightarrow> bool \<Rightarrow> registry" where
  "SetNotify rg installed = rg\<lparr>rg_notify := installed\<rparr>"

text \<open>
  \<open>Register\<close> returns the new entry, the one it displaced, and what it tells the notify hook, if
  one is installed.
\<close>

definition labelSetOf :: "label list \<Rightarrow> label tset" where
  "labelSetOf labels = fold (\<lambda>l m. if l = '''' then m else set_Set m l) labels NewThreadSafeSet"

definition functionIndexOf :: "functionSpec list \<Rightarrow> (functionKey, functionSpec) alist" where
  "functionIndexOf functions = fold (\<lambda>spec m. AList.update (keyOf spec) spec m) functions []"

definition Register ::
  "registry \<Rightarrow> instanceID \<Rightarrow> executorType \<Rightarrow> u32 \<Rightarrow> functionSpec list \<Rightarrow> label list \<Rightarrow> senderID
     \<Rightarrow> ((entryRef \<times> entryRef option \<times> registryChange option) \<times> registry) option" where
  "Register rg inst et capacity functions labels sender =
     (let labelSet = labelSetOf labels;
          generation = rg_generation rg + 1;
          ref = rg_free rg;
          entry = \<lparr>en_instanceID = inst, en_executorType = et, en_generation = generation,
            en_capacity = capacity, en_functions = functionIndexOf functions, en_sender = sender,
            en_labels = labelSet, en_inFlight = NewThreadSafeSet, en_closed = False,
            en_lastHeartbeat = 0\<rparr>;
          replaced = map_of (rg_entries rg) inst;
          old = (case replaced of None \<Rightarrow> nilEntry | Some r \<Rightarrow> rg_heap rg r)
      in do {
        pools \<leftarrow> (if replaced \<noteq> None \<and> en_executorType old \<noteq> et
                  then leaveRing False (rg_pools rg) (en_executorType old) inst
                  else Some (rg_pools rg));
        labelPools \<leftarrow> (if replaced \<noteq> None
                  then detachLabels (rg_labelPools rg) inst
                         (set_Values (Difference (en_labels old) labelSet))
                  else Some (rg_labelPools rg));
        pools \<leftarrow> joinRing pools et inst ref;
        labelPools \<leftarrow> attachLabels labelPools inst ref (set_Values labelSet);
        let rg' = rg\<lparr>rg_generation := generation, rg_free := ref + 1,
              rg_heap := (rg_heap rg)(ref := entry),
              rg_entries := AList.update inst ref (rg_entries rg),
              rg_pools := pools, rg_labelPools := labelPools\<rparr>;
        let rg' = (case replaced of None \<Rightarrow> rg' | Some r \<Rightarrow> MarkClosed rg' r);
        let change = (if rg_notify rg
                      then Some \<lparr>rc_ExecutorType = et, rc_Labels = set_Values labelSet\<rparr> else None);
        Some ((ref, replaced, change), rg') })"

definition Deregister :: "registry \<Rightarrow> instanceID \<Rightarrow> u64 \<Rightarrow> (bool \<times> registry) option" where
  "Deregister rg inst generation =
     (case map_of (rg_entries rg) inst of
        None \<Rightarrow> Some (False, rg)
      | Some ref \<Rightarrow>
          let entry = rg_heap rg ref in
          if en_generation entry \<noteq> generation then Some (False, rg)
          else do {
            pools \<leftarrow> leaveRing False (rg_pools rg) (en_executorType entry) inst;
            labelPools \<leftarrow> detachLabels (rg_labelPools rg) inst (entryLabels entry);
            Some (True, MarkClosed (rg\<lparr>rg_entries := AList.delete inst (rg_entries rg),
              rg_pools := pools, rg_labelPools := labelPools\<rparr>) ref) })"

definition rg_Get :: "registry \<Rightarrow> instanceID \<Rightarrow> entryRef option" where
  "rg_Get rg inst = map_of (rg_entries rg) inst"

definition Select :: "registry \<Rightarrow> executorType \<Rightarrow> functionSpec \<Rightarrow> entryRef option \<times> registry" where
  "Select rg et f =
     (case map_of (rg_pools rg) et of
        None \<Rightarrow> (None, rg)
      | Some pool \<Rightarrow>
          let (entry, pool') = ring_NextMatch pool (\<lambda>ref. let c = rg_heap rg ref in
                Alive c \<and> Supports c f \<and> HasCapacity c)
          in (entry, rg\<lparr>rg_pools := AList.update et pool' (rg_pools rg)\<rparr>))"

definition SelectLabeled ::
  "registry \<Rightarrow> executorType \<Rightarrow> functionSpec \<Rightarrow> label \<Rightarrow> entryRef option \<times> registry" where
  "SelectLabeled rg et f l =
     (case map_of (rg_labelPools rg) l of
        None \<Rightarrow> (None, rg)
      | Some ring \<Rightarrow>
          let (entry, ring') = ring_NextMatch ring (\<lambda>ref. let c = rg_heap rg ref in
                Alive c \<and> en_executorType c = et \<and> Supports c f \<and> HasCapacity c)
          in (entry, rg\<lparr>rg_labelPools := AList.update l ring' (rg_labelPools rg)\<rparr>))"

datatype registryError = ErrEmptyLabel | ErrUnknownInstance | ErrLabelLimitExceeded

text \<open>
  \<open>UpdateLabels\<close> returns its count beside its error, and what it tells the notify hook.
\<close>

definition maxInstanceLabels :: u32 where "maxInstanceLabels = DefaultMaxLabels"

definition UpdateLabels ::
  "registry \<Rightarrow> instanceID \<Rightarrow> label list \<Rightarrow> label list
     \<Rightarrow> ((u32 \<times> registryError option \<times> registryChange option) \<times> registry) option" where
  "UpdateLabels rg inst announce withdraw =
     (if '''' \<in> set announce \<or> '''' \<in> set withdraw then Some ((0, Some ErrEmptyLabel, None), rg)
      else (case map_of (rg_entries rg) inst of
        None \<Rightarrow> Some ((0, Some ErrUnknownInstance, None), rg)
      | Some ref \<Rightarrow>
          let entry = rg_heap rg ref;
              desired = fold (\<lambda>l m. set_Set m l) announce (set_Copy (en_labels entry));
              desired = DeleteMultiple desired withdraw
          in if unat maxInstanceLabels < Length desired
             then Some ((of_nat (Length (en_labels entry)), Some ErrLabelLimitExceeded, None), rg)
             else
               let added = set_Values (Difference desired (en_labels entry)) in do {
                 labelPools \<leftarrow> detachLabels (rg_labelPools rg) inst
                   (set_Values (Difference (en_labels entry) desired));
                 labelPools \<leftarrow> attachLabels labelPools inst ref (set_Values desired);
                 let rg' = updateEntry rg ref (\<lambda>e. e\<lparr>en_labels := desired\<rparr>);
                 let change = (if rg_notify rg \<and> added \<noteq> []
                       then Some \<lparr>rc_ExecutorType = en_executorType entry, rc_Labels = added\<rparr>
                       else None);
                 Some ((of_nat (Length desired), None, change), rg'\<lparr>rg_labelPools := labelPools\<rparr>) }))"

definition aliveIn :: "registry \<Rightarrow> executorRing \<Rightarrow> entryRef list" where
  "aliveIn rg ring = filter (\<lambda>ref. Alive (rg_heap rg ref)) (ring_Values ring)"

definition SupportsFunction :: "registry \<Rightarrow> executorType \<Rightarrow> functionSpec \<Rightarrow> bool" where
  "SupportsFunction rg et f =
     (case map_of (rg_pools rg) et of
        None \<Rightarrow> False
      | Some pool \<Rightarrow> list_ex (\<lambda>ref. Alive (rg_heap rg ref) \<and> Supports (rg_heap rg ref) f) (ring_Values pool))"

definition PoolSize :: "registry \<Rightarrow> executorType \<Rightarrow> nat" where
  "PoolSize rg et = (case map_of (rg_pools rg) et of None \<Rightarrow> 0 | Some pool \<Rightarrow> length (aliveIn rg pool))"

definition LabelPoolSize :: "registry \<Rightarrow> label \<Rightarrow> nat" where
  "LabelPoolSize rg l = (case map_of (rg_labelPools rg) l of None \<Rightarrow> 0 | Some ring \<Rightarrow> length (aliveIn rg ring))"

definition ConnectedCounts :: "registry \<Rightarrow> (executorType, nat) alist" where
  "ConnectedCounts rg = filter (\<lambda>p. 0 < snd p)
     (map (\<lambda>p. (fst p, length (aliveIn rg (snd p)))) (rg_pools rg))"

definition ConnectedInstances :: "registry \<Rightarrow> instanceID list" where
  "ConnectedInstances rg = map fst (filter (\<lambda>p. Alive (rg_heap rg (snd p))) (rg_entries rg))"

text \<open>\<open>CloseAll\<close> returns the senders whose connections it closed, in order.\<close>

definition CloseAll :: "registry \<Rightarrow> senderID list \<times> registry" where
  "CloseAll rg = (map (\<lambda>p. en_sender (rg_heap rg (snd p))) (rg_entries rg),
     fold (\<lambda>p rg. MarkClosed rg (snd p)) (rg_entries rg) rg)"

end
