(* ===== verification/Codec.thy ===== *)
theory Codec
  imports Protocol_Types
begin

unbundle bit_operations_syntax

text \<open>
  The field codec of the wire protocol (\<open>yascheduler/protocol/codec.go\<close> and the composite
  fields of \<open>messages.go\<close>). A \<open>payloadWriter\<close> is the buffer it appends to. A \<open>payloadReader\<close>
  is the record of its buffer, offset and normalized limits; a read returns an error or the value
  beside the advanced reader. An error carries its sentinel, not the text it is wrapped in.

  The locale \<open>wire_codec\<close> is the contract of a field: what a reader accepts is exactly what the
  writer emits for a value within the limits.
\<close>

section \<open>Big-endian integers\<close>

definition be_bytes :: "nat \<Rightarrow> 'a::len word \<Rightarrow> byte_list" where
  "be_bytes k v = map (\<lambda>i. ucast (drop_bit (8 * i) v)) (rev [0..<k])"

definition be_value :: "byte_list \<Rightarrow> 'a::len word" where
  "be_value bs = foldl (\<lambda>acc b. push_bit 8 acc OR ucast b) 0 bs"

lemma length_be_bytes [simp]: "length (be_bytes k v) = k"
  by (simp add: be_bytes_def)

lemma be_bytes_Suc: "be_bytes (Suc k) v = ucast (drop_bit (8 * k) v) # be_bytes k v"
  by (simp add: be_bytes_def)

lemma be_bytes_snoc: "be_bytes (Suc k) v = be_bytes k (drop_bit 8 v) @ [ucast v]"
  by (induction k) (simp_all add: be_bytes_def ac_simps)

lemma be_value_snoc: "be_value (bs @ [b]) = push_bit 8 (be_value bs) OR ucast b"
  by (simp add: be_value_def)

lemma foldl_be_bytes:
  "foldl (\<lambda>acc b. push_bit 8 acc OR ucast b) acc (be_bytes k v)
     = push_bit (8 * k) acc OR take_bit (8 * k) (v :: 'a::len word)"
proof (induction k arbitrary: acc)
  case 0
  then show ?case by (simp add: be_bytes_def)
next
  case (Suc k)
  show ?case
    unfolding be_bytes_Suc foldl_Cons Suc.IH
    by (rule bit_word_eqI) (auto simp: bit_simps algebra_simps not_le not_less)
qed

lemma be_value_bytes: "LENGTH('a::len) \<le> 8 * k \<Longrightarrow> be_value (be_bytes k v) = (v :: 'a word)"
  unfolding be_value_def foldl_be_bytes by (rule bit_word_eqI) (auto simp: bit_simps)

lemma bit_be_value: "bit (be_value bs :: 'a::len word) n \<Longrightarrow> n < 8 * length bs"
proof (induction bs arbitrary: n rule: rev_induct)
  case Nil
  then show ?case by (simp add: be_value_def)
next
  case (snoc b bs)
  from snoc.prems have "(8 \<le> n \<and> bit (be_value bs :: 'a word) (n - 8)) \<or> bit b n"
    by (auto simp: be_value_snoc bit_simps)
  then show ?case
    using snoc.IH [of "n - 8"] bit_imp_le_length [of b n] by auto
qed

lemma be_bytes_value:
  "8 * length bs \<le> LENGTH('a::len) \<Longrightarrow> be_bytes (length bs) (be_value bs :: 'a word) = bs"
proof (induction bs rule: rev_induct)
  case Nil
  then show ?case by (simp add: be_bytes_def)
next
  case (snoc b bs)
  have "drop_bit 8 (be_value (bs @ [b]) :: 'a word) = be_value bs"
  proof (rule bit_word_eqI)
    fix n
    assume "n < LENGTH('a)"
    show "bit (drop_bit 8 (be_value (bs @ [b]) :: 'a word)) n = bit (be_value bs :: 'a word) n"
      using bit_be_value [of bs n, where 'a = 'a] bit_imp_le_length [of b "8 + n"] snoc.prems
      by (auto simp: be_value_snoc bit_simps)
  qed
  moreover have "ucast (be_value (bs @ [b]) :: 'a word) = b"
    using snoc.prems bit_imp_le_length [of b]
    by (intro bit_word_eqI) (auto simp: be_value_snoc bit_simps)
  ultimately show ?case
    using snoc by (simp add: be_bytes_snoc)
qed

section \<open>Writing\<close>

type_synonym payloadWriter = byte_list

definition newPayloadWriter :: payloadWriter where
  "newPayloadWriter = []"

definition bytesOf :: "string \<Rightarrow> byte_list" where
  "bytesOf s = map of_char s"

definition stringOf :: "byte_list \<Rightarrow> string" where
  "stringOf bs = map (\<lambda>b. char_of (unat b)) bs"

definition writeUint8 :: "payloadWriter \<Rightarrow> u8 \<Rightarrow> payloadWriter" where
  "writeUint8 w v = w @ [v]"

definition writeUint16 :: "payloadWriter \<Rightarrow> u16 \<Rightarrow> payloadWriter" where
  "writeUint16 w v = w @ be_bytes 2 v"

definition writeUint32 :: "payloadWriter \<Rightarrow> u32 \<Rightarrow> payloadWriter" where
  "writeUint32 w v = w @ be_bytes 4 v"

definition writeUint64 :: "payloadWriter \<Rightarrow> u64 \<Rightarrow> payloadWriter" where
  "writeUint64 w v = w @ be_bytes 8 v"

definition writeInt64 :: "payloadWriter \<Rightarrow> int \<Rightarrow> payloadWriter" where
  "writeInt64 w v = w @ be_bytes 8 (word_of_int v :: u64)"

definition boolFalse :: u8 where "boolFalse = 0"
definition boolTrue :: u8 where "boolTrue = 1"

definition writeBool :: "payloadWriter \<Rightarrow> bool \<Rightarrow> payloadWriter" where
  "writeBool w v = (if v then writeUint8 w boolTrue else writeUint8 w boolFalse)"

text \<open>\<open>uint32(len(v))\<close> wraps at 32 bits.\<close>

definition writeString :: "payloadWriter \<Rightarrow> string \<Rightarrow> payloadWriter" where
  "writeString w v = writeUint32 w (of_nat (length v)) @ bytesOf v"

definition writeBytes :: "payloadWriter \<Rightarrow> byte_list \<Rightarrow> payloadWriter" where
  "writeBytes w v = writeUint32 w (of_nat (length v)) @ v"

definition writeUUID :: "payloadWriter \<Rightarrow> jobUUID \<Rightarrow> payloadWriter" where
  "writeUUID w v = w @ v"

definition writeLabel :: "payloadWriter \<Rightarrow> label \<Rightarrow> payloadWriter" where
  "writeLabel w v = writeString w v"

definition encodeLabels :: "payloadWriter \<Rightarrow> label list \<Rightarrow> payloadWriter" where
  "encodeLabels w labels = foldl writeLabel (writeUint32 w (of_nat (length labels))) labels"

section \<open>Reading\<close>

datatype protocolError =
    ErrShortBuffer
  | ErrBadMagic
  | ErrUnsupportedVersion
  | ErrReservedFlags
  | ErrUnknownMessageType
  | ErrFrameTooLarge
  | ErrStringTooLong
  | ErrBytesTooLong
  | ErrTooManyFunctions
  | ErrLabelTooLong
  | ErrTooManyLabels
  | ErrResultTooLarge
  | ErrShortUUID
  | ErrTrailingBytes
  | ErrInvalidBool
  | ErrShortWrite

record payloadReader =
  pr_buf :: byte_list
  pr_off :: nat
  pr_limits :: limits

type_synonym 'a reader = "payloadReader \<Rightarrow> protocolError + 'a \<times> payloadReader"

definition newPayloadReader :: "byte_list \<Rightarrow> limits \<Rightarrow> payloadReader" where
  "newPayloadReader payload lim = \<lparr>pr_buf = payload, pr_off = 0, pr_limits = limits_normalized lim\<rparr>"

definition remaining :: "payloadReader \<Rightarrow> int" where
  "remaining r = int (length (pr_buf r)) - int (pr_off r)"

text \<open>\<open>buf[off : off+n]\<close> and the sequencing of reads that stops at the first error.\<close>

definition take_bytes :: "nat \<Rightarrow> byte_list reader" where
  "take_bytes n r =
     (if remaining r < int n then Inl ErrShortBuffer
      else Inr (take n (drop (pr_off r) (pr_buf r)), r\<lparr>pr_off := pr_off r + n\<rparr>))"

definition bindR :: "'a reader \<Rightarrow> ('a \<Rightarrow> 'b reader) \<Rightarrow> 'b reader" where
  "bindR rd k r = (case rd r of Inl e \<Rightarrow> Inl e | Inr (v, r') \<Rightarrow> k v r')"

definition returnR :: "'a \<Rightarrow> 'a reader" where
  "returnR v r = Inr (v, r)"

definition failR :: "protocolError \<Rightarrow> 'a reader" where
  "failR e r = Inl e"

definition readUint8 :: "u8 reader" where
  "readUint8 = bindR (take_bytes 1) (\<lambda>chunk. returnR (chunk ! 0))"

definition readUint16 :: "u16 reader" where
  "readUint16 = bindR (take_bytes 2) (\<lambda>chunk. returnR (be_value chunk))"

definition readUint32 :: "u32 reader" where
  "readUint32 = bindR (take_bytes 4) (\<lambda>chunk. returnR (be_value chunk))"

definition readUint64 :: "u64 reader" where
  "readUint64 = bindR (take_bytes 8) (\<lambda>chunk. returnR (be_value chunk))"

definition readInt64 :: "int reader" where
  "readInt64 = bindR readUint64 (\<lambda>v. returnR (sint v))"

definition readBool :: "bool reader" where
  "readBool = bindR readUint8 (\<lambda>v.
     if v = boolFalse then returnR False
     else if v = boolTrue then returnR True
     else failR ErrInvalidBool)"

text \<open>The shape of the four length-prefixed reads, over the limit and its error.\<close>

definition readSized :: "(limits \<Rightarrow> u32) \<Rightarrow> protocolError \<Rightarrow> byte_list reader" where
  "readSized limit tooLong = bindR readUint32 (\<lambda>len r.
     if limit (pr_limits r) < len then Inl tooLong else take_bytes (unat len) r)"

definition readString :: "string reader" where
  "readString = bindR (readSized l_MaxStringLen ErrStringTooLong) (\<lambda>chunk. returnR (stringOf chunk))"

definition readBytes :: "byte_list reader" where
  "readBytes = readSized l_MaxBytesLen ErrBytesTooLong"

definition readUUID :: "jobUUID reader" where
  "readUUID r = (if remaining r < int uuidSize then Inl ErrShortUUID else take_bytes uuidSize r)"

definition readLabel :: "label reader" where
  "readLabel = bindR (readSized l_MaxLabelLen ErrLabelTooLong) (\<lambda>chunk. returnR (stringOf chunk))"

definition readResultBytes :: "byte_list reader" where
  "readResultBytes = readSized l_MaxResultBytes ErrResultTooLarge"

text \<open>A loop that fills a slice of known length.\<close>

fun repeatR :: "nat \<Rightarrow> 'a reader \<Rightarrow> 'a list reader" where
  "repeatR 0 rd = returnR []"
| "repeatR (Suc n) rd = bindR rd (\<lambda>v. bindR (repeatR n rd) (\<lambda>vs. returnR (v # vs)))"

definition minLabelSize :: nat where "minLabelSize = 4"

definition decodeLabels :: "label list reader" where
  "decodeLabels = bindR readUint32 (\<lambda>count r.
     if l_MaxLabels (pr_limits r) < count then Inl ErrTooManyLabels
     else if remaining r div int minLabelSize < int (unat count) then Inl ErrShortBuffer
     else repeatR (unat count) readLabel r)"

definition finish :: "unit reader" where
  "finish r = (if remaining r \<noteq> 0 then Inl ErrTrailingBytes else Inr ((), r))"

section \<open>The contract of a field\<close>

definition rest :: "payloadReader \<Rightarrow> byte_list" where
  "rest r = drop (pr_off r) (pr_buf r)"

definition pr_ok :: "payloadReader \<Rightarrow> bool" where
  "pr_ok r \<longleftrightarrow> pr_off r \<le> length (pr_buf r)"

definition advance :: "nat \<Rightarrow> payloadReader \<Rightarrow> payloadReader" where
  "advance n r = r\<lparr>pr_off := pr_off r + n\<rparr>"

text \<open>
  \<open>accepts rd S\<close>: from a reader in range, \<open>rd\<close> succeeds with \<open>v\<close> exactly when some prefix of
  the remaining bytes is related to \<open>v\<close> by \<open>S\<close>, and it consumes that prefix.
\<close>

definition accepts :: "'a reader \<Rightarrow> (limits \<Rightarrow> byte_list \<Rightarrow> 'a \<Rightarrow> bool) \<Rightarrow> bool" where
  "accepts rd S \<longleftrightarrow> (\<forall>r v r'. pr_ok r \<longrightarrow>
     (rd r = Inr (v, r') \<longleftrightarrow>
       (\<exists>bs tail. S (pr_limits r) bs v \<and> rest r = bs @ tail \<and> r' = advance (length bs) r)))"

lemma advance_simps [simp]:
  "pr_limits (advance n r) = pr_limits r" "advance m (advance n r) = advance (n + m) r"
  "advance 0 r = r" "rest (advance n r) = drop n (rest r)" "pr_off (advance n r) = pr_off r + n"
  by (simp_all add: advance_def rest_def ac_simps)

lemma pr_ok_advance: "pr_ok r \<Longrightarrow> rest r = bs @ tail \<Longrightarrow> pr_ok (advance (length bs) r)"
proof -
  assume "pr_ok r" "rest r = bs @ tail"
  then have "length bs + length tail + pr_off r = length (pr_buf r)"
    by (simp add: pr_ok_def rest_def) (metis add.commute le_add_diff_inverse2 length_append length_drop)
  then show ?thesis by (simp add: pr_ok_def advance_def)
qed

lemma remaining_rest: "pr_ok r \<Longrightarrow> remaining r = int (length (rest r))"
  by (simp add: remaining_def rest_def pr_ok_def)

lemma pr_ok_new [simp]: "pr_ok (newPayloadReader p l)" "rest (newPayloadReader p l) = p"
  "pr_limits (newPayloadReader p l) = limits_normalized l"
  by (simp_all add: pr_ok_def newPayloadReader_def rest_def)

lemma acceptsD:
  "accepts rd S \<Longrightarrow> pr_ok r \<Longrightarrow> rd r = Inr (v, r')
     \<longleftrightarrow> (\<exists>bs tail. S (pr_limits r) bs v \<and> rest r = bs @ tail \<and> r' = advance (length bs) r)"
  by (simp add: accepts_def)

lemma accepts_cong: "accepts rd S \<Longrightarrow> (\<And>l bs v. S l bs v \<longleftrightarrow> T l bs v) \<Longrightarrow> accepts rd T"
  by (simp add: accepts_def)

lemma accepts_return: "accepts (returnR v) (\<lambda>l bs w. bs = [] \<and> w = v)"
  by (auto simp: accepts_def returnR_def)

lemma accepts_fail: "accepts (failR e) (\<lambda>l bs w. False)"
  by (simp add: accepts_def failR_def)

lemma accepts_take: "accepts (take_bytes n) (\<lambda>l bs v. bs = v \<and> length v = n)"
  unfolding accepts_def
proof (intro allI impI)
  fix r v r'
  assume "pr_ok r"
  then show "take_bytes n r = Inr (v, r')
      \<longleftrightarrow> (\<exists>bs tail. (bs = v \<and> length v = n) \<and> rest r = bs @ tail \<and> r' = advance (length bs) r)"
    by (auto simp: take_bytes_def remaining_rest rest_def [symmetric] advance_def [symmetric])
       (metis append_take_drop_id)
qed

lemma accepts_bind:
  assumes rd: "accepts rd S" and k: "\<And>v. accepts (k v) (T v)"
  shows "accepts (bindR rd k) (\<lambda>l bs w. \<exists>a v b. bs = a @ b \<and> S l a v \<and> T v l b w)"
  unfolding accepts_def
proof (intro allI impI)
  fix r w r''
  assume ok: "pr_ok r"
  have "bindR rd k r = Inr (w, r'') \<longleftrightarrow> (\<exists>v r'. rd r = Inr (v, r') \<and> k v r' = Inr (w, r''))"
    by (auto simp: bindR_def split: sum.splits)
  also have "\<dots> \<longleftrightarrow> (\<exists>v a tail. S (pr_limits r) a v \<and> rest r = a @ tail
      \<and> k v (advance (length a) r) = Inr (w, r''))"
    by (auto simp: acceptsD [OF rd ok])
  also have "\<dots> \<longleftrightarrow> (\<exists>v a tail b tail'. S (pr_limits r) a v \<and> rest r = a @ tail \<and> T v (pr_limits r) b w
      \<and> tail = b @ tail' \<and> r'' = advance (length a + length b) r)"
  proof ((rule iff_exI)+, goal_cases)
    case (1 v a tail)
    show ?case
      using acceptsD [OF k pr_ok_advance [OF ok, of a tail], of v w r''] by auto
  qed
  also have "\<dots> \<longleftrightarrow> (\<exists>bs tail. (\<exists>a v b. bs = a @ b \<and> S (pr_limits r) a v \<and> T v (pr_limits r) b w)
      \<and> rest r = bs @ tail \<and> r'' = advance (length bs) r)"
  proof
    assume "\<exists>v a tail b tail'. S (pr_limits r) a v \<and> rest r = a @ tail \<and> T v (pr_limits r) b w
      \<and> tail = b @ tail' \<and> r'' = advance (length a + length b) r"
    then obtain v a b tail' where *: "S (pr_limits r) a v" "T v (pr_limits r) b w"
      "rest r = (a @ b) @ tail'" "r'' = advance (length (a @ b)) r"
      by auto
    then show "\<exists>bs tail. (\<exists>a v b. bs = a @ b \<and> S (pr_limits r) a v \<and> T v (pr_limits r) b w)
        \<and> rest r = bs @ tail \<and> r'' = advance (length bs) r"
      by blast
  next
    assume "\<exists>bs tail. (\<exists>a v b. bs = a @ b \<and> S (pr_limits r) a v \<and> T v (pr_limits r) b w)
        \<and> rest r = bs @ tail \<and> r'' = advance (length bs) r"
    then obtain a v b tail where "S (pr_limits r) a v" "T v (pr_limits r) b w"
      "rest r = a @ b @ tail" "r'' = advance (length a + length b) r"
      by auto
    then show "\<exists>v a tail b tail'. S (pr_limits r) a v \<and> rest r = a @ tail \<and> T v (pr_limits r) b w
      \<and> tail = b @ tail' \<and> r'' = advance (length a + length b) r"
      by blast
  qed
  finally show "bindR rd k r = Inr (w, r'') \<longleftrightarrow> \<dots>" .
qed

lemma accepts_map:
  assumes "accepts rd S"
  shows "accepts (bindR rd (\<lambda>v. returnR (f v))) (\<lambda>l bs w. \<exists>v. S l bs v \<and> w = f v)"
  by (rule accepts_cong [OF accepts_bind [OF assms accepts_return]]) auto

locale wire_codec =
  fixes ok :: "limits \<Rightarrow> 'a \<Rightarrow> bool" and enc :: "'a \<Rightarrow> byte_list" and dec :: "'a reader"
  assumes exact: "accepts dec (\<lambda>l bs v. ok l v \<and> bs = enc v)"
begin

lemma read_written:
  "pr_ok r \<Longrightarrow> ok (pr_limits r) v \<Longrightarrow> rest r = enc v @ tail \<Longrightarrow> dec r = Inr (v, advance (length (enc v)) r)"
  by (auto simp: acceptsD [OF exact])

lemma written_read:
  "pr_ok r \<Longrightarrow> dec r = Inr (v, r') \<Longrightarrow> ok (pr_limits r) v \<and> (\<exists>tail. rest r = enc v @ tail)"
  by (auto simp: acceptsD [OF exact])

text \<open>No encoding of a value within the limits is a proper prefix of another.\<close>

lemma prefix_free:
  assumes "ok l v" and "ok l w" and "enc v @ s = enc w @ t" and "limits_normalized l = l"
  shows "v = w \<and> s = t"
proof -
  let ?r = "newPayloadReader (enc v @ s) l"
  have "dec ?r = Inr (v, advance (length (enc v)) ?r)"
    using assms by (intro read_written [of ?r v s]) auto
  moreover have "dec ?r = Inr (w, advance (length (enc w)) ?r)"
    using assms by (intro read_written [of ?r w t]) auto
  ultimately show ?thesis using assms(3) by simp
qed

lemma all_read:
  "accepts (repeatR n dec) (\<lambda>l bs vs. length vs = n \<and> (\<forall>v \<in> set vs. ok l v) \<and> bs = concat (map enc vs))"
proof (induction n)
  case 0
  show ?case
    unfolding repeatR.simps by (rule accepts_cong [OF accepts_return]) auto
next
  case (Suc n)
  show ?case
    unfolding repeatR.simps
    by (rule accepts_cong [OF accepts_bind [OF exact accepts_bind [OF Suc accepts_return]]])
       (auto simp: length_Suc_conv)
qed

end

section \<open>The fields\<close>

lemma be_exact:
  assumes "LENGTH('a::len) = 8 * n"
  shows "accepts (bindR (take_bytes n) (\<lambda>chunk. returnR (be_value chunk :: 'a word)))
    (\<lambda>l bs v. bs = be_bytes n v)"
  using assms
  by (intro accepts_cong [OF accepts_map [OF accepts_take]])
     (auto simp: be_value_bytes intro: be_bytes_value [symmetric])

interpretation uint8: wire_codec "\<lambda>l v. True" "\<lambda>v. [v]" readUint8
  unfolding wire_codec_def readUint8_def
  by (rule accepts_cong [OF accepts_map [OF accepts_take]]) (auto simp: length_Suc_conv)

interpretation uint16: wire_codec "\<lambda>l v. True" "be_bytes 2" readUint16
  unfolding wire_codec_def readUint16_def using be_exact [where 'a = 16, of 2] by simp

interpretation uint32: wire_codec "\<lambda>l v. True" "be_bytes 4" readUint32
  unfolding wire_codec_def readUint32_def using be_exact [where 'a = 32, of 4] by simp

interpretation uint64: wire_codec "\<lambda>l v. True" "be_bytes 8" readUint64
  unfolding wire_codec_def readUint64_def using be_exact [where 'a = 64, of 8] by simp

lemma sint_word_of_int: "in_int64 x \<Longrightarrow> sint (word_of_int x :: u64) = x"
  by (simp add: in_int64_def minInt64_def maxInt64_def sint_sbintrunc' signed_take_bit_int_eq_self)

lemma in_int64_sint: "in_int64 (sint (w :: u64))"
  using sint_range_size [of w] by (simp add: in_int64_def minInt64_def maxInt64_def word_size)

interpretation int64_field: wire_codec "\<lambda>l v. in_int64 v" "\<lambda>v. be_bytes 8 (word_of_int v :: u64)" readInt64
  unfolding wire_codec_def readInt64_def
  by (rule accepts_cong [OF accepts_map [OF uint64.exact]])
     (auto simp: sint_word_of_int in_int64_sint intro: exI [of _ "word_of_int _"])

definition boolByte :: "bool \<Rightarrow> u8" where
  "boolByte v = (if v then boolTrue else boolFalse)"

interpretation bool_field: wire_codec "\<lambda>l v. True" "\<lambda>v. [boolByte v]" readBool
proof -
  have "accepts (if v = boolFalse then returnR False else if v = boolTrue then returnR True else failR ErrInvalidBool)
      (\<lambda>l bs w. bs = [] \<and> v = boolByte w)" for v
  proof -
    consider "v = boolFalse" | "v = boolTrue" | "v \<noteq> boolFalse" "v \<noteq> boolTrue" by blast
    then show ?thesis
    proof cases
      case 1
      then show ?thesis
        using accepts_return [of False] by (auto simp: boolByte_def boolFalse_def boolTrue_def intro: accepts_cong)
    next
      case 2
      then show ?thesis
        using accepts_return [of True] by (auto simp: boolByte_def boolFalse_def boolTrue_def intro: accepts_cong)
    next
      case 3
      then show ?thesis
        using accepts_fail [of ErrInvalidBool] by (auto simp: boolByte_def intro: accepts_cong)
    qed
  qed
  from accepts_bind [OF uint8.exact this]
  show "wire_codec (\<lambda>l v. True) (\<lambda>v. [boolByte v]) readBool"
    unfolding wire_codec_def readBool_def by (rule accepts_cong) auto
qed

lemma of_char_word: "(of_char c :: u8) = of_nat (of_char c :: nat)"
  by (rule of_nat_of_char [symmetric])

lemma bytesOf_stringOf [simp]: "bytesOf (stringOf bs) = bs"
proof -
  have "(of_char (char_of (unat b) :: char) :: u8) = b" for b :: u8
    using unsigned_less [of b, where 'a = nat] unfolding of_char_word by (simp add: of_char_of)
  then show ?thesis
    by (simp add: bytesOf_def stringOf_def o_def map_idI)
qed

lemma stringOf_bytesOf [simp]: "stringOf (bytesOf s) = s"
proof -
  have "unat (of_char c :: u8) = of_char c" for c :: char
    unfolding of_char_word by (simp add: unsigned_of_nat take_bit_eq_mod)
  then show ?thesis
    by (simp add: bytesOf_def stringOf_def o_def)
qed

lemma length_bytesOf [simp]: "length (bytesOf s) = length s" "length (stringOf bs) = length bs"
  by (simp_all add: bytesOf_def stringOf_def)

text \<open>Reads guarded by a check of a limit, or by a check that never refuses what is read.\<close>

lemma accepts_guard:
  assumes "accepts rd S"
  shows "accepts (\<lambda>r. if P (pr_limits r) then Inl e else rd r) (\<lambda>l bs v. \<not> P l \<and> S l bs v)"
  using assms by (auto simp: accepts_def)

lemma accepts_check:
  assumes "accepts rd S"
    and "\<And>r bs v tail. pr_ok r \<Longrightarrow> S (pr_limits r) bs v \<Longrightarrow> rest r = bs @ tail \<Longrightarrow> \<not> P r"
  shows "accepts (\<lambda>r. if P r then Inl e else rd r) S"
  using assms unfolding accepts_def by (auto split: if_splits)

lemma unat_of_nat_bound:
  assumes "n \<le> unat (m :: u32)"
  shows "unat (of_nat n :: u32) = n"
  using assms unsigned_less [of m, where 'a = nat] by (simp add: unsigned_of_nat take_bit_nat_eq_self)

lemma unat_len_iff:
  "\<not> m < len \<and> n = unat len \<longleftrightarrow> n \<le> unat m \<and> len = (of_nat n :: u32)"
  using unat_of_nat_bound [of n m] by (auto simp: word_less_nat_alt)

definition encSized :: "byte_list \<Rightarrow> byte_list" where
  "encSized v = be_bytes 4 (of_nat (length v) :: u32) @ v"

lemma sized_exact:
  "accepts (readSized limit tooLong) (\<lambda>l bs v. length v \<le> unat (limit l) \<and> bs = encSized v)"
proof -
  note accepts_bind [OF uint32.exact accepts_guard [OF accepts_take], of "\<lambda>len l. limit l < len"
      "\<lambda>_. tooLong" unat]
  then show ?thesis
    unfolding readSized_def encSized_def
    by (rule accepts_cong) (auto simp: word_less_nat_alt not_less unat_of_nat_bound intro!: exI [of _ "of_nat (length _)"])
qed

interpretation bytes_field: wire_codec "\<lambda>l v. length v \<le> unat (l_MaxBytesLen l)" encSized readBytes
  unfolding wire_codec_def readBytes_def by (rule sized_exact)

interpretation result_field: wire_codec "\<lambda>l v. length v \<le> unat (l_MaxResultBytes l)" encSized readResultBytes
  unfolding wire_codec_def readResultBytes_def by (rule sized_exact)

definition encString :: "string \<Rightarrow> byte_list" where
  "encString s = encSized (bytesOf s)"

lemma string_exact:
  "accepts (bindR (readSized limit tooLong) (\<lambda>chunk. returnR (stringOf chunk)))
     (\<lambda>l bs s. length s \<le> unat (limit l) \<and> bs = encString s)"
  by (rule accepts_cong [OF accepts_map [OF sized_exact]])
     (auto simp: encString_def intro!: exI [of _ "bytesOf _"])

interpretation string_field: wire_codec "\<lambda>l v. length v \<le> unat (l_MaxStringLen l)" encString readString
  unfolding wire_codec_def readString_def by (rule string_exact)

interpretation label_field: wire_codec "\<lambda>l v. length v \<le> unat (l_MaxLabelLen l)" encString readLabel
  unfolding wire_codec_def readLabel_def by (rule string_exact)

interpretation uuid_field: wire_codec "\<lambda>l v. length v = uuidSize" "\<lambda>v. v" readUUID
proof -
  have "readUUID r = Inr (v, r') \<longleftrightarrow> take_bytes uuidSize r = Inr (v, r')" for r v r'
    by (simp add: readUUID_def take_bytes_def)
  then show "wire_codec (\<lambda>l v. length v = uuidSize) (\<lambda>v. v) readUUID"
    using accepts_take [of uuidSize] by (auto simp: wire_codec_def accepts_def)
qed

text \<open>
  A counted list: the count is checked against its limit, then against the remaining bytes
  divided by the least size of an element, which never refuses what the elements accept.
\<close>

definition encList :: "('a \<Rightarrow> byte_list) \<Rightarrow> 'a list \<Rightarrow> byte_list" where
  "encList enc vs = be_bytes 4 (of_nat (length vs) :: u32) @ concat (map enc vs)"

lemma counted_exact:
  fixes dec :: "'a reader"
  assumes "wire_codec ok enc dec" and small: "\<And>v. k \<le> length (enc v)" and k: "0 < k"
  shows "accepts (bindR readUint32 (\<lambda>count r.
      if limit (pr_limits r) < count then Inl tooMany
      else if remaining r div int k < int (unat count) then Inl ErrShortBuffer
      else repeatR (unat count) dec r))
    (\<lambda>l bs vs. (length vs \<le> unat (limit l) \<and> (\<forall>v \<in> set vs. ok l v)) \<and> bs = encList enc vs)"
proof -
  let ?S = "\<lambda>n l bs vs. length vs = n \<and> (\<forall>v \<in> set vs. ok l v) \<and> bs = concat (map enc vs)"
  have len: "k * length vs \<le> length (concat (map enc vs))" for vs
    using small by (induction vs) (auto intro: add_mono)
  have "accepts (\<lambda>r. if remaining r div int k < int n then Inl ErrShortBuffer else repeatR n dec r) (?S n)" for n
  proof (rule accepts_check [OF wire_codec.all_read [OF assms(1)]])
    fix r bs vs tail
    assume "pr_ok r" "?S n (pr_limits r) bs vs" "rest r = bs @ tail"
    then have "int k * int n \<le> remaining r"
      using len [of vs] by (simp add: remaining_rest flip: of_nat_mult)
    then show "\<not> remaining r div int k < int n"
      using zdiv_mono1 [of "int k * int n" "remaining r" "int k"] k by simp
  qed
  from accepts_guard [OF this]
  have "accepts (\<lambda>r. if limit (pr_limits r) < count then Inl tooMany
      else if remaining r div int k < int (unat count) then Inl ErrShortBuffer
      else repeatR (unat count) dec r) (\<lambda>l bs vs. \<not> limit l < count \<and> ?S (unat count) l bs vs)" for count
    by (rule accepts_cong) simp
  from accepts_bind [OF uint32.exact this] show ?thesis
    unfolding encList_def by (rule accepts_cong) (auto simp: word_less_nat_alt not_less unat_of_nat_bound intro!: exI [of _ "of_nat (length _)"])
qed

definition okLabels :: "limits \<Rightarrow> label list \<Rightarrow> bool" where
  "okLabels l ls \<longleftrightarrow> length ls \<le> unat (l_MaxLabels l) \<and> (\<forall>x \<in> set ls. length x \<le> unat (l_MaxLabelLen l))"

interpretation labels_field: wire_codec okLabels "encList encString" decodeLabels
proof -
  have "minLabelSize \<le> length (encString v)" for v
    by (simp add: encString_def encSized_def minLabelSize_def)
  from counted_exact [OF label_field.wire_codec_axioms this, of l_MaxLabels ErrTooManyLabels]
  show "wire_codec okLabels (encList encString) decodeLabels"
    unfolding wire_codec_def decodeLabels_def okLabels_def by (simp add: minLabelSize_def)
qed

section \<open>What the writers append\<close>

lemma write_simps:
  "writeUint8 w v8 = w @ [v8]" "writeUint16 w v16 = w @ be_bytes 2 v16" "writeUint32 w v32 = w @ be_bytes 4 v32"
  "writeUint64 w v64 = w @ be_bytes 8 v64" "writeInt64 w i = w @ be_bytes 8 (word_of_int i :: u64)"
  "writeBool w b = w @ [boolByte b]" "writeString w s = w @ encString s" "writeBytes w bs = w @ encSized bs"
  "writeUUID w u = w @ u" "writeLabel w s = w @ encString s"
  by (simp_all add: writeUint8_def writeUint16_def writeUint32_def writeUint64_def writeInt64_def writeBool_def
      writeString_def writeBytes_def writeUUID_def writeLabel_def boolByte_def encString_def encSized_def)

lemma encodeLabels_simp: "encodeLabels w ls = w @ encList encString ls"
proof -
  have "foldl writeLabel w ls = w @ concat (map encString ls)" for w
    by (induction ls arbitrary: w) (simp_all add: write_simps)
  then show ?thesis
    by (simp add: encodeLabels_def encList_def write_simps)
qed

end
