(* ===== verification/Messages.thy ===== *)
theory Messages
  imports Codec
begin

text \<open>
  The messages of protocol version 3 (\<open>yascheduler/protocol/messages.go\<close>): one record per
  struct, one \<open>marshal\<close> per \<open>MarshalPayload\<close> and one reader per \<open>UnmarshalPayload\<close>, each in
  the order of the source's writes and reads. \<open>HeartbeatAck\<close> has no field and is a bare
  constructor of \<open>message\<close>. \<open>Message_Codec\<close> shows that the readers invert the writers.
\<close>

section \<open>Records\<close>

record registerMsg =
  rm_ProtocolVersion :: u8
  rm_ExecutorType :: executorType
  rm_InstanceID :: instanceID
  rm_Capacity :: u32
  rm_Functions :: "functionSpec list"
  rm_Labels :: "label list"

record registerAckMsg =
  ra_Accepted :: bool
  ra_HeartbeatIntervalMillis :: u32
  ra_Error :: "wireError option"

record heartbeatMsg =
  hb_InFlight :: u32

record execRequestMsg =
  eq_JobUUID :: jobUUID
  eq_ExecutionID :: executionID
  eq_AttemptID :: attemptID
  eq_AttemptNumber :: u32
  eq_Function :: functionSpec
  eq_Args :: byte_list
  eq_ScheduledUnixNano :: int
  eq_TimeoutMillis :: u32
  eq_DeliverResult :: bool

record execAcceptMsg =
  ea_ExecutionID :: executionID
  ea_AttemptID :: attemptID
  ea_Accepted :: bool
  ea_Error :: "wireError option"

record execResultMsg =
  er_ExecutionID :: executionID
  er_AttemptID :: attemptID
  er_Success :: bool
  er_HasValue :: bool
  er_Result :: byte_list
  er_Error :: "wireError option"

record cancelMsg =
  cn_ExecutionID :: executionID
  cn_AttemptID :: attemptID
  cn_Reason :: string

record faultMsg =
  ft_Cause :: wireError

record jobUpsertMsg =
  ju_JobUUID :: jobUUID
  ju_JobKey :: string
  ju_ExecutorType :: executorType
  ju_Function :: functionSpec
  ju_Args :: byte_list
  ju_Schedule :: scheduleSpec
  ju_Enabled :: bool
  ju_Backfill :: backfillSpec
  ju_Retry :: retrySpec
  ju_Overlap :: overlapPolicy
  ju_Pin :: pinSpec
  ju_ResultMode :: resultMode

record jobUpsertAckMsg =
  jk_JobKey :: string
  jk_JobUUID :: jobUUID
  jk_Accepted :: bool
  jk_Error :: "wireError option"

record shutdownMsg =
  sd_Reason :: string

record labelUpdateMsg =
  lu_Announce :: "label list"
  lu_Withdraw :: "label list"

record labelUpdateAckMsg =
  la_Accepted :: bool
  la_ActiveCount :: u32
  la_Error :: "wireError option"

record resultDeliveryMsg =
  rd_JobUUID :: jobUUID
  rd_ExecutionID :: executionID
  rd_Success :: bool
  rd_HasValue :: bool
  rd_Result :: byte_list
  rd_Error :: "wireError option"

record resultDeliveryAckMsg =
  rk_JobUUID :: jobUUID
  rk_Accepted :: bool

record jobDeleteMsg =
  jd_JobKey :: string
  jd_ExecutorType :: executorType

record jobDeleteAckMsg =
  dk_JobKey :: string
  dk_Deleted :: bool
  dk_Error :: "wireError option"

datatype message =
    RegisterMsg registerMsg
  | RegisterAckMsg registerAckMsg
  | HeartbeatMsg heartbeatMsg
  | HeartbeatAckMsg
  | ExecRequestMsg execRequestMsg
  | ExecAcceptMsg execAcceptMsg
  | ExecResultMsg execResultMsg
  | CancelMsg cancelMsg
  | FaultMsg faultMsg
  | JobUpsertMsg jobUpsertMsg
  | JobUpsertAckMsg jobUpsertAckMsg
  | ShutdownMsg shutdownMsg
  | LabelUpdateMsg labelUpdateMsg
  | LabelUpdateAckMsg labelUpdateAckMsg
  | ResultDeliveryMsg resultDeliveryMsg
  | ResultDeliveryAckMsg resultDeliveryAckMsg
  | JobDeleteMsg jobDeleteMsg
  | JobDeleteAckMsg jobDeleteAckMsg

fun messageTypeOf :: "message \<Rightarrow> messageType" where
  "messageTypeOf (RegisterMsg _) = MessageTypeRegister"
| "messageTypeOf (RegisterAckMsg _) = MessageTypeRegisterAck"
| "messageTypeOf (HeartbeatMsg _) = MessageTypeHeartbeat"
| "messageTypeOf HeartbeatAckMsg = MessageTypeHeartbeatAck"
| "messageTypeOf (ExecRequestMsg _) = MessageTypeExecRequest"
| "messageTypeOf (ExecAcceptMsg _) = MessageTypeExecAccept"
| "messageTypeOf (ExecResultMsg _) = MessageTypeExecResult"
| "messageTypeOf (CancelMsg _) = MessageTypeCancel"
| "messageTypeOf (FaultMsg _) = MessageTypeProtocolError"
| "messageTypeOf (JobUpsertMsg _) = MessageTypeJobUpsert"
| "messageTypeOf (JobUpsertAckMsg _) = MessageTypeJobUpsertAck"
| "messageTypeOf (ShutdownMsg _) = MessageTypeShutdown"
| "messageTypeOf (LabelUpdateMsg _) = MessageTypeLabelUpdate"
| "messageTypeOf (LabelUpdateAckMsg _) = MessageTypeLabelUpdateAck"
| "messageTypeOf (ResultDeliveryMsg _) = MessageTypeResultDelivery"
| "messageTypeOf (ResultDeliveryAckMsg _) = MessageTypeResultDeliveryAck"
| "messageTypeOf (JobDeleteMsg _) = MessageTypeJobDelete"
| "messageTypeOf (JobDeleteAckMsg _) = MessageTypeJobDeleteAck"

section \<open>Composite fields\<close>

definition encodeFunctionSpec :: "payloadWriter \<Rightarrow> functionSpec \<Rightarrow> payloadWriter" where
  "encodeFunctionSpec w f =
     (let w = writeString w (f_Name f);
          w = writeString w (f_Version f);
          w = writeString w (f_InputSignature f)
      in writeString w (f_OutputSignature f))"

definition decodeFunctionSpec :: "functionSpec reader" where
  "decodeFunctionSpec =
     bindR readString (\<lambda>name.
     bindR readString (\<lambda>version.
     bindR readString (\<lambda>inputSignature.
     bindR readString (\<lambda>outputSignature.
     returnR \<lparr>f_Name = name, f_Version = version, f_InputSignature = inputSignature,
              f_OutputSignature = outputSignature\<rparr>))))"

definition encodeWireError :: "payloadWriter \<Rightarrow> wireError \<Rightarrow> payloadWriter" where
  "encodeWireError w e =
     (let w = writeUint16 w (e_Code e); w = writeBool w (e_Retryable e) in writeString w (e_Message e))"

definition decodeWireError :: "wireError reader" where
  "decodeWireError =
     bindR readUint16 (\<lambda>code.
     bindR readBool (\<lambda>retryable.
     bindR readString (\<lambda>msg.
     returnR \<lparr>e_Code = code, e_Retryable = retryable, e_Message = msg\<rparr>)))"

definition encodeOptionalWireError :: "payloadWriter \<Rightarrow> wireError option \<Rightarrow> payloadWriter" where
  "encodeOptionalWireError w e =
     (case e of None \<Rightarrow> writeBool w False | Some e \<Rightarrow> encodeWireError (writeBool w True) e)"

definition decodeOptionalWireError :: "wireError option reader" where
  "decodeOptionalWireError = bindR readBool (\<lambda>present.
     if \<not> present then returnR None else bindR decodeWireError (\<lambda>e. returnR (Some e)))"

definition decodeExecutionRef :: "(executionID \<times> attemptID) reader" where
  "decodeExecutionRef = bindR readUint64 (\<lambda>x. bindR readUint64 (\<lambda>a. returnR (x, a)))"

definition decodeScheduleSpec :: "scheduleSpec reader" where
  "decodeScheduleSpec =
     bindR readUint8 (\<lambda>kind. bindR readInt64 (\<lambda>start. bindR readUint64 (\<lambda>interval.
     returnR \<lparr>s_Kind = kind, s_StartUnixNano = start, s_IntervalMillis = interval\<rparr>)))"

definition decodeBackfillSpec :: "backfillSpec reader" where
  "decodeBackfillSpec =
     bindR readUint8 (\<lambda>mode. bindR readUint32 (\<lambda>count. bindR readUint64 (\<lambda>age.
     returnR \<lparr>b_Mode = mode, b_MaxCount = count, b_MaxAgeMillis = age\<rparr>)))"

definition decodePinSpec :: "pinSpec reader" where
  "decodePinSpec = bindR readLabel (\<lambda>l. bindR readUint8 (\<lambda>policy. returnR \<lparr>p_Label = l, p_Policy = policy\<rparr>))"

definition decodeRetrySpec :: "retrySpec reader" where
  "decodeRetrySpec =
     bindR readUint8 (\<lambda>policy. bindR readUint32 (\<lambda>maxRetries. bindR readUint64 (\<lambda>initial.
     bindR readUint64 (\<lambda>maxDelay. bindR readUint64 (\<lambda>multiplier.
     returnR \<lparr>rt_Policy = policy, rt_MaxRetries = maxRetries, rt_InitialDelayMillis = initial,
              rt_MaxDelayMillis = maxDelay, rt_MultiplierBits = multiplier\<rparr>)))))"

section \<open>Payloads\<close>

definition minFunctionSpecSize :: nat where "minFunctionSpecSize = 16"

definition marshalRegister :: "registerMsg \<Rightarrow> byte_list" where
  "marshalRegister m =
     (let w = newPayloadWriter;
          w = writeUint8 w (rm_ProtocolVersion m);
          w = writeString w (rm_ExecutorType m);
          w = writeString w (rm_InstanceID m);
          w = writeUint32 w (rm_Capacity m);
          w = writeUint32 w (of_nat (length (rm_Functions m)));
          w = foldl encodeFunctionSpec w (rm_Functions m)
      in encodeLabels w (rm_Labels m))"

definition decodeFunctions :: "functionSpec list reader" where
  "decodeFunctions = bindR readUint32 (\<lambda>count r.
     if l_MaxFunctions (pr_limits r) < count then Inl ErrTooManyFunctions
     else if remaining r div int minFunctionSpecSize < int (unat count) then Inl ErrShortBuffer
     else repeatR (unat count) decodeFunctionSpec r)"

definition unmarshalRegister :: "registerMsg reader" where
  "unmarshalRegister =
     bindR readUint8 (\<lambda>version.
     bindR readString (\<lambda>executorType.
     bindR readString (\<lambda>instanceID.
     bindR readUint32 (\<lambda>capacity.
     bindR decodeFunctions (\<lambda>specs.
     bindR decodeLabels (\<lambda>labels.
     bindR finish (\<lambda>_.
     returnR \<lparr>rm_ProtocolVersion = version, rm_ExecutorType = executorType, rm_InstanceID = instanceID,
              rm_Capacity = capacity, rm_Functions = specs, rm_Labels = labels\<rparr>)))))))"

definition marshalRegisterAck :: "registerAckMsg \<Rightarrow> byte_list" where
  "marshalRegisterAck m =
     (let w = newPayloadWriter;
          w = writeBool w (ra_Accepted m);
          w = writeUint32 w (ra_HeartbeatIntervalMillis m)
      in encodeOptionalWireError w (ra_Error m))"

definition unmarshalRegisterAck :: "registerAckMsg reader" where
  "unmarshalRegisterAck =
     bindR readBool (\<lambda>accepted. bindR readUint32 (\<lambda>interval. bindR decodeOptionalWireError (\<lambda>e.
     bindR finish (\<lambda>_.
     returnR \<lparr>ra_Accepted = accepted, ra_HeartbeatIntervalMillis = interval, ra_Error = e\<rparr>))))"

definition marshalHeartbeat :: "heartbeatMsg \<Rightarrow> byte_list" where
  "marshalHeartbeat m = writeUint32 newPayloadWriter (hb_InFlight m)"

definition unmarshalHeartbeat :: "heartbeatMsg reader" where
  "unmarshalHeartbeat = bindR readUint32 (\<lambda>n. bindR finish (\<lambda>_. returnR \<lparr>hb_InFlight = n\<rparr>))"

definition marshalExecRequest :: "execRequestMsg \<Rightarrow> byte_list" where
  "marshalExecRequest m =
     (let w = newPayloadWriter;
          w = writeUUID w (eq_JobUUID m);
          w = writeUint64 w (eq_ExecutionID m);
          w = writeUint64 w (eq_AttemptID m);
          w = writeUint32 w (eq_AttemptNumber m);
          w = encodeFunctionSpec w (eq_Function m);
          w = writeBytes w (eq_Args m);
          w = writeInt64 w (eq_ScheduledUnixNano m);
          w = writeUint32 w (eq_TimeoutMillis m)
      in writeBool w (eq_DeliverResult m))"

definition unmarshalExecRequest :: "execRequestMsg reader" where
  "unmarshalExecRequest =
     bindR readUUID (\<lambda>uuid.
     bindR decodeExecutionRef (\<lambda>(x, a).
     bindR readUint32 (\<lambda>number.
     bindR decodeFunctionSpec (\<lambda>f.
     bindR readBytes (\<lambda>args.
     bindR readInt64 (\<lambda>scheduled.
     bindR readUint32 (\<lambda>timeout.
     bindR readBool (\<lambda>deliver.
     bindR finish (\<lambda>_.
     returnR \<lparr>eq_JobUUID = uuid, eq_ExecutionID = x, eq_AttemptID = a, eq_AttemptNumber = number,
              eq_Function = f, eq_Args = args, eq_ScheduledUnixNano = scheduled,
              eq_TimeoutMillis = timeout, eq_DeliverResult = deliver\<rparr>)))))))))"

definition marshalExecAccept :: "execAcceptMsg \<Rightarrow> byte_list" where
  "marshalExecAccept m =
     (let w = newPayloadWriter;
          w = writeUint64 w (ea_ExecutionID m);
          w = writeUint64 w (ea_AttemptID m);
          w = writeBool w (ea_Accepted m)
      in encodeOptionalWireError w (ea_Error m))"

definition unmarshalExecAccept :: "execAcceptMsg reader" where
  "unmarshalExecAccept =
     bindR decodeExecutionRef (\<lambda>(x, a). bindR readBool (\<lambda>accepted. bindR decodeOptionalWireError (\<lambda>e.
     bindR finish (\<lambda>_.
     returnR \<lparr>ea_ExecutionID = x, ea_AttemptID = a, ea_Accepted = accepted, ea_Error = e\<rparr>))))"

definition marshalExecResult :: "execResultMsg \<Rightarrow> byte_list" where
  "marshalExecResult m =
     (let w = newPayloadWriter;
          w = writeUint64 w (er_ExecutionID m);
          w = writeUint64 w (er_AttemptID m);
          w = writeBool w (er_Success m);
          w = writeBool w (er_HasValue m);
          w = writeBytes w (er_Result m)
      in encodeOptionalWireError w (er_Error m))"

definition unmarshalExecResult :: "execResultMsg reader" where
  "unmarshalExecResult =
     bindR decodeExecutionRef (\<lambda>(x, a).
     bindR readBool (\<lambda>success.
     bindR readBool (\<lambda>hasValue.
     bindR readBytes (\<lambda>result.
     bindR decodeOptionalWireError (\<lambda>e.
     bindR finish (\<lambda>_.
     returnR \<lparr>er_ExecutionID = x, er_AttemptID = a, er_Success = success, er_HasValue = hasValue,
              er_Result = result, er_Error = e\<rparr>))))))"

definition marshalCancel :: "cancelMsg \<Rightarrow> byte_list" where
  "marshalCancel m =
     (let w = newPayloadWriter;
          w = writeUint64 w (cn_ExecutionID m);
          w = writeUint64 w (cn_AttemptID m)
      in writeString w (cn_Reason m))"

definition unmarshalCancel :: "cancelMsg reader" where
  "unmarshalCancel =
     bindR decodeExecutionRef (\<lambda>(x, a). bindR readString (\<lambda>reason. bindR finish (\<lambda>_.
     returnR \<lparr>cn_ExecutionID = x, cn_AttemptID = a, cn_Reason = reason\<rparr>)))"

definition marshalFault :: "faultMsg \<Rightarrow> byte_list" where
  "marshalFault m = encodeWireError newPayloadWriter (ft_Cause m)"

definition unmarshalFault :: "faultMsg reader" where
  "unmarshalFault = bindR decodeWireError (\<lambda>e. bindR finish (\<lambda>_. returnR \<lparr>ft_Cause = e\<rparr>))"

definition marshalJobUpsert :: "jobUpsertMsg \<Rightarrow> byte_list" where
  "marshalJobUpsert m =
     (let w = newPayloadWriter;
          w = writeUUID w (ju_JobUUID m);
          w = writeString w (ju_JobKey m);
          w = writeString w (ju_ExecutorType m);
          w = encodeFunctionSpec w (ju_Function m);
          w = writeBytes w (ju_Args m);
          w = writeUint8 w (s_Kind (ju_Schedule m));
          w = writeInt64 w (s_StartUnixNano (ju_Schedule m));
          w = writeUint64 w (s_IntervalMillis (ju_Schedule m));
          w = writeBool w (ju_Enabled m);
          w = writeUint8 w (b_Mode (ju_Backfill m));
          w = writeUint32 w (b_MaxCount (ju_Backfill m));
          w = writeUint64 w (b_MaxAgeMillis (ju_Backfill m));
          w = writeUint8 w (rt_Policy (ju_Retry m));
          w = writeUint32 w (rt_MaxRetries (ju_Retry m));
          w = writeUint64 w (rt_InitialDelayMillis (ju_Retry m));
          w = writeUint64 w (rt_MaxDelayMillis (ju_Retry m));
          w = writeUint64 w (rt_MultiplierBits (ju_Retry m));
          w = writeUint8 w (ju_Overlap m);
          w = writeLabel w (p_Label (ju_Pin m));
          w = writeUint8 w (p_Policy (ju_Pin m))
      in writeUint8 w (ju_ResultMode m))"

definition unmarshalJobUpsert :: "jobUpsertMsg reader" where
  "unmarshalJobUpsert =
     bindR readUUID (\<lambda>uuid.
     bindR readString (\<lambda>jobKey.
     bindR readString (\<lambda>executorType.
     bindR decodeFunctionSpec (\<lambda>f.
     bindR readBytes (\<lambda>args.
     bindR decodeScheduleSpec (\<lambda>schedule.
     bindR readBool (\<lambda>enabled.
     bindR decodeBackfillSpec (\<lambda>backfill.
     bindR decodeRetrySpec (\<lambda>retry.
     bindR readUint8 (\<lambda>overlap.
     bindR decodePinSpec (\<lambda>pin.
     bindR readUint8 (\<lambda>resultMode.
     bindR finish (\<lambda>_.
     returnR \<lparr>ju_JobUUID = uuid, ju_JobKey = jobKey, ju_ExecutorType = executorType, ju_Function = f,
              ju_Args = args, ju_Schedule = schedule, ju_Enabled = enabled, ju_Backfill = backfill,
              ju_Retry = retry, ju_Overlap = overlap, ju_Pin = pin, ju_ResultMode = resultMode\<rparr>)))))))))))))"

definition marshalJobUpsertAck :: "jobUpsertAckMsg \<Rightarrow> byte_list" where
  "marshalJobUpsertAck m =
     (let w = newPayloadWriter;
          w = writeString w (jk_JobKey m);
          w = writeUUID w (jk_JobUUID m);
          w = writeBool w (jk_Accepted m)
      in encodeOptionalWireError w (jk_Error m))"

definition unmarshalJobUpsertAck :: "jobUpsertAckMsg reader" where
  "unmarshalJobUpsertAck =
     bindR readString (\<lambda>jobKey. bindR readUUID (\<lambda>uuid. bindR readBool (\<lambda>accepted.
     bindR decodeOptionalWireError (\<lambda>e. bindR finish (\<lambda>_.
     returnR \<lparr>jk_JobKey = jobKey, jk_JobUUID = uuid, jk_Accepted = accepted, jk_Error = e\<rparr>)))))"

definition marshalShutdown :: "shutdownMsg \<Rightarrow> byte_list" where
  "marshalShutdown m = writeString newPayloadWriter (sd_Reason m)"

definition unmarshalShutdown :: "shutdownMsg reader" where
  "unmarshalShutdown = bindR readString (\<lambda>reason. bindR finish (\<lambda>_. returnR \<lparr>sd_Reason = reason\<rparr>))"

definition marshalLabelUpdate :: "labelUpdateMsg \<Rightarrow> byte_list" where
  "marshalLabelUpdate m = encodeLabels (encodeLabels newPayloadWriter (lu_Announce m)) (lu_Withdraw m)"

definition unmarshalLabelUpdate :: "labelUpdateMsg reader" where
  "unmarshalLabelUpdate =
     bindR decodeLabels (\<lambda>announce. bindR decodeLabels (\<lambda>withdraw. bindR finish (\<lambda>_.
     returnR \<lparr>lu_Announce = announce, lu_Withdraw = withdraw\<rparr>)))"

definition marshalLabelUpdateAck :: "labelUpdateAckMsg \<Rightarrow> byte_list" where
  "marshalLabelUpdateAck m =
     (let w = newPayloadWriter;
          w = writeBool w (la_Accepted m);
          w = writeUint32 w (la_ActiveCount m)
      in encodeOptionalWireError w (la_Error m))"

definition unmarshalLabelUpdateAck :: "labelUpdateAckMsg reader" where
  "unmarshalLabelUpdateAck =
     bindR readBool (\<lambda>accepted. bindR readUint32 (\<lambda>count. bindR decodeOptionalWireError (\<lambda>e.
     bindR finish (\<lambda>_.
     returnR \<lparr>la_Accepted = accepted, la_ActiveCount = count, la_Error = e\<rparr>))))"

definition marshalResultDelivery :: "resultDeliveryMsg \<Rightarrow> byte_list" where
  "marshalResultDelivery m =
     (let w = newPayloadWriter;
          w = writeUUID w (rd_JobUUID m);
          w = writeUint64 w (rd_ExecutionID m);
          w = writeBool w (rd_Success m);
          w = writeBool w (rd_HasValue m);
          w = writeBytes w (rd_Result m)
      in encodeOptionalWireError w (rd_Error m))"

definition unmarshalResultDelivery :: "resultDeliveryMsg reader" where
  "unmarshalResultDelivery =
     bindR readUUID (\<lambda>uuid.
     bindR readUint64 (\<lambda>x.
     bindR readBool (\<lambda>success.
     bindR readBool (\<lambda>hasValue.
     bindR readResultBytes (\<lambda>result.
     bindR decodeOptionalWireError (\<lambda>e.
     bindR finish (\<lambda>_.
     returnR \<lparr>rd_JobUUID = uuid, rd_ExecutionID = x, rd_Success = success, rd_HasValue = hasValue,
              rd_Result = result, rd_Error = e\<rparr>)))))))"

definition marshalResultDeliveryAck :: "resultDeliveryAckMsg \<Rightarrow> byte_list" where
  "marshalResultDeliveryAck m = writeBool (writeUUID newPayloadWriter (rk_JobUUID m)) (rk_Accepted m)"

definition unmarshalResultDeliveryAck :: "resultDeliveryAckMsg reader" where
  "unmarshalResultDeliveryAck =
     bindR readUUID (\<lambda>uuid. bindR readBool (\<lambda>accepted. bindR finish (\<lambda>_.
     returnR \<lparr>rk_JobUUID = uuid, rk_Accepted = accepted\<rparr>)))"

definition marshalJobDelete :: "jobDeleteMsg \<Rightarrow> byte_list" where
  "marshalJobDelete m = writeString (writeString newPayloadWriter (jd_JobKey m)) (jd_ExecutorType m)"

definition unmarshalJobDelete :: "jobDeleteMsg reader" where
  "unmarshalJobDelete =
     bindR readString (\<lambda>jobKey. bindR readString (\<lambda>executorType. bindR finish (\<lambda>_.
     returnR \<lparr>jd_JobKey = jobKey, jd_ExecutorType = executorType\<rparr>)))"

definition marshalJobDeleteAck :: "jobDeleteAckMsg \<Rightarrow> byte_list" where
  "marshalJobDeleteAck m =
     (let w = newPayloadWriter;
          w = writeString w (dk_JobKey m);
          w = writeBool w (dk_Deleted m)
      in encodeOptionalWireError w (dk_Error m))"

definition unmarshalJobDeleteAck :: "jobDeleteAckMsg reader" where
  "unmarshalJobDeleteAck =
     bindR readString (\<lambda>jobKey. bindR readBool (\<lambda>deleted. bindR decodeOptionalWireError (\<lambda>e.
     bindR finish (\<lambda>_.
     returnR \<lparr>dk_JobKey = jobKey, dk_Deleted = deleted, dk_Error = e\<rparr>))))"

definition unmarshalHeartbeatAck :: "unit reader" where
  "unmarshalHeartbeatAck = finish"

fun MarshalPayload :: "message \<Rightarrow> byte_list" where
  "MarshalPayload (RegisterMsg m) = marshalRegister m"
| "MarshalPayload (RegisterAckMsg m) = marshalRegisterAck m"
| "MarshalPayload (HeartbeatMsg m) = marshalHeartbeat m"
| "MarshalPayload HeartbeatAckMsg = []"
| "MarshalPayload (ExecRequestMsg m) = marshalExecRequest m"
| "MarshalPayload (ExecAcceptMsg m) = marshalExecAccept m"
| "MarshalPayload (ExecResultMsg m) = marshalExecResult m"
| "MarshalPayload (CancelMsg m) = marshalCancel m"
| "MarshalPayload (FaultMsg m) = marshalFault m"
| "MarshalPayload (JobUpsertMsg m) = marshalJobUpsert m"
| "MarshalPayload (JobUpsertAckMsg m) = marshalJobUpsertAck m"
| "MarshalPayload (ShutdownMsg m) = marshalShutdown m"
| "MarshalPayload (LabelUpdateMsg m) = marshalLabelUpdate m"
| "MarshalPayload (LabelUpdateAckMsg m) = marshalLabelUpdateAck m"
| "MarshalPayload (ResultDeliveryMsg m) = marshalResultDelivery m"
| "MarshalPayload (ResultDeliveryAckMsg m) = marshalResultDeliveryAck m"
| "MarshalPayload (JobDeleteMsg m) = marshalJobDelete m"
| "MarshalPayload (JobDeleteAckMsg m) = marshalJobDeleteAck m"

definition mapR :: "('a \<Rightarrow> 'b) \<Rightarrow> 'a reader \<Rightarrow> 'b reader" where
  "mapR f rd = bindR rd (\<lambda>v. returnR (f v))"

definition decoderOf :: "messageType \<Rightarrow> message reader option" where
  "decoderOf t =
     (if t = MessageTypeRegister then Some (mapR RegisterMsg unmarshalRegister)
      else if t = MessageTypeRegisterAck then Some (mapR RegisterAckMsg unmarshalRegisterAck)
      else if t = MessageTypeHeartbeat then Some (mapR HeartbeatMsg unmarshalHeartbeat)
      else if t = MessageTypeHeartbeatAck then Some (mapR (\<lambda>_. HeartbeatAckMsg) unmarshalHeartbeatAck)
      else if t = MessageTypeExecRequest then Some (mapR ExecRequestMsg unmarshalExecRequest)
      else if t = MessageTypeExecAccept then Some (mapR ExecAcceptMsg unmarshalExecAccept)
      else if t = MessageTypeExecResult then Some (mapR ExecResultMsg unmarshalExecResult)
      else if t = MessageTypeCancel then Some (mapR CancelMsg unmarshalCancel)
      else if t = MessageTypeProtocolError then Some (mapR FaultMsg unmarshalFault)
      else if t = MessageTypeJobUpsert then Some (mapR JobUpsertMsg unmarshalJobUpsert)
      else if t = MessageTypeJobUpsertAck then Some (mapR JobUpsertAckMsg unmarshalJobUpsertAck)
      else if t = MessageTypeShutdown then Some (mapR ShutdownMsg unmarshalShutdown)
      else if t = MessageTypeLabelUpdate then Some (mapR LabelUpdateMsg unmarshalLabelUpdate)
      else if t = MessageTypeLabelUpdateAck then Some (mapR LabelUpdateAckMsg unmarshalLabelUpdateAck)
      else if t = MessageTypeResultDelivery then Some (mapR ResultDeliveryMsg unmarshalResultDelivery)
      else if t = MessageTypeResultDeliveryAck then Some (mapR ResultDeliveryAckMsg unmarshalResultDeliveryAck)
      else if t = MessageTypeJobDelete then Some (mapR JobDeleteMsg unmarshalJobDelete)
      else if t = MessageTypeJobDeleteAck then Some (mapR JobDeleteAckMsg unmarshalJobDeleteAck)
      else None)"

definition DecodeMessage :: "messageType \<Rightarrow> byte_list \<Rightarrow> limits \<Rightarrow> protocolError + message" where
  "DecodeMessage t payload lim =
     (case decoderOf t of
        None \<Rightarrow> Inl ErrUnknownMessageType
      | Some rd \<Rightarrow> map_sum id fst (rd (newPayloadReader payload lim)))"

end
