(* ===== verification/Engine.thy ===== *)
theory Engine
  imports Engine_Config Memstore Registry Messages
begin

text \<open>
  The scheduling engine (\<open>yascheduler/engine/engine.go\<close>, \<open>dispatch.go\<close>, \<open>results.go\<close>,
  \<open>retention.go\<close>): its state and the operations that its handlers (\<open>Engine_Handlers\<close>) share.

  The four repositories are one in-memory store, as \<open>local.go\<close> wires them. A repository call may
  also fail as an unreachable store would, without effect: \<open>e_fault\<close> says which calls do, so that
  every error branch of the engine is reached. The outcome of each \<open>Enqueue\<close> and the instants the
  clock returns are sequences that nothing constrains. A message that was enqueued is in
  \<open>e_outbox\<close> beside its sender. Logging is left out.

  An operation takes the engine and returns it updated, under an \<open>option\<close> whose \<open>None\<close> is a panic
  (a nil dereference in the store) or a loop that does not end.
\<close>

section \<open>State\<close>

datatype repoErr = Unavailable | StoreErr err

record engine =
  e_mem :: memstore
  e_reg :: registry
  e_cfg :: config
  e_metrics :: metrics
  e_clock :: "nat \<Rightarrow> time"
  e_ticks :: nat
  e_fault :: "nat \<Rightarrow> bool"
  e_calls :: nat
  e_accept :: "nat \<Rightarrow> bool"
  e_sends :: nat
  e_outbox :: "(senderID \<times> message) list"
  e_notified :: bool
  e_stopping :: bool
  e_running :: bool
  e_errText :: "repoErr \<Rightarrow> string"

definition NewEngine ::
    "config option \<Rightarrow> memstore \<Rightarrow> registry \<Rightarrow> (nat \<Rightarrow> time) \<Rightarrow> (nat \<Rightarrow> bool) \<Rightarrow> (nat \<Rightarrow> bool)
      \<Rightarrow> (repoErr \<Rightarrow> string) \<Rightarrow> engine" where
  "NewEngine cfg mem reg clk fault accept texts = \<lparr>
     e_mem = mem, e_reg = reg,
     e_cfg = config_normalized (case cfg of None \<Rightarrow> zeroConfig | Some c \<Rightarrow> c),
     e_metrics = zeroMetrics, e_clock = clk, e_ticks = 0, e_fault = fault, e_calls = 0,
     e_accept = accept, e_sends = 0, e_outbox = [], e_notified = False, e_stopping = False,
     e_running = False, e_errText = texts\<rparr>"

definition now_e :: "engine \<Rightarrow> time \<times> engine" where
  "now_e e = (e_clock e (e_ticks e), e\<lparr>e_ticks := Suc (e_ticks e)\<rparr>)"

definition engine_SetClock :: "engine \<Rightarrow> (nat \<Rightarrow> time) \<Rightarrow> engine" where
  "engine_SetClock e clk = e\<lparr>e_clock := clk, e_ticks := 0\<rparr>"

text \<open>The wakeup channel holds one token.\<close>

definition Notify :: "engine \<Rightarrow> engine" where
  "Notify e = e\<lparr>e_notified := True\<rparr>"

definition bump :: "((u64 \<Rightarrow> u64) \<Rightarrow> metrics \<Rightarrow> metrics) \<Rightarrow> engine \<Rightarrow> engine" where
  "bump counter e = e\<lparr>e_metrics := counter (\<lambda>n. n + 1) (e_metrics e)\<rparr>"

text \<open>A repository call, over what the store does.\<close>

type_synonym 'a call = "memstore \<Rightarrow> ((err + 'a) \<times> memstore) option"

definition repo :: "engine \<Rightarrow> 'a call \<Rightarrow> ((repoErr + 'a) \<times> engine) option" where
  "repo e f =
     (let n = e_calls e; e = e\<lparr>e_calls := Suc n\<rparr> in
      if e_fault e n then Some (Inl Unavailable, e)
      else map_option (\<lambda>(r, s). (map_sum StoreErr id r, e\<lparr>e_mem := s\<rparr>)) (f (e_mem e)))"

definition lookup :: "(memstore \<Rightarrow> err + 'a) \<Rightarrow> 'a call" where
  "lookup f s = Some (f s, s)"

definition query :: "(memstore \<Rightarrow> 'a) \<Rightarrow> 'a call" where
  "query f s = Some (Inr (f s), s)"

definition query_opt :: "(memstore \<Rightarrow> 'a option) \<Rightarrow> 'a call" where
  "query_opt f s = map_option (\<lambda>v. (Inr v, s)) (f s)"

definition update :: "(memstore \<Rightarrow> (err + 'a) \<times> memstore) \<Rightarrow> 'a call" where
  "update f s = Some (f s)"

definition remove :: "(memstore \<Rightarrow> bool \<times> memstore) \<Rightarrow> bool call" where
  "remove f s = (let (b, s') = f s in Some (Inr b, s'))"

text \<open>\<open>entry.Enqueue(msg)\<close>: whether the sender took the message.\<close>

definition Enqueue :: "engine \<Rightarrow> entryRef \<Rightarrow> message \<Rightarrow> bool \<times> engine" where
  "Enqueue e ref msg =
     (let n = e_sends e; e = e\<lparr>e_sends := Suc n\<rparr> in
      if e_accept e n
      then (True, e\<lparr>e_outbox := e_outbox e @ [(en_sender (rg_heap (e_reg e) ref), msg)]\<rparr>)
      else (False, e))"

section \<open>Recorded reasons\<close>

definition waitReasonNoExecutor :: string where "waitReasonNoExecutor = ''no executor of required type connected''"
definition waitReasonNoCompatible :: string where "waitReasonNoCompatible = ''no compatible executor for required function version''"
definition waitReasonNoLabeled :: string where "waitReasonNoLabeled = ''no connected executor announces the pinned routing label''"
definition cancelReasonJobDisabled :: string where "cancelReasonJobDisabled = ''job disabled''"
definition cancelReasonJobReplaced :: string where "cancelReasonJobReplaced = ''job definition replaced''"
definition cancelReasonJobDeleted :: string where "cancelReasonJobDeleted = ''job deleted''"
definition skipReasonOverlap :: string where "skipReasonOverlap = ''previous occurrence still running''"
definition lostReasonDisconnect :: string where "lostReasonDisconnect = ''executor disconnected before result''"
definition lostReasonLease :: string where "lostReasonLease = ''execution lease expired''"
definition lostReasonRestart :: string where "lostReasonRestart = ''scheduler restarted during dispatch''"
definition dispatchReasonQueueFull :: string where "dispatchReasonQueueFull = ''executor outgoing queue full''"
definition rejectReasonUnknown :: string where "rejectReasonUnknown = ''executor rejected execution''"
definition failureReasonUnknown :: string where "failureReasonUnknown = ''function failed without error detail''"

section \<open>Moving executions\<close>

definition because :: "string \<Rightarrow> executionUpdate" where
  "because reason = emptyUpdate\<lparr>u_WaitReason := Some reason\<rparr>"

text \<open>\<open>transition\<close>: \<open>update\<close> is what the source's \<open>mutate\<close> leaves beside the state.\<close>

definition transition :: "engine \<Rightarrow> execution \<Rightarrow> executionState \<Rightarrow> executionUpdate \<Rightarrow> engine option" where
  "transition e x state u =
     map_option snd (repo e (update (\<lambda>s. UpdateExecution s (x_ID x) (x_Version x) (u\<lparr>u_State := Some state\<rparr>))))"

definition requeueReady :: "engine \<Rightarrow> executionID \<Rightarrow> duration \<Rightarrow> (bool \<times> engine) option" where
  "requeueReady e i delay =
     do { (r, e) \<leftarrow> repo e (lookup (\<lambda>s. GetExecution s i));
          case r of
            Inl _ \<Rightarrow> Some (False, e)
          | Inr x \<Rightarrow>
              if Terminal (x_State x) then Some (False, e)
              else
                let (now, e) = now_e e;
                    next_at = timeAdd now delay
                in do {
                  (r, e) \<leftarrow> repo e (update (\<lambda>s. UpdateExecution s (x_ID x) (x_Version x)
                    (emptyUpdate\<lparr>u_State := Some StateReady, u_NextAttemptAt := Some next_at\<rparr>)));
                  case r of Inl _ \<Rightarrow> Some (False, e) | Inr _ \<Rightarrow> Some (True, e) } }"

definition releaseAttemptSlot :: "engine \<Rightarrow> attemptID \<Rightarrow> engine option" where
  "releaseAttemptSlot e i =
     do { (r, e) \<leftarrow> repo e (lookup (\<lambda>s. GetAttempt s i));
          case r of
            Inl _ \<Rightarrow> Some e
          | Inr a \<Rightarrow>
              (case rg_Get (e_reg e) (a_InstanceID a) of
                 None \<Rightarrow> Some e
               | Some ref \<Rightarrow> Some (e\<lparr>e_reg := ReleaseInFlight (e_reg e) ref i\<rparr>)) }"

definition abandonAttempt :: "engine \<Rightarrow> execution \<Rightarrow> string \<Rightarrow> engine option" where
  "abandonAttempt e x reason =
     do { e \<leftarrow> (if x_CurrentAttemptID x \<noteq> 0 then
                 do { (_, e) \<leftarrow> repo e (update (\<lambda>s. UpdateAttemptState s (x_CurrentAttemptID x)
                        [AttemptDispatched, AttemptAccepted] AttemptLost reason));
                      releaseAttemptSlot e (x_CurrentAttemptID x) }
               else Some e);
          (requeued, e) \<leftarrow> requeueReady e (x_ID x) 0;
          Some (if requeued then bump mt_InfraRedispatches_update e else e) }"

definition materializeNext :: "engine \<Rightarrow> job \<Rightarrow> time \<Rightarrow> engine option" where
  "materializeNext e jb afterOccurrence =
     (case nextOccurrence (j_Schedule jb) afterOccurrence of
        None \<Rightarrow> Some e
      | Some occurrence \<Rightarrow>
          do { (r, e) \<leftarrow> repo e (\<lambda>s. CreateExecution s (j_ID jb) occurrence StateScheduled False);
               case r of
                 Inl _ \<Rightarrow> Some e
               | Inr (_, created) \<Rightarrow> Some (if created then Notify e else e) })"

section \<open>Dispatch\<close>

definition nextAttemptNumber :: "int \<Rightarrow> u32" where
  "nextAttemptNumber priorAttempts =
     (if priorAttempts < 0 \<or> 4294967295 \<le> priorAttempts then 4294967295
      else word_of_int priorAttempts + firstAttemptNumber)"

definition resolveOverlap :: "overlapPolicy \<Rightarrow> overlapPolicy" where
  "resolveOverlap policy = (if policy = OverlapPolicyInherit then OverlapPolicyAllow else policy)"

definition selectExecutor :: "engine \<Rightarrow> job \<Rightarrow> entryRef option \<times> engine" where
  "selectExecutor e jb =
     (if p_Label (j_Pin jb) = '''' then
        (let (r, reg) = Select (e_reg e) (j_ExecutorType jb) (j_Function jb) in (r, e\<lparr>e_reg := reg\<rparr>))
      else
        let (labeled, reg) = SelectLabeled (e_reg e) (j_ExecutorType jb) (j_Function jb) (p_Label (j_Pin jb));
            e = e\<lparr>e_reg := reg\<rparr>
        in case labeled of
             Some ref \<Rightarrow> (Some ref, e)
           | None \<Rightarrow>
               if p_Policy (j_Pin jb) = PinPolicyPreferred then
                 (let e = bump mt_LabelPinFallbacks_update e;
                      (r, reg) = Select (e_reg e) (j_ExecutorType jb) (j_Function jb)
                  in (r, e\<lparr>e_reg := reg\<rparr>))
               else (None, e))"

definition parkUndispatchable :: "engine \<Rightarrow> job \<Rightarrow> execution \<Rightarrow> engine option" where
  "parkUndispatchable e jb x =
     (if p_Label (j_Pin jb) \<noteq> '''' \<and> p_Policy (j_Pin jb) \<noteq> PinPolicyPreferred
         \<and> LabelPoolSize (e_reg e) (p_Label (j_Pin jb)) = 0 then
        map_option (bump mt_WaitingLabel_update) (transition e x StateWaitingLabel (because waitReasonNoLabeled))
      else if PoolSize (e_reg e) (j_ExecutorType jb) = 0 then
        map_option (bump mt_WaitingExecutor_update) (transition e x StateWaitingExecutor (because waitReasonNoExecutor))
      else if SupportsFunction (e_reg e) (j_ExecutorType jb) (j_Function jb) then
        map_option (bump mt_WaitingCapacity_update \<circ> snd) (requeueReady e (x_ID x) (cf_RedispatchDelay (e_cfg e)))
      else
        map_option (bump mt_WaitingCompatible_update)
          (transition e x StateWaitingCompatible (because waitReasonNoCompatible)))"

definition executionTimeoutMillisNone :: u32 where "executionTimeoutMillisNone = 0"

text \<open>
  \<open>dispatchExecution\<close>, in three parts: the attempt for an executor that was selected, the delivery
  of its request, and the checks that come first.
\<close>

definition deliverRequest ::
    "engine \<Rightarrow> job \<Rightarrow> execution \<Rightarrow> entryRef \<Rightarrow> attemptID \<Rightarrow> u32 \<Rightarrow> engine option" where
  "deliverRequest e jb x ref attemptId attempts =
     (let request = ExecRequestMsg \<lparr>
            eq_JobUUID = j_ID jb, eq_ExecutionID = x_ID x, eq_AttemptID = attemptId,
            eq_AttemptNumber = attempts + firstAttemptNumber, eq_Function = j_Function jb,
            eq_Args = j_Args jb, eq_ScheduledUnixNano = unixNano (x_ScheduledAt x),
            eq_TimeoutMillis = executionTimeoutMillisNone,
            eq_DeliverResult = (j_ResultMode jb = ResultModeDeliver)\<rparr>;
          e = e\<lparr>e_reg := AddInFlight (e_reg e) ref attemptId\<rparr>;
          (sent, e) = Enqueue e ref request
      in if \<not> sent then
           let e = e\<lparr>e_reg := ReleaseInFlight (e_reg e) ref attemptId\<rparr> in
           do { (_, e) \<leftarrow> repo e (update (\<lambda>s. UpdateAttemptState s attemptId [AttemptDispatched]
                  AttemptInfraFailed dispatchReasonQueueFull));
                (_, e) \<leftarrow> requeueReady e (x_ID x) (cf_RedispatchDelay (e_cfg e));
                Some (bump mt_DispatchFailures_update e) }
         else materializeNext (bump mt_Dispatches_update e) jb (x_ScheduledAt x))"

definition claimAndDispatch :: "engine \<Rightarrow> job \<Rightarrow> execution \<Rightarrow> time \<Rightarrow> entryRef \<Rightarrow> engine option" where
  "claimAndDispatch e jb x now ref =
     (let lease = timeAdd now (cf_Lease (e_cfg e)) in
      do { (r, e) \<leftarrow> repo e (update (\<lambda>s. UpdateExecution s (x_ID x) (x_Version x)
             (emptyUpdate\<lparr>u_State := Some StateDispatching, u_LeaseExpiresAt := Some lease\<rparr>)));
           case r of
             Inl _ \<Rightarrow> Some e
           | Inr claimed \<Rightarrow>
               do { (r, e) \<leftarrow> repo e (query_opt (\<lambda>s. AttemptsForExecution s (x_ID x)));
                    case r of
                      Inl _ \<Rightarrow> Some e
                    | Inr prior \<Rightarrow>
                        do { (r, e) \<leftarrow> repo e (update (\<lambda>s. CreateAttempt s (x_ID x)
                               (nextAttemptNumber (int (length prior))) (en_instanceID (rg_heap (e_reg e) ref))));
                             case r of
                               Inl _ \<Rightarrow> Some e
                             | Inr a \<Rightarrow>
                                 do { (r, e) \<leftarrow> repo e (update (\<lambda>s. UpdateExecution s (x_ID claimed) (x_Version claimed)
                                        (emptyUpdate\<lparr>u_CurrentAttemptID := Some (a_ID a)\<rparr>)));
                                      case r of
                                        Inl _ \<Rightarrow> Some e
                                      | Inr fenced \<Rightarrow>
                                          deliverRequest e jb x ref (a_ID a) (x_FunctionAttempts fenced) } } } })"

definition dispatchExecution :: "engine \<Rightarrow> execution \<Rightarrow> time \<Rightarrow> engine option" where
  "dispatchExecution e x now =
     do { (r, e) \<leftarrow> repo e (lookup (\<lambda>s. GetJob s (x_JobID x)));
          case r of
            Inl err \<Rightarrow>
              if err = StoreErr ErrJobNotFound
              then transition e x StateCancelled (because cancelReasonJobDeleted)
              else Some e
          | Inr jb \<Rightarrow>
              if \<not> j_Enabled jb then transition e x StateCancelled (because cancelReasonJobDisabled)
              else
                do { (skip, e) \<leftarrow>
                       (if resolveOverlap (j_Overlap jb) = OverlapPolicySkip then
                          do { (r, e) \<leftarrow> repo e (query (\<lambda>s. HasActiveExecution s (j_ID jb) (x_ID x)));
                               Some (r = Inr True, e) }
                        else Some (False, e));
                     if skip then
                       do { e \<leftarrow> transition e x StateSkipped (because skipReasonOverlap);
                            materializeNext (bump mt_SkippedOverlaps_update e) jb (x_ScheduledAt x) }
                     else
                       let (entry, e) = selectExecutor e jb in
                       case entry of
                         None \<Rightarrow> parkUndispatchable e jb x
                       | Some ref \<Rightarrow> claimAndDispatch e jb x now ref } }"

fun dispatchAll :: "engine \<Rightarrow> time \<Rightarrow> execution list \<Rightarrow> engine option" where
  "dispatchAll e now [] = Some e"
| "dispatchAll e now (x # xs) =
     (if \<not> e_running e \<or> e_stopping e then Some e
      else do { e \<leftarrow> dispatchExecution e x now; dispatchAll e now xs })"

definition processDue :: "engine \<Rightarrow> engine option" where
  "processDue e =
     (let (now, e) = now_e e in
      do { (r, e) \<leftarrow> repo e (query_opt (\<lambda>s. DueExecutions s now (cf_DispatchBatch (e_cfg e))));
           case r of Inl _ \<Rightarrow> Some e | Inr due \<Rightarrow> dispatchAll e now due })"

end
