(* ===== verification/Engine_Handlers.thy ===== *)
theory Engine_Handlers
  imports Engine
begin

text \<open>
  The engine's handlers and passes (\<open>yascheduler/engine/handlers.go\<close>, \<open>results.go\<close>,
  \<open>retention.go\<close>, \<open>labels.go\<close>, \<open>engine.go\<close>). A handler runs to completion; the instance
  identity it is given comes from the connection.
\<close>

section \<open>Held results\<close>

definition resultOwnedBy :: "engine \<Rightarrow> jobUUID \<Rightarrow> instanceID \<Rightarrow> (bool \<times> engine) option" where
  "resultOwnedBy e uuid inst =
     do { (r, e) \<leftarrow> repo e (query_opt (\<lambda>s. ResultsForInstance s inst 0));
          case r of
            Inl _ \<Rightarrow> Some (False, e)
          | Inr held \<Rightarrow> Some (list_ex (\<lambda>p. r_JobUUID p = uuid) held, e) }"

definition HandleResultAck :: "engine \<Rightarrow> instanceID \<Rightarrow> resultDeliveryAckMsg \<Rightarrow> engine option" where
  "HandleResultAck e inst ack =
     do { (owned, e) \<leftarrow> resultOwnedBy e (rk_JobUUID ack) inst;
          if \<not> owned then Some (bump mt_StaleMessages_update e)
          else if \<not> rk_Accepted ack then
            do { (r, e) \<leftarrow> repo e (remove (\<lambda>s. DeleteResult s (rk_JobUUID ack)));
                 case r of
                   Inl _ \<Rightarrow> Some e
                 | Inr abandoned \<Rightarrow>
                     Some (bump (if abandoned then mt_ResultsAbandoned_update else mt_StaleMessages_update) e) }
          else
            do { (r, e) \<leftarrow> repo e (remove (\<lambda>s. DeleteResult s (rk_JobUUID ack)));
                 case r of
                   Inl _ \<Rightarrow> Some e
                 | Inr deleted \<Rightarrow>
                     Some (bump (if deleted then mt_ResultsAcked_update else mt_StaleMessages_update) e) } }"

definition deliverResult :: "engine \<Rightarrow> pendingResult \<Rightarrow> (bool \<times> engine) option" where
  "deliverResult e p =
     (case rg_Get (e_reg e) (r_InstanceID p) of
        None \<Rightarrow> Some (False, e)
      | Some ref \<Rightarrow>
          if \<not> Alive (rg_heap (e_reg e) ref) then Some (False, e)
          else
            let delivery = ResultDeliveryMsg \<lparr>
                  rd_JobUUID = r_JobUUID p, rd_ExecutionID = r_ExecutionID p, rd_Success = r_Success p,
                  rd_HasValue = r_HasValue p, rd_Result = r_Payload p, rd_Error = r_Cause p\<rparr>;
                (sent, e) = Enqueue e ref delivery
            in if \<not> sent then Some (False, e)
               else
                 let (now, e) = now_e e in
                 do { (_, e) \<leftarrow> repo e (update (\<lambda>s. MarkResultSent s (r_JobUUID p) now));
                      Some (True, bump (if r_Attempts p = 0 then mt_ResultsDelivered_update
                                        else mt_ResultsRedelivered_update) e) })"

fun deliverAll :: "engine \<Rightarrow> pendingResult list \<Rightarrow> engine option" where
  "deliverAll e [] = Some e"
| "deliverAll e (p # ps) = do { (_, e) \<leftarrow> deliverResult e p; deliverAll e ps }"

definition HandleRegistered :: "engine \<Rightarrow> instanceID \<Rightarrow> engine option" where
  "HandleRegistered e inst =
     do { (r, e) \<leftarrow> repo e (query_opt (\<lambda>s. ResultsForInstance s inst 0));
          case r of Inl _ \<Rightarrow> Some e | Inr pending \<Rightarrow> deliverAll e pending }"

definition resultWithinCaps :: "engine \<Rightarrow> instanceID \<Rightarrow> (bool \<times> engine) option" where
  "resultWithinCaps e inst =
     do { (r, e) \<leftarrow> repo e (query CountResults);
          case r of
            Inl _ \<Rightarrow> Some (True, e)
          | Inr n \<Rightarrow>
              if cf_MaxPendingResults (e_cfg e) \<le> of_nat n then Some (False, e)
              else
                do { (r, e) \<leftarrow> repo e (query_opt (\<lambda>s. ResultsForInstance s inst 0));
                     case r of
                       Inl _ \<Rightarrow> Some (True, e)
                     | Inr held \<Rightarrow>
                         Some (of_nat (length held) < cf_MaxPendingResultsPerInstance (e_cfg e), e) } }"

definition captureResult :: "engine \<Rightarrow> job \<Rightarrow> execution \<Rightarrow> execResultMsg \<Rightarrow> engine option" where
  "captureResult e jb x m =
     (if j_ResultMode jb \<noteq> ResultModeDeliver then Some e
      else
        let pending = \<lparr>r_JobUUID = j_ID jb, r_InstanceID = j_SubmitterInstanceID jb,
              r_ExecutionID = x_ID x, r_Success = er_Success m, r_HasValue = er_HasValue m,
              r_Payload = er_Result m, r_Cause = er_Error m, r_Attempts = 0,
              r_CreatedAt = zeroTime, r_LastSentAt = zeroTime\<rparr>
        in do { (allowed, e) \<leftarrow> resultWithinCaps e (j_SubmitterInstanceID jb);
                if \<not> allowed then Some (bump mt_ResultsDropped_update e)
                else
                  do { (r, e) \<leftarrow> repo e (update (\<lambda>s. StoreResult s (Some pending)));
                       case r of
                         Inl _ \<Rightarrow> Some e
                       | Inr stored \<Rightarrow>
                           if \<not> stored then Some (bump mt_ResultsDropped_update e)
                           else map_option snd (deliverResult (bump mt_ResultsStored_update e) pending) } })"

fun expireAll :: "engine \<Rightarrow> pendingResult list \<Rightarrow> engine option" where
  "expireAll e [] = Some e"
| "expireAll e (p # ps) =
     do { (r, e) \<leftarrow> repo e (remove (\<lambda>s. DeleteResult s (r_JobUUID p)));
          expireAll (if r = Inr True then bump mt_ResultsExpired_update e else e) ps }"

definition expireResults :: "engine \<Rightarrow> time \<Rightarrow> engine option" where
  "expireResults e now =
     do { (r, e) \<leftarrow> repo e (query (\<lambda>s. ExpiredResults s
            (timeAdd now (int64 (- cf_ResultRetention (e_cfg e)))) (cf_DispatchBatch (e_cfg e))));
          case r of Inl _ \<Rightarrow> Some e | Inr expired \<Rightarrow> expireAll e expired }"

text \<open>The two loops of \<open>redeliverStaleResults\<close>; the budget left is passed on.\<close>

fun redeliverPending :: "engine \<Rightarrow> time \<Rightarrow> int \<Rightarrow> pendingResult list \<Rightarrow> (int \<times> engine) option" where
  "redeliverPending e cutoff budget [] = Some (budget, e)"
| "redeliverPending e cutoff budget (p # ps) =
     (if budget \<le> 0 then Some (budget, e)
      else if cutoff < r_LastSentAt p then redeliverPending e cutoff budget ps
      else do { (sent, e) \<leftarrow> deliverResult e p;
                redeliverPending e cutoff (if sent then budget - 1 else budget) ps })"

fun redeliverTo :: "engine \<Rightarrow> time \<Rightarrow> int \<Rightarrow> instanceID list \<Rightarrow> engine option" where
  "redeliverTo e cutoff budget [] = Some e"
| "redeliverTo e cutoff budget (inst # insts) =
     (if budget \<le> 0 then Some e
      else do { (r, e) \<leftarrow> repo e (query_opt (\<lambda>s. ResultsForInstance s inst budget));
                case r of
                  Inl _ \<Rightarrow> redeliverTo e cutoff budget insts
                | Inr pending \<Rightarrow>
                    do { (budget, e) \<leftarrow> redeliverPending e cutoff budget pending;
                         redeliverTo e cutoff budget insts } })"

definition redeliverStaleResults :: "engine \<Rightarrow> time \<Rightarrow> engine option" where
  "redeliverStaleResults e now =
     redeliverTo e (timeAdd now (int64 (- cf_RedispatchDelay (e_cfg e)))) (cf_DispatchBatch (e_cfg e))
       (ConnectedInstances (e_reg e))"

definition sweepResults :: "engine \<Rightarrow> time \<Rightarrow> engine option" where
  "sweepResults e now = do { e \<leftarrow> expireResults e now; redeliverStaleResults e now }"

section \<open>Retention\<close>

text \<open>The loop over the attempts stops at the first failure: \<open>False\<close>.\<close>

fun purgeAttempts :: "engine \<Rightarrow> attempt list \<Rightarrow> (bool \<times> engine) option" where
  "purgeAttempts e [] = Some (True, e)"
| "purgeAttempts e (a # as) =
     do { (r, e) \<leftarrow> repo e (remove (\<lambda>s. DeleteAttempt s (a_ID a)));
          case r of
            Inl _ \<Rightarrow> Some (False, e)
          | Inr deleted \<Rightarrow> purgeAttempts (if deleted then bump mt_AttemptsPurged_update e else e) as }"

definition purgeExecution :: "engine \<Rightarrow> execution \<Rightarrow> engine option" where
  "purgeExecution e x =
     do { (r, e) \<leftarrow> repo e (query_opt (\<lambda>s. AttemptsForExecution s (x_ID x)));
          case r of
            Inl _ \<Rightarrow> Some e
          | Inr as \<Rightarrow>
              do { (complete, e) \<leftarrow> purgeAttempts e as;
                   if \<not> complete then Some e
                   else
                     do { (r, e) \<leftarrow> repo e (remove (\<lambda>s. DeleteExecution s (x_ID x)));
                          Some (if r = Inr True then bump mt_ExecutionsExpired_update e else e) } } }"

fun purgeAll :: "engine \<Rightarrow> execution list \<Rightarrow> engine option" where
  "purgeAll e [] = Some e"
| "purgeAll e (x # xs) = do { e \<leftarrow> purgeExecution e x; purgeAll e xs }"

definition sweepExecutions :: "engine \<Rightarrow> time \<Rightarrow> engine option" where
  "sweepExecutions e now =
     do { (r, e) \<leftarrow> repo e (query_opt (\<lambda>s. ExpiredExecutions s
            (timeAdd now (int64 (- cf_ExecutionRetention (e_cfg e)))) (cf_DispatchBatch (e_cfg e))));
          case r of Inl _ \<Rightarrow> Some e | Inr expired \<Rightarrow> purgeAll e expired }"

section \<open>Waiting executions\<close>

text \<open>\<open>requeueWaiting\<close> requeues the waiting executions whose job satisfies a condition.\<close>

fun requeueWaiting :: "engine \<Rightarrow> (engine \<Rightarrow> execution \<Rightarrow> job \<Rightarrow> bool) \<Rightarrow> execution list \<Rightarrow> (bool \<times> engine) option" where
  "requeueWaiting e wanted [] = Some (False, e)"
| "requeueWaiting e wanted (x # xs) =
     do { (r, e) \<leftarrow> repo e (lookup (\<lambda>s. GetJob s (x_JobID x)));
          case r of
            Inl _ \<Rightarrow> requeueWaiting e wanted xs
          | Inr jb \<Rightarrow>
              if \<not> wanted e x jb then requeueWaiting e wanted xs
              else do { (requeued, e) \<leftarrow> requeueReady e (x_ID x) 0;
                        (others, e) \<leftarrow> requeueWaiting e wanted xs;
                        Some (requeued \<or> others, e) } }"

definition waitingStates :: "executionState list" where
  "waitingStates = [StateWaitingExecutor, StateWaitingCompatible, StateWaitingLabel]"

definition wakesFor :: "registryChange \<Rightarrow> engine \<Rightarrow> execution \<Rightarrow> job \<Rightarrow> bool" where
  "wakesFor change e x jb \<longleftrightarrow> j_ExecutorType jb = rc_ExecutorType change
     \<and> \<not> (x_State x = StateWaitingLabel \<and> p_Label (j_Pin jb) \<notin> set (rc_Labels change))"

definition reconsiderWaiting :: "engine \<Rightarrow> registryChange \<Rightarrow> engine option" where
  "reconsiderWaiting e change =
     do { (r, e) \<leftarrow> repo e (query_opt (\<lambda>s. ExecutionsInStates s waitingStates));
          case r of
            Inl _ \<Rightarrow> Some e
          | Inr waiting \<Rightarrow>
              do { (requeued, e) \<leftarrow> requeueWaiting e (wakesFor change) waiting;
                   Some (if requeued then Notify e else e) } }"

definition requeueWaitingWithPools :: "engine \<Rightarrow> engine option" where
  "requeueWaitingWithPools e =
     do { (r, e) \<leftarrow> repo e (query_opt (\<lambda>s. ExecutionsInStates s waitingStates));
          case r of
            Inl _ \<Rightarrow> Some e
          | Inr waiting \<Rightarrow>
              do { (requeued, e) \<leftarrow> requeueWaiting e
                     (\<lambda>e x jb. PoolSize (e_reg e) (j_ExecutorType jb) \<noteq> 0) waiting;
                   Some (if requeued then Notify e else e) } }"

section \<open>Label updates and connections\<close>

definition reportWithdrawnUnderLoad :: "engine \<Rightarrow> instanceID \<Rightarrow> label list \<Rightarrow> engine option" where
  "reportWithdrawnUnderLoad e inst withdrawn =
     do { (r, e) \<leftarrow> repo e (query_opt (\<lambda>s. AttemptsOnInstance s inst [AttemptDispatched, AttemptAccepted]));
          case r of
            Inl _ \<Rightarrow> Some e
          | Inr open_attempts \<Rightarrow>
              Some (if open_attempts = [] then e else bump mt_LabelWithdrawnInFlight_update e) }"

fun registryErrorText :: "registryError \<Rightarrow> string" where
  "registryErrorText ErrEmptyLabel = ''[SCHEDULERENGINE] failed to update labels: routing label is empty''"
| "registryErrorText ErrUnknownInstance =
     ''[SCHEDULERENGINE] failed to update labels: executor instance is not registered''"
| "registryErrorText ErrLabelLimitExceeded =
     ''[SCHEDULERENGINE] failed to update labels: routing label limit exceeded''"

text \<open>The registry calls its hook before it returns; \<open>Start\<close> installs \<open>reconsiderWaiting\<close> as the hook.\<close>

definition notifyHook :: "engine \<Rightarrow> registryChange option \<Rightarrow> engine option" where
  "notifyHook e change = (case change of None \<Rightarrow> Some e | Some c \<Rightarrow> reconsiderWaiting e c)"

definition HandleLabelUpdate ::
    "engine \<Rightarrow> instanceID \<Rightarrow> labelUpdateMsg \<Rightarrow> (labelUpdateAckMsg \<times> engine) option" where
  "HandleLabelUpdate e inst m =
     do { ((active, failure, change), reg) \<leftarrow> UpdateLabels (e_reg e) inst (lu_Announce m) (lu_Withdraw m);
          e \<leftarrow> notifyHook (e\<lparr>e_reg := reg\<rparr>) change;
          case failure of
            Some err \<Rightarrow>
              Some (\<lparr>la_Accepted = False, la_ActiveCount = active,
                     la_Error = Some \<lparr>e_Code = ErrorCodeLabelRejected, e_Retryable = False,
                                      e_Message = registryErrorText err\<rparr>\<rparr>,
                    bump mt_LabelUpdatesRejected_update e)
          | None \<Rightarrow>
              do { e \<leftarrow> (if lu_Withdraw m \<noteq> [] then reportWithdrawnUnderLoad e inst (lu_Withdraw m) else Some e);
                   Some (\<lparr>la_Accepted = True, la_ActiveCount = active, la_Error = None\<rparr>, e) } }"

text \<open>A connection that registers: the registry's part, with its hook.\<close>

definition registerExecutor ::
    "engine \<Rightarrow> instanceID \<Rightarrow> executorType \<Rightarrow> u32 \<Rightarrow> functionSpec list \<Rightarrow> label list \<Rightarrow> senderID
      \<Rightarrow> ((entryRef \<times> entryRef option) \<times> engine) option" where
  "registerExecutor e inst et capacity functions labels sender =
     do { ((ref, replaced, change), reg) \<leftarrow> Register (e_reg e) inst et capacity functions labels sender;
          e \<leftarrow> notifyHook (e\<lparr>e_reg := reg\<rparr>) change;
          Some ((ref, replaced), e) }"

section \<open>Attempts\<close>

definition attemptOwnedBy :: "engine \<Rightarrow> attemptID \<Rightarrow> instanceID \<Rightarrow> (bool \<times> engine) option" where
  "attemptOwnedBy e i inst =
     do { (r, e) \<leftarrow> repo e (lookup (\<lambda>s. GetAttempt s i));
          case r of Inl _ \<Rightarrow> Some (False, e) | Inr a \<Rightarrow> Some (a_InstanceID a = inst, e) }"

definition releaseOn :: "engine \<Rightarrow> instanceID \<Rightarrow> attemptID \<Rightarrow> engine" where
  "releaseOn e inst i =
     (case rg_Get (e_reg e) inst of None \<Rightarrow> e | Some ref \<Rightarrow> e\<lparr>e_reg := ReleaseInFlight (e_reg e) ref i\<rparr>)"

definition settleRejectedAttempt ::
    "engine \<Rightarrow> instanceID \<Rightarrow> execution \<Rightarrow> execAcceptMsg \<Rightarrow> engine option" where
  "settleRejectedAttempt e inst x m =
     (let rejectionText = (case ea_Error m of None \<Rightarrow> rejectReasonUnknown | Some err \<Rightarrow> e_Message err) in
      do { (r, e) \<leftarrow> repo e (update (\<lambda>s. UpdateAttemptState s (ea_AttemptID m) [AttemptDispatched]
             AttemptInfraFailed rejectionText));
           case r of
             Inl _ \<Rightarrow> Some e
           | Inr rejected \<Rightarrow>
               if \<not> rejected then Some (bump mt_StaleMessages_update e)
               else
                 let e = bump mt_InfraRedispatches_update (releaseOn e inst (ea_AttemptID m)) in
                 if ea_Error m \<noteq> None
                     \<and> (e_Code (the (ea_Error m)) = ErrorCodeUnknownFunction
                        \<or> e_Code (the (ea_Error m)) = ErrorCodeIncompatibleFunction)
                 then transition e x StateWaitingCompatible (because rejectionText)
                 else do { (_, e) \<leftarrow> requeueReady e (x_ID x) (cf_RedispatchDelay (e_cfg e));
                           Some (Notify e) } })"

definition HandleExecAccept :: "engine \<Rightarrow> instanceID \<Rightarrow> execAcceptMsg \<Rightarrow> engine option" where
  "HandleExecAccept e inst m =
     do { (r, e) \<leftarrow> repo e (lookup (\<lambda>s. GetExecution s (ea_ExecutionID m)));
          case r of
            Inl _ \<Rightarrow> Some (bump mt_StaleMessages_update e)
          | Inr x \<Rightarrow>
              if x_CurrentAttemptID x \<noteq> ea_AttemptID m then Some (bump mt_StaleMessages_update e)
              else
                do { (owned, e) \<leftarrow> attemptOwnedBy e (ea_AttemptID m) inst;
                     if \<not> owned then Some (bump mt_StaleMessages_update e)
                     else if \<not> ea_Accepted m then settleRejectedAttempt e inst x m
                     else if x_State x \<noteq> StateDispatching then Some (bump mt_StaleMessages_update e)
                     else
                       let (now, e) = now_e e;
                           lease = timeAdd now (cf_Lease (e_cfg e));
                           consumed = x_FunctionAttempts x + 1
                       in do { (r, e) \<leftarrow> repo e (update (\<lambda>s. UpdateExecution s (x_ID x) (x_Version x)
                                 (emptyUpdate\<lparr>u_State := Some StateRunning, u_LeaseExpiresAt := Some lease,
                                              u_FunctionAttempts := Some consumed\<rparr>)));
                               case r of
                                 Inl _ \<Rightarrow> Some e
                               | Inr _ \<Rightarrow>
                                   map_option snd (repo e (update (\<lambda>s. UpdateAttemptState s (ea_AttemptID m)
                                     [AttemptDispatched] AttemptAccepted ''''))) } } }"

definition settleSuccess :: "engine \<Rightarrow> execution \<Rightarrow> execResultMsg \<Rightarrow> engine option" where
  "settleSuccess e x m =
     do { (r, e) \<leftarrow> repo e (update (\<lambda>s. UpdateExecution s (x_ID x) (x_Version x)
            (emptyUpdate\<lparr>u_State := Some StateSucceeded\<rparr>)));
          case r of
            Inl _ \<Rightarrow> Some e
          | Inr _ \<Rightarrow>
              do { (_, e) \<leftarrow> repo e (update (\<lambda>s. UpdateAttemptState s (er_AttemptID m) [AttemptAccepted]
                     AttemptSucceeded ''''));
                   (r, e) \<leftarrow> repo (bump mt_FunctionSuccesses_update e) (lookup (\<lambda>s. GetJob s (x_JobID x)));
                   case r of Inl _ \<Rightarrow> Some e | Inr jb \<Rightarrow> captureResult e jb x m } }"

definition settleFailure :: "'f float64 \<Rightarrow> engine \<Rightarrow> execution \<Rightarrow> execResultMsg \<Rightarrow> engine option" where
  "settleFailure fl e x m =
     (let (failureText, retryable) = (case er_Error m of
            None \<Rightarrow> (failureReasonUnknown, False)
          | Some err \<Rightarrow> (e_Message err, e_Retryable err)) in
      do { (_, e) \<leftarrow> repo e (update (\<lambda>s. UpdateAttemptState s (er_AttemptID m) [AttemptAccepted]
             AttemptFunctionFailed failureText));
           (r, e) \<leftarrow> repo e (lookup (\<lambda>s. GetJob s (x_JobID x)));
           if (case r of Inl err \<Rightarrow> err \<noteq> StoreErr ErrJobNotFound | Inr _ \<Rightarrow> False) then Some e
           else
             let jp = (case r of Inl _ \<Rightarrow> None | Inr jb \<Rightarrow> Some jb) in
             if jp \<noteq> None \<and> retryable \<and> x_FunctionAttempts x < maxFunctionAttempts (j_Retry (the jp)) then
               let (now, e) = now_e e;
                   next_at = timeAdd now (retryDelay fl (j_Retry (the jp)) (x_FunctionAttempts x) (e_cfg e))
               in do { (r, e) \<leftarrow> repo e (update (\<lambda>s. UpdateExecution s (x_ID x) (x_Version x)
                         (emptyUpdate\<lparr>u_State := Some StateRetryWait, u_NextAttemptAt := Some next_at,
                                      u_LastError := Some failureText\<rparr>)));
                       case r of
                         Inl _ \<Rightarrow> Some e
                       | Inr _ \<Rightarrow> Some (Notify (bump mt_FunctionRetries_update e)) }
             else
               do { (r, e) \<leftarrow> repo e (update (\<lambda>s. UpdateExecution s (x_ID x) (x_Version x)
                      (emptyUpdate\<lparr>u_State := Some StateFailed, u_LastError := Some failureText\<rparr>)));
                    case r of
                      Inl _ \<Rightarrow> Some e
                    | Inr _ \<Rightarrow>
                        let e = bump mt_FunctionFailures_update e in
                        (case jp of None \<Rightarrow> Some e | Some jb \<Rightarrow> captureResult e jb x m) } })"

definition HandleExecResult :: "'f float64 \<Rightarrow> engine \<Rightarrow> instanceID \<Rightarrow> execResultMsg \<Rightarrow> engine option" where
  "HandleExecResult fl e inst m =
     do { (r, e) \<leftarrow> repo e (lookup (\<lambda>s. GetExecution s (er_ExecutionID m)));
          case r of
            Inl _ \<Rightarrow> Some (bump mt_StaleMessages_update e)
          | Inr x \<Rightarrow>
              if x_CurrentAttemptID x \<noteq> er_AttemptID m \<or> x_State x \<noteq> StateRunning
              then Some (bump mt_StaleMessages_update e)
              else
                do { (owned, e) \<leftarrow> attemptOwnedBy e (er_AttemptID m) inst;
                     if \<not> owned then Some (bump mt_StaleMessages_update e)
                     else
                       let e = releaseOn e inst (er_AttemptID m) in
                       if er_Success m then settleSuccess e x m else settleFailure fl e x m } }"

fun abandonOpen :: "engine \<Rightarrow> attempt list \<Rightarrow> (bool \<times> engine) option" where
  "abandonOpen e [] = Some (False, e)"
| "abandonOpen e (a # as) =
     do { (r, e) \<leftarrow> repo e (lookup (\<lambda>s. GetExecution s (a_ExecutionID a)));
          case r of
            Inl _ \<Rightarrow> abandonOpen e as
          | Inr x \<Rightarrow>
              if x_CurrentAttemptID x \<noteq> a_ID a
                 \<or> (x_State x \<noteq> StateDispatching \<and> x_State x \<noteq> StateRunning)
              then abandonOpen e as
              else do { e \<leftarrow> abandonAttempt e x lostReasonDisconnect;
                        (_, e) \<leftarrow> abandonOpen e as;
                        Some (True, e) } }"

definition HandleDisconnect :: "engine \<Rightarrow> instanceID \<Rightarrow> engine option" where
  "HandleDisconnect e inst =
     do { (r, e) \<leftarrow> repo e (query_opt (\<lambda>s. AttemptsOnInstance s inst [AttemptDispatched, AttemptAccepted]));
          case r of
            Inl _ \<Rightarrow> Some e
          | Inr open_attempts \<Rightarrow>
              do { (requeued, e) \<leftarrow> abandonOpen e open_attempts;
                   Some (if requeued then Notify e else e) } }"

fun renewLeases :: "engine \<Rightarrow> time \<Rightarrow> time \<Rightarrow> attempt list \<Rightarrow> engine option" where
  "renewLeases e now lease [] = Some e"
| "renewLeases e now lease (a # as) =
     (if cf_MaxExecution (e_cfg e) \<le> timeSub now (a_CreatedAt a) then renewLeases e now lease as
      else
        do { (r, e) \<leftarrow> repo e (lookup (\<lambda>s. GetExecution s (a_ExecutionID a)));
             case r of
               Inl _ \<Rightarrow> renewLeases e now lease as
             | Inr x \<Rightarrow>
                 if x_CurrentAttemptID x \<noteq> a_ID a
                    \<or> (x_State x \<noteq> StateDispatching \<and> x_State x \<noteq> StateRunning)
                 then renewLeases e now lease as
                 else do { (_, e) \<leftarrow> repo e (update (\<lambda>s. UpdateExecution s (x_ID x) (x_Version x)
                             (emptyUpdate\<lparr>u_LeaseExpiresAt := Some lease\<rparr>)));
                           renewLeases e now lease as } })"

definition HandleHeartbeat :: "engine \<Rightarrow> instanceID \<Rightarrow> engine option" where
  "HandleHeartbeat e inst =
     do { (r, e) \<leftarrow> repo e (query_opt (\<lambda>s. AttemptsOnInstance s inst [AttemptDispatched, AttemptAccepted]));
          case r of
            Inl _ \<Rightarrow> Some e
          | Inr open_attempts \<Rightarrow>
              let (now, e) = now_e e in
              renewLeases e now (timeAdd now (cf_Lease (e_cfg e))) open_attempts }"

end
