(* ===== verification/Engine_Jobs.thy ===== *)
theory Engine_Jobs
  imports Engine_Handlers
begin

text \<open>
  Job definitions and the engine's passes (\<open>yascheduler/engine/handlers.go\<close>, \<open>engine.go\<close>): upserts
  and deletions, startup recovery, the timing loop's turn and the reconcile pass. The goroutines
  and timers that repeat a turn or a pass are not modelled: a turn returns the delay after which
  the next one is due.
\<close>

section \<open>Validation\<close>

definition upsertReasonZeroJobUUID :: string where "upsertReasonZeroJobUUID = ''job uuid is zero''"
definition upsertReasonEmptyKey :: string where "upsertReasonEmptyKey = ''job key is empty''"
definition upsertReasonEmptyType :: string where "upsertReasonEmptyType = ''executor type is empty''"
definition upsertReasonEmptyName :: string where "upsertReasonEmptyName = ''function name is empty''"
definition upsertReasonZeroInterval :: string where "upsertReasonZeroInterval = ''interval must not be zero''"
definition upsertReasonWideInterval :: string where "upsertReasonWideInterval = ''interval is out of range''"
definition upsertReasonUnknownKind :: string where "upsertReasonUnknownKind = ''unknown schedule kind''"

text \<open>A validation returns the reason of a refusal.\<close>

definition validateUpsert :: "jobUpsertMsg \<Rightarrow> string option" where
  "validateUpsert m =
     (if IsZero (ju_JobUUID m) then Some upsertReasonZeroJobUUID
      else if ju_JobKey m = '''' then Some upsertReasonEmptyKey
      else if ju_ExecutorType m = '''' then Some upsertReasonEmptyType
      else if f_Name (ju_Function m) = '''' then Some upsertReasonEmptyName
      else if s_Kind (ju_Schedule m) = ScheduleKindOneShot then None
      else if s_Kind (ju_Schedule m) = ScheduleKindFixedInterval then
        (if s_IntervalMillis (ju_Schedule m) = 0 then Some upsertReasonZeroInterval
         else if maxIntervalMillis < s_IntervalMillis (ju_Schedule m) then Some upsertReasonWideInterval
         else None)
      else Some upsertReasonUnknownKind)"

definition validateDelete :: "jobDeleteMsg \<Rightarrow> string option" where
  "validateDelete m =
     (if jd_JobKey m = '''' then Some upsertReasonEmptyKey
      else if jd_ExecutorType m = '''' then Some upsertReasonEmptyType
      else None)"

section \<open>Cancelling pending occurrences\<close>

fun cancelWhere :: "engine \<Rightarrow> (execution \<Rightarrow> bool) \<Rightarrow> string \<Rightarrow> execution list \<Rightarrow> engine option" where
  "cancelWhere e keep reason [] = Some e"
| "cancelWhere e keep reason (x # xs) =
     (if Terminal (x_State x) \<or> x_State x = StateDispatching \<or> x_State x = StateRunning
      then cancelWhere e keep reason xs
      else if keep x then cancelWhere e keep reason xs
      else do { e \<leftarrow> transition e x StateCancelled (because reason); cancelWhere e keep reason xs })"

definition cancelDeletedExecutions :: "engine \<Rightarrow> jobUUID \<Rightarrow> engine option" where
  "cancelDeletedExecutions e uuid =
     do { (r, e) \<leftarrow> repo e (query_opt (\<lambda>s. ExecutionsForJob s uuid));
          case r of
            Inl _ \<Rightarrow> Some e
          | Inr existing \<Rightarrow> cancelWhere e (\<lambda>_. False) cancelReasonJobDeleted existing }"

definition cancelReplacedExecutions :: "engine \<Rightarrow> job \<Rightarrow> engine option" where
  "cancelReplacedExecutions e jb =
     (if j_Version jb \<le> 1 then Some e
      else
        do { (r, e) \<leftarrow> repo e (query_opt (\<lambda>s. ExecutionsForJob s (j_ID jb)));
             case r of
               Inl _ \<Rightarrow> Some e
             | Inr existing \<Rightarrow>
                 cancelWhere e (\<lambda>x. j_Enabled jb \<and> scheduleContains (j_Schedule jb) (x_ScheduledAt x))
                   cancelReasonJobReplaced existing })"

section \<open>Materializing occurrences\<close>

definition resolveBackfill :: "engine \<Rightarrow> backfillMode \<Rightarrow> backfillMode" where
  "resolveBackfill e mode =
     (if mode \<noteq> BackfillModeInherit then mode
      else if cf_DefaultBackfill (e_cfg e) \<noteq> BackfillModeInherit then cf_DefaultBackfill (e_cfg e)
      else BackfillModeEnabled)"

fun createMissed :: "engine \<Rightarrow> job \<Rightarrow> time list \<Rightarrow> engine option" where
  "createMissed e jb [] = Some e"
| "createMissed e jb (t # ts) =
     do { (r, e) \<leftarrow> repo e (\<lambda>s. CreateExecution s (j_ID jb) t StateScheduled True);
          let e = (case r of Inl _ \<Rightarrow> e
                   | Inr (_, created) \<Rightarrow> if created then bump mt_BackfillCreated_update e else e);
          createMissed e jb ts }"

definition backfillCaps :: "engine \<Rightarrow> job \<Rightarrow> u64 \<times> duration" where
  "backfillCaps e jb =
     (let cappedCount = cf_BackfillMaxCount (e_cfg e);
          maxCount = ucast (b_MaxCount (j_Backfill jb));
          maxCount = (if maxCount = 0 \<or> (0 < cappedCount \<and> cappedCount < maxCount) then cappedCount else maxCount);
          cappedAge = cf_BackfillMaxAge (e_cfg e);
          maxAge = millisDuration (b_MaxAgeMillis (j_Backfill jb));
          maxAge = (if maxAge \<le> 0 \<or> (0 < cappedAge \<and> cappedAge < maxAge) then cappedAge else maxAge)
      in (maxCount, maxAge))"

definition materializeJob :: "engine \<Rightarrow> job \<Rightarrow> time \<Rightarrow> engine option" where
  "materializeJob e jb now =
     (let mode = resolveBackfill e (b_Mode (j_Backfill jb));
          (maxCount, maxAge) = backfillCaps e jb in
      do { (missed, skipped) \<leftarrow> missedOccurrences (j_Schedule jb) now maxCount maxAge;
           let (missed, skipped) = (if mode = BackfillModeDisabled
                                    then ([], skipped + of_nat (length missed)) else (missed, skipped));
           e \<leftarrow> (if 0 < skipped then
                   do { (_, e) \<leftarrow> repo e (update (\<lambda>s. AddSkippedOccurrences s (j_ID jb) skipped));
                        Some (e\<lparr>e_metrics := mt_BackfillSkipped_update (\<lambda>n. n + skipped) (e_metrics e)\<rparr>) }
                 else Some e);
           e \<leftarrow> createMissed e jb missed;
           case nextOccurrence (j_Schedule jb) now of
             None \<Rightarrow> Some e
           | Some next_time \<Rightarrow>
               map_option snd (repo e (\<lambda>s. CreateExecution s (j_ID jb) next_time StateScheduled False)) })"

section \<open>Upserts and deletions\<close>

definition jobOf :: "instanceID \<Rightarrow> jobUpsertMsg \<Rightarrow> job" where
  "jobOf inst m = \<lparr>
     j_ID = ju_JobUUID m, j_Key = ju_JobKey m, j_ExecutorType = ju_ExecutorType m,
     j_Function = ju_Function m, j_Args = ju_Args m, j_Schedule = ju_Schedule m,
     j_Enabled = ju_Enabled m, j_Backfill = ju_Backfill m, j_Retry = ju_Retry m,
     j_Overlap = ju_Overlap m, j_Pin = ju_Pin m, j_ResultMode = ju_ResultMode m,
     j_SubmitterInstanceID = inst, j_SkippedOccurrences = 0, j_Version = 0,
     j_CreatedAt = zeroTime, j_UpdatedAt = zeroTime\<rparr>"

definition internalError :: "engine \<Rightarrow> repoErr \<Rightarrow> wireError" where
  "internalError e err = \<lparr>e_Code = ErrorCodeInternal, e_Retryable = True, e_Message = e_errText e err\<rparr>"

definition HandleJobUpsert ::
    "engine \<Rightarrow> instanceID \<Rightarrow> jobUpsertMsg \<Rightarrow> (jobUpsertAckMsg \<times> engine) option" where
  "HandleJobUpsert e inst m =
     (let ack = \<lambda>uuid accepted err. \<lparr>jk_JobKey = ju_JobKey m, jk_JobUUID = uuid, jk_Accepted = accepted, jk_Error = err\<rparr> in
      case validateUpsert m of
        Some reason \<Rightarrow>
          Some (ack (ju_JobUUID m) False (Some \<lparr>e_Code = ErrorCodeMalformedFrame, e_Retryable = False,
                                               e_Message = reason\<rparr>), e)
      | None \<Rightarrow>
          do { (r, e) \<leftarrow> repo e (\<lambda>s. UpsertJob s (Some (jobOf inst m)));
               case r of
                 Inl err \<Rightarrow> Some (ack (ju_JobUUID m) False (Some (internalError e err)), e)
               | Inr stored \<Rightarrow>
                   do { e \<leftarrow> cancelReplacedExecutions e stored;
                        e \<leftarrow> (if j_Enabled stored then (let (now, e) = now_e e in materializeJob e stored now)
                              else Some e);
                        Some (ack (j_ID stored) True None, Notify e) } })"

definition HandleJobDelete ::
    "engine \<Rightarrow> instanceID \<Rightarrow> jobDeleteMsg \<Rightarrow> (jobDeleteAckMsg \<times> engine) option" where
  "HandleJobDelete e inst m =
     (let ack = \<lambda>deleted err. \<lparr>dk_JobKey = jd_JobKey m, dk_Deleted = deleted, dk_Error = err\<rparr> in
      case validateDelete m of
        Some reason \<Rightarrow>
          Some (ack False (Some \<lparr>e_Code = ErrorCodeMalformedFrame, e_Retryable = False, e_Message = reason\<rparr>), e)
      | None \<Rightarrow>
          do { (r, e) \<leftarrow> repo e (\<lambda>s. map_option (\<lambda>r. (r, s)) (GetJobByKey s (jd_ExecutorType m) (jd_JobKey m)));
               case r of
                 Inl err \<Rightarrow>
                   Some (ack False (if err = StoreErr ErrJobNotFound then None else Some (internalError e err)), e)
               | Inr jb \<Rightarrow>
                   do { e \<leftarrow> cancelDeletedExecutions e (j_ID jb);
                        (_, e) \<leftarrow> repo e (remove (\<lambda>s. DeleteResult s (j_ID jb)));
                        (r, e) \<leftarrow> repo e (remove (\<lambda>s. DeleteJob s (j_ID jb)));
                        case r of
                          Inl err \<Rightarrow> Some (ack False (Some (internalError e err)), e)
                        | Inr deleted \<Rightarrow> Some (ack deleted None, Notify e) } })"

section \<open>Recovery, turns and passes\<close>

fun materializeJobs :: "engine \<Rightarrow> time \<Rightarrow> job list \<Rightarrow> engine option" where
  "materializeJobs e now [] = Some e"
| "materializeJobs e now (jb # js) = do { e \<leftarrow> materializeJob e jb now; materializeJobs e now js }"

fun abandonAll :: "engine \<Rightarrow> string \<Rightarrow> execution list \<Rightarrow> engine option" where
  "abandonAll e reason [] = Some e"
| "abandonAll e reason (x # xs) = do { e \<leftarrow> abandonAttempt e x reason; abandonAll e reason xs }"

definition recoverOnStartup :: "engine \<Rightarrow> engine option" where
  "recoverOnStartup e =
     (let (now, e) = now_e e in
      do { (r, e) \<leftarrow> repo e (query ListEnabledJobs);
           e \<leftarrow> (case r of Inl _ \<Rightarrow> Some e | Inr js \<Rightarrow> materializeJobs e now js);
           (r, e) \<leftarrow> repo e (query_opt (\<lambda>s. ExecutionsInStates s [StateDispatching, StateRunning]));
           case r of
             Inl _ \<Rightarrow> Some e
           | Inr interrupted \<Rightarrow> map_option Notify (abandonAll e lostReasonRestart interrupted) })"

definition engine_Start :: "engine \<Rightarrow> engine option" where
  "engine_Start e =
     (if e_running e then Some e
      else recoverOnStartup (e\<lparr>e_running := True, e_stopping := False, e_reg := SetNotify (e_reg e) True\<rparr>))"

definition engine_Pause :: "engine \<Rightarrow> engine" where
  "engine_Pause e = e\<lparr>e_stopping := True\<rparr>"

definition engine_Stop :: "engine \<Rightarrow> engine" where
  "engine_Stop e = e\<lparr>e_stopping := True, e_running := False\<rparr>"

text \<open>One turn of the timing loop: \<open>None\<close> for a loop that ends, and then the wait before the next turn.\<close>

definition timingTurn :: "engine \<Rightarrow> (duration option option \<times> engine) option" where
  "timingTurn e =
     (if \<not> e_running e then Some (None, e)
      else
        do { e \<leftarrow> (if \<not> e_stopping e then processDue e else Some e);
             (r, e) \<leftarrow> repo e (query NextWakeAt);
             case r of
               Inl _ \<Rightarrow> Some (Some None, e)
             | Inr (wake, hasNext) \<Rightarrow>
                 if \<not> hasNext then Some (Some None, e)
                 else
                   let (now, e) = now_e e;
                       delay = timeSub wake now
                   in Some (Some (Some (if delay < 0 then 0 else delay)), e) })"

definition reapExpiredLeases :: "engine \<Rightarrow> time \<Rightarrow> engine option" where
  "reapExpiredLeases e now =
     do { (r, e) \<leftarrow> repo e (query_opt (\<lambda>s. ExpiredLeases s now));
          case r of
            Inl _ \<Rightarrow> Some e
          | Inr expired \<Rightarrow>
              map_option (\<lambda>e. if expired \<noteq> [] then Notify e else e) (abandonAll e lostReasonLease expired) }"

fun topUp :: "engine \<Rightarrow> time \<Rightarrow> job list \<Rightarrow> (bool \<times> engine) option" where
  "topUp e now [] = Some (False, e)"
| "topUp e now (jb # js) =
     do { (r, e) \<leftarrow> repo e (query (\<lambda>s. HasPendingOccurrence s (j_ID jb)));
          if r \<noteq> Inr False then topUp e now js
          else
            (case nextOccurrence (j_Schedule jb) now of
               None \<Rightarrow> topUp e now js
             | Some occurrence \<Rightarrow>
                 do { (r, e) \<leftarrow> repo e (\<lambda>s. CreateExecution s (j_ID jb) occurrence StateScheduled False);
                      let created = (case r of Inl _ \<Rightarrow> False | Inr (_, c) \<Rightarrow> c);
                      (others, e) \<leftarrow> topUp e now js;
                      Some (created \<or> others, e) }) }"

definition ensurePendingOccurrences :: "engine \<Rightarrow> time \<Rightarrow> engine option" where
  "ensurePendingOccurrences e now =
     do { (r, e) \<leftarrow> repo e (query ListEnabledJobs);
          case r of
            Inl _ \<Rightarrow> Some e
          | Inr js \<Rightarrow>
              do { (created, e) \<leftarrow> topUp e now js;
                   Some (if created then Notify e else e) } }"

definition reconcile :: "engine \<Rightarrow> engine option" where
  "reconcile e =
     (if e_stopping e then Some e
      else
        let (now, e) = now_e e in
        do { e \<leftarrow> reapExpiredLeases e now;
             e \<leftarrow> requeueWaitingWithPools e;
             e \<leftarrow> ensurePendingOccurrences e now;
             e \<leftarrow> sweepResults e now;
             sweepExecutions e now })"

end
