(* ===== verification/Memstore_Inv.thy ===== *)
theory Memstore_Inv
  imports Memstore
begin

text \<open>
  The invariant of the in-memory store: the four primary maps are well formed and every
  secondary index is exactly the projection of its primary map that it caches. Each operation
  preserves it, and under it no read dereferences a nil pointer.
\<close>

section \<open>The invariant\<close>

definition jobs_inv :: "memstore \<Rightarrow> bool" where
  "jobs_inv s \<longleftrightarrow> distinct (map fst (ms_jobs s)) \<and> (\<forall>(i, jb) \<in> set (ms_jobs s). j_ID jb = i)
     \<and> inj_field scopedKey (ms_jobs s)
     \<and> ms_jobKeys s = index_by scopedKey (ms_jobs s)"

definition executions_inv :: "memstore \<Rightarrow> bool" where
  "executions_inv s \<longleftrightarrow> distinct (map fst (ms_executions s))
     \<and> (\<forall>(i, x) \<in> set (ms_executions s). x_ID x = i \<and> 0 < i \<and> i \<le> ms_nextExecutionID s)
     \<and> inj_field occurrenceOf (ms_executions s)
     \<and> ms_occurrences s = index_by occurrenceOf (ms_executions s)
     \<and> ms_executionsOrdered s = map fst (ms_executions s)"

text \<open>The host an open attempt is listed under; a settled attempt is listed under none.\<close>

definition openHost :: "attempt \<Rightarrow> instanceID option" where
  "openHost a = (if AttemptTerminal (a_State a) then None else Some (a_InstanceID a))"

definition attempts_inv :: "memstore \<Rightarrow> bool" where
  "attempts_inv s \<longleftrightarrow> distinct (map fst (ms_attempts s))
     \<and> (\<forall>(i, a) \<in> set (ms_attempts s). a_ID a = i \<and> 0 < i \<and> i \<le> ms_nextAttemptID s)
     \<and> sliced (\<lambda>a. Some (a_ExecutionID a)) (ms_attemptsByExec s) (ms_attempts s)
     \<and> sliced openHost (ms_attemptsByHost s) (ms_attempts s)"

definition results_inv :: "memstore \<Rightarrow> bool" where
  "results_inv s \<longleftrightarrow> distinct (map fst (ms_results s))
     \<and> (\<forall>(i, r) \<in> set (ms_results s). r_JobUUID r = i)
     \<and> distinct (map fst (ms_resultsByInstance s))
     \<and> (\<forall>x. map_of (ms_resultsByInstance s) x \<noteq> Some [])
     \<and> (\<forall>x. distinct (lookupSlice (ms_resultsByInstance s) x)
          \<and> set (lookupSlice (ms_resultsByInstance s) x)
              = {i. \<exists>r. map_of (ms_results s) i = Some r \<and> r_InstanceID r = x})
     \<and> length (ms_results s) \<le> unat (ms_maxResults s)
     \<and> (\<forall>x. length (lookupSlice (ms_resultsByInstance s) x) \<le> unat (ms_maxResultsPerInstance s))"

definition store_inv :: "memstore \<Rightarrow> bool" where
  "store_inv s \<longleftrightarrow> jobs_inv s \<and> executions_inv s \<and> attempts_inv s \<and> results_inv s"

lemma NewStore_inv: "store_inv (NewStore m p clk)"
  by (simp add: store_inv_def jobs_inv_def executions_inv_def attempts_inv_def results_inv_def
      NewStore_def sliced_def)

text \<open>The clock is no part of the invariant.\<close>

lemma readClock_inv [simp]:
  "jobs_inv (s\<lparr>ms_tick := n\<rparr>) = jobs_inv s"
  "executions_inv (s\<lparr>ms_tick := n\<rparr>) = executions_inv s"
  "attempts_inv (s\<lparr>ms_tick := n\<rparr>) = attempts_inv s"
  "results_inv (s\<lparr>ms_tick := n\<rparr>) = results_inv s"
  by (simp_all add: jobs_inv_def executions_inv_def attempts_inv_def results_inv_def)

section \<open>Jobs\<close>

text \<open>
  The discipline on identifiers the store relies on: a job that creates a new key carries an
  identifier that no stored job has.
\<close>

definition fresh_uuid :: "memstore \<Rightarrow> job \<Rightarrow> bool" where
  "fresh_uuid s jb \<longleftrightarrow>
     map_of (ms_jobKeys s) (scopedKey jb) \<noteq> None \<or> map_of (ms_jobs s) (j_ID jb) = None"

lemma jobs_inv_ID: "jobs_inv s \<Longrightarrow> map_of (ms_jobs s) i = Some jb \<Longrightarrow> j_ID jb = i"
  by (auto simp: jobs_inv_def dest: map_of_SomeD)

lemma jobs_inv_key:
  assumes "jobs_inv s"
  shows "map_of (ms_jobKeys s) k = Some i \<longleftrightarrow> (\<exists>jb. map_of (ms_jobs s) i = Some jb \<and> scopedKey jb = k)"
  using assms by (simp add: jobs_inv_def map_of_index_by)

lemma jobs_inv_update:
  assumes "jobs_inv s" and "map_of (ms_jobs s) i = Some jb" and "j_ID jb' = i"
    and "scopedKey jb' = scopedKey jb"
  shows "jobs_inv (s\<lparr>ms_jobs := AList.update i jb' (ms_jobs s)\<rparr>)"
  using assms
  by (auto simp: jobs_inv_def index_by_update_same inj_field_update_same set_update_distinct
      distinct_update)

lemma jobs_inv_insert:
  assumes "jobs_inv s" and "map_of (ms_jobs s) (j_ID jb) = None"
    and "map_of (ms_jobKeys s) (scopedKey jb) = None"
  shows "jobs_inv (s\<lparr>ms_jobs := AList.update (j_ID jb) jb (ms_jobs s),
                     ms_jobKeys := AList.update (scopedKey jb) (j_ID jb) (ms_jobKeys s)\<rparr>)"
  using assms
  by (auto simp: jobs_inv_def map_of_None_fst index_by_fresh inj_field_fresh set_update_distinct
      distinct_update)

lemma jobs_inv_delete:
  assumes "jobs_inv s" and "map_of (ms_jobs s) i = Some jb"
  shows "jobs_inv (s\<lparr>ms_jobs := AList.delete i (ms_jobs s),
                     ms_jobKeys := AList.delete (scopedKey jb) (ms_jobKeys s)\<rparr>)"
  using assms
  by (auto simp: jobs_inv_def index_by_delete inj_field_delete distinct_delete)
     (auto simp: delete_filter)

lemma UpsertJob_no_panic:
  assumes "jobs_inv s"
  shows "UpsertJob s jp \<noteq> None"
  using assms
  by (auto simp: UpsertJob_def readClock_def Let_def jobs_inv_key
      split: option.splits prod.splits)

lemma UpsertJob_jobs_inv:
  assumes "jobs_inv s" and "UpsertJob s (Some jb) = Some (r, s')" and "fresh_uuid s jb"
  shows "jobs_inv s'"
proof (cases "map_of (ms_jobKeys s) (scopedKey jb)")
  case None
  with assms(3) have "map_of (ms_jobs s) (j_ID jb) = None"
    by (simp add: fresh_uuid_def)
  with None assms(1,2) show ?thesis
    using jobs_inv_insert
      [of "s\<lparr>ms_tick := Suc (ms_tick s)\<rparr>" "jb\<lparr>j_Version := 1, j_CreatedAt := ms_now s, j_UpdatedAt := ms_now s\<rparr>"]
    by (auto simp: UpsertJob_def readClock_def Let_def scopedKey_def split: if_splits)
next
  case (Some i)
  with assms(1) obtain ex where ex: "map_of (ms_jobs s) i = Some ex" "scopedKey ex = scopedKey jb"
    by (auto simp: jobs_inv_key)
  with assms(1) have "j_ID ex = i" by (simp add: jobs_inv_ID)
  with Some ex assms(1,2) show ?thesis
    using jobs_inv_update [of "s\<lparr>ms_tick := Suc (ms_tick s)\<rparr>" i ex
      "jb\<lparr>j_ID := i, j_CreatedAt := j_CreatedAt ex, j_SkippedOccurrences := j_SkippedOccurrences ex,
          j_Version := j_Version ex + 1, j_UpdatedAt := ms_now s\<rparr>"]
    by (auto simp: UpsertJob_def readClock_def Let_def scopedKey_def)
qed

lemma SetJobEnabled_jobs_inv:
  assumes "jobs_inv s"
  shows "jobs_inv (snd (SetJobEnabled s i b))"
  using assms jobs_inv_update [of "s\<lparr>ms_tick := Suc (ms_tick s)\<rparr>" i]
  by (auto simp: SetJobEnabled_def readClock_def Let_def scopedKey_def jobs_inv_ID
      split: option.splits)

lemma AddSkippedOccurrences_jobs_inv:
  assumes "jobs_inv s"
  shows "jobs_inv (snd (AddSkippedOccurrences s i n))"
  using assms jobs_inv_update [of "s\<lparr>ms_tick := Suc (ms_tick s)\<rparr>" i]
  by (auto simp: AddSkippedOccurrences_def readClock_def Let_def scopedKey_def jobs_inv_ID
      split: option.splits)

lemma DeleteJob_jobs_inv: "jobs_inv s \<Longrightarrow> jobs_inv (snd (DeleteJob s i))"
  by (auto simp: DeleteJob_def jobs_inv_delete split: option.splits)

lemma GetJobByKey_no_panic: "jobs_inv s \<Longrightarrow> GetJobByKey s et k \<noteq> None"
  by (auto simp: GetJobByKey_def jobs_inv_key split: option.splits)

section \<open>Executions\<close>

lemma executions_inv_ID:
  "executions_inv s \<Longrightarrow> map_of (ms_executions s) i = Some x \<Longrightarrow> x_ID x = i"
  by (auto simp: executions_inv_def dest: map_of_SomeD)

lemma executions_inv_occurrence:
  assumes "executions_inv s"
  shows "map_of (ms_occurrences s) k = Some i
    \<longleftrightarrow> (\<exists>x. map_of (ms_executions s) i = Some x \<and> occurrenceOf x = k)"
  using assms by (simp add: executions_inv_def map_of_index_by)

lemma those_map_of:
  assumes "distinct (map fst al)" and "\<And>i. i \<in> set is \<Longrightarrow> i \<in> fst ` set al"
  shows "those (map (map_of al) is) = Some (map (\<lambda>i. the (map_of al i)) is)"
  using assms(2)
proof (induction "is")
  case Nil
  then show ?case by simp
next
  case (Cons i "is")
  then have "map_of al i \<noteq> None"
    by (simp add: map_of_eq_None_iff)
  with Cons show ?case by auto
qed

lemma map_the_map_of_fst: "distinct (map fst al) \<Longrightarrow> map (\<lambda>i. the (map_of al i)) (map fst al) = map snd al"
  by (auto simp: map_of_Some_iff)

lemma orderedExecutions_inv:
  assumes "executions_inv s"
  shows "orderedExecutions s = Some (map snd (ms_executions s))"
proof -
  have d: "distinct (map fst (ms_executions s))"
    and o: "ms_executionsOrdered s = map fst (ms_executions s)"
    using assms by (simp_all add: executions_inv_def)
  show ?thesis
    unfolding orderedExecutions_def o
    by (subst those_map_of [OF d]) (simp_all add: map_the_map_of_fst [OF d, simplified])
qed

lemma executions_inv_update:
  assumes "executions_inv s" and "map_of (ms_executions s) i = Some x" and "x_ID x' = x_ID x"
    and "occurrenceOf x' = occurrenceOf x"
  shows "executions_inv (s\<lparr>ms_executions := AList.update i x' (ms_executions s)\<rparr>)"
proof -
  have "x_ID x' = i" using assms by (simp add: executions_inv_ID)
  moreover have "map fst (AList.update i x' (ms_executions s)) = map fst (ms_executions s)"
    using assms(2) by (rule map_update_same) simp
  moreover have "(i, x) \<in> set (ms_executions s)"
    using assms(2) by (rule map_of_SomeD)
  ultimately show ?thesis
    using assms
    by (auto simp: executions_inv_def index_by_update_same inj_field_update_same
        set_update_distinct)
qed

lemma executions_inv_insert:
  assumes "executions_inv s" and "ms_nextExecutionID s + 1 \<noteq> 0"
    and "map_of (ms_occurrences s) (occurrenceOf x) = None" and "x_ID x = ms_nextExecutionID s + 1"
  shows "executions_inv (s\<lparr>ms_nextExecutionID := x_ID x,
           ms_executions := AList.update (x_ID x) x (ms_executions s),
           ms_occurrences := AList.update (occurrenceOf x) (x_ID x) (ms_occurrences s),
           ms_executionsOrdered := ms_executionsOrdered s @ [x_ID x]\<rparr>)"
proof -
  let ?n = "ms_nextExecutionID s"
  have lt: "?n < ?n + 1"
    using assms(2) by (rule word_less_Suc)
  have old: "0 < i \<and> i \<le> ?n \<and> x_ID y = i" if "(i, y) \<in> set (ms_executions s)" for i y
    using assms(1) that by (auto simp: executions_inv_def)
  have fresh: "x_ID x \<notin> fst ` set (ms_executions s)"
    using old lt assms(4) by force
  have "0 < x_ID x" using assms(2,4) by (simp add: word_gt_0)
  moreover have "i \<le> x_ID x" if "(i, y) \<in> set (ms_executions s)" for i y
    using old [OF that] lt assms(4) by (metis order_trans less_imp_le)
  ultimately show ?thesis
    using assms fresh
    by (auto simp: executions_inv_def map_of_None_fst index_by_fresh inj_field_fresh
        set_update_distinct distinct_update) (simp add: update_fresh)+
qed

lemma executions_inv_delete:
  assumes "executions_inv s" and "map_of (ms_executions s) i = Some x"
  shows "executions_inv (s\<lparr>ms_executions := AList.delete i (ms_executions s),
           ms_occurrences := AList.delete (occurrenceOf x) (ms_occurrences s),
           ms_executionsOrdered := remove1 i (ms_executionsOrdered s)\<rparr>)"
proof -
  have "distinct (map fst (ms_executions s))"
    using assms(1) by (simp add: executions_inv_def)
  then have "remove1 i (map fst (ms_executions s)) = map fst (AList.delete i (ms_executions s))"
    by (simp add: AList.delete_keys distinct_remove1_removeAll)
  then show ?thesis
    using assms
    by (auto simp: executions_inv_def index_by_delete inj_field_delete distinct_delete)
       (auto simp: delete_filter)
qed

lemma occurrenceOf_applyUpdate [simp]: "occurrenceOf (applyUpdate u t x) = occurrenceOf x"
  by (simp add: occurrenceOf_def applyUpdate_def)

lemma x_ID_applyUpdate [simp]: "x_ID (applyUpdate u t x) = x_ID x"
  by (simp add: applyUpdate_def)

lemma UpdateExecution_executions_inv:
  assumes "executions_inv s"
  shows "executions_inv (snd (UpdateExecution s i v u))"
  using assms executions_inv_update [of "s\<lparr>ms_tick := Suc (ms_tick s)\<rparr>" i]
  by (auto simp: UpdateExecution_def readClock_def Let_def split: option.splits)

lemma CreateExecution_no_panic:
  assumes "executions_inv s"
  shows "CreateExecution s j t st b \<noteq> None"
  using assms
  by (auto simp: CreateExecution_def Let_def executions_inv_occurrence readClock_def
      split: option.splits)

lemma CreateExecution_executions_inv:
  assumes "executions_inv s" and "CreateExecution s j t st b = Some (r, s')"
    and "ms_nextExecutionID s + 1 \<noteq> 0"
  shows "executions_inv s'"
proof (cases "map_of (ms_jobs s) j = None \<or> map_of (ms_occurrences s) (j, unixNano t) \<noteq> None")
  case True
  with assms(1,2) show ?thesis
    by (auto simp: CreateExecution_def Let_def split: if_splits)
next
  case False
  with assms show ?thesis
    using executions_inv_insert [of "s\<lparr>ms_tick := Suc (ms_tick s)\<rparr>"
        "\<lparr>x_ID = ms_nextExecutionID s + 1, x_JobID = j, x_ScheduledAt = t, x_State = st,
          x_FunctionAttempts = 0, x_CurrentAttemptID = 0, x_NextAttemptAt = t,
          x_LeaseExpiresAt = zeroTime, x_Backfilled = b, x_LastError = [], x_WaitReason = [],
          x_Version = 1, x_CreatedAt = ms_now s, x_UpdatedAt = ms_now s\<rparr>"]
    by (auto simp: CreateExecution_def Let_def readClock_def occurrenceOf_def)
qed

lemma DeleteExecution_executions_inv: "executions_inv s \<Longrightarrow> executions_inv (snd (DeleteExecution s i))"
  using executions_inv_delete [of s i]
  by (auto simp: DeleteExecution_def detachExecutionOrder_def split: option.splits)

section \<open>Attempts\<close>

lemma sliced_lookup:
  "sliced f m al \<Longrightarrow> lookupSlice m x = map fst (filter (\<lambda>p. f (snd p) = Some x) al)"
  by (simp add: sliced_def)

lemma sliced_update_same:
  assumes "sliced f m al" and "map_of al k = Some v" and "f v' = f v"
  shows "sliced f m (AList.update k v' al)"
  using assms by (simp add: sliced_def filter_update_same)

lemma sliced_insert:
  assumes "sliced f m al" and "k \<notin> fst ` set al" and "f v = Some x"
  shows "sliced f (AList.update x (lookupSlice m x @ [k]) m) (AList.update k v al)"
  using assms
  by (auto simp: sliced_def distinct_update AList.update_conv' update_fresh)

lemma sliced_detach:
  assumes "sliced f m al" and "distinct (map fst al)"
    and "\<And>x. map fst (filter (\<lambda>p. f (snd p) = Some x) al')
           = removeAll k (map fst (filter (\<lambda>p. f (snd p) = Some x) al))"
    and "\<And>x. k \<in> fst ` set (filter (\<lambda>p. f (snd p) = Some x) al) \<Longrightarrow> x = y"
  shows "sliced f (detachFrom y k m) al'"
proof -
  have "remove1 k (lookupSlice m x) = removeAll k (lookupSlice m x)" for x
    using assms(1,2) by (simp add: sliced_def distinct_remove1_removeAll distinct_map_filter)
  moreover have "removeAll k (lookupSlice m x) = lookupSlice m x" if "x \<noteq> y" for x
    using assms(1,4) that by (auto simp: sliced_def image_iff intro!: removeAll_id)
  ultimately show ?thesis
    using assms(1,3) detachFrom_no_empty [of m y k]
    by (simp add: sliced_def distinct_detachFrom lookupSlice_detachFrom)
qed

lemma map_fst_filter_delete:
  "map fst (filter P (AList.delete k al)) = removeAll k (map fst (filter P al))"
  by (induction al) auto

lemma sliced_delete:
  assumes "sliced f m al" and "distinct (map fst al)" and "map_of al k = Some v"
    and "f v = None \<or> f v = Some y"
  shows "sliced f (detachFrom y k m) (AList.delete k al)"
proof (rule sliced_detach [OF assms(1,2)])
  fix x
  assume "k \<in> fst ` set (filter (\<lambda>p. f (snd p) = Some x) al)"
  then have "f v = Some x"
    using assms(2,3) by (force simp: map_of_Some_iff dest: eq_key_imp_eq_value)
  with assms(4) show "x = y" by auto
qed (rule map_fst_filter_delete)

lemma map_fst_filter_update_out:
  assumes "distinct (map fst al)" and "map_of al k = Some v" and "\<not> P (k, v')"
  shows "map fst (filter P (AList.update k v' al)) = removeAll k (map fst (filter P al))"
  using assms by (induction al) (force simp: image_iff)+

lemma sliced_hide:
  assumes "sliced f m al" and "distinct (map fst al)" and "map_of al k = Some v"
    and "f v = None \<or> f v = Some y" and "f v' = None"
  shows "sliced f (detachFrom y k m) (AList.update k v' al)"
proof (rule sliced_detach [OF assms(1,2)])
  fix x
  assume "k \<in> fst ` set (filter (\<lambda>p. f (snd p) = Some x) al)"
  then have "f v = Some x"
    using assms(2,3) by (force simp: map_of_Some_iff dest: eq_key_imp_eq_value)
  with assms(4) show "x = y" by auto
qed (use assms in \<open>auto intro!: map_fst_filter_update_out\<close>)

lemma attempts_inv_ID: "attempts_inv s \<Longrightarrow> map_of (ms_attempts s) i = Some a \<Longrightarrow> a_ID a = i"
  by (auto simp: attempts_inv_def dest: map_of_SomeD)

lemma attempts_inv_insert:
  assumes "attempts_inv s" and "ms_nextAttemptID s + 1 \<noteq> 0"
    and "a_ID a = ms_nextAttemptID s + 1" and "\<not> AttemptTerminal (a_State a)"
  shows "attempts_inv (s\<lparr>ms_nextAttemptID := a_ID a,
           ms_attempts := AList.update (a_ID a) a (ms_attempts s),
           ms_attemptsByExec := AList.update (a_ExecutionID a)
             (lookupSlice (ms_attemptsByExec s) (a_ExecutionID a) @ [a_ID a]) (ms_attemptsByExec s),
           ms_attemptsByHost := AList.update (a_InstanceID a)
             (lookupSlice (ms_attemptsByHost s) (a_InstanceID a) @ [a_ID a]) (ms_attemptsByHost s)\<rparr>)"
proof -
  let ?n = "ms_nextAttemptID s"
  have lt: "?n < ?n + 1"
    using assms(2) by (rule word_less_Suc)
  have old: "0 < i \<and> i \<le> ?n \<and> a_ID b = i" if "(i, b) \<in> set (ms_attempts s)" for i b
    using assms(1) that by (auto simp: attempts_inv_def)
  have fresh: "a_ID a \<notin> fst ` set (ms_attempts s)"
    using old lt assms(3) by force
  have "0 < a_ID a" using assms(2,3) by (simp add: word_gt_0)
  moreover have "i \<le> a_ID a" if "(i, b) \<in> set (ms_attempts s)" for i b
    using old [OF that] lt assms(3) by (metis order_trans less_imp_le)
  ultimately show ?thesis
    using assms fresh
    by (auto simp: attempts_inv_def sliced_insert openHost_def set_update_distinct distinct_update)
qed

lemma CreateAttempt_attempts_inv:
  assumes "attempts_inv s" and "ms_nextAttemptID s + 1 \<noteq> 0"
  shows "attempts_inv (snd (CreateAttempt s e n h))"
  using assms attempts_inv_insert [of "s\<lparr>ms_tick := Suc (ms_tick s)\<rparr>"
    "\<lparr>a_ID = ms_nextAttemptID s + 1, a_ExecutionID = e, a_Number = n, a_InstanceID = h,
      a_State = AttemptDispatched, a_Error = [], a_CreatedAt = ms_now s, a_UpdatedAt = ms_now s\<rparr>"]
  by (auto simp: CreateAttempt_def readClock_def Let_def)

text \<open>
  The guard every caller passes to \<open>UpdateAttemptState\<close>: only open attempts move. An empty
  guard would let a settled attempt reopen without its host listing it again.
\<close>

definition guarded :: "attemptState list \<Rightarrow> bool" where
  "guarded from \<longleftrightarrow> from \<noteq> [] \<and> (\<forall>st \<in> set from. \<not> AttemptTerminal st)"

lemma attempts_inv_update_open:
  assumes "attempts_inv s" and "map_of (ms_attempts s) i = Some a" and "a_ID a' = a_ID a"
    and "a_ExecutionID a' = a_ExecutionID a" and "openHost a' = openHost a"
  shows "attempts_inv (s\<lparr>ms_attempts := AList.update i a' (ms_attempts s)\<rparr>)"
proof -
  have ia: "(i, a) \<in> set (ms_attempts s)"
    using assms(2) by (rule map_of_SomeD)
  show ?thesis
    using assms ia
      sliced_update_same [of "\<lambda>a. Some (a_ExecutionID a)" "ms_attemptsByExec s" "ms_attempts s" i a a']
      sliced_update_same [of openHost "ms_attemptsByHost s" "ms_attempts s" i a a']
    by (auto simp: attempts_inv_def set_update_distinct distinct_update)
qed

lemma attempts_inv_close:
  assumes "attempts_inv s" and "map_of (ms_attempts s) i = Some a" and "a_ID a' = a_ID a"
    and "a_ExecutionID a' = a_ExecutionID a" and "AttemptTerminal (a_State a')"
  shows "attempts_inv (s\<lparr>ms_attempts := AList.update i a' (ms_attempts s),
           ms_attemptsByHost := detachFrom (a_InstanceID a) i (ms_attemptsByHost s)\<rparr>)"
proof -
  have ia: "(i, a) \<in> set (ms_attempts s)"
    using assms(2) by (rule map_of_SomeD)
  show ?thesis
    using assms ia
      sliced_update_same [of "\<lambda>a. Some (a_ExecutionID a)" "ms_attemptsByExec s" "ms_attempts s" i a a']
      sliced_hide [of openHost "ms_attemptsByHost s" "ms_attempts s" i a "a_InstanceID a" a']
    by (auto simp: attempts_inv_def openHost_def set_update_distinct distinct_update)
qed

lemma UpdateAttemptState_attempts_inv:
  assumes "attempts_inv s" and "guarded from"
  shows "attempts_inv (snd (UpdateAttemptState s i from to e))"
proof (cases "map_of (ms_attempts s) i")
  case None
  with assms show ?thesis by (simp add: UpdateAttemptState_def)
next
  case (Some a)
  show ?thesis
  proof (cases "a_State a \<in> set from")
    case True
    then have "\<not> AttemptTerminal (a_State a)"
      using assms(2) by (auto simp: guarded_def)
    with Some True assms show ?thesis
      using attempts_inv_update_open [of "s\<lparr>ms_tick := Suc (ms_tick s)\<rparr>" i a]
        attempts_inv_close [of "s\<lparr>ms_tick := Suc (ms_tick s)\<rparr>" i a]
      by (simp add: UpdateAttemptState_def readClock_def Let_def detachAttemptFromHost_def
          openHost_def)
  next
    case False
    with Some assms show ?thesis by (simp add: UpdateAttemptState_def guarded_def)
  qed
qed

lemma DeleteAttempt_attempts_inv:
  assumes "attempts_inv s"
  shows "attempts_inv (snd (DeleteAttempt s i))"
proof (cases "map_of (ms_attempts s) i")
  case None
  with assms show ?thesis by (simp add: DeleteAttempt_def)
next
  case (Some a)
  have d: "distinct (map fst (ms_attempts s))"
    using assms by (simp add: attempts_inv_def)
  have "sliced (\<lambda>a. Some (a_ExecutionID a)) (detachFrom (a_ExecutionID a) i (ms_attemptsByExec s))
      (AList.delete i (ms_attempts s))"
    and "sliced openHost (detachFrom (a_InstanceID a) i (ms_attemptsByHost s))
      (AList.delete i (ms_attempts s))"
    using assms d Some by (auto simp: attempts_inv_def openHost_def intro!: sliced_delete split: if_splits)
  with Some assms show ?thesis
    by (auto simp: DeleteAttempt_def detachAttemptFromExec_def detachAttemptFromHost_def
        attempts_inv_def distinct_delete) (auto simp: delete_filter)
qed

lemma attempts_inv_slice:
  assumes "attempts_inv s"
  shows "those (map (map_of (ms_attempts s)) (map fst (filter P (ms_attempts s))))
    = Some (map snd (filter P (ms_attempts s)))"
proof -
  have d: "distinct (map fst (ms_attempts s))"
    using assms by (simp add: attempts_inv_def)
  have "map (\<lambda>i. the (map_of (ms_attempts s) i)) (map fst (filter P (ms_attempts s)))
      = map snd (filter P (ms_attempts s))"
    using d by (auto simp: map_of_Some_iff)
  with d show ?thesis
    by (subst those_map_of) (auto)
qed

text \<open>The two attempt listings return, in creation order, exactly the attempts they name.\<close>

lemma AttemptsForExecution_inv:
  assumes "attempts_inv s"
  shows "AttemptsForExecution s e
    = Some (filter (\<lambda>a. a_ExecutionID a = e) (map snd (ms_attempts s)))"
proof -
  have "lookupSlice (ms_attemptsByExec s) e
      = map fst (filter (\<lambda>p. Some (a_ExecutionID (snd p)) = Some e) (ms_attempts s))"
    using assms by (simp add: attempts_inv_def sliced_def)
  then show ?thesis
    unfolding AttemptsForExecution_def
    using attempts_inv_slice [OF assms, of "\<lambda>p. Some (a_ExecutionID (snd p)) = Some e"]
    by (simp add: filter_map o_def)
qed

lemma AttemptsOnInstance_inv:
  assumes "attempts_inv s"
  shows "AttemptsOnInstance s h states
    = Some (filter (\<lambda>a. states = [] \<or> a_State a \<in> set states)
        (filter (\<lambda>a. openHost a = Some h) (map snd (ms_attempts s))))"
proof -
  have "lookupSlice (ms_attemptsByHost s) h
      = map fst (filter (\<lambda>p. openHost (snd p) = Some h) (ms_attempts s))"
    using assms by (simp add: attempts_inv_def sliced_def)
  then show ?thesis
    unfolding AttemptsOnInstance_def
    using attempts_inv_slice [OF assms, of "\<lambda>p. openHost (snd p) = Some h"]
    by (simp add: filter_map o_def)
qed

section \<open>Pending results\<close>

lemma results_inv_ID: "results_inv s \<Longrightarrow> map_of (ms_results s) i = Some r \<Longrightarrow> r_JobUUID r = i"
  by (auto simp: results_inv_def dest: map_of_SomeD)

lemma length_update: "length (AList.update k v al) = (if map_of al k = None then Suc (length al) else length al)"
  by (induction al) auto

lemma length_lookup_detach: "length (lookupSlice (detachFrom y i m) x) \<le> length (lookupSlice m x)"
  by (auto simp: lookupSlice_detachFrom length_remove1)

lemma length_remove1_bound: "length xs \<le> n \<Longrightarrow> length (remove1 x xs) \<le> n"
  by (auto simp: length_remove1)

lemma results_inv_update:
  assumes "results_inv s" and "map_of (ms_results s) i = Some r" and "r_JobUUID r' = i"
    and "r_InstanceID r' = r_InstanceID r"
  shows "results_inv (s\<lparr>ms_results := AList.update i r' (ms_results s)\<rparr>)"
  using assms
  by (auto simp: results_inv_def set_update_distinct distinct_update AList.update_conv' length_update
      simp del: map_of_eq_Some_iff)

lemma results_inv_delete:
  assumes "results_inv s" and "map_of (ms_results s) i = Some r"
  shows "results_inv (s\<lparr>ms_results := AList.delete i (ms_results s),
           ms_resultsByInstance := detachFrom (r_InstanceID r) i (ms_resultsByInstance s)\<rparr>)"
proof -
  have "length (AList.delete i (ms_results s)) \<le> unat (ms_maxResults s)"
    using assms(1) AList.length_delete_le [of i "ms_results s"]
    by (simp add: results_inv_def)
  moreover have "\<forall>(i, r) \<in> set (AList.delete i (ms_results s)). r_JobUUID r = i"
    using assms(1) by (auto simp: results_inv_def delete_filter)
  ultimately show ?thesis
    using assms detachFrom_no_empty [of "ms_resultsByInstance s" "r_InstanceID r" i]
    by (auto simp: results_inv_def distinct_delete AList.delete_conv' distinct_detachFrom
        lookupSlice_detachFrom length_remove1_bound simp del: map_of_eq_Some_iff split: if_splits)
qed

lemma results_inv_insert:
  assumes "results_inv s" and "map_of (ms_results s) (r_JobUUID r) = None"
    and "length (ms_results s) < unat (ms_maxResults s)"
    and "length (lookupSlice (ms_resultsByInstance s) (r_InstanceID r)) < unat (ms_maxResultsPerInstance s)"
  shows "results_inv (s\<lparr>ms_resultsByInstance := AList.update (r_InstanceID r)
             (lookupSlice (ms_resultsByInstance s) (r_InstanceID r) @ [r_JobUUID r])
             (ms_resultsByInstance s),
           ms_results := AList.update (r_JobUUID r) r (ms_results s)\<rparr>)"
  using assms
  by (auto simp: results_inv_def set_update_distinct distinct_update AList.update_conv' length_update)

text \<open>A result that changes its submitter leaves one slice and joins another.\<close>

lemma results_inv_move:
  assumes "results_inv s" and "map_of (ms_results s) (r_JobUUID r) = Some x"
    and "r_InstanceID x \<noteq> r_InstanceID r"
    and "length (lookupSlice (ms_resultsByInstance s) (r_InstanceID r)) < unat (ms_maxResultsPerInstance s)"
  shows "results_inv (s\<lparr>ms_resultsByInstance := AList.update (r_InstanceID r)
             (lookupSlice (ms_resultsByInstance s) (r_InstanceID r) @ [r_JobUUID r])
             (detachFrom (r_InstanceID x) (r_JobUUID r) (ms_resultsByInstance s)),
           ms_results := AList.update (r_JobUUID r) r (ms_results s)\<rparr>)"
proof -
  show ?thesis
    using assms detachFrom_no_empty [of "ms_resultsByInstance s" "r_InstanceID x" "r_JobUUID r"]
    by (auto simp: results_inv_def set_update_distinct distinct_update AList.update_conv' length_update
        distinct_detachFrom lookupSlice_detachFrom length_remove1_bound
        simp del: map_of_eq_Some_iff split: if_splits)
qed

lemma StoreResult_results_inv:
  assumes "results_inv s"
  shows "results_inv (snd (StoreResult s rp))"
proof (cases rp)
  case None
  with assms show ?thesis by (simp add: StoreResult_def)
next
  case (Some r)
  show ?thesis
  proof (cases "map_of (ms_results s) (r_JobUUID r)")
    case None
    with Some assms show ?thesis
      using results_inv_insert [of "s\<lparr>ms_tick := Suc (ms_tick s)\<rparr>"
        "r\<lparr>r_Attempts := 0, r_CreatedAt := ms_now s, r_LastSentAt := zeroTime\<rparr>"]
      by (simp add: StoreResult_def readClock_def Let_def)
  next
    case x: (Some x)
    with Some assms show ?thesis
      using results_inv_update [of s "r_JobUUID r" x
        "r\<lparr>r_Attempts := r_Attempts x, r_CreatedAt := r_CreatedAt x, r_LastSentAt := r_LastSentAt x\<rparr>"]
        results_inv_move [of s
        "r\<lparr>r_Attempts := r_Attempts x, r_CreatedAt := r_CreatedAt x, r_LastSentAt := r_LastSentAt x\<rparr>" x]
      by (simp add: StoreResult_def readClock_def Let_def detachResult_def lookupSlice_detachFrom)
  qed
qed

lemma DeleteResult_results_inv: "results_inv s \<Longrightarrow> results_inv (snd (DeleteResult s i))"
  using results_inv_delete [of s i]
  by (auto simp: DeleteResult_def detachResult_def split: option.splits)

lemma MarkResultSent_results_inv: "results_inv s \<Longrightarrow> results_inv (snd (MarkResultSent s i t))"
  using results_inv_update [of s i]
  by (auto simp: MarkResultSent_def results_inv_ID split: option.splits)

lemma collectResults_total:
  assumes "\<And>i. i \<in> set is \<Longrightarrow> map_of m i \<noteq> None"
  shows "collectResults m limit acc is \<noteq> None"
  using assms
proof (induction "is" arbitrary: acc)
  case Nil
  then show ?case by simp
next
  case (Cons i "is")
  from Cons.prems obtain r where "map_of m i = Some r" by fastforce
  with Cons show ?case by simp
qed

lemma ResultsForInstance_no_panic: "results_inv s \<Longrightarrow> ResultsForInstance s h limit \<noteq> None"
  unfolding ResultsForInstance_def
  by (rule collectResults_total) (auto simp: results_inv_def simp del: map_of_eq_Some_iff)

lemma collectResults_unlimited:
  assumes "\<And>i. i \<in> set is \<Longrightarrow> map_of m i \<noteq> None"
  shows "collectResults m 0 acc is = Some (acc @ map (\<lambda>i. the (map_of m i)) is)"
  using assms
proof (induction "is" arbitrary: acc)
  case Nil
  then show ?case by simp
next
  case (Cons i "is")
  from Cons.prems obtain r where "map_of m i = Some r" by fastforce
  with Cons show ?case by simp
qed

lemma ResultsForInstance_all:
  assumes "results_inv s"
  shows "\<exists>rs. ResultsForInstance s h 0 = Some rs
    \<and> (\<forall>r. r \<in> set rs \<longleftrightarrow> r_InstanceID r = h \<and> map_of (ms_results s) (r_JobUUID r) = Some r)
    \<and> length rs = length (lookupSlice (ms_resultsByInstance s) h)"
proof -
  let ?is = "lookupSlice (ms_resultsByInstance s) h"
  have i: "i \<in> set ?is \<longleftrightarrow> (\<exists>r. map_of (ms_results s) i = Some r \<and> r_InstanceID r = h)" for i
    using assms by (simp add: results_inv_def)
  then have "ResultsForInstance s h 0 = Some (map (\<lambda>i. the (map_of (ms_results s) i)) ?is)"
    unfolding ResultsForInstance_def by (subst collectResults_unlimited) auto
  moreover have "r \<in> set (map (\<lambda>i. the (map_of (ms_results s) i)) ?is)
      \<longleftrightarrow> r_InstanceID r = h \<and> map_of (ms_results s) (r_JobUUID r) = Some r" for r
  proof
    assume "r \<in> set (map (\<lambda>i. the (map_of (ms_results s) i)) ?is)"
    then obtain j where j: "j \<in> set ?is" and r: "r = the (map_of (ms_results s) j)" by auto
    from j obtain r' where "map_of (ms_results s) j = Some r'" "r_InstanceID r' = h"
      unfolding i by blast
    with r results_inv_ID [OF assms] show "r_InstanceID r = h \<and> map_of (ms_results s) (r_JobUUID r) = Some r"
      by simp
  next
    assume "r_InstanceID r = h \<and> map_of (ms_results s) (r_JobUUID r) = Some r"
    then have "r_JobUUID r \<in> set ?is" and "r = the (map_of (ms_results s) (r_JobUUID r))"
      unfolding i by auto
    then show "r \<in> set (map (\<lambda>i. the (map_of (ms_results s) i)) ?is)" by auto
  qed
  ultimately show ?thesis by simp
qed

end
