(* ===== verification/Store_Machine.thy ===== *)
theory Store_Machine
  imports Memstore_Inv
begin

text \<open>
  The store as a state machine. One step is one call of a writing method, in any order and
  with any arguments, so a run is any interleaving of the goroutines that share the store. The
  steps carry the three conditions the store relies on and its callers keep: a job that creates
  a key brings an identifier no stored job has, the identifier counters have not been exhausted,
  and an attempt is moved only under a guard of open states.
\<close>

section \<open>What each operation leaves alone\<close>

lemma SetJobEnabled_frame [simp]:
  "ms_jobKeys (snd (SetJobEnabled s i b)) = ms_jobKeys s"
  "ms_executions (snd (SetJobEnabled s i b)) = ms_executions s"
  "ms_occurrences (snd (SetJobEnabled s i b)) = ms_occurrences s"
  "ms_nextExecutionID (snd (SetJobEnabled s i b)) = ms_nextExecutionID s"
  "ms_attempts (snd (SetJobEnabled s i b)) = ms_attempts s"
  "ms_attemptsByExec (snd (SetJobEnabled s i b)) = ms_attemptsByExec s"
  "ms_attemptsByHost (snd (SetJobEnabled s i b)) = ms_attemptsByHost s"
  "ms_nextAttemptID (snd (SetJobEnabled s i b)) = ms_nextAttemptID s"
  "ms_results (snd (SetJobEnabled s i b)) = ms_results s"
  "ms_resultsByInstance (snd (SetJobEnabled s i b)) = ms_resultsByInstance s"
  "ms_maxResults (snd (SetJobEnabled s i b)) = ms_maxResults s"
  "ms_maxResultsPerInstance (snd (SetJobEnabled s i b)) = ms_maxResultsPerInstance s"
  "ms_clock (snd (SetJobEnabled s i b)) = ms_clock s"
  "ms_executionsOrdered (snd (SetJobEnabled s i b)) = ms_executionsOrdered s"
  by (auto simp: SetJobEnabled_def readClock_def Let_def split: option.splits)

lemma AddSkippedOccurrences_frame [simp]:
  "ms_jobKeys (snd (AddSkippedOccurrences s i n)) = ms_jobKeys s"
  "ms_executions (snd (AddSkippedOccurrences s i n)) = ms_executions s"
  "ms_occurrences (snd (AddSkippedOccurrences s i n)) = ms_occurrences s"
  "ms_nextExecutionID (snd (AddSkippedOccurrences s i n)) = ms_nextExecutionID s"
  "ms_attempts (snd (AddSkippedOccurrences s i n)) = ms_attempts s"
  "ms_attemptsByExec (snd (AddSkippedOccurrences s i n)) = ms_attemptsByExec s"
  "ms_attemptsByHost (snd (AddSkippedOccurrences s i n)) = ms_attemptsByHost s"
  "ms_nextAttemptID (snd (AddSkippedOccurrences s i n)) = ms_nextAttemptID s"
  "ms_results (snd (AddSkippedOccurrences s i n)) = ms_results s"
  "ms_resultsByInstance (snd (AddSkippedOccurrences s i n)) = ms_resultsByInstance s"
  "ms_maxResults (snd (AddSkippedOccurrences s i n)) = ms_maxResults s"
  "ms_maxResultsPerInstance (snd (AddSkippedOccurrences s i n)) = ms_maxResultsPerInstance s"
  "ms_clock (snd (AddSkippedOccurrences s i n)) = ms_clock s"
  "ms_executionsOrdered (snd (AddSkippedOccurrences s i n)) = ms_executionsOrdered s"
  by (auto simp: AddSkippedOccurrences_def readClock_def Let_def split: option.splits)

lemma DeleteJob_frame [simp]:
  "ms_executions (snd (DeleteJob s i)) = ms_executions s"
  "ms_occurrences (snd (DeleteJob s i)) = ms_occurrences s"
  "ms_nextExecutionID (snd (DeleteJob s i)) = ms_nextExecutionID s"
  "ms_attempts (snd (DeleteJob s i)) = ms_attempts s"
  "ms_attemptsByExec (snd (DeleteJob s i)) = ms_attemptsByExec s"
  "ms_attemptsByHost (snd (DeleteJob s i)) = ms_attemptsByHost s"
  "ms_nextAttemptID (snd (DeleteJob s i)) = ms_nextAttemptID s"
  "ms_results (snd (DeleteJob s i)) = ms_results s"
  "ms_resultsByInstance (snd (DeleteJob s i)) = ms_resultsByInstance s"
  "ms_maxResults (snd (DeleteJob s i)) = ms_maxResults s"
  "ms_maxResultsPerInstance (snd (DeleteJob s i)) = ms_maxResultsPerInstance s"
  "ms_clock (snd (DeleteJob s i)) = ms_clock s"
  "ms_executionsOrdered (snd (DeleteJob s i)) = ms_executionsOrdered s"
  by (auto simp: DeleteJob_def readClock_def Let_def split: option.splits)

lemma UpdateExecution_frame [simp]:
  "ms_jobs (snd (UpdateExecution s i v u)) = ms_jobs s"
  "ms_jobKeys (snd (UpdateExecution s i v u)) = ms_jobKeys s"
  "ms_occurrences (snd (UpdateExecution s i v u)) = ms_occurrences s"
  "ms_nextExecutionID (snd (UpdateExecution s i v u)) = ms_nextExecutionID s"
  "ms_attempts (snd (UpdateExecution s i v u)) = ms_attempts s"
  "ms_attemptsByExec (snd (UpdateExecution s i v u)) = ms_attemptsByExec s"
  "ms_attemptsByHost (snd (UpdateExecution s i v u)) = ms_attemptsByHost s"
  "ms_nextAttemptID (snd (UpdateExecution s i v u)) = ms_nextAttemptID s"
  "ms_results (snd (UpdateExecution s i v u)) = ms_results s"
  "ms_resultsByInstance (snd (UpdateExecution s i v u)) = ms_resultsByInstance s"
  "ms_maxResults (snd (UpdateExecution s i v u)) = ms_maxResults s"
  "ms_maxResultsPerInstance (snd (UpdateExecution s i v u)) = ms_maxResultsPerInstance s"
  "ms_clock (snd (UpdateExecution s i v u)) = ms_clock s"
  "ms_executionsOrdered (snd (UpdateExecution s i v u)) = ms_executionsOrdered s"
  by (auto simp: UpdateExecution_def readClock_def Let_def split: option.splits)

lemma DeleteExecution_frame [simp]:
  "ms_jobs (snd (DeleteExecution s i)) = ms_jobs s"
  "ms_jobKeys (snd (DeleteExecution s i)) = ms_jobKeys s"
  "ms_nextExecutionID (snd (DeleteExecution s i)) = ms_nextExecutionID s"
  "ms_attempts (snd (DeleteExecution s i)) = ms_attempts s"
  "ms_attemptsByExec (snd (DeleteExecution s i)) = ms_attemptsByExec s"
  "ms_attemptsByHost (snd (DeleteExecution s i)) = ms_attemptsByHost s"
  "ms_nextAttemptID (snd (DeleteExecution s i)) = ms_nextAttemptID s"
  "ms_results (snd (DeleteExecution s i)) = ms_results s"
  "ms_resultsByInstance (snd (DeleteExecution s i)) = ms_resultsByInstance s"
  "ms_maxResults (snd (DeleteExecution s i)) = ms_maxResults s"
  "ms_maxResultsPerInstance (snd (DeleteExecution s i)) = ms_maxResultsPerInstance s"
  "ms_clock (snd (DeleteExecution s i)) = ms_clock s"
  by (auto simp: DeleteExecution_def detachExecutionOrder_def readClock_def Let_def split: option.splits)

lemma CreateAttempt_frame [simp]:
  "ms_jobs (snd (CreateAttempt s e n h)) = ms_jobs s"
  "ms_jobKeys (snd (CreateAttempt s e n h)) = ms_jobKeys s"
  "ms_executions (snd (CreateAttempt s e n h)) = ms_executions s"
  "ms_occurrences (snd (CreateAttempt s e n h)) = ms_occurrences s"
  "ms_nextExecutionID (snd (CreateAttempt s e n h)) = ms_nextExecutionID s"
  "ms_results (snd (CreateAttempt s e n h)) = ms_results s"
  "ms_resultsByInstance (snd (CreateAttempt s e n h)) = ms_resultsByInstance s"
  "ms_maxResults (snd (CreateAttempt s e n h)) = ms_maxResults s"
  "ms_maxResultsPerInstance (snd (CreateAttempt s e n h)) = ms_maxResultsPerInstance s"
  "ms_clock (snd (CreateAttempt s e n h)) = ms_clock s"
  "ms_executionsOrdered (snd (CreateAttempt s e n h)) = ms_executionsOrdered s"
  by (auto simp: CreateAttempt_def readClock_def Let_def split: option.splits)

lemma UpdateAttemptState_frame [simp]:
  "ms_jobs (snd (UpdateAttemptState s i from to e)) = ms_jobs s"
  "ms_jobKeys (snd (UpdateAttemptState s i from to e)) = ms_jobKeys s"
  "ms_executions (snd (UpdateAttemptState s i from to e)) = ms_executions s"
  "ms_occurrences (snd (UpdateAttemptState s i from to e)) = ms_occurrences s"
  "ms_nextExecutionID (snd (UpdateAttemptState s i from to e)) = ms_nextExecutionID s"
  "ms_attemptsByExec (snd (UpdateAttemptState s i from to e)) = ms_attemptsByExec s"
  "ms_nextAttemptID (snd (UpdateAttemptState s i from to e)) = ms_nextAttemptID s"
  "ms_results (snd (UpdateAttemptState s i from to e)) = ms_results s"
  "ms_resultsByInstance (snd (UpdateAttemptState s i from to e)) = ms_resultsByInstance s"
  "ms_maxResults (snd (UpdateAttemptState s i from to e)) = ms_maxResults s"
  "ms_maxResultsPerInstance (snd (UpdateAttemptState s i from to e)) = ms_maxResultsPerInstance s"
  "ms_clock (snd (UpdateAttemptState s i from to e)) = ms_clock s"
  "ms_executionsOrdered (snd (UpdateAttemptState s i from to e)) = ms_executionsOrdered s"
  by (auto simp: UpdateAttemptState_def detachAttemptFromHost_def readClock_def Let_def split: option.splits)

lemma DeleteAttempt_frame [simp]:
  "ms_jobs (snd (DeleteAttempt s i)) = ms_jobs s"
  "ms_jobKeys (snd (DeleteAttempt s i)) = ms_jobKeys s"
  "ms_executions (snd (DeleteAttempt s i)) = ms_executions s"
  "ms_occurrences (snd (DeleteAttempt s i)) = ms_occurrences s"
  "ms_nextExecutionID (snd (DeleteAttempt s i)) = ms_nextExecutionID s"
  "ms_nextAttemptID (snd (DeleteAttempt s i)) = ms_nextAttemptID s"
  "ms_results (snd (DeleteAttempt s i)) = ms_results s"
  "ms_resultsByInstance (snd (DeleteAttempt s i)) = ms_resultsByInstance s"
  "ms_maxResults (snd (DeleteAttempt s i)) = ms_maxResults s"
  "ms_maxResultsPerInstance (snd (DeleteAttempt s i)) = ms_maxResultsPerInstance s"
  "ms_clock (snd (DeleteAttempt s i)) = ms_clock s"
  "ms_executionsOrdered (snd (DeleteAttempt s i)) = ms_executionsOrdered s"
  by (auto simp: DeleteAttempt_def detachAttemptFromExec_def detachAttemptFromHost_def readClock_def Let_def split: option.splits)

lemma StoreResult_frame [simp]:
  "ms_jobs (snd (StoreResult s rp)) = ms_jobs s"
  "ms_jobKeys (snd (StoreResult s rp)) = ms_jobKeys s"
  "ms_executions (snd (StoreResult s rp)) = ms_executions s"
  "ms_occurrences (snd (StoreResult s rp)) = ms_occurrences s"
  "ms_nextExecutionID (snd (StoreResult s rp)) = ms_nextExecutionID s"
  "ms_attempts (snd (StoreResult s rp)) = ms_attempts s"
  "ms_attemptsByExec (snd (StoreResult s rp)) = ms_attemptsByExec s"
  "ms_attemptsByHost (snd (StoreResult s rp)) = ms_attemptsByHost s"
  "ms_nextAttemptID (snd (StoreResult s rp)) = ms_nextAttemptID s"
  "ms_maxResults (snd (StoreResult s rp)) = ms_maxResults s"
  "ms_maxResultsPerInstance (snd (StoreResult s rp)) = ms_maxResultsPerInstance s"
  "ms_clock (snd (StoreResult s rp)) = ms_clock s"
  "ms_executionsOrdered (snd (StoreResult s rp)) = ms_executionsOrdered s"
  by (auto simp: StoreResult_def detachResult_def readClock_def Let_def split: option.splits)

lemma DeleteResult_frame [simp]:
  "ms_jobs (snd (DeleteResult s i)) = ms_jobs s"
  "ms_jobKeys (snd (DeleteResult s i)) = ms_jobKeys s"
  "ms_executions (snd (DeleteResult s i)) = ms_executions s"
  "ms_occurrences (snd (DeleteResult s i)) = ms_occurrences s"
  "ms_nextExecutionID (snd (DeleteResult s i)) = ms_nextExecutionID s"
  "ms_attempts (snd (DeleteResult s i)) = ms_attempts s"
  "ms_attemptsByExec (snd (DeleteResult s i)) = ms_attemptsByExec s"
  "ms_attemptsByHost (snd (DeleteResult s i)) = ms_attemptsByHost s"
  "ms_nextAttemptID (snd (DeleteResult s i)) = ms_nextAttemptID s"
  "ms_maxResults (snd (DeleteResult s i)) = ms_maxResults s"
  "ms_maxResultsPerInstance (snd (DeleteResult s i)) = ms_maxResultsPerInstance s"
  "ms_clock (snd (DeleteResult s i)) = ms_clock s"
  "ms_executionsOrdered (snd (DeleteResult s i)) = ms_executionsOrdered s"
  by (auto simp: DeleteResult_def detachResult_def readClock_def Let_def split: option.splits)

lemma MarkResultSent_frame [simp]:
  "ms_jobs (snd (MarkResultSent s i t)) = ms_jobs s"
  "ms_jobKeys (snd (MarkResultSent s i t)) = ms_jobKeys s"
  "ms_executions (snd (MarkResultSent s i t)) = ms_executions s"
  "ms_occurrences (snd (MarkResultSent s i t)) = ms_occurrences s"
  "ms_nextExecutionID (snd (MarkResultSent s i t)) = ms_nextExecutionID s"
  "ms_attempts (snd (MarkResultSent s i t)) = ms_attempts s"
  "ms_attemptsByExec (snd (MarkResultSent s i t)) = ms_attemptsByExec s"
  "ms_attemptsByHost (snd (MarkResultSent s i t)) = ms_attemptsByHost s"
  "ms_nextAttemptID (snd (MarkResultSent s i t)) = ms_nextAttemptID s"
  "ms_resultsByInstance (snd (MarkResultSent s i t)) = ms_resultsByInstance s"
  "ms_maxResults (snd (MarkResultSent s i t)) = ms_maxResults s"
  "ms_maxResultsPerInstance (snd (MarkResultSent s i t)) = ms_maxResultsPerInstance s"
  "ms_clock (snd (MarkResultSent s i t)) = ms_clock s"
  "ms_executionsOrdered (snd (MarkResultSent s i t)) = ms_executionsOrdered s"
  by (auto simp: MarkResultSent_def readClock_def Let_def split: option.splits)

lemma UpsertJob_frame:
  assumes "UpsertJob s jp = Some (r, s')"
  shows
    "ms_executions s' = ms_executions s"
    "ms_occurrences s' = ms_occurrences s"
    "ms_nextExecutionID s' = ms_nextExecutionID s"
    "ms_attempts s' = ms_attempts s"
    "ms_attemptsByExec s' = ms_attemptsByExec s"
    "ms_attemptsByHost s' = ms_attemptsByHost s"
    "ms_nextAttemptID s' = ms_nextAttemptID s"
    "ms_results s' = ms_results s"
    "ms_resultsByInstance s' = ms_resultsByInstance s"
    "ms_maxResults s' = ms_maxResults s"
    "ms_maxResultsPerInstance s' = ms_maxResultsPerInstance s"
    "ms_clock s' = ms_clock s"
    "ms_executionsOrdered s' = ms_executionsOrdered s"
  using assms
  by (auto simp: UpsertJob_def readClock_def Let_def split: option.splits if_splits)

lemma CreateExecution_frame:
  assumes "CreateExecution s j t st b = Some (r, s')"
  shows
    "ms_jobs s' = ms_jobs s"
    "ms_jobKeys s' = ms_jobKeys s"
    "ms_attempts s' = ms_attempts s"
    "ms_attemptsByExec s' = ms_attemptsByExec s"
    "ms_attemptsByHost s' = ms_attemptsByHost s"
    "ms_nextAttemptID s' = ms_nextAttemptID s"
    "ms_results s' = ms_results s"
    "ms_resultsByInstance s' = ms_resultsByInstance s"
    "ms_maxResults s' = ms_maxResults s"
    "ms_maxResultsPerInstance s' = ms_maxResultsPerInstance s"
    "ms_clock s' = ms_clock s"
  using assms
  by (auto simp: CreateExecution_def readClock_def Let_def split: option.splits if_splits)

section \<open>Steps and runs\<close>

lemma jobs_inv_cong:
  "ms_jobs s' = ms_jobs s \<Longrightarrow> ms_jobKeys s' = ms_jobKeys s \<Longrightarrow> jobs_inv s' = jobs_inv s"
  by (simp add: jobs_inv_def)

lemma executions_inv_cong:
  "ms_executions s' = ms_executions s \<Longrightarrow> ms_occurrences s' = ms_occurrences s \<Longrightarrow>
   ms_nextExecutionID s' = ms_nextExecutionID s \<Longrightarrow> ms_executionsOrdered s' = ms_executionsOrdered s \<Longrightarrow>
   executions_inv s' = executions_inv s"
  by (simp add: executions_inv_def)

lemma attempts_inv_cong:
  "ms_attempts s' = ms_attempts s \<Longrightarrow> ms_attemptsByExec s' = ms_attemptsByExec s \<Longrightarrow>
   ms_attemptsByHost s' = ms_attemptsByHost s \<Longrightarrow> ms_nextAttemptID s' = ms_nextAttemptID s \<Longrightarrow>
   attempts_inv s' = attempts_inv s"
  by (simp add: attempts_inv_def)

lemma results_inv_cong:
  "ms_results s' = ms_results s \<Longrightarrow> ms_resultsByInstance s' = ms_resultsByInstance s \<Longrightarrow>
   ms_maxResults s' = ms_maxResults s \<Longrightarrow> ms_maxResultsPerInstance s' = ms_maxResultsPerInstance s \<Longrightarrow>
   results_inv s' = results_inv s"
  by (simp add: results_inv_def)

lemmas inv_congs = jobs_inv_cong executions_inv_cong attempts_inv_cong results_inv_cong

text \<open>The condition on the job of an upsert.\<close>

definition upsert_ok :: "memstore \<Rightarrow> job option \<Rightarrow> bool" where
  "upsert_ok s jp \<longleftrightarrow> (case jp of None \<Rightarrow> True | Some jb \<Rightarrow> fresh_uuid s jb)"

inductive store_step :: "memstore \<Rightarrow> memstore \<Rightarrow> bool" where
  upsert_job: "upsert_ok s jp \<Longrightarrow> UpsertJob s jp = Some (r, s') \<Longrightarrow> store_step s s'"
| delete_job: "s' = snd (DeleteJob s i) \<Longrightarrow> store_step s s'"
| set_enabled: "s' = snd (SetJobEnabled s i b) \<Longrightarrow> store_step s s'"
| add_skipped: "s' = snd (AddSkippedOccurrences s i n) \<Longrightarrow> store_step s s'"
| create_execution: "ms_nextExecutionID s + 1 \<noteq> 0 \<Longrightarrow> CreateExecution s j t st b = Some (r, s')
    \<Longrightarrow> store_step s s'"
| update_execution: "s' = snd (UpdateExecution s i v u) \<Longrightarrow> store_step s s'"
| delete_execution: "s' = snd (DeleteExecution s i) \<Longrightarrow> store_step s s'"
| create_attempt: "ms_nextAttemptID s + 1 \<noteq> 0 \<Longrightarrow> s' = snd (CreateAttempt s e m h)
    \<Longrightarrow> store_step s s'"
| update_attempt: "guarded from \<Longrightarrow> s' = snd (UpdateAttemptState s i from to txt) \<Longrightarrow> store_step s s'"
| delete_attempt: "s' = snd (DeleteAttempt s i) \<Longrightarrow> store_step s s'"
| store_result: "s' = snd (StoreResult s rp) \<Longrightarrow> store_step s s'"
| delete_result: "s' = snd (DeleteResult s i) \<Longrightarrow> store_step s s'"
| mark_sent: "s' = snd (MarkResultSent s i at) \<Longrightarrow> store_step s s'"

text \<open>A run of \<open>n\<close> steps.\<close>

inductive store_run :: "nat \<Rightarrow> memstore \<Rightarrow> memstore \<Rightarrow> bool" where
  start: "store_run 0 s s"
| next_step: "store_run n s t \<Longrightarrow> store_step t u \<Longrightarrow> store_run (Suc n) s u"

inductive_cases store_run_SucE: "store_run (Suc n) s u"
inductive_simps store_run_0: "store_run 0 s u"

lemma store_run_trans: "store_run n t u \<Longrightarrow> store_run m s t \<Longrightarrow> store_run (m + n) s u"
  by (induction rule: store_run.induct) (auto intro: store_run.intros)

lemma store_run_one: "store_step s t \<Longrightarrow> store_run 1 s t"
  using store_run.next_step [OF store_run.start] by simp

text \<open>The operations preserve the whole invariant.\<close>

lemma UpsertJob_inv:
  assumes "store_inv s" and "upsert_ok s jp" and "UpsertJob s jp = Some (r, s')"
  shows "store_inv s'"
proof -
  have "jobs_inv s'"
  proof (cases jp)
    case None
    with assms show ?thesis by (auto simp: UpsertJob_def store_inv_def)
  next
    case (Some jb)
    with assms show ?thesis by (auto simp: upsert_ok_def store_inv_def intro: UpsertJob_jobs_inv)
  qed
  moreover have "executions_inv s' = executions_inv s" "attempts_inv s' = attempts_inv s"
    "results_inv s' = results_inv s"
    by (rule inv_congs; simp add: UpsertJob_frame [OF assms(3)])+
  ultimately show ?thesis using assms(1) by (simp add: store_inv_def)
qed

lemma CreateExecution_inv:
  assumes "store_inv s" and "ms_nextExecutionID s + 1 \<noteq> 0" and "CreateExecution s j t st b = Some (r, s')"
  shows "store_inv s'"
proof -
  have "executions_inv s'"
    using assms by (auto simp: store_inv_def intro: CreateExecution_executions_inv)
  moreover have "jobs_inv s' = jobs_inv s" "attempts_inv s' = attempts_inv s"
    "results_inv s' = results_inv s"
    by (rule inv_congs; simp add: CreateExecution_frame [OF assms(3)])+
  ultimately show ?thesis using assms(1) by (simp add: store_inv_def)
qed

lemma other_ops_inv [simp]:
  assumes "store_inv s"
  shows "store_inv (snd (DeleteJob s i))"
    and "store_inv (snd (SetJobEnabled s i b))"
    and "store_inv (snd (AddSkippedOccurrences s i n))"
    and "store_inv (snd (UpdateExecution s x v u))"
    and "store_inv (snd (DeleteExecution s x))"
    and "ms_nextAttemptID s + 1 \<noteq> 0 \<Longrightarrow> store_inv (snd (CreateAttempt s x m h))"
    and "guarded from \<Longrightarrow> store_inv (snd (UpdateAttemptState s a from to txt))"
    and "store_inv (snd (DeleteAttempt s a))"
    and "store_inv (snd (StoreResult s rp))"
    and "store_inv (snd (DeleteResult s i))"
    and "store_inv (snd (MarkResultSent s i at))"
  using assms unfolding store_inv_def
  by (auto simp: DeleteJob_jobs_inv SetJobEnabled_jobs_inv AddSkippedOccurrences_jobs_inv
      UpdateExecution_executions_inv DeleteExecution_executions_inv CreateAttempt_attempts_inv
      UpdateAttemptState_attempts_inv DeleteAttempt_attempts_inv StoreResult_results_inv
      DeleteResult_results_inv MarkResultSent_results_inv
      cong: inv_congs)

lemma store_step_inv: "store_step s s' \<Longrightarrow> store_inv s \<Longrightarrow> store_inv s'"
  by (induction rule: store_step.induct) (auto intro: UpsertJob_inv CreateExecution_inv)

lemma store_run_inv: "store_run n s s' \<Longrightarrow> store_inv s \<Longrightarrow> store_inv s'"
  by (induction rule: store_run.induct) (auto intro: store_step_inv)

section \<open>The life of one execution\<close>

text \<open>
  What one step may do to the execution stored under an identifier: nothing, a versioned update
  along the transition table, or its removal. Its identity never changes.
\<close>

definition same_occurrence :: "execution \<Rightarrow> execution \<Rightarrow> bool" where
  "same_occurrence x y \<longleftrightarrow> x_ID y = x_ID x \<and> x_JobID y = x_JobID x \<and> x_ScheduledAt y = x_ScheduledAt x
     \<and> x_Backfilled y = x_Backfilled x \<and> x_CreatedAt y = x_CreatedAt x"

definition updated_once :: "execution \<Rightarrow> execution \<Rightarrow> bool" where
  "updated_once x y \<longleftrightarrow> same_occurrence x y \<and> x_Version y = x_Version x + 1
     \<and> (x_State y = x_State x \<or> CanTransition (x_State x) (x_State y))"

lemma same_occurrence_refl [simp]: "same_occurrence x x"
  by (simp add: same_occurrence_def)

lemma same_occurrence_trans: "same_occurrence x y \<Longrightarrow> same_occurrence y z \<Longrightarrow> same_occurrence x z"
  by (simp add: same_occurrence_def)

lemma applyUpdate_once: "stateCheck u x = None \<Longrightarrow> updated_once x (applyUpdate u t x)"
  by (auto simp: stateCheck_def updated_once_def same_occurrence_def applyUpdate_def orKeep_def
      split: option.splits if_splits)

lemma UpdateExecution_lookup:
  assumes "map_of (ms_executions s) i = Some x"
  shows "map_of (ms_executions (snd (UpdateExecution s j v u))) i = Some x
    \<or> (\<exists>y. map_of (ms_executions (snd (UpdateExecution s j v u))) i = Some y \<and> updated_once x y)"
  using assms
  by (auto simp: UpdateExecution_def readClock_def Let_def AList.update_conv' applyUpdate_once
      split: option.splits)

lemma CreateExecution_lookup:
  assumes "executions_inv s" and "ms_nextExecutionID s + 1 \<noteq> 0"
    and "CreateExecution s j t st b = Some (r, s')" and "i \<le> ms_nextExecutionID s"
  shows "map_of (ms_executions s') i = map_of (ms_executions s) i
    \<and> ms_nextExecutionID s \<le> ms_nextExecutionID s'"
  using assms(2-) word_less_Suc [OF assms(2)]
  by (auto simp: CreateExecution_def readClock_def Let_def AList.update_conv'
      split: option.splits if_splits)

lemma store_step_nextExecutionID:
  "store_step s s' \<Longrightarrow> ms_nextExecutionID s \<le> ms_nextExecutionID s'"
proof (induction rule: store_step.induct)
  case (create_execution s j t st b r s')
  then show ?case
    using word_less_Suc [OF create_execution.hyps(1)]
    by (auto simp: CreateExecution_def readClock_def Let_def split: option.splits if_splits)
qed (auto simp: UpsertJob_frame)

lemma store_step_execution:
  assumes "store_step s s'" and "store_inv s" and "i \<le> ms_nextExecutionID s"
  shows "map_of (ms_executions s') i = map_of (ms_executions s) i
    \<or> map_of (ms_executions s') i = None
    \<or> (\<exists>x y. map_of (ms_executions s) i = Some x \<and> map_of (ms_executions s') i = Some y
         \<and> updated_once x y)"
  using assms
proof (induction rule: store_step.induct)
  case (create_execution s j t st b r s')
  then show ?case
    using CreateExecution_lookup [of s j t st b r s' i] by (simp add: store_inv_def)
next
  case (update_execution s' s k v u)
  show ?case
  proof (cases "map_of (ms_executions s) i")
    case None
    then show ?thesis using update_execution.hyps
      by (auto simp: UpdateExecution_def readClock_def Let_def AList.update_conv' split: option.splits)
  next
    case (Some x)
    with UpdateExecution_lookup [of s i x k v u] update_execution.hyps show ?thesis by auto
  qed
next
  case (delete_execution s' s k)
  then show ?case
    by (auto simp: DeleteExecution_def detachExecutionOrder_def AList.delete_conv' split: option.splits)
qed (auto simp: UpsertJob_frame)

lemma execution_ID_bound:
  "store_inv s \<Longrightarrow> map_of (ms_executions s) i = Some x \<Longrightarrow> i \<le> ms_nextExecutionID s"
  by (auto simp: store_inv_def executions_inv_def dest: map_of_SomeD)

text \<open>
  Along a run an execution keeps its identity, its state moves along the table, its version
  counts its updates, and once removed its identifier is never reused.
\<close>

definition aged :: "nat \<Rightarrow> execution \<Rightarrow> execution \<Rightarrow> bool" where
  "aged n x y \<longleftrightarrow> same_occurrence x y \<and> transitions (x_State x) (x_State y)
     \<and> (\<exists>k \<le> n. x_Version y = x_Version x + of_nat k)"

lemma aged_refl: "aged n x x"
  by (auto simp: aged_def intro: transitions.stay exI [of _ 0])

lemma aged_step: "aged n x y \<Longrightarrow> updated_once y z \<Longrightarrow> aged (Suc n) x z"
proof -
  assume a: "aged n x y" and u: "updated_once y z"
  then obtain k where k: "k \<le> n" "x_Version y = x_Version x + of_nat k"
    by (auto simp: aged_def)
  have "x_Version z = x_Version x + of_nat (Suc k)"
    using u k(2) by (simp add: updated_once_def)
  moreover have "transitions (x_State x) (x_State z)"
    using a u by (auto simp: aged_def updated_once_def intro: transitions.move)
  moreover have "same_occurrence x z"
    using a u by (auto simp: aged_def updated_once_def intro: same_occurrence_trans)
  ultimately show "aged (Suc n) x z"
    using k(1) unfolding aged_def by (intro conjI exI [of _ "Suc k"]) auto
qed

lemma aged_mono: "aged n x y \<Longrightarrow> aged (Suc n) x y"
  by (auto simp: aged_def intro: le_SucI)

lemma store_run_execution:
  assumes "store_run n s s'" and "store_inv s" and "map_of (ms_executions s) i = Some x"
  shows "i \<le> ms_nextExecutionID s' \<and>
    (case map_of (ms_executions s') i of None \<Rightarrow> True | Some y \<Rightarrow> aged n x y)"
  using assms
proof (induction rule: store_run.induct)
  case (start s)
  then show ?case by (simp add: aged_refl execution_ID_bound)
next
  case (next_step n s t u)
  have inv: "store_inv t"
    using next_step.hyps(1) next_step.prems(1) by (rule store_run_inv)
  have IH: "i \<le> ms_nextExecutionID t"
    "case map_of (ms_executions t) i of None \<Rightarrow> True | Some y \<Rightarrow> aged n x y"
    using next_step.IH next_step.prems by auto
  have le: "i \<le> ms_nextExecutionID u"
    using IH(1) store_step_nextExecutionID [OF next_step.hyps(2)] by (rule order_trans)
  show ?case
    using store_step_execution [OF next_step.hyps(2) inv IH(1)] IH(2) le
    by (auto split: option.splits intro: aged_mono aged_step)
qed

lemma store_run_gone:
  assumes "store_run n s s'" and "store_inv s" and "i \<le> ms_nextExecutionID s"
    and "map_of (ms_executions s) i = None"
  shows "map_of (ms_executions s') i = None \<and> i \<le> ms_nextExecutionID s'"
  using assms
proof (induction rule: store_run.induct)
  case (start s)
  then show ?case by simp
next
  case (next_step n s t u)
  have "store_inv t"
    using next_step.hyps(1) next_step.prems(1) by (rule store_run_inv)
  with next_step store_step_execution [OF next_step.hyps(2), of i] show ?case
    using order_trans [OF _ store_step_nextExecutionID [OF next_step.hyps(2)]] by fastforce
qed

end
