(* ===== verification/Registry_Inv.thy ===== *)
theory Registry_Inv
  imports Registry
begin

text \<open>
  The invariant of the executor registry and its preservation: an instance sits in the ring of
  its executor type and in the rings of the labels it announces, and nowhere else. The rings are
  used only through the contract \<open>selection_ring\<close>, the label sets through \<open>value_set\<close>.
\<close>

section \<open>Maps of rings\<close>

definition seats :: "('l, executorRing) alist \<Rightarrow> 'l \<Rightarrow> (instanceID \<times> entryRef) set" where
  "seats m k = (case map_of m k of None \<Rightarrow> {} | Some ring \<Rightarrow> set (rb_turns ring))"

definition rings_ok :: "('l, executorRing) alist \<Rightarrow> bool" where
  "rings_ok m \<longleftrightarrow> distinct (map fst m) \<and> (\<forall>k ring. map_of m k = Some ring \<longrightarrow> rb_inv ring)"

definition no_empty :: "('l, executorRing) alist \<Rightarrow> bool" where
  "no_empty m \<longleftrightarrow> (\<forall>k ring. map_of m k = Some ring \<longrightarrow> rb_turns ring \<noteq> [])"

lemma rings_ok_Nil [simp]: "rings_ok []" "no_empty []" "seats [] k = {}"
  by (simp_all add: rings_ok_def no_empty_def seats_def)

lemma rings_ok_update: "rings_ok m \<Longrightarrow> rb_inv ring \<Longrightarrow> rings_ok (AList.update k ring m)"
  by (simp add: rings_ok_def AList.update_conv' distinct_update)

lemma rings_ok_delete: "rings_ok m \<Longrightarrow> rings_ok (AList.delete k m)"
  by (simp add: rings_ok_def AList.delete_conv' distinct_delete restrict_map_def)

lemma seats_update: "seats (AList.update k ring m) l = (if l = k then set (rb_turns ring) else seats m l)"
  by (simp add: seats_def AList.update_conv')

lemma seats_delete: "seats (AList.delete k m) l = (if l = k then {} else seats m l)"
  by (simp add: seats_def AList.delete_conv')

lemma no_empty_update: "no_empty m \<Longrightarrow> rb_turns ring \<noteq> [] \<Longrightarrow> no_empty (AList.update k ring m)"
  by (simp add: no_empty_def AList.update_conv')

lemma no_empty_delete: "no_empty m \<Longrightarrow> no_empty (AList.delete k m)"
  by (simp add: no_empty_def AList.delete_conv' restrict_map_def)

lemma joinRing_seats:
  assumes "rings_ok m"
  shows "\<exists>m'. joinRing m k i ref = Some m' \<and> rings_ok m' \<and> (no_empty m \<longrightarrow> no_empty m')
    \<and> (\<forall>l. seats m' l = (if l = k then {p \<in> seats m l. fst p \<noteq> i} \<union> {(i, ref)} else seats m l))"
proof -
  let ?ring = "case map_of m k of None \<Rightarrow> ring_New 0 | Some ring \<Rightarrow> ring"
  have inv: "rb_inv ?ring" and seat: "set (rb_turns ?ring) = seats m k"
    using assms by (auto simp: rings_ok_def seats_def split: option.splits)
  obtain b ring' where up: "ring_Upsert ?ring i ref = Some (b, ring')" "rb_inv ring'"
    "set (rb_turns ring') = {p \<in> set (rb_turns ?ring). fst p \<noteq> i} \<union> {(i, ref)}"
    using rb.upsert_set [OF inv] by blast
  have "rb_turns ring' \<noteq> []"
    using up(3) by fastforce
  then show ?thesis
    using up assms unfolding seat joinRing_def Let_def
    by (simp add: rings_ok_update seats_update no_empty_update)
qed

lemma leaveRing_seats:
  assumes "rings_ok m"
  shows "\<exists>m'. leaveRing b m k i = Some m' \<and> rings_ok m' \<and> (b \<longrightarrow> no_empty m \<longrightarrow> no_empty m')
    \<and> (\<forall>l. seats m' l = (if l = k then {p \<in> seats m l. fst p \<noteq> i} else seats m l))"
proof (cases "map_of m k")
  case None
  with assms show ?thesis by (simp add: leaveRing_def seats_def)
next
  case (Some ring)
  then have inv: "rb_inv ring" using assms by (simp add: rings_ok_def)
  then obtain held ring' where rem: "ring_Remove ring i = Some (held, ring')" "rb_inv ring'"
    "rb_turns ring' = filter (\<lambda>p. fst p \<noteq> i) (rb_turns ring)"
    using rb.remove_turns [OF inv, of i] by blast
  have "set (rb_turns ring') = {p \<in> seats m k. fst p \<noteq> i}"
    unfolding rem(3) seats_def Some by simp
  moreover have "ring_Len ring' = 0 \<longleftrightarrow> rb_turns ring' = []"
    unfolding ring_Len_def by (metis length_0_conv length_rb_turns)
  ultimately show ?thesis
    using Some assms rem(1,2)
    by (cases "b \<and> ring_Len ring' = 0")
       (auto simp: leaveRing_def rings_ok_update rings_ok_delete seats_update seats_delete no_empty_update
         no_empty_delete)
qed

lemma attachLabels_seats:
  assumes "rings_ok m"
  shows "\<exists>m'. attachLabels m i ref ls = Some m' \<and> rings_ok m' \<and> (no_empty m \<longrightarrow> no_empty m')
    \<and> (\<forall>l. seats m' l = (if l \<in> set ls then {p \<in> seats m l. fst p \<noteq> i} \<union> {(i, ref)} else seats m l))"
  using assms
proof (induction ls arbitrary: m)
  case (Cons l ls)
  obtain m1 where m1: "joinRing m l i ref = Some m1" "rings_ok m1" "no_empty m \<longrightarrow> no_empty m1"
    "\<forall>k. seats m1 k = (if k = l then {p \<in> seats m k. fst p \<noteq> i} \<union> {(i, ref)} else seats m k)"
    using joinRing_seats [OF Cons.prems] by blast
  obtain m2 where m2: "attachLabels m1 i ref ls = Some m2" "rings_ok m2" "no_empty m1 \<longrightarrow> no_empty m2"
    "\<forall>k. seats m2 k = (if k \<in> set ls then {p \<in> seats m1 k. fst p \<noteq> i} \<union> {(i, ref)} else seats m1 k)"
    using Cons.IH [OF m1(2)] by blast
  have "\<forall>k. seats m2 k = (if k \<in> set (l # ls) then {p \<in> seats m k. fst p \<noteq> i} \<union> {(i, ref)} else seats m k)"
    using m2(4) m1(4) by auto
  with m1 m2 show ?case by simp
qed simp

lemma detachLabels_seats:
  assumes "rings_ok m"
  shows "\<exists>m'. detachLabels m i ls = Some m' \<and> rings_ok m' \<and> (no_empty m \<longrightarrow> no_empty m')
    \<and> (\<forall>l. seats m' l = (if l \<in> set ls then {p \<in> seats m l. fst p \<noteq> i} else seats m l))"
  using assms
proof (induction ls arbitrary: m)
  case (Cons l ls)
  obtain m1 where m1: "leaveRing True m l i = Some m1" "rings_ok m1" "no_empty m \<longrightarrow> no_empty m1"
    "\<forall>k. seats m1 k = (if k = l then {p \<in> seats m k. fst p \<noteq> i} else seats m k)"
    using leaveRing_seats [OF Cons.prems, of True] by blast
  obtain m2 where m2: "detachLabels m1 i ls = Some m2" "rings_ok m2" "no_empty m1 \<longrightarrow> no_empty m2"
    "\<forall>k. seats m2 k = (if k \<in> set ls then {p \<in> seats m1 k. fst p \<noteq> i} else seats m1 k)"
    using Cons.IH [OF m1(2)] by blast
  have "\<forall>k. seats m2 k = (if k \<in> set (l # ls) then {p \<in> seats m k. fst p \<noteq> i} else seats m k)"
    using m2(4) m1(4) by auto
  with m1 m2 show ?case by simp
qed simp

section \<open>The invariant\<close>

definition registered :: "registry \<Rightarrow> instanceID \<Rightarrow> entryRef \<Rightarrow> bool" where
  "registered rg i ref \<longleftrightarrow> map_of (rg_entries rg) i = Some ref"

definition registry_inv :: "registry \<Rightarrow> bool" where
  "registry_inv rg \<longleftrightarrow> distinct (map fst (rg_entries rg)) \<and> rings_ok (rg_pools rg)
     \<and> rings_ok (rg_labelPools rg) \<and> no_empty (rg_labelPools rg)
     \<and> (\<forall>i ref. registered rg i ref \<longrightarrow> ref < rg_free rg \<and> en_instanceID (rg_heap rg ref) = i
          \<and> ts_inv (en_labels (rg_heap rg ref)) \<and> '''' \<notin> Members (en_labels (rg_heap rg ref)))
     \<and> (\<forall>ref. ts_inv (en_inFlight (rg_heap rg ref)))
     \<and> (\<forall>et. seats (rg_pools rg) et
          = {(i, ref). registered rg i ref \<and> en_executorType (rg_heap rg ref) = et})
     \<and> (\<forall>l. seats (rg_labelPools rg) l
          = {(i, ref). registered rg i ref \<and> l \<in> Members (en_labels (rg_heap rg ref))})"

lemma registry_inv_New: "registry_inv NewExecutorRegistry"
  by (simp add: registry_inv_def NewExecutorRegistry_def registered_def ts_inv_def nilEntry_def dataOf_def)

lemma registered_instance:
  assumes "registry_inv rg" and "registered rg i ref" and "registered rg k ref"
  shows "i = k"
  using assms unfolding registry_inv_def by metis

text \<open>Changing fields of an entry that routing does not look at.\<close>

lemma updateEntry_inv:
  assumes "registry_inv rg" and "\<And>e. en_instanceID (f e) = en_instanceID e"
    and "\<And>e. en_executorType (f e) = en_executorType e" and "\<And>e. en_labels (f e) = en_labels e"
    and "\<And>e. ts_inv (en_inFlight e) \<Longrightarrow> ts_inv (en_inFlight (f e))"
  shows "registry_inv (updateEntry rg ref f)"
proof -
  have "en_instanceID (rg_heap (updateEntry rg ref f) r) = en_instanceID (rg_heap rg r)"
    "en_executorType (rg_heap (updateEntry rg ref f) r) = en_executorType (rg_heap rg r)"
    "en_labels (rg_heap (updateEntry rg ref f) r) = en_labels (rg_heap rg r)"
    "ts_inv (en_inFlight (rg_heap rg r)) \<Longrightarrow> ts_inv (en_inFlight (rg_heap (updateEntry rg ref f) r))" for r
    using assms(2-) by (auto simp: updateEntry_def)
  moreover have "rg_entries (updateEntry rg ref f) = rg_entries rg" "rg_pools (updateEntry rg ref f) = rg_pools rg"
    "rg_labelPools (updateEntry rg ref f) = rg_labelPools rg" "rg_free (updateEntry rg ref f) = rg_free rg"
    by (simp_all add: updateEntry_def)
  ultimately show ?thesis
    using assms(1) unfolding registry_inv_def registered_def by simp
qed

lemma entry_ops_inv:
  assumes "registry_inv rg"
  shows "registry_inv (MarkClosed rg ref)" "registry_inv (AddInFlight rg ref i)"
    "registry_inv (ReleaseInFlight rg ref i)" "registry_inv (Heartbeat rg ref t)"
    "registry_inv (SetNotify rg b)"
proof -
  show "registry_inv (MarkClosed rg ref)" "registry_inv (AddInFlight rg ref i)"
    "registry_inv (ReleaseInFlight rg ref i)" "registry_inv (Heartbeat rg ref t)"
    unfolding MarkClosed_def AddInFlight_def ReleaseInFlight_def Heartbeat_def
    by (rule updateEntry_inv [OF assms]; simp add: ts_inv_ops)+
  show "registry_inv (SetNotify rg b)"
    using assms by (simp add: SetNotify_def registry_inv_def registered_def)
qed

lemma CloseAll_inv: "registry_inv rg \<Longrightarrow> registry_inv (snd (CloseAll rg))"
proof -
  have "registry_inv (fold (\<lambda>p rg. MarkClosed rg (snd p)) ps rg)" if "registry_inv rg"
    for ps :: "(instanceID \<times> entryRef) list" and rg
    using that by (induction ps arbitrary: rg) (simp_all add: entry_ops_inv)
  then show "registry_inv rg \<Longrightarrow> registry_inv (snd (CloseAll rg))"
    by (simp add: CloseAll_def)
qed

section \<open>Labels\<close>

lemma labelSetOf_inv: "ts_inv (labelSetOf ls)" "Members (labelSetOf ls) = set ls - {''''}"
proof -
  have "ts_inv m \<Longrightarrow> ts_inv (fold (\<lambda>l m. if l = '''' then m else set_Set m l) ls m)
      \<and> Members (fold (\<lambda>l m. if l = '''' then m else set_Set m l) ls m) = Members m \<union> (set ls - {''''})" for m
    by (induction ls arbitrary: m) (auto simp: ts_inv_ops Members_ops)
  then show "ts_inv (labelSetOf ls)" "Members (labelSetOf ls) = set ls - {''''}"
    by (simp_all add: labelSetOf_def ts.wf_new ts.members_new)
qed

definition desiredLabels :: "label tset \<Rightarrow> label list \<Rightarrow> label list \<Rightarrow> label tset" where
  "desiredLabels held announce withdraw =
     DeleteMultiple (fold (\<lambda>l m. set_Set m l) announce (set_Copy held)) withdraw"

lemma desiredLabels_inv:
  assumes "ts_inv held"
  shows "ts_inv (desiredLabels held announce withdraw)"
    and "Members (desiredLabels held announce withdraw) = (Members held \<union> set announce) - set withdraw"
  using assms ts.wf_put_all [OF ts.wf_copy [OF assms], of announce]
    ts.members_put_all [OF ts.wf_copy [OF assms], of announce]
  by (simp_all add: desiredLabels_def ts_inv_ops Members_ops)

section \<open>Registration\<close>

definition newEntry ::
  "registry \<Rightarrow> instanceID \<Rightarrow> executorType \<Rightarrow> u32 \<Rightarrow> functionSpec list \<Rightarrow> label list \<Rightarrow> senderID \<Rightarrow> executorEntry" where
  "newEntry rg inst et capacity functions labels sender =
     \<lparr>en_instanceID = inst, en_executorType = et, en_generation = rg_generation rg + 1,
      en_capacity = capacity, en_functions = functionIndexOf functions, en_sender = sender,
      en_labels = labelSetOf labels, en_inFlight = NewThreadSafeSet, en_closed = False,
      en_lastHeartbeat = 0\<rparr>"

text \<open>What \<open>Register\<close> does to the maps, the heap and the rings.\<close>

lemma Register_effect:
  assumes inv: "registry_inv rg"
  shows "\<exists>rg'. Register rg inst et capacity functions labels sender
      = Some ((rg_free rg, map_of (rg_entries rg) inst,
          if rg_notify rg then Some \<lparr>rc_ExecutorType = et, rc_Labels = set_Values (labelSetOf labels)\<rparr>
          else None), rg')
    \<and> rg_entries rg' = AList.update inst (rg_free rg) (rg_entries rg)
    \<and> rg_free rg' = rg_free rg + 1 \<and> rg_generation rg' = rg_generation rg + 1
    \<and> rg_heap rg' (rg_free rg) = newEntry rg inst et capacity functions labels sender
    \<and> (\<forall>ref. ref \<noteq> rg_free rg \<longrightarrow> rg_heap rg' ref =
         (if registered rg inst ref then (rg_heap rg ref)\<lparr>en_closed := True\<rparr> else rg_heap rg ref))
    \<and> rings_ok (rg_pools rg') \<and> rings_ok (rg_labelPools rg') \<and> no_empty (rg_labelPools rg')
    \<and> (\<forall>k. seats (rg_pools rg') k = {p \<in> seats (rg_pools rg) k. fst p \<noteq> inst}
         \<union> (if k = et then {(inst, rg_free rg)} else {}))
    \<and> (\<forall>l. seats (rg_labelPools rg') l = {p \<in> seats (rg_labelPools rg) l. fst p \<noteq> inst}
         \<union> (if l \<in> set labels - {''''} then {(inst, rg_free rg)} else {}))"
proof -
  let ?ref = "rg_free rg" and ?set = "labelSetOf labels" and ?old = "map_of (rg_entries rg) inst"
  let ?e = "newEntry rg inst et capacity functions labels sender"
  define old where "old = (case ?old of None \<Rightarrow> nilEntry | Some r \<Rightarrow> rg_heap rg r)"
  have ok: "rings_ok (rg_pools rg)" "rings_ok (rg_labelPools rg)" "no_empty (rg_labelPools rg)"
    using inv by (simp_all add: registry_inv_def)
  have pseat: "seats (rg_pools rg) k = {(i, ref). registered rg i ref \<and> en_executorType (rg_heap rg ref) = k}" for k
    using inv by (simp add: registry_inv_def)
  have lseat: "seats (rg_labelPools rg) l = {(i, ref). registered rg i ref \<and> l \<in> Members (en_labels (rg_heap rg ref))}" for l
    using inv by (simp add: registry_inv_def)
  have oldset: "ts_inv (en_labels old)"
    using inv by (auto simp: old_def registry_inv_def registered_def nilEntry_def ts_inv_def dataOf_def split: option.splits)
  have vals: "set (set_Values ?set) = set labels - {''''}"
    using labelSetOf_inv [of labels] set_Values_members by metis
  have diff: "set (set_Values (Difference (en_labels old) ?set)) = Members (en_labels old) - (set labels - {''''})"
    by (simp add: set_Values_members ts_inv_ops Members_ops labelSetOf_inv)
  define leave where "leave = (if ?old \<noteq> None \<and> en_executorType old \<noteq> et
      then leaveRing False (rg_pools rg) (en_executorType old) inst else Some (rg_pools rg))"
  define detach where "detach = (if ?old \<noteq> None
      then detachLabels (rg_labelPools rg) inst (set_Values (Difference (en_labels old) ?set))
      else Some (rg_labelPools rg))"
  obtain p1 where p1: "leave = Some p1" "rings_ok p1"
    "\<forall>k. k \<noteq> et \<longrightarrow> seats p1 k = {p \<in> seats (rg_pools rg) k. fst p \<noteq> inst}"
    "seats p1 et = seats (rg_pools rg) et"
  proof (cases "?old \<noteq> None \<and> en_executorType old \<noteq> et")
    case True
    then obtain m where m: "leave = Some m" "rings_ok m"
      "\<forall>k. seats m k = (if k = en_executorType old then {p \<in> seats (rg_pools rg) k. fst p \<noteq> inst} else seats (rg_pools rg) k)"
      using leaveRing_seats [OF ok(1), of False "en_executorType old" inst] by (auto simp: leave_def)
    have same: "{p \<in> seats (rg_pools rg) k. fst p \<noteq> inst} = seats (rg_pools rg) k" if "k \<noteq> en_executorType old" for k
      using that True by (auto simp: pseat registered_def old_def)
    show ?thesis
      by (rule that [OF m(1,2)]) (use m(3) same True in auto)
  next
    case False
    then have "{p \<in> seats (rg_pools rg) k. fst p \<noteq> inst} = seats (rg_pools rg) k" if "k \<noteq> et" for k
      using that by (auto simp: pseat registered_def old_def)
    moreover have "leave = Some (rg_pools rg)"
      unfolding leave_def using False by (simp only: if_False)
    ultimately show ?thesis
      using that ok(1) by simp
  qed
  obtain l1 where l1: "detach = Some l1" "rings_ok l1" "no_empty l1"
    "\<forall>l. l \<notin> set labels - {''''} \<longrightarrow> seats l1 l = {p \<in> seats (rg_labelPools rg) l. fst p \<noteq> inst}"
    "\<forall>l. l \<in> set labels - {''''} \<longrightarrow> seats l1 l = seats (rg_labelPools rg) l"
  proof (cases "?old = None")
    case True
    then have "{p \<in> seats (rg_labelPools rg) k. fst p \<noteq> inst} = seats (rg_labelPools rg) k" for k
      by (auto simp: lseat registered_def)
    with True that ok show ?thesis by (simp add: detach_def)
  next
    case False
    then obtain m where m: "detach = Some m" "rings_ok m" "no_empty m"
      "\<forall>l. seats m l = (if l \<in> Members (en_labels old) - (set labels - {''''})
         then {p \<in> seats (rg_labelPools rg) l. fst p \<noteq> inst} else seats (rg_labelPools rg) l)"
      using detachLabels_seats [OF ok(2), of inst "set_Values (Difference (en_labels old) ?set)"] ok(3)
      unfolding diff by (auto simp: detach_def)
    have "{p \<in> seats (rg_labelPools rg) l. fst p \<noteq> inst} = seats (rg_labelPools rg) l"
      if "l \<notin> Members (en_labels old)" for l
      using that False by (auto simp: lseat registered_def old_def)
    with m that show ?thesis by simp
  qed
  obtain p2 where p2: "joinRing p1 et inst ?ref = Some p2" "rings_ok p2"
    "\<forall>k. seats p2 k = (if k = et then {p \<in> seats p1 k. fst p \<noteq> inst} \<union> {(inst, ?ref)} else seats p1 k)"
    using joinRing_seats [OF p1(2)] by blast
  obtain l2 where l2: "attachLabels l1 inst ?ref (set_Values ?set) = Some l2" "rings_ok l2" "no_empty l2"
    "\<forall>l. seats l2 l = (if l \<in> set labels - {''''} then {p \<in> seats l1 l. fst p \<noteq> inst} \<union> {(inst, ?ref)} else seats l1 l)"
    using attachLabels_seats [OF l1(2), of inst ?ref "set_Values ?set"] l1(3) unfolding vals by blast
  define rg1 where "rg1 = rg\<lparr>rg_generation := rg_generation rg + 1, rg_free := ?ref + 1,
      rg_heap := (rg_heap rg)(?ref := ?e), rg_entries := AList.update inst ?ref (rg_entries rg),
      rg_pools := p2, rg_labelPools := l2\<rparr>"
  define rg' where "rg' = (case ?old of None \<Rightarrow> rg1 | Some r \<Rightarrow> MarkClosed rg1 r)"
  have reg: "Register rg inst et capacity functions labels sender
      = Some ((?ref, ?old, if rg_notify rg then Some \<lparr>rc_ExecutorType = et, rc_Labels = set_Values ?set\<rparr> else None), rg')"
    using p1(1) l1(1) p2(1) l2(1)
    unfolding Register_def Let_def old_def [symmetric] leave_def [symmetric] detach_def [symmetric]
      newEntry_def [symmetric] rg'_def rg1_def
    by simp
  have fields: "rg_entries rg' = AList.update inst ?ref (rg_entries rg)" "rg_free rg' = ?ref + 1"
    "rg_generation rg' = rg_generation rg + 1" "rg_pools rg' = p2" "rg_labelPools rg' = l2"
    by (simp_all add: rg'_def rg1_def MarkClosed_def updateEntry_def split: option.splits)
  have "\<not> registered rg inst ?ref"
    using inv by (auto simp: registry_inv_def)
  then have heap: "rg_heap rg' ?ref = ?e"
    "\<forall>ref. ref \<noteq> ?ref \<longrightarrow> rg_heap rg' ref =
         (if registered rg inst ref then (rg_heap rg ref)\<lparr>en_closed := True\<rparr> else rg_heap rg ref)"
    by (auto simp: rg'_def rg1_def MarkClosed_def updateEntry_def registered_def split: option.splits)
  have "\<forall>k. seats p2 k = {p \<in> seats (rg_pools rg) k. fst p \<noteq> inst} \<union> (if k = et then {(inst, ?ref)} else {})"
    using p1(3,4) p2(3) by simp
  moreover have "\<forall>l. seats l2 l = {p \<in> seats (rg_labelPools rg) l. fst p \<noteq> inst}
      \<union> (if l \<in> set labels - {''''} then {(inst, ?ref)} else {})"
    using l1(4,5) l2(4) by auto
  ultimately show ?thesis
    using reg fields heap p2(2) l2(2,3) by (intro exI [of _ rg']) simp
qed

lemma newEntry_simps [simp]:
  "en_instanceID (newEntry rg i et c f l s) = i" "en_executorType (newEntry rg i et c f l s) = et"
  "en_labels (newEntry rg i et c f l s) = labelSetOf l" "en_closed (newEntry rg i et c f l s) = False"
  "en_generation (newEntry rg i et c f l s) = rg_generation rg + 1"
  "en_inFlight (newEntry rg i et c f l s) = NewThreadSafeSet" "en_capacity (newEntry rg i et c f l s) = c"
  "en_functions (newEntry rg i et c f l s) = functionIndexOf f" "en_sender (newEntry rg i et c f l s) = s"
  by (simp_all add: newEntry_def)

lemma Register_inv:
  assumes inv: "registry_inv rg" and "Register rg inst et capacity functions labels sender = Some (r, rg')"
  shows "registry_inv rg'"
proof -
  let ?ref = "rg_free rg"
  have h: "rg_entries rg' = AList.update inst ?ref (rg_entries rg)" "rg_free rg' = ?ref + 1"
    "rg_heap rg' ?ref = newEntry rg inst et capacity functions labels sender"
    "\<And>ref. ref \<noteq> ?ref \<Longrightarrow> rg_heap rg' ref =
         (if registered rg inst ref then (rg_heap rg ref)\<lparr>en_closed := True\<rparr> else rg_heap rg ref)"
    "rings_ok (rg_pools rg')" "rings_ok (rg_labelPools rg')" "no_empty (rg_labelPools rg')"
    "\<And>k. seats (rg_pools rg') k = {p \<in> seats (rg_pools rg) k. fst p \<noteq> inst}
         \<union> (if k = et then {(inst, ?ref)} else {})"
    "\<And>l. seats (rg_labelPools rg') l = {p \<in> seats (rg_labelPools rg) l. fst p \<noteq> inst}
         \<union> (if l \<in> set labels - {''''} then {(inst, ?ref)} else {})"
    using Register_effect [OF inv, of inst et capacity "functions" labels sender] assms(2) by auto
  have reg: "registered rg' i ref \<longleftrightarrow> (if i = inst then ref = ?ref else registered rg i ref)" for i ref
    by (auto simp: registered_def h(1) AList.update_conv')
  have old: "ref < ?ref" "en_instanceID (rg_heap rg ref) = i" "ts_inv (en_labels (rg_heap rg ref))"
    "'''' \<notin> Members (en_labels (rg_heap rg ref))" if "registered rg i ref" for i ref
    using inv that by (simp_all add: registry_inv_def)
  have fresh: "\<not> registered rg i ?ref" for i
    using old(1) by blast
  have same: "en_instanceID (rg_heap rg' ref) = en_instanceID (rg_heap rg ref)"
    "en_labels (rg_heap rg' ref) = en_labels (rg_heap rg ref)"
    "en_executorType (rg_heap rg' ref) = en_executorType (rg_heap rg ref)" if "registered rg i ref" for i ref
    using h(4) [of ref] old(1) [OF that] by simp_all
  have flight: "ts_inv (en_inFlight (rg_heap rg' ref))" for ref
    using inv h(3) h(4) [of ref] by (cases "ref = ?ref") (auto simp: registry_inv_def ts_inv_ops)
  have pool: "seats (rg_pools rg) k = {(i, ref). registered rg i ref \<and> en_executorType (rg_heap rg ref) = k}" for k
    using inv by (simp add: registry_inv_def)
  have label: "seats (rg_labelPools rg) l = {(i, ref). registered rg i ref \<and> l \<in> Members (en_labels (rg_heap rg ref))}" for l
    using inv by (simp add: registry_inv_def)
  have "seats (rg_pools rg') k = {(i, ref). registered rg' i ref \<and> en_executorType (rg_heap rg' ref) = k}" for k
    unfolding h(8) pool reg using same h(3) fresh by (auto split: if_splits)
  moreover have "seats (rg_labelPools rg') l = {(i, ref). registered rg' i ref \<and> l \<in> Members (en_labels (rg_heap rg' ref))}" for l
    unfolding h(9) label reg using same h(3) fresh by (auto simp: labelSetOf_inv split: if_splits)
  moreover have "ref < rg_free rg' \<and> en_instanceID (rg_heap rg' ref) = i
      \<and> ts_inv (en_labels (rg_heap rg' ref)) \<and> '''' \<notin> Members (en_labels (rg_heap rg' ref))"
    if "registered rg' i ref" for i ref
    using that old [of i ref] same [of i ref] h(2,3) by (auto simp: reg labelSetOf_inv split: if_splits)
  moreover have "distinct (map fst (rg_entries rg'))"
    using inv by (simp add: h(1) registry_inv_def distinct_update)
  ultimately show ?thesis
    using h(5-7) flight unfolding registry_inv_def by blast
qed

section \<open>Departure\<close>

lemma Deregister_effect:
  assumes inv: "registry_inv rg" and "registered rg inst ref" and "en_generation (rg_heap rg ref) = generation"
  shows "\<exists>rg'. Deregister rg inst generation = Some (True, rg')
    \<and> rg_entries rg' = AList.delete inst (rg_entries rg) \<and> rg_free rg' = rg_free rg
    \<and> rg_heap rg' = (rg_heap rg)(ref := (rg_heap rg ref)\<lparr>en_closed := True\<rparr>)
    \<and> rings_ok (rg_pools rg') \<and> rings_ok (rg_labelPools rg') \<and> no_empty (rg_labelPools rg')
    \<and> (\<forall>k. seats (rg_pools rg') k = {p \<in> seats (rg_pools rg) k. fst p \<noteq> inst})
    \<and> (\<forall>l. seats (rg_labelPools rg') l = {p \<in> seats (rg_labelPools rg) l. fst p \<noteq> inst})"
proof -
  let ?e = "rg_heap rg ref"
  have ok: "rings_ok (rg_pools rg)" "rings_ok (rg_labelPools rg)" "no_empty (rg_labelPools rg)"
    using inv by (simp_all add: registry_inv_def)
  have pseat: "seats (rg_pools rg) k = {(i, ref). registered rg i ref \<and> en_executorType (rg_heap rg ref) = k}" for k
    using inv by (simp add: registry_inv_def)
  have lseat: "seats (rg_labelPools rg) l = {(i, ref). registered rg i ref \<and> l \<in> Members (en_labels (rg_heap rg ref))}" for l
    using inv by (simp add: registry_inv_def)
  have vals: "set (entryLabels ?e) = Members (en_labels ?e)"
    using inv assms(2) by (simp add: registry_inv_def entryLabels_def set_Values_members)
  obtain p where p: "leaveRing False (rg_pools rg) (en_executorType ?e) inst = Some p" "rings_ok p"
    "\<forall>k. seats p k = (if k = en_executorType ?e then {p \<in> seats (rg_pools rg) k. fst p \<noteq> inst} else seats (rg_pools rg) k)"
    using leaveRing_seats [OF ok(1)] by blast
  obtain l where l: "detachLabels (rg_labelPools rg) inst (entryLabels ?e) = Some l" "rings_ok l" "no_empty l"
    "\<forall>k. seats l k = (if k \<in> Members (en_labels ?e) then {p \<in> seats (rg_labelPools rg) k. fst p \<noteq> inst}
      else seats (rg_labelPools rg) k)"
    using detachLabels_seats [OF ok(2), of inst "entryLabels ?e"] ok(3) unfolding vals by blast
  have "\<forall>k. seats p k = {p \<in> seats (rg_pools rg) k. fst p \<noteq> inst}"
    using p(3) assms(2) by (auto simp: pseat registered_def)
  moreover have "\<forall>k. seats l k = {p \<in> seats (rg_labelPools rg) k. fst p \<noteq> inst}"
    using l(4) assms(2) by (auto simp: lseat registered_def)
  ultimately show ?thesis
    using assms(2,3) p(1,2) l(1-3)
    by (simp add: Deregister_def registered_def Let_def MarkClosed_def updateEntry_def)
qed

lemma Deregister_stale:
  "\<not> (\<exists>ref. registered rg inst ref \<and> en_generation (rg_heap rg ref) = generation)
    \<Longrightarrow> Deregister rg inst generation = Some (False, rg)"
  by (auto simp: Deregister_def registered_def Let_def split: option.splits)

lemma Deregister_inv:
  assumes inv: "registry_inv rg" and "Deregister rg inst generation = Some (b, rg')"
  shows "registry_inv rg'"
proof (cases "\<exists>ref. registered rg inst ref \<and> en_generation (rg_heap rg ref) = generation")
  case True
  then obtain ref where ref: "registered rg inst ref" "en_generation (rg_heap rg ref) = generation" by blast
  have h: "rg_entries rg' = AList.delete inst (rg_entries rg)" "rg_free rg' = rg_free rg"
    "rg_heap rg' = (rg_heap rg)(ref := (rg_heap rg ref)\<lparr>en_closed := True\<rparr>)"
    "rings_ok (rg_pools rg')" "rings_ok (rg_labelPools rg')" "no_empty (rg_labelPools rg')"
    "\<forall>k. seats (rg_pools rg') k = {p \<in> seats (rg_pools rg) k. fst p \<noteq> inst}"
    "\<forall>l. seats (rg_labelPools rg') l = {p \<in> seats (rg_labelPools rg) l. fst p \<noteq> inst}"
    using Deregister_effect [OF inv ref] assms(2) by auto
  have reg: "registered rg' i r \<longleftrightarrow> i \<noteq> inst \<and> registered rg i r" for i r
    by (simp add: registered_def h(1) AList.delete_conv')
  have "en_instanceID (rg_heap rg' r) = en_instanceID (rg_heap rg r)"
    "en_labels (rg_heap rg' r) = en_labels (rg_heap rg r)"
    "en_inFlight (rg_heap rg' r) = en_inFlight (rg_heap rg r)"
    "en_executorType (rg_heap rg' r) = en_executorType (rg_heap rg r)" for r
    by (simp_all add: h(3))
  then show ?thesis
    using inv h(2,4-8) by (auto simp: registry_inv_def reg h(1) distinct_delete)
next
  case False
  with assms Deregister_stale [of rg inst generation] show ?thesis by simp
qed

section \<open>Label updates\<close>

lemma UpdateLabels_refused:
  "'''' \<in> set announce \<or> '''' \<in> set withdraw
    \<Longrightarrow> UpdateLabels rg inst announce withdraw = Some ((0, Some ErrEmptyLabel, None), rg)"
  "\<not> ('''' \<in> set announce \<or> '''' \<in> set withdraw) \<Longrightarrow> map_of (rg_entries rg) inst = None
    \<Longrightarrow> UpdateLabels rg inst announce withdraw = Some ((0, Some ErrUnknownInstance, None), rg)"
  "\<not> ('''' \<in> set announce \<or> '''' \<in> set withdraw) \<Longrightarrow> map_of (rg_entries rg) inst = Some ref
    \<Longrightarrow> unat maxInstanceLabels < Length (desiredLabels (en_labels (rg_heap rg ref)) announce withdraw)
    \<Longrightarrow> UpdateLabels rg inst announce withdraw
      = Some ((of_nat (Length (en_labels (rg_heap rg ref))), Some ErrLabelLimitExceeded, None), rg)"
  by (auto simp: UpdateLabels_def desiredLabels_def Let_def)

lemma UpdateLabels_effect:
  assumes inv: "registry_inv rg" and ref: "map_of (rg_entries rg) inst = Some ref"
    and ne: "\<not> ('''' \<in> set announce \<or> '''' \<in> set withdraw)"
    and desired: "desired = desiredLabels (en_labels (rg_heap rg ref)) announce withdraw"
    and cap: "\<not> unat maxInstanceLabels < Length desired"
  shows "\<exists>change m. UpdateLabels rg inst announce withdraw = Some ((of_nat (Length desired), None, change),
        (updateEntry rg ref (\<lambda>e. e\<lparr>en_labels := desired\<rparr>))\<lparr>rg_labelPools := m\<rparr>)
    \<and> rings_ok m \<and> no_empty m
    \<and> (\<forall>l. seats m l = {p \<in> seats (rg_labelPools rg) l. fst p \<noteq> inst}
         \<union> (if l \<in> Members desired then {(inst, ref)} else {}))
    \<and> (case change of None \<Rightarrow> rg_notify rg \<longrightarrow> Members desired \<subseteq> Members (en_labels (rg_heap rg ref))
       | Some c \<Rightarrow> rg_notify rg \<and> rc_ExecutorType c = en_executorType (rg_heap rg ref)
           \<and> set (rc_Labels c) = Members desired - Members (en_labels (rg_heap rg ref)))"
proof -
  let ?e = "rg_heap rg ref"
  have reg: "registered rg inst ref"
    using ref by (simp add: registered_def)
  have ok: "rings_ok (rg_labelPools rg)" "no_empty (rg_labelPools rg)" and held: "ts_inv (en_labels ?e)"
    using inv reg by (simp_all add: registry_inv_def)
  have lseat: "seats (rg_labelPools rg) l = {(i, ref). registered rg i ref \<and> l \<in> Members (en_labels (rg_heap rg ref))}" for l
    using inv by (simp add: registry_inv_def)
  have d: "ts_inv desired"
    unfolding desired by (rule desiredLabels_inv [OF held])
  have vals: "set (set_Values desired) = Members desired"
    "set (set_Values (Difference (en_labels ?e) desired)) = Members (en_labels ?e) - Members desired"
    "set (set_Values (Difference desired (en_labels ?e))) = Members desired - Members (en_labels ?e)"
    using d by (simp_all add: set_Values_members ts_inv_ops Members_ops)
  obtain l1 where l1: "detachLabels (rg_labelPools rg) inst (set_Values (Difference (en_labels ?e) desired)) = Some l1"
    "rings_ok l1" "no_empty l1"
    "\<forall>l. seats l1 l = (if l \<in> Members (en_labels ?e) - Members desired
       then {p \<in> seats (rg_labelPools rg) l. fst p \<noteq> inst} else seats (rg_labelPools rg) l)"
    using detachLabels_seats [OF ok(1), of inst "set_Values (Difference (en_labels ?e) desired)"] ok(2)
    unfolding vals by blast
  obtain l2 where l2: "attachLabels l1 inst ref (set_Values desired) = Some l2" "rings_ok l2" "no_empty l2"
    "\<forall>l. seats l2 l = (if l \<in> Members desired then {p \<in> seats l1 l. fst p \<noteq> inst} \<union> {(inst, ref)} else seats l1 l)"
    using attachLabels_seats [OF l1(2), of inst ref "set_Values desired"] l1(3) unfolding vals by blast
  have "seats l2 l = {p \<in> seats (rg_labelPools rg) l. fst p \<noteq> inst}
         \<union> (if l \<in> Members desired then {(inst, ref)} else {})" for l
  proof (cases "l \<in> Members (en_labels ?e) \<or> l \<in> Members desired")
    case True
    with l1(4) l2(4) show ?thesis by auto
  next
    case False
    then have "{p \<in> seats (rg_labelPools rg) l. fst p \<noteq> inst} = seats (rg_labelPools rg) l"
      using reg by (auto simp: lseat registered_def)
    with False l1(4) l2(4) show ?thesis by simp
  qed
  moreover have "UpdateLabels rg inst announce withdraw = Some ((of_nat (Length desired), None,
        if rg_notify rg \<and> set_Values (Difference desired (en_labels ?e)) \<noteq> []
        then Some \<lparr>rc_ExecutorType = en_executorType ?e, rc_Labels = set_Values (Difference desired (en_labels ?e))\<rparr>
        else None), (updateEntry rg ref (\<lambda>e. e\<lparr>en_labels := desired\<rparr>))\<lparr>rg_labelPools := l2\<rparr>)"
    using ne ref cap l1(1) l2(1)
    unfolding UpdateLabels_def desired desiredLabels_def by (simp add: Let_def)
  moreover have "set_Values (Difference desired (en_labels ?e)) = [] \<longleftrightarrow> Members desired \<subseteq> Members (en_labels ?e)"
    using vals(3) by (metis Diff_eq_empty_iff set_empty)
  ultimately show ?thesis
    using l2(2,3) vals(3) by (intro exI conjI) (assumption | auto)+
qed

lemma UpdateLabels_cases:
  assumes "registry_inv rg" and "UpdateLabels rg inst announce withdraw = Some ((count, er, change), rg')"
  obtains (refused) e where "er = Some e" "rg' = rg" "change = None"
  | (applied) ref desired where "map_of (rg_entries rg) inst = Some ref" "er = None"
      "desired = desiredLabels (en_labels (rg_heap rg ref)) announce withdraw"
      "\<not> unat maxInstanceLabels < Length desired" "\<not> ('''' \<in> set announce \<or> '''' \<in> set withdraw)"
proof (cases "'''' \<in> set announce \<or> '''' \<in> set withdraw")
  case True
  with assms(2) UpdateLabels_refused(1) [of announce withdraw rg inst]
  have "er = Some ErrEmptyLabel" "rg' = rg" "change = None" by auto
  then show ?thesis by (rule refused)
next
  case ne: False
  show ?thesis
  proof (cases "map_of (rg_entries rg) inst")
    case None
    with ne assms(2) UpdateLabels_refused(2) [of announce withdraw rg inst]
    have "er = Some ErrUnknownInstance" "rg' = rg" "change = None" by auto
    then show ?thesis by (rule refused)
  next
    case (Some ref)
    let ?d = "desiredLabels (en_labels (rg_heap rg ref)) announce withdraw"
    show ?thesis
    proof (cases "unat maxInstanceLabels < Length ?d")
      case True
      with ne Some assms(2) UpdateLabels_refused(3) [of announce withdraw rg inst ref]
      have "er = Some ErrLabelLimitExceeded" "rg' = rg" "change = None" by auto
      then show ?thesis by (rule refused)
    next
      case False
      with UpdateLabels_effect [OF assms(1) Some ne refl] assms(2) have "er = None" by auto
      with False ne Some applied show ?thesis by blast
    qed
  qed
qed

lemma UpdateLabels_inv:
  assumes inv: "registry_inv rg" and up: "UpdateLabels rg inst announce withdraw = Some ((count, er, change), rg')"
  shows "registry_inv rg'"
  using inv up
proof (cases rule: UpdateLabels_cases)
  case refused
  with inv show ?thesis by simp
next
  case (applied ref desired)
  let ?upd = "updateEntry rg ref (\<lambda>e. e\<lparr>en_labels := desired\<rparr>)"
  have reg: "registered rg inst ref"
    using applied(1) by (simp add: registered_def)
  obtain m where m: "rg' = ?upd\<lparr>rg_labelPools := m\<rparr>" "rings_ok m" "no_empty m"
    "\<And>l. seats m l = {p \<in> seats (rg_labelPools rg) l. fst p \<noteq> inst}
         \<union> (if l \<in> Members desired then {(inst, ref)} else {})"
    using UpdateLabels_effect [OF inv applied(1,5,3,4)] up by auto
  have held: "ts_inv (en_labels (rg_heap rg ref))" "'''' \<notin> Members (en_labels (rg_heap rg ref))"
    using inv reg by (simp_all add: registry_inv_def)
  have d: "ts_inv desired" "'''' \<notin> Members desired"
    using desiredLabels_inv [OF held(1)] held(2) applied(3,5) by auto
  have label: "seats (rg_labelPools rg) l = {(i, ref). registered rg i ref \<and> l \<in> Members (en_labels (rg_heap rg ref))}" for l
    using inv by (simp add: registry_inv_def)
  have heap: "rg_heap rg' r = (if r = ref then (rg_heap rg r)\<lparr>en_labels := desired\<rparr> else rg_heap rg r)" for r
    by (simp add: m(1) updateEntry_def)
  have rest: "rg_entries rg' = rg_entries rg" "rg_pools rg' = rg_pools rg" "rg_free rg' = rg_free rg"
    "rg_labelPools rg' = m" "\<And>i r. registered rg' i r = registered rg i r"
    by (simp_all add: m(1) updateEntry_def registered_def)
  have only: "i = inst" if "registered rg i ref" for i
    using registered_instance [OF inv that reg] .
  have seat: "seats m l = {(i, r). registered rg i r \<and> l \<in> Members (en_labels (rg_heap rg' r))}" for l
  proof -
    have "(i, r) \<in> seats m l \<longleftrightarrow> registered rg i r \<and> l \<in> Members (en_labels (rg_heap rg' r))" for i r
    proof (cases "i = inst")
      case True
      with reg have "registered rg i r \<longleftrightarrow> r = ref" by (auto simp: registered_def)
      with True show ?thesis unfolding m(4) heap by simp
    next
      case False
      with only have "registered rg i r \<longrightarrow> r \<noteq> ref" by blast
      with False show ?thesis unfolding m(4) heap label by auto
    qed
    then show ?thesis by auto
  qed
  have entries: "r < rg_free rg' \<and> en_instanceID (rg_heap rg' r) = i \<and> ts_inv (en_labels (rg_heap rg' r))
      \<and> '''' \<notin> Members (en_labels (rg_heap rg' r))" if "registered rg' i r" for i r
    using inv that d by (auto simp: rest heap registry_inv_def)
  have types: "en_executorType (rg_heap rg' r) = en_executorType (rg_heap rg r)"
    "en_inFlight (rg_heap rg' r) = en_inFlight (rg_heap rg r)" for r
    by (simp_all add: heap)
  have pools: "seats (rg_pools rg) et = {(i, r). registered rg' i r \<and> en_executorType (rg_heap rg' r) = et}" for et
    using inv by (simp add: registry_inv_def rest(5) types)
  have labels: "seats m l = {(i, r). registered rg' i r \<and> l \<in> Members (en_labels (rg_heap rg' r))}" for l
    unfolding seat rest(5) ..
  have "distinct (map fst (rg_entries rg))" "rings_ok (rg_pools rg)" "ts_inv (en_inFlight (rg_heap rg' r))" for r
    using inv by (simp_all add: registry_inv_def types)
  with entries pools labels m(2,3) show ?thesis
    unfolding registry_inv_def rest(1,2,4) by blast
qed

end
