(* ===== verification/Registry_Properties.thy ===== *)
theory Registry_Properties
  imports Registry_Inv
begin

text \<open>
  What the executor registry promises the engine: routing tables that never drift from the
  registrations, selection that is sound and complete, label updates that are all or nothing, and
  deregistration that a late message cannot abuse.
\<close>

section \<open>Selection\<close>

lemma match_update_inv:
  assumes "rings_ok m" and "map_of m k = Some ring"
  shows "rings_ok (AList.update k (snd (ring_NextMatch ring P)) m)"
    and "seats (AList.update k (snd (ring_NextMatch ring P)) m) l = seats m l"
    and "no_empty m \<Longrightarrow> no_empty (AList.update k (snd (ring_NextMatch ring P)) m)"
proof -
  have inv: "rb_inv ring"
    using assms by (simp add: rings_ok_def)
  show "rings_ok (AList.update k (snd (ring_NextMatch ring P)) m)"
    using assms(1) rb.match_inv [OF inv] by (rule rings_ok_update)
  show "seats (AList.update k (snd (ring_NextMatch ring P)) m) l = seats m l"
    unfolding seats_update using assms(2) rb.match_set [OF inv] by (simp add: seats_def)
  have "rb_turns (snd (ring_NextMatch ring P)) \<noteq> []" if "rb_turns ring \<noteq> []"
    using that rb.match_set [OF inv, of P] by (metis set_empty)
  then show "no_empty (AList.update k (snd (ring_NextMatch ring P)) m)" if "no_empty m"
    using that assms(2) by (intro no_empty_update) (auto simp: no_empty_def)
qed

lemma NextMatch_sound:
  assumes "rb_inv ring"
  shows "fst (ring_NextMatch ring P) = None \<longleftrightarrow> (\<forall>p \<in> set (rb_turns ring). \<not> P (snd p))"
    and "fst (ring_NextMatch ring P) = Some ref \<Longrightarrow> P ref \<and> (\<exists>i. (i, ref) \<in> set (rb_turns ring))"
  using assms by (auto elim!: rb.match_cases [of ring P])

definition eligible :: "registry \<Rightarrow> executorType \<Rightarrow> functionSpec \<Rightarrow> entryRef \<Rightarrow> bool" where
  "eligible rg et f ref \<longleftrightarrow> Alive (rg_heap rg ref) \<and> en_executorType (rg_heap rg ref) = et
     \<and> Supports (rg_heap rg ref) f \<and> HasCapacity (rg_heap rg ref)"

lemma Select_frame:
  assumes "registry_inv rg"
  shows "registry_inv (snd (Select rg et f))" "rg_heap (snd (Select rg et f)) = rg_heap rg"
    "rg_entries (snd (Select rg et f)) = rg_entries rg" "rg_generation (snd (Select rg et f)) = rg_generation rg"
    "rg_free (snd (Select rg et f)) = rg_free rg"
proof -
  show "registry_inv (snd (Select rg et f))"
  proof (cases "map_of (rg_pools rg) et")
    case None
    with assms show ?thesis by (simp add: Select_def)
  next
    case (Some pool)
    let ?m = "AList.update et (snd (ring_NextMatch pool (\<lambda>ref. let c = rg_heap rg ref in
                Alive c \<and> Supports c f \<and> HasCapacity c))) (rg_pools rg)"
    have eq: "snd (Select rg et f) = rg\<lparr>rg_pools := ?m\<rparr>"
      using Some by (simp add: Select_def split: prod.splits)
    have ok: "rings_ok (rg_pools rg)"
      using assms by (simp add: registry_inv_def)
    show ?thesis
      using assms match_update_inv(1,2) [OF ok Some]
      unfolding eq registry_inv_def registered_def by simp
  qed
qed (simp_all add: Select_def split: option.splits prod.splits)

lemma SelectLabeled_frame:
  assumes "registry_inv rg"
  shows "registry_inv (snd (SelectLabeled rg et f l))" "rg_heap (snd (SelectLabeled rg et f l)) = rg_heap rg"
    "rg_entries (snd (SelectLabeled rg et f l)) = rg_entries rg"
    "rg_generation (snd (SelectLabeled rg et f l)) = rg_generation rg"
    "rg_free (snd (SelectLabeled rg et f l)) = rg_free rg"
proof -
  show "registry_inv (snd (SelectLabeled rg et f l))"
  proof (cases "map_of (rg_labelPools rg) l")
    case None
    with assms show ?thesis by (simp add: SelectLabeled_def)
  next
    case (Some ring)
    let ?m = "AList.update l (snd (ring_NextMatch ring (\<lambda>ref. let c = rg_heap rg ref in
                Alive c \<and> en_executorType c = et \<and> Supports c f \<and> HasCapacity c))) (rg_labelPools rg)"
    have eq: "snd (SelectLabeled rg et f l) = rg\<lparr>rg_labelPools := ?m\<rparr>"
      using Some by (simp add: SelectLabeled_def split: prod.splits)
    have ok: "rings_ok (rg_labelPools rg)"
      using assms by (simp add: registry_inv_def)
    show ?thesis
      using assms match_update_inv [OF ok Some]
      unfolding eq registry_inv_def registered_def by simp
  qed
qed (simp_all add: SelectLabeled_def split: option.splits prod.splits)

lemma registered_seat:
  assumes "registry_inv rg" and "registered rg i ref"
  shows "en_instanceID (rg_heap rg ref) = i" "set (entryLabels (rg_heap rg ref)) = Members (en_labels (rg_heap rg ref))"
  using assms by (simp_all add: registry_inv_def entryLabels_def set_Values_members)

lemma rg_Get_registered: "rg_Get rg i = Some ref \<longleftrightarrow> registered rg i ref"
  by (simp add: rg_Get_def registered_def)

lemma Select_choice:
  assumes "registry_inv rg"
  shows "case fst (Select rg et f) of
        None \<Rightarrow> \<forall>i ref. rg_Get rg i = Some ref \<longrightarrow> \<not> eligible rg et f ref
      | Some ref \<Rightarrow> eligible rg et f ref \<and> rg_Get rg (en_instanceID (rg_heap rg ref)) = Some ref"
proof -
  have pool: "seats (rg_pools rg) k = {(i, ref). registered rg i ref \<and> en_executorType (rg_heap rg ref) = k}" for k
    using assms by (simp add: registry_inv_def)
  note reg = registered_seat [OF assms] and get = rg_Get_registered [of rg]
  show ?thesis
  proof (cases "map_of (rg_pools rg) et")
    case None
    then have "seats (rg_pools rg) et = {}" by (simp add: seats_def)
    with None pool [of et] show ?thesis by (auto simp: Select_def get eligible_def)
  next
    case (Some ring)
    define P where "P = (\<lambda>ref. let c = rg_heap rg ref in Alive c \<and> Supports c f \<and> HasCapacity c)"
    have sel: "fst (Select rg et f) = fst (ring_NextMatch ring P)"
      using Some by (simp add: Select_def P_def split: prod.splits)
    have inv: "rb_inv ring" and turns: "set (rb_turns ring) = seats (rg_pools rg) et"
      using Some assms by (auto simp: registry_inv_def rings_ok_def seats_def)
    have elig: "eligible rg et f ref \<longleftrightarrow> en_executorType (rg_heap rg ref) = et \<and> P ref" for ref
      by (auto simp: eligible_def P_def Let_def)
    show ?thesis
      unfolding sel get
      using NextMatch_sound [OF inv, of P] reg(1)
      by (fastforce simp: turns pool elig split: option.splits)
  qed
qed

lemma SelectLabeled_choice:
  assumes "registry_inv rg"
  shows "case fst (SelectLabeled rg et f l) of
        None \<Rightarrow> \<forall>i ref. rg_Get rg i = Some ref \<longrightarrow> l \<in> set (entryLabels (rg_heap rg ref)) \<longrightarrow> \<not> eligible rg et f ref
      | Some ref \<Rightarrow> eligible rg et f ref \<and> rg_Get rg (en_instanceID (rg_heap rg ref)) = Some ref
          \<and> l \<in> set (entryLabels (rg_heap rg ref))"
proof -
  have label: "seats (rg_labelPools rg) l = {(i, ref). registered rg i ref \<and> l \<in> Members (en_labels (rg_heap rg ref))}" for l
    using assms by (simp add: registry_inv_def)
  note reg = registered_seat [OF assms] and get = rg_Get_registered [of rg]
  show ?thesis
  proof (cases "map_of (rg_labelPools rg) l")
    case None
    then have "seats (rg_labelPools rg) l = {}" by (simp add: seats_def)
    with None label [of l] reg show ?thesis by (auto simp: SelectLabeled_def get eligible_def)
  next
    case (Some ring)
    define P where "P = (\<lambda>ref. let c = rg_heap rg ref in
      Alive c \<and> en_executorType c = et \<and> Supports c f \<and> HasCapacity c)"
    have sel: "fst (SelectLabeled rg et f l) = fst (ring_NextMatch ring P)"
      using Some by (simp add: SelectLabeled_def P_def split: prod.splits)
    have inv: "rb_inv ring" and turns: "set (rb_turns ring) = seats (rg_labelPools rg) l"
      using Some assms by (auto simp: registry_inv_def rings_ok_def seats_def)
    have elig: "eligible rg et f = P"
      by (simp add: fun_eq_iff eligible_def P_def Let_def)
    show ?thesis
      unfolding sel get elig
      using NextMatch_sound [OF inv, of P] reg
      by (fastforce simp: turns label split: option.splits)
  qed
qed

text \<open>
  C21. Selection is sound and complete. \<open>Select\<close> and \<open>SelectLabeled\<close> return a registered executor
  that is alive, of the required type, supports the function, has capacity and, for the second,
  announces the label; when they find none, no registered executor qualifies. Neither changes any
  registration.
\<close>

theorem selection_sound_complete:
  assumes "registry_inv rg"
  shows "(case fst (Select rg et f) of
        None \<Rightarrow> \<forall>i ref. rg_Get rg i = Some ref \<longrightarrow> \<not> eligible rg et f ref
      | Some ref \<Rightarrow> eligible rg et f ref \<and> rg_Get rg (en_instanceID (rg_heap rg ref)) = Some ref)
    \<and> (case fst (SelectLabeled rg et f l) of
        None \<Rightarrow> \<forall>i ref. rg_Get rg i = Some ref \<longrightarrow> l \<in> set (entryLabels (rg_heap rg ref)) \<longrightarrow> \<not> eligible rg et f ref
      | Some ref \<Rightarrow> eligible rg et f ref \<and> rg_Get rg (en_instanceID (rg_heap rg ref)) = Some ref
          \<and> l \<in> set (entryLabels (rg_heap rg ref)))
    \<and> rg_heap (snd (Select rg et f)) = rg_heap rg \<and> rg_entries (snd (Select rg et f)) = rg_entries rg
    \<and> rg_heap (snd (SelectLabeled rg et f l)) = rg_heap rg
    \<and> rg_entries (snd (SelectLabeled rg et f l)) = rg_entries rg"
  using Select_choice [OF assms, of et f] SelectLabeled_choice [OF assms, of l et f] Select_frame [OF assms] SelectLabeled_frame [OF assms]
  by (intro conjI)

definition demo_registry :: registry where
  "demo_registry = snd (the (Register NewExecutorRegistry ''i1'' ''worker'' 1
     [\<lparr>f_Name = ''run'', f_Version = '''', f_InputSignature = '''', f_OutputSignature = ''''\<rparr>] [''eu''] 7))"

lemma demo_registry_inv: "registry_inv demo_registry"
proof -
  obtain r rg where "Register NewExecutorRegistry ''i1'' ''worker'' 1
     [\<lparr>f_Name = ''run'', f_Version = '''', f_InputSignature = '''', f_OutputSignature = ''''\<rparr>] [''eu''] 7 = Some (r, rg)"
    using Register_effect [OF registry_inv_New] by blast
  with Register_inv [OF registry_inv_New this] show ?thesis by (simp add: demo_registry_def)
qed

lemma demo_registry_entry: "rg_Get demo_registry ''i1'' = Some 0" "en_generation (rg_heap demo_registry 0) = 1"
proof -
  obtain rg where rg: "demo_registry = rg" "rg_entries rg = [(''i1'', 0)]" "en_generation (rg_heap rg 0) = 1"
    using Register_effect [OF registry_inv_New, of "''i1''" "''worker''" 1
      "[\<lparr>f_Name = ''run'', f_Version = '''', f_InputSignature = '''', f_OutputSignature = ''''\<rparr>]" "[''eu'']" 7]
    by (auto simp: demo_registry_def NewExecutorRegistry_def)
  then show "rg_Get demo_registry ''i1'' = Some 0" "en_generation (rg_heap demo_registry 0) = 1"
    by (simp_all add: rg_Get_def)
qed

theorem selection_sound_complete_witness:
  "rg_heap (snd (Select demo_registry ''worker'' \<lparr>f_Name = ''run'', f_Version = '''', f_InputSignature = '''',
     f_OutputSignature = ''''\<rparr>)) = rg_heap demo_registry"
  using selection_sound_complete [OF demo_registry_inv] by blast

section \<open>Runs\<close>

text \<open>The calls that change the registry or its entries, in any order.\<close>

datatype registry_op =
    OpRegister instanceID executorType u32 "functionSpec list" "label list" senderID
  | OpDeregister instanceID u64
  | OpSelect executorType functionSpec
  | OpSelectLabeled executorType functionSpec label
  | OpUpdateLabels instanceID "label list" "label list"
  | OpSetNotify bool
  | OpMarkClosed entryRef
  | OpAddInFlight entryRef attemptID
  | OpReleaseInFlight entryRef attemptID
  | OpHeartbeat entryRef time
  | OpCloseAll

fun registry_step :: "registry_op \<Rightarrow> registry \<Rightarrow> registry option" where
  "registry_step (OpRegister i et c fs ls s) rg = map_option snd (Register rg i et c fs ls s)"
| "registry_step (OpDeregister i g) rg = map_option snd (Deregister rg i g)"
| "registry_step (OpSelect et f) rg = Some (snd (Select rg et f))"
| "registry_step (OpSelectLabeled et f l) rg = Some (snd (SelectLabeled rg et f l))"
| "registry_step (OpUpdateLabels i a w) rg = map_option snd (UpdateLabels rg i a w)"
| "registry_step (OpSetNotify b) rg = Some (SetNotify rg b)"
| "registry_step (OpMarkClosed ref) rg = Some (MarkClosed rg ref)"
| "registry_step (OpAddInFlight ref a) rg = Some (AddInFlight rg ref a)"
| "registry_step (OpReleaseInFlight ref a) rg = Some (ReleaseInFlight rg ref a)"
| "registry_step (OpHeartbeat ref t) rg = Some (Heartbeat rg ref t)"
| "registry_step OpCloseAll rg = Some (snd (CloseAll rg))"

fun registry_run :: "registry_op list \<Rightarrow> registry \<Rightarrow> registry option" where
  "registry_run [] rg = Some rg"
| "registry_run (c # cs) rg = Option.bind (registry_step c rg) (registry_run cs)"

lemma UpdateLabels_no_panic:
  assumes "registry_inv rg"
  shows "UpdateLabels rg i a w \<noteq> None"
proof (cases "map_of (rg_entries rg) i")
  case None
  then show ?thesis by (simp add: UpdateLabels_def)
next
  case (Some ref)
  then show ?thesis
    using UpdateLabels_refused(1) [of a w rg i] UpdateLabels_refused(3) [of a w rg i ref]
      UpdateLabels_effect [OF assms Some _ HOL.refl, of a w]
    by (cases "'''' \<in> set a \<or> '''' \<in> set w";
        cases "unat maxInstanceLabels < Length (desiredLabels (en_labels (rg_heap rg ref)) a w)") auto
qed

lemma Deregister_no_panic: "registry_inv rg \<Longrightarrow> Deregister rg i g \<noteq> None"
  using Deregister_effect [of rg i _ g] Deregister_stale [of rg i g]
  by (cases "\<exists>ref. registered rg i ref \<and> en_generation (rg_heap rg ref) = g") (blast, simp)

lemma registry_step_inv:
  assumes "registry_inv rg"
  shows "\<exists>rg'. registry_step c rg = Some rg' \<and> registry_inv rg'"
proof (cases c)
  case (OpRegister i et cap fs ls s)
  obtain r rg' where "Register rg i et cap fs ls s = Some (r, rg')"
    using Register_effect [OF assms] by blast
  with Register_inv [OF assms this] OpRegister show ?thesis by simp
next
  case (OpDeregister i g)
  obtain r rg' where "Deregister rg i g = Some (r, rg')"
    using Deregister_no_panic [OF assms, of i g] by fastforce
  with Deregister_inv [OF assms this] OpDeregister show ?thesis by simp
next
  case (OpUpdateLabels i a w)
  obtain n e ch rg' where "UpdateLabels rg i a w = Some ((n, e, ch), rg')"
    using UpdateLabels_no_panic [OF assms, of i a w] by (metis option.exhaust prod.exhaust)
  with UpdateLabels_inv [OF assms this] OpUpdateLabels show ?thesis by simp
qed (use assms in \<open>simp_all add: Select_frame SelectLabeled_frame entry_ops_inv CloseAll_inv\<close>)

lemma registry_run_inv: "registry_inv rg \<Longrightarrow> \<exists>rg'. registry_run cs rg = Some rg' \<and> registry_inv rg'"
proof (induction cs arbitrary: rg)
  case (Cons c cs)
  then show ?case using registry_step_inv [of rg c] by auto
qed simp

definition ringKeys :: "('l, executorRing) alist \<Rightarrow> 'l \<Rightarrow> instanceID list" where
  "ringKeys m k = (case map_of m k of None \<Rightarrow> [] | Some ring \<Rightarrow> ring_Keys ring)"

lemma ringKeys_seats: "rings_ok m \<Longrightarrow> set (ringKeys m k) = fst ` seats m k"
  by (cases "map_of m k") (simp_all add: ringKeys_def seats_def rings_ok_def ring_Keys_turns del: map_of_eq_Some_iff)

text \<open>
  C22. Whatever calls a registry has seen, none of them panics and its routing tables agree with
  its registrations: the ring of a type holds exactly the instances registered under that type,
  the ring of a label exactly those that announce it, a label ring exists only while it is not
  empty, and no instance announces the empty label.
\<close>

theorem routing_tables_agree:
  "\<exists>rg. registry_run cs NewExecutorRegistry = Some rg
    \<and> (\<forall>i et. i \<in> set (ringKeys (rg_pools rg) et)
         \<longleftrightarrow> (\<exists>ref. rg_Get rg i = Some ref \<and> en_executorType (rg_heap rg ref) = et))
    \<and> (\<forall>i l. i \<in> set (ringKeys (rg_labelPools rg) l)
         \<longleftrightarrow> (\<exists>ref. rg_Get rg i = Some ref \<and> l \<in> set (entryLabels (rg_heap rg ref))))
    \<and> (\<forall>l. map_of (rg_labelPools rg) l \<noteq> None \<longleftrightarrow> ringKeys (rg_labelPools rg) l \<noteq> [])
    \<and> ringKeys (rg_labelPools rg) '''' = []"
proof -
  obtain rg where run: "registry_run cs NewExecutorRegistry = Some rg" and inv: "registry_inv rg"
    using registry_run_inv registry_inv_New by blast
  have ok: "rings_ok (rg_pools rg)" "rings_ok (rg_labelPools rg)" "no_empty (rg_labelPools rg)"
    using inv by (simp_all add: registry_inv_def)
  have labels: "set (entryLabels (rg_heap rg ref)) = Members (en_labels (rg_heap rg ref))"
    "'''' \<notin> Members (en_labels (rg_heap rg ref))" if "rg_Get rg i = Some ref" for i ref
    using inv that by (simp_all add: registry_inv_def registered_def rg_Get_def entryLabels_def set_Values_members)
  have pools: "fst ` seats (rg_pools rg) et = {i. \<exists>ref. rg_Get rg i = Some ref \<and> en_executorType (rg_heap rg ref) = et}" for et
  proof -
    have "seats (rg_pools rg) et = {(i, ref). registered rg i ref \<and> en_executorType (rg_heap rg ref) = et}"
      using inv by (simp add: registry_inv_def)
    then show ?thesis by (auto simp: registered_def rg_Get_def image_iff)
  qed
  have rings: "fst ` seats (rg_labelPools rg) l = {i. \<exists>ref. rg_Get rg i = Some ref \<and> l \<in> Members (en_labels (rg_heap rg ref))}" for l
  proof -
    have "seats (rg_labelPools rg) l = {(i, ref). registered rg i ref \<and> l \<in> Members (en_labels (rg_heap rg ref))}"
      using inv by (simp add: registry_inv_def)
    then show ?thesis by (auto simp: registered_def rg_Get_def image_iff)
  qed
  have "map_of (rg_labelPools rg) l \<noteq> None \<longleftrightarrow> ringKeys (rg_labelPools rg) l \<noteq> []" for l
  proof (cases "map_of (rg_labelPools rg) l")
    case (Some ring)
    then have "rb_inv ring" "rb_turns ring \<noteq> []"
      using ok(2,3) unfolding rings_ok_def no_empty_def by blast+
    with Some show ?thesis by (simp add: ringKeys_def ring_Keys_turns)
  qed (simp add: ringKeys_def)
  moreover have "set (ringKeys (rg_labelPools rg) '''') = {}"
    using labels unfolding ringKeys_seats [OF ok(2)] rings by blast
  moreover have "i \<in> set (ringKeys (rg_pools rg) et)
      \<longleftrightarrow> (\<exists>ref. rg_Get rg i = Some ref \<and> en_executorType (rg_heap rg ref) = et)" for i et
    unfolding ringKeys_seats [OF ok(1)] pools by simp
  moreover have "i \<in> set (ringKeys (rg_labelPools rg) l)
      \<longleftrightarrow> (\<exists>ref. rg_Get rg i = Some ref \<and> l \<in> set (entryLabels (rg_heap rg ref)))" for i l
    unfolding ringKeys_seats [OF ok(2)] rings using labels(1) by auto
  ultimately show ?thesis
    using run by simp
qed

section \<open>Replacement and departure\<close>

text \<open>
  A registration replaces the one before it at once and for good: the instance now resolves
  to the new entry, which is alive and carries a fresh generation; the displaced entry is retired
  and no ring holds it any more; and a deregistration removes the instance exactly when it states
  the generation that is registered, so a late one is refused without effect.
\<close>

theorem registration_replaces:
  assumes "registry_inv rg"
    and "Register rg inst et capacity functions labels sender = Some ((ref, replaced, change), rg')"
  shows "rg_Get rg' inst = Some ref \<and> replaced = rg_Get rg inst \<and> Alive (rg_heap rg' ref)
    \<and> en_generation (rg_heap rg' ref) = rg_generation rg + 1
    \<and> set (entryLabels (rg_heap rg' ref)) = set labels - {''''}
    \<and> (\<forall>old. replaced = Some old \<longrightarrow> \<not> Alive (rg_heap rg' old)
         \<and> (\<forall>k. (\<forall>i. (i, old) \<notin> seats (rg_pools rg') k) \<and> (\<forall>i. (i, old) \<notin> seats (rg_labelPools rg') k)))
    \<and> (\<forall>i. i \<noteq> inst \<longrightarrow> rg_Get rg' i = rg_Get rg i)
    \<and> (\<forall>g. if g = en_generation (rg_heap rg' ref)
         then \<exists>rg''. Deregister rg' inst g = Some (True, rg'') \<and> rg_Get rg'' inst = None
         else Deregister rg' inst g = Some (False, rg'))"
proof -
  have h: "ref = rg_free rg" "replaced = map_of (rg_entries rg) inst"
    "rg_entries rg' = AList.update inst ref (rg_entries rg)"
    "rg_heap rg' ref = newEntry rg inst et capacity functions labels sender"
    "\<And>r. r \<noteq> ref \<Longrightarrow> rg_heap rg' r =
       (if registered rg inst r then (rg_heap rg r)\<lparr>en_closed := True\<rparr> else rg_heap rg r)"
    using Register_effect [OF assms(1), of inst et capacity "functions" labels sender] assms(2) by auto
  have inv': "registry_inv rg'"
    using assms by (rule Register_inv)
  have old_ne: "old \<noteq> ref" if "registered rg i old" for i old
    using assms(1) that by (auto simp: registry_inv_def h(1))
  have reg': "registered rg' i r \<longleftrightarrow> (if i = inst then r = ref else registered rg i r)" for i r
    by (auto simp: registered_def h(3) AList.update_conv')
  have gone: "\<not> registered rg' i old" if "registered rg inst old" for i old
    using old_ne [OF that] registered_instance [OF assms(1) that] by (auto simp: reg')
  have "(i, old) \<notin> seats (rg_pools rg') k \<and> (i, old) \<notin> seats (rg_labelPools rg') k"
    if "registered rg inst old" for i old k
    using inv' gone [OF that] by (simp add: registry_inv_def)
  then have seats: "\<forall>old. replaced = Some old \<longrightarrow> \<not> Alive (rg_heap rg' old)
         \<and> (\<forall>k. (\<forall>i. (i, old) \<notin> seats (rg_pools rg') k) \<and> (\<forall>i. (i, old) \<notin> seats (rg_labelPools rg') k))"
    using h(2,5) old_ne by (simp add: Alive_def registered_def)
  have reg: "registered rg' inst ref" by (simp add: reg')
  have "\<exists>rg''. Deregister rg' inst g = Some (True, rg'') \<and> rg_Get rg'' inst = None"
    if "g = en_generation (rg_heap rg' ref)" for g
    using Deregister_effect [OF inv' reg that [symmetric]] by (auto simp: rg_Get_def AList.delete_conv')
  moreover have "Deregister rg' inst g = Some (False, rg')" if "g \<noteq> en_generation (rg_heap rg' ref)" for g
    using that by (intro Deregister_stale) (auto simp: reg')
  ultimately show ?thesis
    using seats h(2-4) ts_inv_ops
    by (simp add: rg_Get_def AList.update_conv' Alive_def entryLabels_def set_Values_members labelSetOf_inv)
qed

theorem registration_replaces_witness:
  "Deregister demo_registry ''i1'' 2 = Some (False, demo_registry)"
proof -
  obtain ref old ch rg' where r: "Register NewExecutorRegistry ''i1'' ''worker'' 1
     [\<lparr>f_Name = ''run'', f_Version = '''', f_InputSignature = '''', f_OutputSignature = ''''\<rparr>] [''eu''] 7
      = Some ((ref, old, ch), rg')"
    using Register_effect [OF registry_inv_New] by blast
  then have "rg' = demo_registry" by (simp add: demo_registry_def)
  moreover have "ref = 0"
    using r Register_effect [OF registry_inv_New, of "''i1''" "''worker''" 1
      "[\<lparr>f_Name = ''run'', f_Version = '''', f_InputSignature = '''', f_OutputSignature = ''''\<rparr>]" "[''eu'']" 7]
    by (auto simp: NewExecutorRegistry_def)
  moreover have "if g = en_generation (rg_heap rg' ref)
      then \<exists>rg''. Deregister rg' ''i1'' g = Some (True, rg'') \<and> rg_Get rg'' ''i1'' = None
      else Deregister rg' ''i1'' g = Some (False, rg')" for g
    using registration_replaces [OF registry_inv_New r] by blast
  from this [of 2] calculation show ?thesis
    using demo_registry_entry(2) by simp
qed

section \<open>Label updates\<close>

text \<open>
  A label update is all or nothing. An update with an empty label, for an unknown instance,
  or past the cap is refused with its own error and changes nothing; any other one leaves the
  instance with its old labels and the announced ones less the withdrawn ones, whatever is both
  announced and withdrawn counting as withdrawn, reports their number, and tells the notify hook
  exactly of the labels that are new.
\<close>

theorem label_update_atomic:
  assumes "registry_inv rg" and "UpdateLabels rg inst announce withdraw = Some ((count, er, change), rg')"
  shows "case er of
      Some e \<Rightarrow> rg' = rg \<and> change = None
        \<and> (e = ErrEmptyLabel \<longleftrightarrow> '''' \<in> set announce \<or> '''' \<in> set withdraw)
        \<and> (e = ErrUnknownInstance \<longrightarrow> rg_Get rg inst = None)
        \<and> (e = ErrLabelLimitExceeded \<longrightarrow> (\<exists>ref. rg_Get rg inst = Some ref
             \<and> 64 < card ((set (entryLabels (rg_heap rg ref)) \<union> set announce) - set withdraw)
             \<and> count = of_nat (length (entryLabels (rg_heap rg ref)))))
    | None \<Rightarrow> \<exists>ref. rg_Get rg inst = Some ref \<and> rg_Get rg' inst = Some ref
        \<and> set (entryLabels (rg_heap rg' ref)) = (set (entryLabels (rg_heap rg ref)) \<union> set announce) - set withdraw
        \<and> unat count = card (set (entryLabels (rg_heap rg' ref))) \<and> unat count \<le> 64
        \<and> (rg_notify rg \<longrightarrow> (case change of None \<Rightarrow> {} | Some c \<Rightarrow> set (rc_Labels c))
             = set (entryLabels (rg_heap rg' ref)) - set (entryLabels (rg_heap rg ref)))"
proof -
  have cap: "unat maxInstanceLabels = 64"
    by (simp add: maxInstanceLabels_def DefaultMaxLabels_def)
  show ?thesis
  proof (cases "'''' \<in> set announce \<or> '''' \<in> set withdraw")
    case True
    with assms(2) UpdateLabels_refused(1) [OF True, of rg inst] show ?thesis by auto
  next
    case ne: False
    show ?thesis
    proof (cases "map_of (rg_entries rg) inst")
      case None
      with ne assms(2) UpdateLabels_refused(2) [of announce withdraw rg inst] show ?thesis
        by (auto simp: rg_Get_def)
    next
      case (Some ref)
      let ?d = "desiredLabels (en_labels (rg_heap rg ref)) announce withdraw"
      have held: "ts_inv (en_labels (rg_heap rg ref))"
        using assms(1) Some by (simp add: registry_inv_def registered_def)
      have vals: "set (entryLabels (rg_heap rg ref)) = Members (en_labels (rg_heap rg ref))"
        "length (entryLabels (rg_heap rg ref)) = Length (en_labels (rg_heap rg ref))"
        using held by (simp_all add: entryLabels_def set_Values_members) (simp add: set_Values_def Length_def)
      have d: "ts_inv ?d" "Members ?d = (Members (en_labels (rg_heap rg ref)) \<union> set announce) - set withdraw"
        using desiredLabels_inv [OF held] by simp_all
      show ?thesis
      proof (cases "unat maxInstanceLabels < Length ?d")
        case True
        with assms(2) ne Some UpdateLabels_refused(3) [of announce withdraw rg inst ref] d show ?thesis
          by (auto simp: rg_Get_def vals cap Length_card)
      next
        case False
        then have len: "Length ?d \<le> 64" by (simp add: cap)
        obtain m where m: "er = None" "count = of_nat (Length ?d)"
          "rg' = updateEntry rg ref (\<lambda>e. e\<lparr>en_labels := ?d\<rparr>)\<lparr>rg_labelPools := m\<rparr>"
          "case change of None \<Rightarrow> rg_notify rg \<longrightarrow> Members ?d \<subseteq> Members (en_labels (rg_heap rg ref))
           | Some c \<Rightarrow> rg_notify rg \<and> rc_ExecutorType c = en_executorType (rg_heap rg ref)
               \<and> set (rc_Labels c) = Members ?d - Members (en_labels (rg_heap rg ref))"
          using UpdateLabels_effect [OF assms(1) Some ne HOL.refl False] assms(2) by auto
        have after: "set (entryLabels (rg_heap rg' ref)) = Members ?d" "rg_Get rg' inst = Some ref"
          using Some d(1) by (simp_all add: m(3) updateEntry_def entryLabels_def set_Values_members rg_Get_def)
        have "unat count = Length ?d"
          unfolding m(2) using len by (simp add: unsigned_of_nat take_bit_nat_eq_self)
        then have "unat count = card (Members ?d)" "unat count \<le> 64"
          using len d(1) by (simp_all add: Length_card)
        then show ?thesis
          using m(1,4) Some after(2) by (auto simp: after vals d(2) rg_Get_def split: option.splits)
      qed
    qed
  qed
qed

theorem label_update_atomic_witness:
  "\<exists>n e ch rg'. UpdateLabels demo_registry ''i1'' [''us''] [''eu''] = Some ((n, e, ch), rg')
     \<and> (e = None \<longrightarrow> unat n \<le> 64)"
proof -
  obtain n e ch rg' where u: "UpdateLabels demo_registry ''i1'' [''us''] [''eu''] = Some ((n, e, ch), rg')"
    using UpdateLabels_no_panic [OF demo_registry_inv, of "''i1''" "[''us'']" "[''eu'']"]
    by (metis option.exhaust prod.exhaust)
  from label_update_atomic [OF demo_registry_inv u] have "e = None \<longrightarrow> unat n \<le> 64"
    by (auto split: option.splits)
  with u show ?thesis by blast
qed

end
