(* ===== verification/Engine_Inv.thy ===== *)
theory Engine_Inv
  imports Engine_Jobs Store_Machine Registry_Properties
begin

text \<open>
  The engine over its two components. The locale \<open>repo_call\<close> is what the engine relies on in a
  repository call: from a consistent store with room for the identifiers it issues, the call
  returns, and it leaves the store some steps of \<open>store_step\<close> further. Every call the engine makes
  is an interpretation of it. \<open>returns\<close> carries that contract through the engine's operations:
  no operation panics, every one of them is a run of the store, and the registry keeps its
  invariant.
\<close>

section \<open>Repository calls\<close>

text \<open>Room for \<open>k\<close> more identifiers of each kind.\<close>

definition room :: "nat \<Rightarrow> memstore \<Rightarrow> bool" where
  "room k s \<longleftrightarrow> unat (ms_nextExecutionID s) + k < 2 ^ 64 \<and> unat (ms_nextAttemptID s) + k < 2 ^ 64"

lemma room_mono: "room k s \<Longrightarrow> j \<le> k \<Longrightarrow> room j s"
  by (simp add: room_def)

lemma room_next: "room (Suc k) s \<Longrightarrow> ms_nextExecutionID s + 1 \<noteq> 0 \<and> ms_nextAttemptID s + 1 \<noteq> 0"
  by (auto simp: room_def eq_neg_iff_add_eq_0 [symmetric] unsigned_minus_1_eq_mask mask_eq_exp_minus_1)

locale repo_call =
  fixes cost :: nat and f :: "'a call"
  assumes reaches: "store_inv s \<Longrightarrow> room (k + cost) s
    \<Longrightarrow> \<exists>r s' n. f s = Some (r, s') \<and> store_run n s s' \<and> room k s'
      \<and> length (ms_jobs s') \<le> length (ms_jobs s)"

definition engine_ok :: "nat \<Rightarrow> engine \<Rightarrow> bool" where
  "engine_ok k e \<longleftrightarrow> store_inv (e_mem e) \<and> registry_inv (e_reg e) \<and> room k (e_mem e)"

text \<open>
  What any operation may do to the engine beside its outcome, and what all but an upsert keep to:
  no job is added.
\<close>

definition advances :: "engine \<Rightarrow> engine \<Rightarrow> bool" where
  "advances e e' \<longleftrightarrow> (\<exists>n. store_run n (e_mem e) (e_mem e')) \<and> e_cfg e' = e_cfg e
     \<and> (\<exists>ms. e_outbox e' = e_outbox e @ ms)"

definition evolves :: "engine \<Rightarrow> engine \<Rightarrow> bool" where
  "evolves e e' \<longleftrightarrow> advances e e' \<and> length (ms_jobs (e_mem e')) \<le> length (ms_jobs (e_mem e))"

lemma advances_trans: "advances e e' \<Longrightarrow> advances e' e'' \<Longrightarrow> advances e e''"
  unfolding advances_def by (metis append.assoc store_run_trans)

lemma evolves_trans: "evolves e e' \<Longrightarrow> evolves e' e'' \<Longrightarrow> evolves e e''"
  unfolding evolves_def by (meson advances_trans order_trans)

lemma evolves_cfg: "evolves e e' \<Longrightarrow> e_cfg e' = e_cfg e"
  by (simp add: evolves_def advances_def)

lemma evolves_jobs: "evolves e e' \<Longrightarrow> length (ms_jobs (e_mem e')) \<le> length (ms_jobs (e_mem e))"
  by (simp add: evolves_def)

text \<open>
  \<open>returnsBy \<pi> c e res\<close>: from \<open>e\<close>, with room for \<open>c\<close> more identifiers, \<open>res\<close> is a result whose
  engine, read by \<open>\<pi>\<close>, is as consistent as \<open>e\<close> was.
\<close>

definition returnsBy :: "('r \<Rightarrow> engine) \<Rightarrow> nat \<Rightarrow> engine \<Rightarrow> 'r option \<Rightarrow> bool" where
  "returnsBy \<pi> c e res \<longleftrightarrow> (\<forall>k. engine_ok (k + c) e \<longrightarrow>
     (\<exists>v. res = Some v \<and> engine_ok k (\<pi> v) \<and> evolves e (\<pi> v)))"

abbreviation returns :: "nat \<Rightarrow> engine \<Rightarrow> ('a \<times> engine) option \<Rightarrow> bool" where
  "returns \<equiv> returnsBy snd"

abbreviation returns_unit :: "nat \<Rightarrow> engine \<Rightarrow> engine option \<Rightarrow> bool" where
  "returns_unit \<equiv> returnsBy (\<lambda>e. e)"

text \<open>Steps that leave the store alone and keep the registry consistent.\<close>

definition same_core :: "engine \<Rightarrow> engine \<Rightarrow> bool" where
  "same_core e e' \<longleftrightarrow> e_mem e' = e_mem e \<and> e_cfg e' = e_cfg e
     \<and> (registry_inv (e_reg e) \<longrightarrow> registry_inv (e_reg e')) \<and> (\<exists>ms. e_outbox e' = e_outbox e @ ms)"

lemma same_core_refl [simp]: "same_core e e"
  by (simp add: same_core_def)

lemma same_core_trans: "same_core e e' \<Longrightarrow> same_core e' e'' \<Longrightarrow> same_core e e''"
  unfolding same_core_def by (metis append.assoc)

lemma same_core_ok: "same_core e e' \<Longrightarrow> engine_ok k e \<Longrightarrow> engine_ok k e'"
  by (simp add: same_core_def engine_ok_def)

lemma same_core_evolves: "same_core e e' \<Longrightarrow> evolves e e'"
  by (auto simp: same_core_def evolves_def advances_def intro: store_run.start)

lemma engine_ok_mono: "engine_ok k e \<Longrightarrow> j \<le> k \<Longrightarrow> engine_ok j e"
  by (auto simp: engine_ok_def intro: room_mono)

lemma returns_some: "same_core e (\<pi> v) \<Longrightarrow> returnsBy \<pi> c e (Some v)"
  by (auto simp: returnsBy_def intro: same_core_ok same_core_evolves engine_ok_mono)

lemma returns_from: "same_core e e' \<Longrightarrow> returnsBy \<pi> c e' res \<Longrightarrow> returnsBy \<pi> c e res"
  unfolding returnsBy_def by (meson same_core_ok same_core_evolves evolves_trans)

lemma returns_mono: "returnsBy \<pi> c e res \<Longrightarrow> c \<le> d \<Longrightarrow> returnsBy \<pi> d e res"
  unfolding returnsBy_def
proof (intro allI impI)
  fix k
  assume *: "\<forall>k. engine_ok (k + c) e \<longrightarrow> (\<exists>v. res = Some v \<and> engine_ok k (\<pi> v) \<and> evolves e (\<pi> v))"
    "c \<le> d" "engine_ok (k + d) e"
  then have "engine_ok ((k + (d - c)) + c) e" by simp
  with *(1) obtain v where "res = Some v" "engine_ok (k + (d - c)) (\<pi> v)" "evolves e (\<pi> v)" by blast
  then show "\<exists>v. res = Some v \<and> engine_ok k (\<pi> v) \<and> evolves e (\<pi> v)"
    by (auto intro: engine_ok_mono)
qed

lemma returns_bind:
  assumes "returnsBy \<pi> c e m"
    and "\<And>v. m = Some v \<Longrightarrow> evolves e (\<pi> v) \<Longrightarrow> returnsBy \<rho> d (\<pi> v) (f v)"
  shows "returnsBy \<rho> (c + d) e (Option.bind m f)"
  unfolding returnsBy_def
proof (intro allI impI)
  fix k
  assume "engine_ok (k + (c + d)) e"
  then have "engine_ok ((k + d) + c) e" by (simp add: ac_simps)
  with assms(1) obtain v where m: "m = Some v" "engine_ok (k + d) (\<pi> v)" "evolves e (\<pi> v)"
    unfolding returnsBy_def by blast
  from assms(2) [of v] m obtain w where "f v = Some w" "engine_ok k (\<rho> w)" "evolves (\<pi> v) (\<rho> w)"
    unfolding returnsBy_def by blast
  with m show "\<exists>v. Option.bind m f = Some v \<and> engine_ok k (\<rho> v) \<and> evolves e (\<rho> v)"
    by (auto intro: evolves_trans)
qed

lemma returns_then:
  assumes "same_core e e'" and "returnsBy snd c e' m" and "\<And>r e'. returnsBy \<rho> d e' (f (r, e'))"
  shows "returnsBy \<rho> (c + d) e (Option.bind m f)"
  by (rule returns_from [OF assms(1) returns_bind [OF assms(2)]]) (use assms(3) in auto)

lemma returns_then_unit:
  assumes "same_core e e'" and "returnsBy (\<lambda>e. e) c e' m" and "\<And>e'. returnsBy \<rho> d e' (f e')"
  shows "returnsBy \<rho> (c + d) e (Option.bind m f)"
  by (rule returns_from [OF assms(1) returns_bind [OF assms(2)]]) (rule assms(3))

lemma returns_map:
  assumes "returnsBy \<pi> c e m" and "\<And>v. same_core (\<pi> v) (\<rho> (g v))"
  shows "returnsBy \<rho> c e (map_option g m)"
  using returns_bind [OF assms(1), of \<rho> 0 "\<lambda>v. Some (g v)"] assms(2)
  by (simp add: returns_some map_conv_bind_option o_def)

lemma returns_if: "(P \<Longrightarrow> returnsBy \<pi> c e x) \<Longrightarrow> (\<not> P \<Longrightarrow> returnsBy \<pi> c e y) \<Longrightarrow> returnsBy \<pi> c e (if P then x else y)"
  by simp

lemma returns_sum:
  "(\<And>a. returnsBy \<pi> c e (f a)) \<Longrightarrow> (\<And>b. returnsBy \<pi> c e (g b)) \<Longrightarrow> returnsBy \<pi> c e (case r of Inl a \<Rightarrow> f a | Inr b \<Rightarrow> g b)"
  by (cases r) auto

lemma returns_option:
  "returnsBy \<pi> c e x \<Longrightarrow> (\<And>a. r = Some a \<Longrightarrow> returnsBy \<pi> c e (g a)) \<Longrightarrow> returnsBy \<pi> c e (case r of None \<Rightarrow> x | Some a \<Rightarrow> g a)"
  by (cases r) auto

lemma returns_prod: "(\<And>a b. p = (a, b) \<Longrightarrow> returnsBy \<pi> c e (g a b)) \<Longrightarrow> returnsBy \<pi> c e (case p of (a, b) \<Rightarrow> g a b)"
  by (cases p) auto

text \<open>Inside the contract: the engine's call returns, and carries the store along.\<close>

context repo_call
begin

lemma repo_returns: "returns cost e (repo e f)"
proof -
  have "\<exists>v. repo e f = Some v \<and> engine_ok k (snd v) \<and> evolves e (snd v)" if ok: "engine_ok (k + cost) e" for k
  proof (cases "e_fault e (e_calls e)")
    case True
    then show ?thesis
      using that by (auto simp: repo_def Let_def engine_ok_def evolves_def advances_def intro: store_run.start room_mono)
  next
    case False
    from ok reaches [of "e_mem e" k] obtain r s' n where
      "f (e_mem e) = Some (r, s')" "store_run n (e_mem e) s'" "room k s'" "length (ms_jobs s') \<le> length (ms_jobs (e_mem e))"
      by (auto simp: engine_ok_def)
    with False ok show ?thesis
      by (auto simp: repo_def Let_def engine_ok_def evolves_def advances_def intro: store_run_inv)
  qed
  then show ?thesis by (simp add: returnsBy_def)
qed

end

section \<open>The engine's calls keep the contract\<close>

lemma repo_call_query: "repo_call 0 (query g)" and repo_call_lookup: "repo_call 0 (lookup h)"
  by (unfold_locales; auto simp: query_def lookup_def intro: store_run.start)+

lemma repo_call_query_opt: "(\<And>s. store_inv s \<Longrightarrow> g s \<noteq> None) \<Longrightarrow> repo_call 0 (query_opt g)"
  by unfold_locales (fastforce simp: query_opt_def intro: store_run.start)

lemma repo_call_step:
  assumes "\<And>s. \<exists>r s'. f s = Some (r, s') \<and> store_step s s'
      \<and> ms_nextExecutionID s' = ms_nextExecutionID s \<and> ms_nextAttemptID s' = ms_nextAttemptID s
      \<and> length (ms_jobs s') \<le> length (ms_jobs s)"
  shows "repo_call 0 f"
proof
  fix s k
  assume "store_inv s" "room (k + 0) s"
  with assms [of s] show "\<exists>r s' n. f s = Some (r, s') \<and> store_run n s s' \<and> room k s'
      \<and> length (ms_jobs s') \<le> length (ms_jobs s)"
    using store_run_one [of s] by (fastforce simp: room_def)
qed

interpretation getJob: repo_call 0 "lookup (\<lambda>s. GetJob s i)" for i by (rule repo_call_lookup)
interpretation getExecution: repo_call 0 "lookup (\<lambda>s. GetExecution s i)" for i by (rule repo_call_lookup)
interpretation getAttempt: repo_call 0 "lookup (\<lambda>s. GetAttempt s i)" for i by (rule repo_call_lookup)
interpretation hasActive: repo_call 0 "query (\<lambda>s. HasActiveExecution s i x)" for i x by (rule repo_call_query)
interpretation hasPending: repo_call 0 "query (\<lambda>s. HasPendingOccurrence s i)" for i by (rule repo_call_query)
interpretation listEnabled: repo_call 0 "query ListEnabledJobs" by (rule repo_call_query)
interpretation nextWake: repo_call 0 "query NextWakeAt" by (rule repo_call_query)
interpretation countResults: repo_call 0 "query CountResults" by (rule repo_call_query)
interpretation expiredResults: repo_call 0 "query (\<lambda>s. ExpiredResults s t n)" for t n by (rule repo_call_query)

lemma orderedExecutions_total: "store_inv s \<Longrightarrow> orderedExecutions s \<noteq> None"
  using orderedExecutions_inv [of s] by (simp add: store_inv_def)

interpretation dueExecutions: repo_call 0 "query_opt (\<lambda>s. DueExecutions s t n)" for t n
  by (rule repo_call_query_opt) (simp add: DueExecutions_def orderedExecutions_total)

interpretation inStates: repo_call 0 "query_opt (\<lambda>s. ExecutionsInStates s sts)" for sts
  by (rule repo_call_query_opt) (simp add: ExecutionsInStates_def orderedExecutions_total)

interpretation forJob: repo_call 0 "query_opt (\<lambda>s. ExecutionsForJob s i)" for i
  by (rule repo_call_query_opt) (simp add: ExecutionsForJob_def orderedExecutions_total)

interpretation expiredLeases: repo_call 0 "query_opt (\<lambda>s. ExpiredLeases s t)" for t
  by (rule repo_call_query_opt) (simp add: ExpiredLeases_def orderedExecutions_total)

interpretation expiredExecutions: repo_call 0 "query_opt (\<lambda>s. ExpiredExecutions s t n)" for t n
  by (rule repo_call_query_opt) (simp add: ExpiredExecutions_def orderedExecutions_total)

interpretation attemptsForExecution: repo_call 0 "query_opt (\<lambda>s. AttemptsForExecution s i)" for i
  by (rule repo_call_query_opt) (simp add: AttemptsForExecution_inv store_inv_def)

interpretation attemptsOnInstance: repo_call 0 "query_opt (\<lambda>s. AttemptsOnInstance s i sts)" for i sts
  by (rule repo_call_query_opt) (simp add: AttemptsOnInstance_inv store_inv_def)

interpretation resultsForInstance: repo_call 0 "query_opt (\<lambda>s. ResultsForInstance s i n)" for i n
  by (rule repo_call_query_opt) (simp add: ResultsForInstance_no_panic store_inv_def)

interpretation getJobByKey: repo_call 0 "\<lambda>s. map_option (\<lambda>r. (r, s)) (GetJobByKey s et k)" for et k
proof
  fix s n
  assume "store_inv s" "room (n + 0) s"
  then show "\<exists>r s' m. map_option (\<lambda>r. (r, s)) (GetJobByKey s et k) = Some (r, s') \<and> store_run m s s' \<and> room n s'
      \<and> length (ms_jobs s') \<le> length (ms_jobs s)"
    using GetJobByKey_no_panic [of s et k] by (fastforce simp: store_inv_def intro: store_run.start)
qed

lemma sum_step: "store_step s (snd p) \<Longrightarrow> ms_nextExecutionID (snd p) = ms_nextExecutionID s
    \<Longrightarrow> ms_nextAttemptID (snd p) = ms_nextAttemptID s \<Longrightarrow> length (ms_jobs (snd p)) \<le> length (ms_jobs s)
  \<Longrightarrow> \<exists>r s'. Some p = Some (r, s') \<and> store_step s s'
      \<and> ms_nextExecutionID s' = ms_nextExecutionID s \<and> ms_nextAttemptID s' = ms_nextAttemptID s
      \<and> length (ms_jobs s') \<le> length (ms_jobs s)"
  by (cases p) auto

interpretation updateExecution: repo_call 0 "update (\<lambda>s. UpdateExecution s i v u)" for i v u
  unfolding update_def by (rule repo_call_step, rule sum_step) (auto intro: store_step.intros)

lemma length_update_present: "map_of xs k \<noteq> None \<Longrightarrow> length (AList.update k v xs) = length xs"
  by (induction xs) auto

lemma job_ops_length [simp]:
  "length (ms_jobs (snd (AddSkippedOccurrences s i n))) = length (ms_jobs s)"
  "length (ms_jobs (snd (DeleteJob s i))) \<le> length (ms_jobs s)"
  by (auto simp: AddSkippedOccurrences_def DeleteJob_def readClock_def Let_def length_update_present length_delete_le
      split: option.splits)

interpretation addSkipped: repo_call 0 "update (\<lambda>s. AddSkippedOccurrences s i n)" for i n
  unfolding update_def by (rule repo_call_step, rule sum_step) (auto intro: store_step.intros)

interpretation storeResult: repo_call 0 "update (\<lambda>s. StoreResult s r)" for r
  unfolding update_def by (rule repo_call_step, rule sum_step) (auto intro: store_step.intros)

interpretation markSent: repo_call 0 "update (\<lambda>s. MarkResultSent s i t)" for i t
  unfolding update_def by (rule repo_call_step, rule sum_step) (auto intro: store_step.intros)

lemma repo_call_attempt_state:
  assumes "guarded from"
  shows "repo_call 0 (update (\<lambda>s. UpdateAttemptState s i from to why))"
  unfolding update_def using assms
  by (intro repo_call_step sum_step) (auto intro: store_step.intros)

interpretation settleDispatched: repo_call 0 "update (\<lambda>s. UpdateAttemptState s i [AttemptDispatched] to why)" for i to why
  by (rule repo_call_attempt_state) (simp add: guarded_def)

interpretation settleAccepted: repo_call 0 "update (\<lambda>s. UpdateAttemptState s i [AttemptAccepted] to why)" for i to why
  by (rule repo_call_attempt_state) (simp add: guarded_def)

interpretation settleOpen: repo_call 0
    "update (\<lambda>s. UpdateAttemptState s i [AttemptDispatched, AttemptAccepted] to why)" for i to why
  by (rule repo_call_attempt_state) (simp add: guarded_def)

lemma remove_step:
  assumes "\<And>s. store_step s (snd (g s)) \<and> ms_nextExecutionID (snd (g s)) = ms_nextExecutionID s
    \<and> ms_nextAttemptID (snd (g s)) = ms_nextAttemptID s \<and> length (ms_jobs (snd (g s))) \<le> length (ms_jobs s)"
  shows "repo_call 0 (remove g)"
proof (rule repo_call_step)
  fix s
  obtain b s' where "g s = (b, s')" by fastforce
  with assms [of s] show "\<exists>r s'. remove g s = Some (r, s') \<and> store_step s s'
      \<and> ms_nextExecutionID s' = ms_nextExecutionID s \<and> ms_nextAttemptID s' = ms_nextAttemptID s
      \<and> length (ms_jobs s') \<le> length (ms_jobs s)"
    by (simp add: remove_def)
qed

interpretation deleteJob: repo_call 0 "remove (\<lambda>s. DeleteJob s i)" for i
  by (rule remove_step) (auto intro: store_step.intros)

interpretation deleteResult: repo_call 0 "remove (\<lambda>s. DeleteResult s i)" for i
  by (rule remove_step) (auto intro: store_step.intros)

interpretation deleteAttempt: repo_call 0 "remove (\<lambda>s. DeleteAttempt s i)" for i
  by (rule remove_step) (auto intro: store_step.intros)

interpretation deleteExecution: repo_call 0 "remove (\<lambda>s. DeleteExecution s i)" for i
  by (rule remove_step) (auto intro: store_step.intros)

interpretation createExecution: repo_call 1 "\<lambda>s. CreateExecution s i t st b" for i t st b
proof
  fix s k
  assume s: "store_inv s" "room (k + 1) s"
  then obtain r s' where r: "CreateExecution s i t st b = Some (r, s')"
    using CreateExecution_no_panic [of s i t st b] by (fastforce simp: store_inv_def)
  have "store_step s s'"
    using s r room_next [of k s] by (auto intro: store_step.intros)
  moreover have "ms_nextExecutionID s' = ms_nextExecutionID s \<or> ms_nextExecutionID s' = ms_nextExecutionID s + 1"
    using r by (auto simp: CreateExecution_def readClock_def Let_def split: option.splits if_splits)
  then have "unat (ms_nextExecutionID s') \<le> unat (ms_nextExecutionID s) + 1"
    using unatSuc [of "ms_nextExecutionID s"] room_next [of k s] s by (auto simp: add.commute)
  then have "room k s'"
    using s CreateExecution_frame [OF r] by (simp add: room_def)
  ultimately show "\<exists>r s' n. CreateExecution s i t st b = Some (r, s') \<and> store_run n s s' \<and> room k s'
      \<and> length (ms_jobs s') \<le> length (ms_jobs s)"
    using r store_run_one [of s s'] CreateExecution_frame(1) [OF r] by (metis order_refl)
qed

interpretation createAttempt: repo_call 1 "update (\<lambda>s. CreateAttempt s i n h)" for i n h
proof
  fix s k
  assume s: "store_inv s" "room (k + 1) s"
  obtain r s' where r: "CreateAttempt s i n h = (r, s')" by fastforce
  have "store_step s s'"
    using s r room_next [of k s] by (auto intro!: store_step.create_attempt [of s _ i n h])
  moreover have "ms_nextAttemptID s' = ms_nextAttemptID s \<or> ms_nextAttemptID s' = ms_nextAttemptID s + 1"
    using r by (auto simp: CreateAttempt_def readClock_def Let_def split: if_splits)
  then have "unat (ms_nextAttemptID s') \<le> unat (ms_nextAttemptID s) + 1"
    using unatSuc [of "ms_nextAttemptID s"] room_next [of k s] s by (auto simp: add.commute)
  then have "room k s'"
    using s CreateAttempt_frame [of s i n h] r by (simp add: room_def)
  ultimately show "\<exists>r s' m. update (\<lambda>s. CreateAttempt s i n h) s = Some (r, s') \<and> store_run m s s' \<and> room k s'
      \<and> length (ms_jobs s') \<le> length (ms_jobs s)"
    using r store_run_one [of s s'] CreateAttempt_frame [of s i n h] by (auto simp: update_def)
qed

end
