(* ===== verification/Engine_Safety.thy ===== *)
theory Engine_Safety
  imports Engine_Inv
begin

text \<open>
  Every operation of the engine returns, as a run of the store that keeps the registry consistent
  (\<open>returnsBy\<close> of \<open>Engine_Inv\<close>, one lemma per operation).
\<close>

named_theorems returns_calls \<open>operations that return\<close>

section \<open>Rules\<close>

lemma returns_then0:
  "returnsBy snd 0 e' m \<Longrightarrow> same_core e e' \<Longrightarrow> (\<And>r e'. returnsBy \<rho> d e' (f (r, e')))
     \<Longrightarrow> returnsBy \<rho> d e (Option.bind m f)"
  using returns_then [of e e' 0 m \<rho> d f] by simp

lemma returns_then1:
  "returnsBy snd 1 e' m \<Longrightarrow> same_core e e' \<Longrightarrow> (\<And>r e'. returnsBy \<rho> d e' (f (r, e')))
     \<Longrightarrow> returnsBy \<rho> (Suc d) e (Option.bind m f)"
  using returns_then [of e e' 1 m \<rho> d f] by simp

lemma returns_unit0:
  "returnsBy (\<lambda>e. e) 0 e' m \<Longrightarrow> same_core e e' \<Longrightarrow> (\<And>e'. returnsBy \<rho> d e' (f e'))
     \<Longrightarrow> returnsBy \<rho> d e (Option.bind m f)"
  using returns_then_unit [of e e' 0 m \<rho> d f] by simp

lemma returns_here:
  "returnsBy snd 0 e m \<Longrightarrow> (\<And>r e'. returnsBy \<rho> d e' (f (r, e'))) \<Longrightarrow> returnsBy \<rho> d e (Option.bind m f)"
  by (rule returns_then0) auto

lemma returns_here_unit:
  "returnsBy (\<lambda>e. e) 0 e m \<Longrightarrow> (\<And>e'. returnsBy \<rho> d e' (f e')) \<Longrightarrow> returnsBy \<rho> d e (Option.bind m f)"
  by (rule returns_unit0) auto

lemma returns_tail: "returnsBy \<pi> 0 e' res \<Longrightarrow> same_core e e' \<Longrightarrow> returnsBy \<pi> c e res"
  by (rule returns_from, assumption, rule returns_mono) auto

lemma returns_map_tail:
  "returnsBy \<pi> 0 e' m \<Longrightarrow> same_core e e' \<Longrightarrow> (\<And>v. same_core (\<pi> v) (\<rho> (g v)))
     \<Longrightarrow> returnsBy \<rho> c e (map_option g m)"
  by (rule returns_tail [OF returns_map])

lemma same_core_simps [simp]:
  "same_core e (bump c e)" "same_core e (Notify e)" "same_core e (e\<lparr>e_ticks := n\<rparr>)"
  "same_core e (snd (now_e e))" "same_core e (snd (Enqueue e ref msg))"
  "same_core e (e\<lparr>e_reg := ReleaseInFlight (e_reg e) ref i\<rparr>)"
  "same_core e (e\<lparr>e_reg := AddInFlight (e_reg e) ref i\<rparr>)"
  "same_core e (e\<lparr>e_metrics := mt\<rparr>)"
  "same_core e (releaseOn e inst i)"
  by (auto simp: same_core_def bump_def Notify_def now_e_def Enqueue_def Let_def entry_ops_inv releaseOn_def
      split: option.splits)

lemma same_core_if [simp]:
  "(P \<Longrightarrow> same_core e a) \<Longrightarrow> (\<not> P \<Longrightarrow> same_core e b) \<Longrightarrow> same_core e (if P then a else b)"
  by simp

lemma same_core_more [simp]:
  "same_core e e1 \<Longrightarrow> same_core e (bump c e1)"
  "same_core e e1 \<Longrightarrow> same_core e (Notify e1)"
  "same_core e e1 \<Longrightarrow> same_core e (releaseOn e1 inst i)"
  by (rule same_core_trans, assumption, simp)+

lemmas repo_returns [returns_calls] =
  getJob.repo_returns getExecution.repo_returns getAttempt.repo_returns hasActive.repo_returns
  hasPending.repo_returns listEnabled.repo_returns nextWake.repo_returns
  countResults.repo_returns expiredResults.repo_returns dueExecutions.repo_returns
  inStates.repo_returns forJob.repo_returns expiredLeases.repo_returns
  expiredExecutions.repo_returns attemptsForExecution.repo_returns
  attemptsOnInstance.repo_returns resultsForInstance.repo_returns getJobByKey.repo_returns
  updateExecution.repo_returns addSkipped.repo_returns storeResult.repo_returns
  markSent.repo_returns settleDispatched.repo_returns settleAccepted.repo_returns
  settleOpen.repo_returns deleteJob.repo_returns deleteResult.repo_returns
  deleteAttempt.repo_returns deleteExecution.repo_returns

lemmas repo_creates = createExecution.repo_returns createAttempt.repo_returns

lemmas returns_steps = returns_then0 returns_unit0 returns_tail returns_map_tail

lemmas returns_rules = returns_some returns_if returns_sum returns_option returns_here returns_here_unit conjI impI

section \<open>Shared operations\<close>

lemma transition_returns [returns_calls]: "returns_unit 0 e (transition e x st u)"
  unfolding transition_def by (rule returns_map [OF updateExecution.repo_returns]) simp

lemma requeueReady_returns [returns_calls]: "returns 0 e (requeueReady e i d)"
  unfolding requeueReady_def now_e_def Let_def
  by ((rule returns_steps, rule returns_calls) | rule returns_rules | simp split del: if_split | rule returns_prod)+

lemma releaseAttemptSlot_returns [returns_calls]: "returns_unit 0 e (releaseAttemptSlot e i)"
  unfolding releaseAttemptSlot_def
  by ((rule returns_steps, rule returns_calls) | rule returns_rules | simp split del: if_split | rule returns_prod)+

lemma abandonAttempt_returns [returns_calls]: "returns_unit 0 e (abandonAttempt e x why)"
  unfolding abandonAttempt_def
  by ((rule returns_steps, rule returns_calls) | rule returns_rules | simp split del: if_split | rule returns_prod)+

lemma materializeNext_returns: "returns_unit 1 e (materializeNext e jb t)"
  unfolding materializeNext_def One_nat_def
  by (rule returns_some returns_option returns_sum | (rule returns_then1, rule repo_creates) | simp | rule returns_prod)+

lemma selectExecutor_same_core: "same_core e (snd (selectExecutor e jb))"
  using Select_frame(1) SelectLabeled_frame(1)
  by (auto simp: selectExecutor_def same_core_def bump_def Let_def split: prod.splits option.splits)
     (metis snd_conv)+

lemma parkUndispatchable_returns [returns_calls]: "returns_unit 0 e (parkUndispatchable e jb x)"
  unfolding parkUndispatchable_def
  by ((rule returns_steps, rule returns_calls) | rule returns_rules | simp split del: if_split | rule returns_prod)+

lemma Enqueue_same_core: "Enqueue e ref m = (b, e') \<Longrightarrow> same_core e e'"
  using same_core_simps(5) [of e ref m] by simp

lemma returns_Enqueue:
  "same_core e e1 \<Longrightarrow> (\<And>b e'. returnsBy \<pi> c e' (g b e'))
     \<Longrightarrow> returnsBy \<pi> c e (case Enqueue e1 ref m of (b, e') \<Rightarrow> g b e')"
  by (rule returns_prod, rule returns_from [OF same_core_trans [OF _ Enqueue_same_core]])

lemma returns_now:
  "same_core e e1 \<Longrightarrow> (\<And>t e'. returnsBy \<pi> c e' (g t e'))
     \<Longrightarrow> returnsBy \<pi> c e (case now_e e1 of (t, e') \<Rightarrow> g t e')"
  using same_core_trans [of e e1 "snd (now_e e1)"] returns_from by (fastforce simp: now_e_def)

section \<open>Dispatch\<close>

lemma deliverRequest_returns: "returns_unit 1 e (deliverRequest e jb x ref i n)"
proof -
  let ?e = "e\<lparr>e_reg := AddInFlight (e_reg e) ref i\<rparr>"
  have start: "same_core e e'" if "Enqueue ?e ref msg = (b, e')" for msg b e'
    using Enqueue_same_core [OF that] by (rule same_core_trans [rotated]) simp
  have failed: "returns_unit 1 e' (do { (_, e) \<leftarrow> repo (e'\<lparr>e_reg := ReleaseInFlight (e_reg e') ref i\<rparr>)
        (update (\<lambda>s. UpdateAttemptState s i [AttemptDispatched] AttemptInfraFailed dispatchReasonQueueFull));
      (_, e) \<leftarrow> requeueReady e (x_ID x) (cf_RedispatchDelay (e_cfg e));
      Some (bump mt_DispatchFailures_update e) })" for e'
    by ((rule returns_then0, rule returns_calls) | rule returns_some | simp)+
  have sent: "returns_unit 1 e' (materializeNext (bump mt_Dispatches_update e') jb (x_ScheduledAt x))" for e'
    by (rule returns_from [OF _ materializeNext_returns]) simp
  show ?thesis
    unfolding deliverRequest_def Let_def
    by (rule returns_prod, rule returns_from [OF start], assumption)
       (simp add: failed [unfolded One_nat_def] sent [unfolded One_nat_def])
qed

lemma claimAndDispatch_returns: "returns_unit 2 e (claimAndDispatch e jb x now ref)"
proof -
  have two: "2 = Suc (Suc 0)" by simp
  show ?thesis
    unfolding claimAndDispatch_def Let_def two
    by ((rule returns_then0, rule returns_calls) | (rule returns_then1, rule repo_creates)
        | rule returns_some returns_sum deliverRequest_returns [unfolded One_nat_def] | simp)+
qed

lemma dispatchExecution_returns: "returns_unit 2 e (dispatchExecution e x now)"
proof -
  have skip: "returns_unit 2 e' (do { e \<leftarrow> transition e' x StateSkipped (because skipReasonOverlap);
      materializeNext (bump mt_SkippedOverlaps_update e) jb (x_ScheduledAt x) })" for e' jb
    by (rule returns_unit0, rule returns_calls, simp, rule returns_mono, rule returns_from [OF _ materializeNext_returns]) simp_all
  have run: "returns_unit 2 e' (case selectExecutor e' jb of (entry, e) \<Rightarrow>
      (case entry of None \<Rightarrow> parkUndispatchable e jb x | Some ref \<Rightarrow> claimAndDispatch e jb x now ref))" for e' jb
    by (rule returns_prod, rule returns_from [OF selectExecutor_same_core [of e' jb]])
       (auto intro: returns_option claimAndDispatch_returns returns_mono [OF parkUndispatchable_returns])
  show ?thesis
    unfolding dispatchExecution_def Let_def
    by ((rule returns_then0 returns_tail, rule returns_calls) | rule skip run returns_some returns_if returns_sum returns_here | simp | intro conjI impI)+
qed

lemma dispatchAll_returns: "returns_unit (2 * length xs) e (dispatchAll e now xs)"
proof (induction xs arbitrary: e)
  case (Cons x xs)
  have "returns_unit (2 + 2 * length xs) e (Option.bind (dispatchExecution e x now) (\<lambda>e. dispatchAll e now xs))"
    by (rule returns_bind [OF dispatchExecution_returns Cons])
  then show ?case by (auto intro: returns_some)
qed (simp add: returns_some)

lemma repo_Inr: "repo e f = Some (Inr v, e') \<Longrightarrow> \<exists>s'. f (e_mem e) = Some (Inr v, s')"
  by (auto simp: repo_def Let_def split: if_splits sum.splits) (metis map_sum.simps obj_sumE sum.distinct(1) sum.inject(2) id_apply)

lemma capped_length: "0 < n \<Longrightarrow> length (capped n xs) \<le> nat n"
  by (auto simp: capped_def)

lemma processDue_returns:
  assumes "0 < cf_DispatchBatch (e_cfg e)"
  shows "returns_unit (2 * nat (cf_DispatchBatch (e_cfg e))) e (processDue e)"
proof -
  let ?n = "cf_DispatchBatch (e_cfg e)"
  have "returns_unit (0 + 2 * nat ?n) e (do {
      (r, e) \<leftarrow> repo (e\<lparr>e_ticks := Suc (e_ticks e)\<rparr>) (query_opt (\<lambda>s. DueExecutions s now ?n));
      case r of Inl _ \<Rightarrow> Some e | Inr due \<Rightarrow> dispatchAll e now due })" for now
  proof (rule returns_from [OF _ returns_bind [OF dueExecutions.repo_returns]], simp, clarify)
    fix r e'
    assume "repo (e\<lparr>e_ticks := Suc (e_ticks e)\<rparr>) (query_opt (\<lambda>s. DueExecutions s now ?n)) = Some (r, e')"
    then have "2 * length due \<le> 2 * nat ?n" if "r = Inr due" for due
      using that assms by (auto dest!: repo_Inr simp: query_opt_def DueExecutions_def capped_length)
    then show "returns_unit (2 * nat ?n) (snd (r, e')) (case r of Inl _ \<Rightarrow> Some e' | Inr due \<Rightarrow> dispatchAll e' now due)"
      by (cases r) (auto intro: returns_some returns_mono [OF dispatchAll_returns])
  qed
  then show ?thesis
    by (simp add: processDue_def now_e_def Let_def)
qed


section \<open>Results and retention\<close>

lemma resultOwnedBy_returns [returns_calls]: "returns 0 e (resultOwnedBy e i inst)"
  unfolding resultOwnedBy_def
  by ((rule returns_steps, rule returns_calls) | rule returns_rules | simp split del: if_split | rule returns_prod)+

lemma HandleResultAck_returns: "returns_unit 0 e (HandleResultAck e inst m)"
  unfolding HandleResultAck_def
  by ((rule returns_steps, rule returns_calls) | rule returns_rules | simp split del: if_split | rule returns_prod)+

lemma deliverResult_returns [returns_calls]: "returns 0 e (deliverResult e p)"
  unfolding deliverResult_def Let_def
  by (rule returns_Enqueue returns_now | (rule returns_steps, rule returns_calls) | rule returns_rules | simp split del: if_split)+

lemma deliverAll_returns [returns_calls]: "returns_unit 0 e (deliverAll e ps)"
  by (induction ps arbitrary: e) (auto intro: returns_some returns_here [OF deliverResult_returns])

lemma HandleRegistered_returns: "returns_unit 0 e (HandleRegistered e inst)"
  unfolding HandleRegistered_def
  by ((rule returns_steps, rule returns_calls) | rule returns_rules | simp split del: if_split | rule returns_prod)+

lemma resultWithinCaps_returns [returns_calls]: "returns 0 e (resultWithinCaps e inst)"
  unfolding resultWithinCaps_def
  by ((rule returns_steps, rule returns_calls) | rule returns_rules | simp split del: if_split | rule returns_prod)+

lemma captureResult_returns [returns_calls]: "returns_unit 0 e (captureResult e jb x m)"
  unfolding captureResult_def Let_def
  by ((rule returns_steps, rule returns_calls) | rule returns_rules | simp split del: if_split | rule returns_prod)+

lemma expireAll_returns [returns_calls]: "returns_unit 0 e (expireAll e ps)"
proof (induction ps arbitrary: e)
  case (Cons p ps)
  note more = Cons returns_from [OF same_core_simps(1) Cons]
  show ?case
    by (auto intro!: returns_here [OF deleteResult.repo_returns] more)
qed (simp add: returns_some)

lemma expireResults_returns [returns_calls]: "returns_unit 0 e (expireResults e now)"
  unfolding expireResults_def
  by ((rule returns_steps, rule returns_calls) | rule returns_rules | simp split del: if_split | rule returns_prod)+

lemma redeliverPending_returns [returns_calls]: "returns 0 e (redeliverPending e cutoff budget ps)"
  by (induction ps arbitrary: e budget)
     (auto intro: returns_some returns_here [OF deliverResult_returns])

lemma redeliverTo_returns [returns_calls]: "returns_unit 0 e (redeliverTo e cutoff budget insts)"
  by (induction insts arbitrary: e budget)
     (auto intro!: returns_some returns_here [OF resultsForInstance.repo_returns] returns_sum
        returns_here [OF redeliverPending_returns])

lemma sweepResults_returns [returns_calls]: "returns_unit 0 e (sweepResults e now)"
  unfolding sweepResults_def redeliverStaleResults_def
  by ((rule returns_steps, rule returns_calls) | rule returns_rules | simp split del: if_split | rule returns_prod)+

lemma purgeAttempts_returns [returns_calls]: "returns 0 e (purgeAttempts e as)"
proof (induction as arbitrary: e)
  case (Cons a as)
  note more = Cons returns_from [OF same_core_simps(1) Cons]
  show ?case
    by (auto intro!: returns_some returns_here [OF deleteAttempt.repo_returns] returns_sum more)
qed (simp add: returns_some)

lemma purgeExecution_returns [returns_calls]: "returns_unit 0 e (purgeExecution e x)"
  unfolding purgeExecution_def
  by ((rule returns_steps, rule returns_calls) | rule returns_rules | simp split del: if_split | rule returns_prod)+

lemma purgeAll_returns [returns_calls]: "returns_unit 0 e (purgeAll e xs)"
  by (induction xs arbitrary: e) (auto intro: returns_some returns_here_unit [OF purgeExecution_returns])

lemma sweepExecutions_returns [returns_calls]: "returns_unit 0 e (sweepExecutions e now)"
  unfolding sweepExecutions_def
  by ((rule returns_steps, rule returns_calls) | rule returns_rules | simp split del: if_split | rule returns_prod)+

section \<open>Waiting executions and connections\<close>

lemma requeueWaiting_returns [returns_calls]: "returns 0 e (requeueWaiting e wanted xs)"
proof (induction xs arbitrary: e)
  case (Cons x xs)
  have "returns 0 e' (Option.bind (requeueWaiting e' wanted xs) (\<lambda>(others, e). Some (r \<or> others, e)))" for e' r
    by (rule returns_here [OF Cons]) (simp add: returns_some)
  then show ?case
    using Cons by (auto intro!: returns_some returns_here [OF getJob.repo_returns] returns_here [OF requeueReady_returns] returns_sum)
qed (simp add: returns_some)

lemma reconsiderWaiting_returns [returns_calls]: "returns_unit 0 e (reconsiderWaiting e c)"
  unfolding reconsiderWaiting_def
  by ((rule returns_steps, rule returns_calls) | rule returns_rules | simp split del: if_split | rule returns_prod)+

lemma requeueWaitingWithPools_returns [returns_calls]: "returns_unit 0 e (requeueWaitingWithPools e)"
  unfolding requeueWaitingWithPools_def
  by ((rule returns_steps, rule returns_calls) | rule returns_rules | simp split del: if_split | rule returns_prod)+

lemma reportWithdrawn_returns [returns_calls]: "returns_unit 0 e (reportWithdrawnUnderLoad e inst ls)"
  unfolding reportWithdrawnUnderLoad_def
  by ((rule returns_steps, rule returns_calls) | rule returns_rules | simp split del: if_split | rule returns_prod)+

lemma notifyHook_returns [returns_calls]: "returns_unit 0 e (notifyHook e c)"
  by (cases c) (simp_all add: notifyHook_def returns_some reconsiderWaiting_returns)

lemma abandonOpen_returns [returns_calls]: "returns 0 e (abandonOpen e as)"
proof (induction as arbitrary: e)
  case (Cons a as)
  have "returns 0 e' (Option.bind (abandonOpen e' as) (\<lambda>(_, e). Some (True, e)))" for e'
    by (rule returns_here [OF Cons]) (simp add: returns_some)
  then show ?case
    using Cons by (auto intro!: returns_some returns_here [OF getExecution.repo_returns]
      returns_here_unit [OF abandonAttempt_returns] returns_sum)
qed (simp add: returns_some)

lemma HandleDisconnect_returns: "returns_unit 0 e (HandleDisconnect e inst)"
  unfolding HandleDisconnect_def
  by ((rule returns_steps, rule returns_calls) | rule returns_rules | simp split del: if_split | rule returns_prod)+

lemma renewLeases_returns [returns_calls]: "returns_unit 0 e (renewLeases e now lease as)"
  by (induction as arbitrary: e)
     (auto intro!: returns_some returns_here [OF getExecution.repo_returns] returns_sum
        returns_here [OF updateExecution.repo_returns])

lemma HandleHeartbeat_returns: "returns_unit 0 e (HandleHeartbeat e inst)"
  unfolding HandleHeartbeat_def Let_def
  by (rule returns_now | (rule returns_steps, rule returns_calls) | rule returns_rules | simp split del: if_split)+

section \<open>Acceptances and results\<close>

lemma attemptOwnedBy_returns [returns_calls]: "returns 0 e (attemptOwnedBy e i inst)"
  unfolding attemptOwnedBy_def
  by ((rule returns_steps, rule returns_calls) | rule returns_rules | simp split del: if_split | rule returns_prod)+

lemma settleRejected_returns [returns_calls]: "returns_unit 0 e (settleRejectedAttempt e inst x m)"
  unfolding settleRejectedAttempt_def Let_def
  by ((rule returns_steps, rule returns_calls) | rule returns_rules | simp split del: if_split | rule returns_prod)+

lemma HandleExecAccept_returns: "returns_unit 0 e (HandleExecAccept e inst m)"
  unfolding HandleExecAccept_def Let_def
  by (rule returns_now | (rule returns_steps, rule returns_calls) | rule returns_rules | simp split del: if_split)+

lemma settleSuccess_returns [returns_calls]: "returns_unit 0 e (settleSuccess e x m)"
  unfolding settleSuccess_def
  by ((rule returns_steps, rule returns_calls) | rule returns_rules | simp split del: if_split | rule returns_prod)+

lemma settleFailure_returns [returns_calls]: "returns_unit 0 e (settleFailure fl e x m)"
  unfolding settleFailure_def Let_def
  by (rule returns_now | (rule returns_steps, rule returns_calls) | rule returns_rules | simp split del: if_split | rule returns_prod)+

lemma HandleExecResult_returns: "returns_unit 0 e (HandleExecResult fl e inst m)"
  unfolding HandleExecResult_def Let_def
  by ((rule returns_steps, rule returns_calls) | rule returns_rules | simp split del: if_split | rule returns_prod)+


section \<open>Jobs and passes\<close>

text \<open>The backward loop stops at any instant, and within the count cap.\<close>

lemma missedOccurrences_total:
  assumes "in_int64 maxAge" and "maxCount \<noteq> 0"
  shows "\<exists>missed skipped. missedOccurrences spec until maxCount maxAge = Some (missed, skipped)
    \<and> length missed \<le> unat maxCount"
proof -
  have one: "1 \<le> unat maxCount"
    using assms(2) unat_gt_0 [of maxCount] by linarith
  show ?thesis
  proof (cases "s_Kind spec = ScheduleKindOneShot \<or> scheduleInterval spec = None \<or> until < scheduleStart spec")
    case True
    then show ?thesis
      using one by (auto simp: missedOccurrences_def Let_def split: option.split)
  next
    case False
    then obtain interval where iv: "scheduleInterval spec = Some interval" by auto
    let ?start = "scheduleStart spec" and ?el = "timeSub until (scheduleStart spec)"
    have el: "0 \<le> ?el" "?el \<le> maxInt64"
      using False by (auto simp: timeSub_def minInt64_def maxInt64_def)
    have d: "0 < interval" "in_int64 interval" using scheduleInterval_pos [OF iv] by auto
    define n where "n = nat (?el div interval) + 1"
    note near = elapsed_div [of interval ?start "?start + ?el", simplified, OF d(1) el]
    have occurrence: "timeAdd ?start (int64 (?el - ?el mod interval)) = ?start + (int n - 1) * interval"
      using el d near(3) pos_mod_bound [OF d(1), of ?el] pos_mod_sign [OF d(1), of ?el]
        zmod_le_nonneg_dividend [of ?el interval]
      by (subst int64_id) (auto simp: in_int64_def minInt64_def timeAdd_def n_def)
    have "n < 2 ^ 64" using near(2) by (simp add: n_def)
    from collectMissed_returns [OF d this order_refl, of "[]" ?start maxCount maxAge "if 0 < maxAge then timeAdd until (int64 (- maxAge)) else zeroTime"]
    obtain lo where lo: "n - lo \<le> unat maxCount"
      "collectMissed ?start interval maxCount maxAge (if 0 < maxAge then timeAdd until (int64 (- maxAge)) else zeroTime) []
         (?start + (int n - 1) * interval) = Some (rev (map (\<lambda>k. ?start + int k * interval) [lo..<n]))"
      using one by (auto simp: keptRun_def word_gt_0 assms(2))
    then show ?thesis
      using False d el by (simp add: missedOccurrences_def Let_def occurrence iv scheduleInterval_kind)
  qed
qed

lemma createMissed_returns: "returns_unit (length ts) e (createMissed e jb ts)"
proof (induction ts arbitrary: e)
  case (Cons t ts)
  note more = Cons returns_from [OF same_core_simps(1) Cons]
  show ?case
    by (auto intro!: returns_then1 [OF createExecution.repo_returns] more split: sum.splits)
qed (simp add: returns_some)

text \<open>A configuration that \<open>normalized\<close> produced bounds every backlog.\<close>

definition usable :: "engine \<Rightarrow> bool" where
  "usable e \<longleftrightarrow> cf_BackfillMaxCount (e_cfg e) \<noteq> 0 \<and> in_int64 (cf_BackfillMaxAge (e_cfg e))
     \<and> 0 < cf_DispatchBatch (e_cfg e)"

definition backlog :: "engine \<Rightarrow> nat" where
  "backlog e = Suc (unat (cf_BackfillMaxCount (e_cfg e)))"

lemma usable_evolves: "evolves e e' \<Longrightarrow> usable e' = usable e" "evolves e e' \<Longrightarrow> backlog e' = backlog e"
  by (simp_all add: usable_def backlog_def evolves_cfg)

lemma backfillCaps_bounds:
  assumes "usable e" and "backfillCaps e jb = (maxCount, maxAge)"
  shows "maxCount \<noteq> 0 \<and> unat maxCount < backlog e \<and> in_int64 maxAge"
  using assms in_int64_millisDuration
  by (auto simp: usable_def backlog_def backfillCaps_def Let_def word_gt_0 not_less word_le_nat_alt less_Suc_eq_le
      split: if_splits)

lemma materializeJob_returns:
  assumes "usable e"
  shows "returns_unit (backlog e) e (materializeJob e jb now)"
proof -
  obtain maxCount maxAge where caps: "backfillCaps e jb = (maxCount, maxAge)" by fastforce
  note b = backfillCaps_bounds [OF assms caps]
  obtain missed skipped where m: "missedOccurrences (j_Schedule jb) now maxCount maxAge = Some (missed, skipped)"
    "length missed < backlog e"
    using missedOccurrences_total [of maxAge maxCount "j_Schedule jb" now] b by fastforce
  have last: "returns_unit 1 e' (case nextOccurrence (j_Schedule jb) now of None \<Rightarrow> Some e'
      | Some t \<Rightarrow> map_option snd (repo e' (\<lambda>s. CreateExecution s (j_ID jb) t StateScheduled False)))" for e'
    by (rule returns_option, rule returns_some, simp, rule returns_map [OF createExecution.repo_returns]) simp
  have create: "returns_unit (backlog e) e' (Option.bind (createMissed e' jb ts) (\<lambda>e. case nextOccurrence (j_Schedule jb) now of
      None \<Rightarrow> Some e
      | Some t \<Rightarrow> map_option snd (repo e (\<lambda>s. CreateExecution s (j_ID jb) t StateScheduled False))))"
    if "length ts < backlog e" for e' ts
    using that by (intro returns_mono [OF returns_bind [OF createMissed_returns last]]) simp
  have skip: "returns_unit (backlog e) e (Option.bind
      (if 0 < sk then do { (_, e) \<leftarrow> repo e (update (\<lambda>s. AddSkippedOccurrences s (j_ID jb) sk));
                        Some (e\<lparr>e_metrics := mt_BackfillSkipped_update (\<lambda>n. n + sk) (e_metrics e)\<rparr>) }
       else Some e)
      (\<lambda>e. Option.bind (createMissed e jb ts) (\<lambda>e. case nextOccurrence (j_Schedule jb) now of
      None \<Rightarrow> Some e
      | Some t \<Rightarrow> map_option snd (repo e (\<lambda>s. CreateExecution s (j_ID jb) t StateScheduled False)))))"
    if "length ts < backlog e" for sk ts
    by (rule returns_here_unit [OF _ create [OF that]])
       (auto intro!: returns_some returns_here [OF addSkipped.repo_returns])
  have "backlog e \<noteq> 0" by (simp add: backlog_def)
  then show ?thesis
    using skip [of "[]" "skipped + of_nat (length missed)"] skip [OF m(2), of skipped]
    by (cases "resolveBackfill e (b_Mode (j_Backfill jb)) = BackfillModeDisabled")
       (simp_all add: materializeJob_def caps m(1) Let_def split del: if_split)
qed

lemma materializeJobs_returns:
  "usable e \<Longrightarrow> returns_unit (backlog e * length js) e (materializeJobs e now js)"
proof (induction js arbitrary: e)
  case (Cons jb js)
  have "returns_unit (backlog e + backlog e * length js) e
      (Option.bind (materializeJob e jb now) (\<lambda>e. materializeJobs e now js))"
    by (rule returns_bind [OF materializeJob_returns [OF Cons.prems]])
       (metis Cons.IH Cons.prems usable_evolves)
  then show ?case by simp
qed (simp add: returns_some)

lemma abandonAll_returns [returns_calls]: "returns_unit 0 e (abandonAll e why xs)"
  by (induction xs arbitrary: e) (auto intro: returns_some returns_here_unit [OF abandonAttempt_returns])

lemma cancelWhere_returns [returns_calls]: "returns_unit 0 e (cancelWhere e keep why xs)"
  by (induction xs arbitrary: e) (auto intro: returns_some returns_here_unit [OF transition_returns])

lemma cancelDeleted_returns [returns_calls]: "returns_unit 0 e (cancelDeletedExecutions e i)"
  unfolding cancelDeletedExecutions_def
  by ((rule returns_steps, rule returns_calls) | rule returns_rules | simp split del: if_split)+

lemma cancelReplaced_returns [returns_calls]: "returns_unit 0 e (cancelReplacedExecutions e jb)"
  unfolding cancelReplacedExecutions_def
  by ((rule returns_steps, rule returns_calls) | rule returns_rules | simp split del: if_split)+

lemma HandleJobDelete_returns: "returns 0 e (HandleJobDelete e inst m)"
  unfolding HandleJobDelete_def Let_def
  by ((rule returns_steps, rule returns_calls) | rule returns_rules | simp split del: if_split)+


lemma ListEnabledJobs_length: "length (ListEnabledJobs s) \<le> length (ms_jobs s)"
  using length_filter_le [of j_Enabled "map snd (ms_jobs s)"] by (simp add: ListEnabledJobs_def)

lemma repo_query_Inr: "repo e (query f) = Some (Inr v, e') \<Longrightarrow> v = f (e_mem e)"
  by (auto simp: query_def dest!: repo_Inr)

lemma recoverOnStartup_returns:
  assumes "usable e"
  shows "returns_unit (backlog e * length (ms_jobs (e_mem e))) e (recoverOnStartup e)"
proof -
  let ?e = "snd (now_e e)" and ?k = "backlog e * length (ms_jobs (e_mem e))"
  have here: "e_mem ?e = e_mem e" "e_cfg ?e = e_cfg e" by (simp_all add: now_e_def)
  have list: "returns_unit ?k ?e (do { (r, e) \<leftarrow> repo ?e (query ListEnabledJobs);
      case r of Inl _ \<Rightarrow> Some e | Inr js \<Rightarrow> materializeJobs e now js })" for now
  proof (rule returns_bind [OF listEnabled.repo_returns, where d = ?k, simplified], clarify)
    fix r e'
    assume r: "repo ?e (query ListEnabledJobs) = Some (r, e')" and ev: "evolves ?e (snd (r, e'))"
    then have "usable e'" "backlog e' = backlog e"
      using assms usable_evolves [of ?e e'] here by (simp_all add: usable_def backlog_def)
    moreover have "length js \<le> length (ms_jobs (e_mem e))" if "r = Inr js" for js
      using r that ListEnabledJobs_length [of "e_mem e"] by (auto dest!: repo_query_Inr simp: here)
    ultimately show "returns_unit ?k (snd (r, e')) (case r of Inl _ \<Rightarrow> Some e' | Inr js \<Rightarrow> materializeJobs e' now js)"
      by (cases r) (auto intro: returns_some returns_mono [OF materializeJobs_returns])
  qed
  have rest: "returns_unit 0 e' (do { (r, e) \<leftarrow> repo e' (query_opt (\<lambda>s. ExecutionsInStates s [StateDispatching, StateRunning]));
      case r of Inl _ \<Rightarrow> Some e | Inr xs \<Rightarrow> map_option Notify (abandonAll e lostReasonRestart xs) })" for e'
    by ((rule returns_steps, rule returns_calls) | rule returns_rules | simp split del: if_split)+
  show ?thesis
    using returns_from [OF _ returns_bind [OF list rest], of e "e_clock e (e_ticks e)"]
    unfolding recoverOnStartup_def now_e_def Let_def prod.case by (simp add: Option.bind_assoc split_def)
qed

lemma engine_Start_returns:
  assumes "usable e"
  shows "returns_unit (backlog e * length (ms_jobs (e_mem e))) e (engine_Start e)"
proof -
  let ?e = "e\<lparr>e_running := True, e_stopping := False, e_reg := SetNotify (e_reg e) True\<rparr>"
  have "usable ?e" "backlog ?e = backlog e" using assms by (simp_all add: usable_def backlog_def)
  moreover have "same_core e ?e"
    by (simp add: same_core_def SetNotify_def registry_inv_def registered_def)
  ultimately show ?thesis
    using recoverOnStartup_returns [of ?e] by (auto simp: engine_Start_def intro: returns_some returns_from)
qed

lemma timingTurn_returns:
  assumes "usable e"
  shows "returns (2 * nat (cf_DispatchBatch (e_cfg e))) e (timingTurn e)"
proof -
  let ?n = "2 * nat (cf_DispatchBatch (e_cfg e))"
  have due: "returns_unit ?n e (if \<not> e_stopping e then processDue e else Some e)"
    using assms processDue_returns [of e] by (simp add: usable_def returns_some)
  have wake: "returns 0 e' (do { (r, e) \<leftarrow> repo e' (query NextWakeAt);
             case r of
               Inl _ \<Rightarrow> Some (Some None, e)
             | Inr (wake, hasNext) \<Rightarrow>
                 if \<not> hasNext then Some (Some None, e)
                 else
                   let (now, e) = now_e e;
                       delay = timeSub wake now
                   in Some (Some (Some (if delay < 0 then 0 else delay)), e) })" for e'
    unfolding Let_def
    by (rule returns_now | (rule returns_steps, rule returns_calls) | rule returns_rules | simp split del: if_split | rule returns_prod)+
  show ?thesis
    using returns_bind [OF due wake] by (auto simp: timingTurn_def intro: returns_some)
qed

lemma reapExpiredLeases_returns [returns_calls]: "returns_unit 0 e (reapExpiredLeases e now)"
  unfolding reapExpiredLeases_def
  by ((rule returns_steps, rule returns_calls) | rule returns_rules | simp split del: if_split)+

lemma topUp_returns: "returns (length js) e (topUp e now js)"
proof (induction js arbitrary: e)
  case (Cons jb js)
  have more: "returns (length js) e' (do { (others, e) \<leftarrow> topUp e' now js; Some (c \<or> others, e) })" for e' c
    using returns_bind [OF Cons, where e = e' and \<rho> = snd and d = 0 and f = "\<lambda>(others, e). Some (c \<or> others, e)"]
    by (simp add: returns_some split_def)
  have create: "returns (Suc (length js)) e' (do {
      (r, e) \<leftarrow> repo e' (\<lambda>s. CreateExecution s (j_ID jb) t StateScheduled False);
      (others, e) \<leftarrow> topUp e now js;
      Some ((case r of Inl _ \<Rightarrow> False | Inr (_, c) \<Rightarrow> c) \<or> others, e) })" for e' t
    by (rule returns_then1 [OF createExecution.repo_returns]) (simp_all add: more)
  show ?case
    by (auto intro!: returns_here [OF hasPending.repo_returns] returns_option create simp: Let_def
        intro!: returns_mono [OF Cons])
qed (simp add: returns_some)

lemma ensurePending_returns: "returns_unit (length (ms_jobs (e_mem e))) e (ensurePendingOccurrences e now)"
  unfolding ensurePendingOccurrences_def
proof (rule returns_bind [OF listEnabled.repo_returns, where d = "length (ms_jobs (e_mem e))", simplified], clarify)
  fix r e'
  assume r: "repo e (query ListEnabledJobs) = Some (r, e')"
  have up: "returns_unit (length js) e' (do { (created, e) \<leftarrow> topUp e' now js; Some (if created then Notify e else e) })" for js
    using returns_bind [OF topUp_returns [of js e' now], where \<rho> = "\<lambda>e. e" and d = 0
        and f = "\<lambda>(created, e). Some (if created then Notify e else e)"]
    by (simp add: returns_some split_def split del: if_split)
  have "length js \<le> length (ms_jobs (e_mem e))" if "r = Inr js" for js
    using r that ListEnabledJobs_length [of "e_mem e"] by (auto dest!: repo_query_Inr)
  then show "returns_unit (length (ms_jobs (e_mem e))) (snd (r, e')) (case r of Inl _ \<Rightarrow> Some e'
      | Inr js \<Rightarrow> do { (created, e) \<leftarrow> topUp e' now js; Some (if created then Notify e else e) })"
    by (cases r) (auto intro: returns_some returns_mono [OF up] simp del: if_split)
qed

lemma reconcile_returns: "returns_unit (length (ms_jobs (e_mem e))) e (reconcile e)"
proof -
  let ?k = "length (ms_jobs (e_mem e))"
  have last: "returns_unit 0 e' (do { e \<leftarrow> sweepResults e' now; sweepExecutions e now })" for e' now
    by (rule returns_here_unit [OF sweepResults_returns sweepExecutions_returns])
  have ensure: "returns_unit ?k e' (do { e \<leftarrow> ensurePendingOccurrences e' now; e \<leftarrow> sweepResults e now; sweepExecutions e now })"
    if "length (ms_jobs (e_mem e')) \<le> ?k" for e' now
    using returns_mono [OF returns_bind [OF ensurePending_returns [of e' now] last]] that by simp
  let ?e = "snd (now_e e)"
  have same: "e_mem ?e = e_mem e" by (simp add: now_e_def)
  have "returns_unit ?k ?e (do { e \<leftarrow> reapExpiredLeases ?e now; e \<leftarrow> requeueWaitingWithPools e;
      e \<leftarrow> ensurePendingOccurrences e now; e \<leftarrow> sweepResults e now; sweepExecutions e now })" for now
  proof (rule returns_bind [OF reapExpiredLeases_returns, where d = ?k, simplified])
    fix e1
    assume "evolves ?e e1"
    then have e1: "length (ms_jobs (e_mem e1)) \<le> ?k" using evolves_jobs [of ?e e1] same by simp
    show "returns_unit ?k e1 (do { e \<leftarrow> requeueWaitingWithPools e1;
        e \<leftarrow> ensurePendingOccurrences e now; e \<leftarrow> sweepResults e now; sweepExecutions e now })"
      by (rule returns_bind [OF requeueWaitingWithPools_returns, where d = ?k, simplified], rule ensure)
         (meson e1 evolves_jobs order_trans)
  qed
  from returns_from [OF _ this, of e] show ?thesis
    by (auto simp: reconcile_def now_e_def intro: returns_some)
qed


section \<open>Operations that first change the registry or the jobs\<close>

lemma returns_registry: "(registry_inv (e_reg e) \<Longrightarrow> returnsBy \<pi> c e res) \<Longrightarrow> returnsBy \<pi> c e res"
  by (auto simp: returnsBy_def engine_ok_def)

lemma same_core_registry: "registry_inv rg \<Longrightarrow> same_core e (e\<lparr>e_reg := rg\<rparr>)"
  by (simp add: same_core_def)

lemma HandleLabelUpdate_returns: "returns 0 e (HandleLabelUpdate e inst m)"
proof (rule returns_registry)
  assume inv: "registry_inv (e_reg e)"
  obtain n er ch rg where up: "UpdateLabels (e_reg e) inst (lu_Announce m) (lu_Withdraw m) = Some ((n, er, ch), rg)"
    using UpdateLabels_no_panic [OF inv] by (metis option.exhaust prod.exhaust)
  have same: "same_core e (e\<lparr>e_reg := rg\<rparr>)"
    by (rule same_core_registry [OF UpdateLabels_inv [OF inv up]])
  show ?thesis
    unfolding HandleLabelUpdate_def up Option.bind.simps prod.case
    by (rule returns_unit0, rule notifyHook_returns, rule same)
       ((rule returns_steps, rule returns_calls) | rule returns_rules | simp split del: if_split)+
qed

lemma registerExecutor_returns: "returns 0 e (registerExecutor e inst et capacity functions labels sender)"
proof (rule returns_registry)
  assume inv: "registry_inv (e_reg e)"
  obtain r rg where "Register (e_reg e) inst et capacity functions labels sender = Some (r, rg)"
    using Register_effect [OF inv] by blast
  then obtain ref old ch where reg: "Register (e_reg e) inst et capacity functions labels sender = Some ((ref, old, ch), rg)"
    by (cases r) auto
  have same: "same_core e (e\<lparr>e_reg := rg\<rparr>)"
    by (rule same_core_registry [OF Register_inv [OF inv reg]])
  show ?thesis
    unfolding registerExecutor_def reg Option.bind.simps prod.case
    by (rule returns_unit0, rule notifyHook_returns, rule same, rule returns_some) simp
qed

text \<open>An upsert whose job identifier is fresh, or whose key is known.\<close>

lemma HandleJobUpsert_advances:
  assumes ok: "engine_ok (k + backlog e) e" and "usable e" and fresh: "fresh_uuid (e_mem e) (jobOf inst m)"
  shows "\<exists>ack e'. HandleJobUpsert e inst m = Some (ack, e') \<and> engine_ok k e' \<and> advances e e'"
proof (cases "validateUpsert m = None")
  case False
  then show ?thesis
    using assms engine_ok_mono [OF ok, of k] store_run.start [of "e_mem e"]
    by (auto simp: HandleJobUpsert_def Let_def advances_def)
next
  case True
  let ?call = "\<lambda>s. UpsertJob s (Some (jobOf inst m))"
  obtain r e1 where r: "repo e ?call = Some (r, e1)" "engine_ok (k + backlog e) e1" "advances e e1"
  proof (cases "e_fault e (e_calls e)")
    case True
    then show ?thesis
      using that ok by (auto simp: repo_def Let_def engine_ok_def advances_def intro: store_run.start)
  next
    case False
    obtain r s' where up: "UpsertJob (e_mem e) (Some (jobOf inst m)) = Some (r, s')"
      using ok UpsertJob_no_panic [of "e_mem e"] by (fastforce simp: engine_ok_def store_inv_def)
    have step: "store_step (e_mem e) s'"
      using store_step.upsert_job [OF _ up] fresh by (simp add: upsert_ok_def)
    with False ok up that show ?thesis
      by (auto simp: repo_def Let_def engine_ok_def advances_def UpsertJob_frame [OF up] room_def
          intro: store_run_one store_step_inv)
  qed
  have e1: "usable e1" "backlog e1 = backlog e"
    using r(3) assms(2) by (simp_all add: advances_def usable_def backlog_def)
  have rest: "returns (backlog e1) e1 (do {
      e \<leftarrow> cancelReplacedExecutions e1 stored;
      e \<leftarrow> (if j_Enabled stored then (let (now, e) = now_e e in materializeJob e stored now) else Some e);
      Some (ack, Notify e) })" for stored and ack :: jobUpsertAckMsg
  proof (rule returns_bind [OF cancelReplaced_returns, where d = "backlog e1", simplified])
    fix e2
    assume "evolves e1 e2"
    then have e2: "usable e2" "backlog e2 = backlog e1" using e1 usable_evolves by auto
    have now: "returns_unit (backlog e1) e2 (case now_e e2 of (now, e) \<Rightarrow> materializeJob e stored now)"
      using e2 returns_from [OF _ materializeJob_returns, of e2 "e2\<lparr>e_ticks := Suc (e_ticks e2)\<rparr>" stored]
      by (simp add: now_e_def usable_def backlog_def)
    have "returns_unit (backlog e1) e2 (if j_Enabled stored then case now_e e2 of (now, e) \<Rightarrow> materializeJob e stored now
        else Some e2)"
      by (auto intro: returns_some now)
    from returns_map [OF this, of snd "\<lambda>e. (ack, Notify e)"]
    show "returns (backlog e1) e2 (do {
      e \<leftarrow> (if j_Enabled stored then (let (now, e) = now_e e2 in materializeJob e stored now) else Some e2);
      Some (ack, Notify e) })"
      unfolding Let_def by (simp add: map_conv_bind_option o_def split del: if_split)
  qed
  have "\<exists>ack e'. HandleJobUpsert e inst m = Some (ack, e') \<and> engine_ok k e' \<and> advances e1 e'"
  proof (cases r)
    case (Inl err)
    then show ?thesis
      using True r by (auto simp: HandleJobUpsert_def Let_def advances_def intro: store_run.start engine_ok_mono)
  next
    case (Inr stored)
    from rest [of stored "\<lparr>jk_JobKey = ju_JobKey m, jk_JobUUID = j_ID stored, jk_Accepted = True, jk_Error = None\<rparr>"] r(2)
    show ?thesis
      using True Inr r(1) e1 by (force simp: returnsBy_def HandleJobUpsert_def Let_def evolves_def)
  qed
  with r(3) show ?thesis
    by (blast intro: advances_trans)
qed

end
