(* ===== verification/Store_Properties.thy ===== *)
theory Store_Properties
  imports Store_Machine
begin

text \<open>
  What the in-memory store promises its callers: runs from the empty store never dereference a
  nil pointer, executions live by the transition table, a version is claimed once, an occurrence
  is materialized once, and the due queue is complete and ordered.
\<close>

section \<open>Runs from the empty store\<close>

lemma reachable_inv: "store_run n (NewStore m p clk) s \<Longrightarrow> store_inv s"
  using NewStore_inv by (blast intro: store_run_inv)

text \<open>
  C16. The in-memory store does not panic for callers that keep its conditions. The runs are those of
  its methods in any order, from empty, in which an upsert names an existing key or brings an identifier
  no stored job has, a conditional update of an attempt lists the states it starts from, none of them
  terminal, and the two 64-bit identifier counters do not wrap. In every state such a run reaches, every
  method that looks identifiers up in one map and dereferences them in another finds them: no call, with
  whatever arguments, dereferences nil. The store itself does not check the first condition:
  \<open>duplicate_uuid_panics\<close> brings it to panic with two keys that share an identifier.
\<close>

theorem store_never_panics:
  assumes "store_run n (NewStore m p clk) s"
  shows "UpsertJob s jp \<noteq> None \<and> GetJobByKey s et key \<noteq> None \<and> CreateExecution s j t st b \<noteq> None
    \<and> DueExecutions s now limit \<noteq> None \<and> ExecutionsInStates s sts \<noteq> None
    \<and> ExecutionsForJob s j \<noteq> None \<and> ExpiredLeases s now \<noteq> None
    \<and> ExpiredExecutions s now limit \<noteq> None \<and> AttemptsForExecution s e \<noteq> None
    \<and> AttemptsOnInstance s h asts \<noteq> None \<and> ResultsForInstance s h limit \<noteq> None"
proof -
  have "jobs_inv s" "executions_inv s" "attempts_inv s" "results_inv s"
    using reachable_inv [OF assms] by (simp_all add: store_inv_def)
  then show ?thesis
    by (simp add: UpsertJob_no_panic GetJobByKey_no_panic CreateExecution_no_panic
        ResultsForInstance_no_panic AttemptsForExecution_inv AttemptsOnInstance_inv
        DueExecutions_def ExecutionsInStates_def ExecutionsForJob_def ExpiredLeases_def
        ExpiredExecutions_def orderedExecutions_inv del: not_None_eq)
qed

text \<open>Concrete jobs the witnesses use.\<close>

definition demo_uuid :: "nat \<Rightarrow> jobUUID" where
  "demo_uuid n = [0, 0, 0, 0, 0, 0, 0, 0, 0, 0, 0, 0, 0, 0, 0, of_nat n]"

definition demo_job :: "nat \<Rightarrow> string \<Rightarrow> job" where
  "demo_job n key = \<lparr>j_ID = demo_uuid n, j_Key = key, j_ExecutorType = ''worker'',
     j_Function = \<lparr>f_Name = ''run'', f_Version = '''', f_InputSignature = '''', f_OutputSignature = ''''\<rparr>,
     j_Args = [], j_Schedule = \<lparr>s_Kind = 1, s_StartUnixNano = 100, s_IntervalMillis = 0\<rparr>,
     j_Enabled = True, j_Backfill = \<lparr>b_Mode = 0, b_MaxCount = 0, b_MaxAgeMillis = 0\<rparr>,
     j_Retry = \<lparr>rt_Policy = 0, rt_MaxRetries = 0, rt_InitialDelayMillis = 0, rt_MaxDelayMillis = 0,
                rt_MultiplierBits = 0\<rparr>,
     j_Overlap = 0, j_Pin = \<lparr>p_Label = '''', p_Policy = 0\<rparr>, j_ResultMode = 0,
     j_SubmitterInstanceID = ''me'', j_SkippedOccurrences = 0, j_Version = 0,
     j_CreatedAt = 0, j_UpdatedAt = 0\<rparr>"

definition demo_store :: memstore where
  "demo_store = NewStore 0 0 (\<lambda>n. 1000 + int n)"

definition demo_store1 :: memstore where
  "demo_store1 = snd (the (UpsertJob demo_store (Some (demo_job 7 ''a''))))"

definition demo_store2 :: memstore where
  "demo_store2 = snd (the (CreateExecution demo_store1 (demo_uuid 7) 100 StateScheduled False))"

lemmas demo_defs = demo_uuid_def demo_job_def demo_store_def demo_store1_def demo_store2_def
  NewStore_def IsZero_iff

lemma demo_upsert: "UpsertJob demo_store (Some (demo_job 7 ''a'')) \<noteq> None
    \<and> upsert_ok demo_store (Some (demo_job 7 ''a''))"
  by (simp add: demo_defs UpsertJob_def upsert_ok_def fresh_uuid_def scopedKey_def readClock_def
      Let_def)

lemma demo_create: "CreateExecution demo_store1 (demo_uuid 7) 100 StateScheduled False \<noteq> None
    \<and> ms_nextExecutionID demo_store1 + 1 \<noteq> 0"
  by (simp add: demo_defs UpsertJob_def scopedKey_def readClock_def Let_def CreateExecution_def)

lemma demo_lookup: "\<exists>x. map_of (ms_executions demo_store2) 1 = Some x \<and> x_Version x = 1
    \<and> x_State x = StateScheduled"
  by (simp add: demo_defs UpsertJob_def scopedKey_def readClock_def Let_def CreateExecution_def)

lemma demo_run: "store_run 2 demo_store demo_store2"
proof -
  have "store_step demo_store demo_store1"
    unfolding demo_store1_def
    using demo_upsert by (auto intro!: store_step.upsert_job [of _ "Some (demo_job 7 ''a'')"])
  moreover have "store_step demo_store1 demo_store2"
    unfolding demo_store2_def
    using demo_create by (auto intro!: store_step.create_execution)
  ultimately show ?thesis
    using store_run.next_step [OF store_run_one, of demo_store demo_store1 demo_store2]
    by (simp add: numeral_2_eq_2)
qed

theorem store_never_panics_witness:
  "store_run 2 (NewStore 0 0 (\<lambda>n. 1000 + int n)) demo_store2
   \<and> DueExecutions demo_store2 2000 0 \<noteq> None"
  using store_never_panics [OF demo_run [unfolded demo_store_def]] demo_run [unfolded demo_store_def]
  by simp

section \<open>Two keys on one identifier\<close>

text \<open>
  The condition on identifiers is not checked by the store, and without it the store can be
  brought to panic by three successful calls: two jobs with different keys and one identifier are
  upserted, the identifier is deleted, and the key of the first job now points at no job. Both a
  lookup and an upsert of that key dereference nil.
\<close>

theorem duplicate_uuid_panics:
  assumes "j_ID b = j_ID a" and "\<not> IsZero (j_ID a)" and "scopedKey a \<noteq> scopedKey b"
    and "UpsertJob (NewStore m p clk) (Some a) = Some (r1, s1)"
    and "UpsertJob s1 (Some b) = Some (r2, s2)"
    and "DeleteJob s2 (j_ID a) = (deleted, s3)"
  shows "deleted \<and> GetJobByKey s3 (j_ExecutorType a) (j_Key a) = None \<and> UpsertJob s3 (Some a) = None"
proof -
  have s1: "ms_jobs s1 = [(j_ID a, a\<lparr>j_Version := 1, j_CreatedAt := clk 0, j_UpdatedAt := clk 0\<rparr>)]"
    "ms_jobKeys s1 = [(scopedKey a, j_ID a)]"
    using assms(2,4) by (auto simp: UpsertJob_def NewStore_def readClock_def Let_def scopedKey_def)
  have s2: "map fst (ms_jobs s2) = [j_ID a]" "\<exists>x. map_of (ms_jobs s2) (j_ID a) = Some x \<and> scopedKey x = scopedKey b"
    "ms_jobKeys s2 = [(scopedKey a, j_ID a), (scopedKey b, j_ID a)]"
    using assms(1-3,5) s1 by (auto simp: UpsertJob_def readClock_def Let_def scopedKey_def)
  then have "deleted" and "ms_jobs s3 = []" and "ms_jobKeys s3 = [(scopedKey a, j_ID a)]"
    using assms(3,6) by (auto simp: DeleteJob_def delete_filter filter_empty_conv image_iff
        split: option.splits)
  then show ?thesis
    by (simp add: GetJobByKey_def UpsertJob_def readClock_def Let_def scopedKey_def)
qed

definition dup_store1 :: memstore where
  "dup_store1 = snd (the (UpsertJob demo_store (Some (demo_job 7 ''a''))))"

definition dup_store2 :: memstore where
  "dup_store2 = snd (the (UpsertJob dup_store1 (Some (demo_job 7 ''b''))))"

definition dup_store3 :: memstore where
  "dup_store3 = snd (DeleteJob dup_store2 (demo_uuid 7))"

theorem duplicate_uuid_panics_witness:
  "GetJobByKey dup_store3 ''worker'' ''a'' = None \<and> UpsertJob dup_store3 (Some (demo_job 7 ''a'')) = None"
proof -
  have "UpsertJob (NewStore 0 0 (\<lambda>n. 1000 + int n)) (Some (demo_job 7 ''a''))
      = Some (fst (the (UpsertJob demo_store (Some (demo_job 7 ''a'')))), dup_store1)"
    by (simp add: demo_defs dup_store1_def UpsertJob_def scopedKey_def readClock_def Let_def)
  moreover have "UpsertJob dup_store1 (Some (demo_job 7 ''b''))
      = Some (fst (the (UpsertJob dup_store1 (Some (demo_job 7 ''b'')))), dup_store2)"
    by (simp add: demo_defs dup_store1_def dup_store2_def UpsertJob_def scopedKey_def readClock_def
        Let_def)
  moreover have "DeleteJob dup_store2 (j_ID (demo_job 7 ''a''))
      = (fst (DeleteJob dup_store2 (demo_uuid 7)), dup_store3)"
    by (simp add: dup_store3_def demo_job_def)
  moreover have "\<not> IsZero (j_ID (demo_job 7 ''a''))" "j_ID (demo_job 7 ''b'') = j_ID (demo_job 7 ''a'')"
    "scopedKey (demo_job 7 ''a'') \<noteq> scopedKey (demo_job 7 ''b'')"
    by (simp_all add: demo_job_def demo_uuid_def IsZero_iff scopedKey_def)
  ultimately show ?thesis
    using duplicate_uuid_panics [of "demo_job 7 ''b''" "demo_job 7 ''a''"]
    by (simp add: demo_job_def)
qed

section \<open>The life of an execution\<close>

text \<open>
  C17. Along any run an execution that stays stored keeps its identity, moves only along the
  transition table, and once in a settled state stays in it; once removed, its identifier never
  names an execution again.
\<close>

theorem execution_lifecycle:
  assumes "store_run n s s'" and "store_inv s" and "map_of (ms_executions s) i = Some x"
  shows "case map_of (ms_executions s') i of
      None \<Rightarrow> (\<forall>k s''. store_run k s' s'' \<longrightarrow> map_of (ms_executions s'') i = None)
    | Some y \<Rightarrow> same_occurrence x y \<and> transitions (x_State x) (x_State y)
        \<and> (Terminal (x_State x) \<longrightarrow> x_State y = x_State x)"
proof (cases "map_of (ms_executions s') i")
  case None
  have "store_inv s'" "i \<le> ms_nextExecutionID s'"
    using assms store_run_inv store_run_execution by blast+
  with None show ?thesis using store_run_gone by fastforce
next
  case (Some y)
  then have "aged n x y"
    using store_run_execution [OF assms] by simp
  with Some show ?thesis
    by (auto simp: aged_def dest: transitions_terminal)
qed

theorem execution_lifecycle_witness:
  "\<exists>x. map_of (ms_executions demo_store2) 1 = Some x \<and> same_occurrence x x
     \<and> store_run 0 demo_store2 demo_store2"
proof -
  have inv: "store_inv demo_store2"
    using demo_run NewStore_inv [of 0 0 "\<lambda>n. 1000 + int n"]
    by (auto simp: demo_store_def intro: store_run_inv)
  obtain x where x: "map_of (ms_executions demo_store2) 1 = Some x"
    using demo_lookup by auto
  show ?thesis
    using execution_lifecycle [OF store_run.start inv x] x store_run.start by auto
qed

text \<open>
  C19. Optimistic concurrency: when two goroutines update an execution against the same version,
  and fewer than \<open>2 ^ 64 - 1\<close> other store calls lie between, at most one of the updates succeeds.
  The loser is answered with a version conflict, or not found when the execution is gone.
\<close>

theorem version_claimed_once:
  assumes "store_inv s" and "UpdateExecution s i v u = (Inr x, t)"
    and "store_run n t s'" and "n < 2 ^ 64 - 1"
  shows "fst (UpdateExecution s' i v u') = Inl ErrVersionConflict
    \<or> fst (UpdateExecution s' i v u') = Inl ErrExecutionNotFound"
proof -
  obtain x0 where x0: "map_of (ms_executions s) i = Some x0" "x_Version x0 = v"
    "map_of (ms_executions t) i = Some x" "x_Version x = v + 1"
    using assms(2)
    by (auto simp: UpdateExecution_def readClock_def Let_def AList.update_conv' applyUpdate_def
        split: option.splits if_splits)
  have inv: "store_inv t"
    using other_ops_inv(4) [OF assms(1), of i v u] assms(2) by simp
  show ?thesis
  proof (cases "map_of (ms_executions s') i")
    case None
    then show ?thesis by (simp add: UpdateExecution_def)
  next
    case (Some y)
    then obtain k where k: "k \<le> n" "x_Version y = x_Version x + of_nat k"
      using store_run_execution [OF assms(3) inv x0(3)] by (auto simp: aged_def)
    have "(of_nat (Suc k) :: u64) \<noteq> 0"
      using k(1) assms(4) by (simp del: of_nat_Suc add: word_of_nat_eq_0_iff nat_dvd_not_less)
    then have "x_Version y \<noteq> v"
      using k(2) x0(4) by (simp add: algebra_simps)
    with Some show ?thesis by (simp add: UpdateExecution_def)
  qed
qed

theorem version_claimed_once_witness:
  "fst (UpdateExecution (snd (UpdateExecution demo_store2 1 1 (emptyUpdate\<lparr>u_State := Some StateReady\<rparr>)))
       1 1 (emptyUpdate\<lparr>u_State := Some StateCancelled\<rparr>)) = Inl ErrVersionConflict
   \<or> fst (UpdateExecution (snd (UpdateExecution demo_store2 1 1 (emptyUpdate\<lparr>u_State := Some StateReady\<rparr>)))
       1 1 (emptyUpdate\<lparr>u_State := Some StateCancelled\<rparr>)) = Inl ErrExecutionNotFound"
proof -
  let ?u = "emptyUpdate\<lparr>u_State := Some StateReady\<rparr>"
  have inv: "store_inv demo_store2"
    using demo_run NewStore_inv [of 0 0 "\<lambda>n. 1000 + int n"]
    by (auto simp: demo_store_def intro: store_run_inv)
  obtain x where "UpdateExecution demo_store2 1 1 ?u = (Inr x, snd (UpdateExecution demo_store2 1 1 ?u))"
    using demo_lookup
    by (auto simp: UpdateExecution_def stateCheck_def CanTransition_def emptyUpdate_def readClock_def Let_def)
  from version_claimed_once [OF inv this store_run.start] show ?thesis by simp
qed

section \<open>Occurrences\<close>

lemma CreateExecution_cases:
  assumes "CreateExecution s j t st b = Some (Inr (x, created), s')"
  shows "(created \<and> map_of (ms_occurrences s) (j, unixNano t) = None
      \<and> x_ID x = ms_nextExecutionID s + 1 \<and> occurrenceOf x = (j, unixNano t) \<and> x_State x = st
      \<and> ms_jobs s' = ms_jobs s
      \<and> ms_executions s' = AList.update (x_ID x) x (ms_executions s))
    \<or> (\<not> created \<and> s' = s \<and> (\<exists>i. map_of (ms_occurrences s) (j, unixNano t) = Some i
      \<and> map_of (ms_executions s) i = Some x))"
proof (cases "map_of (ms_occurrences s) (j, unixNano t)")
  case None
  then show ?thesis
    using assms by (auto simp: CreateExecution_def readClock_def Let_def occurrenceOf_def split: if_splits)
next
  case (Some i)
  then show ?thesis
    using assms by (simp add: CreateExecution_def Let_def split: if_splits) auto
qed

lemma occurrence_unique:
  assumes "executions_inv s" and "map_of (ms_executions s) i = Some x"
    and "map_of (ms_executions s) k = Some y" and "occurrenceOf x = occurrenceOf y"
  shows "i = k \<and> x = y"
  using assms(1,4) map_of_SomeD [OF assms(2)] map_of_SomeD [OF assms(3)]
    inj_fieldD [of occurrenceOf "ms_executions s" i x k y]
  by (simp add: executions_inv_def)

text \<open>
  C18. An occurrence of a job is materialized once: a successful \<open>CreateExecution\<close> returns the one
  stored execution of that job at that instant, reports \<open>created\<close> exactly when there was none
  before, leaves the store alone otherwise, and every replay returns the same execution unchanged.
\<close>

theorem occurrence_materialized_once:
  assumes "store_inv s" and "ms_nextExecutionID s + 1 \<noteq> 0"
    and "CreateExecution s j t st b = Some (Inr (x, created), s')"
  shows "occurrenceOf x = (j, unixNano t) \<and> map_of (ms_executions s') (x_ID x) = Some x
    \<and> (\<forall>i y. map_of (ms_executions s') i = Some y \<longrightarrow> occurrenceOf y = (j, unixNano t) \<longrightarrow> y = x)
    \<and> (created \<longleftrightarrow> (\<forall>i y. map_of (ms_executions s) i = Some y \<longrightarrow> occurrenceOf y \<noteq> (j, unixNano t)))
    \<and> (\<not> created \<longrightarrow> s' = s)
    \<and> CreateExecution s' j t st' b' = Some (Inr (x, False), s')"
proof -
  have inv: "executions_inv s" "executions_inv s'"
    using assms(1) CreateExecution_inv [OF assms] by (simp_all add: store_inv_def)
  note occ = executions_inv_occurrence [OF inv(1)] executions_inv_occurrence [OF inv(2)]
  have created: "created \<longleftrightarrow> map_of (ms_occurrences s) (j, unixNano t) = None"
    using CreateExecution_cases [OF assms(3)] by auto
  have x: "occurrenceOf x = (j, unixNano t)" "map_of (ms_executions s') (x_ID x) = Some x"
    using CreateExecution_cases [OF assms(3)] occ(1) executions_inv_ID [OF inv(1)]
    by (auto simp: AList.update_conv')
  then have "map_of (ms_occurrences s') (j, unixNano t) = Some (x_ID x)"
    using occ(2) by blast
  moreover have "map_of (ms_jobs s') j \<noteq> None"
    using assms(3) CreateExecution_frame(1) [OF assms(3)]
    by (auto simp: CreateExecution_def split: if_splits)
  ultimately have "CreateExecution s' j t st' b' = Some (Inr (x, False), s')"
    using x(2) by (simp add: CreateExecution_def Let_def)
  moreover have "created \<longleftrightarrow> (\<forall>i y. map_of (ms_executions s) i = Some y \<longrightarrow> occurrenceOf y \<noteq> (j, unixNano t))"
    unfolding created using occ(1) [of "(j, unixNano t)"] by (metis not_None_eq)
  moreover have "\<forall>i y. map_of (ms_executions s') i = Some y \<longrightarrow> occurrenceOf y = (j, unixNano t) \<longrightarrow> y = x"
    using x occurrence_unique [OF inv(2)] by metis
  moreover have "\<not> created \<longrightarrow> s' = s"
    using CreateExecution_cases [OF assms(3)] by blast
  ultimately show ?thesis
    using x by blast
qed

theorem occurrence_materialized_once_witness:
  "\<exists>x. CreateExecution demo_store2 (demo_uuid 7) 100 StateReady True = Some (Inr (x, False), demo_store2)"
proof -
  have inv: "store_inv demo_store1"
    using demo_upsert NewStore_inv [of 0 0 "\<lambda>n. 1000 + int n"]
    by (auto simp: demo_store_def [symmetric] demo_store1_def intro: UpsertJob_inv)
  obtain x c where "CreateExecution demo_store1 (demo_uuid 7) 100 StateScheduled False
      = Some (Inr (x, c), demo_store2)"
    by (simp add: demo_defs UpsertJob_def scopedKey_def readClock_def Let_def CreateExecution_def)
  from occurrence_materialized_once [OF inv _ this] demo_create show ?thesis by blast
qed

section \<open>The due queue\<close>

lemma capped_eq: "capped limit xs = (if 0 < limit then take (nat limit) xs else xs)"
  by (auto simp: capped_def)

lemma sorted_take_rest:
  assumes "sorted (map f xs)" and "x \<in> set (take n xs)" and "y \<in> set xs" and "y \<notin> set (take n xs)"
  shows "f x \<le> (f y :: 'a::linorder)"
proof -
  have "y \<in> set (drop n xs)"
    using assms(3,4) by (metis append_take_drop_id in_set_conv_decomp set_append Un_iff)
  moreover have "sorted (map f (take n xs) @ map f (drop n xs))"
    using assms(1) by (simp flip: map_append)
  ultimately show ?thesis
    using assms(2) by (auto simp: sorted_append)
qed

text \<open>
  C20. \<open>DueExecutions\<close> returns, ordered by schedule time and then identifier, exactly the stored
  executions that are due; a positive limit keeps the first ones in that order and no more.
\<close>

theorem due_queue_complete:
  assumes "store_inv s"
  shows "\<exists>xs. DueExecutions s now limit = Some xs
    \<and> sorted (map (\<lambda>x. (x_ScheduledAt x, x_ID x)) xs) \<and> distinct xs
    \<and> set xs \<subseteq> {x \<in> ran (map_of (ms_executions s)). executionDue x now}
    \<and> (limit \<le> 0 \<longrightarrow> set xs = {x \<in> ran (map_of (ms_executions s)). executionDue x now})
    \<and> (0 < limit \<longrightarrow>
        int (length xs) = min limit (int (card {x \<in> ran (map_of (ms_executions s)). executionDue x now}))
        \<and> (\<forall>x \<in> set xs. \<forall>y \<in> ran (map_of (ms_executions s)). executionDue y now \<longrightarrow> y \<notin> set xs
             \<longrightarrow> (x_ScheduledAt x, x_ID x) \<le> (x_ScheduledAt y, x_ID y)))"
proof -
  let ?key = "\<lambda>x. (x_ScheduledAt x, x_ID x)"
  let ?due = "filter (\<lambda>x. executionDue x now) (map snd (ms_executions s))"
  define xs where "xs = sort_key ?key ?due"
  have inv: "executions_inv s" and d: "distinct (map fst (ms_executions s))"
    using assms by (simp_all add: store_inv_def executions_inv_def)
  have ran: "ran (map_of (ms_executions s)) = snd ` set (ms_executions s)"
    using d by (rule ran_distinct)
  have "map x_ID (map snd (ms_executions s)) = map fst (ms_executions s)"
    using inv by (auto simp: executions_inv_def)
  with d have "distinct (map snd (ms_executions s))"
    by (metis distinct_map)
  then have dist: "distinct xs" by (simp add: xs_def)
  have set: "set xs = {x \<in> ran (map_of (ms_executions s)). executionDue x now}"
    unfolding ran xs_def by auto
  have sorted: "sorted (map ?key xs)" unfolding xs_def by (rule sorted_sort_key)
  have card: "length xs = card {x \<in> ran (map_of (ms_executions s)). executionDue x now}"
    using dist set distinct_card by metis
  have due: "DueExecutions s now limit = Some (capped limit xs)"
    unfolding xs_def by (simp add: DueExecutions_def orderedExecutions_inv [OF inv])
  have "?key x \<le> ?key y"
    if "x \<in> set (take n xs)" and "y \<in> ran (map_of (ms_executions s))" and "executionDue y now"
      and "y \<notin> set (take n xs)" for x y n
    using sorted_take_rest [OF sorted that(1) _ that(4)] that set by blast
  then have rest: "\<forall>x \<in> set (take n xs). \<forall>y \<in> ran (map_of (ms_executions s)). executionDue y now
      \<longrightarrow> y \<notin> set (take n xs) \<longrightarrow> ?key x \<le> ?key y" for n
    by blast
  have sub: "sorted (map ?key (take n xs))" "distinct (take n xs)" for n
    using sorted dist by (simp_all only: take_map [symmetric] sorted_wrt_take distinct_take)
  have subset: "set (take n xs) \<subseteq> {x \<in> ran (map_of (ms_executions s)). executionDue x now}" for n
    using set set_take_subset [of n xs] by blast
  have len: "int (length (take (nat limit) xs)) = min limit (int (length xs))" if "0 < limit"
    using that by (auto simp: min_def)
  show ?thesis
  proof (cases "0 < limit")
    case True
    with sub [of "nat limit"] subset [of "nat limit"] len rest [of "nat limit"] card due show ?thesis
      by (intro exI [of _ "take (nat limit) xs"] conjI) (simp_all only: capped_eq if_True linorder_not_le [symmetric] not_True_eq_False, simp_all)
  next
    case False
    with sorted dist set due show ?thesis
      by (intro exI [of _ xs] conjI) (simp_all only: capped_eq if_False, simp_all)
  qed
qed

theorem due_queue_complete_witness:
  "\<exists>xs. DueExecutions demo_store2 2000 1 = Some xs \<and> int (length xs) = min 1
     (int (card {x \<in> ran (map_of (ms_executions demo_store2)). executionDue x 2000}))"
proof -
  have "store_inv demo_store2"
    using demo_run unfolding demo_store_def by (rule reachable_inv)
  from due_queue_complete [OF this, of 2000 1] show ?thesis by auto
qed

section \<open>The next wake time\<close>

lemma capped_Nil: "capped limit xs = [] \<longleftrightarrow> xs = []"
  by (auto simp: capped_def)

lemma sort_key_Nil: "sort_key f xs = [] \<longleftrightarrow> xs = []"
  by (metis length_0_conv length_sort)

lemma executionDue_wake: "executionDue x now \<longleftrightarrow> (\<exists>w. executionWakeTime x = Some w \<and> w \<le> now)"
  by (auto split: executionState.splits)

lemma earliestWake_iff:
  "(snd (earliestWake acc xs) \<and> fst (earliestWake acc xs) \<le> now)
     \<longleftrightarrow> (snd acc \<and> fst acc \<le> now) \<or> (\<exists>x \<in> set xs. executionDue x now)"
proof (induction acc xs rule: earliestWake.induct)
  case (1 acc)
  then show ?case by simp
next
  case (2 earliest found x xs)
  then show ?case
    by (cases "executionWakeTime x")
       (auto simp: executionDue_wake simp del: executionDue.simps executionWakeTime.simps)
qed

text \<open>
  \<open>NextWakeAt\<close> is the instant the due queue next fills: for every instant, the due queue of
  that instant is non-empty exactly when \<open>NextWakeAt\<close> reports a wake time no later than it. A
  scheduler that sleeps until the reported time misses no execution and never wakes to an empty
  queue, and one told there is nothing to wait for has an empty queue at every instant.
\<close>

theorem next_wake_agrees:
  assumes "store_inv s"
  shows "DueExecutions s now limit \<noteq> Some [] \<longleftrightarrow> snd (NextWakeAt s) \<and> fst (NextWakeAt s) \<le> now"
proof -
  have "orderedExecutions s = Some (map snd (ms_executions s))"
    using assms by (simp add: store_inv_def orderedExecutions_inv)
  then have "DueExecutions s now limit = Some (capped limit (sort_key (\<lambda>x. (x_ScheduledAt x, x_ID x))
      (filter (\<lambda>x. executionDue x now) (map snd (ms_executions s)))))"
    by (simp add: DueExecutions_def)
  then have "DueExecutions s now limit \<noteq> Some [] \<longleftrightarrow> (\<exists>x \<in> set (map snd (ms_executions s)). executionDue x now)"
    by (simp only: option.inject capped_Nil sort_key_Nil filter_empty_conv) blast
  also have "\<dots> \<longleftrightarrow> snd (NextWakeAt s) \<and> fst (NextWakeAt s) \<le> now"
    using earliestWake_iff [of "(zeroTime, False)"] by (simp add: NextWakeAt_def)
  finally show ?thesis .
qed

theorem next_wake_agrees_witness:
  "DueExecutions demo_store2 99 0 = Some [] \<longleftrightarrow> \<not> (snd (NextWakeAt demo_store2) \<and> fst (NextWakeAt demo_store2) \<le> 99)"
proof -
  have "store_inv demo_store2"
    using demo_run unfolding demo_store_def by (rule reachable_inv)
  from next_wake_agrees [OF this, of 99 0] show ?thesis by auto
qed

section \<open>Held results\<close>

lemma StoreResult_stored:
  assumes "StoreResult s (Some r) = (Inr True, s')"
  shows "\<exists>x. map_of (ms_results s') (r_JobUUID r) = Some x
    \<and> x = r\<lparr>r_Attempts := r_Attempts x, r_CreatedAt := r_CreatedAt x, r_LastSentAt := r_LastSentAt x\<rparr>
    \<and> (r_Attempts x, r_CreatedAt x, r_LastSentAt x) =
       (case map_of (ms_results s) (r_JobUUID r) of
          None \<Rightarrow> (0, ms_now s, zeroTime)
        | Some y \<Rightarrow> (r_Attempts y, r_CreatedAt y, r_LastSentAt y))
    \<and> (\<forall>i. i \<noteq> r_JobUUID r \<longrightarrow> map_of (ms_results s') i = map_of (ms_results s) i)"
  using assms
  by (cases "map_of (ms_results s) (r_JobUUID r)")
     (auto simp: StoreResult_def readClock_def Let_def detachResult_def AList.update_conv'
       split: if_splits)

lemma StoreResult_refused: "StoreResult s rp = (Inr False, s') \<Longrightarrow> s' = s"
  by (cases rp; cases "map_of (ms_results s) (r_JobUUID (the rp))")
     (auto simp: StoreResult_def readClock_def Let_def split: if_splits)

text \<open>
  The held results stay within their two caps, a stored result is the one the caller gave
  with the delivery counters and the creation instant of the result it replaces, a refused one
  leaves the store as it was, and either way the listing of an instance afterwards holds exactly
  the results stored for it.
\<close>

theorem results_held_within_caps:
  assumes "store_inv s" and "StoreResult s (Some r) = (Inr stored, s')"
  shows "CountResults s' \<le> unat (ms_maxResults s')
    \<and> (\<exists>rs. ResultsForInstance s' h 0 = Some rs \<and> length rs \<le> unat (ms_maxResultsPerInstance s')
         \<and> set rs = {x. r_InstanceID x = h \<and> map_of (ms_results s') (r_JobUUID x) = Some x})
    \<and> (if stored
       then \<exists>x. map_of (ms_results s') (r_JobUUID r) = Some x
         \<and> x = r\<lparr>r_Attempts := r_Attempts x, r_CreatedAt := r_CreatedAt x, r_LastSentAt := r_LastSentAt x\<rparr>
         \<and> (r_Attempts x, r_CreatedAt x, r_LastSentAt x) =
            (case map_of (ms_results s) (r_JobUUID r) of
               None \<Rightarrow> (0, ms_now s, zeroTime)
             | Some y \<Rightarrow> (r_Attempts y, r_CreatedAt y, r_LastSentAt y))
         \<and> (\<forall>i. i \<noteq> r_JobUUID r \<longrightarrow> map_of (ms_results s') i = map_of (ms_results s) i)
       else s' = s)"
proof -
  have inv: "results_inv s'"
    using StoreResult_results_inv [of s "Some r"] assms by (simp add: store_inv_def)
  obtain rs where rs: "ResultsForInstance s' h 0 = Some rs"
    "\<forall>x. x \<in> set rs \<longleftrightarrow> r_InstanceID x = h \<and> map_of (ms_results s') (r_JobUUID x) = Some x"
    "length rs = length (lookupSlice (ms_resultsByInstance s') h)"
    using ResultsForInstance_all [OF inv] by blast
  have "set rs = {x. r_InstanceID x = h \<and> map_of (ms_results s') (r_JobUUID x) = Some x}"
    using rs(2) by blast
  moreover have "length rs \<le> unat (ms_maxResultsPerInstance s')"
    using inv rs(3) by (simp add: results_inv_def)
  moreover have "CountResults s' \<le> unat (ms_maxResults s')"
    using inv by (simp add: results_inv_def CountResults_def)
  ultimately show ?thesis
    using assms(2) StoreResult_stored [of s r s'] StoreResult_refused [of s "Some r" s'] rs(1)
    by (cases stored) simp_all
qed

definition demo_result :: "nat \<Rightarrow> pendingResult" where
  "demo_result n = \<lparr>r_JobUUID = demo_uuid n, r_InstanceID = ''me'', r_ExecutionID = 1,
     r_Success = True, r_HasValue = False, r_Payload = [], r_Cause = None, r_Attempts = 5,
     r_CreatedAt = 3, r_LastSentAt = 4\<rparr>"

theorem results_held_within_caps_witness:
  "\<exists>s'. StoreResult demo_store (Some (demo_result 7)) = (Inr True, s')
    \<and> CountResults s' \<le> unat (ms_maxResults s')"
proof -
  have "store_inv demo_store"
    unfolding demo_store_def by (rule NewStore_inv)
  moreover obtain s' where s': "StoreResult demo_store (Some (demo_result 7)) = (Inr True, s')"
    by (simp add: StoreResult_def demo_store_def NewStore_def readClock_def Let_def
        DefaultMaxResults_def DefaultMaxResultsPerInstance_def)
  ultimately show ?thesis
    using results_held_within_caps by blast
qed

section \<open>Attempt listings\<close>

lemma attempts_values_distinct: "attempts_inv s \<Longrightarrow> distinct (map snd (ms_attempts s))"
proof -
  assume inv: "attempts_inv s"
  have "map a_ID (map snd (ms_attempts s)) = map fst (ms_attempts s)"
    using inv by (auto simp: attempts_inv_def)
  with inv show ?thesis
    unfolding attempts_inv_def by (metis distinct_map)
qed

text \<open>
  The two indexes of attempts never drift from the attempts: the listing of an execution holds
  each of its stored attempts once, and the listing of an instance holds once each of its
  unsettled attempts in the given states (in any state when none is given), and no settled one.
\<close>

theorem attempt_listings_exact:
  assumes "store_inv s"
  shows "\<exists>xs ys. AttemptsForExecution s e = Some xs \<and> AttemptsOnInstance s h states = Some ys
    \<and> distinct xs \<and> set xs = {a \<in> ran (map_of (ms_attempts s)). a_ExecutionID a = e}
    \<and> distinct ys \<and> set ys = {a \<in> ran (map_of (ms_attempts s)). a_InstanceID a = h
         \<and> \<not> AttemptTerminal (a_State a) \<and> (states = [] \<or> a_State a \<in> set states)}"
proof -
  have inv: "attempts_inv s"
    using assms by (simp add: store_inv_def)
  have ran: "ran (map_of (ms_attempts s)) = set (map snd (ms_attempts s))"
    using inv by (simp add: attempts_inv_def ran_distinct)
  show ?thesis
    unfolding ran AttemptsForExecution_inv [OF inv] AttemptsOnInstance_inv [OF inv]
    using attempts_values_distinct [OF inv]
    by (simp add: openHost_def) blast
qed

theorem attempt_listings_exact_witness:
  "\<exists>xs. AttemptsForExecution demo_store2 1 = Some xs \<and> distinct xs"
proof -
  have "store_inv demo_store2"
    using demo_run unfolding demo_store_def by (rule reachable_inv)
  from attempt_listings_exact [OF this, of 1] show ?thesis by blast
qed

end
