(* ===== verification/Engine_Machine.thy ===== *)
theory Engine_Machine
  imports Engine_Safety Store_Properties
begin

text \<open>
  The engine as a machine: what its callers and its own loops do to it, one operation at a time,
  from a new engine over a new store and a new registry.
\<close>

section \<open>Operations\<close>

datatype engineOp =
    DoStart
  | DoPause
  | DoStop
  | DoNotify
  | DoTurn
  | DoReconcile
  | DoUpsert instanceID jobUpsertMsg
  | DoDelete instanceID jobDeleteMsg
  | DoAccept instanceID execAcceptMsg
  | DoResult instanceID execResultMsg
  | DoAck instanceID resultDeliveryAckMsg
  | DoRegistered instanceID
  | DoDisconnect instanceID
  | DoHeartbeat instanceID
  | DoLabels instanceID labelUpdateMsg
  | DoRegister instanceID executorType u32 "functionSpec list" "label list" senderID
  | DoDeregister instanceID u64

fun engine_step :: "'f float64 \<Rightarrow> engineOp \<Rightarrow> engine \<Rightarrow> engine option" where
  "engine_step fl DoStart e = engine_Start e"
| "engine_step fl DoPause e = Some (engine_Pause e)"
| "engine_step fl DoStop e = Some (engine_Stop e)"
| "engine_step fl DoNotify e = Some (Notify e)"
| "engine_step fl DoTurn e = map_option snd (timingTurn e)"
| "engine_step fl DoReconcile e = reconcile e"
| "engine_step fl (DoUpsert i m) e = map_option snd (HandleJobUpsert e i m)"
| "engine_step fl (DoDelete i m) e = map_option snd (HandleJobDelete e i m)"
| "engine_step fl (DoAccept i m) e = HandleExecAccept e i m"
| "engine_step fl (DoResult i m) e = HandleExecResult fl e i m"
| "engine_step fl (DoAck i m) e = HandleResultAck e i m"
| "engine_step fl (DoRegistered i) e = HandleRegistered e i"
| "engine_step fl (DoDisconnect i) e = HandleDisconnect e i"
| "engine_step fl (DoHeartbeat i) e = HandleHeartbeat e i"
| "engine_step fl (DoLabels i m) e = map_option snd (HandleLabelUpdate e i m)"
| "engine_step fl (DoRegister i et c fs ls s) e = map_option snd (registerExecutor e i et c fs ls s)"
| "engine_step fl (DoDeregister i g) e = map_option (\<lambda>(_, rg). e\<lparr>e_reg := rg\<rparr>) (Deregister (e_reg e) i g)"

text \<open>
  How many identifiers an operation may need, and when it may run: there is room for them, and an
  upsert of a new key brings a job identifier that is not in use.
\<close>

definition op_cost :: "engine \<Rightarrow> engineOp \<Rightarrow> nat" where
  "op_cost e op = (case op of
     DoStart \<Rightarrow> backlog e * length (ms_jobs (e_mem e))
   | DoTurn \<Rightarrow> 2 * nat (cf_DispatchBatch (e_cfg e))
   | DoReconcile \<Rightarrow> length (ms_jobs (e_mem e))
   | DoUpsert _ _ \<Rightarrow> backlog e
   | _ \<Rightarrow> 0)"

definition op_ok :: "engine \<Rightarrow> engineOp \<Rightarrow> bool" where
  "op_ok e op \<longleftrightarrow> room (op_cost e op) (e_mem e)
     \<and> (case op of DoUpsert i m \<Rightarrow> fresh_uuid (e_mem e) (jobOf i m) | _ \<Rightarrow> True)"

section \<open>Every operation returns\<close>

text \<open>The operations whose \<open>returns\<close> lemma concludes directly.\<close>

lemma returns_outcome:
  "returnsBy \<pi> c e res \<Longrightarrow> engine_ok c e \<Longrightarrow> \<exists>e'. map_option \<pi> res = Some e' \<and> engine_ok 0 e' \<and> advances e e'"
  unfolding returnsBy_def evolves_def by (metis add_0 option.simps(9))

lemma returns_outcome_unit:
  "returns_unit c e res \<Longrightarrow> engine_ok c e \<Longrightarrow> \<exists>e'. res = Some e' \<and> engine_ok 0 e' \<and> advances e e'"
  using returns_outcome [of "\<lambda>e. e" c e res] by (simp add: option.map_ident)

lemma advances_same: "same_core e e' \<Longrightarrow> advances e e'"
  using same_core_evolves [of e e'] by (simp add: evolves_def)

lemma engine_step_returns:
  assumes ok: "engine_ok (op_cost e op) e" and "usable e" and "op_ok e op"
  shows "\<exists>e'. engine_step fl op e = Some e' \<and> engine_ok 0 e' \<and> advances e e'"
proof (cases op)
  case (DoUpsert i m)
  then show ?thesis
    using HandleJobUpsert_advances [of 0 e i m] assms by (auto simp: op_cost_def op_ok_def)
next
  case (DoDeregister i g)
  have inv: "registry_inv (e_reg e)" using ok by (simp add: engine_ok_def)
  obtain b rg where d: "Deregister (e_reg e) i g = Some (b, rg)"
    using Deregister_no_panic [OF inv, of i g] by fastforce
  have "same_core e (e\<lparr>e_reg := rg\<rparr>)"
    by (rule same_core_registry [OF Deregister_inv [OF inv d]])
  with d DoDeregister ok show ?thesis
    by (auto simp: op_cost_def intro: advances_same same_core_ok)
next
  case DoPause
  have "same_core e (engine_Pause e)" by (simp add: same_core_def engine_Pause_def)
  with DoPause ok show ?thesis by (auto simp: op_cost_def intro: advances_same same_core_ok)
next
  case DoStop
  have "same_core e (engine_Stop e)" by (simp add: same_core_def engine_Stop_def)
  with DoStop ok show ?thesis by (auto simp: op_cost_def intro: advances_same same_core_ok)
next
  case DoNotify
  with ok show ?thesis
    using same_core_ok [of e "Notify e" 0] advances_same [of e "Notify e"] by (simp add: op_cost_def)
qed (use assms in \<open>auto simp: op_cost_def simp del: map_option_eq_Some intro!:
      returns_outcome_unit [OF engine_Start_returns] returns_outcome [OF timingTurn_returns]
      returns_outcome_unit [OF reconcile_returns] returns_outcome [OF HandleJobDelete_returns]
      returns_outcome_unit [OF HandleExecAccept_returns] returns_outcome_unit [OF HandleExecResult_returns]
      returns_outcome_unit [OF HandleResultAck_returns] returns_outcome_unit [OF HandleRegistered_returns]
      returns_outcome_unit [OF HandleDisconnect_returns] returns_outcome_unit [OF HandleHeartbeat_returns]
      returns_outcome [OF HandleLabelUpdate_returns] returns_outcome [OF registerExecutor_returns]\<close>)

section \<open>Reachable engines\<close>

text \<open>From a new engine, by any operations, each of which may run where it does.\<close>

inductive engine_reach :: "'f float64 \<Rightarrow> engine \<Rightarrow> engine \<Rightarrow> bool" for fl where
  fresh: "in_int64 (cf_BackfillMaxAge (case cfg of None \<Rightarrow> zeroConfig | Some c \<Rightarrow> c))
    \<Longrightarrow> e = NewEngine cfg (NewStore m p clk) NewExecutorRegistry eclk fault accept texts
    \<Longrightarrow> engine_reach fl e e"
| step: "engine_reach fl s e \<Longrightarrow> op_ok e op \<Longrightarrow> engine_step fl op e = Some e' \<Longrightarrow> engine_reach fl s e'"

inductive_cases engine_reachE: "engine_reach fl s e"

lemma reach_ok:
  assumes "engine_reach fl s e"
  shows "store_inv (e_mem e) \<and> registry_inv (e_reg e) \<and> usable e
    \<and> (\<exists>n. store_run n (e_mem s) (e_mem e)) \<and> e_cfg e = e_cfg s"
  using assms
proof (induction rule: engine_reach.induct)
  case (fresh cfg e m p clk eclk fault accept texts)
  have "in_int64 (positiveOr x d)" if "in_int64 x" "in_int64 d" for x d
    using that by (simp add: positiveOr_def)
  moreover have "in_int64 DefaultBackfillMaxAge"
    by (simp add: DefaultBackfillMaxAge_def in_int64_def minInt64_def maxInt64_def duration_defs)
  moreover have "store_inv (e_mem e)"
    using reachable_inv [OF store_run.start] fresh by (simp add: NewEngine_def)
  ultimately show ?case
    using fresh
    by (auto simp: NewEngine_def usable_def registry_inv_New config_normalized_def Let_def
        nonzeroOr_pos positiveOr_pos DefaultBackfillMaxCount_def DefaultDispatchBatch_def intro: store_run.start)
next
  case (step s e op e')
  then have "engine_ok (op_cost e op) e" by (simp add: engine_ok_def op_ok_def)
  from engine_step_returns [OF this, of fl] step
  have "engine_ok 0 e'" "advances e e'" by auto
  with step.IH show ?case
    by (auto simp: engine_ok_def advances_def usable_def intro: store_run_trans)
qed

text \<open>
  C1. An engine never panics and never hangs. Whatever operations it has seen, handlers, label
  updates, turns of its loop, reconcile passes, with repository calls that failed and messages
  that were not taken among them, the next operation returns; what it did to the store is a run of
  the store's own steps from the first one, the store and the registry are consistent after it,
  and it only added messages. The operation needs room in the store for the identifiers it may
  issue, and an upsert of a new key an identifier that is not in use.
\<close>

theorem engine_never_panics:
  assumes "engine_reach fl s e" and "op_ok e op"
  shows "\<exists>e'. engine_step fl op e = Some e' \<and> (\<exists>n. store_run n (e_mem s) (e_mem e'))
    \<and> store_inv (e_mem e') \<and> registry_inv (e_reg e') \<and> (\<exists>ms. e_outbox e' = e_outbox e @ ms)"
proof -
  note e = reach_ok [OF assms(1)]
  then have "engine_ok (op_cost e op) e" using assms(2) by (simp add: engine_ok_def op_ok_def)
  from engine_step_returns [OF this _ assms(2), of fl] e
  obtain e' where e': "engine_step fl op e = Some e'" "engine_ok 0 e'" "advances e e'" by blast
  moreover have "\<exists>n. store_run n (e_mem s) (e_mem e')"
    using e e'(3) by (auto simp: advances_def intro: store_run_trans)
  ultimately show ?thesis
    by (auto simp: engine_ok_def advances_def)
qed

definition demo_engine :: engine where
  "demo_engine = NewEngine None (NewStore 0 0 (\<lambda>_. 0)) NewExecutorRegistry (\<lambda>n. int n) (\<lambda>_. False) (\<lambda>_. True)
     (\<lambda>_. ''store unavailable'')"

theorem engine_never_panics_witness:
  "\<forall>fl :: int float64. engine_step fl DoTurn demo_engine \<noteq> None"
proof
  fix fl :: "int float64"
  have "engine_reach fl demo_engine demo_engine"
    by (rule engine_reach.fresh [of None]) (simp_all add: zeroConfig_def in_int64_def minInt64_def maxInt64_def demo_engine_def)
  moreover have "op_ok demo_engine DoTurn"
    by (simp add: op_ok_def op_cost_def room_def demo_engine_def NewEngine_def NewStore_def config_normalized_def
        zeroConfig_def Let_def positiveOr_def DefaultDispatchBatch_def)
  ultimately show "engine_step fl DoTurn demo_engine \<noteq> None"
    using engine_never_panics by fastforce
qed

end
