(* ===== verification/Engine_Demo.thy ===== *)
theory Engine_Demo
  imports Engine_Machine
begin

text \<open>
  Concrete engines for the witnesses: an engine over an empty store, and one whose store holds a job
  and an execution of it that runs as attempt 1 of the instance \<open>i1\<close>.
\<close>

definition demo_attempted :: memstore where
  "demo_attempted = snd (CreateAttempt demo_store2 1 1 ''i1'')"

definition demo_dispatching :: memstore where
  "demo_dispatching = snd (UpdateExecution demo_attempted 1 1
     (emptyUpdate\<lparr>u_State := Some StateDispatching, u_CurrentAttemptID := Some 1\<rparr>))"

definition demo_started :: memstore where
  "demo_started = snd (UpdateExecution demo_dispatching 1 2
     (emptyUpdate\<lparr>u_State := Some StateRunning, u_FunctionAttempts := Some 1\<rparr>))"

definition demo_running :: memstore where
  "demo_running = snd (UpdateAttemptState demo_started 1 [AttemptDispatched] AttemptAccepted '''')"

lemmas demo_running_defs = demo_running_def demo_started_def demo_dispatching_def demo_attempted_def

lemma demo_store2_inv: "store_inv demo_store2"
  using demo_run NewStore_inv [of 0 0 "\<lambda>n. 1000 + int n"]
  by (auto simp: demo_store_def intro: store_run_inv)

lemma demo_store2_next: "ms_nextAttemptID demo_store2 = 0" "ms_nextExecutionID demo_store2 = 1"
  by (simp_all add: demo_defs UpsertJob_def scopedKey_def readClock_def Let_def CreateExecution_def)

lemma demo_running_inv: "store_inv demo_running" "store_inv demo_dispatching"
  by (simp_all add: demo_running_defs demo_store2_inv demo_store2_next guarded_def)

definition demo_execution :: execution where
  "demo_execution = \<lparr>x_ID = 1, x_JobID = demo_uuid 7, x_ScheduledAt = 100, x_State = StateRunning,
     x_FunctionAttempts = 1, x_CurrentAttemptID = 1, x_NextAttemptAt = 100, x_LeaseExpiresAt = zeroTime,
     x_Backfilled = False, x_LastError = '''', x_WaitReason = '''', x_Version = 3,
     x_CreatedAt = 1001, x_UpdatedAt = 1004\<rparr>"

definition demo_attempt :: attempt where
  "demo_attempt = \<lparr>a_ID = 1, a_ExecutionID = 1, a_Number = 1, a_InstanceID = ''i1'',
     a_State = AttemptAccepted, a_Error = '''', a_CreatedAt = 1002, a_UpdatedAt = 1005\<rparr>"

lemma demo_running_values:
  "ms_executions demo_running = [(1, demo_execution)]" "ms_attempts demo_running = [(1, demo_attempt)]"
  by (simp_all add: demo_running_defs demo_defs UpsertJob_def scopedKey_def readClock_def Let_def CreateExecution_def
      CreateAttempt_def UpdateExecution_def stateCheck_def CanTransition_def emptyUpdate_def applyUpdate_def orKeep_def
      UpdateAttemptState_def demo_execution_def demo_attempt_def)

definition demo_engine_over :: "memstore \<Rightarrow> engine" where
  "demo_engine_over s = demo_engine\<lparr>e_mem := s\<rparr>"

lemma demo_engine_over_simps [simp]:
  "e_mem (demo_engine_over s) = s" "e_fault (demo_engine_over s) = (\<lambda>_. False)"
  "e_reg (demo_engine_over s) = NewExecutorRegistry" "registry_inv (e_reg (demo_engine_over s))"
  "e_cfg (demo_engine_over s) = config_normalized zeroConfig" "e_outbox (demo_engine_over s) = []"
  by (simp_all add: demo_engine_over_def demo_engine_def NewEngine_def registry_inv_New)

lemma demo_engine_empty: "ms_executions (e_mem demo_engine) = []" "e_fault demo_engine = (\<lambda>_. False)"
  by (simp_all add: demo_engine_def NewEngine_def NewStore_def)

end
