(* ===== verification/Engine_Fencing.thy ===== *)
theory Engine_Fencing
  imports Engine_Demo
begin

text \<open>
  What an executor's reports do: an acceptance or a result is believed only from the instance that
  holds the execution's current attempt, and the first result settles the execution.
\<close>

section \<open>Reading the engine's calls\<close>

text \<open>A store that answers every call, as the in-memory one does.\<close>

abbreviation reliable :: "engine \<Rightarrow> bool" where
  "reliable e \<equiv> e_fault e = (\<lambda>_. False)"

lemma repo_reliable [simp]:
  "reliable e \<Longrightarrow> repo e f =
     map_option (\<lambda>(r, s). (map_sum StoreErr id r, e\<lparr>e_calls := Suc (e_calls e), e_mem := s\<rparr>)) (f (e_mem e))"
  by (auto simp: repo_def Let_def intro!: option.map_cong)

lemma repo_cases:
  assumes "repo e f = Some (r, e')"
  obtains "r = Inl Unavailable" "e' = e\<lparr>e_calls := Suc (e_calls e)\<rparr>"
  | r0 s where "f (e_mem e) = Some (r0, s)" "r = map_sum StoreErr id r0"
      "e' = e\<lparr>e_calls := Suc (e_calls e), e_mem := s\<rparr>"
  using assms by (auto simp: repo_def Let_def split: if_splits)

lemma bump_frame [simp]:
  "e_mem (bump c e) = e_mem e" "e_reg (bump c e) = e_reg e" "e_cfg (bump c e) = e_cfg e"
  "e_outbox (bump c e) = e_outbox e" "e_fault (bump c e) = e_fault e" "e_clock (bump c e) = e_clock e"
  "e_ticks (bump c e) = e_ticks e" "e_metrics (bump c e) = c (\<lambda>n. n + 1) (e_metrics e)"
  by (simp_all add: bump_def)

lemma releaseOn_frame [simp]:
  "e_mem (releaseOn e i a) = e_mem e" "e_cfg (releaseOn e i a) = e_cfg e"
  "e_outbox (releaseOn e i a) = e_outbox e" "e_fault (releaseOn e i a) = e_fault e"
  "e_clock (releaseOn e i a) = e_clock e" "e_ticks (releaseOn e i a) = e_ticks e"
  by (simp_all add: releaseOn_def split: option.split)

lemma Notify_frame [simp]: "e_mem (Notify e) = e_mem e" "e_outbox (Notify e) = e_outbox e"
  by (simp_all add: Notify_def)

lemmas call_defs = lookup_def query_def query_opt_def update_def remove_def

section \<open>Stale reports\<close>

text \<open>The current attempt of an execution, as the store has it, and the engine after a stale report.\<close>

definition holdsAttempt :: "memstore \<Rightarrow> instanceID \<Rightarrow> executionID \<Rightarrow> attemptID \<Rightarrow> bool" where
  "holdsAttempt s inst i a \<longleftrightarrow>
     (\<exists>x at. map_of (ms_executions s) i = Some x \<and> x_CurrentAttemptID x = a
        \<and> map_of (ms_attempts s) a = Some at \<and> a_InstanceID at = inst)"

definition stateOf :: "memstore \<Rightarrow> executionID \<Rightarrow> executionState option" where
  "stateOf s i = map_option x_State (map_of (ms_executions s) i)"

definition onlyStale :: "engine \<Rightarrow> engine \<Rightarrow> bool" where
  "onlyStale e e' \<longleftrightarrow> e_mem e' = e_mem e \<and> e_reg e' = e_reg e \<and> e_outbox e' = e_outbox e
     \<and> e_metrics e' = mt_StaleMessages_update (\<lambda>n. n + 1) (e_metrics e)"

lemma lookup_cases:
  "repo e (lookup f) = Some (r, e') \<Longrightarrow>
     e' = e\<lparr>e_calls := Suc (e_calls e)\<rparr> \<and> (r = Inl Unavailable \<or> r = map_sum StoreErr id (f (e_mem e)))"
  by (erule repo_cases) (auto simp: lookup_def)

lemma lookup_returns: "\<exists>r. repo e (lookup f) = Some (r, e\<lparr>e_calls := Suc (e_calls e)\<rparr>)
    \<and> (r = Inl Unavailable \<or> r = map_sum StoreErr id (f (e_mem e)))"
  by (simp add: repo_def lookup_def Let_def)

lemma attemptOwnedBy_cases:
  "\<exists>b. attemptOwnedBy e a inst = Some (b, e\<lparr>e_calls := Suc (e_calls e)\<rparr>)
    \<and> (b \<longrightarrow> (\<exists>at. map_of (ms_attempts (e_mem e)) a = Some at \<and> a_InstanceID at = inst))"
  using lookup_returns [of e "\<lambda>s. GetAttempt s a"]
  by (auto simp: attemptOwnedBy_def GetAttempt_def split: option.splits)

lemma stale_accept:
  assumes "\<not> holdsAttempt (e_mem e) inst (ea_ExecutionID m) (ea_AttemptID m)"
  shows "\<exists>e'. HandleExecAccept e inst m = Some e' \<and> onlyStale e e'"
proof -
  let ?e = "e\<lparr>e_calls := Suc (e_calls e)\<rparr>"
  obtain r where "repo e (lookup (\<lambda>s. GetExecution s (ea_ExecutionID m))) = Some (r, ?e)"
    "r = Inl Unavailable \<or> r = map_sum StoreErr id (GetExecution (e_mem e) (ea_ExecutionID m))"
    using lookup_returns by blast
  with assms show ?thesis
    using attemptOwnedBy_cases [of ?e "ea_AttemptID m" inst]
    by (auto simp: HandleExecAccept_def GetExecution_def holdsAttempt_def onlyStale_def split: option.splits)
qed

lemma stale_result:
  assumes "\<not> (holdsAttempt (e_mem e) inst (er_ExecutionID m) (er_AttemptID m)
    \<and> stateOf (e_mem e) (er_ExecutionID m) = Some StateRunning)"
  shows "\<exists>e'. HandleExecResult fl e inst m = Some e' \<and> onlyStale e e'"
proof -
  let ?e = "e\<lparr>e_calls := Suc (e_calls e)\<rparr>"
  obtain r where "repo e (lookup (\<lambda>s. GetExecution s (er_ExecutionID m))) = Some (r, ?e)"
    "r = Inl Unavailable \<or> r = map_sum StoreErr id (GetExecution (e_mem e) (er_ExecutionID m))"
    using lookup_returns by blast
  with assms show ?thesis
    using attemptOwnedBy_cases [of ?e "er_AttemptID m" inst]
    by (auto simp: HandleExecResult_def GetExecution_def holdsAttempt_def stateOf_def onlyStale_def split: option.splits)
qed

text \<open>
  C4. An acceptance or a result is ignored unless it comes from the instance that holds the
  execution's current attempt, a result also unless the execution is running: nothing in the
  store or the registry changes, nothing is sent, and one stale message is counted. An executor
  that was superseded, or that names another's attempt, cannot settle anything.
\<close>

theorem stale_reports_ignored:
  "(\<not> holdsAttempt (e_mem e) inst (ea_ExecutionID am) (ea_AttemptID am)
      \<longrightarrow> (\<exists>e'. HandleExecAccept e inst am = Some e' \<and> onlyStale e e'))
   \<and> (\<not> (holdsAttempt (e_mem e) inst (er_ExecutionID rm) (er_AttemptID rm)
          \<and> stateOf (e_mem e) (er_ExecutionID rm) = Some StateRunning)
      \<longrightarrow> (\<exists>e'. HandleExecResult fl e inst rm = Some e' \<and> onlyStale e e'))"
  using stale_accept stale_result by blast



theorem stale_reports_ignored_witness:
  "\<forall>fl :: int float64.
     (\<exists>e'. HandleExecAccept demo_engine ''i1'' \<lparr>ea_ExecutionID = 7, ea_AttemptID = 3, ea_Accepted = True,
        ea_Error = None\<rparr> = Some e' \<and> onlyStale demo_engine e')
   \<and> (\<exists>e'. HandleExecResult fl demo_engine ''i1'' \<lparr>er_ExecutionID = 7, er_AttemptID = 3, er_Success = True,
        er_HasValue = False, er_Result = [], er_Error = None\<rparr> = Some e' \<and> onlyStale demo_engine e')"
  by (intro allI, use stale_reports_ignored [of demo_engine "''i1''"
      "\<lparr>ea_ExecutionID = 7, ea_AttemptID = 3, ea_Accepted = True, ea_Error = None\<rparr>"
      "\<lparr>er_ExecutionID = 7, er_AttemptID = 3, er_Success = True, er_HasValue = False, er_Result = [], er_Error = None\<rparr>"]
      in \<open>simp add: holdsAttempt_def demo_engine_empty\<close>)

section \<open>Frames\<close>

text \<open>
  What an operation leaves alone in the store, as a relation between the store before and after it.
  The locale holds for any such relation; \<open>keepsBy S \<pi> e res\<close> says that if \<open>res\<close> is an outcome, its
  engine is related to \<open>e\<close>.
\<close>

definition keepsBy :: "(memstore \<Rightarrow> memstore \<Rightarrow> bool) \<Rightarrow> ('r \<Rightarrow> engine) \<Rightarrow> engine \<Rightarrow> 'r option \<Rightarrow> bool" where
  "keepsBy S \<pi> e res \<longleftrightarrow> (\<forall>v. res = Some v \<longrightarrow> S (e_mem e) (e_mem (\<pi> v)) \<and> e_fault (\<pi> v) = e_fault e)"

definition sameStore :: "engine \<Rightarrow> engine \<Rightarrow> bool" where
  "sameStore e e' \<longleftrightarrow> e_mem e' = e_mem e \<and> e_fault e' = e_fault e"

lemma sameStore_simps [simp]:
  "sameStore e e" "sameStore e (bump c e')  = sameStore e e'" "sameStore e (Notify e') = sameStore e e'"
  "sameStore e (releaseOn e' i a) = sameStore e e'" "sameStore e (e'\<lparr>e_ticks := n\<rparr>) = sameStore e e'"
  "sameStore e (e'\<lparr>e_reg := r\<rparr>) = sameStore e e'"
  by (auto simp: sameStore_def Notify_def)

lemma sameStore_if [simp]: "sameStore e (if P then a else b) = (if P then sameStore e a else sameStore e b)"
  by simp

lemma Enqueue_sameStore: "Enqueue e1 ref m = (b, e') \<Longrightarrow> sameStore e e1 \<Longrightarrow> sameStore e e'"
  by (auto simp: Enqueue_def Let_def sameStore_def split: if_splits)

lemma now_sameStore: "now_e e1 = (t, e') \<Longrightarrow> sameStore e e1 \<Longrightarrow> sameStore e e'"
  by (auto simp: now_e_def sameStore_def)

lemma prod_cases_rule: "(\<And>a b. p = (a, b) \<Longrightarrow> P (g a b)) \<Longrightarrow> P (case p of (a, b) \<Rightarrow> g a b)"
  by (cases p) simp

locale store_frame =
  fixes S :: "memstore \<Rightarrow> memstore \<Rightarrow> bool"
  assumes S_refl: "S s s" and S_trans: "S s t \<Longrightarrow> S t u \<Longrightarrow> S s u"
begin

lemma keeps_some: "sameStore e (\<pi> v) \<Longrightarrow> keepsBy S \<pi> e (Some v)"
  by (simp add: keepsBy_def sameStore_def S_refl)

lemma keeps_from: "sameStore e e' \<Longrightarrow> keepsBy S \<pi> e' res \<Longrightarrow> keepsBy S \<pi> e res"
  by (simp add: keepsBy_def sameStore_def)

lemma keeps_bind:
  assumes "keepsBy S \<pi> e' m" and "sameStore e e'" and "\<And>v. m = Some v \<Longrightarrow> keepsBy S \<rho> (\<pi> v) (f v)"
  shows "keepsBy S \<rho> e (Option.bind m f)"
  using assms unfolding keepsBy_def sameStore_def
  by (cases m) (auto intro: S_trans)

lemma keeps_then: "keepsBy S snd e' m \<Longrightarrow> sameStore e e' \<Longrightarrow> (\<And>r e'. keepsBy S \<rho> e' (f (r, e')))
    \<Longrightarrow> keepsBy S \<rho> e (Option.bind m f)"
  by (rule keeps_bind) auto

lemma keeps_then_unit: "keepsBy S (\<lambda>e. e) e' m \<Longrightarrow> sameStore e e' \<Longrightarrow> (\<And>e'. keepsBy S \<rho> e' (f e'))
    \<Longrightarrow> keepsBy S \<rho> e (Option.bind m f)"
  by (rule keeps_bind) auto

lemma keeps_map: "keepsBy S \<pi> e' m \<Longrightarrow> sameStore e e' \<Longrightarrow> (\<And>v. sameStore (\<pi> v) (\<rho> (g v)))
    \<Longrightarrow> keepsBy S \<rho> e (map_option g m)"
  by (auto simp: keepsBy_def sameStore_def)

lemma keeps_tail: "keepsBy S \<pi> e' res \<Longrightarrow> sameStore e e' \<Longrightarrow> keepsBy S \<pi> e res"
  by (rule keeps_from)

lemma keeps_if: "(P \<Longrightarrow> keepsBy S \<pi> e x) \<Longrightarrow> (\<not> P \<Longrightarrow> keepsBy S \<pi> e y) \<Longrightarrow> keepsBy S \<pi> e (if P then x else y)"
  by simp

lemma keeps_sum:
  "(\<And>a. keepsBy S \<pi> e (f a)) \<Longrightarrow> (\<And>b. keepsBy S \<pi> e (g b)) \<Longrightarrow> keepsBy S \<pi> e (case r of Inl a \<Rightarrow> f a | Inr b \<Rightarrow> g b)"
  by (cases r) auto

lemma keeps_option:
  "keepsBy S \<pi> e x \<Longrightarrow> (\<And>a. keepsBy S \<pi> e (g a)) \<Longrightarrow> keepsBy S \<pi> e (case r of None \<Rightarrow> x | Some a \<Rightarrow> g a)"
  by (cases r) auto

lemma keeps_Enqueue: "sameStore e e1 \<Longrightarrow> (\<And>b e'. keepsBy S \<pi> e' (g b e'))
    \<Longrightarrow> keepsBy S \<pi> e (case Enqueue e1 ref m of (b, e') \<Rightarrow> g b e')"
  by (rule prod_cases_rule, rule keeps_from, rule Enqueue_sameStore)

lemma keeps_now: "sameStore e e1 \<Longrightarrow> (\<And>t e'. keepsBy S \<pi> e' (g t e'))
    \<Longrightarrow> keepsBy S \<pi> e (case now_e e1 of (t, e') \<Rightarrow> g t e')"
  by (rule prod_cases_rule, rule keeps_from, rule now_sameStore)

text \<open>A call keeps what the store's operation keeps.\<close>

lemma keeps_repo: "(\<And>r s'. f (e_mem e) = Some (r, s') \<Longrightarrow> S (e_mem e) s') \<Longrightarrow> keepsBy S snd e (repo e f)"
  unfolding keepsBy_def by (auto simp: S_refl elim!: repo_cases)

lemma keeps_lookup: "keepsBy S snd e (repo e (lookup g))"
  and keeps_query: "keepsBy S snd e (repo e (query h))"
  and keeps_query_opt: "keepsBy S snd e (repo e (query_opt k))"
  by (rule keeps_repo; auto simp: call_defs S_refl)+

lemma keeps_update: "S (e_mem e) (snd (f (e_mem e))) \<Longrightarrow> keepsBy S snd e (repo e (update f))"
  by (rule keeps_repo) (auto simp: update_def)

lemma keeps_remove: "S (e_mem e) (snd (f (e_mem e))) \<Longrightarrow> keepsBy S snd e (repo e (remove f))"
  by (rule keeps_repo) (auto simp: remove_def Let_def split_def)

lemmas keeps_reads = keeps_lookup keeps_query keeps_query_opt
lemmas keeps_steps = keeps_then keeps_then_unit keeps_tail keeps_map
lemmas keeps_rules = keeps_some keeps_if keeps_sum keeps_option conjI impI

end

section \<open>Results leave the work alone\<close>

definition sameWork :: "memstore \<Rightarrow> memstore \<Rightarrow> bool" where
  "sameWork s t \<longleftrightarrow> ms_executions t = ms_executions s \<and> ms_attempts t = ms_attempts s"

interpretation work: store_frame sameWork
  by unfold_locales (auto simp: sameWork_def)

lemma sameWork_ops [simp]: "sameWork s (snd (MarkResultSent s i t))" "sameWork s (snd (StoreResult s r))"
  by (simp_all add: sameWork_def)

lemma deliverResult_work: "keepsBy sameWork snd e (deliverResult e p)"
  unfolding deliverResult_def Let_def
  by (rule work.keeps_Enqueue work.keeps_now
     | (rule work.keeps_steps, rule work.keeps_reads work.keeps_update)
     | rule work.keeps_rules | simp split del: if_split)+

lemma resultWithinCaps_work: "keepsBy sameWork snd e (resultWithinCaps e i)"
  unfolding resultWithinCaps_def
  by ((rule work.keeps_steps, rule work.keeps_reads) | rule work.keeps_rules | simp split del: if_split)+

lemma captureResult_work: "keepsBy sameWork (\<lambda>e. e) e (captureResult e jb x m)"
  unfolding captureResult_def Let_def
  by ((rule work.keeps_steps, rule work.keeps_reads deliverResult_work resultWithinCaps_work work.keeps_update)
     | rule work.keeps_rules | simp split del: if_split)+


section \<open>A result settles its execution\<close>

lemma updated_stored:
  "map_of (ms_executions s) i = Some x \<Longrightarrow> x_Version x = v \<Longrightarrow> stateCheck u x = None
    \<Longrightarrow> UpdateExecution s i v u = (Inr (applyUpdate u (ms_now s) x),
          s\<lparr>ms_tick := Suc (ms_tick s), ms_executions := AList.update i (applyUpdate u (ms_now s) x) (ms_executions s)\<rparr>)"
  by (simp add: UpdateExecution_def readClock_def Let_def)

lemma execution_ID: "store_inv s \<Longrightarrow> map_of (ms_executions s) i = Some x \<Longrightarrow> x_ID x = i"
  by (auto simp: store_inv_def executions_inv_def dest: map_of_SomeD)

definition attemptStateOf :: "memstore \<Rightarrow> attemptID \<Rightarrow> attemptState option" where
  "attemptStateOf s a = map_option a_State (map_of (ms_attempts s) a)"

lemma attempt_settled:
  assumes "attemptStateOf s a = Some st" and "UpdateAttemptState s a [st] to why = (r, s')"
  shows "attemptStateOf s' a = Some to \<and> r = Inr True"
  using assms
  by (auto simp: attemptStateOf_def UpdateAttemptState_def readClock_def Let_def detachAttemptFromHost_def
      AList.update_conv' split: if_splits)

lemma settleSuccess_effect:
  assumes rel: "reliable e" and x: "map_of (ms_executions (e_mem e)) (x_ID x) = Some x" "x_State x = StateRunning"
    and a: "attemptStateOf (e_mem e) (er_AttemptID m) = Some AttemptAccepted"
    and res: "settleSuccess e x m = Some e'"
  shows "\<exists>y. map_of (ms_executions (e_mem e')) (x_ID x) = Some y \<and> x_State y = StateSucceeded \<and> x_Version y = x_Version x + 1
    \<and> attemptStateOf (e_mem e') (er_AttemptID m) = Some AttemptSucceeded
    \<and> (\<forall>j. j \<noteq> x_ID x \<longrightarrow> map_of (ms_executions (e_mem e')) j = map_of (ms_executions (e_mem e)) j)"
proof -
  let ?u = "emptyUpdate\<lparr>u_State := Some StateSucceeded\<rparr>"
  have check: "stateCheck ?u x = None"
    using x(2) by (simp add: stateCheck_def emptyUpdate_def CanTransition_def)
  let ?y = "applyUpdate ?u (ms_now (e_mem e)) x"
  let ?s = "(e_mem e)\<lparr>ms_tick := Suc (ms_tick (e_mem e)), ms_executions := AList.update (x_ID x) ?y (ms_executions (e_mem e))\<rparr>"
  obtain r s' where s': "UpdateAttemptState ?s (er_AttemptID m) [AttemptAccepted] AttemptSucceeded '''' = (r, s')" by fastforce
  have "attemptStateOf ?s (er_AttemptID m) = Some AttemptAccepted" using a by (simp add: attemptStateOf_def)
  note settled = attempt_settled [OF this s']
  have execs: "ms_executions s' = AList.update (x_ID x) ?y (ms_executions (e_mem e))"
    using s' UpdateAttemptState_frame(3) [of ?s "er_AttemptID m" "[AttemptAccepted]" AttemptSucceeded "''''"] by simp
  have "sameWork s' (e_mem e')"
    using res captureResult_work rel
    by (auto simp: settleSuccess_def updated_stored [OF x(1) _ check] update_def s' lookup_def keepsBy_def
        sameWork_def split: sum.splits)
  then show ?thesis
    using settled by (auto simp: execs sameWork_def attemptStateOf_def AList.update_conv' applyUpdate_def orKeep_def emptyUpdate_def)
qed


lemma captureResult_sameWork: "captureResult e jb x m = Some e' \<Longrightarrow> sameWork (e_mem e) (e_mem e')"
  using captureResult_work by (simp add: keepsBy_def)

definition failureText :: "execResultMsg \<Rightarrow> string" where
  "failureText m = (case er_Error m of None \<Rightarrow> failureReasonUnknown | Some err \<Rightarrow> e_Message err)"

text \<open>Whether a failure is retried: the job still exists, the executor says so, the budget is not spent.\<close>

definition retries :: "memstore \<Rightarrow> execution \<Rightarrow> execResultMsg \<Rightarrow> job option" where
  "retries s x m =
     (case (map_of (ms_jobs s) (x_JobID x), er_Error m) of
        (Some jb, Some err) \<Rightarrow>
          if e_Retryable err \<and> x_FunctionAttempts x < maxFunctionAttempts (j_Retry jb) then Some jb else None
      | _ \<Rightarrow> None)"

lemma settleFailure_effect:
  assumes rel: "reliable e" and x: "map_of (ms_executions (e_mem e)) (x_ID x) = Some x" "x_State x = StateRunning"
    and a: "attemptStateOf (e_mem e) (er_AttemptID m) = Some AttemptAccepted"
    and res: "settleFailure fl e x m = Some e'"
  shows "\<exists>y. map_of (ms_executions (e_mem e')) (x_ID x) = Some y \<and> x_Version y = x_Version x + 1
    \<and> x_LastError y = failureText m
    \<and> (case retries (e_mem e) x m of
         None \<Rightarrow> x_State y = StateFailed
       | Some jb \<Rightarrow> x_State y = StateRetryWait \<and> x_NextAttemptAt y =
           timeAdd (e_clock e (e_ticks e)) (retryDelay fl (j_Retry jb) (x_FunctionAttempts x) (e_cfg e)))
    \<and> attemptStateOf (e_mem e') (er_AttemptID m) = Some AttemptFunctionFailed
    \<and> (\<forall>j. j \<noteq> x_ID x \<longrightarrow> map_of (ms_executions (e_mem e')) j = map_of (ms_executions (e_mem e)) j)"
proof -
  define why where "why = failureText m"
  obtain r s' where s': "UpdateAttemptState (e_mem e) (er_AttemptID m) [AttemptAccepted] AttemptFunctionFailed why = (r, s')"
    by fastforce
  note settled = attempt_settled [OF a s']
  have execs: "ms_executions s' = ms_executions (e_mem e)" "ms_jobs s' = ms_jobs (e_mem e)"
    using s' UpdateAttemptState_frame(1,3) [of "e_mem e" "er_AttemptID m" "[AttemptAccepted]" AttemptFunctionFailed why]
    by simp_all
  have x': "map_of (ms_executions s') (x_ID x) = Some x" using x(1) execs by simp

have check: "stateCheck u x = None" if "u_State u = Some StateFailed \<or> u_State u = Some StateRetryWait" for u
    using x(2) that by (auto simp: stateCheck_def CanTransition_def)
  note stored = updated_stored [OF x' HOL.refl check]
  define done_with where "done_with = (\<lambda>u. s'\<lparr>ms_tick := Suc (ms_tick s'),
    ms_executions := AList.update (x_ID x) (applyUpdate u (ms_now s') x) (ms_executions s')\<rparr>)"
  show ?thesis
  proof (cases "retries (e_mem e) x m")
    case (Some jb)
    let ?u = "emptyUpdate\<lparr>u_State := Some StateRetryWait, u_NextAttemptAt := Some (timeAdd (e_clock e (e_ticks e))
        (retryDelay fl (j_Retry jb) (x_FunctionAttempts x) (e_cfg e))), u_LastError := Some why\<rparr>"
    have "e_mem e' = done_with ?u"
      using res rel Some s' execs
      by (auto simp: settleFailure_def retries_def update_def lookup_def GetJob_def why_def failureText_def
          done_with_def now_e_def stored split: option.splits if_splits)
    then show ?thesis
      using Some settled by (auto simp: done_with_def execs attemptStateOf_def AList.update_conv' applyUpdate_def
        orKeep_def emptyUpdate_def why_def)
  next
    case None
    let ?u = "emptyUpdate\<lparr>u_State := Some StateFailed, u_LastError := Some why\<rparr>"
    have "sameWork (done_with ?u) (e_mem e')"
    proof (cases "map_of (ms_jobs (e_mem e)) (x_JobID x)")
      case None
      then show ?thesis
        using res rel s' execs
        by (auto simp: settleFailure_def update_def lookup_def GetJob_def why_def failureText_def
            done_with_def stored sameWork_def split: option.splits)
    next
      case (Some jb)
      then show ?thesis
        using res rel s' execs \<open>retries (e_mem e) x m = None\<close>
        by (auto simp: settleFailure_def retries_def update_def lookup_def GetJob_def why_def failureText_def
            done_with_def stored dest!: captureResult_sameWork split: option.splits if_splits)
    qed
    then show ?thesis
      using None settled by (auto simp: done_with_def execs attemptStateOf_def AList.update_conv' applyUpdate_def
        orKeep_def emptyUpdate_def why_def sameWork_def)
  qed
qed


lemma room_0: "room 0 s"
  using unsigned_less [of "ms_nextExecutionID s"] unsigned_less [of "ms_nextAttemptID s"]
  by (simp add: room_def)

lemma HandleExecResult_settles:
  assumes "reliable e" and "map_of (ms_executions (e_mem e)) (er_ExecutionID m) = Some x"
    and "x_CurrentAttemptID x = er_AttemptID m" and "x_State x = StateRunning"
    and "map_of (ms_attempts (e_mem e)) (er_AttemptID m) = Some at" and "a_InstanceID at = inst"
  shows "\<exists>e1. e_mem e1 = e_mem e \<and> reliable e1 \<and> e_cfg e1 = e_cfg e \<and> e_clock e1 = e_clock e \<and> e_ticks e1 = e_ticks e
    \<and> HandleExecResult fl e inst m = (if er_Success m then settleSuccess e1 x m else settleFailure fl e1 x m)"
  using assms
  by (intro exI [of _ "releaseOn (e\<lparr>e_calls := Suc (Suc (e_calls e))\<rparr>) inst (er_AttemptID m)"])
     (simp add: HandleExecResult_def lookup_def GetExecution_def attemptOwnedBy_def GetAttempt_def)

text \<open>
  C3. The result of the current attempt settles its execution, once. Let no repository call fail (a
  failed one makes the handler give up where it stands), let the sender hold the attempt, which it has
  accepted, let the execution run and the store and the registry have their invariants. Then the result is processed: a success leaves the execution
  succeeded; a failure leaves it waiting for a retry, after the delay its job asks for, when the
  executor calls the failure retryable, the job still exists and its budget is not spent, and
  failed otherwise, with the executor's message recorded; the attempt is closed accordingly and no
  other execution is touched. Whatever result for that execution is handled next is ignored.
\<close>

theorem result_settles_once:
  assumes "reliable e" and ok: "store_inv (e_mem e)" "registry_inv (e_reg e)"
    and held: "holdsAttempt (e_mem e) inst (er_ExecutionID m) (er_AttemptID m)"
      "attemptStateOf (e_mem e) (er_AttemptID m) = Some AttemptAccepted"
    and x: "map_of (ms_executions (e_mem e)) (er_ExecutionID m) = Some x" "x_State x = StateRunning"
  shows "\<exists>e' y. HandleExecResult fl e inst m = Some e'
    \<and> map_of (ms_executions (e_mem e')) (er_ExecutionID m) = Some y \<and> x_Version y = x_Version x + 1
    \<and> (if er_Success m then
         x_State y = StateSucceeded \<and> attemptStateOf (e_mem e') (er_AttemptID m) = Some AttemptSucceeded
       else
         attemptStateOf (e_mem e') (er_AttemptID m) = Some AttemptFunctionFailed \<and> x_LastError y = failureText m
         \<and> (case retries (e_mem e) x m of
              None \<Rightarrow> x_State y = StateFailed
            | Some jb \<Rightarrow> x_State y = StateRetryWait \<and> x_NextAttemptAt y =
                timeAdd (e_clock e (e_ticks e)) (retryDelay fl (j_Retry jb) (x_FunctionAttempts x) (e_cfg e))))
    \<and> (\<forall>j. j \<noteq> er_ExecutionID m \<longrightarrow> map_of (ms_executions (e_mem e')) j = map_of (ms_executions (e_mem e)) j)
    \<and> (\<forall>inst' m'. er_ExecutionID m' = er_ExecutionID m
         \<longrightarrow> (\<exists>e''. HandleExecResult fl e' inst' m' = Some e'' \<and> onlyStale e' e''))"
proof -
  have id: "x_ID x = er_ExecutionID m" using execution_ID [OF ok(1) x(1)] .
  obtain e1 where e1: "e_mem e1 = e_mem e" "reliable e1" "e_cfg e1 = e_cfg e" "e_clock e1 = e_clock e" "e_ticks e1 = e_ticks e"
    "HandleExecResult fl e inst m = (if er_Success m then settleSuccess e1 x m else settleFailure fl e1 x m)"
    using HandleExecResult_settles [of e m x _ inst fl] assms by (auto simp: holdsAttempt_def)
  have "engine_ok 0 e" using ok by (simp add: engine_ok_def room_0)
  then obtain e' where e': "HandleExecResult fl e inst m = Some e'"
    using HandleExecResult_returns [of e fl inst m] by (auto simp: returnsBy_def)
  note x1 = x(1) [folded id, folded e1(1)] and a1 = held(2) [folded e1(1)]
  obtain y where y: "map_of (ms_executions (e_mem e')) (er_ExecutionID m) = Some y" "x_Version y = x_Version x + 1"
    "if er_Success m then
         x_State y = StateSucceeded \<and> attemptStateOf (e_mem e') (er_AttemptID m) = Some AttemptSucceeded
       else
         attemptStateOf (e_mem e') (er_AttemptID m) = Some AttemptFunctionFailed \<and> x_LastError y = failureText m
         \<and> (case retries (e_mem e) x m of
              None \<Rightarrow> x_State y = StateFailed
            | Some jb \<Rightarrow> x_State y = StateRetryWait \<and> x_NextAttemptAt y =
                timeAdd (e_clock e (e_ticks e)) (retryDelay fl (j_Retry jb) (x_FunctionAttempts x) (e_cfg e)))"
    "\<forall>j. j \<noteq> er_ExecutionID m \<longrightarrow> map_of (ms_executions (e_mem e')) j = map_of (ms_executions (e_mem e)) j"
    using e' e1 settleSuccess_effect [OF e1(2) x1 x(2) a1, of e'] settleFailure_effect [OF e1(2) x1 x(2) a1, of fl e', unfolded e1(1,3-5)]
    by (cases "er_Success m") (auto simp: id)
  have "x_State y \<noteq> StateRunning"
    using y(3) by (auto split: if_splits option.splits)
  then have "\<exists>e''. HandleExecResult fl e' inst' m' = Some e'' \<and> onlyStale e' e''"
    if "er_ExecutionID m' = er_ExecutionID m" for inst' m'
    using that y(1) by (intro stale_result) (simp add: stateOf_def)
  with e' y show ?thesis by blast
qed

theorem result_settles_once_witness:
  "\<forall>fl :: int float64. \<exists>e'. HandleExecResult fl (demo_engine_over demo_running) ''i1''
     \<lparr>er_ExecutionID = 1, er_AttemptID = 1, er_Success = True, er_HasValue = False, er_Result = [], er_Error = None\<rparr>
       = Some e' \<and> stateOf (e_mem e') 1 = Some StateSucceeded"
proof
  fix fl :: "int float64"
  let ?m = "\<lparr>er_ExecutionID = 1, er_AttemptID = 1, er_Success = True, er_HasValue = False, er_Result = [], er_Error = None\<rparr>"
  show "\<exists>e'. HandleExecResult fl (demo_engine_over demo_running) ''i1'' ?m = Some e' \<and> stateOf (e_mem e') 1 = Some StateSucceeded"
    using result_settles_once [of "demo_engine_over demo_running" "''i1''" ?m demo_execution fl]
    by (auto simp: registry_inv_New demo_running_inv demo_running_values holdsAttempt_def attemptStateOf_def stateOf_def
        demo_execution_def demo_attempt_def)
qed

end
