(* ===== verification/Engine_Dispatch.thy ===== *)
theory Engine_Dispatch
  imports Engine_Fencing
begin

text \<open>
  What a dispatch sends, and under which claim: a request leaves the engine only for the version of
  the execution that the dispatcher saw, to an executor that may run it, with the attempt it names
  on record.
\<close>

section \<open>Operations that send nothing\<close>

definition silent :: "engine \<Rightarrow> engine \<Rightarrow> bool" where
  "silent e e' \<longleftrightarrow> e_outbox e' = e_outbox e"

lemma repo_silent: "repo e f = Some (r, e') \<Longrightarrow> e_outbox e' = e_outbox e \<and> e_reg e' = e_reg e \<and> e_cfg e' = e_cfg e"
  by (erule repo_cases) auto

lemma transition_silent: "transition e x st u = Some e' \<Longrightarrow> e_outbox e' = e_outbox e"
  by (auto simp: transition_def dest!: repo_silent)

lemma requeueReady_silent: "requeueReady e i d = Some (b, e') \<Longrightarrow> e_outbox e' = e_outbox e"
  by (auto simp: requeueReady_def now_e_def Let_def dest!: repo_silent split: bind_splits sum.splits if_splits)

lemma parkUndispatchable_silent: "parkUndispatchable e jb x = Some e' \<Longrightarrow> e_outbox e' = e_outbox e"
  by (auto simp: parkUndispatchable_def dest!: transition_silent requeueReady_silent split: if_splits)

lemma materializeNext_silent: "materializeNext e jb t = Some e' \<Longrightarrow> e_outbox e' = e_outbox e \<and> e_reg e' = e_reg e"
  by (auto simp: materializeNext_def Notify_def dest!: repo_silent split: bind_splits option.splits sum.splits if_splits)

text \<open>A new occurrence leaves the executions that exist, and every attempt, as they are.\<close>

lemma materializeNext_keeps:
  assumes "materializeNext e jb t = Some e'" and "store_inv (e_mem e)" and "room 1 (e_mem e)"
    and "map_of (ms_executions (e_mem e)) i = Some x"
  shows "map_of (ms_executions (e_mem e')) i = Some x \<and> ms_attempts (e_mem e') = ms_attempts (e_mem e)"
proof -
  have i: "i \<le> ms_nextExecutionID (e_mem e)"
    using execution_ID_bound [OF assms(2,4)] .
  have new: "map_of (ms_executions s') i = Some x \<and> ms_attempts s' = ms_attempts (e_mem e)"
    if "CreateExecution (e_mem e) j t st b = Some (r, s')" for j t st b r s'
    using CreateExecution_lookup [OF _ _ that i] CreateExecution_frame(3) [OF that] room_next [of 0 "e_mem e"] assms
    by (simp add: store_inv_def)
  show ?thesis
    using assms(1,4)
    by (auto simp: materializeNext_def dest!: new elim!: repo_cases split: bind_splits option.splits sum.splits if_splits)
qed

section \<open>Selection\<close>

lemma selectExecutor_choice:
  assumes "registry_inv (e_reg e)" and "selectExecutor e jb = (Some ref, e')"
  shows "eligible (e_reg e) (j_ExecutorType jb) (j_Function jb) ref
    \<and> rg_Get (e_reg e) (en_instanceID (rg_heap (e_reg e) ref)) = Some ref
    \<and> (p_Label (j_Pin jb) \<noteq> '''' \<longrightarrow> p_Policy (j_Pin jb) \<noteq> PinPolicyPreferred
         \<longrightarrow> p_Label (j_Pin jb) \<in> set (entryLabels (rg_heap (e_reg e) ref)))
    \<and> rg_heap (e_reg e') = rg_heap (e_reg e)"
proof -
  let ?et = "j_ExecutorType jb" and ?f = "j_Function jb" and ?l = "p_Label (j_Pin jb)"
  let ?rg = "snd (SelectLabeled (e_reg e) ?et ?f ?l)"
  note frames = Select_frame(2) [OF assms(1), of ?et ?f] SelectLabeled_frame(2,3) [OF assms(1), of ?et ?f ?l]
    Select_frame(2) [OF SelectLabeled_frame(1) [OF assms(1), of ?et ?f ?l], of ?et ?f]
  have again: "eligible ?rg et f r = eligible (e_reg e) et f r" "rg_Get ?rg i = rg_Get (e_reg e) i" for et f r i
    using frames by (simp_all add: eligible_def rg_Get_def)
  show ?thesis
    using assms(2) frames Select_choice [OF assms(1), of ?et ?f] SelectLabeled_choice [OF assms(1), of ?l ?et ?f]
      Select_choice [OF SelectLabeled_frame(1) [OF assms(1), of ?et ?f ?l], of ?et ?f, unfolded again]
    by (auto simp: selectExecutor_def bump_def Let_def split: prod.splits option.splits if_splits)
qed

section \<open>The claim\<close>

definition requestFor :: "job \<Rightarrow> execution \<Rightarrow> attemptID \<Rightarrow> u32 \<Rightarrow> execRequestMsg" where
  "requestFor jb x a n = \<lparr>eq_JobUUID = j_ID jb, eq_ExecutionID = x_ID x, eq_AttemptID = a,
     eq_AttemptNumber = n + 1, eq_Function = j_Function jb, eq_Args = j_Args jb,
     eq_ScheduledUnixNano = unixNano (x_ScheduledAt x), eq_TimeoutMillis = 0,
     eq_DeliverResult = (j_ResultMode jb = ResultModeDeliver)\<rparr>"

lemma AddInFlight_sender: "en_sender (rg_heap (AddInFlight rg ref a) r) = en_sender (rg_heap rg r)"
  by (simp add: AddInFlight_def updateEntry_def Let_def)

lemma deliverRequest_cases:
  assumes "deliverRequest e jb x ref a n = Some e'"
  shows "e_outbox e' = e_outbox e
    \<or> (e_outbox e' = e_outbox e @ [(en_sender (rg_heap (e_reg e) ref), ExecRequestMsg (requestFor jb x a n))]
       \<and> (\<exists>e1. e_mem e1 = e_mem e \<and> materializeNext e1 jb (x_ScheduledAt x) = Some e'))"
proof -
  let ?e = "e\<lparr>e_reg := AddInFlight (e_reg e) ref a\<rparr>"
  obtain sent e1 where sent: "Enqueue ?e ref (ExecRequestMsg (requestFor jb x a n)) = (sent, e1)" by fastforce
  then have e1: "e_mem e1 = e_mem e" "e_outbox e1 = e_outbox e
      @ (if sent then [(en_sender (rg_heap (e_reg e) ref), ExecRequestMsg (requestFor jb x a n))] else [])"
    by (auto simp: Enqueue_def Let_def AddInFlight_sender split: if_splits)
  show ?thesis
  proof (cases sent)
    case True
    then have "materializeNext (bump mt_Dispatches_update e1) jb (x_ScheduledAt x) = Some e'"
      using assms sent by (simp add: deliverRequest_def requestFor_def firstAttemptNumber_def executionTimeoutMillisNone_def)
    then show ?thesis
      using True e1 materializeNext_silent [of "bump mt_Dispatches_update e1"]
      by (auto intro!: exI [of _ "bump mt_Dispatches_update e1"])
  next
    case False
    then show ?thesis
      using assms sent e1
      by (auto simp: deliverRequest_def requestFor_def firstAttemptNumber_def executionTimeoutMillisNone_def Let_def
          dest!: repo_silent requeueReady_silent split: bind_splits)
  qed
qed

lemma map_sum_Inr [simp]: "map_sum StoreErr id r = Inr v \<longleftrightarrow> r = Inr v"
  by (cases r) auto

lemma claimAndDispatch_cases:
  assumes "claimAndDispatch e jb x now ref = Some e'"
  shows "e_outbox e' = e_outbox e
    \<or> (\<exists>claimed s1 n at s2 fenced e1.
        UpdateExecution (e_mem e) (x_ID x) (x_Version x)
          (emptyUpdate\<lparr>u_State := Some StateDispatching, u_LeaseExpiresAt := Some (timeAdd now (cf_Lease (e_cfg e)))\<rparr>)
          = (Inr claimed, s1)
        \<and> CreateAttempt s1 (x_ID x) n (en_instanceID (rg_heap (e_reg e) ref)) = (Inr at, s2)
        \<and> UpdateExecution s2 (x_ID claimed) (x_Version claimed) (emptyUpdate\<lparr>u_CurrentAttemptID := Some (a_ID at)\<rparr>)
          = (Inr fenced, e_mem e1)
        \<and> e_outbox e1 = e_outbox e \<and> e_reg e1 = e_reg e
        \<and> deliverRequest e1 jb x ref (a_ID at) (x_FunctionAttempts fenced) = Some e')"
  using assms
  by (auto simp: claimAndDispatch_def Let_def call_defs elim!: repo_cases split: bind_splits sum.splits)

lemma UpdateExecution_Inr:
  assumes "UpdateExecution s i v u = (Inr y, s')"
  shows "\<exists>x t. map_of (ms_executions s) i = Some x \<and> x_Version x = v \<and> stateCheck u x = None \<and> y = applyUpdate u t x
    \<and> ms_executions s' = AList.update i y (ms_executions s)"
  using assms
  by (auto simp: UpdateExecution_def readClock_def Let_def split: option.splits if_splits)

lemma CreateAttempt_Inr:
  assumes "CreateAttempt s i n h = (Inr a, s')"
  shows "map_of (ms_attempts s') (a_ID a) = Some a \<and> a_ExecutionID a = i \<and> a_InstanceID a = h \<and> a_State a = AttemptDispatched"
  using assms
  by (auto simp: CreateAttempt_def readClock_def Let_def AList.update_conv' split: if_splits)

lemma update_reaches:
  assumes "repo_call c (update f)" and "store_inv s" and "room (k + c) s" and "f s = (r, s')"
  shows "store_inv s'" "room k s'"
  using repo_call.reaches [OF assms(1-3)] assms(2,4) store_run_inv by (auto simp: update_def)

text \<open>A request on its way, as the store has it: the claim at the version that was seen, and the attempt.\<close>

definition dispatchedAs :: "memstore \<Rightarrow> execution \<Rightarrow> attemptID \<Rightarrow> instanceID \<Rightarrow> bool" where
  "dispatchedAs s x a inst \<longleftrightarrow>
     (\<exists>y at. map_of (ms_executions s) (x_ID x) = Some y \<and> x_State y = StateDispatching \<and> x_CurrentAttemptID y = a
        \<and> x_Version y = x_Version x + 2
        \<and> map_of (ms_attempts s) a = Some at \<and> a_State at = AttemptDispatched \<and> a_ExecutionID at = x_ID x
        \<and> a_InstanceID at = inst)"

definition claimable :: "memstore \<Rightarrow> execution \<Rightarrow> bool" where
  "claimable s x \<longleftrightarrow> (\<exists>x0. map_of (ms_executions s) (x_ID x) = Some x0 \<and> x_Version x0 = x_Version x
     \<and> (x_State x0 = StateDispatching \<or> CanTransition (x_State x0) StateDispatching))"

lemma claimAndDispatch_sent:
  assumes res: "claimAndDispatch e jb x now ref = Some e'" and ok: "store_inv (e_mem e)" "room 2 (e_mem e)"
    and sent: "e_outbox e' \<noteq> e_outbox e"
  shows "\<exists>a n. e_outbox e' = e_outbox e @ [(en_sender (rg_heap (e_reg e) ref), ExecRequestMsg (requestFor jb x a n))]
    \<and> claimable (e_mem e) x \<and> dispatchedAs (e_mem e') x a (en_instanceID (rg_heap (e_reg e) ref))"
proof -
  let ?u = "emptyUpdate\<lparr>u_State := Some StateDispatching, u_LeaseExpiresAt := Some (timeAdd now (cf_Lease (e_cfg e)))\<rparr>"
  let ?inst = "en_instanceID (rg_heap (e_reg e) ref)"
  obtain claimed s1 n at s2 fenced e1 where c: "UpdateExecution (e_mem e) (x_ID x) (x_Version x) ?u = (Inr claimed, s1)"
    "CreateAttempt s1 (x_ID x) n ?inst = (Inr at, s2)"
    "UpdateExecution s2 (x_ID claimed) (x_Version claimed) (emptyUpdate\<lparr>u_CurrentAttemptID := Some (a_ID at)\<rparr>)
       = (Inr fenced, e_mem e1)"
    "e_outbox e1 = e_outbox e" "e_reg e1 = e_reg e"
    "deliverRequest e1 jb x ref (a_ID at) (x_FunctionAttempts fenced) = Some e'"
    using claimAndDispatch_cases [OF res] sent by blast
  obtain e2 where d: "e_outbox e' = e_outbox e @ [(en_sender (rg_heap (e_reg e) ref),
        ExecRequestMsg (requestFor jb x (a_ID at) (x_FunctionAttempts fenced)))]"
    "e_mem e2 = e_mem e1" "materializeNext e2 jb (x_ScheduledAt x) = Some e'"
    using deliverRequest_cases [OF c(6)] sent c(4,5) by auto
  obtain x0 t where x0: "map_of (ms_executions (e_mem e)) (x_ID x) = Some x0" "x_Version x0 = x_Version x"
    "stateCheck ?u x0 = None" "claimed = applyUpdate ?u t x0"
    "ms_executions s1 = AList.update (x_ID x) claimed (ms_executions (e_mem e))"
    using UpdateExecution_Inr [OF c(1)] by blast
  have id: "x_ID claimed = x_ID x" "x_State claimed = StateDispatching" "x_Version claimed = x_Version x + 1"
    using x0 execution_ID [OF ok(1) x0(1)] by (simp_all add: applyUpdate_def orKeep_def emptyUpdate_def)
  have "ms_executions s2 = ms_executions s1"
    using CreateAttempt_frame(3) [of s1 "x_ID x" n ?inst] c(2) by simp
  then have fenced: "map_of (ms_executions (e_mem e1)) (x_ID x) = Some fenced" "x_State fenced = StateDispatching"
    "x_CurrentAttemptID fenced = a_ID at" "x_Version fenced = x_Version x + 2"
    using UpdateExecution_Inr [OF c(3)] x0(5) id
    by (auto simp: AList.update_conv' applyUpdate_def orKeep_def emptyUpdate_def)
  have "ms_attempts (e_mem e1) = ms_attempts s2"
    using c(3) UpdateExecution_frame(5) [of s2 "x_ID claimed" "x_Version claimed"] by (metis snd_conv)
  with CreateAttempt_Inr [OF c(2)] have at: "map_of (ms_attempts (e_mem e1)) (a_ID at) = Some at"
    "a_ExecutionID at = x_ID x" "a_InstanceID at = ?inst" "a_State at = AttemptDispatched" by simp_all
  have inv: "store_inv (e_mem e1)" "room 1 (e_mem e1)"
    using update_reaches [OF updateExecution.repo_call_axioms _ _ c(3), of 1]
      update_reaches [OF createAttempt.repo_call_axioms _ _ c(2), of 1]
      update_reaches [OF updateExecution.repo_call_axioms _ _ c(1), of 2] ok by (simp_all add: numeral_2_eq_2)
  have "dispatchedAs (e_mem e') x (a_ID at) ?inst"
    using materializeNext_keeps [OF d(3)] inv fenced at by (auto simp: d(2) dispatchedAs_def)
  moreover have "claimable (e_mem e) x"
    using x0 by (auto simp: claimable_def stateCheck_def emptyUpdate_def split: if_splits)
  ultimately show ?thesis
    using d(1) by blast
qed

section \<open>Dispatch\<close>

lemma selectExecutor_mem: "selectExecutor e jb = (r, e') \<Longrightarrow> e_mem e' = e_mem e \<and> e_outbox e' = e_outbox e"
  by (auto simp: selectExecutor_def bump_def Let_def split: prod.splits option.splits if_splits)

lemma selectExecutor_none: "selectExecutor e jb = (None, e') \<Longrightarrow> e_outbox e' = e_outbox e"
  using selectExecutor_mem by blast

lemma dispatchExecution_cases:
  assumes "dispatchExecution e x now = Some e'"
  shows "e_outbox e' = e_outbox e
    \<or> (\<exists>jb n ref e2. map_of (ms_jobs (e_mem e)) (x_JobID x) = Some jb \<and> j_Enabled jb
        \<and> selectExecutor (e\<lparr>e_calls := n\<rparr>) jb = (Some ref, e2) \<and> claimAndDispatch e2 jb x now ref = Some e')"
  using assms
  by (auto simp: dispatchExecution_def GetJob_def call_defs dest!: transition_silent materializeNext_silent
      parkUndispatchable_silent selectExecutor_none elim!: repo_cases
      split: bind_splits sum.splits option.splits if_splits prod.splits)

lemma dispatchExecution_sent:
  assumes res: "dispatchExecution e x now = Some e'" and ok: "store_inv (e_mem e)" "registry_inv (e_reg e)" "room 2 (e_mem e)"
    and sent: "e_outbox e' \<noteq> e_outbox e"
  shows "\<exists>jb ref a n. map_of (ms_jobs (e_mem e)) (x_JobID x) = Some jb \<and> j_Enabled jb
    \<and> eligible (e_reg e) (j_ExecutorType jb) (j_Function jb) ref
    \<and> rg_Get (e_reg e) (en_instanceID (rg_heap (e_reg e) ref)) = Some ref
    \<and> (p_Label (j_Pin jb) \<noteq> '''' \<longrightarrow> p_Policy (j_Pin jb) \<noteq> PinPolicyPreferred
         \<longrightarrow> p_Label (j_Pin jb) \<in> set (entryLabels (rg_heap (e_reg e) ref)))
    \<and> e_outbox e' = e_outbox e @ [(en_sender (rg_heap (e_reg e) ref), ExecRequestMsg (requestFor jb x a n))]
    \<and> claimable (e_mem e) x \<and> dispatchedAs (e_mem e') x a (en_instanceID (rg_heap (e_reg e) ref))"
proof -
  obtain jb n ref e2 where c: "map_of (ms_jobs (e_mem e)) (x_JobID x) = Some jb" "j_Enabled jb"
    "selectExecutor (e\<lparr>e_calls := n\<rparr>) jb = (Some ref, e2)" "claimAndDispatch e2 jb x now ref = Some e'"
    using dispatchExecution_cases [OF res] sent by blast
  have e2: "e_mem e2 = e_mem e" "e_outbox e2 = e_outbox e"
    using selectExecutor_mem [OF c(3)] by simp_all
  from selectExecutor_choice [OF _ c(3)] ok(2)
  have sel: "eligible (e_reg e) (j_ExecutorType jb) (j_Function jb) ref
    \<and> rg_Get (e_reg e) (en_instanceID (rg_heap (e_reg e) ref)) = Some ref
    \<and> (p_Label (j_Pin jb) \<noteq> '''' \<longrightarrow> p_Policy (j_Pin jb) \<noteq> PinPolicyPreferred
         \<longrightarrow> p_Label (j_Pin jb) \<in> set (entryLabels (rg_heap (e_reg e) ref)))"
    and heap: "rg_heap (e_reg e2) = rg_heap (e_reg e)" by auto
  have "e_outbox e' \<noteq> e_outbox e2" using sent e2 by simp
  from claimAndDispatch_sent [OF c(4) _ _ this] ok(1,3) c(1,2) sel show ?thesis
    unfolding e2 heap by blast
qed

text \<open>
  C2. A dispatch sends at most one message, and only a fenced one: a request for the execution it
  was given, from a job that exists and is enabled, to a registered executor that is alive, of the
  job's type, supports the function, has capacity and announces the label a strict pin asks for.
  It is sent only if the stored execution still had the version the dispatcher saw, and then the
  store holds the execution as dispatching under an attempt on that executor, the one the request
  names. So of two dispatchers that saw the same version only one sends: whatever happens when the
  snapshot is dispatched again, nothing more goes out.
\<close>

theorem dispatch_fenced:
  assumes "engine_ok 4 e" and res: "dispatchExecution e x now = Some e'"
  shows "e_outbox e' = e_outbox e
    \<or> (\<exists>jb ref a n. map_of (ms_jobs (e_mem e)) (x_JobID x) = Some jb \<and> j_Enabled jb
        \<and> eligible (e_reg e) (j_ExecutorType jb) (j_Function jb) ref
        \<and> rg_Get (e_reg e) (en_instanceID (rg_heap (e_reg e) ref)) = Some ref
        \<and> (p_Label (j_Pin jb) \<noteq> '''' \<longrightarrow> p_Policy (j_Pin jb) \<noteq> PinPolicyPreferred
             \<longrightarrow> p_Label (j_Pin jb) \<in> set (entryLabels (rg_heap (e_reg e) ref)))
        \<and> e_outbox e' = e_outbox e @ [(en_sender (rg_heap (e_reg e) ref), ExecRequestMsg (requestFor jb x a n))]
        \<and> claimable (e_mem e) x \<and> dispatchedAs (e_mem e') x a (en_instanceID (rg_heap (e_reg e) ref))
        \<and> (\<forall>now' e''. dispatchExecution e' x now' = Some e'' \<longrightarrow> e_outbox e'' = e_outbox e'))"
proof (cases "e_outbox e' = e_outbox e")
  case False
  have ok: "store_inv (e_mem e)" "registry_inv (e_reg e)" "room 2 (e_mem e)"
    using assms(1) room_mono [of 4] by (simp_all add: engine_ok_def)
  have "engine_ok (2 + 2) e" using assms(1) by simp
  then have ok': "store_inv (e_mem e')" "registry_inv (e_reg e')" "room 2 (e_mem e')"
    using dispatchExecution_returns [of e x now] res unfolding returnsBy_def engine_ok_def by fastforce+
  have "e_outbox e'' = e_outbox e'" if again: "dispatchExecution e' x now' = Some e''"
      and d: "dispatchedAs (e_mem e') x a inst" for now' e'' a inst
  proof (rule ccontr)
    assume "e_outbox e'' \<noteq> e_outbox e'"
    from dispatchExecution_sent [OF again ok' this] have "claimable (e_mem e') x" by blast
    with d show False by (auto simp: claimable_def dispatchedAs_def)
  qed
  with dispatchExecution_sent [OF res ok False] show ?thesis by blast
qed simp

lemma demo_ok: "engine_ok 4 demo_engine"
proof -
  have "e_mem demo_engine = NewStore 0 0 (\<lambda>_. 0)" "e_reg demo_engine = NewExecutorRegistry"
    by (simp_all add: demo_engine_def NewEngine_def)
  then show ?thesis
    using NewStore_inv [of 0 0 "\<lambda>_. 0"] by (simp add: engine_ok_def registry_inv_New room_def) (simp add: NewStore_def)
qed

theorem dispatch_fenced_witness:
  "\<exists>e'. dispatchExecution demo_engine demo_execution 5 = Some e' \<and> e_outbox e' = e_outbox demo_engine"
proof -
  obtain e' where e': "dispatchExecution demo_engine demo_execution 5 = Some e'"
    using dispatchExecution_returns [of demo_engine demo_execution 5, unfolded returnsBy_def, rule_format, of 0]
      engine_ok_mono [OF demo_ok, of "0 + 2"] by auto
  show ?thesis
    using dispatch_fenced [OF demo_ok e'] e'
    by (auto simp: demo_engine_def NewEngine_def NewStore_def)
qed

end
