(* ===== verification/Engine_Recovery.thy ===== *)
theory Engine_Recovery
  imports Engine_Dispatch
begin

text \<open>
  Executions whose executor is gone: at startup, when a lease expires and when an instance
  disconnects, the engine abandons the attempt and puts the execution back in the queue.
\<close>

section \<open>Abandoning one attempt\<close>

definition openAttempt :: "memstore \<Rightarrow> attemptID \<Rightarrow> bool" where
  "openAttempt s a \<longleftrightarrow> (\<exists>at. map_of (ms_attempts s) a = Some at \<and> a_State at \<in> {AttemptDispatched, AttemptAccepted})"

text \<open>
  From \<open>s\<close> to \<open>t\<close> the executions of \<open>xs\<close> are requeued, each one version on and with its current attempt
  closed; every other execution is as it was, and no attempt has been opened.
\<close>

definition requeuedAll :: "execution set \<Rightarrow> memstore \<Rightarrow> memstore \<Rightarrow> bool" where
  "requeuedAll X s t \<longleftrightarrow>
     (\<forall>x \<in> X. \<not> openAttempt t (x_CurrentAttemptID x)
        \<and> (\<exists>y. map_of (ms_executions t) (x_ID x) = Some y \<and> x_State y = StateReady \<and> x_Version y = x_Version x + 1))
     \<and> (\<forall>i. i \<notin> x_ID ` X \<longrightarrow> map_of (ms_executions t) i = map_of (ms_executions s) i)
     \<and> (\<forall>a. openAttempt t a \<longrightarrow> openAttempt s a)"

lemma requeueReady_effect:
  assumes "reliable e" and "map_of (ms_executions (e_mem e)) i = Some x" and "x_ID x = i"
    and "CanTransition (x_State x) StateReady"
  shows "\<exists>y t. requeueReady e i d = Some (True, e\<lparr>e_ticks := Suc (e_ticks e), e_calls := Suc (Suc (e_calls e)),
      e_mem := (e_mem e)\<lparr>ms_tick := t, ms_executions := AList.update i y (ms_executions (e_mem e))\<rparr>\<rparr>)
    \<and> x_State y = StateReady \<and> x_Version y = x_Version x + 1"
proof -
  let ?u = "emptyUpdate\<lparr>u_State := Some StateReady, u_NextAttemptAt := Some (timeAdd (e_clock e (e_ticks e)) d)\<rparr>"
  have "stateCheck ?u x = None" and live: "\<not> Terminal (x_State x)"
    using assms(4) terminal_no_transition by (auto simp: stateCheck_def emptyUpdate_def)
  from updated_stored [OF assms(2) HOL.refl this(1)] assms live show ?thesis
    by (intro exI [of _ "applyUpdate ?u (ms_now (e_mem e)) x"] exI)
       (simp add: requeueReady_def lookup_def update_def GetExecution_def now_e_def applyUpdate_def orKeep_def emptyUpdate_def)
qed

lemma closing_attempt:
  defines "close \<equiv> \<lambda>s a why. snd (UpdateAttemptState s a [AttemptDispatched, AttemptAccepted] AttemptLost why)"
  shows "\<not> openAttempt (close s a why) a" "openAttempt (close s a why) b \<Longrightarrow> openAttempt s b"
    "ms_executions (close s a why) = ms_executions s"
  by (auto simp: close_def UpdateAttemptState_def openAttempt_def readClock_def Let_def detachAttemptFromHost_def
      AList.update_conv' split: option.splits if_splits)

lemma abandonAttempt_effect:
  assumes rel: "reliable e" and inv: "store_inv (e_mem e)"
    and x: "map_of (ms_executions (e_mem e)) (x_ID x) = Some x" "inLease x"
  shows "\<exists>e'. abandonAttempt e x why = Some e' \<and> reliable e' \<and> requeuedAll {x} (e_mem e) (e_mem e')"
proof -
  have can: "CanTransition (x_State x) StateReady"
    using x(2) by (auto simp: inLease_def CanTransition_def)
  have zero: "\<not> openAttempt (e_mem e) 0"
    using inv by (auto simp: openAttempt_def store_inv_def attempts_inv_def dest: map_of_SomeD)
  define s1 where "s1 = (if x_CurrentAttemptID x = 0 then e_mem e else snd (UpdateAttemptState (e_mem e)
    (x_CurrentAttemptID x) [AttemptDispatched, AttemptAccepted] AttemptLost why))"
  have s1: "\<not> openAttempt s1 (x_CurrentAttemptID x)" "openAttempt s1 b \<Longrightarrow> openAttempt (e_mem e) b"
    "ms_executions s1 = ms_executions (e_mem e)" for b
    using closing_attempt [of "e_mem e" "x_CurrentAttemptID x" why] zero
    by (auto simp: s1_def split: if_splits)
  have "\<exists>e1. (if x_CurrentAttemptID x \<noteq> 0 then
          do { (_, e) \<leftarrow> repo e (update (\<lambda>s. UpdateAttemptState s (x_CurrentAttemptID x)
                 [AttemptDispatched, AttemptAccepted] AttemptLost why));
               releaseAttemptSlot e (x_CurrentAttemptID x) }
        else Some e) = Some e1 \<and> e_mem e1 = s1 \<and> reliable e1"
    using rel by (auto simp: update_def releaseAttemptSlot_def lookup_def s1_def split_def split: sum.split option.split)
  then obtain e1 where e1: "abandonAttempt e x why = do { (requeued, e) \<leftarrow> requeueReady e1 (x_ID x) 0;
          Some (if requeued then bump mt_InfraRedispatches_update e else e) }" "e_mem e1 = s1" "reliable e1"
    unfolding abandonAttempt_def by auto
  obtain y t where "requeueReady e1 (x_ID x) 0 = Some (True, e1\<lparr>e_ticks := Suc (e_ticks e1), e_calls := Suc (Suc (e_calls e1)),
      e_mem := s1\<lparr>ms_tick := t, ms_executions := AList.update (x_ID x) y (ms_executions s1)\<rparr>\<rparr>)"
    "x_State y = StateReady" "x_Version y = x_Version x + 1"
    using requeueReady_effect [of e1 "x_ID x" x 0] e1(2,3) s1(3) x(1) can by auto
  then show ?thesis
    using e1(1,3) s1
    by (auto simp: requeuedAll_def AList.update_conv') (auto simp: openAttempt_def)
qed

section \<open>Abandoning many\<close>

lemma requeuedAll_union:
  assumes "requeuedAll X s t" and "requeuedAll Y t u" and "x_ID ` X \<inter> x_ID ` Y = {}"
  shows "requeuedAll (X \<union> Y) s u"
  using assms unfolding requeuedAll_def image_Un by (metis (no_types, lifting) Un_iff disjoint_iff image_eqI)

lemma abandonAll_effect:
  assumes "reliable e" and "engine_ok 0 e" and "distinct (map x_ID xs)"
    and "\<And>x. x \<in> set xs \<Longrightarrow> map_of (ms_executions (e_mem e)) (x_ID x) = Some x \<and> inLease x"
  shows "\<exists>e'. abandonAll e why xs = Some e' \<and> requeuedAll (set xs) (e_mem e) (e_mem e')"
  using assms
proof (induction xs arbitrary: e)
  case Nil
  then show ?case by (simp add: requeuedAll_def)
next
  case (Cons x xs)
  have inv: "store_inv (e_mem e)" using Cons.prems(2) by (simp add: engine_ok_def)
  obtain e1 where e1: "abandonAttempt e x why = Some e1" "reliable e1" "requeuedAll {x} (e_mem e) (e_mem e1)"
    using abandonAttempt_effect [OF Cons.prems(1) inv, of x why] Cons.prems(4) by auto
  have ok: "engine_ok 0 e1"
    using abandonAttempt_returns [of e x why] Cons.prems(2) e1(1) by (auto simp: returnsBy_def)
  have "map_of (ms_executions (e_mem e1)) (x_ID y) = Some y \<and> inLease y" if "y \<in> set xs" for y
  proof -
    have "x_ID y \<noteq> x_ID x" using Cons.prems(3) that by (auto simp: image_iff)
    then show ?thesis using Cons.prems(4) [of y] e1(3) that by (simp add: requeuedAll_def)
  qed
  with Cons.IH [OF e1(2) ok] Cons.prems(3) obtain e' where
    e': "abandonAll e1 why xs = Some e'" "requeuedAll (set xs) (e_mem e1) (e_mem e')" by auto
  have "requeuedAll ({x} \<union> set xs) (e_mem e) (e_mem e')"
    by (rule requeuedAll_union [OF e1(3) e'(2)]) (use Cons.prems(3) in auto)
  with e1(1) e'(1) show ?case by simp
qed

lemma listed_executions:
  assumes "executions_inv s"
  shows "distinct (map x_ID (filter P (map snd (ms_executions s))))"
    "x \<in> set (filter P (map snd (ms_executions s))) \<longleftrightarrow> map_of (ms_executions s) (x_ID x) = Some x \<and> P x"
proof -
  have d: "distinct (map fst (ms_executions s))" and id: "\<forall>(i, x) \<in> set (ms_executions s). x_ID x = i"
    using assms by (auto simp: executions_inv_def)
  have "map (\<lambda>p. x_ID (snd p)) (ms_executions s) = map fst (ms_executions s)"
    using id by auto
  then have "map x_ID (map snd (ms_executions s)) = map fst (ms_executions s)" by (simp add: o_def)
  with d have "distinct (map x_ID (map snd (ms_executions s)))" by metis
  then show "distinct (map x_ID (filter P (map snd (ms_executions s))))" by (rule distinct_map_filter)
  show "x \<in> set (filter P (map snd (ms_executions s))) \<longleftrightarrow> map_of (ms_executions s) (x_ID x) = Some x \<and> P x"
    using d id by (force simp: map_of_eq_Some_iff)
qed

section \<open>Backfill leaves what exists\<close>

definition grows :: "engine \<Rightarrow> engine \<Rightarrow> bool" where
  "grows e e' \<longleftrightarrow> e_fault e' = e_fault e
     \<and> (\<forall>i x. map_of (ms_executions (e_mem e)) i = Some x \<longrightarrow> map_of (ms_executions (e_mem e')) i = Some x)"

lemma grows_trans: "grows e e' \<Longrightarrow> grows e' e'' \<Longrightarrow> grows e e''"
  by (simp add: grows_def)

lemma create_grows:
  assumes "repo e (\<lambda>s. CreateExecution s j t st b) = Some (r, e')" and ok: "engine_ok (Suc k) e"
  shows "grows e e' \<and> engine_ok k e'"
proof -
  have inv: "store_inv (e_mem e)" "room (Suc k) (e_mem e)" using ok by (simp_all add: engine_ok_def)
  have "engine_ok k e'"
    using createExecution.repo_returns [of e j t st b, unfolded returnsBy_def, rule_format, of k] assms by auto
  moreover have "map_of (ms_executions s') i = Some x"
    if "CreateExecution (e_mem e) j t st b = Some (r0, s')" "map_of (ms_executions (e_mem e)) i = Some x" for r0 s' i x
    using CreateExecution_lookup [OF _ _ that(1) execution_ID_bound [OF inv(1) that(2)]] room_next [OF inv(2)] inv(1) that(2)
    by (simp add: store_inv_def)
  ultimately show ?thesis
    using assms(1) by (auto simp: grows_def elim!: repo_cases)
qed

lemma skipped_grows:
  assumes "repo e (update (\<lambda>s. AddSkippedOccurrences s i n)) = Some (r, e')" and "engine_ok k e"
  shows "grows e e' \<and> engine_ok k e'"
proof -
  have "engine_ok k e'"
    using addSkipped.repo_returns [of e i n, unfolded returnsBy_def, rule_format, of k] assms by auto
  moreover have "ms_executions s' = ms_executions (e_mem e)" if "AddSkippedOccurrences (e_mem e) i n = (r0, s')" for r0 s'
    using AddSkippedOccurrences_frame(2) [of "e_mem e" i n] that by simp
  ultimately show ?thesis
    using assms(1) by (auto simp: grows_def update_def elim!: repo_cases)
qed

lemma createMissed_grows:
  "createMissed e jb ts = Some e' \<Longrightarrow> engine_ok (k + length ts) e \<Longrightarrow> grows e e' \<and> engine_ok k e'"
proof (induction ts arbitrary: e)
  case (Cons t ts)
  obtain r e1 where c: "repo e (\<lambda>s. CreateExecution s (j_ID jb) t StateScheduled True) = Some (r, e1)"
    "createMissed (case r of Inl _ \<Rightarrow> e1 | Inr (_, created) \<Rightarrow> if created then bump mt_BackfillCreated_update e1 else e1) jb ts = Some e'"
    using Cons.prems(1) by (auto simp: Let_def split: bind_splits)
  have e1: "grows e e1" "engine_ok (k + length ts) e1"
    using create_grows [OF c(1), of "k + length ts"] Cons.prems(2) by simp_all
  have same: "engine_ok n (bump cn e2) = engine_ok n e2" "grows e (bump cn e2) = grows e e2"
    "grows (bump cn e2) e = grows e2 e" for n cn e2 e
    by (simp_all add: engine_ok_def grows_def)
  let ?e = "case r of Inl _ \<Rightarrow> e1 | Inr (_, created) \<Rightarrow> if created then bump mt_BackfillCreated_update e1 else e1"
  have "grows e ?e" "engine_ok (k + length ts) ?e"
    using e1 by (simp_all add: same split: sum.splits prod.splits)
  with Cons.IH [OF c(2)] show ?case by (blast intro: grows_trans)
qed (simp add: grows_def)

lemma materializeJob_grows:
  assumes res: "materializeJob e jb now = Some e'" and "usable e" and ok: "engine_ok (k + backlog e) e"
  shows "grows e e' \<and> engine_ok k e'"
proof -
  obtain maxCount maxAge where caps: "backfillCaps e jb = (maxCount, maxAge)" by fastforce
  note b = backfillCaps_bounds [OF assms(2) caps]
  obtain missed skipped where m: "missedOccurrences (j_Schedule jb) now maxCount maxAge = Some (missed, skipped)"
    "length missed < backlog e"
    using missedOccurrences_total [of maxAge maxCount "j_Schedule jb" now] b by fastforce
  obtain ts sk e1 e2 where c: "length ts \<le> length missed"
    "(if 0 < sk then
        do { (_, e) \<leftarrow> repo e (update (\<lambda>s. AddSkippedOccurrences s (j_ID jb) sk));
             Some (e\<lparr>e_metrics := mt_BackfillSkipped_update (\<lambda>n. n + sk) (e_metrics e)\<rparr>) }
      else Some e) = Some e1"
    "createMissed e1 jb ts = Some e2"
    "(case nextOccurrence (j_Schedule jb) now of None \<Rightarrow> Some e2
      | Some t \<Rightarrow> map_option snd (repo e2 (\<lambda>s. CreateExecution s (j_ID jb) t StateScheduled False))) = Some e'"
  proof (cases "resolveBackfill e (b_Mode (j_Backfill jb)) = BackfillModeDisabled")
    case True
    then show ?thesis
      using res that [of "[]" "skipped + of_nat (length missed)"]
      by (auto simp: materializeJob_def caps m(1) Let_def split: bind_splits)
  next
    case False
    then show ?thesis
      using res that [of missed skipped]
      by (auto simp: materializeJob_def caps m(1) Let_def split: bind_splits)
  qed
  have ok': "engine_ok (Suc k + length ts) e"
    using engine_ok_mono [OF ok] c(1) m(2) by simp
  have e1: "grows e e1 \<and> engine_ok (Suc k + length ts) e1"
    using c(2) ok' skipped_grows [of e "j_ID jb" sk _ _ "Suc k + length ts"]
    by (auto simp: grows_def engine_ok_def split: if_splits bind_splits)
  have e2: "grows e1 e2 \<and> engine_ok (Suc k) e2"
    using createMissed_grows [OF c(3)] e1 by blast
  have "grows e2 e' \<and> engine_ok k e'"
    using c(4) e2 create_grows [of e2 "j_ID jb" _ StateScheduled False _ _ k] engine_ok_mono [of "Suc k" e2 k]
    by (auto simp: grows_def split: option.splits)
  with e1 e2 show ?thesis by (blast intro: grows_trans)
qed

lemma materializeJobs_grows:
  "materializeJobs e now js = Some e' \<Longrightarrow> usable e \<Longrightarrow> engine_ok (k + backlog e * length js) e
     \<Longrightarrow> grows e e' \<and> engine_ok k e'"
proof (induction js arbitrary: e)
  case (Cons jb js)
  obtain e1 where e1: "materializeJob e jb now = Some e1" "materializeJobs e1 now js = Some e'"
    using Cons.prems(1) by (auto split: bind_splits)
  have g: "grows e e1 \<and> engine_ok (k + backlog e * length js) e1"
    using materializeJob_grows [OF e1(1) Cons.prems(2), of "k + backlog e * length js"] Cons.prems(3)
    by (simp add: ac_simps)
  have "evolves e e1"
    using materializeJob_returns [OF Cons.prems(2), of jb now, unfolded returnsBy_def, rule_format, of 0]
      engine_ok_mono [OF Cons.prems(3), of "backlog e"] e1(1) by auto
  with Cons.IH [OF e1(2)] Cons.prems(2) g show ?case
    using usable_evolves [of e e1] by (metis grows_trans)
qed (simp add: grows_def)

section \<open>Startup\<close>

text \<open>
  C5. After a start without repository failures nothing is left half done. Let the engine not be
  running, with a normalized configuration (a backfill count, a backfill age in 64 bits and a batch size
  above zero), the invariants of its store and registry and room for the identifiers of the occurrences it
  may create, and let no repository call fail: recovery gives up at the first that does. Whatever else the
  previous process was doing, once \<open>Start\<close> has run no execution is dispatching or running: each one that
  was is ready again, one version on, and its attempt is closed, so that a late result of it is refused;
  every execution that was not in flight is untouched, the occurrences missed meanwhile being added
  beside them.
\<close>

theorem startup_requeues_interrupted:
  assumes rel: "reliable e" and us: "usable e" and ok: "engine_ok (op_cost e DoStart) e" and "\<not> e_running e"
  shows "\<exists>e'. engine_Start e = Some e'
    \<and> (\<forall>i x. map_of (ms_executions (e_mem e')) i = Some x \<longrightarrow> \<not> inLease x)
    \<and> (\<forall>i x. map_of (ms_executions (e_mem e)) i = Some x \<longrightarrow>
         (if inLease x
          then \<not> openAttempt (e_mem e') (x_CurrentAttemptID x)
            \<and> (\<exists>y. map_of (ms_executions (e_mem e')) i = Some y \<and> x_State y = StateReady \<and> x_Version y = x_Version x + 1)
          else map_of (ms_executions (e_mem e')) i = Some x))"
proof -
  define now js where "now = e_clock e (e_ticks e)" and "js = ListEnabledJobs (e_mem e)"
  define e1 where "e1 = e\<lparr>e_running := True, e_stopping := False, e_reg := SetNotify (e_reg e) True,
    e_ticks := Suc (e_ticks e), e_calls := Suc (e_calls e), e_mem := e_mem e\<rparr>"
  have e1: "reliable e1" "usable e1" "backlog e1 = backlog e" "e_mem e1 = e_mem e"
    using rel us by (simp_all add: e1_def usable_def backlog_def)
  have "registry_inv (SetNotify (e_reg e) True) = registry_inv (e_reg e)"
    by (simp add: SetNotify_def registry_inv_def registered_def)
  moreover have "backlog e * length js \<le> op_cost e DoStart"
    using ListEnabledJobs_length [of "e_mem e"] mult_le_mono2 by (simp add: js_def op_cost_def)
  from engine_ok_mono [OF ok this] have "engine_ok (backlog e * length js) e" .
  ultimately have ok1: "engine_ok (0 + backlog e1 * length js) e1"
    using e1(3) by (simp add: engine_ok_def e1_def)
  obtain e2 where e2: "materializeJobs e1 now js = Some e2"
    using materializeJobs_returns [OF e1(2), of js now, unfolded returnsBy_def, rule_format, OF ok1] by blast
  from materializeJobs_grows [OF e2 e1(2) ok1] have g: "grows e1 e2" "engine_ok 0 e2" by simp_all
  then have inv2: "executions_inv (e_mem e2)" by (simp add: engine_ok_def store_inv_def)
  define P where "P = (\<lambda>x :: execution. x_State x = StateDispatching \<or> x_State x = StateRunning)"
  define xs e3 where "xs = filter P (map snd (ms_executions (e_mem e2)))" and
    "e3 = e2\<lparr>e_calls := Suc (e_calls e2), e_mem := e_mem e2\<rparr>"
  have e3: "reliable e3" "engine_ok 0 e3" "e_mem e3 = e_mem e2" "reliable e2"
    using g e1(1) by (simp_all add: e3_def grows_def engine_ok_def)
  have P: "P = inLease" by (simp add: P_def inLease_def fun_eq_iff)
  have listed: "distinct (map x_ID xs)" "\<And>x. x \<in> set xs \<longleftrightarrow> map_of (ms_executions (e_mem e2)) (x_ID x) = Some x \<and> inLease x"
    using listed_executions(1) [OF inv2, of P] listed_executions(2) [OF inv2, of _ P] by (simp_all add: xs_def P)
  obtain e4 where e4: "abandonAll e3 lostReasonRestart xs = Some e4" "requeuedAll (set xs) (e_mem e3) (e_mem e4)"
    using abandonAll_effect [OF e3(1,2) listed(1)] listed(2) e3(3) by auto
  have start: "engine_Start e = Some (Notify e4)"
    using assms(4) rel e2 e4(1) e3(4)
    by (simp add: engine_Start_def recoverOnStartup_def now_e_def query_def query_opt_def ExecutionsInStates_def
        orderedExecutions_inv [OF inv2] js_def [symmetric] now_def [symmetric] e1_def [symmetric] xs_def P_def e3_def)
  have ids: "x_ID x = i" if "map_of (ms_executions (e_mem e2)) i = Some x" for i x
    using g(2) that execution_ID by (auto simp: engine_ok_def)
  have idle: "\<not> inLease y" if y: "map_of (ms_executions (e_mem e4)) i = Some y" for i y
  proof (cases "i \<in> x_ID ` set xs")
    case True
    then show ?thesis using e4(2) y by (auto simp: requeuedAll_def inLease_def)
  next
    case False
    then have "map_of (ms_executions (e_mem e2)) i = Some y" using e4(2) y e3(3) by (simp add: requeuedAll_def)
    with ids have i: "map_of (ms_executions (e_mem e2)) (x_ID y) = Some y" "i = x_ID y" by auto
    with False have "y \<notin> set xs" by auto
    with i(1) listed(2) show ?thesis by blast
  qed
  have each: "if inLease x
      then \<not> openAttempt (e_mem e4) (x_CurrentAttemptID x)
        \<and> (\<exists>y. map_of (ms_executions (e_mem e4)) i = Some y \<and> x_State y = StateReady \<and> x_Version y = x_Version x + 1)
      else map_of (ms_executions (e_mem e4)) i = Some x"
    if x: "map_of (ms_executions (e_mem e)) i = Some x" for i x
  proof -
    have x2: "map_of (ms_executions (e_mem e2)) i = Some x" using g(1) x e1(4) by (simp add: grows_def)
    with ids have id: "x_ID x = i" by simp
    show ?thesis
    proof (cases "inLease x")
      case True
      with x2 id listed(2) have "x \<in> set xs" by simp
      with True e4(2) id show ?thesis by (auto simp: requeuedAll_def)
    next
      case False
      have "i \<notin> x_ID ` set xs"
      proof
        assume "i \<in> x_ID ` set xs"
        then obtain y where y: "y \<in> set xs" "i = x_ID y" by blast
        with listed(2) [of y] have "map_of (ms_executions (e_mem e2)) i = Some y" "inLease y" by simp_all
        with x2 False show HOL.False by simp
      qed
      with False e4(2) x2 e3(3) show ?thesis by (simp add: requeuedAll_def)
    qed
  qed
  show ?thesis
    by (rule exI [of _ "Notify e4"], unfold Notify_frame, intro conjI allI impI start)
       (erule idle, erule each)
qed

theorem startup_requeues_interrupted_witness:
  "\<exists>e'. engine_Start (demo_engine_over demo_running) = Some e' \<and> \<not> openAttempt (e_mem e') 1
    \<and> stateOf (e_mem e') 1 = Some StateReady"
proof -
  let ?e = "demo_engine_over demo_running"
  have use: "usable ?e" "backlog ?e = 101"
    by (simp_all add: usable_def backlog_def config_normalized_def zeroConfig_def Let_def nonzeroOr_def positiveOr_def
        default_config_defs in_int64_def minInt64_def maxInt64_def)
  have "length (ms_jobs demo_running) = 1" "ms_nextExecutionID demo_running = 1" "ms_nextAttemptID demo_running = 1"
    by (simp_all add: demo_running_defs demo_store2_next CreateAttempt_def demo_defs UpsertJob_def scopedKey_def
        readClock_def Let_def CreateExecution_def)
  then have ok: "engine_ok (op_cost ?e DoStart) ?e"
    by (simp add: engine_ok_def demo_running_inv op_cost_def use(2) room_def registry_inv_New)
  have "\<not> e_running ?e"
    by (simp add: demo_engine_over_def demo_engine_def NewEngine_def)
  have x: "map_of (ms_executions (e_mem ?e)) 1 = Some demo_execution" "inLease demo_execution"
    "x_CurrentAttemptID demo_execution = 1"
    by (simp_all add: demo_running_values demo_execution_def inLease_def)
  from startup_requeues_interrupted [OF _ use(1) ok \<open>\<not> e_running ?e\<close>] obtain e' where e': "engine_Start ?e = Some e'"
    and "\<forall>i x. map_of (ms_executions (e_mem ?e)) i = Some x \<longrightarrow>
         (if inLease x
          then \<not> openAttempt (e_mem e') (x_CurrentAttemptID x)
            \<and> (\<exists>y. map_of (ms_executions (e_mem e')) i = Some y \<and> x_State y = StateReady \<and> x_Version y = x_Version x + 1)
          else map_of (ms_executions (e_mem e')) i = Some x)"
    by auto
  from this(2) [rule_format, OF x(1)] x(2,3) have "\<not> openAttempt (e_mem e') 1" "stateOf (e_mem e') 1 = Some StateReady"
    by (auto simp: stateOf_def)
  with e' show ?thesis by blast
qed

end
