(* ===== verification/Update_Scheduler_Inv.thy ===== *)
theory Update_Scheduler_Inv
  imports Update_Scheduler
begin

text \<open>
  The invariant of the keyed scheduler. Everything it keeps is determined by the jobs not done yet,
  in the order they were enqueued: the queue of a key has those with the key, the busy keys are those
  of the jobs that run, and a job that runs is first in each of its queues (\<open>us_ok\<close>). After every
  critical section a job that does not run stands behind another one in some queue (\<open>us_settled\<close>).
\<close>

named_theorems us_simps \<open>what the operations of the keyed scheduler leave alone\<close>

definition undone :: "asyncUpdateScheduler \<Rightarrow> nat list" where
  "undone s = filter (\<lambda>j. \<not> ju_done (jobAt s j)) (us_jobs s)"

definition active :: "asyncUpdateScheduler \<Rightarrow> nat set" where
  "active s = {j \<in> set (undone s). ju_started (jobAt s j)}"

definition us_jobs_ok :: "asyncUpdateScheduler \<Rightarrow> bool" where
  "us_jobs_ok s \<longleftrightarrow> sorted_wrt (<) (us_jobs s) \<and> (\<forall>j \<in> set (us_jobs s). j < length (us_heap s))
     \<and> (\<forall>j < length (us_heap s). (j \<in> set (us_jobs s) \<or> ju_done (jobAt s j)) \<and> distinct (keysOf s j) \<and> keysOf s j \<noteq> [])"

definition us_queues_ok :: "asyncUpdateScheduler \<Rightarrow> bool" where
  "us_queues_ok s \<longleftrightarrow> (\<forall>k. queueAt s k = filter (\<lambda>j. k \<in> set (keysOf s j)) (undone s))"

definition us_busy_ok :: "asyncUpdateScheduler \<Rightarrow> bool" where
  "us_busy_ok s \<longleftrightarrow> us_busyKeys s = (\<Union>j \<in> active s. set (keysOf s j))
     \<and> (\<forall>j \<in> active s. \<forall>k \<in> set (keysOf s j). hd (queueAt s k) = j)"

definition us_core :: "asyncUpdateScheduler \<Rightarrow> bool" where
  "us_core s \<longleftrightarrow> us_jobs_ok s \<and> us_queues_ok s \<and> us_busy_ok s"

definition blockedJob :: "asyncUpdateScheduler \<Rightarrow> nat \<Rightarrow> bool" where
  "blockedJob s j \<longleftrightarrow> (\<exists>k \<in> set (keysOf s j). hd (queueAt s k) \<noteq> j)"

definition us_settled :: "asyncUpdateScheduler \<Rightarrow> bool" where
  "us_settled s \<longleftrightarrow> (\<forall>j \<in> set (undone s). j \<in> active s \<or> blockedJob s j)"

definition us_ok :: "asyncUpdateScheduler \<Rightarrow> bool" where
  "us_ok s \<longleftrightarrow> us_core s \<and> us_settled s \<and> distinct (us_running s) \<and> set (us_running s) = active s"

lemma undone_sorted: "us_jobs_ok s \<Longrightarrow> sorted_wrt (<) (undone s)"
  by (simp add: us_jobs_ok_def undone_def sorted_wrt_filter)

lemma undone_heap: "us_jobs_ok s \<Longrightarrow> j \<in> set (undone s) \<Longrightarrow> j < length (us_heap s)"
  by (simp add: us_jobs_ok_def undone_def)

lemma undone_iff: "us_jobs_ok s \<Longrightarrow> j \<in> set (undone s) \<longleftrightarrow> j < length (us_heap s) \<and> \<not> ju_done (jobAt s j)"
  by (auto simp: us_jobs_ok_def undone_def)

lemma undone_distinct: "us_jobs_ok s \<Longrightarrow> distinct (undone s)"
  using undone_sorted by (simp add: strict_sorted_iff)

lemma active_started: "j \<in> active s \<Longrightarrow> ju_started (jobAt s j)"
  by (simp add: active_def)

lemma active_undone: "j \<in> active s \<Longrightarrow> j \<in> set (undone s)"
  by (simp add: active_def)

section \<open>Collecting the jobs that can run\<close>

lemma jobAt_markStarted:
  "jobAt (markStarted j s) i = (if i = j \<and> j < length (us_heap s) then (jobAt s j)\<lparr>ju_started := True\<rparr> else jobAt s i)"
  by (auto simp: jobAt_def markStarted_def nth_list_update list_update_beyond not_less)

lemma markStarted_simps [us_simps]:
  "keysOf (markStarted j s) i = keysOf s i" "undone (markStarted j s) = undone s"
  "queueAt (markStarted j s) k = queueAt s k" "length (us_heap (markStarted j s)) = length (us_heap s)"
  "ju_done (jobAt (markStarted j s) i) = ju_done (jobAt s i)" "us_jobs (markStarted j s) = us_jobs s"
  "us_running (markStarted j s) = us_running s"
  by (simp_all add: keysOf_def jobAt_markStarted queueAt_def undone_def)
     (auto simp: markStarted_def intro!: filter_cong split: if_splits)

lemma active_markStarted:
  assumes "us_jobs_ok s" and "j \<in> set (undone s)"
  shows "active (markStarted j s) = insert j (active s)"
  using undone_heap [OF assms] assms(2) by (auto simp: active_def us_simps jobAt_markStarted split: if_splits)

lemma canStart_head: "canStartLocked s j \<Longrightarrow> k \<in> set (keysOf s j) \<Longrightarrow> hd (queueAt s k) = j"
  by (simp add: canStartLocked_def)

lemma markStarted_core:
  assumes core: "us_core s" and j: "j \<in> set (undone s)" and can: "canStartLocked s j"
  shows "us_core (markStarted j s)"
proof -
  have jobs: "us_jobs_ok s" using core by (simp add: us_core_def)
  have "us_busy_ok (markStarted j s)"
    using core can
    by (auto simp: us_busy_ok_def us_core_def active_markStarted [OF jobs j] us_simps canStart_head)
       (auto simp: markStarted_def)
  then show ?thesis
    using core by (simp add: us_core_def us_jobs_ok_def us_queues_ok_def us_simps)
qed

lemma cannot_start_blocked:
  assumes core: "us_core s" and j: "j \<in> set (undone s)" and started: "\<not> ju_started (jobAt s j)"
    and can: "\<not> canStartLocked s j"
  shows "blockedJob s j"
proof -
  obtain k where k: "k \<in> set (keysOf s j)" and c: "k \<in> us_busyKeys s \<or> queueAt s k = [] \<or> hd (queueAt s k) \<noteq> j"
    using can unfolding canStartLocked_def by blast
  have "j \<in> set (queueAt s k)"
    using core j k by (simp add: us_core_def us_queues_ok_def)
  then have "queueAt s k \<noteq> []" by auto
  moreover have "hd (queueAt s k) \<noteq> j" if busy: "k \<in> us_busyKeys s"
  proof -
    have "us_busyKeys s = (\<Union>i \<in> active s. set (keysOf s i))"
      using core by (simp add: us_core_def us_busy_ok_def)
    then obtain i where "i \<in> active s" "k \<in> set (keysOf s i)"
      using busy by auto
    then have "hd (queueAt s k) = i" "i \<noteq> j"
      using core started unfolding us_core_def us_busy_ok_def by (auto simp: active_def)
    then show ?thesis by simp
  qed
  ultimately show ?thesis
    using k c unfolding blockedJob_def by blast
qed

lemma collectRunnable_same:
  assumes "collectRunnable js s = (runnable, s')"
  shows "keysOf s' i = keysOf s i" "undone s' = undone s" "queueAt s' k = queueAt s k"
    "length (us_heap s') = length (us_heap s)" "us_jobs s' = us_jobs s" "us_running s' = us_running s"
    "ju_done (jobAt s' i) = ju_done (jobAt s i)" "set runnable \<subseteq> set js"
  using assms
  by (induction js s arbitrary: runnable s' rule: collectRunnable.induct)
     (force simp: us_simps split: if_splits prod.splits)+

lemma collectRunnable_keeps:
  assumes "collectRunnable js s = (runnable, s')" and "us_core s" and "distinct js" and "set js \<subseteq> set (us_jobs s)"
  shows "us_core s' \<and> active s' = active s \<union> set runnable \<and> distinct runnable \<and> set runnable \<inter> active s = {}
    \<and> (\<forall>j \<in> set js. j \<in> set (undone s) \<longrightarrow> j \<in> active s' \<or> blockedJob s' j)"
  using assms
proof (induction js s arbitrary: runnable s' rule: collectRunnable.induct)
  case (1 s)
  then show ?case by simp
next
  case (2 j js s)
  have jobs: "us_jobs_ok s" using "2.prems" by (simp add: us_core_def)
  show ?case
  proof (cases "ju_started (jobAt s j) \<or> ju_done (jobAt s j) \<or> \<not> canStartLocked s j")
    case True
    then have run: "collectRunnable js s = (runnable, s')" using "2.prems"(1) by simp
    have "j \<in> active s \<or> blockedJob s j" if "j \<in> set (undone s)"
      using True that cannot_start_blocked [OF "2.prems"(2) that] by (auto simp: active_def undone_def)
    then show ?thesis
      using "2.IH"(1) [OF True run] "2.prems" run by (auto simp: blockedJob_def collectRunnable_same [OF run])
  next
    case False
    then obtain rs where run: "collectRunnable js (markStarted j s) = (rs, s')" and r: "runnable = j # rs"
      using "2.prems"(1) by (auto split: prod.splits)
    have j: "j \<in> set (undone s)"
      using False "2.prems"(4) by (simp add: undone_def)
    have core: "us_core (markStarted j s)"
      using markStarted_core [OF "2.prems"(2) j] False by simp
    have rest: "distinct js" "set js \<subseteq> set (us_jobs (markStarted j s))"
      using "2.prems"(3,4) by (simp_all add: us_simps)
    show ?thesis
      using "2.IH"(2) [OF False run core rest]
      False j
      by (auto simp: r active_markStarted [OF jobs j] us_simps active_undone dest: active_started)
  qed
qed

text \<open>What \<open>Enqueue\<close> and \<open>finish\<close> have in common: collecting turns the invariant without its last
  part into the whole of it.\<close>

lemma collectAndStart_ok:
  assumes core: "us_core s" and run: "distinct (us_running s)" "set (us_running s) = active s"
  shows "us_ok (collectAndStart s)"
proof -
  obtain rs s' where c: "collectRunnable (us_jobs s) s = (rs, s')" by (cases "collectRunnable (us_jobs s) s")
  have "distinct (us_jobs s)"
    using core by (simp add: us_core_def us_jobs_ok_def strict_sorted_iff)
  note keeps = collectRunnable_keeps [OF c core this subset_refl]
  have e: "collectAndStart s = startJobs rs s'" by (simp add: collectAndStart_def c)
  have same: "jobAt (startJobs rs s') = jobAt s'" "keysOf (startJobs rs s') = keysOf s'" "undone (startJobs rs s') = undone s'"
    "active (startJobs rs s') = active s'" "queueAt (startJobs rs s') = queueAt s'"
    by (simp_all add: fun_eq_iff startJobs_def jobAt_def keysOf_def undone_def active_def queueAt_def)
  have "us_core (startJobs rs s') = us_core s'"
    unfolding us_core_def us_jobs_ok_def us_queues_ok_def us_busy_ok_def same by (simp add: startJobs_def)
  then have core': "us_core (startJobs rs s')"
    using keeps by simp
  have "undone s' = undone s" by (rule collectRunnable_same [OF c])
  then have "us_settled (startJobs rs s')"
    using keeps unfolding us_settled_def same blockedJob_def by (auto simp: undone_def)
  moreover have "us_running (startJobs rs s') = us_running s @ rs"
    using collectRunnable_same(6) [OF c] by (simp add: startJobs_def)
  ultimately show ?thesis
    using core' keeps run by (auto simp: us_ok_def e same)
qed


section \<open>Enqueue\<close>

lemma uniqueFrom_distinct: "distinct (uniqueFrom seen vs) \<and> set (uniqueFrom seen vs) = set vs - seen"
  by (induction seen vs rule: uniqueFrom.induct) auto

lemma uniqueStrings_distinct [simp]: "distinct (uniqueStrings vs)"
  by (cases vs) (auto simp: uniqueStrings_def uniqueFrom_distinct)

lemma uniqueStrings_set [simp]: "set (uniqueStrings vs) = set vs"
  by (simp add: uniqueStrings_def uniqueFrom_distinct)

lemma uniqueStrings_Nil_iff [simp]: "uniqueStrings vs = [] \<longleftrightarrow> vs = []"
  using uniqueStrings_set [of vs] by (metis set_empty)

lemma fold_append_queue:
  "distinct ks \<Longrightarrow> fold (\<lambda>k q. q(k \<mapsto> (case q k of None \<Rightarrow> [] | Some is \<Rightarrow> is) @ [j])) ks q k
    = (if k \<in> set ks then Some ((case q k of None \<Rightarrow> [] | Some is \<Rightarrow> is) @ [j]) else q k)"
  by (induction ks arbitrary: q) auto

lemma appendJob_simps:
  "us_jobs (appendJob keys h s) = us_jobs s @ [length (us_heap s)]"
  "length (us_heap (appendJob keys h s)) = Suc (length (us_heap s))"
  "us_running (appendJob keys h s) = us_running s"
  "us_busyKeys (appendJob keys h s) = us_busyKeys s"
  "i < length (us_heap s) \<Longrightarrow> jobAt (appendJob keys h s) i = jobAt s i"
  "i < length (us_heap s) \<Longrightarrow> keysOf (appendJob keys h s) i = keysOf s i"
  "jobAt (appendJob keys h s) (length (us_heap s)) = \<lparr>ju_keys = keys, ju_run = h, ju_started = False, ju_done = False\<rparr>"
  "keysOf (appendJob keys h s) (length (us_heap s)) = keys"
  "distinct keys \<Longrightarrow> queueAt (appendJob keys h s) k = queueAt s k @ (if k \<in> set keys then [length (us_heap s)] else [])"
  by (simp_all add: appendJob_def Let_def jobAt_def keysOf_def nth_append queueAt_def fold_append_queue split: option.splits)

lemma undone_appendJob:
  "us_jobs_ok s \<Longrightarrow> undone (appendJob keys h s) = undone s @ [length (us_heap s)]"
  by (auto simp: undone_def appendJob_simps us_jobs_ok_def intro!: filter_cong)

lemma active_appendJob:
  "us_jobs_ok s \<Longrightarrow> active (appendJob keys h s) = active s"
  by (auto simp: active_def undone_appendJob appendJob_simps undone_heap)

lemma queue_member: "us_core s \<Longrightarrow> j \<in> set (undone s) \<Longrightarrow> k \<in> set (keysOf s j) \<Longrightarrow> j \<in> set (queueAt s k)"
  by (simp add: us_core_def us_queues_ok_def)

lemma appendJob_core:
  assumes core: "us_core s" and keys: "distinct keys" "keys \<noteq> []"
  shows "us_core (appendJob keys h s)"
proof -
  have jobs: "us_jobs_ok s" using core by (simp add: us_core_def)
  have heap: "i < length (us_heap s)" if "i \<in> set (undone s)" for i
    using undone_heap [OF jobs that] .
  have "us_jobs_ok (appendJob keys h s)"
    using jobs keys by (auto simp: us_jobs_ok_def appendJob_simps sorted_wrt_append less_Suc_eq)
  moreover have "us_queues_ok (appendJob keys h s)"
    using core keys heap
    by (auto simp: us_core_def us_queues_ok_def appendJob_simps undone_appendJob [OF jobs] intro!: filter_cong)
  moreover have "us_busy_ok (appendJob keys h s)"
  proof -
    have "keysOf (appendJob keys h s) i = keysOf s i" if "i \<in> active s" for i
      using that heap by (simp add: appendJob_simps active_undone)
    moreover have "queueAt s k \<noteq> []" if "i \<in> active s" "k \<in> set (keysOf s i)" for i k
      using queue_member [OF core active_undone that(2)] that(1) by auto
    moreover have "us_busy_ok s" using core by (simp add: us_core_def)
    ultimately show ?thesis
      by (simp add: us_busy_ok_def active_appendJob [OF jobs] appendJob_simps(4) appendJob_simps(9) [OF keys(1)])
  qed
  ultimately show ?thesis
    by (simp add: us_core_def)
qed

lemma us_core_cong:
  assumes "us_heap s' = us_heap s" "us_jobs s' = us_jobs s" "us_keyQueues s' = us_keyQueues s" "us_busyKeys s' = us_busyKeys s"
  shows "us_core s' = us_core s" "active s' = active s" "us_settled s' = us_settled s"
proof -
  have same: "jobAt s' = jobAt s" "keysOf s' = keysOf s" "undone s' = undone s" "queueAt s' = queueAt s" "active s' = active s"
    using assms by (simp_all add: fun_eq_iff jobAt_def keysOf_def undone_def queueAt_def active_def)
  show "us_core s' = us_core s" "active s' = active s" "us_settled s' = us_settled s"
    using assms
    by (simp_all add: us_core_def us_jobs_ok_def us_queues_ok_def us_busy_ok_def us_settled_def blockedJob_def same)
qed

lemma us_Enqueue_ok:
  assumes ok: "us_ok s"
  shows "us_ok (us_Enqueue keys run s)"
proof (cases run)
  case None
  then show ?thesis using ok by (simp add: us_Enqueue_def)
next
  case (Some h)
  show ?thesis
  proof (cases "keys = []")
    case True
    have "us_ok (s\<lparr>us_unkeyed := us_unkeyed s @ [h]\<rparr>)"
      using ok us_core_cong [of "s\<lparr>us_unkeyed := us_unkeyed s @ [h]\<rparr>" s] by (simp add: us_ok_def)
    then show ?thesis using True Some by (simp add: us_Enqueue_def)
  next
    case False
    have core: "us_core s" and jobs: "us_jobs_ok s" and run: "distinct (us_running s)" "set (us_running s) = active s"
      using ok by (simp_all add: us_ok_def us_core_def)
    have "us_ok (collectAndStart (appendJob (uniqueStrings keys) h s))"
      using False run
      by (intro collectAndStart_ok appendJob_core core) (simp_all add: appendJob_simps active_appendJob [OF jobs])
    then show ?thesis using False Some by (simp add: us_Enqueue_def Let_def)
  qed
qed


section \<open>Finish\<close>

lemma tl_remove1: "q \<noteq> [] \<Longrightarrow> tl q = remove1 (hd q) q"
  by (cases q) simp_all

lemma releaseKey_simps:
  "us_heap (releaseKey j k s) = us_heap s" "us_jobs (releaseKey j k s) = us_jobs s"
  "us_running (releaseKey j k s) = us_running s" "us_busyKeys (releaseKey j k s) = us_busyKeys s - {k}"
  "queueAt (releaseKey j k s) k' = (if k' = k then remove1 j (queueAt s k) else queueAt s k')"
  by (auto simp: releaseKey_def Let_def queueAt_def tl_remove1 split: option.splits)

lemma releaseKeys:
  "us_heap (fold (releaseKey j) ks s) = us_heap s" "us_jobs (fold (releaseKey j) ks s) = us_jobs s"
  "us_running (fold (releaseKey j) ks s) = us_running s" "us_busyKeys (fold (releaseKey j) ks s) = us_busyKeys s - set ks"
  "distinct ks \<Longrightarrow> queueAt (fold (releaseKey j) ks s) k = (if k \<in> set ks then remove1 j (queueAt s k) else queueAt s k)"
  by (induction ks arbitrary: s) (auto simp: releaseKey_simps)

text \<open>The state \<open>finish\<close> collects from.\<close>

definition released :: "nat \<Rightarrow> asyncUpdateScheduler \<Rightarrow> asyncUpdateScheduler" where
  "released j s = dropDone (fold (releaseKey j) (keysOf s j) (markDone j (s\<lparr>us_running := remove1 j (us_running s)\<rparr>)))"

lemma finish_released: "us_finish j s = collectAndStart (released j s)"
  by (simp add: us_finish_def released_def)

lemma released_simps:
  assumes "j < length (us_heap s)"
  shows "length (us_heap (released j s)) = length (us_heap s)"
    "us_running (released j s) = remove1 j (us_running s)"
    "us_busyKeys (released j s) = us_busyKeys s - set (keysOf s j)"
    "jobAt (released j s) i = (if i = j then (jobAt s j)\<lparr>ju_done := True\<rparr> else jobAt s i)"
    "keysOf (released j s) i = keysOf s i"
    "us_jobs (released j s) = dropWhile (\<lambda>i. i = j \<or> ju_done (jobAt s i)) (us_jobs s)"
    "distinct (keysOf s j) \<Longrightarrow> queueAt (released j s) k = (if k \<in> set (keysOf s j) then remove1 j (queueAt s k) else queueAt s k)"
proof -
  let ?t = "fold (releaseKey j) (keysOf s j) (markDone j (s\<lparr>us_running := remove1 j (us_running s)\<rparr>))"
  have t: "jobAt ?t i = (if i = j then (jobAt s j)\<lparr>ju_done := True\<rparr> else jobAt s i)" for i
    using assms by (simp add: jobAt_def releaseKeys markDone_def)
  have jobs: "jobAt (released j s) i = (if i = j then (jobAt s j)\<lparr>ju_done := True\<rparr> else jobAt s i)" for i
    using t [of i] by (simp add: released_def dropDone_def jobAt_def)
  show "jobAt (released j s) i = (if i = j then (jobAt s j)\<lparr>ju_done := True\<rparr> else jobAt s i)"
    by (rule jobs)
  show "keysOf (released j s) i = keysOf s i"
    by (simp add: keysOf_def jobs)
  have "queueAt (released j s) k = queueAt ?t k"
    by (simp add: released_def dropDone_def queueAt_def)
  moreover have "queueAt (markDone j (s\<lparr>us_running := remove1 j (us_running s)\<rparr>)) k = queueAt s k"
    by (simp add: markDone_def queueAt_def)
  ultimately show "queueAt (released j s) k = (if k \<in> set (keysOf s j) then remove1 j (queueAt s k) else queueAt s k)"
    if "distinct (keysOf s j)"
    by (simp add: releaseKeys(5) [OF that])
  have "(\<lambda>i. ju_done (jobAt ?t i)) = (\<lambda>i. i = j \<or> ju_done (jobAt s i))"
    by (auto simp: t)
  moreover have "us_jobs ?t = us_jobs s"
    by (simp add: releaseKeys markDone_def)
  ultimately show "us_jobs (released j s) = dropWhile (\<lambda>i. i = j \<or> ju_done (jobAt s i)) (us_jobs s)"
    unfolding released_def dropDone_def by simp
qed (simp_all add: released_def dropDone_def releaseKeys markDone_def)


lemma dropWhile_member: "x \<in> set xs \<Longrightarrow> \<not> P x \<Longrightarrow> x \<in> set (dropWhile P xs)"
  by (induction xs) auto

lemma filter_dropWhile: "filter (\<lambda>x. \<not> P x) (dropWhile P xs) = filter (\<lambda>x. \<not> P x) xs"
  by (induction xs) auto

lemma sorted_dropWhile: "sorted_wrt R xs \<Longrightarrow> sorted_wrt R (dropWhile P xs)"
  by (induction xs) auto

lemma undone_released:
  assumes "j < length (us_heap s)"
  shows "undone (released j s) = filter (\<lambda>i. i \<noteq> j) (undone s)"
proof -
  have "undone (released j s) = filter (\<lambda>i. \<not> (i = j \<or> ju_done (jobAt s i))) (us_jobs (released j s))"
    by (auto simp: undone_def released_simps [OF assms] intro!: filter_cong)
  also have "\<dots> = filter (\<lambda>i. \<not> (i = j \<or> ju_done (jobAt s i))) (us_jobs s)"
    unfolding released_simps(6) [OF assms] by (rule filter_dropWhile)
  finally show ?thesis
    by (simp add: undone_def conj_commute)
qed

lemma active_released:
  "j < length (us_heap s) \<Longrightarrow> active (released j s) = active s - {j}"
  by (auto simp: active_def undone_released released_simps)

lemma released_core:
  assumes core: "us_core s" and j: "j \<in> active s"
  shows "us_core (released j s)"
proof -
  have jobs: "us_jobs_ok s" and queues: "us_queues_ok s" and busy: "us_busy_ok s"
    using core by (simp_all add: us_core_def)
  have jh: "j < length (us_heap s)"
    using undone_heap [OF jobs active_undone [OF j]] .
  note simps = released_simps [OF jh]
  have d: "distinct (keysOf s j)"
    using jobs jh by (simp add: us_jobs_ok_def)
  have hd: "hd (queueAt s k) = i" if "i \<in> active s" "k \<in> set (keysOf s i)" for i k
    using busy that by (simp add: us_busy_ok_def)
  have apart: "set (keysOf s i) \<inter> set (keysOf s j) = {}" if "i \<in> active s" "i \<noteq> j" for i
    using hd [OF that(1)] hd [OF j] that(2) by blast
  have "us_jobs_ok (released j s)"
    using jobs unfolding us_jobs_ok_def simps
    by (auto simp: sorted_dropWhile dest: set_dropWhileD intro: dropWhile_member)
  moreover have "us_queues_ok (released j s)"
  proof -
    have "distinct (queueAt s k)" for k
      using queues undone_distinct [OF jobs] by (simp add: us_queues_ok_def)
    then have "remove1 j (queueAt s k) = filter (\<lambda>i. i \<noteq> j) (queueAt s k)" for k
      by (simp add: distinct_remove1_removeAll removeAll_filter_not_eq) (auto intro: filter_cong)
    moreover have "filter (\<lambda>i. k \<in> set (keysOf s i)) (undone s)
        = filter (\<lambda>i. k \<in> set (keysOf s i) \<and> i \<noteq> j) (undone s)" if "k \<notin> set (keysOf s j)" for k
      using that by (auto intro: filter_cong)
    ultimately show ?thesis
      using queues by (simp add: us_queues_ok_def simps d undone_released [OF jh] conj_commute)
  qed
  moreover have "us_busy_ok (released j s)"
    unfolding us_busy_ok_def active_released [OF jh] simps(3,5) simps(7) [OF d]
  proof
    show "us_busyKeys s - set (keysOf s j) = (\<Union>i \<in> active s - {j}. set (keysOf s i))"
      using busy apart by (auto simp: us_busy_ok_def)
    show "\<forall>i \<in> active s - {j}. \<forall>k \<in> set (keysOf s i).
        hd (if k \<in> set (keysOf s j) then remove1 j (queueAt s k) else queueAt s k) = i"
      using apart hd by auto
  qed
  ultimately show ?thesis
    by (simp add: us_core_def)
qed

lemma finish_ok:
  assumes ok: "us_ok s" and j: "j \<in> set (us_running s)"
  shows "us_ok (us_finish j s)"
proof -
  have core: "us_core s" and run: "distinct (us_running s)" "set (us_running s) = active s" and a: "j \<in> active s"
    using ok j by (simp_all add: us_ok_def)
  have jh: "j < length (us_heap s)"
    using core active_undone [OF a] by (simp add: us_core_def undone_heap)
  show ?thesis
    unfolding finish_released using run
    by (intro collectAndStart_ok released_core core a) (simp_all add: released_simps [OF jh] active_released [OF jh])
qed

section \<open>Every run\<close>

lemma new_ok: "us_ok newAsyncUpdateScheduler"
  by (simp add: us_ok_def us_core_def us_jobs_ok_def us_queues_ok_def us_busy_ok_def us_settled_def active_def
      undone_def queueAt_def newAsyncUpdateScheduler_def)

lemma update_step_ok: "us_ok s \<Longrightarrow> us_ok (update_step oper s)"
  by (cases oper) (simp_all add: us_Enqueue_ok finish_ok)

lemma update_run_ok: "us_ok s \<Longrightarrow> us_ok (update_run ops s)"
  unfolding update_run_def by (induction ops arbitrary: s) (simp_all add: update_step_ok)

lemma reached_ok: "us_ok (update_run ops newAsyncUpdateScheduler)"
  by (rule update_run_ok) (rule new_ok)

end
