(* ===== verification/Update_Scheduler_Props.thy ===== *)
theory Update_Scheduler_Props
  imports Update_Scheduler_Inv
begin

text \<open>
  What the keyed scheduler promises: updates that share a key are handled one at a time and in the
  order they came, and as long as handlers end no update stays behind, nor is anything kept for the
  updates that were handled.
\<close>

section \<open>Nothing is kept\<close>

definition us_tidy :: "asyncUpdateScheduler \<Rightarrow> bool" where
  "us_tidy s \<longleftrightarrow> (\<forall>k. us_keyQueues s k \<noteq> Some []) \<and> (us_jobs s \<noteq> [] \<longrightarrow> \<not> ju_done (jobAt s (hd (us_jobs s))))"

lemma collectRunnable_queues: "collectRunnable js s = (rs, s') \<Longrightarrow> us_keyQueues s' = us_keyQueues s"
  by (induction js s arbitrary: rs s' rule: collectRunnable.induct)
     (auto simp: markStarted_def split: if_splits prod.splits)

lemma collectAndStart_tidy: "us_tidy s \<Longrightarrow> us_tidy (collectAndStart s)"
proof -
  obtain rs s' where c: "collectRunnable (us_jobs s) s = (rs, s')" by (cases "collectRunnable (us_jobs s) s")
  have "jobAt (startJobs rs s') = jobAt s'"
    by (simp add: fun_eq_iff startJobs_def jobAt_def)
  then show "us_tidy (collectAndStart s)" if "us_tidy s"
    using that collectRunnable_queues [OF c] collectRunnable_same(5,7) [OF c]
    by (simp add: us_tidy_def collectAndStart_def c) (simp add: startJobs_def)
qed

lemma appendJob_tidy:
  assumes "us_jobs_ok s" and "us_tidy s" and "distinct keys"
  shows "us_tidy (appendJob keys h s)"
proof -
  have "us_keyQueues (appendJob keys h s) k \<noteq> Some []" for k
    using assms(2) by (simp add: us_tidy_def appendJob_def Let_def fold_append_queue [OF assms(3)])
  moreover have "\<not> ju_done (jobAt (appendJob keys h s) (hd (us_jobs (appendJob keys h s))))"
    using assms(1,2) hd_in_set [of "us_jobs s"]
    by (cases "us_jobs s = []") (simp_all add: us_tidy_def us_jobs_ok_def appendJob_simps)
  ultimately show ?thesis
    by (simp add: us_tidy_def)
qed

lemma releaseKeys_no_empty:
  "\<forall>k. us_keyQueues s k \<noteq> Some [] \<Longrightarrow> us_keyQueues (fold (releaseKey j) ks s) k \<noteq> Some []"
proof (induction ks arbitrary: s)
  case (Cons k' ks)
  have "\<forall>k. us_keyQueues (releaseKey j k' s) k \<noteq> Some []"
    using Cons.prems by (simp add: releaseKey_def Let_def)
  then show ?case using Cons.IH by simp
qed simp

lemma released_tidy:
  assumes jh: "j < length (us_heap s)" and tidy: "us_tidy s"
  shows "us_tidy (released j s)"
proof -
  have "us_keyQueues (released j s) k \<noteq> Some []" for k
    using tidy releaseKeys_no_empty [of "markDone j (s\<lparr>us_running := remove1 j (us_running s)\<rparr>)"]
    by (simp add: us_tidy_def released_def dropDone_def markDone_def)
  moreover have "\<not> ju_done (jobAt (released j s) (hd (us_jobs (released j s))))" if "us_jobs (released j s) \<noteq> []"
    using that hd_dropWhile [of "\<lambda>i. i = j \<or> ju_done (jobAt s i)" "us_jobs s"]
    by (simp add: released_simps [OF jh])
  ultimately show ?thesis
    by (simp add: us_tidy_def)
qed

lemma running_heap: "us_ok s \<Longrightarrow> j \<in> set (us_running s) \<Longrightarrow> j < length (us_heap s)"
  by (simp add: us_ok_def us_core_def active_undone undone_heap)

lemma update_step_tidy:
  assumes "us_ok s" and "us_tidy s"
  shows "us_tidy (update_step oper s)"
proof (cases oper)
  case (OpEnqueue keys run)
  have "us_jobs_ok s" using assms(1) by (simp add: us_ok_def us_core_def)
  then show ?thesis
    using assms(2) appendJob_tidy [of s "uniqueStrings keys"] collectAndStart_tidy
    by (cases run) (auto simp: OpEnqueue us_Enqueue_def Let_def us_tidy_def jobAt_def)
next
  case (OpFinish j)
  then show ?thesis
    using assms by (auto simp: finish_released intro: collectAndStart_tidy released_tidy running_heap)
qed

lemma update_run_tidy: "us_ok s \<Longrightarrow> us_tidy s \<Longrightarrow> us_tidy (update_run ops s)"
  unfolding update_run_def by (induction ops arbitrary: s) (simp_all add: update_step_ok update_step_tidy)

lemma reached_tidy: "us_tidy (update_run ops newAsyncUpdateScheduler)"
  by (rule update_run_tidy [OF new_ok]) (simp add: us_tidy_def newAsyncUpdateScheduler_def)

section \<open>Order\<close>

lemma queue_head_least:
  assumes ok: "us_ok s" and i: "i \<in> set (us_running s)" and j: "j \<in> set (undone s)"
    and k: "k \<in> set (keysOf s i)" "k \<in> set (keysOf s j)"
  shows "i \<le> j"
proof -
  have core: "us_core s" and a: "i \<in> active s" using ok i by (simp_all add: us_ok_def)
  have "hd (queueAt s k) = i"
    using core a k(1) by (simp add: us_core_def us_busy_ok_def)
  moreover have "j \<in> set (queueAt s k)"
    by (rule queue_member [OF core j k(2)])
  moreover have "sorted_wrt (<) (queueAt s k)"
    using core undone_sorted [of s] by (simp add: us_core_def us_queues_ok_def sorted_wrt_filter)
  ultimately show ?thesis
    by (cases "queueAt s k") auto
qed

lemma oldest_runs:
  assumes ok: "us_ok s" and "undone s \<noteq> []"
  shows "hd (undone s) \<in> set (us_running s)"
proof -
  obtain j js where u: "undone s = j # js" using assms(2) by (cases "undone s") auto
  have core: "us_core s" using ok by (simp add: us_ok_def)
  have "hd (queueAt s k) = j" if "k \<in> set (keysOf s j)" for k
    using core u that by (simp add: us_core_def us_queues_ok_def)
  then have "\<not> blockedJob s j" by (simp add: blockedJob_def)
  then show ?thesis
    using ok u by (simp add: us_ok_def us_settled_def)
qed

section \<open>Handlers that end\<close>

text \<open>A sequence of ends of handlers, each of one that runs at that time.\<close>

fun finishing :: "nat list \<Rightarrow> asyncUpdateScheduler \<Rightarrow> bool" where
  "finishing [] s \<longleftrightarrow> True"
| "finishing (j # js) s \<longleftrightarrow> j \<in> set (us_running s) \<and> finishing js (us_finish j s)"

lemma undone_collectAndStart: "undone (collectAndStart s) = undone s"
proof -
  obtain rs s' where c: "collectRunnable (us_jobs s) s = (rs, s')" by (cases "collectRunnable (us_jobs s) s")
  have "undone (startJobs rs s') = undone s'"
    by (simp add: startJobs_def undone_def jobAt_def)
  then show ?thesis
    using collectRunnable_same(2) [OF c] by (simp add: collectAndStart_def c)
qed

lemma finish_undone:
  assumes ok: "us_ok s" and j: "j \<in> set (us_running s)"
  shows "length (undone s) = Suc (length (undone (us_finish j s)))"
proof -
  have jobs: "us_jobs_ok s" and m: "j \<in> set (undone s)"
    using assms by (simp_all add: us_ok_def us_core_def active_undone)
  have "undone (us_finish j s) = filter (\<lambda>i. i \<noteq> j) (undone s)"
    by (simp add: finish_released undone_collectAndStart undone_released [OF running_heap [OF ok j]])
  then have "undone (us_finish j s) = remove1 j (undone s)"
    by (simp add: distinct_remove1_removeAll undone_distinct [OF jobs] removeAll_filter_not_eq)
       (auto intro: filter_cong)
  then show ?thesis
    using length_pos_if_in_set [OF m] by (simp add: length_remove1 m)
qed

lemma finishing_run:
  assumes "us_ok s" and "finishing js s"
  shows "length (undone (update_run (map OpFinish js) s)) + length js = length (undone s)"
  using assms
proof (induction js arbitrary: s)
  case (Cons j js)
  then have "length (undone (update_run (map OpFinish js) (us_finish j s))) + length js = length (undone (us_finish j s))"
    by (simp add: finish_ok)
  then show ?case
    using Cons.prems finish_undone [of s j] by (simp add: update_run_def)
qed (simp add: update_run_def)

lemma idle_empty:
  assumes ok: "us_ok s" and tidy: "us_tidy s" and idle: "us_running s = []"
  shows "us_jobs s = [] \<and> us_keyQueues s = (\<lambda>_. None) \<and> us_busyKeys s = {}"
proof -
  have u: "undone s = []" using oldest_runs [OF ok] idle by auto
  have "us_jobs s = []"
    using u tidy by (cases "us_jobs s") (auto simp: undone_def us_tidy_def split: if_splits)
  moreover have "us_keyQueues s k = None" for k
  proof -
    have "queueAt s k = []" using ok u by (simp add: us_ok_def us_core_def us_queues_ok_def)
    then show ?thesis using tidy by (auto simp: queueAt_def us_tidy_def split: option.splits)
  qed
  moreover have "us_busyKeys s = {}"
    using ok u by (simp add: us_ok_def us_core_def us_busy_ok_def active_def)
  ultimately show ?thesis by auto
qed

section \<open>The properties\<close>

text \<open>
  C29. Keyed updates keep their order: in every state the scheduler reaches, an update whose
  handler runs shares no key with an earlier update whose handler has not ended. So two handlers that
  share a key never run at once, and the later one starts only when the earlier has ended.
\<close>

theorem keyed_updates_ordered:
  assumes "s = update_run ops newAsyncUpdateScheduler"
    and "i \<in> set (us_running s)" and "j < i" and "\<not> ju_done (jobAt s j)"
  shows "set (keysOf s i) \<inter> set (keysOf s j) = {}"
proof -
  have ok: "us_ok s" unfolding assms(1) by (rule reached_ok)
  have "j \<in> set (undone s)"
    using ok assms(3,4) running_heap [OF ok assms(2)] by (simp add: us_ok_def us_core_def undone_iff)
  then show ?thesis
    using queue_head_least [OF ok assms(2)] assms(3) by fastforce
qed

text \<open>
  C30. Updates do not stall: from every state the scheduler reaches, every sequence of ends of
  running handlers settles one update each, and as long as one is unsettled the oldest of them runs.
  When no handler runs any more every update was handled, and the scheduler keeps no job, queue or
  busy key for them.
\<close>

theorem updates_never_stall:
  assumes "s = update_run ops newAsyncUpdateScheduler" and "finishing js s"
    and "t = update_run (map OpFinish js) s"
  shows "length js + length (undone t) = length (undone s)
    \<and> (undone t \<noteq> [] \<longrightarrow> hd (undone t) \<in> set (us_running t))
    \<and> (us_running t = [] \<longrightarrow> undone t = [] \<and> us_jobs t = [] \<and> us_keyQueues t = (\<lambda>_. None) \<and> us_busyKeys t = {})"
proof -
  have ok: "us_ok s" unfolding assms(1) by (rule reached_ok)
  then have ok': "us_ok t" unfolding assms(3) by (rule update_run_ok)
  have tidy: "us_tidy t"
    unfolding assms(1,3) by (rule update_run_tidy [OF reached_ok reached_tidy])
  have "length js + length (undone t) = length (undone s)"
    using finishing_run [OF ok assms(2)] assms(3) by simp
  then show ?thesis
    using oldest_runs [OF ok'] idle_empty [OF ok' tidy] by (cases "undone t = []") auto
qed

text \<open>Two users in a chat, the first of them again outside it, and a third.\<close>

lemma demo_keys:
  "uniqueStrings (sequencingKeys 7 5) = [''user:7'', ''chat:5'']" "uniqueStrings (sequencingKeys 8 5) = [''user:8'', ''chat:5'']"
  "uniqueStrings (sequencingKeys 7 0) = [''user:7'']" "uniqueStrings (sequencingKeys 9 0) = [''user:9'']"
  by (simp_all add: uniqueStrings_def sequencingKeys_def formatInt_def digitChar_values formatNat.simps)

definition demo_updates :: "updateOp list" where
  "demo_updates = [OpEnqueue (sequencingKeys 7 5) (Some 1), OpEnqueue (sequencingKeys 8 5) (Some 2),
     OpEnqueue (sequencingKeys 7 0) (Some 3), OpEnqueue (sequencingKeys 9 0) (Some 4)]"

lemmas demo_eval = update_run_def us_finish_def collectAndStart_def startJobs_def canStartLocked_def markStarted_def
  markDone_def dropDone_def releaseKey_def appendJob_def us_Enqueue_def newAsyncUpdateScheduler_def jobAt_def keysOf_def
  queueAt_def Let_def demo_keys

lemma keyed_updates_ordered_witness:
  "let s = update_run (demo_updates @ [OpFinish 0]) newAsyncUpdateScheduler
   in us_running s = [3, 1, 2] \<and> set (keysOf s 2) \<inter> set (keysOf s 1) = {}"
  using keyed_updates_ordered [OF refl, of 2 "demo_updates @ [OpFinish 0]" 1]
  by (simp add: demo_updates_def demo_eval)

lemma updates_never_stall_witness:
  "let s = update_run (take 2 demo_updates) newAsyncUpdateScheduler; t = update_run (map OpFinish [0, 1]) s
   in us_running s = [0] \<and> us_running t = [] \<and> undone t = [] \<and> us_keyQueues t = (\<lambda>_. None)"
proof -
  let ?s = "update_run (take 2 demo_updates) newAsyncUpdateScheduler"
  have f: "finishing [0, 1] ?s"
    by (simp add: demo_updates_def demo_eval)
  have "us_running ?s = [0]" "us_running (update_run (map OpFinish [0, 1]) ?s) = []"
    by (simp_all add: demo_updates_def demo_eval)
  then show ?thesis
    using updates_never_stall [OF refl f refl] by (simp add: Let_def)
qed

end
