(* ===== verification/Executor_Functions.thy ===== *)
theory Executor_Functions
  imports Registry
begin

text \<open>
  The functions an executor process runs (\<open>yascheduler/registry.go\<close>): their registration under a
  name and a version, the specifications it advertises, and the wrapper that decodes the arguments
  of a call, runs the function and classifies what came of it.

  MessagePack and the function itself are parameters: decoding and encoding answer a value or the
  text of an error, and any of the three calls may panic. The invocation context is a value of a
  type variable that the function may look at. A nil slice of bytes is \<open>None\<close>.
\<close>

section \<open>Errors\<close>

datatype schedErr =
    ErrNilRegistry | ErrNilConfig | ErrEmptyFunctionName | ErrNilFunction | ErrDuplicateFunction
  | ErrUnsupportedValueKind | ErrEmptyAddress | ErrEmptyExecutorType | ErrClientAlreadyRunning
  | ErrDrainTimeout | ErrNotConnected | ErrRegistrationRejected | ErrConnectionClosed | ErrServerShutdown
  | ErrUpsertRejected | ErrDeleteRejected | ErrUnexpectedMessage | ErrOutgoingQueueFull | ErrNilJobSpec
  | ErrEmptyRoutingLabel | ErrLabelUpdateRejected | ErrResultNotRequested | ErrResultHasNoValue
  | ErrSubmissionClosed | ErrNilResult | ErrLocalAlreadyRunning | ErrLoopbackStopped | ErrHeartbeatPumpStopped
  | ErrFunctionLimit | ErrContextEnded | ErrCodec string

definition ErrorCodeCapacityExhausted :: errorCode where "ErrorCodeCapacityExhausted = 8"
definition ErrorCodeInvalidArguments :: errorCode where "ErrorCodeInvalidArguments = 9"
definition ErrorCodeFunctionError :: errorCode where "ErrorCodeFunctionError = 10"
definition ErrorCodeFunctionPanic :: errorCode where "ErrorCodeFunctionPanic = 11"
definition ErrorCodeShuttingDown :: errorCode where "ErrorCodeShuttingDown = 12"

lemmas runtimeErrorCodes = ErrorCodeCapacityExhausted_def ErrorCodeInvalidArguments_def ErrorCodeFunctionError_def
  ErrorCodeFunctionPanic_def ErrorCodeShuttingDown_def

text \<open>The errors of a function: a chain of wrapped errors, any of which may carry the mark.\<close>

datatype goError = LeafError string | WrappedError string goError | nonRetryableError goError

fun goErrorText :: "goError \<Rightarrow> string" where
  "goErrorText (LeafError t) = t"
| "goErrorText (WrappedError t _) = t"
| "goErrorText (nonRetryableError cause) = goErrorText cause"

definition NonRetryable :: "goError option \<Rightarrow> goError option" where
  "NonRetryable er = map_option nonRetryableError er"

fun IsNonRetryable :: "goError \<Rightarrow> bool" where
  "IsNonRetryable (LeafError _) = False"
| "IsNonRetryable (WrappedError _ cause) = IsNonRetryable cause"
| "IsNonRetryable (nonRetryableError _) = True"

section \<open>Invocation\<close>

datatype ('a, 'er) goCall = Returned 'a | Failed 'er | Panicked string

type_synonym 'x invokeFunc = "'x \<Rightarrow> byte_list \<Rightarrow> byte_list option \<times> wireError option"

definition panicError :: "string \<Rightarrow> wireError" where
  "panicError reason = \<lparr>e_Code = ErrorCodeFunctionPanic, e_Retryable = True,
     e_Message = ''function panicked: '' @ reason\<rparr>"

text \<open>The deferred \<open>recover\<close> is around all three calls.\<close>

definition prepareInvoker ::
  "bool \<Rightarrow> (byte_list \<Rightarrow> ('a, string) goCall) \<Rightarrow> ('r \<Rightarrow> (byte_list, string) goCall)
     \<Rightarrow> ('x \<Rightarrow> 'a \<Rightarrow> ('r, goError) goCall) \<Rightarrow> 'x invokeFunc" where
  "prepareInvoker voidResult decode encode fn ctx raw =
     (case decode raw of
        Panicked reason \<Rightarrow> (None, Some (panicError reason))
      | Failed t \<Rightarrow>
          (None, Some \<lparr>e_Code = ErrorCodeInvalidArguments, e_Retryable = False, e_Message = t\<rparr>)
      | Returned args \<Rightarrow>
          (case fn ctx args of
             Panicked reason \<Rightarrow> (None, Some (panicError reason))
           | Failed er \<Rightarrow>
               (None, Some \<lparr>e_Code = ErrorCodeFunctionError, e_Retryable = \<not> IsNonRetryable er,
                  e_Message = goErrorText er\<rparr>)
           | Returned result \<Rightarrow>
               if voidResult then (None, None)
               else
                 (case encode result of
                    Panicked reason \<Rightarrow> (None, Some (panicError reason))
                  | Failed t \<Rightarrow>
                      (None, Some \<lparr>e_Code = ErrorCodeInternal, e_Retryable = False, e_Message = t\<rparr>)
                  | Returned payload \<Rightarrow> (Some payload, None))))"

section \<open>Registration\<close>

datatype reflectKind =
    KindInvalid | KindBool | KindInt | KindUint | KindUintptr | KindFloat | KindComplex | KindArray | KindChan
  | KindFunc | KindInterface | KindMap | KindPointer | KindSlice | KindString | KindStruct | KindUnsafePointer

definition validateValueType :: "reflectKind \<Rightarrow> schedErr option" where
  "validateValueType k =
     (if k \<in> {KindFunc, KindChan, KindUnsafePointer, KindUintptr} then Some ErrUnsupportedValueKind else None)"

record goType =
  gt_kind :: reflectKind
  gt_string :: string

record 'x preparedFunction =
  pf_spec :: functionSpec
  pf_invoke :: "'x invokeFunc"

record 'x functionRegistry =
  fr_functions :: "(functionKey, 'x preparedFunction) alist"
  fr_order :: "functionKey list"

definition NewRegistry :: "'x functionRegistry" where
  "NewRegistry = \<lparr>fr_functions = [], fr_order = []\<rparr>"

text \<open>The function comes with the wrapper that \<open>prepareInvoker\<close> makes of it.\<close>

definition RegisterFunction ::
  "'x functionRegistry option \<Rightarrow> functionName \<Rightarrow> functionVersion \<Rightarrow> goType \<Rightarrow> goType \<Rightarrow> 'x invokeFunc option
     \<Rightarrow> schedErr + 'x functionRegistry" where
  "RegisterFunction registry name version argType resultType fn =
     (case registry of
        None \<Rightarrow> Inl ErrNilRegistry
      | Some fr \<Rightarrow>
          if name = '''' then Inl ErrEmptyFunctionName
          else (case fn of
             None \<Rightarrow> Inl ErrNilFunction
           | Some invoke \<Rightarrow>
               (case validateValueType (gt_kind argType) of
                  Some er \<Rightarrow> Inl er
                | None \<Rightarrow>
                    (case validateValueType (gt_kind resultType) of
                       Some er \<Rightarrow> Inl er
                     | None \<Rightarrow>
                         let prepared = \<lparr>pf_spec = \<lparr>f_Name = name, f_Version = version,
                               f_InputSignature = gt_string argType, f_OutputSignature = gt_string resultType\<rparr>,
                               pf_invoke = invoke\<rparr>;
                             key = (name, version)
                         in if map_of (fr_functions fr) key \<noteq> None then Inl ErrDuplicateFunction
                            else if length (fr_order fr) \<ge> unat DefaultMaxFunctions then Inl ErrFunctionLimit
                            else Inr \<lparr>fr_functions = AList.update key prepared (fr_functions fr),
                                      fr_order = fr_order fr @ [key]\<rparr>))))"

text \<open>\<open>specs\<close> dereferences the entry of each key of the order: \<open>None\<close> if there is none.\<close>

fun specsOf :: "(functionKey, 'x preparedFunction) alist \<Rightarrow> functionKey list \<Rightarrow> functionSpec list option" where
  "specsOf m [] = Some []"
| "specsOf m (key # keys) =
     do { prepared \<leftarrow> map_of m key; rest \<leftarrow> specsOf m keys; Some (pf_spec prepared # rest) }"

definition specs :: "'x functionRegistry \<Rightarrow> functionSpec list option" where
  "specs fr = specsOf (fr_functions fr) (fr_order fr)"

definition lookupFunction ::
  "'x functionRegistry \<Rightarrow> functionName \<Rightarrow> functionVersion \<Rightarrow> 'x preparedFunction option" where
  "lookupFunction fr name version = map_of (fr_functions fr) (name, version)"

definition functionCount :: "'x functionRegistry \<Rightarrow> nat" where
  "functionCount fr = length (fr_order fr)"

definition functionCompatible :: "functionSpec \<Rightarrow> functionSpec \<Rightarrow> bool" where
  "functionCompatible requested loc =
     (if f_InputSignature requested \<noteq> '''' \<and> f_InputSignature requested \<noteq> f_InputSignature loc then False
      else if f_OutputSignature requested \<noteq> '''' \<and> f_OutputSignature requested \<noteq> f_OutputSignature loc then False
      else True)"

section \<open>What a registry holds\<close>

definition functions_inv :: "'x functionRegistry \<Rightarrow> bool" where
  "functions_inv fr \<longleftrightarrow> distinct (fr_order fr) \<and> length (fr_order fr) \<le> unat DefaultMaxFunctions
     \<and> set (fr_order fr) = fst ` set (fr_functions fr)
     \<and> (\<forall>key prepared. map_of (fr_functions fr) key = Some prepared \<longrightarrow> keyOf (pf_spec prepared) = key)"

lemma functions_inv_New: "functions_inv NewRegistry"
  by (simp add: functions_inv_def NewRegistry_def)

lemma RegisterFunction_inv:
  assumes "functions_inv fr" and "RegisterFunction (Some fr) name version argType resultType fn = Inr fr'"
  shows "functions_inv fr'"
proof -
  obtain invoke where fn: "fn = Some invoke" "map_of (fr_functions fr) (name, version) = None"
      "length (fr_order fr) < unat DefaultMaxFunctions"
    and fr': "fr' = \<lparr>fr_functions = AList.update (name, version) \<lparr>pf_spec = \<lparr>f_Name = name, f_Version = version,
         f_InputSignature = gt_string argType, f_OutputSignature = gt_string resultType\<rparr>, pf_invoke = invoke\<rparr>
         (fr_functions fr), fr_order = fr_order fr @ [(name, version)]\<rparr>"
    using assms(2) by (auto simp: RegisterFunction_def Let_def split: option.splits if_splits)
  have "(name, version) \<notin> fst ` set (fr_functions fr)"
    using fn(2) by (simp add: map_of_eq_None_iff)
  then show ?thesis
    using assms(1) fn(3) unfolding functions_inv_def fr'
    by (auto simp: keyOf_def AList.update_conv' update_fresh split: if_splits)
qed

lemma specsOf_Some:
  "set keys \<subseteq> fst ` set m \<Longrightarrow> specsOf m keys = Some (map (\<lambda>key. pf_spec (the (map_of m key))) keys)"
proof (induction keys)
  case (Cons key keys)
  then obtain prepared where "map_of m key = Some prepared"
    by (cases "map_of m key") (auto simp: map_of_eq_None_iff)
  with Cons show ?case by simp
qed simp


text \<open>A registry after any calls of \<open>RegisterFunction\<close>, the failed ones without effect.\<close>

record 'x registration =
  rn_name :: functionName
  rn_version :: functionVersion
  rn_arg :: goType
  rn_result :: goType
  rn_function :: "'x invokeFunc option"

definition registerOne :: "'x registration \<Rightarrow> 'x functionRegistry \<Rightarrow> 'x functionRegistry" where
  "registerOne rn fr =
     (case RegisterFunction (Some fr) (rn_name rn) (rn_version rn) (rn_arg rn) (rn_result rn) (rn_function rn) of
        Inl _ \<Rightarrow> fr
      | Inr fr' \<Rightarrow> fr')"

definition registerMany :: "'x registration list \<Rightarrow> 'x functionRegistry" where
  "registerMany rns = fold registerOne rns NewRegistry"

lemma registerMany_inv: "functions_inv (registerMany rns)"
proof -
  have "functions_inv fr \<Longrightarrow> functions_inv (registerOne rn fr)" for rn and fr :: "'a functionRegistry"
    by (auto simp: registerOne_def intro: RegisterFunction_inv split: sum.split)
  then have "functions_inv fr \<Longrightarrow> functions_inv (fold registerOne rns fr)" for fr :: "'a functionRegistry"
    by (induction rns arbitrary: fr) simp_all
  then show ?thesis by (simp add: registerMany_def functions_inv_New)
qed

lemma specs_inv:
  "functions_inv fr \<Longrightarrow> specs fr = Some (map (\<lambda>key. pf_spec (the (map_of (fr_functions fr) key))) (fr_order fr))"
  by (simp add: specs_def specsOf_Some functions_inv_def)

lemma functions_inv_keys: "functions_inv fr \<Longrightarrow> set (fr_order fr) = fst ` set (fr_functions fr)"
  and functions_inv_distinct: "functions_inv fr \<Longrightarrow> distinct (fr_order fr)"
  unfolding functions_inv_def by blast+

lemma functions_entry:
  assumes "functions_inv fr" and "k \<in> set (fr_order fr)"
  obtains prepared where "map_of (fr_functions fr) k = Some prepared" "keyOf (pf_spec prepared) = k"
proof -
  have "map_of (fr_functions fr) k \<noteq> None"
    using functions_inv_keys [OF assms(1)] assms(2) by (simp only: map_of_eq_None_iff not_not)
  then obtain prepared where p: "map_of (fr_functions fr) k = Some prepared" by blast
  moreover from p have "keyOf (pf_spec prepared) = k" using assms(1) unfolding functions_inv_def by blast
  ultimately show thesis by (rule that)
qed

lemma advertised_keys:
  assumes "functions_inv fr" and "specs fr = Some ss"
  shows "map keyOf ss = fr_order fr"
proof -
  have "keyOf (pf_spec (the (map_of (fr_functions fr) k))) = k" if "k \<in> set (fr_order fr)" for k
    by (rule functions_entry [OF assms(1) that]) simp
  moreover have "ss = map (\<lambda>key. pf_spec (the (map_of (fr_functions fr) key))) (fr_order fr)"
    using assms specs_inv [OF assms(1)] by simp
  ultimately show ?thesis by (simp add: map_idI)
qed

lemma functionIndexOf_lookup:
  assumes "distinct (map keyOf fs)"
  shows "map_of (functionIndexOf fs) key = Some f \<longleftrightarrow> f \<in> set fs \<and> keyOf f = key"
proof -
  have "map_of (fold (\<lambda>spec m. AList.update (keyOf spec) spec m) fs m) key
      = (case find (\<lambda>f. keyOf f = key) fs of None \<Rightarrow> map_of m key | Some f \<Rightarrow> Some f)" if "distinct (map keyOf fs)" for m
    using that
  proof (induction fs arbitrary: m)
    case (Cons f fs)
    have "find (\<lambda>f. keyOf f = key) fs = None" if "keyOf f = key"
      using Cons.prems that by (auto simp: find_None_iff) (metis image_eqI)
    with Cons show ?case by (simp add: AList.update_conv' split: option.split)
  qed simp
  then have m: "map_of (functionIndexOf fs) key = find (\<lambda>f. keyOf f = key) fs"
    using assms by (simp add: functionIndexOf_def split: option.split)
  show ?thesis
  proof (cases "find (\<lambda>f. keyOf f = key) fs")
    case None
    with m show ?thesis by (auto simp: find_None_iff)
  next
    case (Some g)
    then have g: "g \<in> set fs" "keyOf g = key" by (auto simp: find_Some_iff)
    have "inj_on keyOf (set fs)" using assms by (simp only: distinct_map)
    then have "f \<in> set fs \<and> keyOf f = key \<longleftrightarrow> f = g"
      using g by (metis inj_onD)
    with m Some show ?thesis by auto
  qed
qed

text \<open>The index the scheduler builds of what a registry advertises is the index of the registry.\<close>

lemma advertised_index:
  assumes "functions_inv fr" and "specs fr = Some ss"
  shows "map_of (functionIndexOf ss) key = map_option pf_spec (map_of (fr_functions fr) key)"
proof -
  define spec where "spec = (\<lambda>key. pf_spec (the (map_of (fr_functions fr) key)))"
  have ss: "ss = map spec (fr_order fr)" using assms(2) specs_inv [OF assms(1)] by (simp add: spec_def)
  have key: "keyOf (spec k) = k" if "k \<in> set (fr_order fr)" for k
    by (rule functions_entry [OF assms(1) that]) (simp add: spec_def)
  have look: "map_of (functionIndexOf ss) key = Some f \<longleftrightarrow> f \<in> set ss \<and> keyOf f = key" for f
    using functionIndexOf_lookup [of ss key f] functions_inv_distinct [OF assms(1)]
    by (simp only: advertised_keys [OF assms])
  show ?thesis
  proof (cases "map_of (fr_functions fr) key")
    case None
    then have "key \<notin> set (fr_order fr)"
      unfolding functions_inv_keys [OF assms(1)] by (simp only: map_of_eq_None_iff not_False_eq_True)
    then have "\<nexists>f. f \<in> set ss \<and> keyOf f = key" by (auto simp: ss key)
    with look None show ?thesis by (cases "map_of (functionIndexOf ss) key") auto
  next
    case (Some prepared)
    then have "key \<in> fst ` set (fr_functions fr)" by (metis map_of_eq_None_iff option.distinct(1))
    then have "key \<in> set (fr_order fr)" by (simp only: functions_inv_keys [OF assms(1)])
    then have "spec key \<in> set ss" "keyOf (spec key) = key" by (simp_all add: ss key)
    with look have "map_of (functionIndexOf ss) key = Some (spec key)" by blast
    with Some show ?thesis by (simp add: spec_def)
  qed
qed

text \<open>
  What an executor advertises is what it runs. After any registrations the specifications can be
  listed without a panic, one for each name and version, at most as many as a registration frame may
  carry. A scheduler that indexes them takes this executor for a function exactly when the
  executor itself finds the function and accepts its signatures, so that a request is never refused
  as unknown or incompatible by the executor it was routed to.
\<close>

theorem advertised_functions_run:
  "\<exists>ss. specs (registerMany rns) = Some ss \<and> distinct (map keyOf ss) \<and> length ss \<le> unat DefaultMaxFunctions
    \<and> (\<forall>entry f. Supports (entry\<lparr>en_functions := functionIndexOf ss\<rparr>) f \<longleftrightarrow>
         (case lookupFunction (registerMany rns) (f_Name f) (f_Version f) of
            None \<Rightarrow> False
          | Some prepared \<Rightarrow> functionCompatible f (pf_spec prepared)))"
proof -
  let ?fr = "registerMany rns"
  note inv = registerMany_inv [of rns]
  obtain ss where ss: "specs ?fr = Some ss" using specs_inv [OF inv] by blast
  have keys: "map keyOf ss = fr_order ?fr" by (rule advertised_keys [OF inv ss])
  then have "distinct (map keyOf ss)" by (simp only: functions_inv_distinct [OF inv])
  moreover have "length ss = length (fr_order ?fr)" using keys by (metis length_map)
  moreover have "length (fr_order ?fr) \<le> unat DefaultMaxFunctions" using inv unfolding functions_inv_def by blast
  moreover have "Supports (entry\<lparr>en_functions := functionIndexOf ss\<rparr>) f \<longleftrightarrow>
      (case lookupFunction ?fr (f_Name f) (f_Version f) of
         None \<Rightarrow> False
       | Some prepared \<Rightarrow> functionCompatible f (pf_spec prepared))" for entry f
    by (simp add: Supports_def advertised_index [OF inv ss] lookupFunction_def keyOf_def functionCompatible_def
        split: option.split)
  ultimately show ?thesis using ss by auto
qed

end
