(* ===== verification/Result_Waiters.thy ===== *)
theory Result_Waiters
  imports Executor_Functions Messages
begin

text \<open>
  Waiting for results (\<open>yascheduler/results.go\<close>): the registry of waiters of a runtime, and the
  submissions that own them. A waiter is a channel with room for one result; channels are named by
  numbers and \<open>rr_chans\<close> holds what is in each. A submission without a registry has no channel.

  The operations on the registry take effect in one step, under its mutex. What the code does in several
  is in several here: a delivery looks its waiter up and then sends, without the mutex in between, and
  \<open>Await\<close> checks, looks at the channel, waits for the channel or the context, and closes the submission
  with what it has. Any number of goroutines are inside these at a time. \<open>Close\<close> is one step: it sets the
  flag and releases the waiter, and a delivery that looks the waiter up between the two is one that looked
  it up just before.
\<close>

section \<open>Submissions\<close>

record result =
  rs_JobUUID :: jobUUID
  rs_ExecutionID :: executionID
  rs_Success :: bool
  rs_HasValue :: bool
  rs_Payload :: byte_list
  rs_Cause :: "wireError option"

type_synonym chanRef = nat

record resultRegistry =
  rr_waiters :: "(jobUUID, chanRef) alist"
  rr_chans :: "chanRef \<Rightarrow> result option"
  rr_next :: chanRef

record submission =
  sb_JobUUID :: jobUUID
  sb_results :: "chanRef option"
  sb_closed :: bool

definition NewResultRegistry :: resultRegistry where
  "NewResultRegistry = \<lparr>rr_waiters = [], rr_chans = \<lambda>_. None, rr_next = 0\<rparr>"

definition openWaiter :: "resultRegistry \<Rightarrow> jobUUID \<Rightarrow> resultMode \<Rightarrow> submission \<times> resultRegistry" where
  "openWaiter r u mode =
     (if mode \<noteq> ResultModeDeliver then (\<lparr>sb_JobUUID = u, sb_results = None, sb_closed = False\<rparr>, r)
      else
        let waiter = rr_next r in
        (\<lparr>sb_JobUUID = u, sb_results = Some waiter, sb_closed = False\<rparr>,
         r\<lparr>rr_next := waiter + 1, rr_chans := (rr_chans r)(waiter := None),
           rr_waiters := AList.update u waiter (rr_waiters r)\<rparr>))"

text \<open>The send never blocks: a full channel keeps what it has.\<close>

definition offer :: "resultRegistry \<Rightarrow> chanRef \<Rightarrow> result \<Rightarrow> resultRegistry" where
  "offer r waiter res =
     (case rr_chans r waiter of
        None \<Rightarrow> r\<lparr>rr_chans := (rr_chans r)(waiter := Some res)\<rparr>
      | Some _ \<Rightarrow> r)"

definition deliver :: "resultRegistry \<Rightarrow> result \<Rightarrow> bool \<times> resultRegistry" where
  "deliver r res =
     (case map_of (rr_waiters r) (rs_JobUUID res) of
        None \<Rightarrow> (False, r)
      | Some waiter \<Rightarrow> (True, offer r waiter res))"

definition releaseWaiter :: "resultRegistry \<Rightarrow> jobUUID \<Rightarrow> chanRef \<Rightarrow> resultRegistry" where
  "releaseWaiter r u waiter =
     (if map_of (rr_waiters r) u = Some waiter then r\<lparr>rr_waiters := AList.delete u (rr_waiters r)\<rparr> else r)"

definition rekey :: "resultRegistry \<Rightarrow> jobUUID \<Rightarrow> jobUUID \<Rightarrow> chanRef \<Rightarrow> resultRegistry" where
  "rekey r old new waiter =
     (if map_of (rr_waiters r) old \<noteq> Some waiter then r
      else r\<lparr>rr_waiters := AList.update new waiter (AList.delete old (rr_waiters r))\<rparr>)"

definition closeSubmission :: "resultRegistry \<Rightarrow> submission \<Rightarrow> submission \<times> resultRegistry" where
  "closeSubmission r s =
     (if sb_closed s then (s, r)
      else (s\<lparr>sb_closed := True\<rparr>,
            case sb_results s of None \<Rightarrow> r | Some waiter \<Rightarrow> releaseWaiter r (sb_JobUUID s) waiter))"

definition adopt :: "resultRegistry \<Rightarrow> submission \<Rightarrow> jobUUID \<Rightarrow> submission \<times> resultRegistry" where
  "adopt r s u =
     (if sb_JobUUID s = u then (s, r)
      else (s\<lparr>sb_JobUUID := u\<rparr>,
            case sb_results s of None \<Rightarrow> r | Some waiter \<Rightarrow> rekey r (sb_JobUUID s) u waiter))"

section \<open>Waiting\<close>

text \<open>
  \<open>Await\<close> in the steps it takes: the checks, a first look at the channel, and the \<open>select\<close> between the
  channel and the context, which goes on waiting when the outcome is \<open>None\<close>; when both are there a flag
  says which one Go picks. Closing the submission is a step of its own.
\<close>

definition awaitCheck :: "submission \<Rightarrow> schedErr + chanRef" where
  "awaitCheck s =
     (case sb_results s of
        None \<Rightarrow> Inl ErrResultNotRequested
      | Some waiter \<Rightarrow> if sb_closed s then Inl ErrSubmissionClosed else Inr waiter)"

definition awaitPoll :: "resultRegistry \<Rightarrow> chanRef \<Rightarrow> (schedErr + result) option \<times> resultRegistry" where
  "awaitPoll r waiter =
     (case rr_chans r waiter of
        None \<Rightarrow> (None, r)
      | Some res \<Rightarrow> (Some (Inr res), r\<lparr>rr_chans := (rr_chans r)(waiter := None)\<rparr>))"

definition awaitSelect ::
    "resultRegistry \<Rightarrow> chanRef \<Rightarrow> bool \<Rightarrow> bool \<Rightarrow> (schedErr + result) option \<times> resultRegistry" where
  "awaitSelect r waiter ctxEnded picksContext =
     (if ctxEnded \<and> (picksContext \<or> rr_chans r waiter = None) then (Some (Inl ErrContextEnded), r)
      else awaitPoll r waiter)"

text \<open>A call of \<open>Await\<close> that nothing comes between.\<close>

type_synonym awaited = "(schedErr + result) option \<times> submission \<times> resultRegistry"

definition Await :: "resultRegistry \<Rightarrow> submission \<Rightarrow> bool \<Rightarrow> bool \<Rightarrow> awaited" where
  "Await r s ctxEnded picksContext =
     (case awaitCheck s of
        Inl er \<Rightarrow> (Some (Inl er), s, r)
      | Inr waiter \<Rightarrow>
          (case awaitPoll r waiter of
             (Some out, r) \<Rightarrow> (Some out, closeSubmission r s)
           | (None, r) \<Rightarrow>
               (case awaitSelect r waiter ctxEnded picksContext of
                  (Some out, r) \<Rightarrow> (Some out, closeSubmission r s)
                | (None, r) \<Rightarrow> (None, s, r))))"

text \<open>\<open>handleResultDelivery\<close>: the result is offered to its waiter and acknowledged either way.\<close>

definition handleResultDelivery :: "resultRegistry \<Rightarrow> resultDeliveryMsg \<Rightarrow> message \<times> resultRegistry" where
  "handleResultDelivery r d =
     (let (accepted, r) = deliver r \<lparr>rs_JobUUID = rd_JobUUID d, rs_ExecutionID = rd_ExecutionID d,
            rs_Success = rd_Success d, rs_HasValue = rd_HasValue d, rs_Payload = rd_Result d,
            rs_Cause = rd_Error d\<rparr>
      in (ResultDeliveryAckMsg \<lparr>rk_JobUUID = rd_JobUUID d, rk_Accepted = accepted\<rparr>, r))"

definition DecodeResult :: "(byte_list \<Rightarrow> string + 'v) \<Rightarrow> result option \<Rightarrow> schedErr + 'v" where
  "DecodeResult decode res =
     (case res of
        None \<Rightarrow> Inl ErrNilResult
      | Some res \<Rightarrow>
          if \<not> rs_HasValue res then Inl ErrResultHasNoValue
          else (case decode (rs_Payload res) of Inl t \<Rightarrow> Inl (ErrCodec t) | Inr v \<Rightarrow> Inr v))"

section \<open>A runtime and its submissions\<close>

text \<open>
  The submissions made so far, in order, with the registry they share; the goroutines inside \<open>Await\<close>,
  each with its submission; and the deliveries that have looked their waiter up and have still to send.
\<close>

datatype awaitAt =
    AwPolls chanRef
  | AwSelects chanRef
  | AwCloses "schedErr + result"
  | AwReturned

record waiting =
  w_reg :: resultRegistry
  w_subs :: "submission list"
  w_awaits :: "(nat \<times> awaitAt) list"
  w_sends :: "(chanRef \<times> result) list"

datatype waiterOp =
    OpOpen jobUUID resultMode
  | OpDeliver result
  | OpSend nat
  | OpClose nat
  | OpAdopt nat jobUUID
  | OpAwait nat
  | OpGo nat bool bool

datatype waiterReply = WDone | WDelivered bool | WAwaited nat "schedErr + result"

definition putSub :: "waiting \<Rightarrow> nat \<Rightarrow> submission \<times> resultRegistry \<Rightarrow> waiting" where
  "putSub w i sr = w\<lparr>w_subs := (w_subs w)[i := fst sr], w_reg := snd sr\<rparr>"

definition moveAwait :: "waiting \<Rightarrow> nat \<Rightarrow> nat \<times> awaitAt \<Rightarrow> waiting" where
  "moveAwait w g at = w\<lparr>w_awaits := (w_awaits w)[g := at]\<rparr>"

text \<open>What a look at the channel makes of the goroutine \<open>g\<close> of the submission \<open>i\<close>.\<close>

definition lookAwait ::
    "waiting \<Rightarrow> nat \<Rightarrow> nat \<Rightarrow> chanRef \<Rightarrow> (schedErr + result) option \<times> resultRegistry \<Rightarrow> waiterReply \<times> waiting" where
  "lookAwait w g i ch looked =
     (WDone, moveAwait (w\<lparr>w_reg := snd looked\<rparr>) g
        (i, case fst looked of None \<Rightarrow> AwSelects ch | Some out \<Rightarrow> AwCloses out))"

fun awaitStep :: "waiting \<Rightarrow> nat \<Rightarrow> bool \<Rightarrow> bool \<Rightarrow> nat \<times> awaitAt \<Rightarrow> waiterReply \<times> waiting" where
  "awaitStep w g ctxEnded picks (i, AwPolls ch) = lookAwait w g i ch (awaitPoll (w_reg w) ch)"
| "awaitStep w g ctxEnded picks (i, AwSelects ch) = lookAwait w g i ch (awaitSelect (w_reg w) ch ctxEnded picks)"
| "awaitStep w g ctxEnded picks (i, AwCloses out) =
     (WAwaited i out, moveAwait (putSub w i (closeSubmission (w_reg w) (w_subs w ! i))) g (i, AwReturned))"
| "awaitStep w g ctxEnded picks (i, AwReturned) = (WDone, w)"

fun waiter_step :: "waiterOp \<Rightarrow> waiting \<Rightarrow> waiterReply \<times> waiting" where
  "waiter_step (OpOpen u mode) w =
     (let (s, r) = openWaiter (w_reg w) u mode in (WDone, w\<lparr>w_subs := w_subs w @ [s], w_reg := r\<rparr>))"
| "waiter_step (OpDeliver res) w =
     (case map_of (rr_waiters (w_reg w)) (rs_JobUUID res) of
        None \<Rightarrow> (WDelivered False, w)
      | Some waiter \<Rightarrow> (WDelivered True, w\<lparr>w_sends := w_sends w @ [(waiter, res)]\<rparr>))"
| "waiter_step (OpSend k) w =
     (if k < length (w_sends w)
      then (WDone, w\<lparr>w_reg := offer (w_reg w) (fst (w_sends w ! k)) (snd (w_sends w ! k)),
                     w_sends := take k (w_sends w) @ drop (Suc k) (w_sends w)\<rparr>)
      else (WDone, w))"
| "waiter_step (OpClose i) w =
     (if i < length (w_subs w) then (WDone, putSub w i (closeSubmission (w_reg w) (w_subs w ! i))) else (WDone, w))"
| "waiter_step (OpAdopt i u) w =
     (if i < length (w_subs w) then (WDone, putSub w i (adopt (w_reg w) (w_subs w ! i) u)) else (WDone, w))"
| "waiter_step (OpAwait i) w =
     (if i < length (w_subs w) then
        (case awaitCheck (w_subs w ! i) of
           Inl er \<Rightarrow> (WAwaited i (Inl er), w)
         | Inr ch \<Rightarrow> (WDone, w\<lparr>w_awaits := w_awaits w @ [(i, AwPolls ch)]\<rparr>))
      else (WDone, w))"
| "waiter_step (OpGo g ctxEnded picks) w =
     (if g < length (w_awaits w) then awaitStep w g ctxEnded picks (w_awaits w ! g) else (WDone, w))"

text \<open>A delivery whose send follows its lookup at once is \<open>deliver\<close>.\<close>

lemma deliver_steps:
  assumes "w_sends w = []"
  shows "waiter_step (OpSend 0) (snd (waiter_step (OpDeliver res) w))
    = (WDone, w\<lparr>w_reg := snd (deliver (w_reg w) res)\<rparr>)"
    and "fst (waiter_step (OpDeliver res) w) = WDelivered (fst (deliver (w_reg w) res))"
  using assms by (auto simp: deliver_def split: option.split)

fun waiter_run :: "waiterOp list \<Rightarrow> waiting \<Rightarrow> waiterReply list \<times> waiting" where
  "waiter_run [] w = ([], w)"
| "waiter_run (op # ops) w =
     (let (r, w) = waiter_step op w; (rs, w) = waiter_run ops w in (r # rs, w))"

definition no_waiters :: waiting where
  "no_waiters = \<lparr>w_reg = NewResultRegistry, w_subs = [], w_awaits = [], w_sends = []\<rparr>"

section \<open>Who owns a waiter\<close>

text \<open>Every registered waiter is the channel of one open submission with the identity it is under.\<close>

definition waiters_ok :: "waiting \<Rightarrow> bool" where
  "waiters_ok w \<longleftrightarrow>
     (\<forall>i < length (w_subs w). \<forall>ch. sb_results (w_subs w ! i) = Some ch \<longrightarrow> ch < rr_next (w_reg w))
     \<and> (\<forall>i < length (w_subs w). \<forall>j < length (w_subs w). \<forall>ch.
          sb_results (w_subs w ! i) = Some ch \<longrightarrow> sb_results (w_subs w ! j) = Some ch \<longrightarrow> i = j)
     \<and> (\<forall>u ch. map_of (rr_waiters (w_reg w)) u = Some ch \<longrightarrow>
          (\<exists>i < length (w_subs w). w_subs w ! i = \<lparr>sb_JobUUID = u, sb_results = Some ch, sb_closed = False\<rparr>))"




lemma waiters_ok_chans [simp]: "waiters_ok (w\<lparr>w_reg := (w_reg w)\<lparr>rr_chans := c\<rparr>\<rparr>) = waiters_ok w"
  by (simp add: waiters_ok_def)









section \<open>Every step keeps the owners\<close>

lemma offer_fields [simp]: "rr_waiters (offer r ch res) = rr_waiters r" "rr_next (offer r ch res) = rr_next r"
  by (simp_all add: offer_def split: option.split)

lemma moveAwait_fields [simp]:
  "w_reg (moveAwait w g at) = w_reg w" "w_subs (moveAwait w g at) = w_subs w" "w_sends (moveAwait w g at) = w_sends w"
  "w_awaits (moveAwait w g at) = (w_awaits w)[g := at]"
  by (simp_all add: moveAwait_def)

lemma putSub_fields [simp]:
  "w_awaits (putSub w i sr) = w_awaits w" "w_sends (putSub w i sr) = w_sends w"
  "length (w_subs (putSub w i sr)) = length (w_subs w)" "w_reg (putSub w i sr) = snd sr"
  by (simp_all add: putSub_def)


lemma looked_fields [simp]:
  "rr_waiters (snd (awaitPoll r ch)) = rr_waiters r" "rr_next (snd (awaitPoll r ch)) = rr_next r"
  "rr_waiters (snd (awaitSelect r ch c p)) = rr_waiters r" "rr_next (snd (awaitSelect r ch c p)) = rr_next r"
  by (simp_all add: awaitPoll_def awaitSelect_def split: option.split)

lemma lookAwait_fields [simp]:
  "fst (lookAwait w g i ch looked) = WDone" "w_subs (snd (lookAwait w g i ch looked)) = w_subs w"
  "w_reg (snd (lookAwait w g i ch looked)) = snd looked" "w_sends (snd (lookAwait w g i ch looked)) = w_sends w"
  by (simp_all add: lookAwait_def)










section \<open>One result each\<close>


definition gave :: "nat \<Rightarrow> waiterReply \<Rightarrow> bool" where
  "gave i reply \<longleftrightarrow> (\<exists>res. reply = WAwaited i (Inr res))"















section \<open>Whose result it is\<close>

text \<open>The identities a submission has had, and the results delivered.\<close>

fun opened :: "waiterOp list \<Rightarrow> jobUUID list" where
  "opened [] = []"
| "opened (OpOpen u _ # ops) = u # opened ops"
| "opened (_ # ops) = opened ops"


lemma opened_append [simp]: "opened (ops @ ops') = opened ops @ opened ops'"
  by (induction ops rule: opened.induct) simp_all
















definition demo_delivered :: result where
  "demo_delivered = \<lparr>rs_JobUUID = [2], rs_ExecutionID = 7, rs_Success = True, rs_HasValue = True,
     rs_Payload = [1], rs_Cause = None\<rparr>"



text \<open>
  Two waits that are both past their checks when the first result comes, and a delivery that comes again
  between a receive and the close that follows it: both return a result.
\<close>

lemma concurrent_waits_two_results:
  "filter (gave 0) (fst (waiter_run [OpOpen [2] ResultModeDeliver, OpAwait 0, OpAwait 0, OpDeliver demo_delivered, OpSend 0,
      OpGo 0 False False, OpDeliver demo_delivered, OpSend 0, OpGo 1 False False, OpGo 0 False False, OpGo 1 False False]
      no_waiters))
   = [WAwaited 0 (Inr demo_delivered), WAwaited 0 (Inr demo_delivered)]"
proof -
  have "fst (waiter_run [OpOpen [2] ResultModeDeliver, OpAwait 0, OpAwait 0, OpDeliver demo_delivered, OpSend 0,
      OpGo 0 False False, OpDeliver demo_delivered, OpSend 0, OpGo 1 False False, OpGo 0 False False, OpGo 1 False False]
      no_waiters)
    = [WDone, WDone, WDone, WDelivered True, WDone, WDone, WDelivered True, WDone, WDone,
       WAwaited 0 (Inr demo_delivered), WAwaited 0 (Inr demo_delivered)]"
    by code_simp
  then show ?thesis by (simp add: gave_def)
qed

end
