(* ===== verification/Engine_Results.thy ===== *)
theory Engine_Results
  imports Engine_Dispatch
begin

text \<open>
  Held results, retention and the overlap policy: who may drop a held result, what a purge removes,
  and how a retry that meets the skip policy is handled.
\<close>

section \<open>Acknowledged results\<close>

text \<open>From \<open>s\<close> to \<open>t\<close> at most the held result of one job is gone.\<close>

definition dropsResult :: "jobUUID \<Rightarrow> memstore \<Rightarrow> memstore \<Rightarrow> bool" where
  "dropsResult i s t \<longleftrightarrow> sameWork s t \<and> ms_jobs t = ms_jobs s
     \<and> (map_of (ms_results t) = map_of (ms_results s) \<or> map_of (ms_results t) = (map_of (ms_results s))(i := None))"

lemma DeleteResult_drops:
  "map_of (ms_results (snd (DeleteResult s i))) = (map_of (ms_results s))(i := None)"
  "fst (DeleteResult s i) \<longleftrightarrow> map_of (ms_results s) i \<noteq> None"
  by (auto simp: DeleteResult_def detachResult_def AList.delete_conv' fun_eq_iff split: option.split)

lemma removal_drops:
  "repo e (remove (\<lambda>s. DeleteResult s i)) = Some (r, e') \<Longrightarrow> dropsResult i (e_mem e) (e_mem e')
     \<and> e_outbox e' = e_outbox e \<and> e_reg e' = e_reg e"
  by (erule repo_cases)
     (auto simp: remove_def Let_def split_def dropsResult_def sameWork_def DeleteResult_drops)

lemma resultOwnedBy_cases:
  assumes "resultOwnedBy e i inst = Some (b, e')" and "store_inv (e_mem e)"
  shows "e_mem e' = e_mem e \<and> e_outbox e' = e_outbox e \<and> e_reg e' = e_reg e \<and> e_fault e' = e_fault e"
    "b \<Longrightarrow> \<exists>p. map_of (ms_results (e_mem e)) i = Some p \<and> r_InstanceID p = inst"
    "reliable e \<Longrightarrow> map_of (ms_results (e_mem e)) i = Some p \<Longrightarrow> r_InstanceID p = inst \<Longrightarrow> b"
proof -
  have inv: "results_inv (e_mem e)" using assms(2) by (simp add: store_inv_def)
  obtain rs where rs: "ResultsForInstance (e_mem e) inst 0 = Some rs"
    "\<And>r. r \<in> set rs \<longleftrightarrow> r_InstanceID r = inst \<and> map_of (ms_results (e_mem e)) (r_JobUUID r) = Some r"
    using ResultsForInstance_all [OF inv, of inst] by blast
  have id: "map_of (ms_results (e_mem e)) i = Some p \<Longrightarrow> r_JobUUID p = i" for p
    using inv by (auto simp: results_inv_def dest: map_of_SomeD)
  show "e_mem e' = e_mem e \<and> e_outbox e' = e_outbox e \<and> e_reg e' = e_reg e \<and> e_fault e' = e_fault e"
    "b \<Longrightarrow> \<exists>p. map_of (ms_results (e_mem e)) i = Some p \<and> r_InstanceID p = inst"
    using assms(1) rs by (auto simp: resultOwnedBy_def query_opt_def list_ex_iff elim!: repo_cases split: bind_splits sum.splits)
  show "reliable e \<Longrightarrow> map_of (ms_results (e_mem e)) i = Some p \<Longrightarrow> r_InstanceID p = inst \<Longrightarrow> b"
    using assms(1) rs id by (auto simp: resultOwnedBy_def query_opt_def list_ex_iff)
qed

text \<open>
  C6. A held result is dropped only by its owner. Whatever acknowledgement arrives, from whatever
  instance, and whichever repository calls fail, it removes at most the result it names, and only if
  that result is held for the instance it came from; jobs, executions, attempts, the registry and the
  outbox stay as they are. When no repository call fails, an owner's acknowledgement does remove it,
  whether it says that the delivery was accepted or that it was not. The comment on \<open>ResultDeliveryAck\<close>
  in \<open>protocol/messages.go\<close> says that a delivery which is not accepted stays held; the handler does not
  look at \<open>Accepted\<close>, and the comment on \<open>handleResultDelivery\<close> in \<open>yascheduler/results.go\<close> relies on
  the removal.
\<close>

theorem result_ack_owner_only:
  assumes inv: "store_inv (e_mem e)" and ack: "HandleResultAck e inst ack = Some e'"
  shows "dropsResult (rk_JobUUID ack) (e_mem e) (e_mem e') \<and> e_outbox e' = e_outbox e \<and> e_reg e' = e_reg e
    \<and> (map_of (ms_results (e_mem e')) \<noteq> map_of (ms_results (e_mem e))
         \<longrightarrow> (\<exists>p. map_of (ms_results (e_mem e)) (rk_JobUUID ack) = Some p \<and> r_InstanceID p = inst))
    \<and> (reliable e \<longrightarrow> (\<forall>p. map_of (ms_results (e_mem e)) (rk_JobUUID ack) = Some p \<longrightarrow> r_InstanceID p = inst
         \<longrightarrow> map_of (ms_results (e_mem e')) (rk_JobUUID ack) = None))"
proof -
  obtain owned e1 where o: "resultOwnedBy e (rk_JobUUID ack) inst = Some (owned, e1)"
    using ack by (auto simp: HandleResultAck_def split: bind_splits)
  note own = resultOwnedBy_cases [OF o inv]
  show ?thesis
  proof (cases owned)
    case False
    then have "e' = bump mt_StaleMessages_update e1" using ack o by (simp add: HandleResultAck_def)
    then show ?thesis using own(1,3) False by (auto simp: dropsResult_def sameWork_def)
  next
    case True
    obtain r e2 where r: "repo e1 (remove (\<lambda>s. DeleteResult s (rk_JobUUID ack))) = Some (r, e2)"
      "e_mem e' = e_mem e2" "e_outbox e' = e_outbox e2" "e_reg e' = e_reg e2"
      using ack o True by (auto simp: HandleResultAck_def split: bind_splits if_splits sum.splits)
    have "map_of (ms_results (e_mem e2)) (rk_JobUUID ack) = None" if "reliable e"
      using r(1) own(1) that by (auto simp: remove_def Let_def split_def DeleteResult_drops)
    with r removal_drops [OF r(1)] own(1,2) True show ?thesis by auto
  qed
qed

definition demo_held :: memstore where
  "demo_held = snd (StoreResult (NewStore 0 0 (\<lambda>_. 0)) (Some \<lparr>r_JobUUID = demo_uuid 7, r_InstanceID = ''me'',
     r_ExecutionID = 1, r_Success = True, r_HasValue = False, r_Payload = [], r_Cause = None, r_Attempts = 0,
     r_CreatedAt = 0, r_LastSentAt = 0\<rparr>))"

lemma demo_held_inv: "store_inv demo_held"
  by (simp add: demo_held_def NewStore_inv)

theorem result_ack_owner_only_witness:
  "\<exists>e'. HandleResultAck (demo_engine_over demo_held) ''other'' \<lparr>rk_JobUUID = demo_uuid 7, rk_Accepted = True\<rparr> = Some e'
    \<and> map_of (ms_results (e_mem e')) = map_of (ms_results demo_held)"
proof -
  let ?e = "demo_engine_over demo_held" and ?m = "\<lparr>rk_JobUUID = demo_uuid 7, rk_Accepted = True\<rparr>"
  have inv: "store_inv (e_mem ?e)" by (simp add: demo_held_inv)
  then have "engine_ok 0 ?e" by (simp add: engine_ok_def room_0 registry_inv_New)
  then obtain e' where e': "HandleResultAck ?e ''other'' ?m = Some e'"
    using HandleResultAck_returns [of ?e "''other''" ?m] by (auto simp: returnsBy_def)
  have "\<exists>p. map_of (ms_results demo_held) (demo_uuid 7) = Some p \<and> r_InstanceID p = ''me''"
    by (simp add: demo_held_def StoreResult_def NewStore_def Let_def readClock_def DefaultMaxResults_def
        DefaultMaxResultsPerInstance_def lookupSlice_def)
  with result_ack_owner_only [OF inv e'] e' show ?thesis by auto
qed

section \<open>Purging\<close>

lemma DeleteAttempt_removes:
  "map_of (ms_attempts (snd (DeleteAttempt s i))) = (map_of (ms_attempts s))(i := None)"
  by (auto simp: DeleteAttempt_def detachAttemptFromHost_def detachAttemptFromExec_def AList.delete_conv' fun_eq_iff
      split: option.split)

lemma DeleteExecution_removes:
  "map_of (ms_executions (snd (DeleteExecution s i))) = (map_of (ms_executions s))(i := None)"
  by (auto simp: DeleteExecution_def detachExecutionOrder_def AList.delete_conv' fun_eq_iff split: option.split)

text \<open>From \<open>s\<close> to \<open>t\<close> attempts of \<open>A\<close> may be gone, and all of them if \<open>b\<close>.\<close>

definition dropsAttempts :: "attemptID set \<Rightarrow> bool \<Rightarrow> memstore \<Rightarrow> memstore \<Rightarrow> bool" where
  "dropsAttempts A b s t \<longleftrightarrow> ms_executions t = ms_executions s
     \<and> (\<forall>i. map_of (ms_attempts t) i = map_of (ms_attempts s) i \<or> i \<in> A \<and> map_of (ms_attempts t) i = None)
     \<and> (b \<longrightarrow> (\<forall>i \<in> A. map_of (ms_attempts t) i = None))"

lemma attempt_removal:
  "repo e (remove (\<lambda>s. DeleteAttempt s i)) = Some (r, e') \<Longrightarrow> e_fault e' = e_fault e
     \<and> dropsAttempts {i} (\<exists>b. r = Inr b) (e_mem e) (e_mem e')"
  by (erule repo_cases) (auto simp: remove_def Let_def split_def dropsAttempts_def DeleteAttempt_removes)

lemma dropsAttempts_trans:
  assumes "dropsAttempts A True s t" and "dropsAttempts B c t u"
  shows "dropsAttempts (A \<union> B) c s u"
proof -
  have "map_of (ms_attempts u) i = map_of (ms_attempts s) i \<or> i \<in> A \<union> B \<and> map_of (ms_attempts u) i = None" for i
    using assms unfolding dropsAttempts_def by (metis Un_iff)
  moreover have "c \<Longrightarrow> i \<in> A \<union> B \<Longrightarrow> map_of (ms_attempts u) i = None" for i
    using assms unfolding dropsAttempts_def by (metis Un_iff)
  ultimately show ?thesis
    using assms unfolding dropsAttempts_def by simp
qed

lemma purgeAttempts_drops:
  "purgeAttempts e as = Some (b, e') \<Longrightarrow> dropsAttempts (a_ID ` set as) b (e_mem e) (e_mem e')
     \<and> (reliable e \<longrightarrow> b \<and> reliable e')"
proof (induction as arbitrary: e)
  case (Cons a as)
  obtain r e1 where r: "repo e (remove (\<lambda>s. DeleteAttempt s (a_ID a))) = Some (r, e1)"
    using Cons.prems by (auto split: bind_splits)
  note step = attempt_removal [OF r]
  show ?case
  proof (cases r)
    case (Inl err)
    have "\<not> reliable e"
      using r Inl by (auto simp: remove_def Let_def split_def)
    with Cons.prems r Inl step show ?thesis by (auto simp: dropsAttempts_def)
  next
    case (Inr deleted)
    let ?e = "if deleted then bump mt_AttemptsPurged_update e1 else e1"
    have more: "purgeAttempts ?e as = Some (b, e')" using Cons.prems r Inr by simp
    have same: "e_mem ?e = e_mem e1" "e_fault ?e = e_fault e1" by simp_all
    have "dropsAttempts ({a_ID a} \<union> a_ID ` set as) b (e_mem e) (e_mem e')"
      using step Inr Cons.IH [OF more] by (intro dropsAttempts_trans [of _ _ "e_mem e1"]) (simp_all add: same)
    with Cons.IH [OF more] step show ?thesis by (simp add: same)
  qed
qed (simp add: dropsAttempts_def)

text \<open>
  C7. A purge never leaves an orphan. Whatever calls fail on the way, when the execution is gone
  afterwards so is every attempt of it; no other execution and no attempt of another execution is
  touched; and when no call fails, all of it is gone.
\<close>

theorem purge_leaves_no_orphan:
  assumes inv: "store_inv (e_mem e)" and res: "purgeExecution e x = Some e'"
    and x: "map_of (ms_executions (e_mem e)) (x_ID x) \<noteq> None"
  shows "(map_of (ms_executions (e_mem e')) (x_ID x) = None \<longrightarrow>
        (\<forall>i a. map_of (ms_attempts (e_mem e')) i = Some a \<longrightarrow> a_ExecutionID a \<noteq> x_ID x))
    \<and> (\<forall>j. j \<noteq> x_ID x \<longrightarrow> map_of (ms_executions (e_mem e')) j = map_of (ms_executions (e_mem e)) j)
    \<and> (\<forall>i a. map_of (ms_attempts (e_mem e)) i = Some a \<longrightarrow> a_ExecutionID a \<noteq> x_ID x
         \<longrightarrow> map_of (ms_attempts (e_mem e')) i = Some a)
    \<and> (reliable e \<longrightarrow> map_of (ms_executions (e_mem e')) (x_ID x) = None)"
proof -
  define as where "as = filter (\<lambda>a. a_ExecutionID a = x_ID x) (map snd (ms_attempts (e_mem e)))"
  have inv': "attempts_inv (e_mem e)" using inv by (simp add: store_inv_def)
  have list: "AttemptsForExecution (e_mem e) (x_ID x) = Some as"
    unfolding as_def by (rule AttemptsForExecution_inv [OF inv'])
  have owned: "i \<in> a_ID ` set as \<longleftrightarrow> a_ExecutionID a = x_ID x" if "map_of (ms_attempts (e_mem e)) i = Some a" for i a
  proof -
    have d: "distinct (map fst (ms_attempts (e_mem e)))"
      and id: "(j, b) \<in> set (ms_attempts (e_mem e)) \<Longrightarrow> a_ID b = j" for j b
      using inv' by (auto simp: attempts_inv_def)
    have "b = a" if "(j, b) \<in> set (ms_attempts (e_mem e))" "a_ID b = i" for j b
      using that id eq_key_imp_eq_value [OF d, of i b a] map_of_SomeD [OF \<open>map_of (ms_attempts (e_mem e)) i = Some a\<close>]
      by auto
    moreover have "(i, a) \<in> set (ms_attempts (e_mem e))" "a_ID a = i"
      by (rule map_of_SomeD [OF that], rule id [OF map_of_SomeD [OF that]])
    ultimately show ?thesis
      unfolding as_def by (force simp: image_iff)
  qed
  let ?e1 = "e\<lparr>e_calls := Suc (e_calls e)\<rparr>"
  show ?thesis
  proof (cases "e_fault e (e_calls e)")
    case True
    then have "e' = ?e1" using res by (simp add: purgeExecution_def repo_def Let_def)
    with x True show ?thesis by auto
  next
    case False
    obtain b e2 where p: "purgeAttempts ?e1 as = Some (b, e2)"
      using res False list by (auto simp: purgeExecution_def repo_def query_opt_def Let_def split: bind_splits)
    note drops = purgeAttempts_drops [OF p]
    have each: "map_of (ms_attempts (e_mem e2)) i = map_of (ms_attempts (e_mem e)) i
        \<or> i \<in> a_ID ` set as \<and> map_of (ms_attempts (e_mem e2)) i = None" for i
      using drops by (simp add: dropsAttempts_def)
    have stays: "map_of (ms_attempts (e_mem e2)) i = Some a"
      if "map_of (ms_attempts (e_mem e)) i = Some a" "a_ExecutionID a \<noteq> x_ID x" for i a
      using each [of i] owned [OF that(1)] that by simp
    have gone: "a_ExecutionID a \<noteq> x_ID x" if "map_of (ms_attempts (e_mem e2)) i = Some a" b for i a
      using each [of i] owned [of i a] that drops by (auto simp: dropsAttempts_def)
    have execs: "ms_executions (e_mem e2) = ms_executions (e_mem e)" "reliable e \<longrightarrow> b \<and> reliable e2"
      using drops by (simp_all add: dropsAttempts_def)
    show ?thesis
    proof (cases b)
      case False
      then have "e' = e2" using res p list \<open>\<not> e_fault e (e_calls e)\<close>
        by (simp add: purgeExecution_def repo_def query_opt_def Let_def)
      with execs x False stays show ?thesis by auto
    next
      case True
      obtain r e3 where d: "repo e2 (remove (\<lambda>s. DeleteExecution s (x_ID x))) = Some (r, e3)" "e_mem e' = e_mem e3"
        using res p list True \<open>\<not> e_fault e (e_calls e)\<close>
        by (auto simp: purgeExecution_def query_opt_def Let_def repo_def [of e] split: bind_splits)
      consider (refused) "e_mem e3 = e_mem e2" "\<not> reliable e2"
        | (removed) "map_of (ms_executions (e_mem e3)) = (map_of (ms_executions (e_mem e2)))(x_ID x := None)"
          "ms_attempts (e_mem e3) = ms_attempts (e_mem e2)"
      proof (cases "e_fault e2 (e_calls e2)")
        case True
        then have "\<not> reliable e2" by (auto simp: fun_eq_iff)
        with True that(1) d(1) show ?thesis by (auto simp: repo_def)
      next
        case False
        with that(2) d(1) show ?thesis
          by (auto simp: repo_def remove_def Let_def split_def DeleteExecution_removes)
      qed
      then show ?thesis
      proof cases
        case refused
        have "\<not> reliable e" using refused(2) execs(2) by blast
        then show ?thesis
          unfolding d(2) refused(1) execs(1) using x stays by auto
      next
        case removed
        show ?thesis
          unfolding d(2) removed execs(1)
          by (intro conjI impI allI; (rule gone, assumption, rule True)?; (rule stays, assumption+)?; simp)
      qed
    qed
  qed
qed

theorem purge_leaves_no_orphan_witness:
  "\<exists>e'. purgeExecution (demo_engine_over demo_running) demo_execution = Some e'
    \<and> map_of (ms_executions (e_mem e')) 1 = None
    \<and> (\<forall>i a. map_of (ms_attempts (e_mem e')) i = Some a \<longrightarrow> a_ExecutionID a \<noteq> 1)"
proof -
  let ?e = "demo_engine_over demo_running"
  have inv: "store_inv (e_mem ?e)" by (simp add: demo_running_inv)
  then have "engine_ok 0 ?e" by (simp add: engine_ok_def room_0 registry_inv_New)
  then obtain e' where e': "purgeExecution ?e demo_execution = Some e'"
    using purgeExecution_returns [of ?e demo_execution] by (auto simp: returnsBy_def)
  have "x_ID demo_execution = 1" "map_of (ms_executions (e_mem ?e)) 1 = Some demo_execution" "reliable ?e"
    by (simp_all add: demo_execution_def demo_running_values)
  with purge_leaves_no_orphan [OF inv e'] e' show ?thesis by auto
qed

section \<open>The skip policy and retries\<close>

text \<open>
  An execution that waits for its retry while another execution of its job, an enabled one with the
  skip policy, is active.
\<close>

definition blockedRetry :: "memstore \<Rightarrow> execution \<Rightarrow> job \<Rightarrow> bool" where
  "blockedRetry s x jb \<longleftrightarrow> map_of (ms_jobs s) (x_JobID x) = Some jb \<and> j_Enabled jb \<and> j_ID jb = x_JobID x
     \<and> j_Overlap jb = OverlapPolicySkip \<and> map_of (ms_executions s) (x_ID x) = Some x \<and> x_State x = StateRetryWait
     \<and> HasActiveExecution s (x_JobID x) (x_ID x)"

lemma HasActiveExecution_mono:
  assumes "HasActiveExecution s j i" and "distinct (map fst (ms_executions s))"
    and "\<And>k y. map_of (ms_executions s) k = Some y \<Longrightarrow> map_of (ms_executions t) k = Some y"
  shows "HasActiveExecution t j i"
proof -
  obtain k y where y: "(k, y) \<in> set (ms_executions s)" "\<not> (x_JobID y \<noteq> j \<or> x_ID y = i) \<and> inLease y"
    using assms(1) by (auto simp: HasActiveExecution_def list_ex_iff)
  then have "map_of (ms_executions t) k = Some y" using assms(2,3) by simp
  from map_of_SomeD [OF this] y(2) show ?thesis by (force simp: HasActiveExecution_def list_ex_iff)
qed

lemma materializeNext_jobs: "materializeNext e jb t = Some e' \<Longrightarrow> ms_jobs (e_mem e') = ms_jobs (e_mem e)"
  using CreateExecution_frame(1)
  by (fastforce simp: materializeNext_def elim!: repo_cases split: bind_splits option.splits sum.splits if_splits)

lemma materializeNext_engine:
  assumes "materializeNext e jb t = Some e'"
  shows "e_metrics e' = e_metrics e" "e_fault e' = e_fault e" "e_clock e' = e_clock e" "e_ticks e' = e_ticks e"
    "e_running e' = e_running e" "e_stopping e' = e_stopping e" "e_cfg e' = e_cfg e"
  using assms
  by (auto simp: materializeNext_def Notify_def elim!: repo_cases split: bind_splits option.splits sum.splits if_splits)

lemma blockedRetry_materialized:
  assumes m: "materializeNext e jb' t = Some e'" and inv: "store_inv (e_mem e)" "room 1 (e_mem e)"
    and x: "blockedRetry (e_mem e) x jb"
  shows "blockedRetry (e_mem e') x jb"
proof -
  have keep: "map_of (ms_executions (e_mem e)) k = Some y \<Longrightarrow> map_of (ms_executions (e_mem e')) k = Some y" for k y
    using materializeNext_keeps [OF m inv] by blast
  moreover have "distinct (map fst (ms_executions (e_mem e)))"
    using inv(1) by (simp add: store_inv_def executions_inv_def)
  ultimately show ?thesis
    using x HasActiveExecution_mono [of "e_mem e"] materializeNext_jobs [OF m] by (auto simp: blockedRetry_def)
qed

lemma due_listed:
  assumes "DueExecutions s now limit = Some xs" and "x \<in> set xs"
  shows "executionDue x now"
proof -
  obtain ys where "xs = capped limit (sort_key (\<lambda>x. (x_ScheduledAt x, x_ID x)) (filter (\<lambda>x. executionDue x now) ys))"
    using assms(1) by (auto simp: DueExecutions_def simp del: executionDue.simps)
  moreover have "set (capped limit zs) \<subseteq> set zs" for zs :: "execution list"
    by (auto simp: capped_def dest: in_set_takeD)
  ultimately show ?thesis using assms(2) by (fastforce simp del: executionDue.simps)
qed

lemma dispatch_refuses_retry:
  assumes "reliable e" and ok: "engine_ok 1 e" and x: "blockedRetry (e_mem e) x jb"
  shows "\<exists>e'. dispatchExecution e x now = Some e' \<and> blockedRetry (e_mem e') x jb \<and> e_outbox e' = e_outbox e
    \<and> mt_SkippedOverlaps (e_metrics e') = mt_SkippedOverlaps (e_metrics e) + 1
    \<and> e_fault e' = e_fault e \<and> e_clock e' = e_clock e \<and> e_ticks e' = e_ticks e
    \<and> e_running e' = e_running e \<and> e_stopping e' = e_stopping e \<and> engine_ok 0 e'"
proof -
  have refused: "UpdateExecution (e_mem e) (x_ID x) (x_Version x)
      (because skipReasonOverlap\<lparr>u_State := Some StateSkipped\<rparr>) = (Inl ErrIllegalTransition, e_mem e)"
    using x by (simp add: blockedRetry_def UpdateExecution_def stateCheck_def CanTransition_def)
  define e1 where "e1 = bump mt_SkippedOverlaps_update (e\<lparr>e_calls := Suc (Suc (Suc (e_calls e))), e_mem := e_mem e\<rparr>)"
  have "resolveOverlap (j_Overlap jb) = OverlapPolicySkip"
    using x by (simp add: blockedRetry_def resolveOverlap_def OverlapPolicySkip_def OverlapPolicyInherit_def)
  with assms refused have step: "dispatchExecution e x now = materializeNext e1 jb (x_ScheduledAt x)"
    by (simp add: blockedRetry_def dispatchExecution_def call_defs GetJob_def transition_def e1_def)
  have e1: "e_mem e1 = e_mem e" "e_outbox e1 = e_outbox e" "engine_ok (0 + 1) e1" "e_fault e1 = e_fault e"
    "e_clock e1 = e_clock e" "e_ticks e1 = e_ticks e" "e_running e1 = e_running e" "e_stopping e1 = e_stopping e"
    "mt_SkippedOverlaps (e_metrics e1) = mt_SkippedOverlaps (e_metrics e) + 1"
    using ok by (simp_all add: e1_def engine_ok_def bump_def)
  obtain e' where e': "materializeNext e1 jb (x_ScheduledAt x) = Some e'" "engine_ok 0 e'"
    using materializeNext_returns [of e1 jb "x_ScheduledAt x", unfolded returnsBy_def, rule_format, OF e1(3)] by blast
  have "blockedRetry (e_mem e') x jb"
    using blockedRetry_materialized [OF e'(1) _ _ x [folded e1(1)]] e1(1,3) by (simp add: engine_ok_def)
  with step e' e1 materializeNext_silent [OF e'(1)] materializeNext_engine [OF e'(1)] show ?thesis by simp
qed

text \<open>
  C8. A retry that meets the skip policy is never skipped, and the timing loop spins on it. Let no
  repository call fail and the engine run, with room for one more identifier; let an execution wait for
  its retry while another execution of its enabled job, which has the skip policy, is active; and let it
  be all that is due at this turn of the loop. The dispatcher then asks for a transition the table does
  not have: the store refuses it and nothing is sent. The turn ends with the execution as it was, in the
  same situation, with one more skipped overlap counted, and with a delay of zero before the next turn,
  provided the clock has not gone backwards within the turn.
\<close>

theorem overlap_skip_refuses_retry:
  assumes rel: "reliable e" and ok: "engine_ok 1 e" and run: "e_running e" "\<not> e_stopping e"
    and x: "blockedRetry (e_mem e) x jb"
    and due: "DueExecutions (e_mem e) (e_clock e (e_ticks e)) (cf_DispatchBatch (e_cfg e)) = Some [x]"
    and clock: "e_clock e (e_ticks e) \<le> e_clock e (Suc (e_ticks e))"
  shows "\<exists>e'. timingTurn e = Some (Some (Some 0), e')
    \<and> blockedRetry (e_mem e') x jb \<and> e_outbox e' = e_outbox e
    \<and> mt_SkippedOverlaps (e_metrics e') = mt_SkippedOverlaps (e_metrics e) + 1"
proof -
  define e1 where "e1 = e\<lparr>e_ticks := Suc (e_ticks e), e_calls := Suc (e_calls e), e_mem := e_mem e\<rparr>"
  have e1: "reliable e1" "engine_ok 1 e1" "blockedRetry (e_mem e1) x jb" "e_running e1" "\<not> e_stopping e1"
    using rel ok x run by (simp_all add: e1_def engine_ok_def)
  obtain e2 where e2: "dispatchExecution e1 x (e_clock e (e_ticks e)) = Some e2"
    "blockedRetry (e_mem e2) x jb" "e_outbox e2 = e_outbox e"
    "mt_SkippedOverlaps (e_metrics e2) = mt_SkippedOverlaps (e_metrics e) + 1"
    "reliable e2" "e_clock e2 = e_clock e" "e_ticks e2 = Suc (e_ticks e)" "store_inv (e_mem e2)"
    using dispatch_refuses_retry [OF e1(1-3)] rel by (auto simp: e1_def engine_ok_def)
  have p: "processDue e = Some e2"
    using due run rel e2(1) by (simp add: processDue_def now_e_def query_opt_def e1_def)
  have "x_NextAttemptAt x \<le> e_clock e (e_ticks e)"
  proof -
    have "executionDue x (e_clock e (e_ticks e))" by (rule due_listed [OF due]) simp
    then show ?thesis using x by (simp add: blockedRetry_def)
  qed
  then have "executionDue x (e_clock e (Suc (e_ticks e)))" using x clock by (simp add: blockedRetry_def)
  moreover have "x \<in> set (map snd (ms_executions (e_mem e2)))"
    using e2(2) by (force simp: blockedRetry_def dest: map_of_SomeD)
  ultimately have "snd (NextWakeAt (e_mem e2)) \<and> fst (NextWakeAt (e_mem e2)) \<le> e_clock e (Suc (e_ticks e))"
    using earliestWake_iff [of "(zeroTime, False)"] unfolding NextWakeAt_def by blast
  then obtain wake where "NextWakeAt (e_mem e2) = (wake, True)" "wake \<le> e_clock e (Suc (e_ticks e))"
    by (cases "NextWakeAt (e_mem e2)") auto
  moreover have "timeSub a b \<le> 0" if "a \<le> b" for a b
    using that by (simp add: timeSub_def minInt64_def maxInt64_def)
  ultimately show ?thesis
    using p run e2 by (force simp: timingTurn_def query_def now_e_def Let_def)
qed

text \<open>A store with a running execution of a job that skips overlaps, and a due retry of it.\<close>

definition demo_skip_job :: job where
  "demo_skip_job = demo_job 7 ''a'' \<lparr>j_Overlap := OverlapPolicySkip\<rparr>"

definition demo_skip1 :: memstore where
  "demo_skip1 = snd (the (UpsertJob demo_store (Some demo_skip_job)))"

definition demo_skip2 :: memstore where
  "demo_skip2 = snd (the (CreateExecution demo_skip1 (demo_uuid 7) 100 StateRunning False))"

definition demo_skip :: memstore where
  "demo_skip = snd (the (CreateExecution demo_skip2 (demo_uuid 7) 200 StateRetryWait False))"

definition demo_retry :: execution where
  "demo_retry = \<lparr>x_ID = 2, x_JobID = demo_uuid 7, x_ScheduledAt = 200, x_State = StateRetryWait,
     x_FunctionAttempts = 0, x_CurrentAttemptID = 0, x_NextAttemptAt = 200, x_LeaseExpiresAt = zeroTime,
     x_Backfilled = False, x_LastError = '''', x_WaitReason = '''', x_Version = 1,
     x_CreatedAt = 1002, x_UpdatedAt = 1002\<rparr>"

lemmas demo_skip_defs = demo_skip_def demo_skip2_def demo_skip1_def demo_skip_job_def demo_defs UpsertJob_def
  scopedKey_def readClock_def Let_def CreateExecution_def

lemma demo_skip_values:
  "map_of (ms_jobs demo_skip) (demo_uuid 7)
     = Some (demo_skip_job\<lparr>j_Version := 1, j_CreatedAt := 1000, j_UpdatedAt := 1000\<rparr>)"
  "map_of (ms_executions demo_skip) 2 = Some demo_retry"
  "HasActiveExecution demo_skip (demo_uuid 7) 2"
  "ms_nextExecutionID demo_skip = 2" "ms_nextAttemptID demo_skip = 0"
  by (simp_all add: demo_skip_defs demo_retry_def HasActiveExecution_def unixNano_def int64_def inLease_def)

lemma demo_skip_inv: "store_inv demo_skip"
proof -
  have "store_step demo_store demo_skip1"
    by (rule store_step.upsert_job [of _ "Some demo_skip_job"])
      (simp_all add: demo_skip_defs upsert_ok_def fresh_uuid_def)
  moreover have "store_step demo_skip1 demo_skip2" "store_step demo_skip2 demo_skip"
    subgoal by (rule store_step.create_execution [where j = "demo_uuid 7" and t = 100 and st = StateRunning and b = False],
        simp_all add: demo_skip_defs)
    subgoal by (rule store_step.create_execution [where j = "demo_uuid 7" and t = 200 and st = StateRetryWait and b = False],
        simp_all add: demo_skip_defs unixNano_def int64_def)
    done
  ultimately have "store_run 3 demo_store demo_skip"
    by (simp add: numeral_3_eq_3) (blast intro: store_run.intros)
  then show ?thesis
    using NewStore_inv [of 0 0 "\<lambda>n. 1000 + int n"] by (auto simp: demo_store_def intro: store_run_inv)
qed

definition demo_spinning :: engine where
  "demo_spinning = (demo_engine_over demo_skip)\<lparr>e_running := True, e_stopping := False, e_clock := \<lambda>_. 300\<rparr>"

lemma demo_skip_due: "DueExecutions demo_skip 300 limit = Some [demo_retry]"
proof -
  have "ms_executionsOrdered demo_skip = [1, 2]" "map_of (ms_executions demo_skip) 1 \<noteq> None"
      "map_option x_State (map_of (ms_executions demo_skip) 1) = Some StateRunning"
    by (simp_all add: demo_skip_defs unixNano_def int64_def)
  then have "orderedExecutions demo_skip = Some [the (map_of (ms_executions demo_skip) 1), demo_retry]"
      "x_State (the (map_of (ms_executions demo_skip) 1)) = StateRunning"
    by (auto simp: orderedExecutions_def demo_skip_values)
  moreover have "executionDue demo_retry 300" by (simp add: demo_retry_def)
  ultimately show ?thesis by (simp add: DueExecutions_def capped_def)
qed

theorem overlap_skip_refuses_retry_witness:
  "\<exists>e'. timingTurn demo_spinning = Some (Some (Some 0), e')
    \<and> map_of (ms_executions (e_mem e')) 2 = Some demo_retry
    \<and> mt_SkippedOverlaps (e_metrics e') = mt_SkippedOverlaps (e_metrics demo_spinning) + 1"
proof -
  let ?e = "demo_spinning" and ?j = "demo_skip_job\<lparr>j_Version := 1, j_CreatedAt := 1000, j_UpdatedAt := 1000\<rparr>"
  have m: "e_mem ?e = demo_skip" by (simp add: demo_spinning_def)
  have "engine_ok 1 ?e"
    by (simp add: engine_ok_def registry_inv_New demo_skip_inv room_def demo_skip_values demo_spinning_def)
  moreover have "x_JobID demo_retry = demo_uuid 7" "x_ID demo_retry = 2" "x_State demo_retry = StateRetryWait"
    by (simp_all add: demo_retry_def)
  moreover from this have "blockedRetry (e_mem ?e) demo_retry ?j"
    by (simp add: blockedRetry_def m demo_skip_values) (simp add: demo_skip_job_def demo_job_def)
  moreover have "DueExecutions (e_mem ?e) (e_clock ?e (e_ticks ?e)) (cf_DispatchBatch (e_cfg ?e)) = Some [demo_retry]"
    unfolding m by (simp add: demo_spinning_def demo_skip_due)
  ultimately show ?thesis
    using overlap_skip_refuses_retry [of ?e demo_retry ?j]
    by (auto simp: demo_spinning_def blockedRetry_def)
qed

end
