(* ===== verification/Result_Race.thy ===== *)
theory Result_Race
  imports Result_Waiters Engine_Results
begin

text \<open>
  The two ends of a result delivery composed: the submission of \<open>Client.UpsertJob\<close>
  (\<open>yascheduler/jobs.go\<close>, \<open>results.go\<close>) and the engine that holds the result
  (\<open>yascheduler/engine/handlers.go\<close>). An upsert of an existing key opens its waiter under a fresh
  identity and adopts the stored one only after the acknowledgement has reached its goroutine, while
  the read loop goes on handling deliveries.
\<close>

lemma opened_waiter:
  assumes "openWaiter r v ResultModeDeliver = (s, r')"
  shows "sb_JobUUID s = v" "sb_results s = Some (rr_next r)" "\<not> sb_closed s" "rr_chans r' (rr_next r) = None"
    "map_of (rr_waiters r') = (map_of (rr_waiters r))(v \<mapsto> rr_next r)"
  using assms by (auto simp: openWaiter_def Let_def AList.update_conv')

lemma delivery_refused:
  assumes "map_of (rr_waiters r) (rd_JobUUID d) = None"
  shows "handleResultDelivery r d
     = (ResultDeliveryAckMsg \<lparr>rk_JobUUID = rd_JobUUID d, rk_Accepted = False\<rparr>, r)"
  using assms by (simp add: handleResultDelivery_def deliver_def)

lemma adopted_waiter:
  assumes "sb_JobUUID s = v" "sb_results s = Some ch" "map_of (rr_waiters r) v = Some ch" "u \<noteq> v"
  shows "fst (adopt r s u) = s\<lparr>sb_JobUUID := u\<rparr>" "rr_chans (snd (adopt r s u)) = rr_chans r"
    "map_of (rr_waiters (snd (adopt r s u))) u = Some ch"
  using assms by (auto simp: adopt_def rekey_def AList.update_conv' AList.delete_conv')

lemma owner_ack_removes:
  assumes inv: "store_inv (e_mem e)" and rel: "reliable e" and ack: "HandleResultAck e inst ack = Some e'"
    and p: "map_of (ms_results (e_mem e)) (rk_JobUUID ack) = Some p" "r_InstanceID p = inst"
  shows "map_of (ms_results (e_mem e')) (rk_JobUUID ack) = None"
proof -
  obtain owned e1 where o: "resultOwnedBy e (rk_JobUUID ack) inst = Some (owned, e1)"
    using ack by (auto simp: HandleResultAck_def split: bind_splits)
  have owned by (rule resultOwnedBy_cases(3) [OF o inv rel p])
  moreover have "e_mem e1 = e_mem e" "e_fault e1 = e_fault e" using resultOwnedBy_cases(1) [OF o inv] by auto
  ultimately show ?thesis
    using ack o rel
    by (auto simp: HandleResultAck_def remove_def Let_def split_def DeleteResult_drops split: bind_splits if_splits sum.splits)
qed

text \<open>C9. A result that arrives before the submission has adopted the stored identity is lost. The
  waiter of a re-upsert stands under its fresh identity \<open>v\<close> while the engine delivers under the stored
  one \<open>u\<close>: the delivery finds no waiter, the refusing acknowledgement makes the engine drop the held
  result, and the submission, which then adopts \<open>u\<close>, waits for as long as its context lasts. The same
  delivery handled after the adoption is accepted, and is what the wait returns.\<close>

theorem reupsert_may_lose_result:
  assumes opened: "openWaiter r v ResultModeDeliver = (s, r1)" and ids: "u \<noteq> v" "rd_JobUUID d = u"
    and unheard: "map_of (rr_waiters r) u = None"
    and inv: "store_inv (e_mem e)" and rel: "reliable e"
    and held: "map_of (ms_results (e_mem e)) u = Some p" "r_InstanceID p = inst"
    and early: "handleResultDelivery r1 d = (ResultDeliveryAckMsg ack, r2)" and ack: "HandleResultAck e inst ack = Some e'"
  shows "\<not> rk_Accepted ack \<and> map_of (ms_results (e_mem e')) u = None
    \<and> Await (snd (adopt r2 s u)) (fst (adopt r2 s u)) False picks = (None, adopt r2 s u)
    \<and> (let (s', r') = adopt r1 s u; (reply, r'') = handleResultDelivery r' d
       in reply = ResultDeliveryAckMsg \<lparr>rk_JobUUID = u, rk_Accepted = True\<rparr>
        \<and> (\<exists>res. fst (Await r'' s' False picks) = Some (Inr res) \<and> rs_JobUUID res = u
             \<and> rs_ExecutionID res = rd_ExecutionID d \<and> rs_Payload res = rd_Result d))"
proof -
  note s = opened_waiter [OF opened]
  have "map_of (rr_waiters r1) (rd_JobUUID d) = None" using s(5) ids unheard by simp
  from delivery_refused [OF this] early ids have a: "ack = \<lparr>rk_JobUUID = u, rk_Accepted = False\<rparr>" "r2 = r1" by simp_all
  have gone: "map_of (ms_results (e_mem e')) u = None"
    using owner_ack_removes [OF inv rel ack, of p] held a by simp
  have reg: "map_of (rr_waiters r1) v = Some (rr_next r)" using s(5) by simp
  note ad = adopted_waiter [OF s(1,2) reg ids(1)]
  obtain s' r' where sr: "adopt r1 s u = (s', r')" by (cases "adopt r1 s u")
  with ad s(2-4) have sr': "sb_results s' = Some (rr_next r)" "\<not> sb_closed s'" "rr_chans r' (rr_next r) = None"
    "map_of (rr_waiters r') u = Some (rr_next r)" by auto
  have "Await r' s' False picks = (None, s', r')"
    using sr' by (simp add: Await_def awaitCheck_def awaitPoll_def awaitSelect_def)
  moreover have "\<exists>res. fst (Await (snd (handleResultDelivery r' d)) s' False picks) = Some (Inr res) \<and> rs_JobUUID res = u
             \<and> rs_ExecutionID res = rd_ExecutionID d \<and> rs_Payload res = rd_Result d"
    using sr' ids by (simp add: handleResultDelivery_def deliver_def offer_def Await_def awaitCheck_def awaitPoll_def
        closeSubmission_def)
  moreover have "fst (handleResultDelivery r' d) = ResultDeliveryAckMsg \<lparr>rk_JobUUID = u, rk_Accepted = True\<rparr>"
    using sr' ids by (simp add: handleResultDelivery_def deliver_def)
  ultimately show ?thesis using a gone sr by (simp add: split_def)
qed

definition demo_delivery :: resultDeliveryMsg where
  "demo_delivery = \<lparr>rd_JobUUID = demo_uuid 7, rd_ExecutionID = 1, rd_Success = True, rd_HasValue = False,
     rd_Result = [], rd_Error = None\<rparr>"

theorem reupsert_may_lose_result_witness:
  "\<exists>e'. HandleResultAck (demo_engine_over demo_held) ''me'' \<lparr>rk_JobUUID = demo_uuid 7, rk_Accepted = False\<rparr> = Some e'
    \<and> map_of (ms_results demo_held) (demo_uuid 7) \<noteq> None
    \<and> map_of (ms_results (e_mem e')) (demo_uuid 7) = None"
proof -
  let ?e = "demo_engine_over demo_held" and ?m = "\<lparr>rk_JobUUID = demo_uuid 7, rk_Accepted = False\<rparr>"
  have inv: "store_inv (e_mem ?e)" by (simp add: demo_held_inv)
  then have "engine_ok 0 ?e" by (simp add: engine_ok_def room_0 registry_inv_New)
  then obtain e' where e': "HandleResultAck ?e ''me'' ?m = Some e'"
    using HandleResultAck_returns [of ?e "''me''" ?m] by (auto simp: returnsBy_def)
  obtain p where p: "map_of (ms_results (e_mem ?e)) (demo_uuid 7) = Some p" "r_InstanceID p = ''me''"
    by (simp add: demo_held_def StoreResult_def NewStore_def Let_def readClock_def DefaultMaxResults_def
        DefaultMaxResultsPerInstance_def lookupSlice_def)
  obtain s r1 where o: "openWaiter NewResultRegistry (demo_uuid 8) ResultModeDeliver = (s, r1)"
    by (cases "openWaiter NewResultRegistry (demo_uuid 8) ResultModeDeliver")
  have "map_of (rr_waiters NewResultRegistry) (demo_uuid 7) = None" by (simp add: NewResultRegistry_def)
  moreover have "demo_uuid 7 \<noteq> demo_uuid 8" "rd_JobUUID demo_delivery = demo_uuid 7"
    by (simp_all add: demo_uuid_def demo_delivery_def)
  moreover have "handleResultDelivery r1 demo_delivery = (ResultDeliveryAckMsg ?m, r1)"
    using delivery_refused [of r1 demo_delivery] opened_waiter(5) [OF o] calculation by simp
  moreover have "reliable ?e" by simp
  ultimately have "map_of (ms_results (e_mem e')) (demo_uuid 7) = None"
    using reupsert_may_lose_result [OF o _ _ _ inv _ p _ e', of demo_delivery r1] by simp
  with e' p show ?thesis by auto
qed

end
