(* ===== verification/Executor_Runtime.thy ===== *)
theory Executor_Runtime
  imports Executor_Functions Messages
begin

text \<open>
  The runtime that runs an executor's functions (\<open>yascheduler/runtime.go\<close>): admission against
  capacity, the shutdown latch and the drain, and the registry of cancel functions.

  Each request has a goroutine, and each goroutine a \<open>phase\<close>: where \<open>handleExecRequest\<close> and then
  \<open>runExecution\<close> with its deferred calls have got to. \<open>advanceRun\<close> takes one goroutine to its next
  phase, with what happens under one lock, or at one channel operation, as one step. A process is a
  runtime with its goroutines, its drains and its cancellations under way, and a run is a sequence of
  operations in any order.

  The number of a goroutine also names its context, and the sink records it with each message it
  takes. Whether the sink takes a message is part of the operation, and so is \<open>'w\<close>, what a function
  sees beyond its context; a function is taken to return. Logging is left out, and \<open>quote\<close> stands for
  the verb \<open>%q\<close> of \<open>fmt\<close>.
\<close>

section \<open>The runtime\<close>

record invocation =
  iv_JobUUID :: jobUUID
  iv_ExecutionID :: executionID
  iv_AttemptID :: attemptID
  iv_AttemptNumber :: u32
  iv_Function :: functionSpec

text \<open>A context made for one invocation: its timeout in nanoseconds, if any, and the invocation.\<close>

record runContext =
  rc_timeout :: "int option"
  rc_invocation :: invocation

definition InvocationFromContext :: "runContext option \<Rightarrow> invocation option" where
  "InvocationFromContext ctx = map_option rc_invocation ctx"

type_synonym cancelToken = "64 word"
type_synonym goroutine = nat
type_synonym idleChan = nat

record 'w executorRuntime =
  rt_registry :: "(runContext \<times> 'w) functionRegistry"
  rt_sunk :: "(goroutine \<times> message) list"
  rt_stopping :: bool
  rt_invocation :: cancelToken
  rt_capacity :: nat
  rt_slots :: nat
  rt_cancels :: "(executionID, (cancelToken, goroutine) alist) alist"
  rt_execCount :: int
  rt_execIdle :: "idleChan option"
  rt_closedIdle :: "idleChan set"
  rt_nextIdle :: idleChan
  rt_cancelled :: "goroutine set"

definition newRuntime :: "(runContext \<times> 'w) functionRegistry \<Rightarrow> nat \<Rightarrow> 'w executorRuntime" where
  "newRuntime fr capacity = \<lparr>rt_registry = fr, rt_sunk = [], rt_stopping = False, rt_invocation = 0,
     rt_capacity = capacity, rt_slots = 0, rt_cancels = [], rt_execCount = 0, rt_execIdle = None,
     rt_closedIdle = {}, rt_nextIdle = 0, rt_cancelled = {}\<rparr>"

definition beginShutdown :: "'w executorRuntime \<Rightarrow> 'w executorRuntime" where
  "beginShutdown r = r\<lparr>rt_stopping := True\<rparr>"

definition beginExecution :: "'w executorRuntime \<Rightarrow> bool \<times> 'w executorRuntime" where
  "beginExecution r =
     (if rt_stopping r then (False, r) else (True, r\<lparr>rt_execCount := rt_execCount r + 1\<rparr>))"

definition endExecution :: "'w executorRuntime \<Rightarrow> 'w executorRuntime" where
  "endExecution r =
     (let r = r\<lparr>rt_execCount := rt_execCount r - 1\<rparr> in
      case rt_execIdle r of
        Some ch \<Rightarrow>
          if rt_execCount r = 0 then r\<lparr>rt_closedIdle := insert ch (rt_closedIdle r), rt_execIdle := None\<rparr> else r
      | None \<Rightarrow> r)"

definition trackCancel :: "'w executorRuntime \<Rightarrow> executionID \<Rightarrow> goroutine \<Rightarrow> cancelToken \<times> 'w executorRuntime" where
  "trackCancel r x cancel =
     (let token = rt_invocation r + 1;
          invocations = (case map_of (rt_cancels r) x of None \<Rightarrow> [] | Some invocations \<Rightarrow> invocations)
      in (token, r\<lparr>rt_invocation := token,
            rt_cancels := AList.update x (AList.update token cancel invocations) (rt_cancels r)\<rparr>))"

definition untrackCancel :: "'w executorRuntime \<Rightarrow> executionID \<Rightarrow> cancelToken \<Rightarrow> 'w executorRuntime" where
  "untrackCancel r x token =
     (case map_of (rt_cancels r) x of
        None \<Rightarrow> r
      | Some invocations \<Rightarrow>
          let invocations = AList.delete token invocations in
          if invocations = [] then r\<lparr>rt_cancels := AList.delete x (rt_cancels r)\<rparr>
          else r\<lparr>rt_cancels := AList.update x invocations (rt_cancels r)\<rparr>)"

text \<open>\<open>cancelExecution\<close> collects the cancel functions under the lock and calls them after it.\<close>

definition cancelExecution :: "'w executorRuntime \<Rightarrow> executionID \<Rightarrow> goroutine list" where
  "cancelExecution r x = (case map_of (rt_cancels r) x of None \<Rightarrow> [] | Some invocations \<Rightarrow> map snd invocations)"

definition cancelContext :: "'w executorRuntime \<Rightarrow> goroutine \<Rightarrow> 'w executorRuntime" where
  "cancelContext r i = r\<lparr>rt_cancelled := insert i (rt_cancelled r)\<rparr>"

definition sink :: "goroutine \<Rightarrow> bool \<Rightarrow> 'w executorRuntime \<Rightarrow> message \<Rightarrow> 'w executorRuntime" where
  "sink i ok r msg = (if ok then r\<lparr>rt_sunk := rt_sunk r @ [(i, msg)]\<rparr> else r)"

section \<open>One request\<close>

type_synonym 'w prepared = "(runContext \<times> 'w) preparedFunction"

datatype 'w phase =
    Arrived execRequestMsg
  | Rejecting execRequestMsg wireError
  | HasSlot execRequestMsg "'w prepared"
  | Refused execRequestMsg
  | Admitted execRequestMsg "'w prepared"
  | Unheard execRequestMsg
  | Dropping execRequestMsg
  | Accepted execRequestMsg "'w prepared"
  | Running execRequestMsg "'w prepared" runContext cancelToken
  | Ran execRequestMsg "byte_list option" "wireError option" cancelToken
  | Reported execRequestMsg cancelToken
  | Untracked execRequestMsg
  | Cancelled execRequestMsg
  | Released execRequestMsg
  | Finished execRequestMsg

definition execAccept :: "execRequestMsg \<Rightarrow> message" where
  "execAccept req = ExecAcceptMsg \<lparr>ea_ExecutionID = eq_ExecutionID req, ea_AttemptID = eq_AttemptID req,
     ea_Accepted = True, ea_Error = None\<rparr>"

definition rejectExecution :: "execRequestMsg \<Rightarrow> wireError \<Rightarrow> message" where
  "rejectExecution req cause = ExecAcceptMsg \<lparr>ea_ExecutionID = eq_ExecutionID req, ea_AttemptID = eq_AttemptID req,
     ea_Accepted = False, ea_Error = Some cause\<rparr>"

definition execResult :: "execRequestMsg \<Rightarrow> byte_list option \<Rightarrow> wireError option \<Rightarrow> message" where
  "execResult req payload wireErr = ExecResultMsg \<lparr>er_ExecutionID = eq_ExecutionID req,
     er_AttemptID = eq_AttemptID req, er_Success = (wireErr = None), er_HasValue = (payload \<noteq> None),
     er_Result = (case payload of None \<Rightarrow> [] | Some bs \<Rightarrow> bs), er_Error = wireErr\<rparr>"

definition unknownFunction :: "(string \<Rightarrow> string) \<Rightarrow> functionSpec \<Rightarrow> wireError" where
  "unknownFunction quote f = \<lparr>e_Code = ErrorCodeUnknownFunction, e_Retryable = False,
     e_Message = ''function '' @ quote (f_Name f) @ '' '' @ quote (f_Version f) @ '' not registered''\<rparr>"

definition incompatibleFunction :: wireError where
  "incompatibleFunction = \<lparr>e_Code = ErrorCodeIncompatibleFunction, e_Retryable = False,
     e_Message = ''function signature mismatch''\<rparr>"

definition capacityExhausted :: wireError where
  "capacityExhausted = \<lparr>e_Code = ErrorCodeCapacityExhausted, e_Retryable = True,
     e_Message = ''executor capacity exhausted''\<rparr>"

definition shuttingDown :: wireError where
  "shuttingDown = \<lparr>e_Code = ErrorCodeShuttingDown, e_Retryable = True,
     e_Message = ''executor is shutting down''\<rparr>"

definition contextFor :: "execRequestMsg \<Rightarrow> runContext" where
  "contextFor req = \<lparr>
     rc_timeout = (if eq_TimeoutMillis req > 0 then Some (uint (eq_TimeoutMillis req) * 1000000) else None),
     rc_invocation = \<lparr>iv_JobUUID = eq_JobUUID req, iv_ExecutionID = eq_ExecutionID req,
       iv_AttemptID = eq_AttemptID req, iv_AttemptNumber = eq_AttemptNumber req, iv_Function = eq_Function req\<rparr>\<rparr>"

text \<open>A receive from \<open>execSlots\<close> with no slot taken blocks: the goroutine stays where it is.\<close>

definition freeSlot :: "'w phase \<Rightarrow> 'w phase \<Rightarrow> 'w executorRuntime \<Rightarrow> 'w phase \<times> 'w executorRuntime" where
  "freeSlot here after r = (if rt_slots r = 0 then (here, r) else (after, r\<lparr>rt_slots := rt_slots r - 1\<rparr>))"

definition admit :: "(string \<Rightarrow> string) \<Rightarrow> execRequestMsg \<Rightarrow> 'w executorRuntime \<Rightarrow> 'w phase \<times> 'w executorRuntime" where
  "admit quote req r =
     (case lookupFunction (rt_registry r) (f_Name (eq_Function req)) (f_Version (eq_Function req)) of
        None \<Rightarrow> (Rejecting req (unknownFunction quote (eq_Function req)), r)
      | Some prepared \<Rightarrow>
          if \<not> functionCompatible (eq_Function req) (pf_spec prepared) then (Rejecting req incompatibleFunction, r)
          else if rt_slots r < rt_capacity r then (HasSlot req prepared, r\<lparr>rt_slots := rt_slots r + 1\<rparr>)
          else (Rejecting req capacityExhausted, r))"

fun advanceRun ::
  "(string \<Rightarrow> string) \<Rightarrow> goroutine \<Rightarrow> bool \<Rightarrow> 'w \<Rightarrow> 'w phase \<Rightarrow> 'w executorRuntime \<Rightarrow> 'w phase \<times> 'w executorRuntime" where
  "advanceRun quote i ok w (Arrived req) r = admit quote req r"
| "advanceRun quote i ok w (Rejecting req cause) r = (Finished req, sink i ok r (rejectExecution req cause))"
| "advanceRun quote i ok w (HasSlot req prepared) r =
     (let (admitted, r) = beginExecution r in (if admitted then Admitted req prepared else Refused req, r))"
| "advanceRun quote i ok w (Refused req) r = freeSlot (Refused req) (Rejecting req shuttingDown) r"
| "advanceRun quote i ok w (Admitted req prepared) r =
     (if ok then Accepted req prepared else Unheard req, sink i ok r (execAccept req))"
| "advanceRun quote i ok w (Unheard req) r = (Dropping req, endExecution r)"
| "advanceRun quote i ok w (Dropping req) r = freeSlot (Dropping req) (Finished req) r"
| "advanceRun quote i ok w (Accepted req prepared) r =
     (let (token, r) = trackCancel r (eq_ExecutionID req) i in (Running req prepared (contextFor req) token, r))"
| "advanceRun quote i ok w (Running req prepared ctx token) r =
     (let (payload, wireErr) = pf_invoke prepared (ctx, w) (eq_Args req) in (Ran req payload wireErr token, r))"
| "advanceRun quote i ok w (Ran req payload wireErr token) r =
     (Reported req token, sink i ok r (execResult req payload wireErr))"
| "advanceRun quote i ok w (Reported req token) r = (Untracked req, untrackCancel r (eq_ExecutionID req) token)"
| "advanceRun quote i ok w (Untracked req) r = (Cancelled req, cancelContext r i)"
| "advanceRun quote i ok w (Cancelled req) r = freeSlot (Cancelled req) (Released req) r"
| "advanceRun quote i ok w (Released req) r = (Finished req, endExecution r)"
| "advanceRun quote i ok w (Finished req) r = (Finished req, r)"

section \<open>A process\<close>

datatype drain = DrainWaiting idleChan | DrainDone bool

definition awaitExecutions :: "'w executorRuntime \<Rightarrow> drain \<times> 'w executorRuntime" where
  "awaitExecutions r =
     (if rt_execCount r = 0 then (DrainDone True, r)
      else (case rt_execIdle r of
              Some idle \<Rightarrow> (DrainWaiting idle, r)
            | None \<Rightarrow> (DrainWaiting (rt_nextIdle r),
                       r\<lparr>rt_execIdle := Some (rt_nextIdle r), rt_nextIdle := rt_nextIdle r + 1\<rparr>)))"

text \<open>The select of a drain: the closed channel, or the timer if it has fired; with both, either.\<close>

definition drainSelect :: "bool \<Rightarrow> bool \<Rightarrow> 'w executorRuntime \<Rightarrow> drain \<Rightarrow> drain" where
  "drainSelect timerFired picksTimer r d =
     (case d of
        DrainDone b \<Rightarrow> DrainDone b
      | DrainWaiting idle \<Rightarrow>
          if idle \<in> rt_closedIdle r then DrainDone (\<not> (timerFired \<and> picksTimer))
          else if timerFired then DrainDone False else DrainWaiting idle)"

record 'w process =
  pr_runtime :: "'w executorRuntime"
  pr_threads :: "'w phase list"
  pr_drains :: "drain list"
  pr_cancels :: "goroutine list"

datatype 'w runtimeOp =
    OpRequest execRequestMsg
  | OpAdvance goroutine bool 'w
  | OpCancel executionID
  | OpCallCancel
  | OpShutdown
  | OpAwaitDrain
  | OpDrainSelect nat bool bool

fun runtime_step :: "(string \<Rightarrow> string) \<Rightarrow> 'w runtimeOp \<Rightarrow> 'w process \<Rightarrow> 'w process" where
  "runtime_step quote (OpRequest req) p = p\<lparr>pr_threads := pr_threads p @ [Arrived req]\<rparr>"
| "runtime_step quote (OpAdvance i ok w) p =
     (if i < length (pr_threads p)
      then let (ph, r) = advanceRun quote i ok w (pr_threads p ! i) (pr_runtime p)
           in p\<lparr>pr_threads := (pr_threads p)[i := ph], pr_runtime := r\<rparr>
      else p)"
| "runtime_step quote (OpCancel x) p = p\<lparr>pr_cancels := pr_cancels p @ cancelExecution (pr_runtime p) x\<rparr>"
| "runtime_step quote OpCallCancel p =
     (case pr_cancels p of
        [] \<Rightarrow> p
      | i # js \<Rightarrow> p\<lparr>pr_cancels := js, pr_runtime := cancelContext (pr_runtime p) i\<rparr>)"
| "runtime_step quote OpShutdown p = p\<lparr>pr_runtime := beginShutdown (pr_runtime p)\<rparr>"
| "runtime_step quote OpAwaitDrain p =
     (let (d, r) = awaitExecutions (pr_runtime p) in p\<lparr>pr_drains := pr_drains p @ [d], pr_runtime := r\<rparr>)"
| "runtime_step quote (OpDrainSelect j timerFired picksTimer) p =
     (if j < length (pr_drains p)
      then p\<lparr>pr_drains := (pr_drains p)[j := drainSelect timerFired picksTimer (pr_runtime p) (pr_drains p ! j)]\<rparr>
      else p)"

definition runtime_run :: "(string \<Rightarrow> string) \<Rightarrow> 'w runtimeOp list \<Rightarrow> 'w process \<Rightarrow> 'w process" where
  "runtime_run quote ops p = fold (runtime_step quote) ops p"

definition newProcess :: "(runContext \<times> 'w) functionRegistry \<Rightarrow> nat \<Rightarrow> 'w process" where
  "newProcess fr capacity = \<lparr>pr_runtime = newRuntime fr capacity, pr_threads = [], pr_drains = [], pr_cancels = []\<rparr>"

inductive reachable :: "(string \<Rightarrow> string) \<Rightarrow> (runContext \<times> 'w) functionRegistry \<Rightarrow> nat \<Rightarrow> 'w process \<Rightarrow> bool"
  for quote fr capacity where
  started: "reachable quote fr capacity (newProcess fr capacity)"
| stepped: "reachable quote fr capacity p \<Longrightarrow> reachable quote fr capacity (runtime_step quote op p)"

end
