(* ===== verification/Executor_Runtime_Inv.thy ===== *)
theory Executor_Runtime_Inv
  imports Executor_Runtime
begin

text \<open>
  What holds of an executor's runtime whatever the order its goroutines run in: the slots taken and
  the executions counted are those of the goroutines that hold them, and the registry of cancel
  functions has exactly the invocations under way.
\<close>

section \<open>What a goroutine holds\<close>

fun holdsSlot :: "'w phase \<Rightarrow> bool" where
  "holdsSlot (Arrived _) = False" | "holdsSlot (Rejecting _ _) = False" | "holdsSlot (Released _) = False"
| "holdsSlot (Finished _) = False" | "holdsSlot _ = True"

fun counted :: "'w phase \<Rightarrow> bool" where
  "counted (Arrived _) = False" | "counted (Rejecting _ _) = False" | "counted (HasSlot _ _) = False"
| "counted (Refused _) = False" | "counted (Dropping _) = False" | "counted (Finished _) = False"
| "counted _ = True"

fun running :: "'w phase \<Rightarrow> bool" where
  "running (Running _ _ _ _) = True" | "running _ = False"

text \<open>A goroutine that may yet mint a token.\<close>

fun untokened :: "'w phase \<Rightarrow> bool" where
  "untokened (Arrived _) = True" | "untokened (HasSlot _ _) = True" | "untokened (Admitted _ _) = True"
| "untokened (Accepted _ _) = True" | "untokened _ = False"

fun tracked :: "'w phase \<Rightarrow> (executionID \<times> cancelToken) option" where
  "tracked (Running req _ _ token) = Some (eq_ExecutionID req, token)"
| "tracked (Ran req _ _ token) = Some (eq_ExecutionID req, token)"
| "tracked (Reported req token) = Some (eq_ExecutionID req, token)"
| "tracked _ = None"

lemma running_holds: "running ph \<Longrightarrow> holdsSlot ph"
  by (cases ph) simp_all

lemma tracked_untokened: "tracked ph = Some xt \<Longrightarrow> \<not> untokened ph"
  by (cases ph) simp_all

definition tally :: "('a \<Rightarrow> bool) \<Rightarrow> 'a list \<Rightarrow> nat" where
  "tally P xs = length (filter P xs)"

lemma tally_simps [simp]: "tally P [] = 0" "tally P (xs @ [x]) = tally P xs + (if P x then 1 else 0)"
  by (simp_all add: tally_def)

lemma tally_update:
  "i < length xs \<Longrightarrow> tally P (xs[i := x]) + (if P (xs ! i) then 1 else 0) = tally P xs + (if P x then 1 else 0)"
proof (induction xs arbitrary: i)
  case (Cons a xs)
  then show ?case by (cases i) (auto simp: tally_def)
qed simp

lemma tally_pos: "i < length xs \<Longrightarrow> P (xs ! i) \<Longrightarrow> 0 < tally P xs"
  by (auto simp: tally_def filter_empty_conv)

lemma tally_mono: "(\<And>x. P x \<Longrightarrow> Q x) \<Longrightarrow> tally P xs \<le> tally Q xs"
  unfolding tally_def by (induction xs) auto

lemma tally_le: "tally P xs \<le> length xs"
  by (simp add: tally_def)

section \<open>The registry of cancel functions\<close>

definition trackedAs :: "'w executorRuntime \<Rightarrow> executionID \<Rightarrow> cancelToken \<Rightarrow> goroutine option" where
  "trackedAs r x token = (case map_of (rt_cancels r) x of None \<Rightarrow> None | Some invs \<Rightarrow> map_of invs token)"

definition cancels_tidy :: "'w executorRuntime \<Rightarrow> bool" where
  "cancels_tidy r \<longleftrightarrow> (\<forall>x invs. map_of (rt_cancels r) x = Some invs \<longrightarrow> invs \<noteq> [] \<and> distinct (map fst invs))"

lemma trackCancel_tracks:
  assumes "trackCancel r x i = (token, r')"
  shows "token = rt_invocation r + 1" "rt_invocation r' = token"
    "trackedAs r' y t = (if y = x \<and> t = token then Some i else trackedAs r y t)"
  using assms by (cases "y = x"; cases "map_of (rt_cancels r) x";
      auto simp: trackCancel_def Let_def trackedAs_def AList.update_conv')+

lemma trackCancel_tidy: "cancels_tidy r \<Longrightarrow> cancels_tidy (snd (trackCancel r x i))"
  by (auto simp: trackCancel_def Let_def cancels_tidy_def AList.update_conv' distinct_update split: option.split if_splits)

lemma untrackCancel_tracks:
  "trackedAs (untrackCancel r x token) y t = (if y = x \<and> t = token then None else trackedAs r y t)"
proof (cases "map_of (rt_cancels r) x")
  case None
  then show ?thesis by (auto simp: untrackCancel_def trackedAs_def)
next
  case (Some invs)
  have "map_of invs t = None" if "AList.delete token invs = []" "t \<noteq> token"
    using that AList.delete_conv' [of token invs] by (metis fun_upd_apply map_of.simps(1))
  with Some show ?thesis
    by (auto simp: untrackCancel_def Let_def trackedAs_def AList.update_conv' AList.delete_conv')
qed

lemma untrackCancel_tidy: "cancels_tidy r \<Longrightarrow> cancels_tidy (untrackCancel r x token)"
  by (auto simp: untrackCancel_def Let_def cancels_tidy_def AList.update_conv' AList.delete_conv' AList.distinct_delete
      split: option.split if_splits)

lemma cancelExecution_tracked:
  assumes "cancels_tidy r"
  shows "set (cancelExecution r x) = {i. \<exists>token. trackedAs r x token = Some i}"
proof (cases "map_of (rt_cancels r) x")
  case (Some invs)
  then have "distinct (map fst invs)" using assms by (auto simp: cancels_tidy_def)
  then have "(t, i) \<in> set invs \<longleftrightarrow> map_of invs t = Some i" for t i by simp
  with Some show ?thesis by (force simp: cancelExecution_def trackedAs_def image_iff)
qed (simp add: cancelExecution_def trackedAs_def)

section \<open>The invariant\<close>

definition idle_ok :: "'w executorRuntime \<Rightarrow> bool" where
  "idle_ok r \<longleftrightarrow> (\<forall>ch. rt_execIdle r = Some ch \<longrightarrow> ch < rt_nextIdle r \<and> ch \<notin> rt_closedIdle r \<and> rt_execCount r \<noteq> 0)
     \<and> (\<forall>ch \<in> rt_closedIdle r. ch < rt_nextIdle r)"

definition tokens_ok :: "'w process \<Rightarrow> bool" where
  "tokens_ok p \<longleftrightarrow> cancels_tidy (pr_runtime p)
     \<and> unat (rt_invocation (pr_runtime p)) + tally untokened (pr_threads p) \<le> length (pr_threads p)
     \<and> (\<forall>i < length (pr_threads p). \<forall>x t. tracked (pr_threads p ! i) = Some (x, t) \<longrightarrow> unat t \<le> unat (rt_invocation (pr_runtime p)))
     \<and> (\<forall>x t i. trackedAs (pr_runtime p) x t = Some i \<longleftrightarrow>
          i < length (pr_threads p) \<and> tracked (pr_threads p ! i) = Some (x, t))"

definition slots_ok :: "'w process \<Rightarrow> bool" where
  "slots_ok p \<longleftrightarrow> rt_slots (pr_runtime p) = tally holdsSlot (pr_threads p)
     \<and> rt_slots (pr_runtime p) \<le> rt_capacity (pr_runtime p)
     \<and> rt_execCount (pr_runtime p) = int (tally counted (pr_threads p)) \<and> idle_ok (pr_runtime p)"

text \<open>What a step of a goroutine leaves alone, and the ways it changes the counts.\<close>

lemma advance_counts:
  assumes "advanceRun quote i ok w ph r = (ph', r')" and "holdsSlot ph \<Longrightarrow> 0 < rt_slots r" and "rt_slots r \<le> rt_capacity r"
  shows "rt_slots r' + (if holdsSlot ph then 1 else 0) = rt_slots r + (if holdsSlot ph' then 1 else 0)"
    and "rt_slots r' \<le> rt_capacity r'" "rt_capacity r' = rt_capacity r"
    and "rt_execCount r' + (if counted ph then 1 else 0) = rt_execCount r + (if counted ph' then 1 else 0)"
  using assms
  by (cases ph; auto simp: admit_def freeSlot_def beginExecution_def endExecution_def trackCancel_def untrackCancel_def
      cancelContext_def sink_def Let_def split_def split: option.splits if_splits prod.splits)+

lemma advance_idle:
  assumes "advanceRun quote i ok w ph r = (ph', r')" and "idle_ok r" and "0 \<le> rt_execCount r"
  shows "idle_ok r'"
  using assms
  by (cases ph) (auto simp: idle_ok_def admit_def freeSlot_def beginExecution_def endExecution_def trackCancel_def
      untrackCancel_def cancelContext_def sink_def Let_def split_def split: option.splits if_splits prod.splits)

lemma awaitExecutions_fields:
  assumes "awaitExecutions r = (d, r')"
  shows "rt_slots r' = rt_slots r" "rt_capacity r' = rt_capacity r" "rt_execCount r' = rt_execCount r"
    "rt_cancels r' = rt_cancels r" "rt_invocation r' = rt_invocation r" "rt_stopping r' = rt_stopping r"
    "rt_sunk r' = rt_sunk r" "rt_registry r' = rt_registry r" "rt_cancelled r' = rt_cancelled r"
    "idle_ok r \<Longrightarrow> idle_ok r'"
  using assms by (auto simp: awaitExecutions_def idle_ok_def less_Suc_eq split: option.splits if_splits)

lemma runtime_step_slots:
  assumes "slots_ok p"
  shows "slots_ok (runtime_step quote op p)"
proof (cases op)
  case (OpAdvance i ok w)
  show ?thesis
  proof (cases "i < length (pr_threads p)")
    case True
    obtain ph r where a: "advanceRun quote i ok w (pr_threads p ! i) (pr_runtime p) = (ph, r)" by fastforce
    have pos: "holdsSlot (pr_threads p ! i) \<Longrightarrow> 0 < rt_slots (pr_runtime p)"
      using assms tally_pos [OF True] by (auto simp: slots_ok_def)
    have cap: "rt_slots (pr_runtime p) \<le> rt_capacity (pr_runtime p)" and idle: "idle_ok (pr_runtime p)"
      and n: "0 \<le> rt_execCount (pr_runtime p)" using assms by (simp_all add: slots_ok_def)
    note step = advance_counts [OF a pos cap] advance_idle [OF a idle n]
    show ?thesis
      using step assms tally_update [OF True, of holdsSlot ph] tally_update [OF True, of counted ph]
      unfolding slots_ok_def by (simp add: OpAdvance True a split: if_splits)
  qed (use assms OpAdvance in simp)
next
  case OpAwaitDrain
  obtain d r where a: "awaitExecutions (pr_runtime p) = (d, r)" by fastforce
  note f = awaitExecutions_fields [OF a]
  show ?thesis using assms f by (simp add: slots_ok_def OpAwaitDrain a)
qed (use assms in \<open>auto simp: slots_ok_def idle_ok_def beginShutdown_def cancelContext_def split: list.split\<close>)

lemma reachable_slots: "reachable quote fr capacity p \<Longrightarrow> slots_ok p"
proof (induction rule: reachable.induct)
  case started
  show ?case by (simp add: slots_ok_def newProcess_def newRuntime_def idle_ok_def)
next
  case (stepped p op)
  then show ?case by (simp add: runtime_step_slots)
qed

section \<open>Tokens\<close>

text \<open>A step tracks its goroutine, or untracks it, or leaves the registry of cancel functions alone.\<close>

lemma advance_tracking:
  assumes "advanceRun quote i ok w ph r = (ph', r')"
  shows "(untokened ph \<and> \<not> untokened ph' \<and> tracked ph = None
      \<and> (\<exists>x t. trackCancel r x i = (t, r') \<and> tracked ph' = Some (x, t)))
    \<or> (\<exists>x t. tracked ph = Some (x, t) \<and> tracked ph' = None \<and> \<not> untokened ph' \<and> r' = untrackCancel r x t)
    \<or> (tracked ph' = tracked ph \<and> rt_cancels r' = rt_cancels r \<and> rt_invocation r' = rt_invocation r
      \<and> (untokened ph' \<longrightarrow> untokened ph))"
  using assms
  by (cases ph) (auto simp: admit_def freeSlot_def beginExecution_def endExecution_def cancelContext_def sink_def
      Let_def split_def split: option.splits if_splits prod.splits)

lemma untrackCancel_invocation [simp]: "rt_invocation (untrackCancel r x t) = rt_invocation r"
  by (auto simp: untrackCancel_def Let_def split: option.split)

lemma tokens_okD:
  assumes "tokens_ok p"
  shows "cancels_tidy (pr_runtime p)"
    and "unat (rt_invocation (pr_runtime p)) + tally untokened (pr_threads p) \<le> length (pr_threads p)"
    and "i < length (pr_threads p) \<Longrightarrow> tracked (pr_threads p ! i) = Some (x, t) \<Longrightarrow> unat t \<le> unat (rt_invocation (pr_runtime p))"
    and "trackedAs (pr_runtime p) x t = Some i \<longleftrightarrow> i < length (pr_threads p) \<and> tracked (pr_threads p ! i) = Some (x, t)"
  using assms unfolding tokens_ok_def by blast+

lemma tokens_ok_same:
  assumes ok: "tokens_ok p" and r: "rt_cancels r = rt_cancels (pr_runtime p)" "rt_invocation r = rt_invocation (pr_runtime p)"
  shows "tokens_ok (p\<lparr>pr_runtime := r\<rparr>)"
  using ok by (simp add: tokens_ok_def cancels_tidy_def trackedAs_def r)

lemma tokens_ok_thread:
  assumes ok: "tokens_ok p" and i: "i < length (pr_threads p)" and tidy: "cancels_tidy r"
    and n: "unat (rt_invocation r) + (if untokened ph then 1 else 0)
      \<le> unat (rt_invocation (pr_runtime p)) + (if untokened (pr_threads p ! i) then 1 else 0)"
    and mono: "unat (rt_invocation (pr_runtime p)) \<le> unat (rt_invocation r)"
    and own: "\<And>x t. tracked ph = Some (x, t) \<Longrightarrow> unat t \<le> unat (rt_invocation r)"
    and as: "\<And>x t j. trackedAs r x t = Some j \<longleftrightarrow>
      (if j = i then tracked ph = Some (x, t) else trackedAs (pr_runtime p) x t = Some j)"
  shows "tokens_ok (p\<lparr>pr_threads := (pr_threads p)[i := ph], pr_runtime := r\<rparr>)"
proof -
  note d = tokens_okD [OF ok]
  have "unat (rt_invocation r) + tally untokened ((pr_threads p)[i := ph]) \<le> length (pr_threads p)"
    using n d(2) tally_update [OF i, of untokened ph] by (simp split: if_splits)
  moreover have "unat t \<le> unat (rt_invocation r)"
    if "j < length (pr_threads p)" "tracked ((pr_threads p)[i := ph] ! j) = Some (x, t)" for j x t
    using that own [of x t] d(3) [of j x t] mono i by (cases "j = i") auto
  moreover have "trackedAs r x t = Some j \<longleftrightarrow> j < length (pr_threads p) \<and> tracked ((pr_threads p)[i := ph] ! j) = Some (x, t)" for x t j
    using as [of x t j] d(4) [of x t j] i by (cases "j = i") auto
  ultimately show ?thesis using tidy by (simp add: tokens_ok_def)
qed

lemma advance_tokens:
  assumes ok: "tokens_ok p" and few: "length (pr_threads p) < 2 ^ 64" and i: "i < length (pr_threads p)"
    and a: "advanceRun quote i b w (pr_threads p ! i) (pr_runtime p) = (ph, r)"
  shows "tokens_ok (p\<lparr>pr_threads := (pr_threads p)[i := ph], pr_runtime := r\<rparr>)"
proof -
  let ?old = "pr_threads p ! i" and ?r = "pr_runtime p"
  note d = tokens_okD [OF ok]
  have mine: "trackedAs ?r x t = Some i \<longleftrightarrow> tracked ?old = Some (x, t)" for x t
    using d(4) [of x t i] i by simp
  from advance_tracking [OF a] consider
      (track) x t where "untokened ?old" "\<not> untokened ph" "tracked ?old = None" "trackCancel ?r x i = (t, r)" "tracked ph = Some (x, t)"
    | (untrack) x t where "tracked ?old = Some (x, t)" "tracked ph = None" "\<not> untokened ph" "r = untrackCancel ?r x t"
    | (same) "tracked ph = tracked ?old" "rt_cancels r = rt_cancels ?r" "rt_invocation r = rt_invocation ?r" "untokened ph \<longrightarrow> untokened ?old"
    by blast
  then show ?thesis
  proof cases
    case track
    note tr = trackCancel_tracks [OF track(4)]
    have "unat (rt_invocation ?r) + 1 < 2 ^ 64"
      using d(2) few tally_pos [OF i, of untokened] track(1) by simp
    then have t: "unat t = unat (rt_invocation ?r) + 1"
      by (simp add: tr(1) unat_word_ariths)
    have fresh: "trackedAs ?r y t = None" for y
    proof (cases "trackedAs ?r y t")
      case (Some j)
      with d(4) [of y t j] d(3) [of j y t] t show ?thesis by auto
    qed
    show ?thesis
    proof (rule tokens_ok_thread [OF ok i])
      show "cancels_tidy r" using trackCancel_tidy [OF d(1), of x i] track(4) by simp
      show "trackedAs r y u = Some j \<longleftrightarrow> (if j = i then tracked ph = Some (y, u) else trackedAs ?r y u = Some j)" for y u j
        using tr(3) [of y u] fresh [of y] mine [of y u] track(3,5) by auto
    qed (use track tr(2) t in auto)
  next
    case untrack
    have one: "x = y \<and> t = u" if "trackedAs ?r y u = Some i" for y u using mine [of y u] that untrack(1) by simp
    show ?thesis
    proof (rule tokens_ok_thread [OF ok i])
      show "cancels_tidy r" using untrackCancel_tidy [OF d(1)] untrack(4) by simp
      have it: "trackedAs ?r x t = Some i" using mine untrack(1) by simp
      show "trackedAs r y u = Some j \<longleftrightarrow> (if j = i then tracked ph = Some (y, u) else trackedAs ?r y u = Some j)" for y u j
      proof (cases "y = x \<and> u = t")
        case True
        with it show ?thesis by (simp add: untrack(2,4) untrackCancel_tracks)
      next
        case False
        then have "trackedAs ?r y u \<noteq> Some i" using one by blast
        with False show ?thesis by (auto simp: untrack(2,4) untrackCancel_tracks)
      qed
    qed (use untrack in auto)
  next
    case same
    have as: "trackedAs r y u = trackedAs ?r y u" for y u by (simp add: trackedAs_def same)
    show ?thesis
    proof (rule tokens_ok_thread [OF ok i])
      show "cancels_tidy r" using d(1) by (simp add: cancels_tidy_def same)
      show "tracked ph = Some (x, t) \<Longrightarrow> unat t \<le> unat (rt_invocation r)" for x t
        using d(3) [OF i, of x t] by (simp add: same)
      show "trackedAs r y u = Some j \<longleftrightarrow> (if j = i then tracked ph = Some (y, u) else trackedAs ?r y u = Some j)" for y u j
        using mine [of y u] by (simp add: as same)
    qed (use same in auto)
  qed
qed

lemma runtime_step_tokens:
  assumes ok: "tokens_ok p" and few: "length (pr_threads p) < 2 ^ 64"
  shows "tokens_ok (runtime_step quote op p)"
proof (cases op)
  case (OpRequest req)
  have "i < length (pr_threads p) \<and> tracked (pr_threads p ! i) = Some (x, t) \<longleftrightarrow>
      i < Suc (length (pr_threads p)) \<and> tracked ((pr_threads p @ [Arrived req]) ! i) = Some (x, t)" for i x t
    by (auto simp: nth_append less_Suc_eq)
  with ok OpRequest show ?thesis by (auto simp: tokens_ok_def nth_append less_Suc_eq)
next
  case (OpAdvance i b w)
  obtain ph r where a: "advanceRun quote i b w (pr_threads p ! i) (pr_runtime p) = (ph, r)" by fastforce
  show ?thesis
  proof (cases "i < length (pr_threads p)")
    case True
    with advance_tokens [OF ok few True a] OpAdvance a show ?thesis by simp
  qed (use ok OpAdvance in simp)
next
  case OpAwaitDrain
  obtain d r where a: "awaitExecutions (pr_runtime p) = (d, r)" by fastforce
  with tokens_ok_same [OF ok awaitExecutions_fields(4,5) [OF a]] OpAwaitDrain show ?thesis
    by (simp add: tokens_ok_def)
next
  case OpShutdown
  then show ?thesis using tokens_ok_same [OF ok, of "beginShutdown (pr_runtime p)"] by (simp add: beginShutdown_def)
next
  case OpCallCancel
  then show ?thesis
    using ok by (auto simp: tokens_ok_def cancelContext_def cancels_tidy_def trackedAs_def split: list.split)
qed (use ok in \<open>auto simp: tokens_ok_def\<close>)

lemma runtime_step_length: "length (pr_threads p) \<le> length (pr_threads (runtime_step quote op p))"
  by (cases op) (auto simp: Let_def split_def split: list.split)

lemma reachable_tokens: "reachable quote fr capacity p \<Longrightarrow> length (pr_threads p) < 2 ^ 64 \<Longrightarrow> tokens_ok p"
proof (induction rule: reachable.induct)
  case started
  show ?case by (simp add: tokens_ok_def newProcess_def newRuntime_def cancels_tidy_def trackedAs_def)
next
  case (stepped p op)
  have "length (pr_threads p) < 2 ^ 64"
    using stepped.prems runtime_step_length [of p quote op] by (rule order_le_less_trans [rotated])
  with stepped.IH show ?case by (intro runtime_step_tokens)
qed

end
