(* ===== verification/Executor_Runtime_Props.thy ===== *)
theory Executor_Runtime_Props
  imports Executor_Runtime_Inv
begin

text \<open>
  What the runtime of an executor promises: its capacity, its answers, its cancellations and its
  drain (\<open>yascheduler/runtime.go\<close>).
\<close>

section \<open>Demonstrations\<close>

definition demo_function :: "(runContext \<times> unit) prepared" where
  "demo_function = undefined"

section \<open>Capacity and progress\<close>

lemma step_fixed:
  "rt_capacity (pr_runtime (runtime_step quote op p)) = rt_capacity (pr_runtime p)
    \<and> rt_registry (pr_runtime (runtime_step quote op p)) = rt_registry (pr_runtime p)"
proof (cases op)
  case (OpAdvance i b w)
  then show ?thesis
    by (cases "pr_threads p ! i")
       (auto simp: admit_def freeSlot_def beginExecution_def endExecution_def cancelContext_def sink_def trackCancel_def
        untrackCancel_def Let_def split_def split: option.splits)
next
  case OpAwaitDrain
  then show ?thesis by (auto simp: awaitExecutions_def split: option.split)
qed (auto simp: beginShutdown_def cancelContext_def split: list.split)

lemma reachable_fixed:
  "reachable quote fr capacity p \<Longrightarrow> rt_capacity (pr_runtime p) = capacity \<and> rt_registry (pr_runtime p) = fr"
  by (induction rule: reachable.induct) (simp_all add: step_fixed newProcess_def newRuntime_def)

text \<open>How many more steps a goroutine has at most.\<close>

fun stepsLeft :: "'w phase \<Rightarrow> nat" where
  "stepsLeft (Arrived _) = 10" | "stepsLeft (HasSlot _ _) = 9" | "stepsLeft (Admitted _ _) = 8"
| "stepsLeft (Accepted _ _) = 7" | "stepsLeft (Running _ _ _ _) = 6" | "stepsLeft (Ran _ _ _ _) = 5"
| "stepsLeft (Reported _ _) = 4" | "stepsLeft (Untracked _) = 3" | "stepsLeft (Cancelled _) = 2"
| "stepsLeft (Released _) = 1" | "stepsLeft (Refused _) = 2" | "stepsLeft (Rejecting _ _) = 1"
| "stepsLeft (Unheard _) = 2" | "stepsLeft (Dropping _) = 1" | "stepsLeft (Finished _) = 0"

lemma stepsLeft_bound: "stepsLeft ph \<le> 10"
  by (cases ph) simp_all

lemma stepsLeft_0 [simp]: "stepsLeft ph = 0 \<longleftrightarrow> (\<exists>req. ph = Finished req)"
  by (cases ph) simp_all

lemma advance_progress:
  assumes "holdsSlot ph \<Longrightarrow> 0 < rt_slots r"
  shows "stepsLeft (fst (advanceRun quote i ok w ph r)) \<le> stepsLeft ph - 1"
  using assms
  by (cases ph) (auto simp: admit_def freeSlot_def beginExecution_def Let_def split_def split: option.split)

lemma reachable_run: "reachable quote fr capacity p \<Longrightarrow> reachable quote fr capacity (runtime_run quote ops p)"
  by (induction ops arbitrary: p) (simp_all add: runtime_run_def reachable.stepped)

text \<open>Any step of a goroutine moves it on, and no step of another operation moves it back.\<close>

lemma step_progress:
  assumes ok: "slots_ok p" and i: "i < length (pr_threads p)"
  shows "stepsLeft (pr_threads (runtime_step quote op p) ! i)
    \<le> stepsLeft (pr_threads p ! i) - (if \<exists>b w. op = OpAdvance i b w then 1 else 0)"
proof (cases op)
  case (OpAdvance j b w)
  have pos: "holdsSlot (pr_threads p ! i) \<Longrightarrow> 0 < rt_slots (pr_runtime p)"
    using ok tally_pos [OF i] by (auto simp: slots_ok_def)
  have "stepsLeft (fst (advanceRun quote j b w (pr_threads p ! i) (pr_runtime p))) \<le> stepsLeft (pr_threads p ! i) - 1"
    by (rule advance_progress) (rule pos)
  with i OpAdvance show ?thesis by (cases "j = i") (auto simp: split_def Let_def)
qed (use i in \<open>auto simp: nth_append Let_def split_def split: list.split\<close>)

definition turnsOf :: "goroutine \<Rightarrow> 'w runtimeOp list \<Rightarrow> nat" where
  "turnsOf i ops = length (filter (\<lambda>op. case op of OpAdvance j _ _ \<Rightarrow> j = i | _ \<Rightarrow> False) ops)"

lemma run_progress:
  assumes "reachable quote fr capacity p" and "i < length (pr_threads p)"
  shows "i < length (pr_threads (runtime_run quote ops p))
    \<and> stepsLeft (pr_threads (runtime_run quote ops p) ! i) \<le> stepsLeft (pr_threads p ! i) - turnsOf i ops"
  using assms
proof (induction ops arbitrary: p)
  case (Cons op ops)
  let ?p = "runtime_step quote op p"
  have i: "i < length (pr_threads ?p)"
    using Cons.prems(2) runtime_step_length [of p quote op] by simp
  note ih = Cons.IH [OF reachable.stepped [OF Cons.prems(1)] i]
  have "turnsOf i (op # ops) = turnsOf i ops + (if \<exists>b w. op = OpAdvance i b w then 1 else 0)"
    by (cases op) (auto simp: turnsOf_def)
  with ih step_progress [OF reachable_slots [OF Cons.prems(1)] Cons.prems(2), of quote op] show ?case
    by (auto simp: runtime_run_def split: if_splits)
qed (simp add: runtime_run_def turnsOf_def)

text \<open>C12. An executor stays within its capacity and never wedges. Whatever the order the goroutines of
  its requests run in, and whatever the sink refuses: at most capacity functions run at once, the slots
  taken and the executions counted are those of the goroutines under way, and a goroutine that is
  scheduled ten more times, with anything else in between, has finished and given back its slot and
  its count; no receive from the slots ever blocks.\<close>

theorem executor_within_capacity:
  assumes p: "reachable quote fr capacity p"
  shows "tally running (pr_threads p) \<le> capacity \<and> rt_slots (pr_runtime p) \<le> capacity
    \<and> rt_slots (pr_runtime p) = tally holdsSlot (pr_threads p)
    \<and> rt_execCount (pr_runtime p) = int (tally counted (pr_threads p))
    \<and> (\<forall>i < length (pr_threads p). \<forall>ops. 10 \<le> turnsOf i ops \<longrightarrow>
         (\<exists>req. pr_threads (runtime_run quote ops p) ! i = Finished req))"
proof -
  have ok: "slots_ok p" by (rule reachable_slots [OF p])
  have "tally running (pr_threads p) \<le> tally holdsSlot (pr_threads p)" by (rule tally_mono) (rule running_holds)
  moreover have "stepsLeft (pr_threads (runtime_run quote ops p) ! i) = 0"
    if "i < length (pr_threads p)" "10 \<le> turnsOf i ops" for i ops
    using run_progress [OF p that(1), of ops] stepsLeft_bound [of "pr_threads p ! i"] that(2) by simp
  ultimately show ?thesis
    using ok reachable_fixed [OF p] unfolding slots_ok_def by simp
qed

section \<open>Cancellation\<close>

text \<open>A cancellation reaches every invocation of its execution and no other. At any moment the
  registry of cancel functions has exactly the invocations under way: cancelling an execution collects
  the cancel functions of precisely the goroutines that run it or have yet to clean up after it, one
  each, even when a redispatch has put several attempts of it on this process; an execution with
  no such goroutine has no entry left, so the registry does not grow with finished work. (Fewer than
  2^64 requests, so that no token is minted twice.)\<close>

theorem cancel_reaches_all:
  assumes p: "reachable quote fr capacity p" and few: "length (pr_threads p) < 2 ^ 64"
  shows "set (cancelExecution (pr_runtime p) x)
      = {i. i < length (pr_threads p) \<and> (\<exists>token. tracked (pr_threads p ! i) = Some (x, token))}
    \<and> distinct (cancelExecution (pr_runtime p) x)
    \<and> (map_of (rt_cancels (pr_runtime p)) x = None \<longleftrightarrow>
        (\<forall>i < length (pr_threads p). \<forall>token. tracked (pr_threads p ! i) \<noteq> Some (x, token)))"
proof -
  have ok: "tokens_ok p" by (rule reachable_tokens [OF p few])
  note d = tokens_okD [OF ok]
  have set: "set (cancelExecution (pr_runtime p) x) = {i. \<exists>token. trackedAs (pr_runtime p) x token = Some i}"
    by (rule cancelExecution_tracked [OF d(1)])
  have dist: "distinct (cancelExecution (pr_runtime p) x)"
  proof (cases "map_of (rt_cancels (pr_runtime p)) x")
    case (Some invs)
    then have k: "distinct (map fst invs)" using d(1) by (auto simp: cancels_tidy_def)
    have inj: "t = u" if "(t, i) \<in> set invs" "(u, i) \<in> set invs" for t u i
    proof -
      have "trackedAs (pr_runtime p) x t = Some i" "trackedAs (pr_runtime p) x u = Some i"
        using that k Some by (simp_all add: trackedAs_def)
      then show "t = u" using d(4) by simp
    qed
    have "distinct (map snd invs)"
      using k by (auto simp: distinct_map intro!: inj_onI dest: inj)
    with Some show ?thesis by (simp add: cancelExecution_def)
  qed (simp add: cancelExecution_def)
  have none: "map_of (rt_cancels (pr_runtime p)) x = None \<longleftrightarrow> cancelExecution (pr_runtime p) x = []"
    using d(1) by (auto simp: cancelExecution_def cancels_tidy_def split: option.split)
  have sets: "set (cancelExecution (pr_runtime p) x)
      = {i. i < length (pr_threads p) \<and> (\<exists>token. tracked (pr_threads p ! i) = Some (x, token))}"
    unfolding set using d(4) by auto
  then show ?thesis using dist none by (auto simp: set_empty [symmetric] simp del: set_empty)
qed

end
