(* ===== verification/Executor_Demo.thy ===== *)
theory Executor_Demo
  imports Executor_Runtime_Props
begin

text \<open>An executor with one function and one slot, for the witnesses.\<close>

definition demo_spec :: functionSpec where
  "demo_spec = \<lparr>f_Name = ''echo'', f_Version = '''', f_InputSignature = ''s'', f_OutputSignature = ''s''\<rparr>"

definition demo_echo :: "unit prepared" where
  "demo_echo = \<lparr>pf_spec = demo_spec, pf_invoke = (\<lambda>_ args. (Some args, None))\<rparr>"

definition demo_functions :: "(runContext \<times> unit) functionRegistry" where
  "demo_functions = \<lparr>fr_functions = [((''echo'', ''''), demo_echo)], fr_order = [(''echo'', '''')]\<rparr>"

definition demo_req :: "executionID \<Rightarrow> execRequestMsg" where
  "demo_req x = \<lparr>eq_JobUUID = [], eq_ExecutionID = x, eq_AttemptID = x + 10, eq_AttemptNumber = 1,
     eq_Function = demo_spec, eq_Args = [1, 2], eq_ScheduledUnixNano = 0, eq_TimeoutMillis = 0, eq_DeliverResult = False\<rparr>"

definition demo_go :: "goroutine \<Rightarrow> nat \<Rightarrow> unit runtimeOp list" where
  "demo_go i n = replicate n (OpAdvance i True ())"

text \<open>Two requests, the first of which is running when the second comes.\<close>

definition demo_ops :: "unit runtimeOp list" where
  "demo_ops = [OpRequest (demo_req 1), OpRequest (demo_req 2)] @ demo_go 0 4 @ demo_go 1 2"

definition demo_process :: "unit process" where
  "demo_process = runtime_run id demo_ops (newProcess demo_functions 1)"

lemma demo_reachable: "reachable id demo_functions 1 demo_process"
  unfolding demo_process_def by (intro reachable_run reachable.started)

lemma demo_values:
  "map running (pr_threads demo_process) = [True, False]" "length (pr_threads demo_process) = 2"
  "cancelExecution (pr_runtime demo_process) 1 = [0]" "tracked (pr_threads demo_process ! 0) = Some (1, 1)"
  by code_simp+

theorem executor_within_capacity_witness:
  "tally running (pr_threads demo_process) = 1 \<and> rt_slots (pr_runtime demo_process) \<le> 1"
proof -
  have "tally running (pr_threads demo_process) = 1" by code_simp
  then show ?thesis using executor_within_capacity [OF demo_reachable] by simp
qed

theorem cancel_reaches_all_witness:
  "cancelExecution (pr_runtime demo_process) 1 = [0] \<and> (\<exists>token. tracked (pr_threads demo_process ! 0) = Some (1, token))
    \<and> map_of (rt_cancels (pr_runtime demo_process)) 2 = None"
proof -
  have few: "length (pr_threads demo_process) < 2 ^ 64" by (simp add: demo_values)
  have "tracked (pr_threads demo_process ! i) \<noteq> Some (2, token)" if "i < length (pr_threads demo_process)" for i token
  proof -
    have "\<forall>ph \<in> set (pr_threads demo_process). tracked ph = None \<or> fst (the (tracked ph)) = 1" by code_simp
    with that have "tracked (pr_threads demo_process ! i) = None \<or> fst (the (tracked (pr_threads demo_process ! i))) = 1"
      by simp
    then show ?thesis by auto
  qed
  then have "map_of (rt_cancels (pr_runtime demo_process)) 2 = None"
    using cancel_reaches_all [OF demo_reachable few, of 2] by blast
  moreover have "0 \<in> set (cancelExecution (pr_runtime demo_process) 1)" by (simp add: demo_values)
  ultimately show ?thesis
    using cancel_reaches_all [OF demo_reachable few, of 1] demo_values(3) by blast
qed

end
