(* ===== verification/Executor_Answers.thy ===== *)
theory Executor_Answers
  imports Executor_Demo
begin

text \<open>
  What an executor's runtime tells the scheduler of each request, and what the end of a drain means
  (\<open>yascheduler/runtime.go\<close>).
\<close>

section \<open>What is said of a request\<close>

fun requestOf :: "'w phase \<Rightarrow> execRequestMsg" where
  "requestOf (Arrived req) = req" | "requestOf (Rejecting req _) = req" | "requestOf (HasSlot req _) = req"
| "requestOf (Refused req) = req" | "requestOf (Admitted req _) = req" | "requestOf (Unheard req) = req"
| "requestOf (Dropping req) = req" | "requestOf (Accepted req _) = req" | "requestOf (Running req _ _ _) = req"
| "requestOf (Ran req _ _ _) = req" | "requestOf (Reported req _) = req" | "requestOf (Untracked req) = req"
| "requestOf (Cancelled req) = req" | "requestOf (Released req) = req" | "requestOf (Finished req) = req"

text \<open>The function of a request, if it is registered and its signatures agree.\<close>

definition runnable :: "(runContext \<times> 'w) functionRegistry \<Rightarrow> execRequestMsg \<Rightarrow> 'w prepared option" where
  "runnable fr req =
     (case lookupFunction fr (f_Name (eq_Function req)) (f_Version (eq_Function req)) of
        None \<Rightarrow> None
      | Some prepared \<Rightarrow> if functionCompatible (eq_Function req) (pf_spec prepared) then Some prepared else None)"

definition rejectable :: "(string \<Rightarrow> string) \<Rightarrow> (runContext \<times> 'w) functionRegistry \<Rightarrow> execRequestMsg \<Rightarrow> wireError \<Rightarrow> bool" where
  "rejectable quote fr req cause \<longleftrightarrow>
     (if lookupFunction fr (f_Name (eq_Function req)) (f_Version (eq_Function req)) = None
      then cause = unknownFunction quote (eq_Function req)
      else if runnable fr req = None then cause = incompatibleFunction
      else cause = capacityExhausted \<or> cause = shuttingDown)"

definition outcomeOf :: "(runContext \<times> 'w) functionRegistry \<Rightarrow> execRequestMsg \<Rightarrow> byte_list option \<times> wireError option \<Rightarrow> bool" where
  "outcomeOf fr req out \<longleftrightarrow> (\<exists>prepared w. runnable fr req = Some prepared
     \<and> pf_invoke prepared (contextFor req, w) (eq_Args req) = out)"

definition answered :: "bool \<Rightarrow> (runContext \<times> 'w) functionRegistry \<Rightarrow> execRequestMsg \<Rightarrow> message list \<Rightarrow> bool" where
  "answered takes fr req msgs \<longleftrightarrow> (\<not> takes \<and> runnable fr req \<noteq> None \<and> msgs = [execAccept req])
     \<or> (\<exists>payload wireErr. outcomeOf fr req (payload, wireErr) \<and> msgs = [execAccept req, execResult req payload wireErr])"

fun spoken :: "bool \<Rightarrow> (string \<Rightarrow> string) \<Rightarrow> (runContext \<times> 'w) functionRegistry \<Rightarrow> 'w phase \<Rightarrow> message list \<Rightarrow> bool" where
  "spoken takes quote fr (Arrived req) msgs = (msgs = [])"
| "spoken takes quote fr (Rejecting req cause) msgs = (msgs = [] \<and> rejectable quote fr req cause)"
| "spoken takes quote fr (HasSlot req prepared) msgs = (msgs = [] \<and> runnable fr req = Some prepared)"
| "spoken takes quote fr (Refused req) msgs = (msgs = [] \<and> runnable fr req \<noteq> None)"
| "spoken takes quote fr (Admitted req prepared) msgs = (msgs = [] \<and> runnable fr req = Some prepared)"
| "spoken takes quote fr (Unheard req) msgs = (msgs = [] \<and> \<not> takes)"
| "spoken takes quote fr (Dropping req) msgs = (msgs = [] \<and> \<not> takes)"
| "spoken takes quote fr (Accepted req prepared) msgs = (msgs = [execAccept req] \<and> runnable fr req = Some prepared)"
| "spoken takes quote fr (Running req prepared ctx _) msgs =
     (msgs = [execAccept req] \<and> runnable fr req = Some prepared \<and> ctx = contextFor req)"
| "spoken takes quote fr (Ran req payload wireErr _) msgs =
     (msgs = [execAccept req] \<and> outcomeOf fr req (payload, wireErr))"
| "spoken takes quote fr (Reported req _) msgs = answered takes fr req msgs"
| "spoken takes quote fr (Untracked req) msgs = answered takes fr req msgs"
| "spoken takes quote fr (Cancelled req) msgs = answered takes fr req msgs"
| "spoken takes quote fr (Released req) msgs = answered takes fr req msgs"
| "spoken takes quote fr (Finished req) msgs =
     (\<not> takes \<and> msgs = [] \<or> (\<exists>cause. rejectable quote fr req cause \<and> msgs = [rejectExecution req cause])
      \<or> answered takes fr req msgs)"

definition said :: "'w process \<Rightarrow> goroutine \<Rightarrow> message list" where
  "said p i = map snd (filter (\<lambda>m. fst m = i) (rt_sunk (pr_runtime p)))"

definition spoken_ok :: "bool \<Rightarrow> (string \<Rightarrow> string) \<Rightarrow> (runContext \<times> 'w) functionRegistry \<Rightarrow> 'w process \<Rightarrow> bool" where
  "spoken_ok takes quote fr p \<longleftrightarrow> rt_registry (pr_runtime p) = fr
     \<and> (\<forall>i < length (pr_threads p). spoken takes quote fr (pr_threads p ! i) (said p i))
     \<and> (\<forall>m \<in> set (rt_sunk (pr_runtime p)). fst m < length (pr_threads p))"

lemma untrackCancel_sunk [simp]: "rt_sunk (untrackCancel r x t) = rt_sunk r"
  by (auto simp: untrackCancel_def Let_def split: option.split)

lemma advance_sunk:
  "\<exists>msgs. rt_sunk (snd (advanceRun quote i ok w ph r)) = rt_sunk r @ map (Pair i) msgs
    \<and> requestOf (fst (advanceRun quote i ok w ph r)) = requestOf ph
    \<and> (\<forall>takes before. (takes \<longrightarrow> ok) \<longrightarrow> spoken takes quote (rt_registry r) ph before
         \<longrightarrow> spoken takes quote (rt_registry r) (fst (advanceRun quote i ok w ph r)) (before @ msgs))"
proof (cases ph)
  case (Arrived req)
  then show ?thesis
    by (auto simp: admit_def rejectable_def runnable_def split: option.split)
next
  case (Rejecting req cause)
  then show ?thesis by (cases ok) (auto simp: sink_def intro!: exI [of _ "[rejectExecution req cause]"])
next
  case (Admitted req prepared)
  then show ?thesis by (cases ok) (auto simp: sink_def intro!: exI [of _ "[execAccept req]"])
next
  case (Running req prepared ctx t)
  then show ?thesis by (auto simp: split_def Let_def outcomeOf_def)
next
  case (Ran req payload wireErr t)
  then show ?thesis
    by (cases ok) (auto simp: sink_def answered_def outcomeOf_def intro!: exI [of _ "[execResult req payload wireErr]"])
qed (auto simp: freeSlot_def beginExecution_def endExecution_def trackCancel_def cancelContext_def rejectable_def
      runnable_def Let_def split: option.split option.splits if_splits)

definition takesAll :: "'w runtimeOp list \<Rightarrow> bool" where
  "takesAll ops \<longleftrightarrow> (\<forall>i w. OpAdvance i False w \<notin> set ops)"

lemma runtime_step_spoken:
  assumes ok: "spoken_ok takes quote fr p" and takes: "takes \<longrightarrow> takesAll [op]"
  shows "spoken_ok takes quote fr (runtime_step quote op p)"
proof (cases op)
  case (OpRequest req)
  have "filter (\<lambda>m. fst m = length (pr_threads p)) (rt_sunk (pr_runtime p)) = []"
    using ok by (auto simp: spoken_ok_def filter_empty_conv)
  with ok OpRequest show ?thesis by (auto simp: spoken_ok_def said_def nth_append less_Suc_eq)
next
  case (OpAdvance i b w)
  show ?thesis
  proof (cases "i < length (pr_threads p)")
    case True
    let ?r = "pr_runtime p" and ?ph = "pr_threads p ! i"
    obtain msgs where msgs: "rt_sunk (snd (advanceRun quote i b w ?ph ?r)) = rt_sunk ?r @ map (Pair i) msgs"
        "(takes \<longrightarrow> b) \<longrightarrow> spoken takes quote (rt_registry ?r) ?ph (said p i)
          \<longrightarrow> spoken takes quote (rt_registry ?r) (fst (advanceRun quote i b w ?ph ?r)) (said p i @ msgs)"
      using advance_sunk [of quote i b w ?ph ?r] by blast
    have b: "takes \<longrightarrow> b" using takes OpAdvance by (auto simp: takesAll_def)
    have fr: "rt_registry (pr_runtime (runtime_step quote op p)) = fr"
      using ok step_fixed [of quote op p] by (simp add: spoken_ok_def)
    have "said (runtime_step quote op p) j = (if j = i then said p i @ msgs else said p j)" for j
      by (auto simp: said_def OpAdvance True split_def Let_def msgs(1) filter_map o_def)
    moreover have "spoken takes quote fr (fst (advanceRun quote i b w ?ph ?r)) (said p i @ msgs)"
      using msgs(2) b ok True by (simp add: spoken_ok_def)
    ultimately show ?thesis
      using ok fr True OpAdvance
      by (auto simp: spoken_ok_def split_def Let_def nth_list_update msgs(1))
  qed (use ok OpAdvance in simp)
next
  case OpAwaitDrain
  obtain d r where a: "awaitExecutions (pr_runtime p) = (d, r)" by fastforce
  with ok OpAwaitDrain awaitExecutions_fields(7,8) [OF a] show ?thesis by (simp add: spoken_ok_def said_def)
qed (use ok in \<open>auto simp: spoken_ok_def said_def beginShutdown_def cancelContext_def split: list.split\<close>)

fun requests :: "'w runtimeOp list \<Rightarrow> execRequestMsg list" where
  "requests [] = []"
| "requests (OpRequest req # ops) = req # requests ops"
| "requests (_ # ops) = requests ops"

lemma runtime_step_requests:
  "map requestOf (pr_threads (runtime_step quote op p)) = map requestOf (pr_threads p) @ requests [op]"
proof (cases op)
  case (OpAdvance i b w)
  have "requestOf (fst (advanceRun quote i b w (pr_threads p ! i) (pr_runtime p))) = requestOf (pr_threads p ! i)"
    using advance_sunk [of quote i b w "pr_threads p ! i" "pr_runtime p"] by blast
  with OpAdvance show ?thesis
    by (cases "i < length (pr_threads p)") (simp_all add: split_def Let_def map_update list_update_same_conv)
qed (auto simp: split_def Let_def split: list.split)

lemma requests_Cons: "requests (op # ops) = requests [op] @ requests ops"
  by (cases op) simp_all

lemma runtime_run_spoken:
  "spoken_ok takes quote fr p \<Longrightarrow> (takes \<longrightarrow> takesAll ops)
     \<Longrightarrow> spoken_ok takes quote fr (runtime_run quote ops p)
       \<and> map requestOf (pr_threads (runtime_run quote ops p)) = map requestOf (pr_threads p) @ requests ops"
proof (induction ops arbitrary: p)
  case (Cons op ops)
  have "takes \<longrightarrow> takesAll [op]" "takes \<longrightarrow> takesAll ops" using Cons.prems(2) by (auto simp: takesAll_def)
  with Cons.IH [OF runtime_step_spoken [OF Cons.prems(1)]] runtime_step_requests [of quote op p] requests_Cons [of op ops]
  show ?case by (simp add: runtime_run_def)
qed (simp add: runtime_run_def)

lemma spoken_forms:
  assumes "spoken takes quote fr ph msgs"
  shows "msgs = [] \<or> (\<exists>cause. rejectable quote fr (requestOf ph) cause \<and> msgs = [rejectExecution (requestOf ph) cause])
    \<or> (runnable fr (requestOf ph) \<noteq> None \<and> msgs = [execAccept (requestOf ph)]) \<or> answered False fr (requestOf ph) msgs"
  using assms by (cases ph) (auto simp: answered_def outcomeOf_def)

text \<open>C10. Every request is answered once, for itself, and in order. After any run the \<open>i\<close>-th goroutine
  stands for the \<open>i\<close>-th request, and all that it has said is: nothing; or one refusal, whose cause is the
  right one for that request (unknown, incompatible, or else no capacity or shutting down); or an
  acceptance, and only of a function that is registered with agreeing signatures; or that
  acceptance followed by one result, which is what that function made of the request's arguments.
  All carry the identifiers of the request. When the sink takes every message, a request that is finished
  has been refused or has both its acceptance and its result.\<close>

theorem request_answered_once:
  assumes run: "p = runtime_run quote ops (newProcess fr capacity)" and i: "i < length (requests ops)"
  shows "length (pr_threads p) = length (requests ops) \<and> requestOf (pr_threads p ! i) = requests ops ! i
    \<and> (let req = requests ops ! i in
         said p i = []
         \<or> (\<exists>cause. rejectable quote fr req cause \<and> said p i = [rejectExecution req cause])
         \<or> (runnable fr req \<noteq> None \<and> said p i = [execAccept req])
         \<or> (\<exists>payload wireErr. outcomeOf fr req (payload, wireErr)
              \<and> said p i = [execAccept req, execResult req payload wireErr]))
    \<and> (takesAll ops \<longrightarrow> pr_threads p ! i = Finished (requests ops ! i) \<longrightarrow>
         (\<exists>cause. said p i = [rejectExecution (requests ops ! i) cause])
         \<or> (\<exists>payload wireErr. said p i = [execAccept (requests ops ! i), execResult (requests ops ! i) payload wireErr]))"
proof -
  have start: "spoken_ok takes quote fr (newProcess fr capacity)" for takes
    by (simp add: spoken_ok_def newProcess_def newRuntime_def)
  have reqs: "map requestOf (pr_threads p) = requests ops" and one: "spoken_ok False quote fr p"
    using runtime_run_spoken [OF start, of False ops] run by (simp_all add: newProcess_def)
  have all: "spoken_ok True quote fr p" if "takesAll ops"
    using runtime_run_spoken [OF start, of True ops] run that by simp
  have len: "length (pr_threads p) = length (requests ops)" using arg_cong [OF reqs, of length] by simp
  then have req: "requestOf (pr_threads p ! i) = requests ops ! i"
    using i nth_map [of i "pr_threads p" requestOf] by (simp only: reqs)
  have "spoken False quote fr (pr_threads p ! i) (said p i)" using one i len by (simp add: spoken_ok_def)
  from spoken_forms [OF this] req have forms: "said p i = []
         \<or> (\<exists>cause. rejectable quote fr (requests ops ! i) cause \<and> said p i = [rejectExecution (requests ops ! i) cause])
         \<or> (runnable fr (requests ops ! i) \<noteq> None \<and> said p i = [execAccept (requests ops ! i)])
         \<or> (\<exists>payload wireErr. outcomeOf fr (requests ops ! i) (payload, wireErr)
              \<and> said p i = [execAccept (requests ops ! i), execResult (requests ops ! i) payload wireErr])"
    by (auto simp: answered_def)
  have fin: "(\<exists>cause. said p i = [rejectExecution (requests ops ! i) cause])
         \<or> (\<exists>payload wireErr. said p i = [execAccept (requests ops ! i), execResult (requests ops ! i) payload wireErr])"
    if "takesAll ops" "pr_threads p ! i = Finished (requests ops ! i)"
  proof -
    have "spoken True quote fr (Finished (requests ops ! i)) (said p i)"
      using all [OF that(1)] i len that(2) by (auto simp: spoken_ok_def)
    then show ?thesis by (auto simp: answered_def)
  qed
  show ?thesis using len req forms fin by (simp add: Let_def)
qed

section \<open>Drains\<close>

text \<open>Once the latch is closed the executions counted only end.\<close>

lemma advance_latched:
  assumes "rt_stopping r"
  shows "rt_stopping (snd (advanceRun quote i ok w ph r))" "counted (fst (advanceRun quote i ok w ph r)) \<Longrightarrow> counted ph"
  using assms
  by (cases ph; auto simp: admit_def freeSlot_def beginExecution_def endExecution_def trackCancel_def untrackCancel_def
      cancelContext_def sink_def Let_def split_def split: option.splits if_splits)+

lemma step_latched:
  assumes "rt_stopping (pr_runtime p)"
  shows "rt_stopping (pr_runtime (runtime_step quote op p))"
    and "j < length (pr_threads (runtime_step quote op p)) \<Longrightarrow> counted (pr_threads (runtime_step quote op p) ! j)
      \<Longrightarrow> j < length (pr_threads p) \<and> counted (pr_threads p ! j)"
proof -
  have "rt_stopping (pr_runtime (runtime_step quote op p))
      \<and> (j < length (pr_threads (runtime_step quote op p)) \<longrightarrow> counted (pr_threads (runtime_step quote op p) ! j)
          \<longrightarrow> j < length (pr_threads p) \<and> counted (pr_threads p ! j))"
  proof (cases op)
    case (OpAdvance i b w)
    then show ?thesis
      using assms advance_latched [OF assms, of quote i b w "pr_threads p ! i"]
      by (auto simp: Let_def split_def nth_list_update)
  next
    case OpAwaitDrain
    obtain d r where a: "awaitExecutions (pr_runtime p) = (d, r)" by fastforce
    with OpAwaitDrain assms awaitExecutions_fields(6) [OF a] show ?thesis by simp
  qed (use assms in \<open>auto simp: beginShutdown_def cancelContext_def nth_append less_Suc_eq Let_def split: list.split\<close>)
  then show "rt_stopping (pr_runtime (runtime_step quote op p))"
    "j < length (pr_threads (runtime_step quote op p)) \<Longrightarrow> counted (pr_threads (runtime_step quote op p) ! j)
      \<Longrightarrow> j < length (pr_threads p) \<and> counted (pr_threads p ! j)" by blast+
qed

lemma tally_zero: "tally P xs = 0 \<longleftrightarrow> (\<forall>i < length xs. \<not> P (xs ! i))"
  unfolding tally_def length_0_conv filter_empty_conv all_set_conv_all_nth ..

lemma step_stays_idle:
  assumes "rt_stopping (pr_runtime p)" and "tally counted (pr_threads p) = 0"
  shows "tally counted (pr_threads (runtime_step quote op p)) = 0"
  using step_latched(2) [OF assms(1), of _ quote op] assms(2) by (auto simp: tally_zero)

definition drain_ok :: "nat \<Rightarrow> 'w process \<Rightarrow> bool" where
  "drain_ok j p \<longleftrightarrow> rt_stopping (pr_runtime p) \<and> slots_ok p \<and> j < length (pr_drains p)
     \<and> (case pr_drains p ! j of
          DrainDone waited \<Rightarrow> waited \<longrightarrow> tally counted (pr_threads p) = 0
        | DrainWaiting ch \<Rightarrow> rt_execIdle (pr_runtime p) = Some ch \<or> tally counted (pr_threads p) = 0)"

lemma advance_idle_chan:
  "rt_execIdle (snd (advanceRun quote i ok w ph r)) = rt_execIdle r
    \<or> (rt_execIdle (snd (advanceRun quote i ok w ph r)) = None \<and> rt_execCount (snd (advanceRun quote i ok w ph r)) = 0)"
  by (cases ph) (auto simp: admit_def freeSlot_def beginExecution_def endExecution_def trackCancel_def untrackCancel_def
      cancelContext_def sink_def Let_def split_def split: option.splits)

lemma step_idle_chan:
  assumes "slots_ok p"
  shows "rt_execIdle (pr_runtime (runtime_step quote op p)) = rt_execIdle (pr_runtime p)
    \<or> tally counted (pr_threads (runtime_step quote op p)) = 0
    \<or> rt_execIdle (pr_runtime p) = None"
proof (cases op)
  case (OpAdvance i b w)
  have "slots_ok (runtime_step quote op p)" by (rule runtime_step_slots [OF assms])
  with OpAdvance advance_idle_chan [of quote i b w "pr_threads p ! i" "pr_runtime p"] show ?thesis
    by (auto simp: slots_ok_def Let_def split_def)
next
  case OpAwaitDrain
  then show ?thesis by (auto simp: awaitExecutions_def split: option.split)
qed (auto simp: beginShutdown_def cancelContext_def split: list.split)

lemma step_drain:
  assumes ok: "drain_ok j p"
  shows "drain_ok j (runtime_step quote op p)"
proof -
  let ?p = "runtime_step quote op p"
  have stop: "rt_stopping (pr_runtime p)" and slots: "slots_ok p" and j: "j < length (pr_drains p)"
    using ok by (simp_all add: drain_ok_def)
  have stays: "tally counted (pr_threads p) = 0 \<Longrightarrow> tally counted (pr_threads ?p) = 0"
    by (rule step_stays_idle [OF stop])
  have base: "rt_stopping (pr_runtime ?p)" "slots_ok ?p" "j < length (pr_drains ?p)"
    using step_latched(1) [OF stop] runtime_step_slots [OF slots] j
    by (auto, cases op) (auto simp: Let_def split_def split: list.split)
  have same: "pr_drains ?p ! j = pr_drains p ! j
      \<or> (\<exists>a b. op = OpDrainSelect j a b \<and> pr_drains ?p ! j = drainSelect a b (pr_runtime p) (pr_drains p ! j)
           \<and> pr_runtime ?p = pr_runtime p \<and> pr_threads ?p = pr_threads p)"
    using j by (cases op) (auto simp: Let_def split_def nth_append nth_list_update split: list.split)
  have idle: "ch \<in> rt_closedIdle (pr_runtime p) \<Longrightarrow> rt_execIdle (pr_runtime p) \<noteq> Some ch" for ch
    using slots by (auto simp: slots_ok_def idle_ok_def)
  from same show ?thesis
  proof
    assume "pr_drains ?p ! j = pr_drains p ! j"
    with ok base stays step_idle_chan [OF slots, of quote op] show ?thesis
      by (auto simp: drain_ok_def split: drain.splits)
  next
    assume "\<exists>a b. op = OpDrainSelect j a b \<and> pr_drains ?p ! j = drainSelect a b (pr_runtime p) (pr_drains p ! j)
           \<and> pr_runtime ?p = pr_runtime p \<and> pr_threads ?p = pr_threads p"
    then obtain a b where "pr_drains ?p ! j = drainSelect a b (pr_runtime p) (pr_drains p ! j)"
      "pr_runtime ?p = pr_runtime p" "pr_threads ?p = pr_threads p" by blast
    with ok base idle show ?thesis
      by (auto simp: drain_ok_def drainSelect_def split: drain.splits if_splits)
  qed
qed

lemma await_drain_ok:
  assumes "reachable quote fr capacity p" and "rt_stopping (pr_runtime p)"
  shows "drain_ok (length (pr_drains p)) (runtime_step quote OpAwaitDrain p)"
proof -
  have "slots_ok (runtime_step quote OpAwaitDrain p)"
    by (rule runtime_step_slots [OF reachable_slots [OF assms(1)]])
  moreover have "slots_ok p" by (rule reachable_slots [OF assms(1)])
  ultimately show ?thesis
    using assms(2) by (auto simp: drain_ok_def slots_ok_def awaitExecutions_def split: option.split)
qed

lemma run_drain: "drain_ok j p \<Longrightarrow> drain_ok j (runtime_run quote ops p)"
  by (induction ops arbitrary: p) (simp_all add: runtime_run_def step_drain)

lemma run_latched:
  "rt_stopping (pr_runtime p) \<Longrightarrow> j < length (pr_threads (runtime_run quote ops p))
    \<Longrightarrow> counted (pr_threads (runtime_run quote ops p) ! j) \<Longrightarrow> j < length (pr_threads p) \<and> counted (pr_threads p ! j)"
proof (induction ops arbitrary: p)
  case (Cons op ops)
  from Cons.IH [OF step_latched(1) [OF Cons.prems(1)]] Cons.prems(2,3)
  have "j < length (pr_threads (runtime_step quote op p)) \<and> counted (pr_threads (runtime_step quote op p) ! j)"
    by (simp add: runtime_run_def)
  then show ?case using step_latched(2) [OF Cons.prems(1)] by blast
qed (simp add: runtime_run_def)

text \<open>C11. A drain that follows the latch waits for everything. Once shutdown is latched no execution joins:
  whichever goroutine counts later counted already. And if a drain begun after the latch reports that it
  completed, then no execution that was accepted is under way, at that moment or ever after: none holds its
  count, and every request whose acceptance was sent has finished.\<close>

theorem drain_waits_for_all:
  assumes p: "reachable quote fr capacity p" and latched: "rt_stopping (pr_runtime p)"
    and q: "q = runtime_run quote (OpAwaitDrain # ops) p"
  shows "(\<forall>i < length (pr_threads q). counted (pr_threads q ! i) \<longrightarrow> i < length (pr_threads p) \<and> counted (pr_threads p ! i))
    \<and> (pr_drains q ! length (pr_drains p) = DrainDone True \<longrightarrow>
         rt_execCount (pr_runtime q) = 0
         \<and> (\<forall>i < length (pr_threads q). \<forall>req. execAccept req \<in> set (said q i) \<longrightarrow> (\<exists>req. pr_threads q ! i = Finished req)))"
proof -
  have "drain_ok (length (pr_drains p)) q"
    unfolding q using run_drain [OF await_drain_ok [OF p latched]] by (simp add: runtime_run_def)
  then have idle: "rt_execCount (pr_runtime q) = 0 \<and> tally counted (pr_threads q) = 0"
    if "pr_drains q ! length (pr_drains p) = DrainDone True"
    using that by (auto simp: drain_ok_def slots_ok_def)
  have "reachable quote fr capacity q"
    unfolding q by (rule reachable_run [OF p])
  then obtain os where "q = runtime_run quote os (newProcess fr capacity)"
    by (induction rule: reachable.induct)
       (metis fold_simps(1) runtime_run_def, metis (no_types) fold_append fold_simps comp_apply runtime_run_def)
  then have "spoken_ok False quote fr q"
    using runtime_run_spoken [of False quote fr "newProcess fr capacity" os]
    by (simp add: spoken_ok_def newProcess_def newRuntime_def)
  then have "spoken False quote fr (pr_threads q ! i) (said q i)" if "i < length (pr_threads q)" for i
    using that by (simp add: spoken_ok_def)
  moreover have "\<exists>req. ph = Finished req"
    if "spoken False quote fr ph msgs" "execAccept r \<in> set msgs" "\<not> counted ph" for ph msgs r
    using that by (cases ph) auto
  ultimately have "\<exists>req. pr_threads q ! i = Finished req"
    if "i < length (pr_threads q)" "execAccept r \<in> set (said q i)" "\<forall>i < length (pr_threads q). \<not> counted (pr_threads q ! i)" for i r
    using that by blast
  then have "\<exists>req. pr_threads q ! i = Finished req"
    if "i < length (pr_threads q)" "execAccept r \<in> set (said q i)" "tally counted (pr_threads q) = 0" for i r
    using that by (auto simp: tally_zero)
  then show ?thesis using idle run_latched [OF latched] q by blast
qed

text \<open>The first request runs to its end; the second finds no capacity.\<close>

theorem request_answered_once_witness:
  "said (runtime_run id (demo_ops @ demo_go 0 7) (newProcess demo_functions 1)) 0
     = [execAccept (demo_req 1), execResult (demo_req 1) (Some [1, 2]) None]
   \<and> said (runtime_run id (demo_ops @ demo_go 0 7) (newProcess demo_functions 1)) 1
     = [rejectExecution (demo_req 2) capacityExhausted]"
proof -
  let ?p = "runtime_run id (demo_ops @ demo_go 0 7) (newProcess demo_functions 1)"
  have r: "requests (demo_ops @ demo_go 0 7) = [demo_req 1, demo_req 2]" by code_simp
  have "said ?p 0 = [execAccept (demo_req 1), execResult (demo_req 1) (Some [1, 2]) None]" by code_simp
  moreover have "said ?p 1 = [rejectExecution (demo_req 2) capacityExhausted]" by code_simp
  moreover have "requestOf (pr_threads ?p ! 0) = demo_req 1"
    using request_answered_once [of ?p id "demo_ops @ demo_go 0 7" demo_functions 1 0] r by simp
  ultimately show ?thesis by simp
qed

text \<open>The drain waits for the first request, and completes when it has finished.\<close>

theorem drain_waits_for_all_witness:
  "pr_drains (runtime_run id (OpAwaitDrain # demo_go 0 7 @ [OpDrainSelect 0 False False])
       (runtime_step id OpShutdown demo_process)) ! 0 = DrainDone True
   \<and> rt_execCount (pr_runtime (runtime_run id (OpAwaitDrain # demo_go 0 7 @ [OpDrainSelect 0 False False])
       (runtime_step id OpShutdown demo_process))) = 0"
proof -
  let ?p = "runtime_step id OpShutdown demo_process"
  let ?q = "runtime_run id (OpAwaitDrain # demo_go 0 7 @ [OpDrainSelect 0 False False]) ?p"
  have p: "reachable id demo_functions 1 ?p" by (rule reachable.stepped [OF demo_reachable])
  have latched: "rt_stopping (pr_runtime ?p)" by (simp add: beginShutdown_def)
  have "pr_drains ?p = []" by code_simp
  moreover have "pr_drains ?q ! 0 = DrainDone True" by code_simp
  ultimately show ?thesis
    using drain_waits_for_all [OF p latched refl, of "demo_go 0 7 @ [OpDrainSelect 0 False False]"] by simp
qed

end
