(* ===== verification/Client_Config.thy ===== *)
theory Client_Config
  imports Executor_Functions Engine_Config Messages
begin

text \<open>
  What a client is configured with and what it submits (\<open>yascheduler/types.go\<close>, \<open>constants.go\<close>,
  \<open>jobs.go\<close>, \<open>local.go\<close>), and the heartbeat cadence it agrees to (\<open>client.go\<close>).

  A fresh UUID is a parameter, as are the text of a UUID and the MessagePack encoding of the
  arguments, which answers the bytes or the text of an error.
\<close>

section \<open>Constants\<close>

definition DefaultHeartbeatInterval :: duration where "DefaultHeartbeatInterval = 5 * second"
definition MinHeartbeatInterval :: duration where "MinHeartbeatInterval = 100 * millisecond"
definition MaxHeartbeatInterval :: duration where "MaxHeartbeatInterval = 5 * minute"
definition MaxHeartbeatFactor :: int where "MaxHeartbeatFactor = 10"
definition DefaultDialTimeout :: duration where "DefaultDialTimeout = 10 * second"
definition DefaultWriteTimeout :: duration where "DefaultWriteTimeout = 10 * second"
definition DefaultDrainTimeout :: duration where "DefaultDrainTimeout = 30 * second"
definition DefaultReconnectInitialInterval :: duration where "DefaultReconnectInitialInterval = 500 * millisecond"
definition DefaultReconnectMaxInterval :: duration where "DefaultReconnectMaxInterval = 30 * second"
definition DefaultOutgoingQueueSize :: int where "DefaultOutgoingQueueSize = 256"
definition DefaultCapacity :: u32 where "DefaultCapacity = 64"
definition readDeadlineMultiplier :: int where "readDeadlineMultiplier = 3"
definition heartbeatsPerLease :: int where "heartbeatsPerLease = 3"

lemmas client_constants = DefaultHeartbeatInterval_def MinHeartbeatInterval_def MaxHeartbeatInterval_def
  MaxHeartbeatFactor_def DefaultDialTimeout_def DefaultWriteTimeout_def DefaultDrainTimeout_def
  DefaultReconnectInitialInterval_def DefaultReconnectMaxInterval_def DefaultOutgoingQueueSize_def
  DefaultCapacity_def readDeadlineMultiplier_def heartbeatsPerLease_def duration_defs

section \<open>Configurations\<close>

record clientConfig =
  cc_Address :: string
  cc_ExecutorType :: executorType
  cc_InstanceID :: instanceID
  cc_Capacity :: u32
  cc_HeartbeatInterval :: duration
  cc_DialTimeout :: duration
  cc_WriteTimeout :: duration
  cc_DrainTimeout :: duration
  cc_ReconnectInitialInterval :: duration
  cc_ReconnectMaxInterval :: duration
  cc_OutgoingQueueSize :: int
  cc_DefaultBackfill :: backfillMode
  cc_Limits :: limits

definition clientConfig_normalized :: "instanceID \<Rightarrow> clientConfig \<Rightarrow> schedErr + clientConfig" where
  "clientConfig_normalized fresh c =
     (if cc_Address c = '''' then Inl ErrEmptyAddress
      else if cc_ExecutorType c = '''' then Inl ErrEmptyExecutorType
      else Inr (c\<lparr>
        cc_InstanceID := (if cc_InstanceID c = '''' then fresh else cc_InstanceID c),
        cc_Capacity := (if cc_Capacity c = 0 then DefaultCapacity else cc_Capacity c),
        cc_HeartbeatInterval := positiveOr (cc_HeartbeatInterval c) DefaultHeartbeatInterval,
        cc_DialTimeout := positiveOr (cc_DialTimeout c) DefaultDialTimeout,
        cc_WriteTimeout := positiveOr (cc_WriteTimeout c) DefaultWriteTimeout,
        cc_DrainTimeout := positiveOr (cc_DrainTimeout c) DefaultDrainTimeout,
        cc_ReconnectInitialInterval := positiveOr (cc_ReconnectInitialInterval c) DefaultReconnectInitialInterval,
        cc_ReconnectMaxInterval := positiveOr (cc_ReconnectMaxInterval c) DefaultReconnectMaxInterval,
        cc_OutgoingQueueSize := positiveOr (cc_OutgoingQueueSize c) DefaultOutgoingQueueSize\<rparr>))"

text \<open>Of the configuration of a local scheduler, all but the store it is given.\<close>

record localConfig =
  lc_ExecutorType :: executorType
  lc_InstanceID :: instanceID
  lc_Capacity :: u32
  lc_DrainTimeout :: duration
  lc_QueueSize :: int
  lc_Labels :: "label list"
  lc_Engine :: config

definition localConfig_normalized :: "instanceID \<Rightarrow> localConfig \<Rightarrow> schedErr + localConfig" where
  "localConfig_normalized fresh c =
     (if lc_ExecutorType c = '''' then Inl ErrEmptyExecutorType
      else Inr (c\<lparr>
        lc_InstanceID := (if lc_InstanceID c = '''' then fresh else lc_InstanceID c),
        lc_Capacity := (if lc_Capacity c = 0 then DefaultCapacity else lc_Capacity c),
        lc_DrainTimeout := positiveOr (lc_DrainTimeout c) DefaultDrainTimeout,
        lc_QueueSize := positiveOr (lc_QueueSize c) DefaultOutgoingQueueSize\<rparr>))"

section \<open>Heartbeats\<close>

definition resolveHeartbeatInterval :: "clientConfig \<Rightarrow> u32 \<Rightarrow> duration" where
  "resolveHeartbeatInterval cfg assignedMillis =
     (let interval = int64 (uint assignedMillis * millisecond) in
      if interval \<le> 0 then cc_HeartbeatInterval cfg
      else if interval < MinHeartbeatInterval then MinHeartbeatInterval
      else
        let ceiling = (if cc_HeartbeatInterval cfg < go_div MaxHeartbeatInterval MaxHeartbeatFactor
                       then int64 (cc_HeartbeatInterval cfg * MaxHeartbeatFactor) else MaxHeartbeatInterval);
            ceiling = (if ceiling < MinHeartbeatInterval then MinHeartbeatInterval else ceiling)
        in if ceiling < interval then ceiling else interval)"

text \<open>The deadline \<open>readLoop\<close> gives each read.\<close>

definition readTimeout :: "duration \<Rightarrow> duration" where
  "readTimeout heartbeatInterval = int64 (heartbeatInterval * readDeadlineMultiplier)"

definition localHeartbeatInterval :: "duration \<Rightarrow> duration" where
  "localHeartbeatInterval lease = go_div (positiveOr lease DefaultLease) heartbeatsPerLease"

text \<open>\<open>time.NewTicker\<close> panics when its interval is not positive.\<close>

definition NewTicker_panics :: "duration \<Rightarrow> bool" where
  "NewTicker_panics interval \<longleftrightarrow> interval \<le> 0"

section \<open>Jobs\<close>

record 'v jobSpec =
  js_Key :: string
  js_ExecutorType :: executorType
  js_Function :: functionSpec
  js_Args :: "'v option"
  js_Schedule :: scheduleSpec
  js_Disabled :: bool
  js_Backfill :: backfillSpec
  js_Retry :: retrySpec
  js_Overlap :: overlapPolicy
  js_Pin :: pinSpec
  js_ResultMode :: resultMode

definition stampFunction :: "'x functionRegistry \<Rightarrow> functionSpec \<Rightarrow> functionSpec" where
  "stampFunction fr f =
     (case lookupFunction fr (f_Name f) (f_Version f) of
        None \<Rightarrow> f
      | Some loc \<Rightarrow>
          f\<lparr>f_InputSignature := (if f_InputSignature f = '''' then f_InputSignature (pf_spec loc) else f_InputSignature f),
            f_OutputSignature := (if f_OutputSignature f = '''' then f_OutputSignature (pf_spec loc) else f_OutputSignature f)\<rparr>)"

definition buildJobUpsert ::
  "('v \<Rightarrow> string + byte_list) \<Rightarrow> (jobUUID \<Rightarrow> string) \<Rightarrow> jobUUID \<Rightarrow> 'v jobSpec option \<Rightarrow> 'x functionRegistry
     \<Rightarrow> executorType \<Rightarrow> backfillMode \<Rightarrow> schedErr + jobUpsertMsg" where
  "buildJobUpsert encode uuidText fresh spec fr defaultExecutorType defaultBackfill =
     (case spec of
        None \<Rightarrow> Inl ErrNilJobSpec
      | Some spec \<Rightarrow>
          if f_Name (js_Function spec) = '''' then Inl ErrEmptyFunctionName
          else
            let executorType = (if js_ExecutorType spec = '''' then defaultExecutorType else js_ExecutorType spec);
                f = (if executorType = defaultExecutorType then stampFunction fr (js_Function spec) else js_Function spec);
                backfill = (if b_Mode (js_Backfill spec) = BackfillModeInherit
                            then (js_Backfill spec)\<lparr>b_Mode := defaultBackfill\<rparr> else js_Backfill spec)
            in (case (case js_Args spec of None \<Rightarrow> Inr [] | Some v \<Rightarrow> encode v) of
                  Inl t \<Rightarrow> Inl (ErrCodec t)
                | Inr args \<Rightarrow> Inr \<lparr>
                    ju_JobUUID = fresh,
                    ju_JobKey = (if js_Key spec = '''' then uuidText fresh else js_Key spec),
                    ju_ExecutorType = executorType, ju_Function = f, ju_Args = args,
                    ju_Schedule = js_Schedule spec, ju_Enabled = (\<not> js_Disabled spec), ju_Backfill = backfill,
                    ju_Retry = js_Retry spec, ju_Overlap = js_Overlap spec, ju_Pin = js_Pin spec,
                    ju_ResultMode = js_ResultMode spec\<rparr>))"

definition wireErrorText :: "wireError option \<Rightarrow> string" where
  "wireErrorText er = (case er of None \<Rightarrow> ''no error detail'' | Some w \<Rightarrow> e_Message w)"

section \<open>What they guarantee\<close>

text \<open>A job submitted to the client's own type under a function registered there passes the check of
  the executor whenever its signatures were left empty.\<close>

lemma stamped_compatible:
  assumes "lookupFunction fr (f_Name f) (f_Version f) = Some loc"
    and "f_InputSignature f = ''''" "f_OutputSignature f = ''''"
  shows "functionCompatible (stampFunction fr f) (pf_spec loc)"
  using assms by (simp add: stampFunction_def functionCompatible_def)

lemma stampFunction_key [simp]: "f_Name (stampFunction fr f) = f_Name f" "f_Version (stampFunction fr f) = f_Version f"
  by (simp_all add: stampFunction_def split: option.split)

text \<open>
  The cadence a client agrees to is bounded, whatever the scheduler assigns. An assigned interval
  that is not zero gives a cadence between a tenth of a second and five minutes, no longer than ten times
  the configured interval unless that is below the minimum, and never longer than what was assigned unless that is
  below the minimum; the read deadline is then exactly three times it, without overflow. An
  assigned zero gives the configured interval, which nothing bounds: above a third of the largest duration, some 97 years, the
  read deadline wraps to a negative one.
\<close>

theorem heartbeat_cadence_bounded:
  assumes cfg: "clientConfig_normalized fresh c = Inr cfg" and range: "in_int64 (cc_HeartbeatInterval c)"
  shows "(assigned \<noteq> 0 \<longrightarrow>
      (let interval = resolveHeartbeatInterval cfg assigned in
       100 * millisecond \<le> interval \<and> interval \<le> 5 * minute
       \<and> interval \<le> max (100 * millisecond) (10 * cc_HeartbeatInterval cfg)
       \<and> interval \<le> max (100 * millisecond) (uint assigned * millisecond)
       \<and> readTimeout interval = 3 * interval))
    \<and> resolveHeartbeatInterval cfg 0 = cc_HeartbeatInterval cfg \<and> 0 < cc_HeartbeatInterval cfg
    \<and> (0 < readTimeout (resolveHeartbeatInterval cfg 0) \<or> maxInt64 div 3 < cc_HeartbeatInterval cfg)"
proof -
  let ?h = "cc_HeartbeatInterval cfg" and ?i = "resolveHeartbeatInterval cfg assigned"
  have h: "?h = positiveOr (cc_HeartbeatInterval c) DefaultHeartbeatInterval"
    using cfg by (auto simp: clientConfig_normalized_def split: if_splits)
  then have pos: "0 < ?h" "?h \<le> maxInt64"
    using range by (auto simp: positiveOr_def client_constants in_int64_def maxInt64_def)
  have u: "0 \<le> uint assigned" "uint assigned < 2 ^ 32"
    using uint_bounded [of assigned] by simp_all
  have millis: "int64 (uint assigned * 1000000) = uint assigned * 1000000"
    using u by (intro int64_id in_int64I) (simp_all add: maxInt64_def)
  have zero: "assigned \<noteq> 0 \<Longrightarrow> 0 < uint assigned" using u(1) by (metis order_le_less uint_0_iff)
  have tenth: "go_div MaxHeartbeatInterval MaxHeartbeatFactor = 30 * second" by (simp add: client_constants)
  have ten: "?h < 30 * second \<Longrightarrow> int64 (?h * MaxHeartbeatFactor) = ?h * 10"
    using pos by (simp add: in_int64_def minInt64_def maxInt64_def client_constants)
  have i: "100 * millisecond \<le> ?i \<and> ?i \<le> 5 * minute \<and> ?i \<le> max (100 * millisecond) (10 * ?h)
      \<and> ?i \<le> max (100 * millisecond) (uint assigned * millisecond)" if "assigned \<noteq> 0"
    using zero [OF that] ten pos
    by (auto simp: resolveHeartbeatInterval_def Let_def tenth client_constants millis)
  have "readTimeout ?i = 3 * ?i" if "assigned \<noteq> 0"
    using i [OF that] by (simp add: readTimeout_def client_constants in_int64_def minInt64_def maxInt64_def)
  moreover have "resolveHeartbeatInterval cfg 0 = ?h"
    by (simp add: resolveHeartbeatInterval_def int64_def)
  moreover have "0 < readTimeout ?h \<or> maxInt64 div 3 < ?h"
    using pos by (auto simp: readTimeout_def client_constants in_int64_def minInt64_def maxInt64_def)
  ultimately show ?thesis using i pos by (simp add: Let_def)
qed

definition demo_client_config :: clientConfig where
  "demo_client_config = \<lparr>cc_Address = ''a'', cc_ExecutorType = ''t'', cc_InstanceID = '''', cc_Capacity = 0,
     cc_HeartbeatInterval = 0, cc_DialTimeout = 0, cc_WriteTimeout = 0, cc_DrainTimeout = 0,
     cc_ReconnectInitialInterval = 0, cc_ReconnectMaxInterval = 0, cc_OutgoingQueueSize = 0, cc_DefaultBackfill = 0,
     cc_Limits = DefaultLimits\<rparr>"

theorem heartbeat_cadence_bounded_witness:
  "\<exists>cfg. clientConfig_normalized ''i'' demo_client_config = Inr cfg \<and> resolveHeartbeatInterval cfg 0 = 5 * second
    \<and> resolveHeartbeatInterval cfg 4000000000 \<le> 5 * minute"
proof -
  obtain cfg where cfg: "clientConfig_normalized ''i'' demo_client_config = Inr cfg"
    by (simp add: clientConfig_normalized_def demo_client_config_def)
  have range: "in_int64 (cc_HeartbeatInterval demo_client_config)"
    by (simp add: demo_client_config_def in_int64_def minInt64_def maxInt64_def)
  have "cc_HeartbeatInterval cfg = 5 * second"
    using cfg by (auto simp: clientConfig_normalized_def demo_client_config_def positiveOr_def DefaultHeartbeatInterval_def)
  with heartbeat_cadence_bounded [OF cfg range, of 4000000000] cfg show ?thesis by (auto simp: Let_def)
qed

text \<open>A lease of one or two nanoseconds gives a local scheduler a ticker that panics.\<close>

lemma local_cadence: "0 < lease \<Longrightarrow> NewTicker_panics (localHeartbeatInterval lease) \<longleftrightarrow> lease < 3"
  by (auto simp: NewTicker_panics_def localHeartbeatInterval_def positiveOr_def heartbeatsPerLease_def)

end
