(* ===== verification/Message_Codec.thy ===== *)
theory Message_Codec
  imports Messages
begin

text \<open>
  Decoding is the exact inverse of encoding, field by field and message by message: a payload is
  accepted exactly when it is the encoding of a message within the limits.
\<close>

section \<open>Readers of a whole payload\<close>

definition accepts_all :: "'a reader \<Rightarrow> (limits \<Rightarrow> byte_list \<Rightarrow> 'a \<Rightarrow> bool) \<Rightarrow> bool" where
  "accepts_all rd S \<longleftrightarrow> (\<forall>r v r'. pr_ok r \<longrightarrow>
     (rd r = Inr (v, r') \<longleftrightarrow> S (pr_limits r) (rest r) v \<and> r' = advance (length (rest r)) r))"

lemma all_cong: "accepts_all rd S \<Longrightarrow> (\<And>l bs v. S l bs v \<longleftrightarrow> T l bs v) \<Longrightarrow> accepts_all rd T"
  by (simp add: accepts_all_def)

lemma all_finish: "accepts_all (bindR finish (\<lambda>_. returnR v)) (\<lambda>l bs w. bs = [] \<and> w = v)"
  by (auto simp: accepts_all_def bindR_def finish_def returnR_def remaining_rest)

lemma all_finish_unit: "accepts_all finish (\<lambda>l bs w. bs = [])"
  by (auto simp: accepts_all_def finish_def remaining_rest)

lemma all_bind:
  assumes rd: "accepts rd S" and k: "\<And>v. accepts_all (k v) (T v)"
  shows "accepts_all (bindR rd k) (\<lambda>l bs w. \<exists>a v b. bs = a @ b \<and> S l a v \<and> T v l b w)"
  unfolding accepts_all_def
proof (intro allI impI)
  fix r w r''
  assume ok: "pr_ok r"
  have "bindR rd k r = Inr (w, r'') \<longleftrightarrow> (\<exists>v r'. rd r = Inr (v, r') \<and> k v r' = Inr (w, r''))"
    by (auto simp: bindR_def split: sum.splits)
  also have "\<dots> \<longleftrightarrow> (\<exists>v a b. S (pr_limits r) a v \<and> rest r = a @ b \<and> k v (advance (length a) r) = Inr (w, r''))"
    by (auto simp: acceptsD [OF rd ok])
  also have "\<dots> \<longleftrightarrow> (\<exists>v a b. S (pr_limits r) a v \<and> rest r = a @ b \<and> T v (pr_limits r) b w
      \<and> r'' = advance (length (rest r)) r)"
  proof ((rule iff_exI)+, goal_cases)
    case (1 v a b)
    show ?case
      using k [of v] pr_ok_advance [OF ok, of a b] by (auto simp: accepts_all_def)
  qed
  also have "\<dots> \<longleftrightarrow> (\<exists>a v b. rest r = a @ b \<and> S (pr_limits r) a v \<and> T v (pr_limits r) b w)
      \<and> r'' = advance (length (rest r)) r"
    by blast
  finally show "bindR rd k r = Inr (w, r'') \<longleftrightarrow> \<dots>" .
qed

lemma all_bind_pair:
  assumes "accepts rd S" and "\<And>x a. accepts_all (k x a) (T x a)"
  shows "accepts_all (bindR rd (\<lambda>(x, a). k x a)) (\<lambda>l bs w. \<exists>c x a b. bs = c @ b \<and> S l c (x, a) \<and> T x a l b w)"
  by (rule all_cong [OF all_bind [OF assms(1), of _ "\<lambda>p. T (fst p) (snd p)"]]) (use assms(2) in auto)

lemma all_map:
  assumes "accepts_all rd S"
  shows "accepts_all (mapR f rd) (\<lambda>l bs w. \<exists>v. S l bs v \<and> w = f v)"
proof -
  have "mapR f rd r = Inr (w, r') \<longleftrightarrow> (\<exists>v. rd r = Inr (v, r') \<and> w = f v)" for r w r'
    by (auto simp: mapR_def bindR_def returnR_def split: sum.splits)
  with assms show ?thesis
    unfolding accepts_all_def by blast
qed

section \<open>Composite fields\<close>

definition okFunctionSpec :: "limits \<Rightarrow> functionSpec \<Rightarrow> bool" where
  "okFunctionSpec l f \<longleftrightarrow> length (f_Name f) \<le> unat (l_MaxStringLen l) \<and> length (f_Version f) \<le> unat (l_MaxStringLen l)
     \<and> length (f_InputSignature f) \<le> unat (l_MaxStringLen l) \<and> length (f_OutputSignature f) \<le> unat (l_MaxStringLen l)"

definition encFunctionSpec :: "functionSpec \<Rightarrow> byte_list" where
  "encFunctionSpec f = encString (f_Name f) @ encString (f_Version f)
     @ encString (f_InputSignature f) @ encString (f_OutputSignature f)"

interpretation functionSpec_field: wire_codec okFunctionSpec encFunctionSpec decodeFunctionSpec
  unfolding wire_codec_def decodeFunctionSpec_def
  apply (rule accepts_cong)
   apply (rule accepts_bind string_field.exact accepts_return)+
  subgoal for l bs f by (cases f) (auto simp: okFunctionSpec_def encFunctionSpec_def)
  done

definition okWireError :: "limits \<Rightarrow> wireError \<Rightarrow> bool" where
  "okWireError l e \<longleftrightarrow> length (e_Message e) \<le> unat (l_MaxStringLen l)"

definition encWireError :: "wireError \<Rightarrow> byte_list" where
  "encWireError e = be_bytes 2 (e_Code e) @ [boolByte (e_Retryable e)] @ encString (e_Message e)"

interpretation wireError_field: wire_codec okWireError encWireError decodeWireError
  unfolding wire_codec_def decodeWireError_def
  apply (rule accepts_cong)
   apply (rule accepts_bind uint16.exact bool_field.exact string_field.exact accepts_return)+
  subgoal for l bs e by (cases e) (auto simp: okWireError_def encWireError_def)
  done

definition okOptional :: "limits \<Rightarrow> wireError option \<Rightarrow> bool" where
  "okOptional l e = (case e of None \<Rightarrow> True | Some e \<Rightarrow> okWireError l e)"

definition encOptional :: "wireError option \<Rightarrow> byte_list" where
  "encOptional e = (case e of None \<Rightarrow> [boolByte False] | Some e \<Rightarrow> boolByte True # encWireError e)"

interpretation optional_field: wire_codec okOptional encOptional decodeOptionalWireError
proof -
  have "accepts (if \<not> present then returnR None else bindR decodeWireError (\<lambda>e. returnR (Some e)))
      (\<lambda>l bs v. if present then \<exists>e. v = Some e \<and> okWireError l e \<and> bs = encWireError e else bs = [] \<and> v = None)" for present
  proof (cases present)
    case True
    then show ?thesis
      using accepts_cong [OF accepts_map [OF wireError_field.exact, of Some], of
          "\<lambda>l bs v. \<exists>e. v = Some e \<and> okWireError l e \<and> bs = encWireError e"] by auto
  next
    case False
    then show ?thesis
      using accepts_return [of None] by simp
  qed
  from accepts_bind [OF bool_field.exact this]
  show "wire_codec okOptional encOptional decodeOptionalWireError"
    unfolding wire_codec_def decodeOptionalWireError_def
    by (rule accepts_cong) (auto simp: okOptional_def encOptional_def ex_bool_eq split: option.splits if_splits)
qed

interpretation executionRef_field: wire_codec "\<lambda>l p. True" "\<lambda>(x, a). be_bytes 8 x @ be_bytes 8 a" decodeExecutionRef
  unfolding wire_codec_def decodeExecutionRef_def
  apply (rule accepts_cong)
   apply (rule accepts_bind uint64.exact accepts_return)+
  subgoal for l bs p by (cases p) auto
  done

definition encSchedule :: "scheduleSpec \<Rightarrow> byte_list" where
  "encSchedule s = [s_Kind s] @ be_bytes 8 (word_of_int (s_StartUnixNano s) :: u64) @ be_bytes 8 (s_IntervalMillis s)"

interpretation schedule_field: wire_codec "\<lambda>l s. in_int64 (s_StartUnixNano s)" encSchedule decodeScheduleSpec
  unfolding wire_codec_def decodeScheduleSpec_def
  apply (rule accepts_cong)
   apply (rule accepts_bind uint8.exact int64_field.exact uint64.exact accepts_return)+
  subgoal for l bs s by (cases s) (auto simp: encSchedule_def)
  done

definition encBackfill :: "backfillSpec \<Rightarrow> byte_list" where
  "encBackfill b = [b_Mode b] @ be_bytes 4 (b_MaxCount b) @ be_bytes 8 (b_MaxAgeMillis b)"

interpretation backfill_field: wire_codec "\<lambda>l b. True" encBackfill decodeBackfillSpec
  unfolding wire_codec_def decodeBackfillSpec_def
  apply (rule accepts_cong)
   apply (rule accepts_bind uint8.exact uint32.exact uint64.exact accepts_return)+
  subgoal for l bs b by (cases b) (auto simp: encBackfill_def)
  done

definition encPin :: "pinSpec \<Rightarrow> byte_list" where
  "encPin p = encString (p_Label p) @ [p_Policy p]"

interpretation pin_field: wire_codec "\<lambda>l p. length (p_Label p) \<le> unat (l_MaxLabelLen l)" encPin decodePinSpec
  unfolding wire_codec_def decodePinSpec_def
  apply (rule accepts_cong)
   apply (rule accepts_bind label_field.exact uint8.exact accepts_return)+
  subgoal for l bs p by (cases p) (auto simp: encPin_def)
  done

definition encRetry :: "retrySpec \<Rightarrow> byte_list" where
  "encRetry s = [rt_Policy s] @ be_bytes 4 (rt_MaxRetries s) @ be_bytes 8 (rt_InitialDelayMillis s)
     @ be_bytes 8 (rt_MaxDelayMillis s) @ be_bytes 8 (rt_MultiplierBits s)"

interpretation retry_field: wire_codec "\<lambda>l s. True" encRetry decodeRetrySpec
  unfolding wire_codec_def decodeRetrySpec_def
  apply (rule accepts_cong)
   apply (rule accepts_bind uint8.exact uint32.exact uint64.exact accepts_return)+
  subgoal for l bs s by (cases s) (auto simp: encRetry_def)
  done

definition okFunctions :: "limits \<Rightarrow> functionSpec list \<Rightarrow> bool" where
  "okFunctions l fs \<longleftrightarrow> length fs \<le> unat (l_MaxFunctions l) \<and> (\<forall>f \<in> set fs. okFunctionSpec l f)"

interpretation functions_field: wire_codec okFunctions "encList encFunctionSpec" decodeFunctions
proof -
  have "minFunctionSpecSize \<le> length (encFunctionSpec v)" for v
    by (simp add: encFunctionSpec_def encString_def encSized_def minFunctionSpecSize_def)
  from counted_exact [OF functionSpec_field.wire_codec_axioms this, of l_MaxFunctions ErrTooManyFunctions]
  show "wire_codec okFunctions (encList encFunctionSpec) decodeFunctions"
    unfolding wire_codec_def decodeFunctions_def okFunctions_def by (simp add: minFunctionSpecSize_def)
qed

lemma encode_composite:
  "encodeFunctionSpec w f = w @ encFunctionSpec f" "encodeWireError w e = w @ encWireError e"
  "encodeOptionalWireError w oe = w @ encOptional oe"
  by (simp_all add: encodeFunctionSpec_def encodeWireError_def encodeOptionalWireError_def write_simps
      encFunctionSpec_def encWireError_def encOptional_def split: option.splits)

lemma encode_specs: "foldl encodeFunctionSpec w fs = w @ concat (map encFunctionSpec fs)"
  by (induction fs arbitrary: w) (simp_all add: encode_composite)

lemmas marshal_simps = write_simps encode_composite encodeLabels_simp encode_specs newPayloadWriter_def Let_def
  encSchedule_def encBackfill_def encPin_def encRetry_def encList_def

lemmas field_exact = uint8.exact uint16.exact uint32.exact uint64.exact int64_field.exact bool_field.exact
  bytes_field.exact result_field.exact string_field.exact label_field.exact uuid_field.exact labels_field.exact
  functionSpec_field.exact wireError_field.exact optional_field.exact executionRef_field.exact
  schedule_field.exact backfill_field.exact pin_field.exact retry_field.exact functions_field.exact

section \<open>Messages\<close>

text \<open>The limits the fields of a message must keep for it to travel.\<close>

fun wireOk :: "limits \<Rightarrow> message \<Rightarrow> bool" where
  "wireOk l (RegisterMsg m) \<longleftrightarrow> length (rm_ExecutorType m) \<le> unat (l_MaxStringLen l)
     \<and> length (rm_InstanceID m) \<le> unat (l_MaxStringLen l) \<and> okFunctions l (rm_Functions m) \<and> okLabels l (rm_Labels m)"
| "wireOk l (RegisterAckMsg m) \<longleftrightarrow> okOptional l (ra_Error m)"
| "wireOk l (HeartbeatMsg m) \<longleftrightarrow> True"
| "wireOk l HeartbeatAckMsg \<longleftrightarrow> True"
| "wireOk l (ExecRequestMsg m) \<longleftrightarrow> length (eq_JobUUID m) = uuidSize \<and> okFunctionSpec l (eq_Function m)
     \<and> length (eq_Args m) \<le> unat (l_MaxBytesLen l) \<and> in_int64 (eq_ScheduledUnixNano m)"
| "wireOk l (ExecAcceptMsg m) \<longleftrightarrow> okOptional l (ea_Error m)"
| "wireOk l (ExecResultMsg m) \<longleftrightarrow> length (er_Result m) \<le> unat (l_MaxBytesLen l) \<and> okOptional l (er_Error m)"
| "wireOk l (CancelMsg m) \<longleftrightarrow> length (cn_Reason m) \<le> unat (l_MaxStringLen l)"
| "wireOk l (FaultMsg m) \<longleftrightarrow> okWireError l (ft_Cause m)"
| "wireOk l (JobUpsertMsg m) \<longleftrightarrow> length (ju_JobUUID m) = uuidSize \<and> length (ju_JobKey m) \<le> unat (l_MaxStringLen l)
     \<and> length (ju_ExecutorType m) \<le> unat (l_MaxStringLen l) \<and> okFunctionSpec l (ju_Function m)
     \<and> length (ju_Args m) \<le> unat (l_MaxBytesLen l) \<and> in_int64 (s_StartUnixNano (ju_Schedule m))
     \<and> length (p_Label (ju_Pin m)) \<le> unat (l_MaxLabelLen l)"
| "wireOk l (JobUpsertAckMsg m) \<longleftrightarrow> length (jk_JobKey m) \<le> unat (l_MaxStringLen l)
     \<and> length (jk_JobUUID m) = uuidSize \<and> okOptional l (jk_Error m)"
| "wireOk l (ShutdownMsg m) \<longleftrightarrow> length (sd_Reason m) \<le> unat (l_MaxStringLen l)"
| "wireOk l (LabelUpdateMsg m) \<longleftrightarrow> okLabels l (lu_Announce m) \<and> okLabels l (lu_Withdraw m)"
| "wireOk l (LabelUpdateAckMsg m) \<longleftrightarrow> okOptional l (la_Error m)"
| "wireOk l (ResultDeliveryMsg m) \<longleftrightarrow> length (rd_JobUUID m) = uuidSize
     \<and> length (rd_Result m) \<le> unat (l_MaxResultBytes l) \<and> okOptional l (rd_Error m)"
| "wireOk l (ResultDeliveryAckMsg m) \<longleftrightarrow> length (rk_JobUUID m) = uuidSize"
| "wireOk l (JobDeleteMsg m) \<longleftrightarrow> length (jd_JobKey m) \<le> unat (l_MaxStringLen l)
     \<and> length (jd_ExecutorType m) \<le> unat (l_MaxStringLen l)"
| "wireOk l (JobDeleteAckMsg m) \<longleftrightarrow> length (dk_JobKey m) \<le> unat (l_MaxStringLen l) \<and> okOptional l (dk_Error m)"

lemma register_exact: "accepts_all unmarshalRegister (\<lambda>l bs m. wireOk l (RegisterMsg m) \<and> bs = marshalRegister m)"
  unfolding unmarshalRegister_def
  apply (rule all_cong)
   apply (rule all_finish all_bind field_exact)+
  subgoal for l bs m by (cases m) (auto simp: marshalRegister_def marshal_simps)
  done

lemma registerAck_exact:
  "accepts_all unmarshalRegisterAck (\<lambda>l bs m. wireOk l (RegisterAckMsg m) \<and> bs = marshalRegisterAck m)"
  unfolding unmarshalRegisterAck_def
  apply (rule all_cong)
   apply (rule all_finish all_bind field_exact)+
  subgoal for l bs m by (cases m) (auto simp: marshalRegisterAck_def marshal_simps)
  done

lemma heartbeat_exact: "accepts_all unmarshalHeartbeat (\<lambda>l bs m. wireOk l (HeartbeatMsg m) \<and> bs = marshalHeartbeat m)"
  unfolding unmarshalHeartbeat_def
  apply (rule all_cong)
   apply (rule all_finish all_bind field_exact)+
  subgoal for l bs m by (cases m) (auto simp: marshalHeartbeat_def marshal_simps)
  done

lemma execRequest_exact:
  "accepts_all unmarshalExecRequest (\<lambda>l bs m. wireOk l (ExecRequestMsg m) \<and> bs = marshalExecRequest m)"
  unfolding unmarshalExecRequest_def
  apply (rule all_cong)
   apply (rule all_finish all_bind_pair all_bind field_exact)+
  subgoal for l bs m by (cases m) (auto simp: marshalExecRequest_def marshal_simps)
  done

lemma execAccept_exact:
  "accepts_all unmarshalExecAccept (\<lambda>l bs m. wireOk l (ExecAcceptMsg m) \<and> bs = marshalExecAccept m)"
  unfolding unmarshalExecAccept_def
  apply (rule all_cong)
   apply (rule all_finish all_bind_pair all_bind field_exact)+
  subgoal for l bs m by (cases m) (auto simp: marshalExecAccept_def marshal_simps)
  done

lemma execResult_exact:
  "accepts_all unmarshalExecResult (\<lambda>l bs m. wireOk l (ExecResultMsg m) \<and> bs = marshalExecResult m)"
  unfolding unmarshalExecResult_def
  apply (rule all_cong)
   apply (rule all_finish all_bind_pair all_bind field_exact)+
  subgoal for l bs m by (cases m) (auto simp: marshalExecResult_def marshal_simps)
  done

lemma cancel_exact:
  "accepts_all unmarshalCancel (\<lambda>l bs m. wireOk l (CancelMsg m) \<and> bs = marshalCancel m)"
  unfolding unmarshalCancel_def
  apply (rule all_cong)
   apply (rule all_finish all_bind_pair all_bind field_exact)+
  subgoal for l bs m by (cases m) (auto simp: marshalCancel_def marshal_simps)
  done

lemma fault_exact:
  "accepts_all unmarshalFault (\<lambda>l bs m. wireOk l (FaultMsg m) \<and> bs = marshalFault m)"
  unfolding unmarshalFault_def
  apply (rule all_cong)
   apply (rule all_finish all_bind_pair all_bind field_exact)+
  subgoal for l bs m by (cases m) (auto simp: marshalFault_def marshal_simps)
  done

lemma jobUpsert_exact:
  "accepts_all unmarshalJobUpsert (\<lambda>l bs m. wireOk l (JobUpsertMsg m) \<and> bs = marshalJobUpsert m)"
  unfolding unmarshalJobUpsert_def
  apply (rule all_cong)
   apply (rule all_finish all_bind_pair all_bind field_exact)+
  subgoal for l bs m by (cases m) (auto simp: marshalJobUpsert_def marshal_simps)
  done

lemma jobUpsertAck_exact:
  "accepts_all unmarshalJobUpsertAck (\<lambda>l bs m. wireOk l (JobUpsertAckMsg m) \<and> bs = marshalJobUpsertAck m)"
  unfolding unmarshalJobUpsertAck_def
  apply (rule all_cong)
   apply (rule all_finish all_bind_pair all_bind field_exact)+
  subgoal for l bs m by (cases m) (auto simp: marshalJobUpsertAck_def marshal_simps)
  done

lemma shutdown_exact:
  "accepts_all unmarshalShutdown (\<lambda>l bs m. wireOk l (ShutdownMsg m) \<and> bs = marshalShutdown m)"
  unfolding unmarshalShutdown_def
  apply (rule all_cong)
   apply (rule all_finish all_bind_pair all_bind field_exact)+
  subgoal for l bs m by (cases m) (auto simp: marshalShutdown_def marshal_simps)
  done

lemma labelUpdate_exact:
  "accepts_all unmarshalLabelUpdate (\<lambda>l bs m. wireOk l (LabelUpdateMsg m) \<and> bs = marshalLabelUpdate m)"
  unfolding unmarshalLabelUpdate_def
  apply (rule all_cong)
   apply (rule all_finish all_bind_pair all_bind field_exact)+
  subgoal for l bs m by (cases m) (auto simp: marshalLabelUpdate_def marshal_simps)
  done

lemma labelUpdateAck_exact:
  "accepts_all unmarshalLabelUpdateAck (\<lambda>l bs m. wireOk l (LabelUpdateAckMsg m) \<and> bs = marshalLabelUpdateAck m)"
  unfolding unmarshalLabelUpdateAck_def
  apply (rule all_cong)
   apply (rule all_finish all_bind_pair all_bind field_exact)+
  subgoal for l bs m by (cases m) (auto simp: marshalLabelUpdateAck_def marshal_simps)
  done

lemma resultDelivery_exact:
  "accepts_all unmarshalResultDelivery (\<lambda>l bs m. wireOk l (ResultDeliveryMsg m) \<and> bs = marshalResultDelivery m)"
  unfolding unmarshalResultDelivery_def
  apply (rule all_cong)
   apply (rule all_finish all_bind_pair all_bind field_exact)+
  subgoal for l bs m by (cases m) (auto simp: marshalResultDelivery_def marshal_simps)
  done

lemma resultDeliveryAck_exact:
  "accepts_all unmarshalResultDeliveryAck (\<lambda>l bs m. wireOk l (ResultDeliveryAckMsg m) \<and> bs = marshalResultDeliveryAck m)"
  unfolding unmarshalResultDeliveryAck_def
  apply (rule all_cong)
   apply (rule all_finish all_bind_pair all_bind field_exact)+
  subgoal for l bs m by (cases m) (auto simp: marshalResultDeliveryAck_def marshal_simps)
  done

lemma jobDelete_exact:
  "accepts_all unmarshalJobDelete (\<lambda>l bs m. wireOk l (JobDeleteMsg m) \<and> bs = marshalJobDelete m)"
  unfolding unmarshalJobDelete_def
  apply (rule all_cong)
   apply (rule all_finish all_bind_pair all_bind field_exact)+
  subgoal for l bs m by (cases m) (auto simp: marshalJobDelete_def marshal_simps)
  done

lemma jobDeleteAck_exact:
  "accepts_all unmarshalJobDeleteAck (\<lambda>l bs m. wireOk l (JobDeleteAckMsg m) \<and> bs = marshalJobDeleteAck m)"
  unfolding unmarshalJobDeleteAck_def
  apply (rule all_cong)
   apply (rule all_finish all_bind_pair all_bind field_exact)+
  subgoal for l bs m by (cases m) (auto simp: marshalJobDeleteAck_def marshal_simps)
  done

lemma heartbeatAck_exact: "accepts_all unmarshalHeartbeatAck (\<lambda>l bs u. bs = [])"
  unfolding unmarshalHeartbeatAck_def by (rule all_finish_unit)

lemmas message_exact = register_exact registerAck_exact heartbeat_exact heartbeatAck_exact execRequest_exact
  execAccept_exact execResult_exact cancel_exact fault_exact jobUpsert_exact jobUpsertAck_exact shutdown_exact
  labelUpdate_exact labelUpdateAck_exact resultDelivery_exact resultDeliveryAck_exact jobDelete_exact
  jobDeleteAck_exact

section \<open>The decoder of a message type\<close>

lemma decoderOf_type [simp]:
  "decoderOf MessageTypeRegister = Some (mapR RegisterMsg unmarshalRegister)"
  "decoderOf MessageTypeRegisterAck = Some (mapR RegisterAckMsg unmarshalRegisterAck)"
  "decoderOf MessageTypeHeartbeat = Some (mapR HeartbeatMsg unmarshalHeartbeat)"
  "decoderOf MessageTypeHeartbeatAck = Some (mapR (\<lambda>_. HeartbeatAckMsg) unmarshalHeartbeatAck)"
  "decoderOf MessageTypeExecRequest = Some (mapR ExecRequestMsg unmarshalExecRequest)"
  "decoderOf MessageTypeExecAccept = Some (mapR ExecAcceptMsg unmarshalExecAccept)"
  "decoderOf MessageTypeExecResult = Some (mapR ExecResultMsg unmarshalExecResult)"
  "decoderOf MessageTypeCancel = Some (mapR CancelMsg unmarshalCancel)"
  "decoderOf MessageTypeProtocolError = Some (mapR FaultMsg unmarshalFault)"
  "decoderOf MessageTypeJobUpsert = Some (mapR JobUpsertMsg unmarshalJobUpsert)"
  "decoderOf MessageTypeJobUpsertAck = Some (mapR JobUpsertAckMsg unmarshalJobUpsertAck)"
  "decoderOf MessageTypeShutdown = Some (mapR ShutdownMsg unmarshalShutdown)"
  "decoderOf MessageTypeLabelUpdate = Some (mapR LabelUpdateMsg unmarshalLabelUpdate)"
  "decoderOf MessageTypeLabelUpdateAck = Some (mapR LabelUpdateAckMsg unmarshalLabelUpdateAck)"
  "decoderOf MessageTypeResultDelivery = Some (mapR ResultDeliveryMsg unmarshalResultDelivery)"
  "decoderOf MessageTypeResultDeliveryAck = Some (mapR ResultDeliveryAckMsg unmarshalResultDeliveryAck)"
  "decoderOf MessageTypeJobDelete = Some (mapR JobDeleteMsg unmarshalJobDelete)"
  "decoderOf MessageTypeJobDeleteAck = Some (mapR JobDeleteAckMsg unmarshalJobDeleteAck)"
  by (simp_all add: decoderOf_def)

text \<open>Each decoder accepts the encodings of the messages of its type, and nothing else.\<close>

lemma decoder_case:
  assumes "accepts_all rd (\<lambda>l bs v. wireOk l (C v) \<and> bs = MarshalPayload (C v))"
    and "\<And>m. t = messageTypeOf m \<longleftrightarrow> (\<exists>v. m = C v)"
  shows "accepts_all (mapR C rd) (\<lambda>l bs m. t = messageTypeOf m \<and> wireOk l m \<and> bs = MarshalPayload m)"
  by (rule all_cong [OF all_map [OF assms(1)]]) (auto simp: assms(2))

abbreviation encodingOf :: "messageType \<Rightarrow> limits \<Rightarrow> byte_list \<Rightarrow> message \<Rightarrow> bool" where
  "encodingOf t \<equiv> \<lambda>l bs m. t = messageTypeOf m \<and> wireOk l m \<and> bs = MarshalPayload m"

lemma type_iff:
  "MessageTypeRegister = messageTypeOf m \<longleftrightarrow> (\<exists>v. m = RegisterMsg v)"
  "MessageTypeRegisterAck = messageTypeOf m \<longleftrightarrow> (\<exists>v. m = RegisterAckMsg v)"
  "MessageTypeHeartbeat = messageTypeOf m \<longleftrightarrow> (\<exists>v. m = HeartbeatMsg v)"
  "MessageTypeHeartbeatAck = messageTypeOf m \<longleftrightarrow> m = HeartbeatAckMsg"
  "MessageTypeExecRequest = messageTypeOf m \<longleftrightarrow> (\<exists>v. m = ExecRequestMsg v)"
  "MessageTypeExecAccept = messageTypeOf m \<longleftrightarrow> (\<exists>v. m = ExecAcceptMsg v)"
  "MessageTypeExecResult = messageTypeOf m \<longleftrightarrow> (\<exists>v. m = ExecResultMsg v)"
  "MessageTypeCancel = messageTypeOf m \<longleftrightarrow> (\<exists>v. m = CancelMsg v)"
  "MessageTypeProtocolError = messageTypeOf m \<longleftrightarrow> (\<exists>v. m = FaultMsg v)"
  "MessageTypeJobUpsert = messageTypeOf m \<longleftrightarrow> (\<exists>v. m = JobUpsertMsg v)"
  "MessageTypeJobUpsertAck = messageTypeOf m \<longleftrightarrow> (\<exists>v. m = JobUpsertAckMsg v)"
  "MessageTypeShutdown = messageTypeOf m \<longleftrightarrow> (\<exists>v. m = ShutdownMsg v)"
  "MessageTypeLabelUpdate = messageTypeOf m \<longleftrightarrow> (\<exists>v. m = LabelUpdateMsg v)"
  "MessageTypeLabelUpdateAck = messageTypeOf m \<longleftrightarrow> (\<exists>v. m = LabelUpdateAckMsg v)"
  "MessageTypeResultDelivery = messageTypeOf m \<longleftrightarrow> (\<exists>v. m = ResultDeliveryMsg v)"
  "MessageTypeResultDeliveryAck = messageTypeOf m \<longleftrightarrow> (\<exists>v. m = ResultDeliveryAckMsg v)"
  "MessageTypeJobDelete = messageTypeOf m \<longleftrightarrow> (\<exists>v. m = JobDeleteMsg v)"
  "MessageTypeJobDeleteAck = messageTypeOf m \<longleftrightarrow> (\<exists>v. m = JobDeleteAckMsg v)"
  by (cases m; simp)+

lemma decoders_exact:
  "accepts_all (mapR RegisterMsg unmarshalRegister) (encodingOf MessageTypeRegister)"
  "accepts_all (mapR RegisterAckMsg unmarshalRegisterAck) (encodingOf MessageTypeRegisterAck)"
  "accepts_all (mapR HeartbeatMsg unmarshalHeartbeat) (encodingOf MessageTypeHeartbeat)"
  "accepts_all (mapR (\<lambda>_. HeartbeatAckMsg) unmarshalHeartbeatAck) (encodingOf MessageTypeHeartbeatAck)"
  "accepts_all (mapR ExecRequestMsg unmarshalExecRequest) (encodingOf MessageTypeExecRequest)"
  "accepts_all (mapR ExecAcceptMsg unmarshalExecAccept) (encodingOf MessageTypeExecAccept)"
  "accepts_all (mapR ExecResultMsg unmarshalExecResult) (encodingOf MessageTypeExecResult)"
  "accepts_all (mapR CancelMsg unmarshalCancel) (encodingOf MessageTypeCancel)"
  "accepts_all (mapR FaultMsg unmarshalFault) (encodingOf MessageTypeProtocolError)"
  "accepts_all (mapR JobUpsertMsg unmarshalJobUpsert) (encodingOf MessageTypeJobUpsert)"
  "accepts_all (mapR JobUpsertAckMsg unmarshalJobUpsertAck) (encodingOf MessageTypeJobUpsertAck)"
  "accepts_all (mapR ShutdownMsg unmarshalShutdown) (encodingOf MessageTypeShutdown)"
  "accepts_all (mapR LabelUpdateMsg unmarshalLabelUpdate) (encodingOf MessageTypeLabelUpdate)"
  "accepts_all (mapR LabelUpdateAckMsg unmarshalLabelUpdateAck) (encodingOf MessageTypeLabelUpdateAck)"
  "accepts_all (mapR ResultDeliveryMsg unmarshalResultDelivery) (encodingOf MessageTypeResultDelivery)"
  "accepts_all (mapR ResultDeliveryAckMsg unmarshalResultDeliveryAck) (encodingOf MessageTypeResultDeliveryAck)"
  "accepts_all (mapR JobDeleteMsg unmarshalJobDelete) (encodingOf MessageTypeJobDelete)"
  "accepts_all (mapR JobDeleteAckMsg unmarshalJobDeleteAck) (encodingOf MessageTypeJobDeleteAck)"
  by (rule decoder_case; simp add: message_exact [simplified] type_iff)+

lemma decoder_exact:
  assumes "decoderOf t = Some rd"
  shows "accepts_all rd (encodingOf t)"
proof -
  define P where "P = pred_option (\<lambda>rd. accepts_all rd (encodingOf t))"
  have step: "P (if t = k then Some d else f)"
    if "accepts_all d (encodingOf k)" "P f" for k d f
    using that by (simp add: P_def)
  have "P (decoderOf t)"
    unfolding decoderOf_def
    apply (rule step, rule decoders_exact)+
    apply (simp add: P_def)
    done
  with assms show ?thesis by (simp add: P_def)
qed

lemma DecodeMessage_iff:
  "DecodeMessage t payload lim = Inr m
     \<longleftrightarrow> t = messageTypeOf m \<and> wireOk (limits_normalized lim) m \<and> payload = MarshalPayload m"
proof (cases "decoderOf t")
  case None
  then have "t \<noteq> messageTypeOf m" by (cases m) auto
  with None show ?thesis by (simp add: DecodeMessage_def)
next
  case (Some rd)
  let ?r = "newPayloadReader payload lim"
  have "DecodeMessage t payload lim = Inr m \<longleftrightarrow> (\<exists>r'. rd ?r = Inr (m, r'))"
    using Some by (cases "rd ?r") (auto simp: DecodeMessage_def)
  with decoder_exact [OF Some] show ?thesis
    by (simp add: accepts_all_def)
qed

end
