(* ===== verification/Frame.thy ===== *)
theory Frame
  imports Message_Codec
begin

text \<open>
  Frames (\<open>yascheduler/protocol/frame.go\<close>): a 20-byte header and a payload, written in one call
  and read back from a byte stream.

  An \<open>io.Reader\<close> is the list of segments that will arrive on it, and the end of the list is the
  end of the stream; a \<open>Read\<close> takes bytes of the first segment only, so a frame may be split
  over segments and a segment may hold several frames. \<open>readFull\<close> is \<open>io.ReadFull\<close> over
  such a reader. An \<open>io.Writer\<close> is a function of its state and the bytes, which says how many it
  took and whether it failed; it is a parameter.
\<close>

section \<open>Streams\<close>

datatype ioError = EOF | ErrUnexpectedEOF | WriteFailed

datatype frameError = ProtocolErr protocolError | IOErr ioError

type_synonym ioReader = "byte_list list"

type_synonym 'w ioWriter = "'w \<Rightarrow> byte_list \<Rightarrow> nat \<times> ioError option \<times> 'w"

fun fill :: "bool \<Rightarrow> nat \<Rightarrow> ioReader \<Rightarrow> frameError + byte_list \<times> ioReader" where
  "fill got n [] = (if n = 0 then Inr ([], []) else Inl (IOErr (if got then ErrUnexpectedEOF else EOF)))"
| "fill got n (seg # segs) =
     (if n = 0 then Inr ([], seg # segs)
      else if n < length seg then Inr (take n seg, drop n seg # segs)
      else case fill (got \<or> seg \<noteq> []) (n - length seg) segs of
             Inl e \<Rightarrow> Inl e
           | Inr (bs, r) \<Rightarrow> Inr (seg @ bs, r))"

definition readFull :: "ioReader \<Rightarrow> nat \<Rightarrow> frameError + byte_list \<times> ioReader" where
  "readFull r n = fill False n r"

section \<open>Encoding\<close>

record header =
  h_Version :: u8
  h_Type :: messageType
  h_Flags :: u16
  h_CorrelationID :: correlationID
  h_PayloadLen :: u32

definition EncodeFrame :: "correlationID \<Rightarrow> message \<Rightarrow> limits \<Rightarrow> frameError + byte_list" where
  "EncodeFrame correlation msg lim =
     (let l = limits_normalized lim;
          payload = MarshalPayload msg
      in if unat (l_MaxFrameSize l) < length payload then Inl (ProtocolErr ErrFrameTooLarge)
         else Inr (be_bytes 4 Magic @ [CurrentVersion] @ [messageTypeOf msg] @ be_bytes 2 (0 :: u16)
           @ be_bytes 8 correlation @ be_bytes 4 (of_nat (length payload) :: u32) @ payload))"

definition WriteFrame ::
    "'w ioWriter \<Rightarrow> 'w \<Rightarrow> correlationID \<Rightarrow> message \<Rightarrow> limits \<Rightarrow> (frameError + unit) \<times> 'w" where
  "WriteFrame Write w correlation msg lim =
     (case EncodeFrame correlation msg lim of
        Inl e \<Rightarrow> (Inl e, w)
      | Inr frame \<Rightarrow>
          (case Write w frame of
             (n, Some e, w') \<Rightarrow> (Inl (IOErr e), w')
           | (n, None, w') \<Rightarrow>
               if n \<noteq> length frame then (Inl (ProtocolErr ErrShortWrite), w') else (Inr (), w')))"

section \<open>Decoding\<close>

text \<open>\<open>decodeHeader\<close> indexes a buffer of \<open>HeaderSize\<close> bytes.\<close>

definition decodeHeader :: "byte_list \<Rightarrow> limits \<Rightarrow> frameError + header" where
  "decodeHeader buf l =
     (if (be_value (take 4 buf) :: u32) \<noteq> Magic then Inl (ProtocolErr ErrBadMagic)
      else
        let h = \<lparr>h_Version = buf ! 4, h_Type = buf ! 5,
                 h_Flags = be_value (take 2 (drop 6 buf)),
                 h_CorrelationID = be_value (take 8 (drop 8 buf)),
                 h_PayloadLen = be_value (take 4 (drop 16 buf))\<rparr>
        in if h_Version h \<noteq> CurrentVersion then Inl (ProtocolErr ErrUnsupportedVersion)
           else if h_Flags h \<noteq> 0 then Inl (ProtocolErr ErrReservedFlags)
           else if l_MaxFrameSize l < h_PayloadLen h then Inl (ProtocolErr ErrFrameTooLarge)
           else Inr h)"

definition payloadReadChunk :: nat where "payloadReadChunk = 8192"

text \<open>\<open>io.ReadFull\<close> returns all it was asked for, or fails.\<close>

lemma fill_exact:
  "fill got n r = Inr (bs, r') \<Longrightarrow> length bs = n \<and> concat r = bs @ concat r'"
proof (induction got n r arbitrary: bs rule: fill.induct)
  case (1 got n)
  then show ?case by (simp split: if_splits)
next
  case (2 got n seg segs)
  consider "n = 0" | "0 < n" "n < length seg" | "0 < n" "length seg \<le> n" by linarith
  then show ?case
  proof cases
    case 3
    with "2.prems" obtain bs' where "fill (got \<or> seg \<noteq> []) (n - length seg) segs = Inr (bs', r')" "bs = seg @ bs'"
      by (auto split: sum.splits)
    with "2.IH" [of bs'] 3 show ?thesis by simp
  qed (use "2.prems" in auto)
qed

lemma fill_enough: "n \<le> length (concat r) \<Longrightarrow> \<exists>bs r'. fill got n r = Inr (bs, r')"
proof (induction got n r rule: fill.induct)
  case (2 got n seg segs)
  show ?case
  proof (cases "n = 0 \<or> n < length seg")
    case False
    then obtain bs r' where "fill (got \<or> seg \<noteq> []) (n - length seg) segs = Inr (bs, r')"
      using 2 by fastforce
    with False show ?thesis by simp
  qed auto
qed simp

lemma readFull_exact: "readFull r n = Inr (bs, r') \<Longrightarrow> length bs = n \<and> concat r = bs @ concat r'"
  unfolding readFull_def by (rule fill_exact)

lemma readFull_iff:
  "(\<exists>r'. readFull r n = Inr (bs, r') \<and> concat r' = tail) \<longleftrightarrow> length bs = n \<and> concat r = bs @ tail"
proof
  assume "\<exists>r'. readFull r n = Inr (bs, r') \<and> concat r' = tail"
  then show "length bs = n \<and> concat r = bs @ tail" by (auto dest: readFull_exact)
next
  assume *: "length bs = n \<and> concat r = bs @ tail"
  then obtain bs' r' where "readFull r n = Inr (bs', r')"
    using fill_enough [of n r False] by (auto simp: readFull_def)
  with * readFull_exact [OF this] show "\<exists>r'. readFull r n = Inr (bs, r') \<and> concat r' = tail"
    by auto
qed

text \<open>The loop of \<open>readPayload\<close>: bounded steps until all bytes wanted have arrived.\<close>

function readChunks :: "ioReader \<Rightarrow> nat \<Rightarrow> byte_list \<Rightarrow> frameError + byte_list \<times> ioReader" where
  "readChunks r wanted payload =
     (if wanted \<le> length payload then Inr (payload, r)
      else case readFull r (min (wanted - length payload) payloadReadChunk) of
             Inl e \<Rightarrow> Inl e
           | Inr (chunk, r') \<Rightarrow> readChunks r' wanted (payload @ chunk))"
  by pat_completeness auto
termination
  by (relation "measure (\<lambda>(r, wanted, payload). wanted - length payload)")
     (auto dest!: readFull_exact simp: payloadReadChunk_def)

declare readChunks.simps [simp del]

definition readPayload :: "ioReader \<Rightarrow> u32 \<Rightarrow> frameError + byte_list \<times> ioReader" where
  "readPayload r len = (if unat len = 0 then Inr ([], r) else readChunks r (unat len) [])"

definition ReadFrame :: "ioReader \<Rightarrow> limits \<Rightarrow> frameError + header \<times> byte_list \<times> ioReader" where
  "ReadFrame r lim =
     (let l = limits_normalized lim in
      case readFull r HeaderSize of
        Inl e \<Rightarrow> Inl e
      | Inr (buf, r1) \<Rightarrow>
          (case decodeHeader buf l of
             Inl e \<Rightarrow> Inl e
           | Inr h \<Rightarrow>
               (case readPayload r1 (h_PayloadLen h) of
                  Inl e \<Rightarrow> Inl e
                | Inr (payload, r2) \<Rightarrow> Inr (h, payload, r2))))"

definition ReadMessage :: "ioReader \<Rightarrow> limits \<Rightarrow> frameError + header \<times> message \<times> ioReader" where
  "ReadMessage r lim =
     (case ReadFrame r lim of
        Inl e \<Rightarrow> Inl e
      | Inr (h, payload, r') \<Rightarrow>
          (case DecodeMessage (h_Type h) payload lim of
             Inl e \<Rightarrow> Inl (ProtocolErr e)
           | Inr msg \<Rightarrow> Inr (h, msg, r')))"

section \<open>What frames carry\<close>

text \<open>The chunked read takes exactly the bytes wanted, however they arrive.\<close>

lemma readChunks_iff:
  "(\<exists>r'. readChunks r wanted payload = Inr (bs, r') \<and> concat r' = tail)
     \<longleftrightarrow> (if wanted \<le> length payload then bs = payload \<and> concat r = tail
         else length bs = wanted \<and> (\<exists>more. bs = payload @ more \<and> concat r = more @ tail))"
proof (induction r wanted payload rule: readChunks.induct)
  case (1 r wanted payload)
  show ?case
  proof (cases "wanted \<le> length payload")
    case True
    then show ?thesis by (auto simp: readChunks.simps [of r])
  next
    case False
    let ?k = "min (wanted - length payload) payloadReadChunk"
    have k: "0 < ?k" "length payload + ?k \<le> wanted"
      using False by (auto simp: payloadReadChunk_def)
    have "(\<exists>r'. readChunks r wanted payload = Inr (bs, r') \<and> concat r' = tail)
        \<longleftrightarrow> (\<exists>chunk r1. readFull r ?k = Inr (chunk, r1)
           \<and> (\<exists>r'. readChunks r1 wanted (payload @ chunk) = Inr (bs, r') \<and> concat r' = tail))"
      using False by (auto simp: readChunks.simps [of r] split: sum.splits)
    also have "\<dots> \<longleftrightarrow> (\<exists>chunk r1. readFull r ?k = Inr (chunk, r1) \<and> length bs = wanted
        \<and> (\<exists>more. bs = payload @ chunk @ more \<and> concat r1 = more @ tail))"
    proof ((rule ex_cong1)+, rule conj_cong, rule refl)
      fix chunk r1
      assume read: "readFull r ?k = Inr (chunk, r1)"
      then have len: "length chunk = ?k" by (auto dest: readFull_exact)
      show "(\<exists>r'. readChunks r1 wanted (payload @ chunk) = Inr (bs, r') \<and> concat r' = tail)
          \<longleftrightarrow> length bs = wanted \<and> (\<exists>more. bs = payload @ chunk @ more \<and> concat r1 = more @ tail)"
        using "1.IH" [OF False read refl] len k by auto
    qed
    also have "\<dots> \<longleftrightarrow> length bs = wanted \<and> (\<exists>more. bs = payload @ more \<and> concat r = more @ tail)"
    proof
      assume "\<exists>chunk r1. readFull r ?k = Inr (chunk, r1) \<and> length bs = wanted
        \<and> (\<exists>more. bs = payload @ chunk @ more \<and> concat r1 = more @ tail)"
      then obtain chunk r1 more where "readFull r ?k = Inr (chunk, r1)" "length bs = wanted"
        "bs = payload @ chunk @ more" "concat r1 = more @ tail"
        by blast
      moreover from this(1) have "concat r = chunk @ concat r1"
        by (blast dest: readFull_exact)
      ultimately show "length bs = wanted \<and> (\<exists>more. bs = payload @ more \<and> concat r = more @ tail)"
        by (metis append.assoc)
    next
      assume "length bs = wanted \<and> (\<exists>more. bs = payload @ more \<and> concat r = more @ tail)"
      then obtain more where bs: "length bs = wanted" "bs = payload @ more" "concat r = more @ tail" by blast
      then have "length (take ?k more) = ?k" "concat r = take ?k more @ drop ?k more @ tail"
        using k by auto
      then obtain r1 where "readFull r ?k = Inr (take ?k more, r1)" "concat r1 = drop ?k more @ tail"
        using readFull_iff [of r ?k "take ?k more" "drop ?k more @ tail"] by auto
      moreover have "bs = payload @ take ?k more @ drop ?k more"
        using bs by simp
      ultimately show "\<exists>chunk r1. readFull r ?k = Inr (chunk, r1) \<and> length bs = wanted
        \<and> (\<exists>more. bs = payload @ chunk @ more \<and> concat r1 = more @ tail)"
        using bs(1) by blast
    qed
    finally show ?thesis using False by simp
  qed
qed

lemma readPayload_iff:
  "(\<exists>r'. readPayload r len = Inr (bs, r') \<and> concat r' = tail) \<longleftrightarrow> length bs = unat len \<and> concat r = bs @ tail"
proof (cases "unat len = 0")
  case False
  then show ?thesis
    using readChunks_iff [of r "unat len" "[]" bs tail] by (simp add: readPayload_def)
next
  case True
  then show ?thesis by (auto simp: readPayload_def)
qed

definition encHeader :: "header \<Rightarrow> byte_list" where
  "encHeader h = be_bytes 4 Magic @ [h_Version h] @ [h_Type h] @ be_bytes 2 (h_Flags h)
     @ be_bytes 8 (h_CorrelationID h) @ be_bytes 4 (h_PayloadLen h)"

definition okHeader :: "limits \<Rightarrow> header \<Rightarrow> bool" where
  "okHeader l h \<longleftrightarrow> h_Version h = CurrentVersion \<and> h_Flags h = 0 \<and> h_PayloadLen h \<le> l_MaxFrameSize l"

lemma length_encHeader [simp]: "length (encHeader h) = HeaderSize"
  by (simp add: encHeader_def HeaderSize_def)

lemma be_value_iff:
  assumes "length bs = k" and "LENGTH('a::len) = 8 * k"
  shows "be_value bs = (v :: 'a word) \<longleftrightarrow> bs = be_bytes k v"
  using assms be_bytes_value [of bs, where 'a = 'a] be_value_bytes [of k v] by auto

lemma header_parts:
  assumes "length buf = HeaderSize"
  obtains m v t f c p where "buf = m @ [v] @ [t] @ f @ c @ p" "length m = 4" "length f = 2" "length c = 8" "length p = 4"
proof -
  have "length (drop 4 buf) = Suc (Suc 14)"
    using assms by (simp add: HeaderSize_def)
  then obtain v t d where d: "drop 4 buf = v # t # d" "length d = 14"
    by (metis length_Suc_conv)
  have "buf = take 4 buf @ [v] @ [t] @ take 2 d @ take 8 (drop 2 d) @ drop 10 d"
    using append_take_drop_id [of 4 buf] append_take_drop_id [of 2 d] append_take_drop_id [of 8 "drop 2 d"]
    by (simp add: d(1))
  with d(2) assms show ?thesis
    by (intro that [of "take 4 buf" v t "take 2 d" "take 8 (drop 2 d)" "drop 10 d"]) (simp_all add: HeaderSize_def)
qed

lemma decodeHeader_iff:
  assumes "length buf = HeaderSize"
  shows "decodeHeader buf l = Inr h \<longleftrightarrow> buf = encHeader h \<and> okHeader l h"
proof -
  obtain m v t f c p where buf: "buf = m @ [v] @ [t] @ f @ c @ p"
    and len: "length m = 4" "length f = 2" "length c = 8" "length p = 4"
    using assms by (rule header_parts)
  have "decodeHeader buf l = Inr h \<longleftrightarrow> be_value m = Magic \<and> v = CurrentVersion \<and> be_value f = (0 :: u16)
      \<and> be_value p \<le> l_MaxFrameSize l
      \<and> h = \<lparr>h_Version = v, h_Type = t, h_Flags = be_value f, h_CorrelationID = be_value c, h_PayloadLen = be_value p\<rparr>"
    using len unfolding buf by (auto simp: decodeHeader_def Let_def nth_append not_less)
  also have "\<dots> \<longleftrightarrow> m = be_bytes 4 Magic \<and> v = h_Version h \<and> t = h_Type h \<and> f = be_bytes 2 (h_Flags h)
      \<and> c = be_bytes 8 (h_CorrelationID h) \<and> p = be_bytes 4 (h_PayloadLen h) \<and> okHeader l h"
    using len by (cases h) (auto simp: okHeader_def be_value_bytes be_value_iff [symmetric])
  also have "\<dots> \<longleftrightarrow> buf = encHeader h \<and> okHeader l h"
    using len by (auto simp: buf encHeader_def)
  finally show ?thesis .
qed

text \<open>The header of the frame of a message.\<close>

definition headerFor :: "correlationID \<Rightarrow> message \<Rightarrow> header" where
  "headerFor correlation m = \<lparr>h_Version = CurrentVersion, h_Type = messageTypeOf m, h_Flags = 0,
     h_CorrelationID = correlation, h_PayloadLen = of_nat (length (MarshalPayload m))\<rparr>"

lemma EncodeFrame_iff:
  "EncodeFrame correlation m lim = Inr frame \<longleftrightarrow> length (MarshalPayload m) \<le> unat (l_MaxFrameSize (limits_normalized lim))
     \<and> frame = encHeader (headerFor correlation m) @ MarshalPayload m"
  by (auto simp: EncodeFrame_def Let_def encHeader_def headerFor_def)

lemma ReadFrame_iff:
  "(\<exists>r'. ReadFrame r lim = Inr (h, payload, r') \<and> concat r' = tail)
     \<longleftrightarrow> okHeader (limits_normalized lim) h \<and> length payload = unat (h_PayloadLen h) \<and> concat r = encHeader h @ payload @ tail"
proof -
  let ?l = "limits_normalized lim"
  have "(\<exists>r'. ReadFrame r lim = Inr (h, payload, r') \<and> concat r' = tail)
     \<longleftrightarrow> (\<exists>buf r1. readFull r HeaderSize = Inr (buf, r1) \<and> decodeHeader buf ?l = Inr h
        \<and> (\<exists>r'. readPayload r1 (h_PayloadLen h) = Inr (payload, r') \<and> concat r' = tail))"
    by (auto simp: ReadFrame_def Let_def split: sum.splits)
  also have "\<dots> \<longleftrightarrow> (\<exists>buf r1. readFull r HeaderSize = Inr (buf, r1) \<and> decodeHeader buf ?l = Inr h
        \<and> length payload = unat (h_PayloadLen h) \<and> concat r1 = payload @ tail)"
    by (simp only: readPayload_iff)
  also have "\<dots> \<longleftrightarrow> (\<exists>buf. (\<exists>r1. readFull r HeaderSize = Inr (buf, r1) \<and> concat r1 = payload @ tail)
        \<and> decodeHeader buf ?l = Inr h \<and> length payload = unat (h_PayloadLen h))"
    by blast
  also have "\<dots> \<longleftrightarrow> (\<exists>buf. length buf = HeaderSize \<and> concat r = buf @ payload @ tail
        \<and> decodeHeader buf ?l = Inr h \<and> length payload = unat (h_PayloadLen h))"
    by (simp only: readFull_iff conj_assoc)
  also have "\<dots> \<longleftrightarrow> okHeader ?l h \<and> length payload = unat (h_PayloadLen h) \<and> concat r = encHeader h @ payload @ tail"
    using decodeHeader_iff [of _ ?l h] by (metis length_encHeader)
  finally show ?thesis .
qed

lemma ReadMessage_iff:
  "(\<exists>r'. ReadMessage r lim = Inr (h, m, r') \<and> concat r' = tail)
     \<longleftrightarrow> h = headerFor (h_CorrelationID h) m \<and> wireOk (limits_normalized lim) m
       \<and> (\<exists>frame. EncodeFrame (h_CorrelationID h) m lim = Inr frame \<and> concat r = frame @ tail)"
proof -
  have "(\<exists>r'. ReadMessage r lim = Inr (h, m, r') \<and> concat r' = tail)
     \<longleftrightarrow> (\<exists>payload. (\<exists>r'. ReadFrame r lim = Inr (h, payload, r') \<and> concat r' = tail)
         \<and> DecodeMessage (h_Type h) payload lim = Inr m)"
    by (auto simp: ReadMessage_def split: sum.splits)
  also have "\<dots> \<longleftrightarrow> okHeader (limits_normalized lim) h \<and> length (MarshalPayload m) = unat (h_PayloadLen h)
      \<and> concat r = encHeader h @ MarshalPayload m @ tail \<and> h_Type h = messageTypeOf m \<and> wireOk (limits_normalized lim) m"
    by (auto simp: ReadFrame_iff DecodeMessage_iff)
  also have "\<dots> \<longleftrightarrow> h = headerFor (h_CorrelationID h) m \<and> wireOk (limits_normalized lim) m
       \<and> length (MarshalPayload m) \<le> unat (l_MaxFrameSize (limits_normalized lim))
       \<and> concat r = encHeader h @ MarshalPayload m @ tail"
    by (cases h) (auto simp: okHeader_def headerFor_def word_le_nat_alt unat_of_nat_bound)
  also have "\<dots> \<longleftrightarrow> h = headerFor (h_CorrelationID h) m \<and> wireOk (limits_normalized lim) m
       \<and> (\<exists>frame. EncodeFrame (h_CorrelationID h) m lim = Inr frame \<and> concat r = frame @ tail)"
    by (auto simp: EncodeFrame_iff)
  finally show ?thesis .
qed

section \<open>Properties\<close>

lemma take_split:
  assumes "take k (a @ b) = x @ y" and "length x = length a"
  shows "x = a \<and> y = take (k - length a) b \<and> length a \<le> k"
proof -
  have "length a \<le> k"
    using arg_cong [OF assms(1), of length] assms(2) by auto
  with assms show ?thesis by auto
qed

text \<open>Several frames written to, and read from, one stream.\<close>

fun writeFrames ::
    "'w ioWriter \<Rightarrow> 'w \<Rightarrow> (correlationID \<times> message) list \<Rightarrow> limits \<Rightarrow> (frameError + unit) \<times> 'w" where
  "writeFrames Write w [] lim = (Inr (), w)"
| "writeFrames Write w ((c, m) # ms) lim =
     (case WriteFrame Write w c m lim of
        (Inl e, w') \<Rightarrow> (Inl e, w')
      | (Inr _, w') \<Rightarrow> writeFrames Write w' ms lim)"

fun readMessages :: "nat \<Rightarrow> ioReader \<Rightarrow> limits \<Rightarrow> frameError + (header \<times> message) list \<times> ioReader" where
  "readMessages 0 r lim = Inr ([], r)"
| "readMessages (Suc n) r lim =
     (case ReadMessage r lim of
        Inl e \<Rightarrow> Inl e
      | Inr (h, m, r') \<Rightarrow> map_sum id (apfst ((#) (h, m))) (readMessages n r' lim))"

text \<open>The documented contract of an \<open>io.Writer\<close>: \<open>out w\<close> are the bytes written so far.\<close>

definition honestWriter :: "'w ioWriter \<Rightarrow> ('w \<Rightarrow> byte_list) \<Rightarrow> bool" where
  "honestWriter Write out \<longleftrightarrow>
     (\<forall>w bs n e w'. Write w bs = (n, e, w') \<longrightarrow> n \<le> length bs \<and> out w' = out w @ take n bs)"

lemma WriteFrame_out:
  assumes "honestWriter Write out" and "WriteFrame Write w c m lim = (Inr (), w')"
  shows "\<exists>frame. EncodeFrame c m lim = Inr frame \<and> out w' = out w @ frame"
  using assms
  by (auto simp: WriteFrame_def honestWriter_def split: sum.splits prod.splits option.splits if_splits)

lemma writeFrames_out:
  assumes "honestWriter Write out" and "writeFrames Write w ms lim = (Inr (), w')"
  shows "\<exists>frames. map (\<lambda>(c, m). EncodeFrame c m lim) ms = map Inr frames \<and> out w' = out w @ concat frames"
  using assms(2)
proof (induction ms arbitrary: w)
  case (Cons cm ms)
  obtain c m where cm: "cm = (c, m)" by (cases cm)
  from Cons.prems obtain w1 where w1: "WriteFrame Write w c m lim = (Inr (), w1)"
    "writeFrames Write w1 ms lim = (Inr (), w')"
    by (auto simp: cm split: sum.splits prod.splits)
  from WriteFrame_out [OF assms(1) w1(1)] Cons.IH [OF w1(2)] show ?case
    by (auto simp: cm) (metis append.assoc concat.simps(2) list.simps(9))
qed simp

lemma readMessages_frames:
  assumes "map (\<lambda>(c, m). EncodeFrame c m lim) ms = map Inr frames"
    and "\<forall>(c, m) \<in> set ms. wireOk (limits_normalized lim) m" and "concat r = concat frames @ tail"
  shows "\<exists>r'. readMessages (length ms) r lim = Inr (map (\<lambda>(c, m). (headerFor c m, m)) ms, r') \<and> concat r' = tail"
  using assms
proof (induction ms arbitrary: frames r)
  case (Cons cm ms)
  obtain c m where cm: "cm = (c, m)" by (cases cm)
  from Cons.prems(1) obtain frame frames' where f: "frames = frame # frames'" "EncodeFrame c m lim = Inr frame"
    "map (\<lambda>(c, m). EncodeFrame c m lim) ms = map Inr frames'"
    by (auto simp: cm Cons_eq_map_conv)
  have "\<exists>r'. ReadMessage r lim = Inr (headerFor c m, m, r') \<and> concat r' = concat frames' @ tail"
    unfolding ReadMessage_iff using Cons.prems f by (auto simp: cm headerFor_def)
  then obtain r1 where r1: "ReadMessage r lim = Inr (headerFor c m, m, r1)" "concat r1 = concat frames' @ tail"
    by blast
  with Cons.IH [OF f(3) _ r1(2)] Cons.prems(2) show ?case
    by (auto simp: cm)
qed simp

lemma fill_error: "fill got n r = Inl e \<Longrightarrow> \<exists>i. e = IOErr i"
  by (induction got n r rule: fill.induct) (auto split: if_splits sum.splits)

lemma readChunks_error: "readChunks r wanted payload = Inl e \<Longrightarrow> \<exists>i. e = IOErr i"
proof (induction r wanted payload rule: readChunks.induct)
  case (1 r wanted payload)
  from "1.prems" show ?case
    by (subst (asm) readChunks.simps)
       (auto split: if_splits sum.splits dest: "1.IH" fill_error simp: readFull_def)
qed

text \<open>
  C23. A message is decoded from a stream exactly when the stream begins with the frame that
  encodes it within the receiver's limits, and precisely that frame is consumed: whatever the
  segments the bytes arrive in, \<open>ReadMessage\<close> accepts every encoding and nothing else.
\<close>

theorem read_message_exact:
  "(\<exists>r'. ReadMessage r lim = Inr (h, m, r') \<and> concat r' = tail)
     \<longleftrightarrow> h = headerFor (h_CorrelationID h) m \<and> wireOk (limits_normalized lim) m
       \<and> (\<exists>frame. EncodeFrame (h_CorrelationID h) m lim = Inr frame \<and> concat r = frame @ tail)"
  by (rule ReadMessage_iff)

text \<open>
  C24. Messages that keep the receiver's field limits are read back as they were written. Let messages be
  written one after the other, with success, over a writer that keeps the contract of
  \<open>io.Writer\<close> and has nothing written yet, and let each keep the limits the reader puts on the
  fields of a message: the lengths of its strings, byte strings and lists, beside the ranges its Go types
  give it (\<open>WriteFrame\<close> checks the size of the frame only, so a message past a field limit can
  be written and is then refused by the reader). Then they are read back one for one, in order and with
  their correlation identifiers, from any segmentation of the written bytes, and what follows them stays on
  the stream.
\<close>

theorem written_messages_read_back:
  assumes "honestWriter Write out" and "writeFrames Write w ms lim = (Inr (), w')"
    and "\<forall>(c, m) \<in> set ms. wireOk (limits_normalized lim) m"
    and "out w = []" and "concat r = out w' @ tail"
  shows "\<exists>r'. readMessages (length ms) r lim = Inr (map (\<lambda>(c, m). (headerFor c m, m)) ms, r') \<and> concat r' = tail"
proof -
  from writeFrames_out [OF assms(1,2)] obtain frames where
    "map (\<lambda>(c, m). EncodeFrame c m lim) ms = map Inr frames" "out w' = concat frames"
    using assms(4) by auto
  then show ?thesis
    using readMessages_frames [of lim ms frames r tail] assms(3,5) by simp
qed

text \<open>
  A frame cut short, as by a connection that drops, is refused with a read error, wherever it
  was cut and however it was segmented: no shorter message is ever made of its bytes.
\<close>

theorem truncated_frame_refused:
  assumes "EncodeFrame c m lim = Inr frame" and "wireOk (limits_normalized lim) m"
    and "concat r = take k frame" and "k < length frame"
  shows "\<exists>e. ReadMessage r lim = Inl (IOErr e)"
proof -
  let ?h = "headerFor c m" and ?l = "limits_normalized lim"
  have frame: "frame = encHeader ?h @ MarshalPayload m" "length (MarshalPayload m) \<le> unat (l_MaxFrameSize ?l)"
    using assms(1) by (auto simp: EncodeFrame_iff)
  then have len: "unat (h_PayloadLen ?h) = length (MarshalPayload m)"
    by (auto simp: headerFor_def unat_of_nat_bound)
  have ok: "okHeader ?l ?h"
    using frame(2) len by (simp add: okHeader_def word_le_nat_alt) (simp add: headerFor_def)
  show ?thesis
  proof (cases "readFull r HeaderSize")
    case (Inl e)
    then show ?thesis
      using fill_error [of False HeaderSize r e] by (auto simp: ReadMessage_def ReadFrame_def readFull_def)
  next
    case (Inr p)
    then obtain buf r1 where p: "readFull r HeaderSize = Inr (buf, r1)" by (cases p) simp
    then have "length buf = HeaderSize" "take k frame = buf @ concat r1"
      using readFull_exact [OF p] assms(3) by auto
    then have buf: "buf = encHeader ?h" "concat r1 = take (k - HeaderSize) (MarshalPayload m)" "HeaderSize \<le> k"
      using take_split [of k "encHeader ?h" "MarshalPayload m" buf "concat r1"] by (simp_all add: frame(1))
    have dec: "decodeHeader buf ?l = Inr ?h"
      using ok by (simp add: decodeHeader_iff buf(1))
    show ?thesis
    proof (cases "readPayload r1 (h_PayloadLen ?h)")
      case (Inl e)
      then have "\<exists>i. e = IOErr i"
        by (auto simp: readPayload_def split: if_splits dest: readChunks_error)
      with p dec Inl show ?thesis
        by (auto simp: ReadMessage_def ReadFrame_def)
    next
      case (Inr q)
      then obtain bs r2 where "readPayload r1 (h_PayloadLen ?h) = Inr (bs, r2)" by (cases q) simp
      then have "length (MarshalPayload m) \<le> length (concat r1)"
        using readPayload_iff [of r1 "h_PayloadLen ?h" bs "concat r2"] len by auto
      then show ?thesis
        using buf assms(4) by (simp add: frame(1))
    qed
  qed
qed

text \<open>An appending writer keeps the contract; the bytes arrive in two segments.\<close>

definition appendWriter :: "byte_list ioWriter" where
  "appendWriter w bs = (length bs, None, w @ bs)"

lemma written_messages_read_back_witness:
  "\<exists>r'. readMessages 2 [take 7 (snd (writeFrames appendWriter [] [(1, HeartbeatMsg \<lparr>hb_InFlight = 3\<rparr>), (2, HeartbeatAckMsg)] DefaultLimits)),
        drop 7 (snd (writeFrames appendWriter [] [(1, HeartbeatMsg \<lparr>hb_InFlight = 3\<rparr>), (2, HeartbeatAckMsg)] DefaultLimits)) @ [9]] DefaultLimits
     = Inr ([(headerFor 1 (HeartbeatMsg \<lparr>hb_InFlight = 3\<rparr>), HeartbeatMsg \<lparr>hb_InFlight = 3\<rparr>), (headerFor 2 HeartbeatAckMsg, HeartbeatAckMsg)], r')
     \<and> concat r' = [9]"
proof -
  let ?ms = "[(1, HeartbeatMsg \<lparr>hb_InFlight = 3\<rparr>), (2, HeartbeatAckMsg)]"
  have "honestWriter appendWriter (\<lambda>w. w)"
    by (simp add: honestWriter_def appendWriter_def)
  moreover have "writeFrames appendWriter [] ?ms DefaultLimits = (Inr (), snd (writeFrames appendWriter [] ?ms DefaultLimits))"
    by (simp add: WriteFrame_def EncodeFrame_def Let_def appendWriter_def marshalHeartbeat_def marshal_simps
        limits_normalized_def orDefault_def DefaultLimits_def default_limit_defs)
  moreover have "\<forall>(c, m) \<in> set ?ms. wireOk (limits_normalized DefaultLimits) m"
    by simp
  ultimately show ?thesis
    using written_messages_read_back [of appendWriter "\<lambda>w. w" "[]" ?ms DefaultLimits
        "snd (writeFrames appendWriter [] ?ms DefaultLimits)"
        "[take 7 (snd (writeFrames appendWriter [] ?ms DefaultLimits)),
          drop 7 (snd (writeFrames appendWriter [] ?ms DefaultLimits)) @ [9]]" "[9]"]
    by (simp add: numeral_2_eq_2 del: writeFrames.simps)
qed

lemma truncated_frame_refused_witness:
  "\<exists>e. ReadMessage [take 22 (encHeader (headerFor 1 (HeartbeatMsg \<lparr>hb_InFlight = 3\<rparr>)) @ be_bytes 4 (3 :: u32))] DefaultLimits
     = Inl (IOErr e)"
proof -
  let ?frame = "encHeader (headerFor 1 (HeartbeatMsg \<lparr>hb_InFlight = 3\<rparr>)) @ be_bytes 4 (3 :: u32)"
  have "EncodeFrame 1 (HeartbeatMsg \<lparr>hb_InFlight = 3\<rparr>) DefaultLimits = Inr ?frame"
    by (simp add: EncodeFrame_iff marshalHeartbeat_def marshal_simps
        limits_normalized_def orDefault_def DefaultLimits_def default_limit_defs)
  then show ?thesis
    by (rule truncated_frame_refused [of 1 "HeartbeatMsg \<lparr>hb_InFlight = 3\<rparr>" DefaultLimits ?frame _ 22])
       (simp_all add: HeaderSize_def)
qed

end
