(* ===== verification/Client_Connection.thy ===== *)
theory Client_Connection
  imports Client_Config Result_Waiters Thread_Safe_Set Frame
begin

text \<open>
  A client's connection and the calls that wait on it (\<open>yascheduler/client.go\<close>, \<open>jobs.go\<close>): the
  outgoing queue, the map of pending replies, and the round trips of \<open>UpsertJob\<close>, \<open>DeleteJob\<close> and
  the label revisions.

  A call is a goroutine in a \<open>callPhase\<close>; \<open>callStep\<close> takes it past one lock or one channel operation.
  \<open>completePending\<close> and \<open>detachConnection\<close> take waiters out of the map under the lock and send to
  them, or close them, after it: such sends and closes are kept in \<open>cl_sends\<close> and \<open>cl_closes\<close> until
  they happen. A panic (a send on a closed channel, a second close) is \<open>None\<close>. A waiter is a
  channel with room for one reply. The outgoing queue of a connection that is gone is of no
  further use, so only the current one is kept; frames are encoded by the frame codec. The texts of
  errors are left out, as are the socket, its deadlines, the timers and the back-off.
\<close>

section \<open>The client\<close>

record pendingReply =
  pr_upsertAck :: "jobUpsertAckMsg option"
  pr_deleteAck :: "jobDeleteAckMsg option"
  pr_labelAck :: "labelUpdateAckMsg option"

type_synonym waiterRef = nat

datatype waiterChan = WaiterEmpty | WaiterHolds pendingReply | WaiterClosed

record client =
  cl_cfg :: clientConfig
  cl_correlation :: correlationID
  cl_labelSet :: "label tset"
  cl_results :: resultRegistry
  cl_outgoing :: "byte_list list option"
  cl_connectedClosed :: bool
  cl_pending :: "(correlationID, waiterRef) alist"
  cl_chans :: "waiterRef \<Rightarrow> waiterChan"
  cl_nextChan :: waiterRef
  cl_sends :: "(waiterRef \<times> pendingReply) list"
  cl_closes :: "waiterRef list"

text \<open>\<open>New\<close>, with a registry and a configuration that is not nil.\<close>

definition NewClient :: "instanceID \<Rightarrow> clientConfig \<Rightarrow> schedErr + client" where
  "NewClient fresh cfg =
     (case clientConfig_normalized fresh cfg of
        Inl er \<Rightarrow> Inl er
      | Inr cfg \<Rightarrow> Inr \<lparr>cl_cfg = cfg, cl_correlation = 0, cl_labelSet = NewThreadSafeSet,
          cl_results = NewResultRegistry, cl_outgoing = None, cl_connectedClosed = False, cl_pending = [],
          cl_chans = \<lambda>_. WaiterEmpty, cl_nextChan = 0, cl_sends = [], cl_closes = []\<rparr>)"

definition nextCorrelation :: "client \<Rightarrow> correlationID \<times> client" where
  "nextCorrelation c = (cl_correlation c + 1, c\<lparr>cl_correlation := cl_correlation c + 1\<rparr>)"

definition enqueueFrame :: "client \<Rightarrow> correlationID \<Rightarrow> message \<Rightarrow> schedErr option \<times> client" where
  "enqueueFrame c correlation msg =
     (case EncodeFrame correlation msg (cc_Limits (cl_cfg c)) of
        Inl _ \<Rightarrow> (Some (ErrCodec ''frame''), c)
      | Inr frame \<Rightarrow>
          (case cl_outgoing c of
             None \<Rightarrow> (Some ErrNotConnected, c)
           | Some outgoing \<Rightarrow>
               if int (length outgoing) < cc_OutgoingQueueSize (cl_cfg c)
               then (None, c\<lparr>cl_outgoing := Some (outgoing @ [frame])\<rparr>)
               else (Some ErrOutgoingQueueFull, c)))"

definition enqueueMessage :: "client \<Rightarrow> message \<Rightarrow> schedErr option \<times> client" where
  "enqueueMessage c msg = (let (correlation, c) = nextCorrelation c in enqueueFrame c correlation msg)"

definition attachConnection :: "client \<Rightarrow> client option" where
  "attachConnection c =
     (if cl_connectedClosed c then None else Some (c\<lparr>cl_outgoing := Some [], cl_connectedClosed := True\<rparr>))"

text \<open>\<open>detachConnection\<close>, its locked part: the waiters are closed after it.\<close>

definition detachConnection :: "client \<Rightarrow> client" where
  "detachConnection c = c\<lparr>cl_outgoing := None, cl_connectedClosed := False, cl_pending := [],
     cl_closes := cl_closes c @ map snd (cl_pending c)\<rparr>"

definition registerPending :: "client \<Rightarrow> correlationID \<Rightarrow> (schedErr + waiterRef) \<times> client" where
  "registerPending c correlation =
     (if cl_outgoing c = None then (Inl ErrNotConnected, c)
      else (Inr (cl_nextChan c), c\<lparr>cl_nextChan := cl_nextChan c + 1,
              cl_chans := (cl_chans c)(cl_nextChan c := WaiterEmpty),
              cl_pending := AList.update correlation (cl_nextChan c) (cl_pending c)\<rparr>))"

definition unregisterPending :: "client \<Rightarrow> correlationID \<Rightarrow> client" where
  "unregisterPending c correlation = c\<lparr>cl_pending := AList.delete correlation (cl_pending c)\<rparr>"

text \<open>\<open>completePending\<close>, its locked part.\<close>

definition completePending :: "client \<Rightarrow> correlationID \<Rightarrow> pendingReply \<Rightarrow> client" where
  "completePending c correlation reply =
     (case map_of (cl_pending c) correlation of
        None \<Rightarrow> c\<lparr>cl_pending := AList.delete correlation (cl_pending c)\<rparr>
      | Some waiter \<Rightarrow> c\<lparr>cl_pending := AList.delete correlation (cl_pending c),
                        cl_sends := cl_sends c @ [(waiter, reply)]\<rparr>)"

text \<open>One send, or one close, of those under way. A send to a full waiter would block.\<close>

fun sendReply :: "client \<Rightarrow> nat \<Rightarrow> client option" where
  "sendReply c k =
     (if k < length (cl_sends c) then
        let (waiter, reply) = cl_sends c ! k in
        (case cl_chans c waiter of
           WaiterEmpty \<Rightarrow> Some (c\<lparr>cl_chans := (cl_chans c)(waiter := WaiterHolds reply),
                             cl_sends := take k (cl_sends c) @ drop (Suc k) (cl_sends c)\<rparr>)
         | WaiterHolds _ \<Rightarrow> Some c
         | WaiterClosed \<Rightarrow> None)
      else Some c)"

fun closeWaiter :: "client \<Rightarrow> client option" where
  "closeWaiter c =
     (case cl_closes c of
        [] \<Rightarrow> Some c
      | waiter # waiters \<Rightarrow>
          (case cl_chans c waiter of
             WaiterClosed \<Rightarrow> None
           | _ \<Rightarrow> Some (c\<lparr>cl_chans := (cl_chans c)(waiter := WaiterClosed), cl_closes := waiters\<rparr>)))"

definition applyLabelRevision :: "client \<Rightarrow> label list \<Rightarrow> label list \<Rightarrow> client" where
  "applyLabelRevision c announce withdraw =
     c\<lparr>cl_labelSet := DeleteMultiple (fold (\<lambda>l m. set_Set m l) announce (cl_labelSet c)) withdraw\<rparr>"

section \<open>Inbound messages and registration\<close>

datatype inbound =
    RunRequest execRequestMsg
  | CancelRun executionID
  | Complete pendingReply
  | DeliverResult resultDeliveryMsg
  | NoEffect
  | Disconnect schedErr

abbreviation noReply :: pendingReply where
  "noReply \<equiv> \<lparr>pr_upsertAck = None, pr_deleteAck = None, pr_labelAck = None\<rparr>"

fun handleMessage :: "message \<Rightarrow> inbound" where
  "handleMessage (ExecRequestMsg m) = RunRequest m"
| "handleMessage HeartbeatAckMsg = NoEffect"
| "handleMessage (CancelMsg m) = CancelRun (cn_ExecutionID m)"
| "handleMessage (JobUpsertAckMsg m) = Complete (noReply\<lparr>pr_upsertAck := Some m\<rparr>)"
| "handleMessage (JobDeleteAckMsg m) = Complete (noReply\<lparr>pr_deleteAck := Some m\<rparr>)"
| "handleMessage (LabelUpdateAckMsg m) = Complete (noReply\<lparr>pr_labelAck := Some m\<rparr>)"
| "handleMessage (ResultDeliveryMsg m) = DeliverResult m"
| "handleMessage (FaultMsg m) = Disconnect ErrUnexpectedMessage"
| "handleMessage (ShutdownMsg m) = Disconnect ErrServerShutdown"
| "handleMessage _ = Disconnect ErrUnexpectedMessage"

text \<open>The registration \<open>register\<close> sends, and what it makes of the answer.\<close>

definition registerMessage :: "client \<Rightarrow> functionSpec list \<Rightarrow> registerMsg" where
  "registerMessage c fs = \<lparr>rm_ProtocolVersion = CurrentVersion, rm_ExecutorType = cc_ExecutorType (cl_cfg c),
     rm_InstanceID = cc_InstanceID (cl_cfg c), rm_Capacity = cc_Capacity (cl_cfg c), rm_Functions = fs,
     rm_Labels = set_Values (cl_labelSet c)\<rparr>"

definition registerOutcome :: "clientConfig \<Rightarrow> message \<Rightarrow> schedErr + duration" where
  "registerOutcome cfg msg =
     (case msg of
        RegisterAckMsg ack \<Rightarrow>
          if \<not> ra_Accepted ack then Inl ErrRegistrationRejected
          else Inr (resolveHeartbeatInterval cfg (ra_HeartbeatIntervalMillis ack))
      | FaultMsg _ \<Rightarrow> Inl ErrRegistrationRejected
      | _ \<Rightarrow> Inl ErrUnexpectedMessage)"

definition receive :: "client \<Rightarrow> correlationID \<Rightarrow> message \<Rightarrow> inbound \<times> client" where
  "receive c correlation msg =
     (case handleMessage msg of
        Complete reply \<Rightarrow> (Complete reply, completePending c correlation reply)
      | DeliverResult d \<Rightarrow>
          (let (ack, results) = handleResultDelivery (cl_results c) d
           in (DeliverResult d, snd (enqueueMessage (c\<lparr>cl_results := results\<rparr>) ack)))
      | other \<Rightarrow> (other, c))"

section \<open>Calls\<close>

datatype clientCall =
    UpsertCall jobUpsertMsg
  | DeleteCall executorType string
  | LabelCall "label list" "label list"

datatype callAnswer = JobSubmitted submission | JobDeleted bool | LabelsRevised

datatype callPhase =
    Calling clientCall
  | Sending clientCall "submission option" correlationID waiterRef
  | Awaiting clientCall "submission option" correlationID waiterRef
  | Applying "label list" "label list"
  | Done "schedErr + callAnswer"

fun callMessage :: "client \<Rightarrow> clientCall \<Rightarrow> message" where
  "callMessage c (UpsertCall upsert) = JobUpsertMsg upsert"
| "callMessage c (DeleteCall et key) = JobDeleteMsg \<lparr>jd_JobKey = key,
     jd_ExecutorType = (if et = '''' then cc_ExecutorType (cl_cfg c) else et)\<rparr>"
| "callMessage c (LabelCall announce withdraw) = LabelUpdateMsg \<lparr>lu_Announce = announce, lu_Withdraw = withdraw\<rparr>"

text \<open>\<open>submission.Close()\<close> on the way out of an upsert.\<close>

definition dropSubmission :: "client \<Rightarrow> submission option \<Rightarrow> client" where
  "dropSubmission c s =
     (case s of None \<Rightarrow> c | Some s \<Rightarrow> c\<lparr>cl_results := snd (closeSubmission (cl_results c) s)\<rparr>)"

definition failCall :: "client \<Rightarrow> submission option \<Rightarrow> schedErr \<Rightarrow> callPhase \<times> client" where
  "failCall c s er = (Done (Inl er), dropSubmission c s)"

text \<open>Without a connection a label revision applies to the local set; the other calls fail.\<close>

definition disconnected :: "client \<Rightarrow> clientCall \<Rightarrow> submission option \<Rightarrow> schedErr \<Rightarrow> callPhase \<times> client" where
  "disconnected c call s er =
     (case call of LabelCall announce withdraw \<Rightarrow> (Applying announce withdraw, c) | _ \<Rightarrow> failCall c s er)"

fun answerOf :: "client \<Rightarrow> clientCall \<Rightarrow> submission option \<Rightarrow> pendingReply \<Rightarrow> callPhase \<times> client" where
  "answerOf c (UpsertCall _) s reply =
     (case pr_upsertAck reply of
        None \<Rightarrow> failCall c s ErrUnexpectedMessage
      | Some ack \<Rightarrow>
          if \<not> jk_Accepted ack then failCall c s ErrUpsertRejected
          else (case s of
                  None \<Rightarrow> (Done (Inl ErrUnexpectedMessage), c)
                | Some s \<Rightarrow>
                    let (s, results) = adopt (cl_results c) s (jk_JobUUID ack)
                    in (Done (Inr (JobSubmitted s)), c\<lparr>cl_results := results\<rparr>)))"
| "answerOf c (DeleteCall _ _) s reply =
     (case pr_deleteAck reply of
        None \<Rightarrow> failCall c s ErrUnexpectedMessage
      | Some ack \<Rightarrow>
          if dk_Error ack \<noteq> None then failCall c s ErrDeleteRejected else (Done (Inr (JobDeleted (dk_Deleted ack))), c))"
| "answerOf c (LabelCall announce withdraw) s reply =
     (case pr_labelAck reply of
        None \<Rightarrow> failCall c s ErrUnexpectedMessage
      | Some ack \<Rightarrow>
          if \<not> la_Accepted ack then failCall c s ErrLabelUpdateRejected else (Applying announce withdraw, c))"

definition startCall :: "client \<Rightarrow> clientCall \<Rightarrow> callPhase \<times> client" where
  "startCall c call =
     (let (s, c) = (case call of
             UpsertCall upsert \<Rightarrow>
               let (s, results) = openWaiter (cl_results c) (ju_JobUUID upsert) (ju_ResultMode upsert)
               in (Some s, c\<lparr>cl_results := results\<rparr>)
           | _ \<Rightarrow> (None, c));
          (correlation, c) = nextCorrelation c;
          (waiter, c) = registerPending c correlation
      in (case waiter of
            Inl er \<Rightarrow> disconnected c call s er
          | Inr waiter \<Rightarrow> (Sending call s correlation waiter, c)))"

fun callStep :: "bool \<Rightarrow> bool \<Rightarrow> callPhase \<Rightarrow> client \<Rightarrow> callPhase \<times> client" where
  "callStep ctxEnded picksContext (Calling call) c =
     (case call of
        LabelCall announce withdraw \<Rightarrow>
          if '''' \<in> set announce \<or> '''' \<in> set withdraw then (Done (Inl ErrEmptyRoutingLabel), c) else startCall c call
      | _ \<Rightarrow> startCall c call)"
| "callStep ctxEnded picksContext (Sending call s correlation waiter) c =
     (case enqueueFrame c correlation (callMessage c call) of
        (None, c) \<Rightarrow> (Awaiting call s correlation waiter, c)
      | (Some ErrNotConnected, c) \<Rightarrow> disconnected (unregisterPending c correlation) call s ErrNotConnected
      | (Some er, c) \<Rightarrow> failCall (unregisterPending c correlation) s er)"
| "callStep ctxEnded picksContext (Awaiting call s correlation waiter) c =
     (if ctxEnded \<and> (cl_chans c waiter = WaiterEmpty \<or> picksContext)
      then failCall (unregisterPending c correlation) s ErrContextEnded
      else (case cl_chans c waiter of
              WaiterEmpty \<Rightarrow> (Awaiting call s correlation waiter, c)
            | WaiterHolds reply \<Rightarrow> answerOf (c\<lparr>cl_chans := (cl_chans c)(waiter := WaiterEmpty)\<rparr>) call s reply
            | WaiterClosed \<Rightarrow> disconnected c call s ErrConnectionClosed))"
| "callStep ctxEnded picksContext (Applying announce withdraw) c =
     (Done (Inr LabelsRevised), applyLabelRevision c announce withdraw)"
| "callStep ctxEnded picksContext (Done out) c = (Done out, c)"

section \<open>A client process\<close>

text \<open>\<open>serve\<close> attaches one connection at a time and detaches it before the next: an attach while one is
  there is no step of the program. Frames leave the queue through \<open>writeLoop\<close>.\<close>

record clientProc =
  cp_client :: client
  cp_calls :: "callPhase list"

datatype clientOp =
    OpCall clientCall
  | OpStep nat bool bool
  | OpAttach
  | OpDetach
  | OpReceive correlationID message
  | OpSendReply nat
  | OpCloseWaiter
  | OpEnqueue message
  | OpWrite

fun client_step :: "clientOp \<Rightarrow> clientProc \<Rightarrow> clientProc option" where
  "client_step (OpCall call) p = Some (p\<lparr>cp_calls := cp_calls p @ [Calling call]\<rparr>)"
| "client_step (OpStep i ctxEnded picks) p =
     (if i < length (cp_calls p)
      then let (ph, c) = callStep ctxEnded picks (cp_calls p ! i) (cp_client p)
           in Some (p\<lparr>cp_calls := (cp_calls p)[i := ph], cp_client := c\<rparr>)
      else Some p)"
| "client_step OpAttach p =
     (if cl_outgoing (cp_client p) \<noteq> None then Some p
      else do { c \<leftarrow> attachConnection (cp_client p); Some (p\<lparr>cp_client := c\<rparr>) })"
| "client_step OpDetach p =
     (if cl_outgoing (cp_client p) = None then Some p else Some (p\<lparr>cp_client := detachConnection (cp_client p)\<rparr>))"
| "client_step (OpReceive correlation msg) p = Some (p\<lparr>cp_client := snd (receive (cp_client p) correlation msg)\<rparr>)"
| "client_step (OpSendReply k) p = do { c \<leftarrow> sendReply (cp_client p) k; Some (p\<lparr>cp_client := c\<rparr>) }"
| "client_step OpCloseWaiter p = do { c \<leftarrow> closeWaiter (cp_client p); Some (p\<lparr>cp_client := c\<rparr>) }"
| "client_step (OpEnqueue msg) p = Some (p\<lparr>cp_client := snd (enqueueMessage (cp_client p) msg)\<rparr>)"
| "client_step OpWrite p =
     Some (p\<lparr>cp_client := (cp_client p)\<lparr>cl_outgoing := map_option (drop 1) (cl_outgoing (cp_client p))\<rparr>\<rparr>)"

fun client_run :: "clientOp list \<Rightarrow> clientProc \<Rightarrow> clientProc option" where
  "client_run [] p = Some p"
| "client_run (op # ops) p = do { p \<leftarrow> client_step op p; client_run ops p }"

end
