(* ===== verification/Client_Pending.thy ===== *)
theory Client_Pending
  imports Client_Connection
begin

text \<open>
  The pending replies of a client (\<open>yascheduler/client.go\<close>): no interleaving of callers, of the read
  loop and of connections that come and go panics or blocks the read loop, and a lost connection releases
  every caller.
\<close>

section \<open>Who has a waiter\<close>

fun waits :: "callPhase \<Rightarrow> (correlationID \<times> waiterRef) option" where
  "waits (Sending _ _ correlation waiter) = Some (correlation, waiter)"
| "waits (Awaiting _ _ correlation waiter) = Some (correlation, waiter)"
| "waits _ = None"

text \<open>The waiters somebody will answer or close.\<close>

definition live :: "client \<Rightarrow> waiterRef list" where
  "live c = map snd (cl_pending c) @ map fst (cl_sends c) @ cl_closes c"

definition chans_ok :: "client \<Rightarrow> bool" where
  "chans_ok c \<longleftrightarrow> distinct (live c) \<and> (\<forall>ch \<in> set (live c). ch < cl_nextChan c \<and> cl_chans c ch = WaiterEmpty)
     \<and> (cl_connectedClosed c \<longleftrightarrow> cl_outgoing c \<noteq> None) \<and> distinct (map fst (cl_pending c))
     \<and> (\<forall>(k, ch) \<in> set (cl_pending c). unat k \<le> unat (cl_correlation c))
     \<and> (cl_outgoing c = None \<longrightarrow> cl_pending c = [])"

definition call_ok :: "client \<Rightarrow> callPhase \<Rightarrow> bool" where
  "call_ok c ph \<longleftrightarrow> (\<forall>k ch. waits ph = Some (k, ch) \<longrightarrow> ch < cl_nextChan c \<and> unat k \<le> unat (cl_correlation c)
     \<and> (cl_chans c ch = WaiterEmpty \<longrightarrow> ch \<in> set (live c))
     \<and> (\<forall>(k', ch') \<in> set (cl_pending c). k' = k \<longleftrightarrow> ch' = ch))"

definition client_ok :: "clientProc \<Rightarrow> bool" where
  "client_ok p \<longleftrightarrow> chans_ok (cp_client p) \<and> (\<forall>ph \<in> set (cp_calls p). call_ok (cp_client p) ph)
     \<and> (\<forall>i < length (cp_calls p). \<forall>j < length (cp_calls p). \<forall>k k' ch.
          waits (cp_calls p ! i) = Some (k, ch) \<longrightarrow> waits (cp_calls p ! j) = Some (k', ch) \<longrightarrow> i = j)"

text \<open>What the invariant looks at.\<close>

definition sameCore :: "client \<Rightarrow> client \<Rightarrow> bool" where
  "sameCore c d \<longleftrightarrow> cl_pending d = cl_pending c \<and> cl_chans d = cl_chans c \<and> cl_nextChan d = cl_nextChan c
     \<and> cl_sends d = cl_sends c \<and> cl_closes d = cl_closes c \<and> cl_connectedClosed d = cl_connectedClosed c
     \<and> (cl_outgoing d = None \<longleftrightarrow> cl_outgoing c = None)"

lemma sameCore_refl [simp]: "sameCore c c"
  by (simp add: sameCore_def)

lemma sameCore_trans: "sameCore c d \<Longrightarrow> sameCore d e \<Longrightarrow> sameCore c e"
  by (simp add: sameCore_def)

lemma sameCore_ok:
  assumes "sameCore c d" and "unat (cl_correlation c) \<le> unat (cl_correlation d)"
  shows "chans_ok c \<Longrightarrow> chans_ok d" "call_ok c ph \<Longrightarrow> call_ok d ph"
proof -
  have "live d = live c" using assms(1) by (simp add: live_def sameCore_def)
  then show "chans_ok c \<Longrightarrow> chans_ok d" "call_ok c ph \<Longrightarrow> call_ok d ph"
    using assms unfolding chans_ok_def call_ok_def sameCore_def
    by (auto 0 3 intro: order_trans)
qed

lemma enqueueFrame_core:
  "sameCore c (snd (enqueueFrame c k msg)) \<and> cl_correlation (snd (enqueueFrame c k msg)) = cl_correlation c"
  by (auto simp: enqueueFrame_def sameCore_def split: sum.split option.split)

lemma dropSubmission_core: "sameCore c (dropSubmission c s) \<and> cl_correlation (dropSubmission c s) = cl_correlation c"
  by (auto simp: dropSubmission_def sameCore_def split: option.split)

lemma failCall_core:
  assumes "failCall c s er = (ph, d)"
  shows "sameCore c d \<and> cl_correlation d = cl_correlation c \<and> waits ph = None"
  using assms dropSubmission_core [of c s] by (auto simp: failCall_def)

lemma disconnected_core:
  assumes "disconnected c call s er = (ph, d)"
  shows "sameCore c d \<and> cl_correlation d = cl_correlation c \<and> waits ph = None"
  using assms failCall_core [of c s er ph d] by (auto simp: disconnected_def split: clientCall.splits)

lemma answerOf_core:
  assumes "answerOf c call s reply = (ph, d)"
  shows "sameCore c d \<and> cl_correlation d = cl_correlation c \<and> waits ph = None"
  using assms
  by (cases call)
     (auto simp: Let_def split_def sameCore_def dest!: failCall_core split: option.splits if_splits)

text \<open>A step of a call leaves the waiters alone, or registers its own, or gives it up, or takes its answer.\<close>

lemma callStep_cases:
  assumes "callStep a b ph c = (ph', d)"
  shows "(sameCore c d \<and> cl_correlation d \<in> {cl_correlation c, cl_correlation c + 1}
        \<and> (cl_correlation d = cl_correlation c + 1 \<longrightarrow> waits ph' = None) \<and> (waits ph' = waits ph \<or> waits ph' = None))
    \<or> (waits ph = None \<and> waits ph' = Some (cl_correlation c + 1, cl_nextChan c) \<and> cl_outgoing c \<noteq> None
        \<and> (\<exists>e. sameCore c e \<and> cl_correlation e = cl_correlation c + 1
             \<and> d = snd (registerPending e (cl_correlation c + 1))))
    \<or> (\<exists>k ch. waits ph = Some (k, ch) \<and> waits ph' = None \<and> sameCore (unregisterPending c k) d
        \<and> cl_correlation d = cl_correlation c)
    \<or> (\<exists>k ch. waits ph = Some (k, ch) \<and> waits ph' = None \<and> cl_chans c ch \<noteq> WaiterEmpty
        \<and> sameCore (c\<lparr>cl_chans := (cl_chans c)(ch := WaiterEmpty)\<rparr>) d \<and> cl_correlation d = cl_correlation c)"
proof (cases ph)
  case (Calling call)
  obtain s e where e: "sameCore c e" "cl_correlation e = cl_correlation c"
    "startCall c call = (case registerPending (e\<lparr>cl_correlation := cl_correlation c + 1\<rparr>) (cl_correlation c + 1) of
       (Inl er, f) \<Rightarrow> disconnected f call s er
     | (Inr waiter, f) \<Rightarrow> (Sending call s (cl_correlation c + 1) waiter, f))"
  proof (cases call)
    case (UpsertCall upsert)
    obtain s r where o: "openWaiter (cl_results c) (ju_JobUUID upsert) (ju_ResultMode upsert) = (s, r)" by fastforce
    show ?thesis
      by (rule that [of "c\<lparr>cl_results := r\<rparr>" "Some s"])
         (simp_all add: sameCore_def UpsertCall startCall_def nextCorrelation_def Let_def o split: prod.split sum.split)
  next
    case (DeleteCall et key)
    then show ?thesis
      by (intro that [of c None]) (simp_all add: startCall_def nextCorrelation_def Let_def split: prod.split sum.split)
  next
    case (LabelCall announce withdraw)
    then show ?thesis
      by (intro that [of c None]) (simp_all add: startCall_def nextCorrelation_def Let_def split: prod.split sum.split)
  qed
  let ?e = "e\<lparr>cl_correlation := cl_correlation c + 1\<rparr>"
  have core: "sameCore c ?e" using e(1) by (simp add: sameCore_def)
  have "(ph' = Done (Inl ErrEmptyRoutingLabel) \<and> d = c) \<or> startCall c call = (ph', d)"
    using assms unfolding Calling by (simp split: clientCall.splits if_splits)
  then consider "ph' = Done (Inl ErrEmptyRoutingLabel)" "d = c" | "startCall c call = (ph', d)" by blast
  then show ?thesis
  proof cases
    case 1
    then show ?thesis by (simp add: Calling)
  next
    case 2
    show ?thesis
    proof (cases "cl_outgoing c = None")
      case True
      then have "disconnected ?e call s ErrNotConnected = (ph', d)"
        using 2 core by (simp add: e(3) registerPending_def sameCore_def)
      from disconnected_core [OF this] core show ?thesis by (auto simp: Calling intro: sameCore_trans)
    next
      case False
      then have "cl_outgoing ?e \<noteq> None" "cl_nextChan ?e = cl_nextChan c" using core by (simp_all add: sameCore_def)
      then have "ph' = Sending call s (cl_correlation c + 1) (cl_nextChan c)" "d = snd (registerPending ?e (cl_correlation c + 1))"
        using 2 by (auto simp: e(3) registerPending_def)
      with core False show ?thesis by (auto simp: Calling intro!: exI [of _ ?e])
    qed
  qed
next
  case (Sending call s k ch)
  obtain er f where f: "enqueueFrame c k (callMessage c call) = (er, f)" by fastforce
  from enqueueFrame_core [of c k "callMessage c call"] f have core: "sameCore c f" "cl_correlation f = cl_correlation c" by simp_all
  have un: "sameCore (unregisterPending c k) (unregisterPending f k)" "cl_correlation (unregisterPending f k) = cl_correlation c"
    using core by (simp_all add: sameCore_def unregisterPending_def)
  show ?thesis
  proof (cases er)
    case None
    with assms Sending f core show ?thesis by auto
  next
    case (Some er')
    then have "failCall (unregisterPending f k) s er' = (ph', d) \<or> disconnected (unregisterPending f k) call s ErrNotConnected = (ph', d)"
      using assms Sending f by (cases er') simp_all
    then have "sameCore (unregisterPending f k) d \<and> cl_correlation d = cl_correlation c \<and> waits ph' = None"
      using failCall_core disconnected_core un(2) by metis
    then show ?thesis using un(1) by (auto simp: Sending intro: sameCore_trans)
  qed
next
  case (Awaiting call s k ch)
  consider (gone) "failCall (unregisterPending c k) s ErrContextEnded = (ph', d)"
    | (stays) "ph' = ph" "d = c"
    | (reply) reply where "cl_chans c ch = WaiterHolds reply"
        "answerOf (c\<lparr>cl_chans := (cl_chans c)(ch := WaiterEmpty)\<rparr>) call s reply = (ph', d)"
    | (closed) "disconnected c call s ErrConnectionClosed = (ph', d)"
    using assms unfolding Awaiting callStep.simps by (cases "cl_chans c ch"; simp split: if_splits; blast)
  then show ?thesis
  proof cases
    case gone
    from failCall_core [OF this] show ?thesis by (auto simp: Awaiting unregisterPending_def)
  next
    case reply
    from answerOf_core [OF reply(2)] reply(1) show ?thesis by (auto simp: Awaiting)
  next
    case closed
    from disconnected_core [OF this] show ?thesis by (auto simp: Awaiting)
  qed (simp add: Awaiting)
next
  case (Applying announce withdraw)
  with assms show ?thesis by (auto simp: sameCore_def applyLabelRevision_def)
next
  case (Done out)
  with assms show ?thesis by auto
qed

section \<open>The invariant\<close>

lemma chans_okD:
  assumes "chans_ok c"
  shows "distinct (live c)" "ch \<in> set (live c) \<Longrightarrow> ch < cl_nextChan c \<and> cl_chans c ch = WaiterEmpty"
    "cl_connectedClosed c \<longleftrightarrow> cl_outgoing c \<noteq> None" "distinct (map fst (cl_pending c))"
    "(k, ch') \<in> set (cl_pending c) \<Longrightarrow> unat k \<le> unat (cl_correlation c)"
    "cl_outgoing c = None \<Longrightarrow> cl_pending c = []"
  using assms unfolding chans_ok_def by blast+

lemma call_okD:
  assumes "call_ok c ph" and "waits ph = Some (k, ch)"
  shows "ch < cl_nextChan c" "unat k \<le> unat (cl_correlation c)" "cl_chans c ch = WaiterEmpty \<Longrightarrow> ch \<in> set (live c)"
    "(k', ch') \<in> set (cl_pending c) \<Longrightarrow> k' = k \<longleftrightarrow> ch' = ch"
proof -
  have all: "ch < cl_nextChan c \<and> unat k \<le> unat (cl_correlation c) \<and> (cl_chans c ch = WaiterEmpty \<longrightarrow> ch \<in> set (live c))
      \<and> (\<forall>(k', ch') \<in> set (cl_pending c). k' = k \<longleftrightarrow> ch' = ch)"
    using assms(1) [unfolded call_ok_def, rule_format, OF assms(2)] .
  then have wait: "cl_chans c ch = WaiterEmpty \<longrightarrow> ch \<in> set (live c)" by (elim conjE)
  show "ch < cl_nextChan c" using all by (elim conjE)
  show "unat k \<le> unat (cl_correlation c)" using all by (elim conjE)
  show "cl_chans c ch = WaiterEmpty \<Longrightarrow> ch \<in> set (live c)" using wait by (rule mp)
  show "k' = k \<longleftrightarrow> ch' = ch" if "(k', ch') \<in> set (cl_pending c)"
  proof -
    from all have "\<forall>x \<in> set (cl_pending c). case x of (k', ch') \<Rightarrow> k' = k \<longleftrightarrow> ch' = ch" by (elim conjE)
    from bspec [OF this that] show ?thesis by simp
  qed
qed

lemma call_okI:
  assumes "\<And>k ch. waits ph = Some (k, ch) \<Longrightarrow> ch < cl_nextChan c \<and> unat k \<le> unat (cl_correlation c)"
    and "\<And>k ch. waits ph = Some (k, ch) \<Longrightarrow> cl_chans c ch = WaiterEmpty \<Longrightarrow> ch \<in> set (live c)"
    and "\<And>k ch k' ch'. waits ph = Some (k, ch) \<Longrightarrow> (k', ch') \<in> set (cl_pending c) \<Longrightarrow> k' = k \<longleftrightarrow> ch' = ch"
  shows "call_ok c ph"
  unfolding call_ok_def
proof (intro allI impI conjI ballI)
  fix k ch x assume w: "waits ph = Some (k, ch)" and "x \<in> set (cl_pending c)"
  then show "case x of (k', ch') \<Rightarrow> k' = k \<longleftrightarrow> ch' = ch" by (cases x) (simp add: assms(3) [OF w])
qed (use assms(1,2) in simp_all)

lemma call_ok_none: "waits ph = None \<Longrightarrow> call_ok c ph"
  by (simp add: call_ok_def)

text \<open>A waiter that is nobody's any more, or is about to be answered.\<close>

lemma registerPending_ok:
  assumes c: "chans_ok c" and new: "cl_correlation d = cl_correlation c + 1" "sameCore c d"
    and no_wrap: "unat (cl_correlation c) + 1 < 2 ^ 64" and out: "cl_outgoing c \<noteq> None"
    and r: "e = snd (registerPending d (cl_correlation c + 1))"
  shows "chans_ok e" "call_ok c ph \<Longrightarrow> call_ok e ph"
    "waits ph = Some (cl_correlation c + 1, cl_nextChan c) \<Longrightarrow> call_ok e ph"
proof -
  let ?k = "cl_correlation c + 1"
  have k: "unat ?k = unat (cl_correlation c) + 1" using no_wrap by (simp add: unat_word_ariths)
  have fresh: "?k \<notin> fst ` set (cl_pending c)"
    using chans_okD(5) [OF c, of ?k] k by (auto simp: image_iff)
  have e: "e = d\<lparr>cl_nextChan := cl_nextChan c + 1, cl_chans := (cl_chans c)(cl_nextChan c := WaiterEmpty),
      cl_pending := cl_pending c @ [(?k, cl_nextChan c)]\<rparr>"
    using r out new(2) fresh by (auto simp add: registerPending_def sameCore_def update_fresh)
  have live: "set (live e) = insert (cl_nextChan c) (set (live c))" "distinct (live e)"
    using new(2) chans_okD(1,2) [OF c] by (auto simp: live_def e sameCore_def)
  have low: "ch \<in> set (live c) \<Longrightarrow> ch < cl_nextChan c \<and> cl_chans c ch = WaiterEmpty" for ch
    using chans_okD(2) [OF c] .
  have keys: "unat k' \<le> unat (cl_correlation c) + 1" if "(k', ch') \<in> set (cl_pending c)" for k' ch'
    using chans_okD(5) [OF c that] by simp
  show "chans_ok e"
    unfolding chans_ok_def
  proof (intro conjI ballI)
    show "distinct (live e)" by (rule live(2))
    fix ch assume "ch \<in> set (live e)"
    then show "ch < cl_nextChan e" "cl_chans e ch = WaiterEmpty" using low [of ch] live(1) by (auto simp: e)
  next
    show "cl_connectedClosed e = (cl_outgoing e \<noteq> None)"
      using chans_okD(3) [OF c] new(2) by (simp add: e sameCore_def)
    show "distinct (map fst (cl_pending e))" using chans_okD(4) [OF c] fresh by (simp add: e)
    fix x assume "x \<in> set (cl_pending e)"
    then show "case x of (k', ch) \<Rightarrow> unat k' \<le> unat (cl_correlation e)"
      using keys new(1) k by (auto simp: e)
  next
    show "cl_outgoing e = None \<longrightarrow> cl_pending e = []" using out new(2) by (simp add: e sameCore_def)
  qed
  show "call_ok e ph" if ok: "call_ok c ph"
    unfolding call_ok_def
  proof (intro allI impI)
    fix k' ch assume w: "waits ph = Some (k', ch)"
    note d = call_okD [OF ok w]
    have "k' \<noteq> ?k" using d(2) k by auto
    with d live(1) new(1) k show "ch < cl_nextChan e \<and> unat k' \<le> unat (cl_correlation e)
        \<and> (cl_chans e ch = WaiterEmpty \<longrightarrow> ch \<in> set (live e))
        \<and> (\<forall>(k'', ch') \<in> set (cl_pending e). k'' = k' \<longleftrightarrow> ch' = ch)"
      by (auto simp: e)
  qed
  show "call_ok e ph" if w: "waits ph = Some (?k, cl_nextChan c)"
    unfolding call_ok_def
  proof (intro allI impI)
    fix k' ch assume "waits ph = Some (k', ch)"
    then have eq: "k' = ?k" "ch = cl_nextChan c" using w by simp_all
    have "k'' \<noteq> ?k \<and> ch' \<noteq> cl_nextChan c" if "(k'', ch') \<in> set (cl_pending c)" for k'' ch'
      using that fresh low [of ch'] by (force simp: live_def)
    then show "ch < cl_nextChan e \<and> unat k' \<le> unat (cl_correlation e)
        \<and> (cl_chans e ch = WaiterEmpty \<longrightarrow> ch \<in> set (live e))
        \<and> (\<forall>(k'', ch') \<in> set (cl_pending e). k'' = k' \<longleftrightarrow> ch' = ch)"
      using live(1) new(1) by (auto simp: eq e)
  qed
qed

lemma map_snd_filter_distinct:
  "distinct (map snd xs @ ys) \<Longrightarrow> distinct (map snd (filter P xs) @ ys)"
  by (induction xs) auto

lemma unregisterPending_ok:
  assumes c: "chans_ok c" and own: "call_ok c own" "waits own = Some (k, ch)"
  shows "chans_ok (unregisterPending c k)"
    "call_ok c ph \<Longrightarrow> (\<And>k'. waits ph \<noteq> Some (k', ch)) \<Longrightarrow> call_ok (unregisterPending c k) ph"
proof -
  let ?e = "unregisterPending c k"
  have p: "cl_pending ?e = filter (\<lambda>x. fst x \<noteq> k) (cl_pending c)" by (simp add: unregisterPending_def delete_filter)
  have sub: "set (cl_pending ?e) \<subseteq> set (cl_pending c)" by (auto simp: p)
  have lv: "live ?e = map snd (filter (\<lambda>x. fst x \<noteq> k) (cl_pending c)) @ map fst (cl_sends c) @ cl_closes c"
    by (simp add: live_def unregisterPending_def delete_filter)
  have live: "set (live ?e) \<subseteq> set (live c)" "distinct (live ?e)"
    using map_snd_filter_distinct [OF chans_okD(1) [OF c, unfolded live_def], of "\<lambda>x. fst x \<noteq> k"]
    unfolding lv by (auto simp: live_def)
  have gone: "x = ch" if "x \<in> set (live c)" "x \<notin> set (live ?e)" for x
    using that call_okD(4) [OF own] unfolding lv by (force simp: live_def)
  show "chans_ok ?e"
    using c live sub unfolding chans_ok_def
    by (auto simp: unregisterPending_def AList.distinct_delete)
  show "call_ok ?e ph" if ok: "call_ok c ph" and other: "\<And>k'. waits ph \<noteq> Some (k', ch)"
    unfolding call_ok_def
  proof (intro allI impI)
    fix k' ch' assume w: "waits ph = Some (k', ch')"
    note d = call_okD [OF ok w]
    have "ch' \<noteq> ch" using other w by auto
    with d gone [of ch'] sub show "ch' < cl_nextChan ?e \<and> unat k' \<le> unat (cl_correlation ?e)
        \<and> (cl_chans ?e ch' = WaiterEmpty \<longrightarrow> ch' \<in> set (live ?e))
        \<and> (\<forall>(k'', ch'') \<in> set (cl_pending ?e). k'' = k' \<longleftrightarrow> ch'' = ch')"
      by (auto simp: unregisterPending_def)
  qed
qed

lemma answered_ok:
  assumes c: "chans_ok c" and held: "cl_chans c ch \<noteq> WaiterEmpty"
  shows "chans_ok (c\<lparr>cl_chans := (cl_chans c)(ch := WaiterEmpty)\<rparr>)"
    "call_ok c ph \<Longrightarrow> (\<And>k'. waits ph \<noteq> Some (k', ch)) \<Longrightarrow> call_ok (c\<lparr>cl_chans := (cl_chans c)(ch := WaiterEmpty)\<rparr>) ph"
  using assms unfolding chans_ok_def call_ok_def live_def by auto

text \<open>The moves of a reply: from the map to a send or a close under way, and then out of it.\<close>

lemma moved_ok:
  assumes "chans_ok c" and "set (live d) = set (live c)" "distinct (live d)" "cl_chans d = cl_chans c"
    "cl_nextChan d = cl_nextChan c" "cl_correlation d = cl_correlation c"
    "cl_connectedClosed d \<longleftrightarrow> cl_outgoing d \<noteq> None" "set (cl_pending d) \<subseteq> set (cl_pending c)"
    "distinct (map fst (cl_pending d))" "cl_outgoing d = None \<Longrightarrow> cl_pending d = []"
  shows "chans_ok d" "call_ok c ph \<Longrightarrow> call_ok d ph"
proof -
  show "chans_ok d" using assms unfolding chans_ok_def by auto
  show "call_ok d ph" if ok: "call_ok c ph"
  proof (rule call_okI)
    fix k ch k' ch' assume w: "waits ph = Some (k, ch)" and "(k', ch') \<in> set (cl_pending d)"
    then have "(k', ch') \<in> set (cl_pending c)" using assms(8) by blast
    then show "k' = k \<longleftrightarrow> ch' = ch" by (rule call_okD(4) [OF ok w])
  qed (use assms call_okD [OF ok] in auto)
qed

lemma released_ok:
  assumes c: "chans_ok c" and d: "set (live d) = set (live c) - {ch}" "distinct (live d)"
    "cl_chans d = (cl_chans c)(ch := v)" "v \<noteq> WaiterEmpty" "cl_nextChan d = cl_nextChan c"
    "cl_correlation d = cl_correlation c" "cl_connectedClosed d = cl_connectedClosed c"
    "cl_outgoing d = cl_outgoing c" "cl_pending d = cl_pending c"
  shows "chans_ok d" "call_ok c ph \<Longrightarrow> call_ok d ph"
proof -
  show "chans_ok d" using assms unfolding chans_ok_def by auto
  show "call_ok d ph" if ok: "call_ok c ph"
  proof (rule call_okI)
    fix k c' k' ch' assume w: "waits ph = Some (k, c')" and "(k', ch') \<in> set (cl_pending d)"
    then have "(k', ch') \<in> set (cl_pending c)" using d by simp
    then show "k' = k \<longleftrightarrow> ch' = c'" by (rule call_okD(4) [OF ok w])
  next
    fix k c' assume "waits ph = Some (k, c')" "cl_chans d c' = WaiterEmpty"
    then show "c' \<in> set (live d)" using d call_okD(3) [OF ok] by (auto split: if_splits)
  qed (use d call_okD(1,2) [OF ok] in auto)
qed

lemma completePending_ok:
  assumes c: "chans_ok c"
  shows "chans_ok (completePending c k reply)" "call_ok c ph \<Longrightarrow> call_ok (completePending c k reply) ph"
proof -
  let ?d = "completePending c k reply"
  have p: "cl_pending ?d = filter (\<lambda>x. fst x \<noteq> k) (cl_pending c)"
    by (auto simp: completePending_def delete_filter split: option.split)
  have "set (live ?d) = set (live c) \<and> distinct (live ?d)"
  proof (cases "map_of (cl_pending c) k")
    case None
    then have "filter (\<lambda>x. fst x \<noteq> k) (cl_pending c) = cl_pending c"
      by (auto simp: filter_id_conv map_of_eq_None_iff)
    then show ?thesis using None p chans_okD(1) [OF c] by (simp add: live_def completePending_def)
  next
    case (Some w)
    have dk: "distinct (map fst (cl_pending c))" by (rule chans_okD(4) [OF c])
    obtain xs ys where split: "cl_pending c = xs @ (k, w) # ys"
      using map_of_SomeD [OF Some] by (auto simp: in_set_conv_decomp)
    have "k \<notin> fst ` set xs" "k \<notin> fst ` set ys" using dk by (auto simp: split)
    then have "filter (\<lambda>x. fst x \<noteq> k) (cl_pending c) = xs @ ys"
      by (auto simp: split intro!: arg_cong2 [of _ _ _ _ "(@)"] filter_True)
    then have "live ?d = map snd xs @ map snd ys @ map fst (cl_sends c) @ [w] @ cl_closes c"
      using p Some by (simp add: live_def completePending_def)
    moreover have "live c = map snd xs @ [w] @ map snd ys @ map fst (cl_sends c) @ cl_closes c"
      by (simp add: live_def split)
    ultimately show ?thesis using chans_okD(1) [OF c] by auto
  qed
  then show "chans_ok ?d" "call_ok c ph \<Longrightarrow> call_ok ?d ph"
    using moved_ok [OF c, of ?d] p chans_okD(3,4,6) [OF c]
    by (auto simp: completePending_def distinct_map_filter split: option.split)
qed

lemma detachConnection_ok:
  assumes c: "chans_ok c"
  shows "chans_ok (detachConnection c)" "call_ok c ph \<Longrightarrow> call_ok (detachConnection c) ph"
proof -
  have live: "set (live (detachConnection c)) = set (live c)" "distinct (live (detachConnection c))"
    using chans_okD(1) [OF c] by (auto simp: live_def detachConnection_def)
  show "chans_ok (detachConnection c)" "call_ok c ph \<Longrightarrow> call_ok (detachConnection c) ph"
    using moved_ok [OF c live] by (simp_all add: detachConnection_def)
qed

lemma attachConnection_ok:
  assumes c: "chans_ok c" and out: "cl_outgoing c = None"
  shows "\<exists>d. attachConnection c = Some d \<and> chans_ok d \<and> (\<forall>ph. call_ok c ph \<longrightarrow> call_ok d ph)"
  using moved_ok [OF c, of "c\<lparr>cl_outgoing := Some [], cl_connectedClosed := True\<rparr>"] chans_okD(1,3,4) [OF c] out
  by (simp add: attachConnection_def live_def)

lemma sendReply_ok:
  assumes c: "chans_ok c"
  shows "\<exists>d. sendReply c k = Some d \<and> chans_ok d \<and> (\<forall>ph. call_ok c ph \<longrightarrow> call_ok d ph)
    \<and> (k < length (cl_sends c) \<longrightarrow> length (cl_sends d) < length (cl_sends c))"
proof (cases "k < length (cl_sends c)")
  case True
  obtain w reply where w: "cl_sends c ! k = (w, reply)" by fastforce
  have split: "cl_sends c = take k (cl_sends c) @ (w, reply) # drop (Suc k) (cl_sends c)"
    using id_take_nth_drop [OF True] w by simp
  have "w \<in> set (live c)" using True w by (force simp: live_def in_set_conv_nth)
  then have empty: "cl_chans c w = WaiterEmpty" using chans_okD(2) [OF c] by blast
  let ?d = "c\<lparr>cl_chans := (cl_chans c)(w := WaiterHolds reply), cl_sends := take k (cl_sends c) @ drop (Suc k) (cl_sends c)\<rparr>"
  have d: "sendReply c k = Some ?d" using True w empty by simp
  have lc: "live c = map snd (cl_pending c) @ map fst (take k (cl_sends c)) @ w # map fst (drop (Suc k) (cl_sends c)) @ cl_closes c"
    unfolding live_def by (subst split) simp
  have "set (live ?d) = set (live c) - {w}" "distinct (live ?d)"
    using chans_okD(1) [OF c] unfolding lc by (auto simp: live_def)
  with released_ok [OF c, of ?d w] d True show ?thesis by (simp add: live_def)
qed (use c in simp)

lemma closeWaiter_ok:
  assumes c: "chans_ok c"
  shows "\<exists>d. closeWaiter c = Some d \<and> chans_ok d \<and> (\<forall>ph. call_ok c ph \<longrightarrow> call_ok d ph)"
proof (cases "cl_closes c")
  case (Cons w ws)
  then have "cl_chans c w = WaiterEmpty" using chans_okD(2) [OF c, of w] by (simp add: live_def)
  then have d: "closeWaiter c = Some (c\<lparr>cl_chans := (cl_chans c)(w := WaiterClosed), cl_closes := ws\<rparr>)"
    using Cons by simp
  have "set (live (c\<lparr>cl_chans := (cl_chans c)(w := WaiterClosed), cl_closes := ws\<rparr>)) = set (live c) - {w}"
    "distinct (live (c\<lparr>cl_chans := (cl_chans c)(w := WaiterClosed), cl_closes := ws\<rparr>))"
    using chans_okD(1) [OF c] Cons by (auto simp: live_def)
  with released_ok [OF c, of "c\<lparr>cl_chans := (cl_chans c)(w := WaiterClosed), cl_closes := ws\<rparr>" w] d show ?thesis by simp
qed (use c in simp)

text \<open>What a call's own step does to the other calls.\<close>

lemma callStep_ok:
  assumes c: "chans_ok c" and own: "call_ok c ph" and few: "unat (cl_correlation c) + 1 < 2 ^ 64"
    and s: "callStep a b ph c = (ph', d)"
  shows "chans_ok d \<and> call_ok d ph' \<and> unat (cl_correlation d) \<le> unat (cl_correlation c) + 1
    \<and> (waits ph' = waits ph \<or> waits ph' = None \<or> (\<exists>k. waits ph' = Some (k, cl_nextChan c)))
    \<and> (\<forall>other. call_ok c other \<longrightarrow>
         (\<forall>k k' ch. waits ph = Some (k, ch) \<longrightarrow> waits other \<noteq> Some (k', ch)) \<longrightarrow> call_ok d other)"
proof -
  have up: "unat (cl_correlation c + 1) = unat (cl_correlation c) + 1" using few by (simp add: unat_word_ariths)
  from callStep_cases [OF s] consider
      (same) "sameCore c d" "unat (cl_correlation c) \<le> unat (cl_correlation d)" "unat (cl_correlation d) \<le> unat (cl_correlation c) + 1"
        "waits ph' = waits ph \<or> waits ph' = None"
    | (reg) e where "waits ph' = Some (cl_correlation c + 1, cl_nextChan c)" "cl_outgoing c \<noteq> None"
        "sameCore c e" "cl_correlation e = cl_correlation c + 1" "d = snd (registerPending e (cl_correlation c + 1))"
    | (unreg) k ch where "waits ph = Some (k, ch)" "waits ph' = None" "sameCore (unregisterPending c k) d"
        "cl_correlation d = cl_correlation c"
    | (ans) k ch where "waits ph = Some (k, ch)" "waits ph' = None" "cl_chans c ch \<noteq> WaiterEmpty"
        "sameCore (c\<lparr>cl_chans := (cl_chans c)(ch := WaiterEmpty)\<rparr>) d" "cl_correlation d = cl_correlation c"
    using up by fastforce
  then show ?thesis
  proof cases
    case same
    have "call_ok d ph'"
    proof (cases "waits ph'")
      case (Some w)
      with same(4) have "call_ok c ph'" using own by (auto simp: call_ok_def)
      then show ?thesis by (rule sameCore_ok(2) [OF same(1,2)])
    qed (rule call_ok_none)
    with sameCore_ok [OF same(1,2)] c same show ?thesis by blast
  next
    case reg
    have "cl_correlation d = cl_correlation c + 1"
      using reg(2-5) by (auto simp: registerPending_def sameCore_def)
    with registerPending_ok [OF c reg(4,3) few reg(2,5)] reg(1) up show ?thesis by auto
  next
    case unreg
    have u: "unat (cl_correlation (unregisterPending c k)) \<le> unat (cl_correlation d)"
      using unreg(4) by (simp add: unregisterPending_def)
    note un = unregisterPending_ok [OF c own unreg(1)]
    note core = sameCore_ok [OF unreg(3) u]
    have "call_ok d other" if "call_ok c other" "\<forall>k k' ch. waits ph = Some (k, ch) \<longrightarrow> waits other \<noteq> Some (k', ch)" for other
      using that unreg(1) by (intro core(2) un(2)) auto
    with core(1) un(1) unreg(2,4) call_ok_none [of ph' d] show ?thesis by simp
  next
    case ans
    let ?e = "c\<lparr>cl_chans := (cl_chans c)(ch := WaiterEmpty)\<rparr>"
    have u: "unat (cl_correlation ?e) \<le> unat (cl_correlation d)" using ans(5) by simp
    note an = answered_ok [OF c ans(3)]
    note core = sameCore_ok [OF ans(4) u]
    have "call_ok d other" if "call_ok c other" "\<forall>k k' ch. waits ph = Some (k, ch) \<longrightarrow> waits other \<noteq> Some (k', ch)" for other
      using that ans(1) by (intro core(2) an(2)) auto
    with core(1) an(1) ans(2,5) call_ok_none [of ph' d] show ?thesis by simp
  qed
qed

lemma client_okD:
  assumes "client_ok p"
  shows "chans_ok (cp_client p)" "i < length (cp_calls p) \<Longrightarrow> call_ok (cp_client p) (cp_calls p ! i)"
    "i < length (cp_calls p) \<Longrightarrow> j < length (cp_calls p) \<Longrightarrow> waits (cp_calls p ! i) = Some (k, ch)
      \<Longrightarrow> waits (cp_calls p ! j) = Some (k', ch) \<Longrightarrow> i = j"
  using assms unfolding client_ok_def by (auto simp: all_set_conv_all_nth)

lemma client_ok_client:
  assumes "client_ok p" and "chans_ok d" and "\<And>ph. call_ok (cp_client p) ph \<Longrightarrow> call_ok d ph"
  shows "client_ok (p\<lparr>cp_client := d\<rparr>)"
  using assms by (simp add: client_ok_def)

lemma client_ok_call:
  assumes ok: "client_ok p" and i: "i < length (cp_calls p)" and few: "unat (cl_correlation (cp_client p)) + 1 < 2 ^ 64"
    and s: "callStep a b (cp_calls p ! i) (cp_client p) = (ph, d)"
  shows "client_ok (p\<lparr>cp_calls := (cp_calls p)[i := ph], cp_client := d\<rparr>)"
proof -
  let ?c = "cp_client p"
  note D = client_okD [OF ok]
  note step = callStep_ok [OF D(1) D(2) [OF i] few s]
  have other: "waits (cp_calls p ! i) = Some (k, ch) \<longrightarrow> waits (cp_calls p ! j) \<noteq> Some (k', ch)"
    if "j < length (cp_calls p)" "j \<noteq> i" for j k k' ch
    using D(3) [OF i that(1), of k ch k'] that(2) by blast
  have calls: "call_ok d ((cp_calls p)[i := ph] ! j)" if j: "j < length (cp_calls p)" for j
  proof (cases "j = i")
    case False
    have "call_ok d (cp_calls p ! j)" using step D(2) [OF j] other [OF j False] by blast
    then show ?thesis using False by simp
  qed (use step i in simp)
  have low: "waits (cp_calls p ! j) \<noteq> Some (k, cl_nextChan ?c)" if "j < length (cp_calls p)" for j k
    using call_okD(1) [OF D(2) [OF that], of k "cl_nextChan ?c"] by auto
  have new: "waits ph \<noteq> Some (k', ch)" if "j < length (cp_calls p)" "j \<noteq> i" "waits (cp_calls p ! j) = Some (k, ch)" for j k k' ch
    using step that low [OF that(1), of k] D(3) [OF i that(1), of k' ch k] by auto
  have "j = l" if "j < length (cp_calls p)" "l < length (cp_calls p)" "waits ((cp_calls p)[i := ph] ! j) = Some (k, ch)"
      "waits ((cp_calls p)[i := ph] ! l) = Some (k', ch)" for j l k k' ch
    using that new [of j k ch k'] new [of l k' ch k] D(3) [of j l k ch k'] i
    by (cases "j = i"; cases "l = i") auto
  with calls step show ?thesis by (simp add: client_ok_def all_set_conv_all_nth)
qed



lemma enqueueMessage_ok:
  assumes c: "chans_ok c" and few: "unat (cl_correlation c) + 1 < 2 ^ 64"
  shows "chans_ok (snd (enqueueMessage c msg))" "call_ok c ph \<Longrightarrow> call_ok (snd (enqueueMessage c msg)) ph"
    "unat (cl_correlation (snd (enqueueMessage c msg))) = unat (cl_correlation c) + 1"
proof -
  let ?e = "c\<lparr>cl_correlation := cl_correlation c + 1\<rparr>"
  have up: "unat (cl_correlation c + 1) = unat (cl_correlation c) + 1" using few by (simp add: unat_word_ariths)
  have e: "snd (enqueueMessage c msg) = snd (enqueueFrame ?e (cl_correlation c + 1) msg)"
    by (simp add: enqueueMessage_def nextCorrelation_def)
  have core: "sameCore c (snd (enqueueMessage c msg))" "cl_correlation (snd (enqueueMessage c msg)) = cl_correlation c + 1"
    using enqueueFrame_core [of ?e "cl_correlation c + 1" msg] unfolding e by (simp_all add: sameCore_def)
  have le: "unat (cl_correlation c) \<le> unat (cl_correlation (snd (enqueueMessage c msg)))" using core(2) up by simp
  show "chans_ok (snd (enqueueMessage c msg))" by (rule sameCore_ok(1) [OF core(1) le c])
  show "call_ok c ph \<Longrightarrow> call_ok (snd (enqueueMessage c msg)) ph" by (rule sameCore_ok(2) [OF core(1) le])
  show "unat (cl_correlation (snd (enqueueMessage c msg))) = unat (cl_correlation c) + 1" using core(2) up by simp
qed

lemma receive_ok:
  assumes c: "chans_ok c" and few: "unat (cl_correlation c) + 1 < 2 ^ 64"
  shows "chans_ok (snd (receive c k msg)) \<and> (\<forall>ph. call_ok c ph \<longrightarrow> call_ok (snd (receive c k msg)) ph)
    \<and> unat (cl_correlation (snd (receive c k msg))) \<le> unat (cl_correlation c) + 1"
proof (cases "handleMessage msg")
  case (Complete reply)
  then have "snd (receive c k msg) = completePending c k reply" by (simp add: receive_def)
  moreover have "cl_correlation (completePending c k reply) = cl_correlation c"
    by (simp add: completePending_def split: option.split)
  ultimately show ?thesis using completePending_ok [OF c] by simp
next
  case (DeliverResult d)
  obtain ack results where h: "handleResultDelivery (cl_results c) d = (ack, results)" by fastforce
  let ?e = "c\<lparr>cl_results := results\<rparr>"
  have r: "snd (receive c k msg) = snd (enqueueMessage ?e ack)" using DeliverResult h by (simp add: receive_def)
  have core: "sameCore c ?e" by (simp add: sameCore_def)
  have e: "chans_ok ?e" "call_ok c ph \<Longrightarrow> call_ok ?e ph" for ph using sameCore_ok [OF core] c by simp_all
  have "unat (cl_correlation ?e) + 1 < 2 ^ 64" using few by simp
  from enqueueMessage_ok [OF e(1) this] e(2) show ?thesis unfolding r by simp
qed (use c in \<open>simp_all add: receive_def\<close>)

lemma client_step_ok:
  assumes ok: "client_ok p" and few: "unat (cl_correlation (cp_client p)) + 1 < 2 ^ 64"
  shows "\<exists>q. client_step op p = Some q \<and> client_ok q
    \<and> unat (cl_correlation (cp_client q)) \<le> unat (cl_correlation (cp_client p)) + 1"
proof -
  let ?c = "cp_client p"
  note c = client_okD(1) [OF ok]
  show ?thesis
  proof (cases op)
    case (OpCall call)
    have "call_ok ?c (Calling call)" by (simp add: call_ok_none)
    moreover have "i = j" if "i < Suc (length (cp_calls p))" "j < Suc (length (cp_calls p))"
        "waits ((cp_calls p @ [Calling call]) ! i) = Some (k, ch)" "waits ((cp_calls p @ [Calling call]) ! j) = Some (k', ch)" for i j k k' ch
      using that client_okD(3) [OF ok, of i j k ch k'] by (auto simp: nth_append less_Suc_eq split: if_splits)
    ultimately show ?thesis using ok OpCall by (auto simp: client_ok_def)
  next
    case (OpStep i a b)
    obtain ph d where s: "callStep a b (cp_calls p ! i) ?c = (ph, d)" by fastforce
    show ?thesis
    proof (cases "i < length (cp_calls p)")
      case True
      from client_ok_call [OF ok True few s] callStep_ok [OF c client_okD(2) [OF ok True] few s] s True OpStep
      show ?thesis by simp
    qed (use ok OpStep in simp)
  next
    case OpAttach
    show ?thesis
    proof (cases "cl_outgoing ?c")
      case None
      from attachConnection_ok [OF c None] obtain d where d: "attachConnection ?c = Some d" "chans_ok d"
        "\<forall>ph. call_ok ?c ph \<longrightarrow> call_ok d ph" by blast
      then have "cl_correlation d = cl_correlation ?c" by (auto simp: attachConnection_def split: if_splits)
      with d OpAttach None client_ok_client [OF ok d(2)] show ?thesis by simp
    qed (use ok OpAttach in simp)
  next
    case OpDetach
    from client_ok_client [OF ok detachConnection_ok [OF c]] show ?thesis
      using ok OpDetach by (auto simp: detachConnection_def)
  next
    case (OpReceive k msg)
    from receive_ok [OF c few, of k msg] client_ok_client [OF ok, of "snd (receive ?c k msg)"] show ?thesis
      using OpReceive by simp
  next
    case (OpSendReply k)
    from sendReply_ok [OF c, of k] obtain d where d: "sendReply ?c k = Some d" "chans_ok d"
      "\<forall>ph. call_ok ?c ph \<longrightarrow> call_ok d ph" by blast
    then have "cl_correlation d = cl_correlation ?c" by (auto simp: split_def Let_def split: if_splits waiterChan.splits)
    with d OpSendReply client_ok_client [OF ok d(2)] show ?thesis by simp
  next
    case OpCloseWaiter
    from closeWaiter_ok [OF c] obtain d where d: "closeWaiter ?c = Some d" "chans_ok d"
      "\<forall>ph. call_ok ?c ph \<longrightarrow> call_ok d ph" by blast
    then have "cl_correlation d = cl_correlation ?c" by (auto split: list.splits waiterChan.splits)
    with d OpCloseWaiter client_ok_client [OF ok d(2)] show ?thesis by simp
  next
    case (OpEnqueue msg)
    from enqueueMessage_ok(1,3) [OF c few, of msg] enqueueMessage_ok(2) [OF c few, where msg = msg] show ?thesis
      using OpEnqueue client_ok_client [OF ok, of "snd (enqueueMessage ?c msg)"] by simp
  next
    case OpWrite
    let ?d = "?c\<lparr>cl_outgoing := map_option (drop 1) (cl_outgoing ?c)\<rparr>"
    have "sameCore ?c ?d" by (simp add: sameCore_def)
    from sameCore_ok [OF this] c client_ok_client [OF ok, of ?d] show ?thesis using OpWrite by simp
  qed
qed

lemma client_run_ok:
  assumes "client_ok p" and "unat (cl_correlation (cp_client p)) + length ops < 2 ^ 64"
  shows "\<exists>q. client_run ops p = Some q \<and> client_ok q"
  using assms
proof (induction ops arbitrary: p)
  case (Cons op ops)
  then obtain q where q: "client_step op p = Some q" "client_ok q"
      "unat (cl_correlation (cp_client q)) \<le> unat (cl_correlation (cp_client p)) + 1"
    using client_step_ok [OF Cons.prems(1), of op] by fastforce
  with Cons.IH [OF q(2)] Cons.prems(2) show ?case by simp
qed simp

lemma NewClient_ok:
  "NewClient fresh cfg = Inr c \<Longrightarrow> client_ok \<lparr>cp_client = c, cp_calls = []\<rparr> \<and> cl_correlation c = 0"
  by (auto simp: NewClient_def client_ok_def chans_ok_def live_def split: sum.splits)

text \<open>Without a connection, and with no reply or close under way, a call's next step ends its wait.\<close>

lemma released_step:
  assumes c: "chans_ok c" and own: "call_ok c ph" and out: "cl_outgoing c = None" and idle: "cl_sends c = []" "cl_closes c = []"
  shows "(\<exists>a w. fst (callStep False picks ph c) = Applying a w) \<or> (\<exists>r. fst (callStep False picks ph c) = Done r)"
proof -
  have ends: "(\<exists>a w. fst r = Applying a w) \<or> (\<exists>r'. fst r = Done r')" if "r = failCall d s er \<or> r = disconnected d call s er \<or> r = answerOf d call s reply"
    for r d s er call reply
    using that
    by (cases call) (auto simp: failCall_def disconnected_def Let_def split_def split: option.splits if_splits)
  show ?thesis
  proof (cases ph)
    case (Calling call)
    have "\<exists>d s. startCall c call = disconnected d call s ErrNotConnected"
      using out by (cases call) (auto simp: startCall_def nextCorrelation_def registerPending_def Let_def split_def)
    then obtain d s where start: "startCall c call = disconnected d call s ErrNotConnected" by blast
    show ?thesis
      using ends [OF disjI2 [OF disjI1 [OF start]]] unfolding Calling
      by (cases call) (simp_all del: fst_conv split: if_split, simp)
  next
    case (Sending call s k ch)
    obtain er f where f: "enqueueFrame c k (callMessage c call) = (er, f)" by fastforce
    then obtain er' where er: "er = Some er'" using out by (auto simp: enqueueFrame_def split: sum.splits)
    have "callStep False picks ph c = failCall (unregisterPending f k) s er'
        \<or> callStep False picks ph c = disconnected (unregisterPending f k) call s ErrNotConnected"
      by (cases er') (simp_all add: Sending f er)
    then show ?thesis using ends by blast
  next
    case (Awaiting call s k ch)
    have "cl_chans c ch \<noteq> WaiterEmpty"
      using call_okD(3) [OF own, of k ch] Awaiting idle chans_okD(6) [OF c out] by (auto simp: live_def)
    then have "(\<exists>d reply. callStep False picks ph c = answerOf d call s reply)
        \<or> callStep False picks ph c = disconnected c call s ErrConnectionClosed"
      by (cases "cl_chans c ch") (auto simp: Awaiting)
    then show ?thesis using ends by blast
  qed auto
qed

text \<open>C13. Whatever the interleaving of calls, of the read loop and of connections that come and go, a
  client never sends on a closed channel, closes one twice or blocks its read loop: every send of a reply
  finds its waiter empty and is over in one step. And a lost connection releases every caller: when there
  is no connection and the replies and closes already under way have happened, the next step of any call
  ends its wait, with an answer, an error or a label revision left to apply, without its context having
  ended. (Fewer than 2^64 operations, so that no correlation comes twice.)\<close>

theorem lost_connection_releases_calls:
  assumes new: "NewClient fresh cfg = Inr c" and few: "length ops < 2 ^ 64"
  shows "\<exists>p. client_run ops \<lparr>cp_client = c, cp_calls = []\<rparr> = Some p
    \<and> (\<forall>k < length (cl_sends (cp_client p)). \<exists>d. sendReply (cp_client p) k = Some d
         \<and> length (cl_sends d) < length (cl_sends (cp_client p)))
    \<and> (cl_outgoing (cp_client p) = None \<longrightarrow> cl_sends (cp_client p) = [] \<longrightarrow> cl_closes (cp_client p) = []
         \<longrightarrow> (\<forall>ph \<in> set (cp_calls p). (\<exists>a w. fst (callStep False picks ph (cp_client p)) = Applying a w)
               \<or> (\<exists>r. fst (callStep False picks ph (cp_client p)) = Done r)))"
proof -
  obtain p where p: "client_run ops \<lparr>cp_client = c, cp_calls = []\<rparr> = Some p" "client_ok p"
    using client_run_ok [of "\<lparr>cp_client = c, cp_calls = []\<rparr>" ops] NewClient_ok [OF new] few by auto
  have c: "chans_ok (cp_client p)" and calls: "ph \<in> set (cp_calls p) \<Longrightarrow> call_ok (cp_client p) ph" for ph
    using p(2) by (simp_all add: client_ok_def)
  have "\<exists>d. sendReply (cp_client p) k = Some d \<and> length (cl_sends d) < length (cl_sends (cp_client p))"
    if "k < length (cl_sends (cp_client p))" for k
    using sendReply_ok [OF c, of k] that by blast
  with p(1) released_step [OF c calls] show ?thesis by blast
qed

text \<open>A deletion has its waiter, the connection goes, and the caller is released.\<close>

definition demo_lost :: "clientOp list" where
  "demo_lost = [OpAttach, OpCall (DeleteCall '''' ''k''), OpStep 0 False False, OpDetach, OpCloseWaiter]"

theorem lost_connection_releases_calls_witness:
  "\<exists>c p. NewClient ''i'' demo_client_config = Inr c \<and> client_run demo_lost \<lparr>cp_client = c, cp_calls = []\<rparr> = Some p
    \<and> cp_calls p = [Sending (DeleteCall '''' ''k'') None 1 0]
    \<and> ((\<exists>a w. fst (callStep False False (cp_calls p ! 0) (cp_client p)) = Applying a w)
       \<or> (\<exists>r. fst (callStep False False (cp_calls p ! 0) (cp_client p)) = Done r))"
proof -
  obtain c where c: "NewClient ''i'' demo_client_config = Inr c"
    by (simp add: NewClient_def clientConfig_normalized_def demo_client_config_def)
  have "length demo_lost < 2 ^ 64" by (simp add: demo_lost_def)
  from lost_connection_releases_calls [OF c this, of False] obtain p where
    p: "client_run demo_lost \<lparr>cp_client = c, cp_calls = []\<rparr> = Some p"
    and calls: "cl_outgoing (cp_client p) = None \<longrightarrow> cl_sends (cp_client p) = [] \<longrightarrow> cl_closes (cp_client p) = []
         \<longrightarrow> (\<forall>ph \<in> set (cp_calls p). (\<exists>a w. fst (callStep False False ph (cp_client p)) = Applying a w)
               \<or> (\<exists>r. fst (callStep False False ph (cp_client p)) = Done r))" by (elim exE conjE) (rule that)
  have start: "cl_outgoing c = None" "\<not> cl_connectedClosed c" "cl_pending c = []" "cl_sends c = []" "cl_closes c = []"
    "cl_correlation c = 0" "cl_nextChan c = 0" "cl_chans c = (\<lambda>_. WaiterEmpty)"
    using c by (auto simp: NewClient_def split: sum.splits)
  have "cp_calls p = [Sending (DeleteCall '''' ''k'') None 1 0]" "cl_outgoing (cp_client p) = None"
    "cl_sends (cp_client p) = []" "cl_closes (cp_client p) = []"
    using p start by (auto simp: demo_lost_def attachConnection_def startCall_def nextCorrelation_def registerPending_def
        detachConnection_def)
  with c p calls show ?thesis by auto
qed

end
