(* ===== verification/Client_Labels.thy ===== *)
theory Client_Labels
  imports Client_Pending Registry_Properties
begin

text \<open>
  A client's labels and the scheduler's (\<open>yascheduler/client.go\<close>, \<open>yascheduler/engine/registry.go\<close>): what a
  registration announces, and a revision made while one is under way.
\<close>

text \<open>Three steps: the call finds no connection, applies its revision, and the connection is attached.\<close>

lemma unconnected_revision:
  assumes call: "i < length (cp_calls p)" "cp_calls p ! i = Calling (LabelCall [l] [])" "l \<noteq> ''''"
    and out: "cl_outgoing (cp_client p) = None" "\<not> cl_connectedClosed (cp_client p)"
  shows "\<exists>q. client_run [OpStep i a b, OpStep i a' b', OpAttach] p = Some q
    \<and> cp_calls q ! i = Done (Inr LabelsRevised) \<and> cl_outgoing (cp_client q) = Some []
    \<and> Members (cl_labelSet (cp_client q)) = insert l (Members (cl_labelSet (cp_client p)))"
  using assms
  by (simp add: startCall_def nextCorrelation_def registerPending_def disconnected_def applyLabelRevision_def
      attachConnection_def Members_ops)

lemma registered_labels:
  assumes inv: "registry_inv rg" and reg: "Register rg inst et capacity fs labels sender = Some ((ref, old, change), rg')"
  shows "Members (en_labels (rg_heap rg' ref)) = set labels - {''''}"
  using Register_effect [OF inv, of inst et capacity fs labels sender] reg
  by (auto simp: newEntry_def labelSetOf_inv)

text \<open>C14. A label announced while a registration is under way is lost to the connection it precedes. The
  registration carries the labels the client had when it was written. A revision that runs after that and before
  the connection is attached finds no connection, applies to the local set and reports success; the connection
  then comes up with no revision on its way, the client holds the label, and the scheduler's entry for it does
  not. A label held when the registration was written is in the entry.\<close>

theorem label_missed_while_registering:
  assumes ts: "ts_inv (cl_labelSet (cp_client p))" and inv: "registry_inv rg"
    and msg: "m = registerMessage (cp_client p) fs"
    and reg: "Register rg (rm_InstanceID m) (rm_ExecutorType m) (rm_Capacity m) (rm_Functions m) (rm_Labels m) sender
      = Some ((ref, old, change), rg')"
    and call: "i < length (cp_calls p)" "cp_calls p ! i = Calling (LabelCall [l] [])" "l \<noteq> ''''"
    and fresh: "l \<notin> Members (cl_labelSet (cp_client p))"
    and out: "cl_outgoing (cp_client p) = None" "\<not> cl_connectedClosed (cp_client p)"
  shows "(\<exists>q. client_run [OpStep i a b, OpStep i a' b', OpAttach] p = Some q
      \<and> cp_calls q ! i = Done (Inr LabelsRevised) \<and> cl_outgoing (cp_client q) = Some []
      \<and> l \<in> Members (cl_labelSet (cp_client q)))
    \<and> l \<notin> Members (en_labels (rg_heap rg' ref))
    \<and> (\<forall>l' \<in> Members (cl_labelSet (cp_client p)). l' \<noteq> '''' \<longrightarrow> l' \<in> Members (en_labels (rg_heap rg' ref)))"
proof -
  have "set (rm_Labels m) = Members (cl_labelSet (cp_client p))"
    using set_Values_members [OF ts] by (simp add: msg registerMessage_def)
  with registered_labels [OF inv reg] have "Members (en_labels (rg_heap rg' ref)) = Members (cl_labelSet (cp_client p)) - {''''}"
    by simp
  with unconnected_revision [OF call out, of a b a' b'] fresh show ?thesis by blast
qed

definition demo_registering :: "client \<Rightarrow> clientProc" where
  "demo_registering c = \<lparr>cp_client = c, cp_calls = [Calling (LabelCall [''gpu''] [])]\<rparr>"

theorem label_missed_while_registering_witness:
  "\<exists>c rg' ref old change q. NewClient ''i'' demo_client_config = Inr c
    \<and> Register NewExecutorRegistry ''i'' ''t'' DefaultCapacity [] [] 0 = Some ((ref, old, change), rg')
    \<and> client_run [OpStep 0 False False, OpStep 0 False False, OpAttach] (demo_registering c) = Some q
    \<and> ''gpu'' \<in> Members (cl_labelSet (cp_client q)) \<and> ''gpu'' \<notin> Members (en_labels (rg_heap rg' ref))"
proof -
  obtain c where c: "NewClient ''i'' demo_client_config = Inr c"
    by (simp add: NewClient_def clientConfig_normalized_def demo_client_config_def)
  then have start: "cl_outgoing c = None" "\<not> cl_connectedClosed c" "cl_labelSet c = NewThreadSafeSet"
    "cc_InstanceID (cl_cfg c) = ''i''" "cc_ExecutorType (cl_cfg c) = ''t''" "cc_Capacity (cl_cfg c) = DefaultCapacity"
    by (auto simp: NewClient_def clientConfig_normalized_def demo_client_config_def split: sum.splits if_splits)
  let ?p = "demo_registering c" and ?m = "registerMessage (cp_client (demo_registering c)) []"
  have m: "?m = \<lparr>rm_ProtocolVersion = CurrentVersion, rm_ExecutorType = ''t'', rm_InstanceID = ''i'',
      rm_Capacity = DefaultCapacity, rm_Functions = [], rm_Labels = []\<rparr>"
    using start by (simp add: demo_registering_def registerMessage_def set_Values_def NewThreadSafeSet_def dataOf_def)
  obtain ref old change rg' where reg:
    "Register NewExecutorRegistry ''i'' ''t'' DefaultCapacity [] [] 0 = Some ((ref, old, change), rg')"
    using Register_effect [OF registry_inv_New, of "''i''" "''t''" DefaultCapacity "[]" "[]" 0] by auto
  have "ts_inv (cl_labelSet (cp_client ?p))" "''gpu'' \<notin> Members (cl_labelSet (cp_client ?p))"
    using start by (simp_all add: demo_registering_def ts.wf_new ts.members_new)
  from label_missed_while_registering [OF this(1) registry_inv_New refl _ _ _ _ this(2), where i = 0 and a = False and b = False
      and a' = False and b' = False and fs = "[]" and sender = 0 and ref = ref and old = old and change = change and rg' = rg']
  show ?thesis using c reg start unfolding m by (auto simp: demo_registering_def)
qed

end
