(* ===== verification/Loopback.thy ===== *)
theory Loopback
  imports Client_Connection
begin

text \<open>
  The in-process link of a local scheduler (\<open>yascheduler/loopback.go\<close>): two bounded queues between the
  engine and the executor's runtime, each drained by a goroutine until the link stops.

  \<open>enqueue\<close> looks at \<open>closed\<close> and then offers its message, in two steps: \<open>lb_offers\<close> has the
  messages whose senders are between them. \<open>lb_accepted\<close> and \<open>lb_handled\<close> record what was taken and
  what was handed over, per queue.
\<close>

datatype side = ToExecutor | ToEngine

datatype drainPhase = NotStarted | Draining | Flushing | DrainEnded

record loopback =
  lb_size :: nat
  lb_queue :: "side \<Rightarrow> message list"
  lb_started :: bool
  lb_closed :: bool
  lb_drain :: "side \<Rightarrow> drainPhase"
  lb_offers :: "(side \<times> message) list"
  lb_accepted :: "side \<Rightarrow> message list"
  lb_handled :: "side \<Rightarrow> message list"

definition newLoopback :: "nat \<Rightarrow> loopback" where
  "newLoopback queueSize = \<lparr>lb_size = queueSize, lb_queue = \<lambda>_. [], lb_started = False, lb_closed = False,
     lb_drain = \<lambda>_. NotStarted, lb_offers = [], lb_accepted = \<lambda>_. [], lb_handled = \<lambda>_. []\<rparr>"

text \<open>The first half of \<open>enqueue\<close>, with the error of a stopped link, and the second, with that of a full
  queue.\<close>

definition enqueueCheck :: "loopback \<Rightarrow> side \<Rightarrow> message \<Rightarrow> schedErr option \<times> loopback" where
  "enqueueCheck lb q msg =
     (if lb_closed lb then (Some ErrLoopbackStopped, lb) else (None, lb\<lparr>lb_offers := lb_offers lb @ [(q, msg)]\<rparr>))"

definition enqueueOffer :: "loopback \<Rightarrow> nat \<Rightarrow> schedErr option \<times> loopback" where
  "enqueueOffer lb k =
     (let (q, msg) = lb_offers lb ! k;
          lb = lb\<lparr>lb_offers := take k (lb_offers lb) @ drop (Suc k) (lb_offers lb)\<rparr>
      in if length (lb_queue lb q) < lb_size lb
         then (None, lb\<lparr>lb_queue := (lb_queue lb)(q := lb_queue lb q @ [msg]),
                        lb_accepted := (lb_accepted lb)(q := lb_accepted lb q @ [msg])\<rparr>)
         else (Some ErrOutgoingQueueFull, lb))"

definition startLoopback :: "loopback \<Rightarrow> loopback" where
  "startLoopback lb = lb\<lparr>lb_started := True, lb_drain := \<lambda>_. Draining\<rparr>"

definition Stop :: "loopback \<Rightarrow> loopback" where
  "Stop lb = lb\<lparr>lb_closed := True\<rparr>"

text \<open>One receive of a drain. \<open>flush\<close> is for the queue to the engine alone. When the link has stopped
  and a message is there, either branch of the select may run.\<close>

definition takeMessage :: "loopback \<Rightarrow> side \<Rightarrow> loopback" where
  "takeMessage lb q =
     (case lb_queue lb q of
        [] \<Rightarrow> lb
      | msg # msgs \<Rightarrow> lb\<lparr>lb_queue := (lb_queue lb)(q := msgs), lb_handled := (lb_handled lb)(q := lb_handled lb q @ [msg])\<rparr>)"

definition drainStep :: "bool \<Rightarrow> side \<Rightarrow> loopback \<Rightarrow> loopback" where
  "drainStep picksStop q lb =
     (case lb_drain lb q of
        NotStarted \<Rightarrow> lb
      | Draining \<Rightarrow>
          if lb_closed lb \<and> (picksStop \<or> lb_queue lb q = [])
          then lb\<lparr>lb_drain := (lb_drain lb)(q := (if q = ToEngine then Flushing else DrainEnded))\<rparr>
          else takeMessage lb q
      | Flushing \<Rightarrow> if lb_queue lb q = [] then lb\<lparr>lb_drain := (lb_drain lb)(q := DrainEnded)\<rparr> else takeMessage lb q
      | DrainEnded \<Rightarrow> lb)"

text \<open>\<open>Stop\<close> returns when the drains, if they were started, have ended.\<close>

definition stopReturns :: "loopback \<Rightarrow> bool" where
  "stopReturns lb \<longleftrightarrow> lb_closed lb \<and> (lb_started lb \<longrightarrow> lb_drain lb ToExecutor = DrainEnded \<and> lb_drain lb ToEngine = DrainEnded)"

datatype loopbackOp = OpOfferCheck side message | OpOffer nat | OpStart | OpStop | OpDrain bool side

fun loopback_step :: "loopbackOp \<Rightarrow> loopback \<Rightarrow> loopback" where
  "loopback_step (OpOfferCheck q msg) lb = snd (enqueueCheck lb q msg)"
| "loopback_step (OpOffer k) lb = (if k < length (lb_offers lb) then snd (enqueueOffer lb k) else lb)"
| "loopback_step OpStart lb = (if lb_started lb then lb else startLoopback lb)"
| "loopback_step OpStop lb = Stop lb"
| "loopback_step (OpDrain picksStop q) lb = drainStep picksStop q lb"

definition loopback_run :: "loopbackOp list \<Rightarrow> loopback \<Rightarrow> loopback" where
  "loopback_run ops lb = fold loopback_step ops lb"

section \<open>Routing\<close>

text \<open>\<open>routeToExecutor\<close> and \<open>routeToEngine\<close>: the handler a message goes to.\<close>

datatype route = RunOnExecutor execRequestMsg | CancelOnExecutor executionID | DeliverToWaiter resultDeliveryMsg
  | EngineAccept execAcceptMsg | EngineResult execResultMsg | EngineResultAck resultDeliveryAckMsg | EngineHeartbeat
  | Unexpected

fun routeToExecutor :: "message \<Rightarrow> route" where
  "routeToExecutor (ExecRequestMsg m) = RunOnExecutor m"
| "routeToExecutor (CancelMsg m) = CancelOnExecutor (cn_ExecutionID m)"
| "routeToExecutor (ResultDeliveryMsg m) = DeliverToWaiter m"
| "routeToExecutor _ = Unexpected"

fun routeToEngine :: "message \<Rightarrow> route" where
  "routeToEngine (ExecAcceptMsg m) = EngineAccept m"
| "routeToEngine (ExecResultMsg m) = EngineResult m"
| "routeToEngine (ResultDeliveryAckMsg m) = EngineResultAck m"
| "routeToEngine (HeartbeatMsg m) = EngineHeartbeat"
| "routeToEngine _ = Unexpected"

section \<open>Nothing is lost, unless it races with the stop\<close>

definition loopback_ok :: "loopback \<Rightarrow> bool" where
  "loopback_ok lb \<longleftrightarrow> (\<forall>q. lb_accepted lb q = lb_handled lb q @ lb_queue lb q) \<and> (\<forall>q. length (lb_queue lb q) \<le> lb_size lb)
     \<and> (\<forall>q. lb_drain lb q \<in> {Flushing, DrainEnded} \<longrightarrow> lb_closed lb)"

lemma loopback_ok_new: "loopback_ok (newLoopback n)"
  by (simp add: loopback_ok_def newLoopback_def)

lemma takeMessage_ok:
  assumes "loopback_ok lb"
  shows "loopback_ok (takeMessage lb q)"
proof -
  have "length (lb_queue lb q) \<le> lb_size lb" using assms by (simp add: loopback_ok_def)
  with assms show ?thesis by (cases "lb_queue lb q") (auto simp: takeMessage_def loopback_ok_def)
qed

lemma loopback_step_ok:
  assumes "loopback_ok lb"
  shows "loopback_ok (loopback_step op lb)"
proof (cases op)
  case (OpOffer k)
  then show ?thesis
    using assms by (auto simp: enqueueOffer_def Let_def split_def loopback_ok_def)
next
  case (OpDrain b q)
  then show ?thesis
    using assms takeMessage_ok [OF assms, of q]
    by (auto simp: drainStep_def loopback_ok_def split: drainPhase.split)
qed (use assms in \<open>auto simp: enqueueCheck_def startLoopback_def Stop_def loopback_ok_def\<close>)

lemma loopback_step_fixed:
  "lb_size (loopback_step op lb) = lb_size lb \<and> (lb_started lb \<longrightarrow> lb_started (loopback_step op lb))"
  by (cases op)
     (auto simp: enqueueCheck_def enqueueOffer_def startLoopback_def Stop_def drainStep_def takeMessage_def Let_def
       split_def split: drainPhase.split list.split)

lemma loopback_run_fixed:
  "lb_size (loopback_run ops lb) = lb_size lb \<and> (lb_started lb \<longrightarrow> lb_started (loopback_run ops lb))"
proof (induction ops arbitrary: lb)
  case (Cons op ops)
  from Cons [of "loopback_step op lb"] loopback_step_fixed [of op lb] show ?case by (simp add: loopback_run_def)
qed (simp add: loopback_run_def)

lemma loopback_run_ok: "loopback_ok lb \<Longrightarrow> loopback_ok (loopback_run ops lb)"
  by (induction ops arbitrary: lb) (simp_all add: loopback_run_def loopback_step_ok)

text \<open>What is on its way to the engine once its drain has ended: nothing but messages that were past
  the check before the link closed.\<close>

definition noneLate :: "loopback \<Rightarrow> bool" where
  "noneLate lb \<longleftrightarrow> lb_closed lb \<and> ToEngine \<notin> fst ` set (lb_offers lb)"

lemma noneLate_step: "noneLate lb \<Longrightarrow> noneLate (loopback_step op lb)"
  by (cases op)
     (auto simp: noneLate_def enqueueCheck_def enqueueOffer_def startLoopback_def Stop_def drainStep_def takeMessage_def
       Let_def split_def image_iff dest: in_set_takeD in_set_dropD split: drainPhase.split list.split)

lemma noneLate_queue:
  assumes "noneLate lb" and "lb_started lb"
    and "lb_drain lb ToEngine = DrainEnded \<longrightarrow> lb_queue lb ToEngine = []"
  shows "lb_started (loopback_step op lb)
    \<and> (lb_drain (loopback_step op lb) ToEngine = DrainEnded \<longrightarrow> lb_queue (loopback_step op lb) ToEngine = [])"
proof (cases op)
  case (OpOffer k)
  have "fst (lb_offers lb ! k) \<noteq> ToEngine" if "k < length (lb_offers lb)"
    using assms(1) that by (force simp: noneLate_def in_set_conv_nth)
  with assms OpOffer show ?thesis by (auto simp: enqueueOffer_def Let_def split_def)
next
  case (OpDrain b q)
  then show ?thesis
    using assms by (auto simp: drainStep_def takeMessage_def split: drainPhase.split list.split)
qed (use assms in \<open>auto simp: enqueueCheck_def startLoopback_def Stop_def\<close>)

lemma noneLate_run:
  assumes "noneLate lb" "lb_started lb" "lb_drain lb ToEngine = DrainEnded \<longrightarrow> lb_queue lb ToEngine = []"
  shows "lb_drain (loopback_run ops lb) ToEngine = DrainEnded \<longrightarrow> lb_queue (loopback_run ops lb) ToEngine = []"
  using assms
proof (induction ops arbitrary: lb)
  case (Cons op ops)
  from noneLate_queue [OF Cons.prems, of op] Cons.IH [OF noneLate_step [OF Cons.prems(1), of op]]
  show ?case by (simp add: loopback_run_def)
qed (simp add: loopback_run_def)

text \<open>
  The link hands over what it took, once and in order. Whatever the interleaving of senders, drains and
  the stop: each queue stays within its size, and what was accepted for a side is what has been
  handed over followed by what is queued. And a stop flushes the results: if no sender of an engine-bound
  message is between its check and its offer when the link closes, then when \<open>Stop\<close> returns every
  message accepted for the engine has been handed over. A sender that is between the two can have its message accepted
  after the drain has ended, and then nothing ever takes it.
\<close>

theorem loopback_hands_over:
  assumes run: "lb = loopback_run ops (newLoopback n)"
  shows "(\<forall>q. lb_accepted lb q = lb_handled lb q @ lb_queue lb q \<and> length (lb_queue lb q) \<le> n)
    \<and> (lb_started lb \<longrightarrow> \<not> lb_closed lb \<longrightarrow> ToEngine \<notin> fst ` set (lb_offers lb) \<longrightarrow>
        (\<forall>more. stopReturns (loopback_run (OpStop # more) lb) \<longrightarrow>
           lb_handled (loopback_run (OpStop # more) lb) ToEngine = lb_accepted (loopback_run (OpStop # more) lb) ToEngine))"
proof -
  have ok: "loopback_ok lb" unfolding run by (rule loopback_run_ok [OF loopback_ok_new])
  have "lb_handled (loopback_run (OpStop # more) lb) ToEngine = lb_accepted (loopback_run (OpStop # more) lb) ToEngine"
    if started: "lb_started lb" and opened: "\<not> lb_closed lb" and none: "ToEngine \<notin> fst ` set (lb_offers lb)"
      and ends: "stopReturns (loopback_run (OpStop # more) lb)" for more
  proof -
    have "lb_drain lb ToEngine \<noteq> DrainEnded" using ok opened by (auto simp: loopback_ok_def)
    then have "lb_drain (loopback_run more (Stop lb)) ToEngine = DrainEnded \<longrightarrow> lb_queue (loopback_run more (Stop lb)) ToEngine = []"
      using started none by (intro noneLate_run) (simp_all add: noneLate_def Stop_def)
    moreover have "lb_started (loopback_run more (Stop lb))"
      using loopback_run_fixed [of more "Stop lb"] started by (simp add: Stop_def)
    ultimately show ?thesis
      using ends loopback_run_ok [OF ok, of "OpStop # more"]
      by (auto simp: loopback_run_def stopReturns_def loopback_ok_def Stop_def)
  qed
  with ok loopback_run_fixed [of ops "newLoopback n"] run show ?thesis by (simp add: loopback_ok_def newLoopback_def)
qed

definition demo_loopback :: "loopbackOp list" where
  "demo_loopback = [OpStart, OpOfferCheck ToEngine (HeartbeatMsg \<lparr>hb_InFlight = 1\<rparr>), OpOffer 0]"

definition demo_stop :: "loopbackOp list" where
  "demo_stop = [OpDrain True ToExecutor, OpDrain True ToEngine, OpDrain True ToEngine, OpDrain True ToEngine]"

text \<open>The queued message is handed over by the flush; one that is offered after it stays for ever.\<close>

theorem loopback_hands_over_witness:
  "lb_handled (loopback_run (OpStop # demo_stop) (loopback_run demo_loopback (newLoopback 4))) ToEngine
     = [HeartbeatMsg \<lparr>hb_InFlight = 1\<rparr>]
   \<and> lb_queue (loopback_run ([OpOfferCheck ToEngine HeartbeatAckMsg, OpStop] @ demo_stop @ [OpOffer 0])
       (loopback_run demo_loopback (newLoopback 4))) ToEngine = [HeartbeatAckMsg]"
proof -
  let ?lb = "loopback_run demo_loopback (newLoopback 4)"
  have state: "lb_started ?lb" "\<not> lb_closed ?lb" "ToEngine \<notin> fst ` set (lb_offers ?lb)" by code_simp+
  have "stopReturns (loopback_run (OpStop # demo_stop) ?lb)" by code_simp
  then have "lb_handled (loopback_run (OpStop # demo_stop) ?lb) ToEngine = lb_accepted (loopback_run (OpStop # demo_stop) ?lb) ToEngine"
    using loopback_hands_over [OF refl, of demo_loopback 4] state by blast
  moreover have "lb_accepted (loopback_run (OpStop # demo_stop) ?lb) ToEngine = [HeartbeatMsg \<lparr>hb_InFlight = 1\<rparr>]" by code_simp
  moreover have "lb_queue (loopback_run ([OpOfferCheck ToEngine HeartbeatAckMsg, OpStop] @ demo_stop @ [OpOffer 0]) ?lb) ToEngine
      = [HeartbeatAckMsg]" by code_simp
  ultimately show ?thesis by simp
qed

end
