(* ===== verification/Message_Queue.thy ===== *)
theory Message_Queue
  imports Prelude "HOL-Library.Multiset"
begin

text \<open>
  The message queue of the Telegram bot (\<open>yatgbot/messagequeue/heap.go\<close>, \<open>messagequeue.go\<close>): the
  list of jobs it calls a heap, the goroutine that takes jobs from it, and the workers that run them.

  \<open>slices.SortFunc\<close> is a parameter \<open>sorter\<close>, as Go leaves open the order of jobs that compare equal: the
  locale \<open>job_sorter\<close> has what its documentation promises. Identifiers, instants and the outcome of a
  call to Telegram come with the operation that uses them. The preparation of a request (peer access
  hashes, message entities, random identifiers) calls the Telegram client and its storage and is left
  out, as is the second each worker sleeps after a job.
\<close>

section \<open>The heap\<close>

type_synonym resultCh = nat

record 'r messageJob =
  mj_ID :: u64
  mj_Priority :: u16
  mj_Request :: "'r option"
  mj_ResultCh :: "resultCh option"
  mj_Timestamp :: time
  mj_IsPlaceholder :: bool
  mj_TaskCount :: nat

datatype 'u jobResult = JobUpdates 'u | JobEmpty | JobFailed | JobCanceled

type_synonym 'r jobSort = "'r messageJob list \<Rightarrow> 'r messageJob list"

definition compareJobs :: "'r messageJob \<Rightarrow> 'r messageJob \<Rightarrow> int" where
  "compareJobs a b =
     (if mj_IsPlaceholder a \<and> mj_IsPlaceholder b then 0
      else if mj_IsPlaceholder a then 1
      else if mj_IsPlaceholder b then - 1
      else if mj_Priority a \<noteq> mj_Priority b then (if mj_Priority b < mj_Priority a then - 1 else 1)
      else if mj_Timestamp a < mj_Timestamp b then 1
      else if mj_Timestamp b < mj_Timestamp a then - 1
      else 0)"

definition heap_Push :: "'r jobSort \<Rightarrow> 'r messageJob list \<Rightarrow> 'r messageJob \<Rightarrow> 'r messageJob list" where
  "heap_Push sorter jobs job = sorter (jobs @ [job])"

definition heap_Pop :: "'r messageJob list \<Rightarrow> 'r messageJob option \<times> 'r messageJob list" where
  "heap_Pop jobs = (if jobs = [] then (None, jobs) else (Some (last jobs), butlast jobs))"

text \<open>Deletions answer the jobs they cancel, in order: \<open>cancel\<close> sends to those that have a channel.\<close>

fun heap_Delete :: "u64 \<Rightarrow> 'r messageJob list \<Rightarrow> 'r messageJob option \<times> 'r messageJob list" where
  "heap_Delete i [] = (None, [])"
| "heap_Delete i (job # jobs) =
     (if mj_ID job = i then (Some job, jobs)
      else let (canceled, jobs) = heap_Delete i jobs in (canceled, job # jobs))"

definition heap_DeleteFunc ::
  "('r messageJob \<Rightarrow> bool) \<Rightarrow> 'r messageJob list \<Rightarrow> u64 list \<times> 'r messageJob list \<times> 'r messageJob list" where
  "heap_DeleteFunc deleteFunc jobs = (map mj_ID (filter deleteFunc jobs), filter deleteFunc jobs, filter (\<lambda>j. \<not> deleteFunc j) jobs)"

definition placeholder :: "'r messageJob" where
  "placeholder = \<lparr>mj_ID = 0, mj_Priority = 0, mj_Request = None, mj_ResultCh = None, mj_Timestamp = 0,
     mj_IsPlaceholder = True, mj_TaskCount = 0\<rparr>"

section \<open>Sorting\<close>

definition in_order :: "'r messageJob list \<Rightarrow> bool" where
  "in_order jobs \<longleftrightarrow> sorted_wrt (\<lambda>a b. compareJobs a b \<le> 0) jobs"

locale job_sorter =
  fixes sorter :: "'r messageJob list \<Rightarrow> 'r messageJob list"
  assumes sorter_perm: "mset (sorter jobs) = mset jobs"
    and sorter_order: "in_order (sorter jobs)"
begin

lemma sorter_set: "set (sorter jobs) = set jobs"
  by (rule mset_eq_setD [OF sorter_perm])

lemma sorter_same:
  assumes "\<forall>j \<in> set jobs. j = a"
  shows "sorter jobs = jobs"
proof -
  have "\<forall>j \<in> set (sorter jobs). j = a" using assms sorter_set by blast
  moreover have "length (sorter jobs) = length jobs" by (metis size_mset sorter_perm)
  moreover have "\<forall>j \<in> set xs. j = a \<Longrightarrow> xs = replicate (length xs) a" for xs
    by (induction xs) auto
  ultimately show ?thesis using assms by metis
qed

text \<open>Pushing any jobs and popping them all: the jobs pushed, from the last in the order to the first.\<close>

lemma pushed_perm: "mset (fold (\<lambda>j h. heap_Push sorter h j) js h) = mset h + mset js"
  by (induction js arbitrary: h) (simp_all add: heap_Push_def sorter_perm)

lemma pushed_order: "in_order h \<Longrightarrow> in_order (fold (\<lambda>j h. heap_Push sorter h j) js h)"
  by (induction js arbitrary: h) (simp_all add: heap_Push_def sorter_order)

end

text \<open>A stable insertion, for the interpretation: one of the sorts Go may run.\<close>

fun insertJob :: "'r messageJob \<Rightarrow> 'r messageJob list \<Rightarrow> 'r messageJob list" where
  "insertJob j [] = [j]"
| "insertJob j (k # ks) = (if compareJobs j k \<le> 0 then j # k # ks else k # insertJob j ks)"

definition insertionSort :: "'r messageJob list \<Rightarrow> 'r messageJob list" where
  "insertionSort jobs = foldr insertJob jobs []"

lemma compareJobs_trans: "compareJobs a b \<le> 0 \<Longrightarrow> compareJobs b c \<le> 0 \<Longrightarrow> compareJobs a c \<le> 0"
  by (auto simp: compareJobs_def split: if_splits)

lemma compareJobs_total: "compareJobs a b \<le> 0 \<or> compareJobs b a \<le> 0"
  by (auto simp: compareJobs_def)

lemma insertJob_mset: "mset (insertJob j ks) = add_mset j (mset ks)"
  by (induction ks) auto

lemma insertJob_order: "in_order ks \<Longrightarrow> in_order (insertJob j ks)"
proof (induction ks)
  case (Cons k ks)
  have set: "set (insertJob j ks) = insert j (set ks)"
    using mset_eq_setD [of "insertJob j ks" "j # ks"] insertJob_mset [of j ks] by simp
  show ?case
    using Cons set compareJobs_total [of j k] compareJobs_trans [of j k]
    by (auto simp: in_order_def)
qed (simp add: in_order_def)

lemma insertionSort_mset: "mset (insertionSort jobs) = mset jobs"
  by (induction jobs) (simp_all add: insertionSort_def insertJob_mset)

lemma insertionSort_order: "in_order (insertionSort jobs)"
  by (induction jobs) (simp_all add: insertionSort_def insertJob_order, simp add: in_order_def)

interpretation js: job_sorter insertionSort
  by unfold_locales (rule insertionSort_mset, rule insertionSort_order)

text \<open>The jobs that come out of a heap, one pop after another.\<close>

fun popAll :: "nat \<Rightarrow> 'r messageJob list \<Rightarrow> 'r messageJob list" where
  "popAll 0 jobs = []"
| "popAll (Suc n) jobs =
     (case heap_Pop jobs of (None, jobs) \<Rightarrow> [] | (Some job, jobs) \<Rightarrow> job # popAll n jobs)"

lemma popAll_rev: "popAll (length jobs) jobs = rev jobs"
  by (induction jobs rule: rev_induct) (simp_all add: heap_Pop_def)

text \<open>What must not come after a job: a placeholder after a real one, a smaller priority number, an older job.\<close>

definition comes_before :: "'r messageJob \<Rightarrow> 'r messageJob \<Rightarrow> bool" where
  "comes_before a b \<longleftrightarrow>
     (mj_IsPlaceholder b \<longrightarrow> mj_IsPlaceholder a)
     \<and> (\<not> mj_IsPlaceholder a \<longrightarrow> \<not> mj_IsPlaceholder b \<longrightarrow>
          mj_Priority a < mj_Priority b \<or> mj_Priority a = mj_Priority b \<and> mj_Timestamp a \<le> mj_Timestamp b)"

lemma compareJobs_before: "compareJobs a b \<le> 0 \<longleftrightarrow> comes_before b a"
  by (auto simp: compareJobs_def comes_before_def)

text \<open>
  Jobs leave the queue in order and none is lost. Whatever jobs are pushed, in whatever order, and
  whichever way the sort arranges those that compare equal: popping them all gives each job once, the
  placeholders first, then the jobs by ascending priority number, and among equal numbers the
  oldest first. Deleting one by its identifier takes out the first that has it and keeps the rest in
  order; a deletion by condition answers the identifiers of exactly the jobs that meet it.
\<close>

theorem queue_pops_in_order:
  assumes sort: "job_sorter sorter" and jobs: "jobs = fold (\<lambda>j h. heap_Push sorter h j) pushed []"
  shows "mset (popAll (length pushed) jobs) = mset pushed
    \<and> sorted_wrt comes_before (popAll (length pushed) jobs)
    \<and> (case heap_Delete i jobs of
         (None, rest) \<Rightarrow> rest = jobs \<and> i \<notin> mj_ID ` set pushed
       | (Some job, rest) \<Rightarrow> mj_ID job = i \<and> mset jobs = add_mset job (mset rest) \<and> in_order rest)
    \<and> (case heap_DeleteFunc cond jobs of
         (ids, canceled, rest) \<Rightarrow> ids = map mj_ID canceled \<and> mset canceled = filter_mset cond (mset pushed)
           \<and> mset jobs = mset canceled + mset rest \<and> in_order rest)"
proof -
  have perm: "mset jobs = mset pushed" using job_sorter.pushed_perm [OF sort, of pushed "[]"] by (simp add: jobs)
  have order: "in_order jobs" using job_sorter.pushed_order [OF sort, of "[]" pushed] by (simp add: jobs in_order_def)
  have len: "length jobs = length pushed" using perm by (metis size_mset)
  have all: "popAll (length pushed) jobs = rev jobs" using popAll_rev [of jobs] by (simp add: len)
  have set: "set jobs = set pushed" by (rule mset_eq_setD [OF perm])
  have del: "case heap_Delete i ks of
         (None, rest) \<Rightarrow> rest = ks \<and> i \<notin> mj_ID ` set ks
       | (Some job, rest) \<Rightarrow> mj_ID job = i \<and> mset ks = add_mset job (mset rest) \<and> set rest \<subseteq> set ks \<and> in_order rest"
    if "in_order ks" for ks
    using that by (induction ks) (auto simp: in_order_def split: option.splits prod.splits)
  have "sorted_wrt comes_before (rev jobs)"
    using order by (simp add: in_order_def sorted_wrt_rev compareJobs_before)
  moreover have "in_order (filter P jobs)" for P
    using order by (simp add: in_order_def sorted_wrt_filter)
  ultimately show ?thesis
    using del [OF order] perm set all
    by (auto simp: heap_DeleteFunc_def mset_filter multiset_partition [symmetric] split: option.splits prod.splits)
qed

text \<open>A placeholder, two jobs of one priority and one of another, as the repository's test has them.\<close>

definition demo_jobs :: "unit messageJob list" where
  "demo_jobs =
     (let job = \<lparr>mj_ID = 3, mj_Priority = 1, mj_Request = None, mj_ResultCh = None, mj_Timestamp = 0,
           mj_IsPlaceholder = False, mj_TaskCount = 1\<rparr>
      in [job, job\<lparr>mj_ID := 2, mj_Timestamp := 120\<rparr>, job\<lparr>mj_ID := 1, mj_Priority := 2, mj_Timestamp := 120\<rparr>,
          placeholder\<lparr>mj_ID := 4\<rparr>])"

theorem queue_pops_in_order_witness:
  "map mj_ID (popAll 4 (fold (\<lambda>j h. heap_Push insertionSort h j) demo_jobs [])) = [4, 3, 2, 1]
   \<and> sorted_wrt comes_before (popAll 4 (fold (\<lambda>j h. heap_Push insertionSort h j) demo_jobs []))"
proof -
  have sort: "job_sorter (insertionSort :: unit jobSort)"
    by unfold_locales (rule insertionSort_mset, rule insertionSort_order)
  have "length demo_jobs = 4" by (simp add: demo_jobs_def Let_def)
  moreover have "map mj_ID (popAll 4 (fold (\<lambda>j h. heap_Push insertionSort h j) demo_jobs [])) = [4, 3, 2, 1]"
    by code_simp
  ultimately show ?thesis
    using queue_pops_in_order [OF sort refl, of demo_jobs 0 "\<lambda>_. True"] by simp
qed

end
