(* ===== verification/Message_Dispatcher.thy ===== *)
theory Message_Dispatcher
  imports Message_Queue
begin

text \<open>
  The dispatcher of the bot's message queue (\<open>yatgbot/messagequeue/messagequeue.go\<close>): the goroutine
  that moves jobs from the heap to the workers, and the workers that run them and report.

  The queue's channel is unbuffered, so a job passes from the one goroutine to a worker in one step.
  A worker reports on the job's own channel, which has room for one result; a nil channel is never
  ready. \<open>dp_executed\<close> records the requests sent to Telegram.
\<close>

datatype 'r pumpPhase = PumpReady | PumpWaiting | PumpHolding "'r messageJob"

datatype ('r, 'u) workerPhase =
    WorkerIdle
  | WorkerHas "'r messageJob"
  | WorkerReporting "'r messageJob" "'u jobResult"
  | WorkerReturned

record ('r, 'u) dispatcher =
  dp_heap :: "'r messageJob list"
  dp_pump :: "'r pumpPhase"
  dp_workers :: "('r, 'u) workerPhase list"
  dp_results :: "resultCh \<Rightarrow> 'u jobResult option"
  dp_nextCh :: resultCh
  dp_ctxDone :: bool
  dp_executed :: "'r option list"

definition NewDispatcher :: "nat \<Rightarrow> ('r, 'u) dispatcher" where
  "NewDispatcher workerCount = \<lparr>dp_heap = [], dp_pump = PumpReady, dp_workers = replicate workerCount WorkerIdle,
     dp_results = \<lambda>_. None, dp_nextCh = 0, dp_ctxDone = False, dp_executed = []\<rparr>"

text \<open>\<open>cond.Signal\<close> wakes the waiting goroutine, which then takes a job, if there is one, under the lock.\<close>

definition pumpTake :: "('r, 'u) dispatcher \<Rightarrow> ('r, 'u) dispatcher" where
  "pumpTake d =
     (case heap_Pop (dp_heap d) of
        (None, jobs) \<Rightarrow> d\<lparr>dp_heap := jobs, dp_pump := PumpReady\<rparr>
      | (Some job, jobs) \<Rightarrow> d\<lparr>dp_heap := jobs, dp_pump := PumpHolding job\<rparr>)"

definition pumpStep :: "('r, 'u) dispatcher \<Rightarrow> ('r, 'u) dispatcher" where
  "pumpStep d =
     (case dp_pump d of
        PumpReady \<Rightarrow> if dp_heap d = [] then d\<lparr>dp_pump := PumpWaiting\<rparr> else pumpTake d
      | _ \<Rightarrow> d)"

definition signal :: "('r, 'u) dispatcher \<Rightarrow> ('r, 'u) dispatcher" where
  "signal d = (case dp_pump d of PumpWaiting \<Rightarrow> pumpTake d | _ \<Rightarrow> d)"

definition AddRawJob ::
  "'r jobSort \<Rightarrow> ('r, 'u) dispatcher \<Rightarrow> u64 \<Rightarrow> time \<Rightarrow> 'r option \<Rightarrow> u16 \<Rightarrow> nat \<Rightarrow> (u64 \<times> resultCh) \<times> ('r, 'u) dispatcher" where
  "AddRawJob sorter d fresh now request priority taskCount =
     (let ch = dp_nextCh d;
          job = \<lparr>mj_ID = fresh, mj_Priority = priority, mj_Request = request, mj_ResultCh = Some ch,
            mj_Timestamp = now, mj_IsPlaceholder = False, mj_TaskCount = taskCount\<rparr>
      in ((fresh, ch), signal (d\<lparr>dp_heap := heap_Push sorter (dp_heap d) job, dp_nextCh := ch + 1,
            dp_results := (dp_results d)(ch := None)\<rparr>)))"

text \<open>\<open>AddEmptyJob\<close> pushes without the lock and without a signal.\<close>

definition AddEmptyJob :: "'r jobSort \<Rightarrow> ('r, 'u) dispatcher \<Rightarrow> nat \<Rightarrow> ('r, 'u) dispatcher" where
  "AddEmptyJob sorter d n = d\<lparr>dp_heap := fold (\<lambda>j h. heap_Push sorter h j) (replicate n placeholder) (dp_heap d)\<rparr>"

definition Execute ::
  "'r jobSort \<Rightarrow> 'u option \<Rightarrow> 'r messageJob \<Rightarrow> ('r, 'u) dispatcher \<Rightarrow> 'u jobResult \<times> ('r, 'u) dispatcher" where
  "Execute sorter invoked job d =
     (if mj_IsPlaceholder job then (JobEmpty, d)
      else
        let d = (if mj_TaskCount job > 1 then AddEmptyJob sorter d (mj_TaskCount job - 1) else d)
        in (case invoked of None \<Rightarrow> JobFailed | Some u \<Rightarrow> JobUpdates u,
            d\<lparr>dp_executed := dp_executed d @ [mj_Request job]\<rparr>))"

text \<open>\<open>cancel\<close> sends to the job's channel, which nothing else has used while the job is in the heap.\<close>

definition cancelJobs :: "'r messageJob list \<Rightarrow> (resultCh \<Rightarrow> 'u jobResult option) \<Rightarrow> resultCh \<Rightarrow> 'u jobResult option" where
  "cancelJobs jobs results =
     fold (\<lambda>job results. case mj_ResultCh job of None \<Rightarrow> results | Some ch \<Rightarrow> results(ch := Some JobCanceled)) jobs results"

definition DeleteQueuedJob :: "('r, 'u) dispatcher \<Rightarrow> u64 \<Rightarrow> bool \<times> ('r, 'u) dispatcher" where
  "DeleteQueuedJob d i =
     (case heap_Delete i (dp_heap d) of
        (None, jobs) \<Rightarrow> (False, d\<lparr>dp_heap := jobs\<rparr>)
      | (Some job, jobs) \<Rightarrow> (True, d\<lparr>dp_heap := jobs, dp_results := cancelJobs [job] (dp_results d)\<rparr>))"

definition DeleteJobFunc :: "('r, 'u) dispatcher \<Rightarrow> ('r messageJob \<Rightarrow> bool) \<Rightarrow> u64 list \<times> ('r, 'u) dispatcher" where
  "DeleteJobFunc d deleteFunc =
     (let (ids, canceled, jobs) = heap_DeleteFunc deleteFunc (dp_heap d)
      in (ids, d\<lparr>dp_heap := jobs, dp_results := cancelJobs canceled (dp_results d)\<rparr>))"

text \<open>A worker with a job runs it; one that has a result sends it, or returns when the context has ended.\<close>

definition workerStep :: "'r jobSort \<Rightarrow> 'u option \<Rightarrow> bool \<Rightarrow> nat \<Rightarrow> ('r, 'u) dispatcher \<Rightarrow> ('r, 'u) dispatcher" where
  "workerStep sorter invoked picksContext k d =
     (case dp_workers d ! k of
        WorkerIdle \<Rightarrow> if dp_ctxDone d then d\<lparr>dp_workers := (dp_workers d)[k := WorkerReturned]\<rparr> else d
      | WorkerHas job \<Rightarrow>
          let (res, d) = Execute sorter invoked job d
          in d\<lparr>dp_workers := (dp_workers d)[k := WorkerReporting job res]\<rparr>
      | WorkerReporting job res \<Rightarrow>
          (let ready = (case mj_ResultCh job of None \<Rightarrow> False | Some ch \<Rightarrow> dp_results d ch = None)
           in if dp_ctxDone d \<and> (picksContext \<or> \<not> ready)
              then d\<lparr>dp_workers := (dp_workers d)[k := WorkerReturned]\<rparr>
              else if \<not> ready then d
              else d\<lparr>dp_workers := (dp_workers d)[k := WorkerIdle],
                     dp_results := (dp_results d)(the (mj_ResultCh job) := Some res)\<rparr>)
      | WorkerReturned \<Rightarrow> d)"

definition handOver :: "nat \<Rightarrow> ('r, 'u) dispatcher \<Rightarrow> ('r, 'u) dispatcher" where
  "handOver k d =
     (case (dp_pump d, dp_workers d ! k) of
        (PumpHolding job, WorkerIdle) \<Rightarrow> d\<lparr>dp_pump := PumpReady, dp_workers := (dp_workers d)[k := WorkerHas job]\<rparr>
      | _ \<Rightarrow> d)"

datatype ('r, 'u) queueOp =
    OpAddRaw u64 time "'r option" u16 nat
  | OpDeleteJob u64
  | OpDeleteJobFunc "'r messageJob \<Rightarrow> bool"
  | OpPump
  | OpHandOver nat
  | OpWorker "'u option" bool nat
  | OpTake resultCh
  | OpCtxDone

fun queue_step :: "'r jobSort \<Rightarrow> ('r, 'u) queueOp \<Rightarrow> ('r, 'u) dispatcher \<Rightarrow> ('r, 'u) dispatcher" where
  "queue_step sorter (OpAddRaw i now request priority n) d = snd (AddRawJob sorter d i now request priority n)"
| "queue_step sorter (OpDeleteJob i) d = snd (DeleteQueuedJob d i)"
| "queue_step sorter (OpDeleteJobFunc f) d = snd (DeleteJobFunc d f)"
| "queue_step sorter OpPump d = pumpStep d"
| "queue_step sorter (OpHandOver k) d = (if k < length (dp_workers d) then handOver k d else d)"
| "queue_step sorter (OpWorker invoked picks k) d =
     (if k < length (dp_workers d) then workerStep sorter invoked picks k d else d)"
| "queue_step sorter (OpTake ch) d = d\<lparr>dp_results := (dp_results d)(ch := None)\<rparr>"
| "queue_step sorter OpCtxDone d = d\<lparr>dp_ctxDone := True\<rparr>"

definition queue_run :: "'r jobSort \<Rightarrow> ('r, 'u) queueOp list \<Rightarrow> ('r, 'u) dispatcher \<Rightarrow> ('r, 'u) dispatcher" where
  "queue_run sorter ops d = fold (queue_step sorter) ops d"

section \<open>A worker that has run a placeholder\<close>

definition stuck :: "('r, 'u) dispatcher \<Rightarrow> nat \<Rightarrow> bool" where
  "stuck d k \<longleftrightarrow> \<not> dp_ctxDone d \<and> k < length (dp_workers d)
     \<and> (\<exists>job res. dp_workers d ! k = WorkerReporting job res \<and> mj_ResultCh job = None)"

lemma pumpTake_fields [simp]:
  "dp_workers (pumpTake d) = dp_workers d" "dp_ctxDone (pumpTake d) = dp_ctxDone d" "dp_executed (pumpTake d) = dp_executed d"
  by (auto simp: pumpTake_def split: prod.split option.split)

lemma pump_fields [simp]:
  "dp_workers (pumpStep d) = dp_workers d" "dp_ctxDone (pumpStep d) = dp_ctxDone d" "dp_executed (pumpStep d) = dp_executed d"
  "dp_workers (signal d) = dp_workers d" "dp_ctxDone (signal d) = dp_ctxDone d" "dp_executed (signal d) = dp_executed d"
  by (auto simp: pumpStep_def signal_def split: pumpPhase.split)

lemma api_fields [simp]:
  "dp_workers (snd (AddRawJob sorter d i now request p n)) = dp_workers d"
  "dp_ctxDone (snd (AddRawJob sorter d i now request p n)) = dp_ctxDone d"
  "dp_executed (snd (AddRawJob sorter d i now request p n)) = dp_executed d"
  "dp_workers (snd (DeleteQueuedJob d i)) = dp_workers d" "dp_ctxDone (snd (DeleteQueuedJob d i)) = dp_ctxDone d"
  "dp_executed (snd (DeleteQueuedJob d i)) = dp_executed d"
  "dp_workers (snd (DeleteJobFunc d f)) = dp_workers d" "dp_ctxDone (snd (DeleteJobFunc d f)) = dp_ctxDone d"
  "dp_executed (snd (DeleteJobFunc d f)) = dp_executed d"
  by (auto simp: AddRawJob_def DeleteQueuedJob_def DeleteJobFunc_def Let_def split_def split: option.split)

lemma Execute_fields [simp]:
  "dp_workers (snd (Execute sorter u job d)) = dp_workers d" "dp_ctxDone (snd (Execute sorter u job d)) = dp_ctxDone d"
  by (auto simp: Execute_def AddEmptyJob_def Let_def)

lemma stuck_step:
  assumes "stuck d k" and "op \<noteq> OpCtxDone"
  shows "stuck (queue_step sorter op d) k"
proof (cases op)
  case (OpHandOver j)
  with assms(1) show ?thesis
    by (cases "j = k") (auto simp: stuck_def handOver_def split: pumpPhase.split workerPhase.split)
next
  case (OpWorker u b j)
  with assms(1) show ?thesis
    by (cases "j = k") (auto simp: stuck_def workerStep_def Let_def split_def split: workerPhase.split option.split)
qed (use assms in \<open>auto simp: stuck_def\<close>)

lemma all_stuck_step:
  assumes "\<forall>k < length (dp_workers d). stuck d k" and "op \<noteq> OpCtxDone"
  shows "dp_executed (queue_step sorter op d) = dp_executed d \<and> length (dp_workers (queue_step sorter op d)) = length (dp_workers d)"
proof (cases op)
  case (OpHandOver j)
  then show ?thesis by (auto simp: handOver_def split: pumpPhase.split workerPhase.split)
next
  case (OpWorker u b j)
  show ?thesis
  proof (cases "j < length (dp_workers d)")
    case True
    then have "stuck d j" using assms(1) by blast
    with OpWorker show ?thesis by (auto simp: stuck_def workerStep_def)
  qed (use OpWorker in simp)
qed (use assms in auto)

lemma all_stuck_run:
  assumes "\<forall>k < length (dp_workers d). stuck d k" and "OpCtxDone \<notin> set ops"
  shows "(\<forall>k < length (dp_workers d). stuck (queue_run sorter ops d) k)
    \<and> dp_executed (queue_run sorter ops d) = dp_executed d"
  using assms
proof (induction ops arbitrary: d)
  case (Cons op ops)
  let ?d = "queue_step sorter op d"
  have op: "op \<noteq> OpCtxDone" using Cons.prems(2) by auto
  note step = all_stuck_step [OF Cons.prems(1) op, of sorter]
  have "\<forall>k < length (dp_workers ?d). stuck ?d k"
    using Cons.prems(1) stuck_step [OF _ op, of d _ sorter] step by auto
  from Cons.IH [OF this] Cons.prems(2) step show ?case by (simp add: queue_run_def)
qed (simp add: queue_run_def)

lemma queue_run_length: "length (dp_workers (queue_run sorter ops d)) = length (dp_workers d)"
proof (induction ops arbitrary: d)
  case (Cons op ops)
  have "length (dp_workers (queue_step sorter op d)) = length (dp_workers d)"
    by (cases op) (auto simp: handOver_def workerStep_def Let_def split_def split: pumpPhase.split workerPhase.split option.split)
  with Cons show ?case by (simp add: queue_run_def)
qed (simp add: queue_run_def)

text \<open>One round: the pump takes a placeholder, a worker gets it, runs it and cannot report it.\<close>

definition stallRound :: "nat \<Rightarrow> ('r, 'u) queueOp list" where
  "stallRound k = [OpPump, OpHandOver k, OpWorker None False k]"

lemma stall_round:
  assumes "dp_heap d = replicate (Suc n) placeholder" "dp_pump d = PumpReady" "\<not> dp_ctxDone d"
    and "k < length (dp_workers d)" "dp_workers d ! k = WorkerIdle"
  shows "queue_run sorter (stallRound k) d
    = d\<lparr>dp_heap := replicate n placeholder, dp_workers := (dp_workers d)[k := WorkerReporting placeholder JobEmpty]\<rparr>"
proof -
  let ?p = "placeholder :: 'a messageJob"
  have pop: "heap_Pop (dp_heap d) = (Some placeholder, replicate n placeholder)"
    unfolding assms(1) replicate_Suc replicate_append_same [symmetric] by (simp add: heap_Pop_def)
  have p: "mj_IsPlaceholder ?p" "mj_ResultCh ?p = None" by (simp_all add: placeholder_def)
  have "pumpStep d = d\<lparr>dp_heap := replicate n placeholder, dp_pump := PumpHolding placeholder\<rparr>"
    using assms(1,2) pop by (simp add: pumpStep_def pumpTake_def)
  then show ?thesis
    using assms p by (simp add: queue_run_def stallRound_def handOver_def workerStep_def Execute_def)
qed

lemma stall_rounds:
  assumes "dp_heap d = replicate (length (dp_workers d) - k) placeholder" "dp_pump d = PumpReady" "\<not> dp_ctxDone d"
    and "k \<le> length (dp_workers d)" "\<forall>j < length (dp_workers d). k \<le> j \<longrightarrow> dp_workers d ! j = WorkerIdle"
    and "\<forall>j < k. stuck d j"
  shows "\<forall>j < length (dp_workers d). stuck (queue_run sorter (concat (map stallRound [k ..< length (dp_workers d)])) d) j"
  using assms
proof (induction "length (dp_workers d) - k" arbitrary: d k)
  case 0
  then have "k = length (dp_workers d)" by simp
  with 0 show ?case by (simp add: queue_run_def)
next
  case (Suc n)
  have k: "k < length (dp_workers d)" using Suc.hyps(2) by simp
  let ?d = "d\<lparr>dp_heap := replicate n placeholder, dp_workers := (dp_workers d)[k := WorkerReporting placeholder JobEmpty]\<rparr>"
  have round: "queue_run sorter (stallRound k) d = ?d"
    using Suc.prems Suc.hyps(2) k by (intro stall_round) simp_all
  have "\<forall>j < Suc k. stuck ?d j"
    using Suc.prems(3,6) k by (auto simp: stuck_def less_Suc_eq nth_list_update placeholder_def)
  moreover have "n = length (dp_workers ?d) - Suc k" using Suc.hyps(2) by simp
  ultimately have "\<forall>j < length (dp_workers ?d). stuck (queue_run sorter (concat (map stallRound [Suc k ..< length (dp_workers ?d)])) ?d) j"
    using Suc.prems k by (intro Suc.hyps(1)) (auto simp: nth_list_update)
  moreover have "queue_run sorter (concat (map stallRound [k ..< length (dp_workers d)])) d
      = queue_run sorter (concat (map stallRound [Suc k ..< length (dp_workers d)])) (queue_run sorter (stallRound k) d)"
    using k by (simp add: upt_conv_Cons queue_run_def)
  ultimately show ?case by (simp add: round)
qed

definition stallOps :: "nat \<Rightarrow> ('r, 'u) queueOp list" where
  "stallOps workerCount = [OpAddRaw 1 0 None 1 (workerCount + 1), OpPump, OpHandOver 0, OpWorker None False 0,
     OpWorker None False 0] @ concat (map stallRound [0 ..< workerCount])"

context job_sorter
begin

lemma pushed_placeholders:
  "fold (\<lambda>j h. heap_Push sorter h j) (replicate n placeholder) (replicate m placeholder) = replicate (n + m) placeholder"
proof (induction n arbitrary: m)
  case (Suc n)
  have "heap_Push sorter (replicate m placeholder) placeholder = replicate (Suc m) placeholder"
    using sorter_same [of "replicate m placeholder @ [placeholder]" placeholder]
    by (simp add: heap_Push_def replicate_append_same)
  with Suc [of "Suc m"] show ?case by simp
qed simp

lemma pushed_one: "heap_Push sorter [] j = [j]"
  using sorter_same [of "[j]" j] by (simp add: heap_Push_def)

end

text \<open>
  C31. A request of several messages stops the queue. Running it adds placeholders, one for each message
  past the first; a worker that runs a placeholder has no channel to report on and waits for as long as the context
  lasts. With any number of workers, one request of one message more than there are workers is enough:
  there is a run after which every worker waits so, and from then on, whatever is added, deleted or scheduled
  while the context lasts, no request is ever sent again.
\<close>

theorem placeholders_stall_workers:
  assumes sort: "job_sorter sorter" and workers: "0 < workerCount"
    and d: "d = queue_run sorter (stallOps workerCount) (NewDispatcher workerCount)"
    and alive: "OpCtxDone \<notin> set ops"
  shows "(\<forall>k < workerCount. stuck d k)
    \<and> dp_executed (queue_run sorter ops d) = dp_executed d \<and> (\<forall>k < workerCount. stuck (queue_run sorter ops d) k)"
proof -
  define e :: "('a, 'b) dispatcher" where "e = queue_run sorter
    [OpAddRaw 1 0 None 1 (workerCount + 1), OpPump, OpHandOver 0, OpWorker None False 0, OpWorker None False 0]
    (NewDispatcher workerCount)"
  note one = job_sorter.pushed_one [OF sort] and many = job_sorter.pushed_placeholders [OF sort, of workerCount 0]
  have e: "dp_heap e = replicate workerCount placeholder" "dp_pump e = PumpReady" "\<not> dp_ctxDone e"
    "dp_workers e = replicate workerCount WorkerIdle"
    using workers many
    by (simp_all add: e_def queue_run_def NewDispatcher_def AddRawJob_def signal_def one pumpStep_def pumpTake_def heap_Pop_def
        handOver_def workerStep_def Execute_def AddEmptyJob_def Let_def list_update_same_conv)
  have d: "d = queue_run sorter (concat (map stallRound [0 ..< workerCount])) e"
    by (simp add: d e_def stallOps_def queue_run_def)
  have len: "length (dp_workers e) = workerCount" using e(4) by simp
  have stuck: "\<forall>k < workerCount. stuck d k"
    using stall_rounds [of e 0 sorter] e unfolding d len by simp
  moreover have "length (dp_workers d) = workerCount"
    using queue_run_length [of sorter _ e] unfolding d len .
  ultimately show ?thesis using all_stuck_run [of d ops sorter] alive by simp
qed

text \<open>Two workers, a request of three messages, and a later request that nobody sends.\<close>

theorem placeholders_stall_workers_witness:
  "stuck (queue_run insertionSort (stallOps 2) (NewDispatcher 2 :: (unit, unit) dispatcher)) 1
   \<and> dp_executed (queue_run insertionSort [OpAddRaw 5 9 (Some ()) 1 1, OpPump, OpHandOver 0, OpHandOver 1, OpWorker None False 1]
       (queue_run insertionSort (stallOps 2) (NewDispatcher 2 :: (unit, unit) dispatcher))) = [None]"
proof -
  let ?d = "queue_run insertionSort (stallOps 2) (NewDispatcher 2 :: (unit, unit) dispatcher)"
  have sort: "job_sorter (insertionSort :: unit jobSort)"
    by unfold_locales (rule insertionSort_mset, rule insertionSort_order)
  have "dp_executed ?d = [None]" by code_simp
  then show ?thesis
    using placeholders_stall_workers [OF sort, of 2 ?d "[OpAddRaw 5 9 (Some ()) 1 1, OpPump, OpHandOver 0, OpHandOver 1, OpWorker None False 1]"]
    by simp
qed

end
