(* ===== verification/Memory_Cache.thy ===== *)
theory Memory_Cache
  imports Strconv
begin

text \<open>
  The in-memory cache (\<open>yacache/memory.go\<close>): hashes of fields and plain keys, with an instant after
  which the sweeper may remove an item. The number of fields of a hash is kept, as a decimal
  numeral, in a reserved field of the hash itself.

  The operations run under the mutex of the cache, one after the other. A nil map and an empty map
  are one value, since every operation makes the maps it finds nil before it does anything else
  (\<open>yacache/utils.go\<close>). The clock is a sequence of readings, and \<open>mm_tick\<close> counts those consumed.
  A dereference of a missing item is the result \<open>None\<close>; the texts of the errors are not modelled.
\<close>

section \<open>Items and containers\<close>

datatype cacheErr =
    ErrFailedToSet | ErrFailedToHSetEx | ErrFailedToGetValue | ErrFailedToMGetValues | ErrFailedToDelValue
  | ErrFailedToGetValues | ErrFailedToGetDelValue | ErrFailedToGetDeleteSingle | ErrNotFoundValue
  | ErrFailedToGetLen | ErrFailedToExists | ErrFailedToHExist | ErrFailedToDeleteSingle | ErrFailedPing
  | ErrFailedToCloseBackend

record cacheItem =
  ci_Value :: string
  ci_ExpiresAt :: time
  ci_Endless :: bool

type_synonym childContainer = "(string, cacheItem) alist"

record container =
  mc_HMap :: "(string, childContainer) alist"
  mc_Map :: "(string, cacheItem) alist"

record memory =
  mm_inner :: container
  mm_clock :: "nat \<Rightarrow> time"
  mm_tick :: nat

definition yaMapLen :: string where
  "yaMapLen = ''[_____YaMapLen_____YA_/'' @ [char_of (92::nat)] @ ''_CODE_/'' @ [char_of (92::nat)] @ ''_DEV]''"

definition newMemoryCacheItem :: "string \<Rightarrow> cacheItem" where
  "newMemoryCacheItem v = \<lparr>ci_Value = v, ci_ExpiresAt = zeroTime, ci_Endless = True\<rparr>"

definition newMemoryCacheItemEX :: "string \<Rightarrow> time \<Rightarrow> cacheItem" where
  "newMemoryCacheItemEX v expiresAt = \<lparr>ci_Value = v, ci_ExpiresAt = expiresAt, ci_Endless = False\<rparr>"

definition isExpired :: "cacheItem \<Rightarrow> time \<Rightarrow> bool" where
  "isExpired it now \<longleftrightarrow> ci_ExpiresAt it < now \<and> \<not> ci_Endless it"

definition NewMemoryContainer :: container where
  "NewMemoryContainer = \<lparr>mc_HMap = [], mc_Map = []\<rparr>"

definition NewMemory :: "container \<Rightarrow> (nat \<Rightarrow> time) \<Rightarrow> memory" where
  "NewMemory data clk = \<lparr>mm_inner = data, mm_clock = clk, mm_tick = 0\<rparr>"

definition cacheNow :: "memory \<Rightarrow> time \<times> memory" where
  "cacheNow m = (mm_clock m (mm_tick m), m\<lparr>mm_tick := Suc (mm_tick m)\<rparr>)"

definition withInner :: "memory \<Rightarrow> container \<Rightarrow> memory" where
  "withInner m c = m\<lparr>mm_inner := c\<rparr>"

section \<open>The counter of a hash\<close>

definition getChildMap :: "container \<Rightarrow> string \<Rightarrow> cacheErr \<Rightarrow> cacheErr + childContainer" where
  "getChildMap c mainKey wrapErr =
     (case map_of (mc_HMap c) mainKey of None \<Rightarrow> Inl wrapErr | Some child \<Rightarrow> Inr child)"

definition childGet :: "childContainer \<Rightarrow> string \<Rightarrow> cacheErr \<Rightarrow> cacheErr + string" where
  "childGet child key wrapErr =
     (case map_of child key of None \<Rightarrow> Inl wrapErr | Some it \<Rightarrow> Inr (ci_Value it))"

definition childExist :: "childContainer \<Rightarrow> string \<Rightarrow> bool" where
  "childExist child key \<longleftrightarrow> map_of child key \<noteq> None"

definition putChild :: "container \<Rightarrow> string \<Rightarrow> childContainer \<Rightarrow> container" where
  "putChild c mainKey child = c\<lparr>mc_HMap := AList.update mainKey child (mc_HMap c)\<rparr>"

text \<open>Reading the counter of a hash that has none stores one.\<close>

definition getLen :: "container \<Rightarrow> string \<Rightarrow> int \<times> container" where
  "getLen c mainKey =
     (case getChildMap c mainKey ErrFailedToGetLen of
        Inl _ \<Rightarrow> (0, c)
      | Inr child \<Rightarrow>
          (case map_of child yaMapLen of
             None \<Rightarrow> (0, putChild c mainKey (AList.update yaMapLen (newMemoryCacheItem ''0'') child))
           | Some it \<Rightarrow> (case Atoi (ci_Value it) of Inl _ \<Rightarrow> (0, c) | Inr count \<Rightarrow> (count, c))))"

text \<open>The assignment \<open>m.HMap[mainKey][yaMapLen].Value = strconv.Itoa(value)\<close>.\<close>

definition storeLen :: "container \<Rightarrow> string \<Rightarrow> int \<Rightarrow> container option" where
  "storeLen c mainKey n =
     (case map_of (mc_HMap c) mainKey of
        None \<Rightarrow> None
      | Some child \<Rightarrow>
          (case map_of child yaMapLen of
             None \<Rightarrow> None
           | Some it \<Rightarrow> Some (putChild c mainKey (AList.update yaMapLen (it\<lparr>ci_Value := formatInt n\<rparr>) child))))"

definition incrementLen :: "container \<Rightarrow> string \<Rightarrow> (int \<times> container) option" where
  "incrementLen c mainKey =
     (let (n, c) = getLen c mainKey; n = int64 (n + 1)
      in map_option (\<lambda>c. (n, c)) (storeLen c mainKey n))"

definition decrementLen :: "container \<Rightarrow> string \<Rightarrow> (int \<times> container) option" where
  "decrementLen c mainKey =
     (let (n, c) = getLen c mainKey; n = int64 (n - 1)
      in map_option (\<lambda>c. (n, c)) (storeLen c mainKey n))"

section \<open>Hashes\<close>

definition HSetEX :: "memory \<Rightarrow> string \<Rightarrow> string \<Rightarrow> string \<Rightarrow> duration \<Rightarrow> ((cacheErr + unit) \<times> memory) option" where
  "HSetEX m mainKey childKey val ttl =
     (let child = (case getChildMap (mm_inner m) mainKey ErrFailedToHSetEx of Inl _ \<Rightarrow> [] | Inr ch \<Rightarrow> ch);
          (now, m) = cacheNow m;
          c = putChild (mm_inner m) mainKey
                (AList.update childKey (newMemoryCacheItemEX val (timeAdd now ttl)) child)
      in map_option (\<lambda>(_, c). (Inr (), withInner m c)) (incrementLen c mainKey))"

definition HGet :: "memory \<Rightarrow> string \<Rightarrow> string \<Rightarrow> cacheErr + string" where
  "HGet m mainKey childKey =
     (case getChildMap (mm_inner m) mainKey ErrFailedToGetValue of
        Inl er \<Rightarrow> Inl er
      | Inr child \<Rightarrow> childGet child childKey ErrNotFoundValue)"

definition HGetAll :: "memory \<Rightarrow> string \<Rightarrow> cacheErr + (string, string) alist" where
  "HGetAll m mainKey =
     (case getChildMap (mm_inner m) mainKey ErrFailedToGetValues of
        Inl er \<Rightarrow> Inl er
      | Inr child \<Rightarrow>
          Inr (fold (\<lambda>(key, it) result. if key \<noteq> yaMapLen then AList.update key (ci_Value it) result else result)
                 child []))"

definition HGetDelSingle :: "memory \<Rightarrow> string \<Rightarrow> string \<Rightarrow> ((cacheErr + string) \<times> memory) option" where
  "HGetDelSingle m mainKey childKey =
     (case getChildMap (mm_inner m) mainKey ErrFailedToGetDeleteSingle of
        Inl er \<Rightarrow> Some (Inl er, m)
      | Inr child \<Rightarrow>
          (case map_of child childKey of
             None \<Rightarrow> Some (Inl ErrNotFoundValue, m)
           | Some it \<Rightarrow>
               map_option (\<lambda>(_, c). (Inr (ci_Value it), withInner m c))
                 (decrementLen (putChild (mm_inner m) mainKey (AList.delete childKey child)) mainKey)))"

definition HLen :: "memory \<Rightarrow> string \<Rightarrow> int \<times> memory" where
  "HLen m mainKey = (let (n, c) = getLen (mm_inner m) mainKey in (n, withInner m c))"

definition HExist :: "memory \<Rightarrow> string \<Rightarrow> string \<Rightarrow> cacheErr + bool" where
  "HExist m mainKey childKey =
     (case getChildMap (mm_inner m) mainKey ErrFailedToHExist of
        Inl er \<Rightarrow> Inl er
      | Inr child \<Rightarrow> Inr (childExist child childKey))"

definition HDelSingle :: "memory \<Rightarrow> string \<Rightarrow> string \<Rightarrow> ((cacheErr + unit) \<times> memory) option" where
  "HDelSingle m mainKey childKey =
     (case getChildMap (mm_inner m) mainKey ErrFailedToDeleteSingle of
        Inl er \<Rightarrow> Some (Inl er, m)
      | Inr child \<Rightarrow>
          map_option (\<lambda>(_, c). (Inr (), withInner m c))
            (decrementLen (putChild (mm_inner m) mainKey (AList.delete childKey child)) mainKey))"

section \<open>Plain keys\<close>

definition putPlain :: "memory \<Rightarrow> string \<Rightarrow> cacheItem \<Rightarrow> memory" where
  "putPlain m key it = withInner m ((mm_inner m)\<lparr>mc_Map := AList.update key it (mc_Map (mm_inner m))\<rparr>)"

definition cache_Set :: "memory \<Rightarrow> string \<Rightarrow> string \<Rightarrow> duration \<Rightarrow> (cacheErr + unit) \<times> memory" where
  "cache_Set m key val ttl =
     (if ttl \<le> 0 then (Inr (), putPlain m key (newMemoryCacheItem val))
      else let (now, m) = cacheNow m
           in (Inr (), putPlain m key (newMemoryCacheItemEX val (timeAdd now ttl))))"

definition cache_Get :: "memory \<Rightarrow> string \<Rightarrow> cacheErr + string" where
  "cache_Get m key = childGet (mc_Map (mm_inner m)) key ErrFailedToGetValue"

definition MGet :: "memory \<Rightarrow> string list \<Rightarrow> (string, string) alist" where
  "MGet m keys =
     fold (\<lambda>key result. case map_of (mc_Map (mm_inner m)) key of
             None \<Rightarrow> result | Some it \<Rightarrow> AList.update key (ci_Value it) result) keys []"

definition cache_Del :: "memory \<Rightarrow> string \<Rightarrow> memory" where
  "cache_Del m key = withInner m ((mm_inner m)\<lparr>mc_Map := AList.delete key (mc_Map (mm_inner m))\<rparr>)"

definition GetDel :: "memory \<Rightarrow> string \<Rightarrow> (cacheErr + string) \<times> memory" where
  "GetDel m key =
     (case map_of (mc_Map (mm_inner m)) key of
        None \<Rightarrow> (Inl ErrFailedToGetDelValue, m)
      | Some it \<Rightarrow> (Inr (ci_Value it), cache_Del m key))"

definition cache_Exists :: "memory \<Rightarrow> string list \<Rightarrow> bool" where
  "cache_Exists m keys = list_all (\<lambda>key. map_of (mc_Map (mm_inner m)) key \<noteq> None) keys"

text \<open>What \<open>Close\<close> does to the maps; its handshake with the sweeper is in \<open>Cache_Shutdown\<close>.\<close>

definition cache_Close :: "memory \<Rightarrow> memory" where
  "cache_Close m = withInner m ((mm_inner m)\<lparr>mc_HMap := [], mc_Map := []\<rparr>)"

section \<open>The sweeper\<close>

text \<open>
  One tick of \<open>cleanup\<close>. The loops go over the entries the maps had when they began: an entry is
  removed only when it is visited, and the counter that a removal may store never expires.
\<close>

fun sweepFields :: "memory \<Rightarrow> string \<Rightarrow> childContainer \<Rightarrow> memory option" where
  "sweepFields m mainKey [] = Some m"
| "sweepFields m mainKey ((childKey, it) # rest) =
     (let (now, m) = cacheNow m in
      if isExpired it now then
        (case getChildMap (mm_inner m) mainKey ErrFailedToGetLen of
           Inl _ \<Rightarrow> None
         | Inr child \<Rightarrow>
             (case decrementLen (putChild (mm_inner m) mainKey (AList.delete childKey child)) mainKey of
                None \<Rightarrow> None
              | Some (n, c) \<Rightarrow>
                  if n = 0 then Some (withInner m (c\<lparr>mc_HMap := AList.delete mainKey (mc_HMap c)\<rparr>))
                  else sweepFields (withInner m c) mainKey rest))
      else sweepFields m mainKey rest)"

fun sweepHashes :: "memory \<Rightarrow> (string, childContainer) alist \<Rightarrow> memory option" where
  "sweepHashes m [] = Some m"
| "sweepHashes m ((mainKey, child) # rest) =
     (case sweepFields m mainKey child of None \<Rightarrow> None | Some m \<Rightarrow> sweepHashes m rest)"

fun sweepPlain :: "memory \<Rightarrow> (string, cacheItem) alist \<Rightarrow> memory" where
  "sweepPlain m [] = m"
| "sweepPlain m ((key, it) # rest) =
     (let (now, m) = cacheNow m in sweepPlain (if isExpired it now then cache_Del m key else m) rest)"

definition cleanup :: "memory \<Rightarrow> memory option" where
  "cleanup m =
     map_option (\<lambda>m. sweepPlain m (mc_Map (mm_inner m))) (sweepHashes m (mc_HMap (mm_inner m)))"

end
