(* ===== verification/Memory_Cache_Props.thy ===== *)
theory Memory_Cache_Props
  imports Memory_Cache
begin

text \<open>
  What the in-memory cache promises. The locale \<open>kv_cache\<close> is the contract its clients use: what is
  stored without an expiry is read back, and other keys are left alone. The operations on fields
  and keys refine a pair of plain maps. The sweeper is described exactly, with the counter that
  decides when a hash is dropped, whatever operations brought that counter about.
\<close>

named_theorems cache_defs \<open>definitions of the cache operations\<close>

declare HSetEX_def [cache_defs] HGet_def [cache_defs] HGetAll_def [cache_defs] HGetDelSingle_def [cache_defs]
  HExist_def [cache_defs] HDelSingle_def [cache_defs] cache_Set_def [cache_defs] cache_Get_def [cache_defs]
  MGet_def [cache_defs] GetDel_def [cache_defs] cache_Del_def [cache_defs] cache_Exists_def [cache_defs]
  cache_Close_def [cache_defs] getChildMap_def [cache_defs] childGet_def [cache_defs] childExist_def [cache_defs]
  putPlain_def [cache_defs] withInner_def [cache_defs] cacheNow_def [cache_defs]

section \<open>The contract of a key-value cache\<close>

locale kv_cache =
  fixes get :: "'c \<Rightarrow> string \<Rightarrow> cacheErr + string"
    and set_val :: "'c \<Rightarrow> string \<Rightarrow> string \<Rightarrow> duration \<Rightarrow> (cacheErr + unit) \<times> 'c"
  assumes get_stored: "set_val c k v 0 = (Inr (), c') \<Longrightarrow> get c' k = Inr v"
    and get_other: "set_val c k v ttl = (Inr (), c') \<Longrightarrow> k' \<noteq> k \<Longrightarrow> get c' k' = get c k'"
begin

lemma last_write_wins:
  "set_val c k v 0 = (Inr (), c1) \<Longrightarrow> set_val c1 k w 0 = (Inr (), c2) \<Longrightarrow> get c2 k = Inr w"
  by (rule get_stored)

lemma writes_commute:
  assumes "set_val c k v 0 = (Inr (), c1)" "set_val c1 l w 0 = (Inr (), c2)" "k \<noteq> l"
  shows "get c2 k = Inr v \<and> get c2 l = Inr w"
  using assms get_stored get_other by metis

end

locale reliable_cache = kv_cache +
  assumes set_succeeds: "\<exists>c'. set_val c k v ttl = (Inr (), c')"
begin

lemma stored: "get (snd (set_val c k v 0)) k = Inr v"
  using set_succeeds [of c k v 0] get_stored by fastforce

lemma untouched: "k' \<noteq> k \<Longrightarrow> get (snd (set_val c k v ttl)) k' = get c k'"
  using set_succeeds [of c k v ttl] get_other by fastforce

lemma set_ok: "fst (set_val c k v ttl) = Inr ()"
  using set_succeeds [of c k v ttl] by auto

end

interpretation memory_cache: reliable_cache cache_Get cache_Set
  by unfold_locales (auto simp: cache_defs newMemoryCacheItem_def newMemoryCacheItemEX_def AList.update_conv'
      Let_def split: option.split if_splits)

section \<open>The counter\<close>

definition counterItem :: "childContainer \<Rightarrow> cacheItem" where
  "counterItem child = (case map_of child yaMapLen of None \<Rightarrow> newMemoryCacheItem ''0'' | Some it \<Rightarrow> it)"

definition counterOf :: "childContainer \<Rightarrow> int" where
  "counterOf child = (case Atoi (ci_Value (counterItem child)) of Inl _ \<Rightarrow> 0 | Inr n \<Rightarrow> n)"

definition recounted :: "childContainer \<Rightarrow> int \<Rightarrow> childContainer" where
  "recounted child n = AList.update yaMapLen ((counterItem child)\<lparr>ci_Value := formatInt n\<rparr>) child"

lemma Atoi_zero [simp]: "Atoi ''0'' = Inr 0"
  by (simp add: Atoi_def ParseInt_def ParseUint_def digitOf_def Let_def)

lemma getLen_counter:
  "map_of (mc_HMap c) k = Some child \<Longrightarrow> fst (getLen c k) = counterOf child"
  by (simp add: getLen_def getChildMap_def counterOf_def counterItem_def newMemoryCacheItem_def
      split: option.split sum.split)

lemma storeLen_getLen:
  assumes "map_of (mc_HMap c) k = Some child"
  shows "storeLen (snd (getLen c k)) k n = Some (putChild c k (recounted child n))"
proof (cases "map_of child yaMapLen")
  case None
  then show ?thesis using assms
    by (simp add: getLen_def getChildMap_def storeLen_def putChild_def recounted_def counterItem_def AList.update_conv'
        AList.update_last)
next
  case (Some it)
  then show ?thesis using assms
    by (simp add: getLen_def getChildMap_def storeLen_def putChild_def recounted_def counterItem_def split: sum.split)
qed

lemma incrementLen_eq:
  assumes "map_of (mc_HMap c) k = Some child"
  shows "incrementLen c k = Some (int64 (counterOf child + 1), putChild c k (recounted child (int64 (counterOf child + 1))))"
  by (simp add: incrementLen_def split_def Let_def getLen_counter [OF assms] storeLen_getLen [OF assms])

lemma decrementLen_eq:
  assumes "map_of (mc_HMap c) k = Some child"
  shows "decrementLen c k = Some (int64 (counterOf child - 1), putChild c k (recounted child (int64 (counterOf child - 1))))"
  by (simp add: decrementLen_def split_def Let_def getLen_counter [OF assms] storeLen_getLen [OF assms])

lemma putChild_simps [simp]:
  "map_of (mc_HMap (putChild c k child)) = (map_of (mc_HMap c))(k \<mapsto> child)"
  "mc_Map (putChild c k child) = mc_Map c"
  "putChild (putChild c k child') k child = putChild c k child"
  "distinct (map fst (mc_HMap c)) \<Longrightarrow> distinct (map fst (mc_HMap (putChild c k child)))"
  by (simp_all add: putChild_def AList.update_conv' AList.update_last distinct_update)

lemma counterOf_recounted [simp]: "in_int64 n \<Longrightarrow> counterOf (recounted child n) = n"
  by (simp add: counterOf_def counterItem_def recounted_def AList.update_conv' Atoi_def int_numeral.parses)

lemma counterItem_delete [simp]: "f \<noteq> yaMapLen \<Longrightarrow> counterItem (AList.delete f child) = counterItem child"
  by (simp add: counterItem_def AList.delete_conv')

lemma counterOf_delete [simp]: "f \<noteq> yaMapLen \<Longrightarrow> counterOf (AList.delete f child) = counterOf child"
  by (simp add: counterOf_def)

text \<open>The fields of a hash that are not the counter.\<close>

definition visible :: "childContainer \<Rightarrow> string \<Rightarrow> cacheItem option" where
  "visible child f = (if f = yaMapLen then None else map_of child f)"

lemma visible_simps [simp]:
  "visible [] = Map.empty" "visible (recounted child n) = visible child"
  "f \<noteq> yaMapLen \<Longrightarrow> visible (AList.update f it child) = (visible child)(f \<mapsto> it)"
  "visible (AList.delete f child) = (visible child)(f := None)"
  by (auto simp: visible_def recounted_def AList.update_conv' AList.delete_conv' fun_eq_iff)

lemma distinct_recounted [simp]: "distinct (map fst child) \<Longrightarrow> distinct (map fst (recounted child n))"
  by (simp add: recounted_def distinct_update)

section \<open>The abstract cache\<close>

text \<open>
  A cache as its interface describes it: a partial map of hashes, each a partial map of fields, and
  a partial map of plain keys, with the number of clock readings consumed. Beside them stands for each
  hash the number that \<open>HLen\<close> answers. It is not the number of fields: it counts calls.
\<close>

record shelf =
  sh_hash :: "string \<Rightarrow> (string \<Rightarrow> cacheItem option) option"
  sh_plain :: "string \<Rightarrow> cacheItem option"
  sh_count :: "string \<Rightarrow> int"
  sh_tick :: nat

datatype cacheOp =
    OpHSetEX string string string duration
  | OpHGet string string
  | OpHGetAll string
  | OpHGetDelSingle string string
  | OpHLen string
  | OpHExist string string
  | OpHDelSingle string string
  | OpSet string string duration
  | OpGet string
  | OpMGet "string list"
  | OpGetDel string
  | OpExists "string list"
  | OpDel string

datatype cacheReply = RDone | RValue string | RFlag bool | RCount int | RValues "string \<Rightarrow> string option"
  | RFailed cacheErr

fun op_fields :: "cacheOp \<Rightarrow> string set" where
  "op_fields (OpHSetEX _ f _ _) = {f}"
| "op_fields (OpHGet _ f) = {f}"
| "op_fields (OpHGetDelSingle _ f) = {f}"
| "op_fields (OpHExist _ f) = {f}"
| "op_fields (OpHDelSingle _ f) = {f}"
| "op_fields _ = {}"

definition value_reply :: "cacheErr + string \<Rightarrow> cacheReply" where
  "value_reply r = (case r of Inl er \<Rightarrow> RFailed er | Inr v \<Rightarrow> RValue v)"

definition done_reply :: "cacheErr + unit \<Rightarrow> cacheReply" where
  "done_reply r = (case r of Inl er \<Rightarrow> RFailed er | Inr _ \<Rightarrow> RDone)"

fun cache_call :: "cacheOp \<Rightarrow> memory \<Rightarrow> (cacheReply \<times> memory) option" where
  "cache_call (OpHSetEX k f v ttl) m = map_option (apfst done_reply) (HSetEX m k f v ttl)"
| "cache_call (OpHGet k f) m = Some (value_reply (HGet m k f), m)"
| "cache_call (OpHGetAll k) m =
     Some (case HGetAll m k of Inl er \<Rightarrow> RFailed er | Inr al \<Rightarrow> RValues (map_of al), m)"
| "cache_call (OpHGetDelSingle k f) m = map_option (apfst value_reply) (HGetDelSingle m k f)"
| "cache_call (OpHLen k) m = Some (apfst RCount (HLen m k))"
| "cache_call (OpHExist k f) m = Some (case HExist m k f of Inl er \<Rightarrow> RFailed er | Inr b \<Rightarrow> RFlag b, m)"
| "cache_call (OpHDelSingle k f) m = map_option (apfst done_reply) (HDelSingle m k f)"
| "cache_call (OpSet k v ttl) m = Some (apfst done_reply (cache_Set m k v ttl))"
| "cache_call (OpGet k) m = Some (value_reply (cache_Get m k), m)"
| "cache_call (OpMGet ks) m = Some (RValues (map_of (MGet m ks)), m)"
| "cache_call (OpGetDel k) m = Some (apfst value_reply (GetDel m k))"
| "cache_call (OpExists ks) m = Some (RFlag (cache_Exists m ks), m)"
| "cache_call (OpDel k) m = Some (RDone, cache_Del m k)"

definition shelf_field :: "shelf \<Rightarrow> string \<Rightarrow> string \<Rightarrow> cacheErr \<Rightarrow> cacheErr \<Rightarrow> cacheErr + cacheItem" where
  "shelf_field s k f no_hash no_field =
     (case sh_hash s k of None \<Rightarrow> Inl no_hash | Some h \<Rightarrow> (case h f of None \<Rightarrow> Inl no_field | Some it \<Rightarrow> Inr it))"

definition shelf_value :: "cacheErr + cacheItem \<Rightarrow> cacheReply" where
  "shelf_value r = (case r of Inl er \<Rightarrow> RFailed er | Inr it \<Rightarrow> RValue (ci_Value it))"

definition shelf_plain :: "shelf \<Rightarrow> string \<Rightarrow> cacheErr \<Rightarrow> cacheErr + cacheItem" where
  "shelf_plain s k er = (case sh_plain s k of None \<Rightarrow> Inl er | Some it \<Rightarrow> Inr it)"

definition values_of :: "(string \<Rightarrow> cacheItem option) \<Rightarrow> string \<Rightarrow> string option" where
  "values_of h = map_option ci_Value \<circ> h"

fun shelf_call :: "(nat \<Rightarrow> time) \<Rightarrow> cacheOp \<Rightarrow> shelf \<Rightarrow> cacheReply \<times> shelf" where
  "shelf_call clk (OpHSetEX k f v ttl) s =
     (RDone, s\<lparr>sh_hash := (sh_hash s)(k \<mapsto> (case sh_hash s k of None \<Rightarrow> Map.empty | Some h \<Rightarrow> h)
                  (f \<mapsto> newMemoryCacheItemEX v (timeAdd (clk (sh_tick s)) ttl))),
               sh_count := (sh_count s)(k := int64 (sh_count s k + 1)), sh_tick := Suc (sh_tick s)\<rparr>)"
| "shelf_call clk (OpHGet k f) s = (shelf_value (shelf_field s k f ErrFailedToGetValue ErrNotFoundValue), s)"
| "shelf_call clk (OpHGetAll k) s =
     (case sh_hash s k of None \<Rightarrow> RFailed ErrFailedToGetValues | Some h \<Rightarrow> RValues (values_of h), s)"
| "shelf_call clk (OpHGetDelSingle k f) s =
     (case shelf_field s k f ErrFailedToGetDeleteSingle ErrNotFoundValue of
        Inl er \<Rightarrow> (RFailed er, s)
      | Inr it \<Rightarrow> (RValue (ci_Value it), s\<lparr>sh_hash := (sh_hash s)(k \<mapsto> (the (sh_hash s k))(f := None)),
                                     sh_count := (sh_count s)(k := int64 (sh_count s k - 1))\<rparr>))"
| "shelf_call clk (OpHLen k) s = (RCount (sh_count s k), s)"
| "shelf_call clk (OpHExist k f) s =
     (case sh_hash s k of None \<Rightarrow> RFailed ErrFailedToHExist | Some h \<Rightarrow> RFlag (h f \<noteq> None), s)"
| "shelf_call clk (OpHDelSingle k f) s =
     (case sh_hash s k of
        None \<Rightarrow> (RFailed ErrFailedToDeleteSingle, s)
      | Some h \<Rightarrow> (RDone, s\<lparr>sh_hash := (sh_hash s)(k \<mapsto> h(f := None)),
                             sh_count := (sh_count s)(k := int64 (sh_count s k - 1))\<rparr>))"
| "shelf_call clk (OpSet k v ttl) s =
     (RDone, if ttl \<le> 0 then s\<lparr>sh_plain := (sh_plain s)(k \<mapsto> newMemoryCacheItem v)\<rparr>
             else s\<lparr>sh_plain := (sh_plain s)(k \<mapsto> newMemoryCacheItemEX v (timeAdd (clk (sh_tick s)) ttl)),
                    sh_tick := Suc (sh_tick s)\<rparr>)"
| "shelf_call clk (OpGet k) s = (shelf_value (shelf_plain s k ErrFailedToGetValue), s)"
| "shelf_call clk (OpMGet ks) s = (RValues (values_of (sh_plain s |` set ks)), s)"
| "shelf_call clk (OpGetDel k) s =
     (shelf_value (shelf_plain s k ErrFailedToGetDelValue), s\<lparr>sh_plain := (sh_plain s)(k := None)\<rparr>)"
| "shelf_call clk (OpExists ks) s = (RFlag (\<forall>k \<in> set ks. sh_plain s k \<noteq> None), s)"
| "shelf_call clk (OpDel k) s = (RDone, s\<lparr>sh_plain := (sh_plain s)(k := None)\<rparr>)"

definition abs_cache :: "memory \<Rightarrow> shelf" where
  "abs_cache m = \<lparr>sh_hash = map_option visible \<circ> map_of (mc_HMap (mm_inner m)),
     sh_plain = map_of (mc_Map (mm_inner m)),
     sh_count = (\<lambda>k. case map_of (mc_HMap (mm_inner m)) k of None \<Rightarrow> 0 | Some child \<Rightarrow> counterOf child),
     sh_tick = mm_tick m\<rparr>"

definition cache_inv :: "memory \<Rightarrow> bool" where
  "cache_inv m \<longleftrightarrow> distinct (map fst (mc_HMap (mm_inner m))) \<and> distinct (map fst (mc_Map (mm_inner m)))
     \<and> (\<forall>k child. map_of (mc_HMap (mm_inner m)) k = Some child \<longrightarrow> distinct (map fst child))"

text \<open>The replies of a sequence of calls.\<close>

fun cache_calls :: "cacheOp list \<Rightarrow> memory \<Rightarrow> (cacheReply list \<times> memory) option" where
  "cache_calls [] m = Some ([], m)"
| "cache_calls (op # ops) m =
     (case cache_call op m of
        None \<Rightarrow> None
      | Some (r, m) \<Rightarrow> map_option (apfst ((#) r)) (cache_calls ops m))"

fun shelf_calls :: "(nat \<Rightarrow> time) \<Rightarrow> cacheOp list \<Rightarrow> shelf \<Rightarrow> cacheReply list \<times> shelf" where
  "shelf_calls clk [] s = ([], s)"
| "shelf_calls clk (op # ops) s = (let (r, s) = shelf_call clk op s in apfst ((#) r) (shelf_calls clk ops s))"

lemma collect_fields:
  assumes "distinct (map fst child)"
  shows "map_of (fold (\<lambda>(key, it) result. if key \<noteq> yaMapLen then AList.update key (ci_Value it) result else result)
      child al) = map_of al ++ values_of (visible child)"
  using assms
proof (induction child arbitrary: al)
  case Nil
  then show ?case by (simp add: values_of_def fun_eq_iff map_add_def)
next
  case (Cons p child)
  then have "map_of child (fst p) = None"
    by (simp add: map_of_eq_None_iff)
  with Cons show ?case
    by (cases p) (auto simp: values_of_def fun_eq_iff visible_def map_add_def AList.update_conv' split: option.split)
qed

lemma collect_plain:
  "map_of (fold (\<lambda>key result. case map_of mp key of None \<Rightarrow> result | Some it \<Rightarrow> AList.update key (ci_Value it) result) ks al)
    = map_of al ++ values_of (map_of mp |` set ks)"
  by (induction ks arbitrary: al)
    (auto simp: values_of_def fun_eq_iff restrict_map_def map_add_def AList.update_conv' split: option.split)

lemmas shelf_simps = abs_cache_def shelf_field_def shelf_plain_def shelf_value_def value_reply_def done_reply_def
  fun_eq_iff

lemma abs_hash: "sh_hash (abs_cache m) k = map_option visible (map_of (mc_HMap (mm_inner m)) k)"
  by (simp add: abs_cache_def)

lemma abs_count:
  "sh_count (abs_cache m) k = (case map_of (mc_HMap (mm_inner m)) k of None \<Rightarrow> 0 | Some child \<Rightarrow> counterOf child)"
  by (simp add: abs_cache_def)

lemma counterOf_update [simp]: "f \<noteq> yaMapLen \<Longrightarrow> counterOf (AList.update f it child) = counterOf child"
  by (simp add: counterOf_def counterItem_def AList.update_conv')

lemma counterOf_start [simp]: "counterOf (AList.update yaMapLen (newMemoryCacheItem ''0'') child) = 0" "counterOf [] = 0"
  by (simp_all add: counterOf_def counterItem_def AList.update_conv' newMemoryCacheItem_def)

text \<open>Asking for the length may store the counter a hash has not got, which changes nothing visible.\<close>

lemma HLen_refines:
  assumes "cache_inv m"
  shows "fst (HLen m k) = sh_count (abs_cache m) k \<and> abs_cache (snd (HLen m k)) = abs_cache m
    \<and> cache_inv (snd (HLen m k)) \<and> mm_clock (snd (HLen m k)) = mm_clock m"
proof (cases "map_of (mc_HMap (mm_inner m)) k")
  case None
  then show ?thesis using assms by (simp add: HLen_def getLen_def getChildMap_def abs_count withInner_def)
next
  case (Some child)
  then have "fst (HLen m k) = sh_count (abs_cache m) k"
    using getLen_counter [OF Some] by (simp add: HLen_def split_def Let_def abs_count)
  moreover have "abs_cache (snd (HLen m k)) = abs_cache m \<and> cache_inv (snd (HLen m k)) \<and> mm_clock (snd (HLen m k)) = mm_clock m"
  proof (cases "map_of child yaMapLen")
    case None
    let ?child = "AList.update yaMapLen (newMemoryCacheItem ''0'') child"
    have "visible ?child = visible child" "counterOf child = 0" "distinct (map fst child) \<Longrightarrow> distinct (map fst ?child)"
      using None by (auto simp: visible_def AList.update_conv' fun_eq_iff counterOf_def counterItem_def newMemoryCacheItem_def
          distinct_update)
    then show ?thesis
      using assms Some None
      by (auto simp: HLen_def getLen_def getChildMap_def withInner_def abs_cache_def cache_inv_def fun_eq_iff)
  next
    case counted: (Some it)
    then show ?thesis using assms Some
      by (simp add: HLen_def getLen_def getChildMap_def withInner_def split: sum.split)
  qed
  ultimately show ?thesis by simp
qed

lemma HSetEX_refines:
  assumes "cache_inv m" and f: "f \<noteq> yaMapLen"
  shows "\<exists>m'. HSetEX m k f v ttl = Some (Inr (), m') \<and> cache_inv m' \<and> mm_clock m' = mm_clock m
    \<and> (RDone, abs_cache m') = shelf_call (mm_clock m) (OpHSetEX k f v ttl) (abs_cache m)"
proof -
  define child where "child = (case map_of (mc_HMap (mm_inner m)) k of None \<Rightarrow> [] | Some ch \<Rightarrow> ch)"
  define ch where "ch = AList.update f (newMemoryCacheItemEX v (timeAdd (mm_clock m (mm_tick m)) ttl)) child"
  define n where "n = int64 (counterOf ch + 1)"
  have d: "distinct (map fst ch)"
    using assms(1) by (auto simp: ch_def child_def cache_inv_def distinct_update split: option.split)
  have old: "(case getChildMap (mm_inner m) k ErrFailedToHSetEx of Inl _ \<Rightarrow> [] | Inr ch \<Rightarrow> ch) = child"
    by (simp add: child_def getChildMap_def split: option.split)
  have "HSetEX m k f v ttl
      = Some (Inr (), m\<lparr>mm_tick := Suc (mm_tick m), mm_inner := putChild (mm_inner m) k (recounted ch n)\<rparr>)"
    by (simp add: HSetEX_def old incrementLen_eq [where child = ch] cacheNow_def withInner_def Let_def
        ch_def [symmetric] n_def [symmetric])
  moreover have "counterOf (recounted ch n) = int64 (sh_count (abs_cache m) k + 1)"
    using f by (simp add: n_def ch_def child_def abs_count split: option.split)
  moreover have "visible (recounted ch n) = (case sh_hash (abs_cache m) k of None \<Rightarrow> Map.empty | Some h \<Rightarrow> h)
      (f \<mapsto> newMemoryCacheItemEX v (timeAdd (mm_clock m (mm_tick m)) ttl))"
    using f by (simp add: ch_def child_def abs_hash split: option.split)
  ultimately show ?thesis
    using assms(1) d by (auto simp: abs_cache_def cache_inv_def fun_eq_iff)
qed

lemma removal_refines:
  assumes "cache_inv m" and f: "f \<noteq> yaMapLen" and child: "map_of (mc_HMap (mm_inner m)) k = Some child"
  shows "\<exists>c n. decrementLen (putChild (mm_inner m) k (AList.delete f child)) k = Some (n, c)
    \<and> cache_inv (withInner m c) \<and> mm_clock (withInner m c) = mm_clock m
    \<and> abs_cache (withInner m c) = (abs_cache m)\<lparr>sh_hash := (sh_hash (abs_cache m))(k \<mapsto> (visible child)(f := None)),
        sh_count := (sh_count (abs_cache m))(k := int64 (sh_count (abs_cache m) k - 1))\<rparr>"
proof -
  have "distinct (map fst (AList.delete f child))"
    using assms by (auto simp: cache_inv_def distinct_delete)
  moreover have "counterOf (AList.delete f child) = sh_count (abs_cache m) k" using f child by (simp add: abs_count)
  ultimately show ?thesis
    using assms(1) by (auto simp: decrementLen_eq [where child = "AList.delete f child"] withInner_def cache_inv_def
        abs_cache_def fun_eq_iff)
qed


lemma cache_call_refines:
  assumes inv: "cache_inv m" and f: "yaMapLen \<notin> op_fields op"
  shows "\<exists>r m'. cache_call op m = Some (r, m') \<and> cache_inv m' \<and> mm_clock m' = mm_clock m
    \<and> (r, abs_cache m') = shelf_call (mm_clock m) op (abs_cache m)"
proof (cases op)
  case (OpHSetEX k f v ttl)
  with f HSetEX_refines [OF inv, of f k v ttl] show ?thesis by (auto simp: done_reply_def)
next
  case (OpHGetAll k)
  then show ?thesis
    using inv by (auto simp: cache_inv_def shelf_simps cache_defs collect_fields split: option.split)
next
  case (OpHGetDelSingle k f)
  with f have "f \<noteq> yaMapLen" by simp
  note gone = removal_refines [OF inv this, of k]
  show ?thesis
  proof (cases "map_of (mc_HMap (mm_inner m)) k")
    case None
    with OpHGetDelSingle inv show ?thesis by (simp add: shelf_simps cache_defs)
  next
    case (Some child)
    from gone [OF this] OpHGetDelSingle Some f inv show ?thesis
      by (cases "map_of child f")
        (auto simp: HGetDelSingle_def getChildMap_def shelf_field_def value_reply_def abs_hash visible_def)
  qed
next
  case (OpHLen k)
  then show ?thesis using HLen_refines [OF inv, of k] by (cases "HLen m k") simp
next
  case (OpHDelSingle k f)
  with f have "f \<noteq> yaMapLen" by simp
  note gone = removal_refines [OF inv this, of k]
  show ?thesis
  proof (cases "map_of (mc_HMap (mm_inner m)) k")
    case None
    with OpHDelSingle inv show ?thesis by (simp add: shelf_simps cache_defs)
  next
    case (Some child)
    from gone [OF this] OpHDelSingle Some f inv show ?thesis
      by (auto simp: HDelSingle_def getChildMap_def done_reply_def abs_hash)
  qed
next
  case (OpMGet ks)
  with inv show ?thesis by (simp add: MGet_def collect_plain abs_cache_def)
qed (use inv f in \<open>auto simp: shelf_simps cache_defs cache_inv_def visible_def list_all_iff Let_def AList.update_conv'
    AList.delete_conv' distinct_update distinct_delete split: option.split\<close>)

lemma cache_calls_refine:
  assumes "cache_inv m" and "\<forall>op \<in> set ops. yaMapLen \<notin> op_fields op"
  shows "\<exists>rs m'. cache_calls ops m = Some (rs, m') \<and> cache_inv m' \<and> (rs, abs_cache m') = shelf_calls (mm_clock m) ops (abs_cache m)"
  using assms
proof (induction ops arbitrary: m)
  case (Cons op ops)
  obtain r m1 where step: "cache_call op m = Some (r, m1)" "cache_inv m1" "mm_clock m1 = mm_clock m"
      "(r, abs_cache m1) = shelf_call (mm_clock m) op (abs_cache m)"
    using cache_call_refines [of m op] Cons.prems by auto
  obtain rs m2 where "cache_calls ops m1 = Some (rs, m2)" "cache_inv m2"
      "(rs, abs_cache m2) = shelf_calls (mm_clock m) ops (abs_cache m1)"
    using Cons.IH [OF step(2)] Cons.prems step(3) by auto
  with step show ?case by (auto simp: split_def prod_eq_iff apfst_def Let_def)
qed simp


definition empty_shelf :: shelf where
  "empty_shelf = \<lparr>sh_hash = Map.empty, sh_plain = Map.empty, sh_count = \<lambda>_. 0, sh_tick = 0\<rparr>"

lemma abs_NewMemory [simp]:
  "abs_cache (NewMemory NewMemoryContainer clk) = empty_shelf" "cache_inv (NewMemory NewMemoryContainer clk)"
  "mm_clock (NewMemory NewMemoryContainer clk) = clk"
  by (simp_all add: abs_cache_def empty_shelf_def NewMemory_def NewMemoryContainer_def cache_inv_def fun_eq_iff)

text \<open>
  C27. Between two sweeps the cache is a pair of maps, and a counter for each hash. Whatever sequence is
  made on an empty cache of calls of the hash operations (\<open>HSetEX\<close>, \<open>HGet\<close>, \<open>HGetAll\<close>, \<open>HGetDelSingle\<close>, \<open>HLen\<close>,
  \<open>HExist\<close>, \<open>HDelSingle\<close>) and of the operations on plain keys (\<open>Set\<close>, \<open>Get\<close>, \<open>MGet\<close>, \<open>GetDel\<close>, \<open>Exists\<close>, \<open>Del\<close>), as
  long as none of them names the reserved field, no call panics and every reply is the one that plain
  partial maps of hashes and keys give, errors included. Only the reply of \<open>HLen\<close> depends on the counter, and
  that is not the number of fields: it goes up with every \<open>HSetEX\<close>, also one that overwrites a field, and
  down with every \<open>HGetDelSingle\<close> that finds its field and every \<open>HDelSingle\<close> on a hash there is, also of a
  field it has not got. An item past its expiry is
  still served until the sweeper comes. \<open>Close\<close> is not among the calls: what it does to the maps and
  whether it returns is the matter of \<open>Cache_Shutdown\<close>.
\<close>

theorem cache_refines_maps:
  assumes "\<forall>op \<in> set ops. yaMapLen \<notin> op_fields op"
  shows "\<exists>rs m'. cache_calls ops (NewMemory NewMemoryContainer clk) = Some (rs, m')
    \<and> (rs, abs_cache m') = shelf_calls clk ops empty_shelf"
  using cache_calls_refine [of "NewMemory NewMemoryContainer clk" ops] assms by auto

theorem cache_refines_maps_witness:
  "\<exists>rs m'. cache_calls [OpHSetEX ''h'' ''a'' ''1'' 5, OpHSetEX ''h'' ''a'' ''2'' 5, OpHGet ''h'' ''a'', OpHGet ''g'' ''a'',
      OpHLen ''h'', OpHGetDelSingle ''h'' ''a'', OpHExist ''h'' ''a'', OpSet ''k'' ''v'' 0, OpGetDel ''k'', OpGet ''k'']
      (NewMemory NewMemoryContainer (\<lambda>_. 0)) = Some (rs, m')
    \<and> rs = [RDone, RDone, RValue ''2'', RFailed ErrFailedToGetValue, RCount 2, RValue ''2'', RFlag False, RDone, RValue ''v'',
        RFailed ErrFailedToGetValue]"
proof -
  have other: "yaMapLen \<noteq> ''a''" by (simp add: yaMapLen_def)
  then show ?thesis
    using cache_refines_maps [of "[OpHSetEX ''h'' ''a'' ''1'' 5, OpHSetEX ''h'' ''a'' ''2'' 5, OpHGet ''h'' ''a'',
        OpHGet ''g'' ''a'', OpHLen ''h'', OpHGetDelSingle ''h'' ''a'', OpHExist ''h'' ''a'', OpSet ''k'' ''v'' 0, OpGetDel ''k'',
        OpGet ''k'']" "\<lambda>_. 0"]
    by (simp add: empty_shelf_def shelf_field_def shelf_value_def shelf_plain_def newMemoryCacheItemEX_def
        newMemoryCacheItem_def apfst_def int64_def del: cache_calls.simps) blast
qed

section \<open>The sweeper\<close>

text \<open>
  Sweeping the fields of one hash at an instant: each expired field takes one off the counter, and
  the field that takes it to zero takes the whole hash with it.
\<close>

definition expired_count :: "time \<Rightarrow> childContainer \<Rightarrow> int" where
  "expired_count now fs = int (length (filter (\<lambda>p. isExpired (snd p) now) fs))"

lemma expired_count_simps [simp]:
  "expired_count now [] = 0" "0 \<le> expired_count now fs"
  "expired_count now (p # fs) = (if isExpired (snd p) now then 1 else 0) + expired_count now fs"
  by (simp_all add: expired_count_def)

definition unexpired :: "time \<Rightarrow> (string \<Rightarrow> cacheItem option) \<Rightarrow> string \<Rightarrow> cacheItem option" where
  "unexpired now h f = (case h f of None \<Rightarrow> None | Some it \<Rightarrow> if isExpired it now then None else Some it)"

text \<open>What the fields visited leave of the fields there are.\<close>

definition without_expired :: "time \<Rightarrow> childContainer \<Rightarrow> (string \<Rightarrow> cacheItem option) \<Rightarrow> string \<Rightarrow> cacheItem option" where
  "without_expired now fs h f = (if \<exists>it. (f, it) \<in> set fs \<and> isExpired it now then None else h f)"

lemma without_expired_Nil [simp]: "without_expired now [] h = h"
  by (simp add: without_expired_def fun_eq_iff)

lemma without_expired_Cons:
  "without_expired now ((f, it) # fs) h
     = without_expired now fs (if isExpired it now then h(f := None) else h)"
  by (auto simp: without_expired_def fun_eq_iff)

lemma without_expired_all:
  assumes "distinct (map fst child)"
  shows "without_expired now child (visible child) = unexpired now (visible child)"
proof
  fix f
  show "without_expired now child (visible child) f = unexpired now (visible child) f"
  proof (cases "map_of child f")
    case None
    then show ?thesis
      by (simp add: without_expired_def unexpired_def visible_def)
  next
    case (Some it)
    then have "(f, it') \<in> set child \<longleftrightarrow> it' = it" for it'
      using map_of_Some_iff [OF assms] by (metis option.inject)
    with Some show ?thesis
      by (simp add: without_expired_def unexpired_def visible_def)
  qed
qed

definition sane_counter :: "childContainer \<Rightarrow> bool" where
  "sane_counter fs \<longleftrightarrow> (\<forall>(f, it) \<in> set fs. f = yaMapLen \<longrightarrow> ci_Endless it)"

text \<open>The memory after the loop over the fields of one hash.\<close>

definition hash_swept :: "time \<Rightarrow> string \<Rightarrow> childContainer \<Rightarrow> childContainer \<Rightarrow> memory \<Rightarrow> memory \<Rightarrow> bool" where
  "hash_swept now k fs child m m' \<longleftrightarrow>
     mc_Map (mm_inner m') = mc_Map (mm_inner m) \<and> mm_clock m' = mm_clock m
     \<and> (if 1 \<le> counterOf child \<and> counterOf child \<le> expired_count now fs
        then map_of (mc_HMap (mm_inner m')) = (map_of (mc_HMap (mm_inner m)))(k := None)
        else \<exists>child'. map_of (mc_HMap (mm_inner m')) = (map_of (mc_HMap (mm_inner m)))(k \<mapsto> child')
          \<and> visible child' = without_expired now fs (visible child)
          \<and> counterOf child' = counterOf child - expired_count now fs
          \<and> (distinct (map fst child) \<longrightarrow> distinct (map fst child')))"

lemma sweepFields_swept:
  assumes "map_of (mc_HMap (mm_inner m)) k = Some child" and "mm_clock m = (\<lambda>_. now)" and "sane_counter fs"
    and "minInt64 + expired_count now fs \<le> counterOf child" and "counterOf child \<le> maxInt64"
  shows "\<exists>m'. sweepFields m k fs = Some m' \<and> hash_swept now k fs child m m'"
  using assms
proof (induction fs arbitrary: m child)
  case Nil
  then show ?case by (auto simp: hash_swept_def intro!: exI [of _ child])
next
  case (Cons p fs)
  obtain f it where p: "p = (f, it)" by (cases p)
  let ?m = "m\<lparr>mm_tick := Suc (mm_tick m)\<rparr>"
  have now: "cacheNow m = (now, ?m)" using Cons.prems(2) by (simp add: cacheNow_def)
  have sane: "sane_counter fs" using Cons.prems(3) by (simp add: sane_counter_def)
  show ?case
  proof (cases "isExpired it now")
    case False
    with Cons.prems p have "minInt64 + expired_count now fs \<le> counterOf child"
      by simp
    with Cons.IH [of ?m child] Cons.prems sane
    obtain m' where "sweepFields ?m k fs = Some m'" "hash_swept now k fs child ?m m'" by auto
    with False now p show ?thesis
      by (auto simp: hash_swept_def without_expired_Cons split: if_splits)
  next
    case True
    with Cons.prems(3) p have f: "f \<noteq> yaMapLen" by (auto simp: sane_counter_def isExpired_def)
    define n where "n = counterOf child - 1"
    have small: "in_int64 n" and n: "minInt64 + expired_count now fs \<le> n" "n \<le> maxInt64"
      using Cons.prems(4,5) True p expired_count_simps(2) [of now fs] by (simp_all add: n_def in_int64_def del: expired_count_simps(2))
    define child1 where "child1 = recounted (AList.delete f child) n"
    define m1 where "m1 = withInner ?m (putChild (mm_inner m) k child1)"
    have m1: "map_of (mc_HMap (mm_inner m1)) = (map_of (mc_HMap (mm_inner m)))(k \<mapsto> child1)" "mm_clock m1 = mm_clock m"
        "mc_Map (mm_inner m1) = mc_Map (mm_inner m)"
      by (simp_all add: m1_def withInner_def)
    have c1: "counterOf child1 = n" "visible child1 = (visible child)(f := None)"
        "distinct (map fst child) \<longrightarrow> distinct (map fst child1)"
      using small by (simp_all add: child1_def distinct_delete)
    have dec: "decrementLen (putChild (mm_inner m) k (AList.delete f child)) k = Some (n, putChild (mm_inner m) k child1)"
      using small f by (simp add: decrementLen_eq [where child = "AList.delete f child"] n_def child1_def)
    show ?thesis
    proof (cases "n = 0")
      case z: True
      with True now p dec Cons.prems(1) show ?thesis
        by (auto simp: getChildMap_def hash_swept_def withInner_def AList.delete_conv' n_def)
    next
      case nz: False
      have "sweepFields m k (p # fs) = sweepFields m1 k fs"
        using True now p dec Cons.prems(1) nz by (simp add: getChildMap_def m1_def)
      moreover obtain m' where "sweepFields m1 k fs = Some m'" and swept: "hash_swept now k fs child1 m1 m'"
        using Cons.IH [of m1 child1] m1 c1 n Cons.prems(2) sane by auto
      moreover have "hash_swept now k (p # fs) child m m'"
      proof -
        have e: "expired_count now (p # fs) = expired_count now fs + 1"
          using True p by simp
        have same: "1 \<le> counterOf child1 \<and> counterOf child1 \<le> expired_count now fs
            \<longleftrightarrow> 1 \<le> counterOf child \<and> counterOf child \<le> expired_count now (p # fs)"
          unfolding e c1(1) using nz by (auto simp: n_def)
        have left: "without_expired now (p # fs) (visible child) = without_expired now fs (visible child1)"
            "counterOf child - expired_count now (p # fs) = counterOf child1 - expired_count now fs"
          unfolding e c1 p using True by (simp_all add: without_expired_Cons n_def)
        show ?thesis
          using swept c1(3) unfolding hash_swept_def left same [symmetric] m1
          by (cases "1 \<le> counterOf child1 \<and> counterOf child1 \<le> expired_count now fs") (simp, force)
      qed
      ultimately show ?thesis by auto
    qed
  qed
qed

text \<open>What a hash is after a sweep: gone, or the fields that have not expired.\<close>

definition swept_to :: "time \<Rightarrow> childContainer \<Rightarrow> childContainer option \<Rightarrow> bool" where
  "swept_to now child res \<longleftrightarrow>
     (if 1 \<le> counterOf child \<and> counterOf child \<le> expired_count now child then res = None
      else \<exists>child'. res = Some child' \<and> visible child' = unexpired now (visible child)
        \<and> counterOf child' = counterOf child - expired_count now child)"

definition sweepable :: "time \<Rightarrow> childContainer \<Rightarrow> bool" where
  "sweepable now child \<longleftrightarrow> distinct (map fst child) \<and> sane_counter child
     \<and> minInt64 + expired_count now child \<le> counterOf child \<and> counterOf child \<le> maxInt64"

lemma sweepFields_swept_to:
  assumes "map_of (mc_HMap (mm_inner m)) k = Some child" and "mm_clock m = (\<lambda>_. now)" and "sweepable now child"
  obtains m' where "sweepFields m k child = Some m'" "mm_clock m' = (\<lambda>_. now)"
    "mc_Map (mm_inner m') = mc_Map (mm_inner m)" "swept_to now child (map_of (mc_HMap (mm_inner m')) k)"
    "\<And>k'. k' \<noteq> k \<Longrightarrow> map_of (mc_HMap (mm_inner m')) k' = map_of (mc_HMap (mm_inner m)) k'"
proof -
  have child: "distinct (map fst child)" "sane_counter child" "minInt64 + expired_count now child \<le> counterOf child"
      "counterOf child \<le> maxInt64"
    using assms(3) by (simp_all add: sweepable_def)
  obtain m' where m': "sweepFields m k child = Some m'" and h: "hash_swept now k child child m m'"
    using sweepFields_swept [OF assms(1,2) child(2-4)] by blast
  have "swept_to now child (map_of (mc_HMap (mm_inner m')) k)"
    using h child(1) by (auto simp: hash_swept_def swept_to_def without_expired_all split: if_splits)
  moreover have "map_of (mc_HMap (mm_inner m')) k' = map_of (mc_HMap (mm_inner m)) k'" if "k' \<noteq> k" for k'
    using h that by (auto simp: hash_swept_def split: if_splits)
  ultimately show thesis
    using that m' h assms(2) by (simp add: hash_swept_def)
qed

lemma sweepHashes_swept:
  assumes "distinct (map fst hs)" and "mm_clock m = (\<lambda>_. now)"
    and "\<And>k child. map_of hs k = Some child \<Longrightarrow> map_of (mc_HMap (mm_inner m)) k = Some child \<and> sweepable now child"
  shows "\<exists>m'. sweepHashes m hs = Some m' \<and> mm_clock m' = (\<lambda>_. now) \<and> mc_Map (mm_inner m') = mc_Map (mm_inner m)
    \<and> (\<forall>k. case map_of hs k of
          None \<Rightarrow> map_of (mc_HMap (mm_inner m')) k = map_of (mc_HMap (mm_inner m)) k
        | Some child \<Rightarrow> swept_to now child (map_of (mc_HMap (mm_inner m')) k))"
  using assms
proof (induction hs arbitrary: m)
  case (Cons p hs)
  obtain k child where p: "p = (k, child)" by (cases p)
  have here: "map_of (mc_HMap (mm_inner m)) k = Some child" "sweepable now child"
    using Cons.prems(3) [of k child] p by simp_all
  obtain m1 where m1: "sweepFields m k child = Some m1" "mm_clock m1 = (\<lambda>_. now)"
      "mc_Map (mm_inner m1) = mc_Map (mm_inner m)" "swept_to now child (map_of (mc_HMap (mm_inner m1)) k)"
      "\<And>k'. k' \<noteq> k \<Longrightarrow> map_of (mc_HMap (mm_inner m1)) k' = map_of (mc_HMap (mm_inner m)) k'"
    using sweepFields_swept_to [OF here(1) Cons.prems(2) here(2)] by blast
  have k: "map_of hs k = None" using Cons.prems(1) p by (simp add: map_of_eq_None_iff)
  have rest: "map_of (mc_HMap (mm_inner m1)) k' = Some ch \<and> sweepable now ch" if "map_of hs k' = Some ch" for k' ch
  proof -
    have "k' \<noteq> k" using that k by auto
    then show ?thesis using Cons.prems(3) [of k' ch] that p m1(5) by simp
  qed
  obtain m' where m': "sweepHashes m1 hs = Some m'" "mm_clock m' = (\<lambda>_. now)"
      "mc_Map (mm_inner m') = mc_Map (mm_inner m1)"
      and each: "\<And>k. case map_of hs k of
          None \<Rightarrow> map_of (mc_HMap (mm_inner m')) k = map_of (mc_HMap (mm_inner m1)) k
        | Some child \<Rightarrow> swept_to now child (map_of (mc_HMap (mm_inner m')) k)"
    using Cons.IH [OF _ m1(2) rest] Cons.prems(1) by auto
  have "case map_of (p # hs) k' of
          None \<Rightarrow> map_of (mc_HMap (mm_inner m')) k' = map_of (mc_HMap (mm_inner m)) k'
        | Some child \<Rightarrow> swept_to now child (map_of (mc_HMap (mm_inner m')) k')" for k'
    using each [of k'] k m1(4,5) p by (cases "k' = k") (auto split: option.split)
  with m1 m' p show ?case by simp
qed simp

lemma sweepPlain_swept:
  assumes "distinct (map fst ps)" and "mm_clock m = (\<lambda>_. now)"
  shows "mc_HMap (mm_inner (sweepPlain m ps)) = mc_HMap (mm_inner m)
    \<and> map_of (mc_Map (mm_inner (sweepPlain m ps))) k
       = (if \<exists>it. (k, it) \<in> set ps \<and> isExpired it now then None else map_of (mc_Map (mm_inner m)) k)"
  using assms
proof (induction ps arbitrary: m)
  case (Cons p ps)
  obtain j it where p: "p = (j, it)" by (cases p)
  let ?m = "m\<lparr>mm_tick := Suc (mm_tick m)\<rparr>"
  have now: "cacheNow m = (now, ?m)" using Cons.prems(2) by (simp add: cacheNow_def)
  have "mm_clock (if isExpired it now then cache_Del ?m j else ?m) = (\<lambda>_. now)"
    using Cons.prems(2) by (simp add: cache_Del_def withInner_def)
  with Cons.IH [OF _ this] Cons.prems(1) show ?case
    by (auto simp: p now cache_Del_def withInner_def AList.delete_conv')
qed simp


lemma plain_unexpired:
  assumes "distinct (map fst ps)"
  shows "(if \<exists>it. (k, it) \<in> set ps \<and> isExpired it now then None else map_of ps k) = unexpired now (map_of ps) k"
proof (cases "map_of ps k")
  case None
  then show ?thesis by (simp add: unexpired_def)
next
  case (Some it)
  then have "(k, it') \<in> set ps \<longleftrightarrow> it' = it" for it'
    using map_of_Some_iff [OF assms] by (metis option.inject)
  with Some show ?thesis by (simp add: unexpired_def)
qed

text \<open>
  What a sweep removes. A plain key is removed when it has expired and at no other time. A hash
  loses its expired fields, and its counter as many, if the counter is not used up on the way;
  when it is, the hash is dropped with every field it still has, live ones included. So a sweep is
  exact for a hash whose counter counts its fields, and it loses live fields of one whose counter
  has drifted below that, as deleting a field that is not there makes it.
\<close>

theorem sweep_drops_by_counter:
  assumes inv: "cache_inv m" and clk: "mm_clock m = (\<lambda>_. now)"
    and ready: "\<And>k child. map_of (mc_HMap (mm_inner m)) k = Some child \<Longrightarrow> sweepable now child"
  shows "\<exists>m'. cleanup m = Some m'
    \<and> sh_plain (abs_cache m') = unexpired now (sh_plain (abs_cache m))
    \<and> (\<forall>k. case map_of (mc_HMap (mm_inner m)) k of
          None \<Rightarrow> map_of (mc_HMap (mm_inner m')) k = None
        | Some child \<Rightarrow>
            if 1 \<le> counterOf child \<and> counterOf child \<le> expired_count now child
            then map_of (mc_HMap (mm_inner m')) k = None
            else \<exists>child'. map_of (mc_HMap (mm_inner m')) k = Some child'
              \<and> visible child' = unexpired now (visible child)
              \<and> counterOf child' = counterOf child - expired_count now child)"
proof -
  have d: "distinct (map fst (mc_HMap (mm_inner m)))" "distinct (map fst (mc_Map (mm_inner m)))"
    using inv by (simp_all add: cache_inv_def)
  obtain m1 where m1: "sweepHashes m (mc_HMap (mm_inner m)) = Some m1" "mm_clock m1 = (\<lambda>_. now)"
      "mc_Map (mm_inner m1) = mc_Map (mm_inner m)"
      and each: "\<And>k. case map_of (mc_HMap (mm_inner m)) k of
          None \<Rightarrow> map_of (mc_HMap (mm_inner m1)) k = map_of (mc_HMap (mm_inner m)) k
        | Some child \<Rightarrow> swept_to now child (map_of (mc_HMap (mm_inner m1)) k)"
    using sweepHashes_swept [OF d(1) clk] ready by blast
  define m' where "m' = sweepPlain m1 (mc_Map (mm_inner m1))"
  have plain: "mc_HMap (mm_inner m') = mc_HMap (mm_inner m1)"
      "map_of (mc_Map (mm_inner m')) k = unexpired now (map_of (mc_Map (mm_inner m))) k" for k
    unfolding plain_unexpired [OF d(2), symmetric] m'_def m1(3)
    using sweepPlain_swept [OF d(2) m1(2), of k] m1(3) by auto
  have "cleanup m = Some m'" using m1(1) by (simp add: cleanup_def m'_def)
  moreover have "sh_plain (abs_cache m') = unexpired now (sh_plain (abs_cache m))"
    by (simp add: abs_cache_def fun_eq_iff plain(2))
  moreover have "case map_of (mc_HMap (mm_inner m)) k of
          None \<Rightarrow> map_of (mc_HMap (mm_inner m')) k = None
        | Some child \<Rightarrow>
            if 1 \<le> counterOf child \<and> counterOf child \<le> expired_count now child
            then map_of (mc_HMap (mm_inner m')) k = None
            else \<exists>child'. map_of (mc_HMap (mm_inner m')) k = Some child'
              \<and> visible child' = unexpired now (visible child)
              \<and> counterOf child' = counterOf child - expired_count now child" for k
    using each [of k] unfolding plain(1) swept_to_def by (simp split: option.splits)
  ultimately show ?thesis by blast
qed

text \<open>
  A hash with a field that expires early and one that stays, after a deletion of a field that it
  never had: the counter is one, and the sweep drops the field that stays.
\<close>

definition demo_hash :: childContainer where
  "demo_hash = [(''a'', newMemoryCacheItemEX ''1'' 10), (yaMapLen, newMemoryCacheItem ''1''),
     (''b'', newMemoryCacheItemEX ''2'' 1000)]"

definition demo_cache :: memory where
  "demo_cache = \<lparr>mm_inner = \<lparr>mc_HMap = [(''h'', demo_hash)], mc_Map = []\<rparr>, mm_clock = (\<lambda>_. 500), mm_tick = 2\<rparr>"

lemma yaMapLen_other [simp]: "yaMapLen \<noteq> [c]" "[c] \<noteq> yaMapLen"
  by (simp_all add: yaMapLen_def)

lemma demo_cache_reached:
  "\<exists>rs m. cache_calls [OpHSetEX ''h'' ''a'' ''1'' 10, OpHSetEX ''h'' ''b'' ''2'' 1000, OpHDelSingle ''h'' ''c'']
      (NewMemory NewMemoryContainer (\<lambda>_. 0)) = Some (rs, m) \<and> demo_cache = m\<lparr>mm_clock := \<lambda>_. 500\<rparr>"
  by (simp add: demo_cache_def demo_hash_def HSetEX_def HDelSingle_def incrementLen_def decrementLen_def getLen_def
      getChildMap_def storeLen_def putChild_def withInner_def cacheNow_def NewMemory_def NewMemoryContainer_def
      newMemoryCacheItem_def newMemoryCacheItemEX_def Atoi_def ParseInt_def ParseUint_def digitOf_def formatInt_def
      formatNat.simps numeral_simps timeAdd_def Let_def int64_def apfst_def done_reply_def)

lemma demo_hash_counter: "counterOf demo_hash = 1" "expired_count 500 demo_hash = 1"
  by (simp_all add: demo_hash_def counterOf_def counterItem_def Atoi_def ParseInt_def ParseUint_def digitOf_def
      newMemoryCacheItem_def newMemoryCacheItemEX_def isExpired_def Let_def)

theorem sweep_drops_by_counter_witness:
  "\<exists>m'. cleanup demo_cache = Some m' \<and> map_of (mc_HMap (mm_inner m')) ''h'' = None
    \<and> visible demo_hash ''b'' = Some (newMemoryCacheItemEX ''2'' 1000)
    \<and> \<not> isExpired (newMemoryCacheItemEX ''2'' 1000) 500"
proof -
  have hash: "map_of (mc_HMap (mm_inner demo_cache)) k = Some child \<longleftrightarrow> k = ''h'' \<and> child = demo_hash" for k child
    by (auto simp: demo_cache_def)
  have "sweepable 500 demo_hash"
    unfolding sweepable_def demo_hash_counter
    by (simp add: demo_hash_def sane_counter_def newMemoryCacheItem_def minInt64_def maxInt64_def)
  moreover from this have "cache_inv demo_cache"
    by (simp add: cache_inv_def hash sweepable_def) (simp add: demo_cache_def)
  moreover have "mm_clock demo_cache = (\<lambda>_. 500)" by (simp add: demo_cache_def)
  ultimately obtain m' where m': "cleanup demo_cache = Some m'"
      and each: "\<And>k. case map_of (mc_HMap (mm_inner demo_cache)) k of
          None \<Rightarrow> map_of (mc_HMap (mm_inner m')) k = None
        | Some child \<Rightarrow>
            if 1 \<le> counterOf child \<and> counterOf child \<le> expired_count 500 child
            then map_of (mc_HMap (mm_inner m')) k = None
            else \<exists>child'. map_of (mc_HMap (mm_inner m')) k = Some child'
              \<and> visible child' = unexpired 500 (visible child)
              \<and> counterOf child' = counterOf child - expired_count 500 child"
    using sweep_drops_by_counter [of demo_cache 500] by (auto simp: hash)
  have "map_of (mc_HMap (mm_inner demo_cache)) ''h'' = Some demo_hash" by (simp add: hash)
  with each [of "''h''"] have "map_of (mc_HMap (mm_inner m')) ''h'' = None" by (simp add: demo_hash_counter)
  with m' show ?thesis
    by (simp add: visible_def demo_hash_def newMemoryCacheItemEX_def isExpired_def)
qed

end
