(* ===== verification/Rate_Limit.thy ===== *)
theory Rate_Limit
  imports Memory_Cache_Props
begin

text \<open>
  The fixed-window rate limiter (\<open>yaratelimit/yaratelimit.go\<close>) over a cache it only sees through
  two operations: reading and storing a plain key. A record is the text of a count of eight bits and
  of the second of the first hit of its window. The operations that read the clock take the readings
  as arguments; the texts of the errors are not modelled.

  The behaviour is proved over the contracts \<open>kv_cache\<close> and \<open>reliable_cache\<close>, and stated for the
  in-memory cache through their interpretation.
\<close>

section \<open>Records\<close>

record storage =
  st_Limit :: u8
  st_FirstRequest :: int

record rateLimit =
  rl_Limit :: u8
  rl_Rate :: duration

datatype rateErr = CacheFailed cacheErr | InvalidFormat | BadLimit numError | BadTime numError

definition NewRateLimit :: "u8 \<Rightarrow> duration \<Rightarrow> rateLimit" where
  "NewRateLimit limit rate = \<lparr>rl_Limit = limit, rl_Rate = rate\<rparr>"

definition FormatKey :: "u64 \<Rightarrow> string \<Rightarrow> string" where
  "FormatKey i grp = ''rate-limit-'' @ formatNat (unat i) @ CHR ''-'' # grp"

definition FormatValue :: "u8 \<Rightarrow> int \<Rightarrow> string" where
  "FormatValue limit firstRequest = formatNat (unat limit) @ CHR '','' # formatInt firstRequest"

text \<open>\<open>t.Unix()\<close> and \<open>time.Unix(sec, 0)\<close>.\<close>

definition unixSeconds :: "time \<Rightarrow> int" where
  "unixSeconds t = int64 (t div 10 ^ 9)"

definition fromUnix :: "int \<Rightarrow> time" where
  "fromUnix sec = sec * 10 ^ 9"

section \<open>Operations\<close>

definition rl_Get :: "('c \<Rightarrow> string \<Rightarrow> cacheErr + string) \<Rightarrow> 'c \<Rightarrow> u64 \<Rightarrow> string \<Rightarrow> rateErr + storage" where
  "rl_Get get c i grp =
     (case get c (FormatKey i grp) of
        Inl er \<Rightarrow> Inl (CacheFailed er)
      | Inr value \<Rightarrow>
          (case splitOn (CHR '','') value of
             [limit_text, first_text] \<Rightarrow>
               (case ParseUint limit_text 8 of
                  Inl er \<Rightarrow> Inl (BadLimit er)
                | Inr limit \<Rightarrow>
                    (case ParseInt first_text 64 of
                       Inl er \<Rightarrow> Inl (BadTime er)
                     | Inr firstRequest \<Rightarrow>
                         Inr \<lparr>st_Limit = of_nat limit, st_FirstRequest = firstRequest\<rparr>))
           | _ \<Rightarrow> Inl InvalidFormat))"

definition storeRecord ::
  "('c \<Rightarrow> string \<Rightarrow> string \<Rightarrow> duration \<Rightarrow> (cacheErr + unit) \<times> 'c) \<Rightarrow> 'c \<Rightarrow> u64 \<Rightarrow> string \<Rightarrow> string
     \<Rightarrow> (rateErr + unit) \<times> 'c" where
  "storeRecord set_val c i grp value =
     (case set_val c (FormatKey i grp) value 0 of
        (Inl er, c) \<Rightarrow> (Inl (CacheFailed er), c)
      | (Inr _, c) \<Rightarrow> (Inr (), c))"

definition Refresh ::
  "('c \<Rightarrow> string \<Rightarrow> string \<Rightarrow> duration \<Rightarrow> (cacheErr + unit) \<times> 'c) \<Rightarrow> 'c \<Rightarrow> u64 \<Rightarrow> string \<Rightarrow> time
     \<Rightarrow> (rateErr + unit) \<times> 'c" where
  "Refresh set_val c i grp now =
     storeRecord set_val c i grp (formatInt 1 @ CHR '','' # formatInt (unixSeconds now))"

definition CheckBanned ::
  "('c \<Rightarrow> string \<Rightarrow> cacheErr + string) \<Rightarrow> rateLimit \<Rightarrow> 'c \<Rightarrow> u64 \<Rightarrow> string \<Rightarrow> rateErr + bool" where
  "CheckBanned get r c i grp =
     (case rl_Get get c i grp of
        Inl er \<Rightarrow> Inl er
      | Inr st \<Rightarrow> Inr (st_Limit st + 1 > rl_Limit r))"

definition refreshed :: "(rateErr + unit) \<times> 'c \<Rightarrow> (rateErr + bool) \<times> 'c" where
  "refreshed res = (case res of (Inl er, c) \<Rightarrow> (Inl er, c) | (Inr _, c) \<Rightarrow> (Inr False, c))"

definition in_window :: "rateLimit \<Rightarrow> storage \<Rightarrow> time \<Rightarrow> bool" where
  "in_window r st now \<longleftrightarrow> timeAdd now (int64 (- rl_Rate r)) < fromUnix (st_FirstRequest st)"

text \<open>
  \<open>Increment\<close> reads the record and decides, and then stores what it decided; no lock is held from one to
  the other. A decision is to refuse, to store a new count, or to begin a window.
\<close>

datatype verdict = Refuse | Count u8 int | Restart

definition incrementLook ::
  "('c \<Rightarrow> string \<Rightarrow> cacheErr + string) \<Rightarrow> rateLimit \<Rightarrow> 'c \<Rightarrow> u64 \<Rightarrow> string \<Rightarrow> time \<Rightarrow> verdict" where
  "incrementLook get r c i grp checkedAt =
     (case rl_Get get c i grp of
        Inl _ \<Rightarrow> Restart
      | Inr st \<Rightarrow>
          if in_window r st checkedAt then
            if st_Limit st + 1 > rl_Limit r then Refuse else Count (st_Limit st + 1) (st_FirstRequest st)
          else Restart)"

definition incrementAct ::
  "('c \<Rightarrow> string \<Rightarrow> string \<Rightarrow> duration \<Rightarrow> (cacheErr + unit) \<times> 'c) \<Rightarrow> rateLimit \<Rightarrow> 'c \<Rightarrow> u64 \<Rightarrow> string \<Rightarrow> time
     \<Rightarrow> verdict \<Rightarrow> (rateErr + bool) \<times> 'c" where
  "incrementAct set_val r c i grp refreshedAt v =
     (case v of
        Refuse \<Rightarrow> (Inr True, c)
      | Count count first \<Rightarrow>
          (case storeRecord set_val c i grp (FormatValue count first) of
             (Inl er, c) \<Rightarrow> (Inl er, c)
           | (Inr _, c) \<Rightarrow> (Inr (count > rl_Limit r), c))
      | Restart \<Rightarrow> refreshed (Refresh set_val c i grp refreshedAt))"

text \<open>The two instants are the readings of the check of the window and of the refresh.\<close>

definition Increment ::
  "('c \<Rightarrow> string \<Rightarrow> cacheErr + string) \<Rightarrow> ('c \<Rightarrow> string \<Rightarrow> string \<Rightarrow> duration \<Rightarrow> (cacheErr + unit) \<times> 'c)
     \<Rightarrow> rateLimit \<Rightarrow> 'c \<Rightarrow> u64 \<Rightarrow> string \<Rightarrow> time \<Rightarrow> time \<Rightarrow> (rateErr + bool) \<times> 'c" where
  "Increment get set_val r c i grp checkedAt refreshedAt =
     incrementAct set_val r c i grp refreshedAt (incrementLook get r c i grp checkedAt)"

lemmas Increment_steps = Increment_def incrementLook_def incrementAct_def

section \<open>Keys and values\<close>

lemma FormatKey_inj: "FormatKey i g = FormatKey j h \<longleftrightarrow> i = j \<and> g = h"
proof
  assume eq: "FormatKey i g = FormatKey j h"
  have "takeWhile (\<lambda>c. c \<noteq> CHR ''-'') (formatNat n @ CHR ''-'' # xs) = formatNat n"
       "dropWhile (\<lambda>c. c \<noteq> CHR ''-'') (formatNat n @ CHR ''-'' # xs) = CHR ''-'' # xs" for n xs
    using formatNat_no_sign(1) [of n] by (auto simp: takeWhile_append dropWhile_append takeWhile_eq_all_conv)
  with eq have "formatNat (unat i) = formatNat (unat j)" "g = h"
    by (simp_all add: FormatKey_def) (metis list.inject)+
  moreover have "ParseUint (formatNat (unat k)) 64 = Inr (unat k)" for k :: u64
    using unsigned_less [of k] by (intro ParseUint_format) simp
  ultimately show "i = j \<and> g = h" by (metis Inr_inject word_unat_eq_iff)
qed simp

text \<open>What is stored for a record is read back as that record.\<close>

definition holds :: "('c \<Rightarrow> string \<Rightarrow> cacheErr + string) \<Rightarrow> 'c \<Rightarrow> u64 \<Rightarrow> string \<Rightarrow> u8 \<Rightarrow> int \<Rightarrow> bool" where
  "holds get c i grp limit firstRequest \<longleftrightarrow> get c (FormatKey i grp) = Inr (FormatValue limit firstRequest)"

lemma rl_Get_holds:
  assumes "holds get c i g l f" and "in_int64 f"
  shows "rl_Get get c i g = Inr \<lparr>st_Limit = l, st_FirstRequest = f\<rparr>"
proof -
  have "ParseUint (formatNat (unat l)) 8 = Inr (unat l)"
    using unsigned_less [of l] by (intro uint8_numeral.parses) simp
  then show ?thesis
    using assms by (simp add: rl_Get_def holds_def FormatValue_def uint8_numeral.fields_split int_numeral.field_alone
        int_numeral.parses)
qed

lemma in_int64_unixSeconds [simp]: "in_int64 (unixSeconds t)"
  by (simp add: unixSeconds_def)

lemma Refresh_value: "formatInt 1 @ CHR '','' # formatInt s = FormatValue 1 s"
  by (simp add: FormatValue_def formatInt_def)

section \<open>One hit\<close>

text \<open>The count after a refresh, or after a hit that is let through.\<close>

context reliable_cache
begin

lemma storeRecord_eq: "storeRecord set_val c i g v = (Inr (), snd (set_val c (FormatKey i g) v 0))"
  using set_succeeds [of c "FormatKey i g" v 0] by (auto simp: storeRecord_def)

lemma storeRecord_holds: "holds get (snd (storeRecord set_val c i g (FormatValue l f))) i g l f"
  by (simp add: holds_def storeRecord_eq stored)

lemma storeRecord_other:
  "(j, h) \<noteq> (i, g) \<Longrightarrow> get (snd (storeRecord set_val c i g v)) (FormatKey j h) = get c (FormatKey j h)"
  by (auto simp: storeRecord_eq FormatKey_inj intro: untouched)

lemma Refresh_eq:
  "Refresh set_val c i g now
     = (Inr (), snd (storeRecord set_val c i g (FormatValue 1 (unixSeconds now))))"
  by (simp add: Refresh_def Refresh_value) (simp add: storeRecord_eq)

lemma Increment_first:
  assumes "get c (FormatKey i g) = Inl er"
  shows "fst (Increment get set_val r c i g t u) = Inr False
    \<and> holds get (snd (Increment get set_val r c i g t u)) i g 1 (unixSeconds u)"
  using assms storeRecord_holds [of c i g 1 "unixSeconds u"]
  by (simp add: Increment_steps rl_Get_def refreshed_def Refresh_eq)

lemma Increment_expired:
  assumes "holds get c i g l f" and "in_int64 f" and "\<not> in_window r \<lparr>st_Limit = l, st_FirstRequest = f\<rparr> t"
  shows "fst (Increment get set_val r c i g t u) = Inr False
    \<and> holds get (snd (Increment get set_val r c i g t u)) i g 1 (unixSeconds u)"
  using assms storeRecord_holds [of c i g 1 "unixSeconds u"]
  by (simp add: Increment_steps rl_Get_holds refreshed_def Refresh_eq)

lemma Increment_window:
  assumes "holds get c i g l f" and "in_int64 f" and "in_window r \<lparr>st_Limit = l, st_FirstRequest = f\<rparr> t"
  shows "fst (Increment get set_val r c i g t u) = Inr (l + 1 > rl_Limit r)
    \<and> holds get (snd (Increment get set_val r c i g t u)) i g (if l + 1 > rl_Limit r then l else l + 1) f"
  using assms storeRecord_holds [of c i g "l + 1" f]
  by (simp add: Increment_steps rl_Get_holds storeRecord_eq)

lemma Increment_other:
  assumes "(j, h) \<noteq> (i, g)"
  shows "get (snd (Increment get set_val r c i g t u)) (FormatKey j h) = get c (FormatKey j h)"
  using storeRecord_other [OF assms]
  by (simp add: Increment_steps refreshed_def Refresh_eq storeRecord_eq split: sum.split)

end

section \<open>Many hits\<close>

text \<open>Hits of any subjects, one after the other, and the decisions on the hits of one subject.\<close>

record hit =
  h_id :: u64
  h_group :: string
  h_checkedAt :: time
  h_refreshedAt :: time

fun hits_on ::
  "('c \<Rightarrow> string \<Rightarrow> cacheErr + string) \<Rightarrow> ('c \<Rightarrow> string \<Rightarrow> string \<Rightarrow> duration \<Rightarrow> (cacheErr + unit) \<times> 'c)
     \<Rightarrow> rateLimit \<Rightarrow> u64 \<Rightarrow> string \<Rightarrow> 'c \<Rightarrow> hit list \<Rightarrow> (rateErr + bool) list" where
  "hits_on get set_val r i g c [] = []"
| "hits_on get set_val r i g c (h # hs) =
     (let (res, c) = Increment get set_val r c (h_id h) (h_group h) (h_checkedAt h) (h_refreshedAt h);
          rest = hits_on get set_val r i g c hs
      in if h_id h = i \<and> h_group h = g then res # rest else rest)"

definition of_subject :: "u64 \<Rightarrow> string \<Rightarrow> hit \<Rightarrow> bool" where
  "of_subject i g h \<longleftrightarrow> h_id h = i \<and> h_group h = g"

text \<open>The decisions on \<open>n\<close> hits of a window when \<open>k\<close> of them are within the limit.\<close>

definition let_through :: "nat \<Rightarrow> nat \<Rightarrow> (rateErr + bool) list" where
  "let_through k n = replicate (min n k) (Inr False) @ replicate (n - k) (Inr True)"

lemma let_through_simps [simp]:
  "let_through k 0 = []" "let_through (Suc k) (Suc n) = Inr False # let_through k n"
  "let_through 0 (Suc n) = Inr True # let_through 0 n"
  by (simp_all add: let_through_def)

definition budget_of :: "rateLimit \<Rightarrow> nat" where
  "budget_of r = max 1 (unat (rl_Limit r))"

lemma next_count:
  assumes "rl_Limit r \<noteq> 255" and "unat l \<le> budget_of r" and "1 \<le> unat l"
  shows "l + 1 > rl_Limit r \<longleftrightarrow> unat l = budget_of r \<or> rl_Limit r = 0"
    and "\<not> l + 1 > rl_Limit r \<Longrightarrow> unat (l + 1) = unat l + 1"
proof -
  have "unat (rl_Limit r) \<noteq> 255"
    using assms(1) word_unat_eq_iff [of "rl_Limit r" 255] by simp
  moreover have "unat (rl_Limit r) < 256" using unsigned_less [of "rl_Limit r"] by simp
  ultimately have small: "unat (rl_Limit r) \<le> 254" "unat l \<le> 254"
    using assms(2) by (auto simp: budget_of_def)
  then have Suc: "unat (l + 1) = unat l + 1" by (simp add: unat_word_ariths)
  then show "\<not> l + 1 > rl_Limit r \<Longrightarrow> unat (l + 1) = unat l + 1" by simp
  show "l + 1 > rl_Limit r \<longleftrightarrow> unat l = budget_of r \<or> rl_Limit r = 0"
    unfolding word_less_nat_alt Suc using assms(2,3) by (auto simp: budget_of_def unat_eq_0)
qed

lemma never_past_255: "rl_Limit r = 255 \<Longrightarrow> \<not> (l :: u8) > rl_Limit r"
proof -
  have "unat l < 256" using unsigned_less [of l] by simp
  then show "rl_Limit r = 255 \<Longrightarrow> \<not> l > rl_Limit r" by (simp add: not_less word_le_nat_alt)
qed

context reliable_cache
begin

lemma hits_in_window:
  assumes "holds get c i g l f" and "in_int64 f" and "1 \<le> unat l" and "unat l \<le> budget_of r" and "rl_Limit r \<noteq> 255"
    and "\<And>h n. h \<in> set hs \<Longrightarrow> of_subject i g h \<Longrightarrow> in_window r \<lparr>st_Limit = n, st_FirstRequest = f\<rparr> (h_checkedAt h)"
  shows "hits_on get set_val r i g c hs = let_through (budget_of r - unat l) (length (filter (of_subject i g) hs))"
  using assms
proof (induction hs arbitrary: c l)
  case (Cons h hs)
  let ?step = "Increment get set_val r c (h_id h) (h_group h) (h_checkedAt h) (h_refreshedAt h)"
  note later = Cons.prems(6) [OF list.set_intros(2)]
  show ?case
  proof (cases "of_subject i g h")
    case False
    have "holds get (snd ?step) i g l f"
      using Increment_other [of i g "h_id h" "h_group h"] Cons.prems(1) False
      by (auto simp: holds_def of_subject_def)
    from Cons.IH [OF this Cons.prems(2-5) later] False show ?thesis
      by (auto simp: split_def Let_def of_subject_def)
  next
    case True
    then have h: "h_id h = i" "h_group h = g" by (simp_all add: of_subject_def)
    note step = Increment_window [OF Cons.prems(1,2) Cons.prems(6) [OF list.set_intros(1) True], of "h_refreshedAt h",
        unfolded h [symmetric]]
    note num = next_count [OF Cons.prems(5,4,3)]
    show ?thesis
    proof (cases "l + 1 > rl_Limit r")
      case banned: True
      then have full: "budget_of r - unat l = 0" using num(1) Cons.prems(3) by (auto simp: budget_of_def)
      from Cons.IH [of "snd ?step" l] step banned Cons.prems(2-5) later True show ?thesis
        by (auto simp: split_def Let_def h full)
    next
      case allowed: False
      then have more: "unat (l + 1) = unat l + 1" "unat l \<noteq> budget_of r" using num by auto
      then have "1 \<le> unat (l + 1)" "unat (l + 1) \<le> budget_of r"
          "budget_of r - unat l = Suc (budget_of r - unat (l + 1))"
        using Cons.prems(4) by auto
      moreover have "holds get (snd ?step) i g (l + 1) f" using step allowed by (simp add: h)
      ultimately show ?thesis
        using Cons.IH [of "snd ?step" "l + 1"] step allowed Cons.prems(2,5) later True
        by (auto simp: split_def Let_def h)
    qed
  qed
qed simp

lemma hits_never_banned:
  assumes "get c (FormatKey i g) = Inl er \<or> holds get c i g l f \<and> in_int64 f" and "rl_Limit r = 255"
  shows "hits_on get set_val r i g c hs = replicate (length (filter (of_subject i g) hs)) (Inr False)"
  using assms(1)
proof (induction hs arbitrary: c l f)
  case (Cons h hs)
  let ?step = "Increment get set_val r c (h_id h) (h_group h) (h_checkedAt h) (h_refreshedAt h)"
  show ?case
  proof (cases "of_subject i g h")
    case False
    then have "get (snd ?step) (FormatKey i g) = get c (FormatKey i g)"
      by (intro Increment_other) (auto simp: of_subject_def)
    with Cons.prems have "get (snd ?step) (FormatKey i g) = Inl er \<or> holds get (snd ?step) i g l f \<and> in_int64 f"
      by (simp add: holds_def)
    from Cons.IH [OF this] False show ?thesis by (auto simp: split_def Let_def of_subject_def)
  next
    case True
    then have h: "h_id h = i" "h_group h = g" by (simp_all add: of_subject_def)
    have "fst ?step = Inr False \<and> (\<exists>l f. holds get (snd ?step) i g l f \<and> in_int64 f)"
    proof (cases "get c (FormatKey i g) = Inl er")
      case True
      from Increment_first [OF this, of r "h_checkedAt h" "h_refreshedAt h"] show ?thesis
        by (auto simp: h intro: in_int64_unixSeconds)
    next
      case False
      with Cons.prems have rec: "holds get c i g l f" "in_int64 f" by auto
      show ?thesis
        using Increment_window [OF rec, of r "h_checkedAt h" "h_refreshedAt h"] never_past_255 [OF assms(2)]
          Increment_expired [OF rec, of r "h_checkedAt h" "h_refreshedAt h"] rec(2)
        by (cases "in_window r \<lparr>st_Limit = l, st_FirstRequest = f\<rparr> (h_checkedAt h)")
          (simp_all add: h, (blast intro: in_int64_unixSeconds)+)
    qed
    then obtain l' f' where "fst ?step = Inr False" "holds get (snd ?step) i g l' f' \<and> in_int64 f'" by blast
    with Cons.IH [of "snd ?step" l' f'] True show ?thesis
      by (auto simp: split_def Let_def h)
  qed
qed simp

end


section \<open>Hits at the same time\<close>

text \<open>Goroutines that each make one hit of a subject; a step of one is its read or its store.\<close>

datatype hitPhase = HitStarts hit | HitLooked hit verdict | HitDone "rateErr + bool"

definition hit_step ::
  "('c \<Rightarrow> string \<Rightarrow> cacheErr + string) \<Rightarrow> ('c \<Rightarrow> string \<Rightarrow> string \<Rightarrow> duration \<Rightarrow> (cacheErr + unit) \<times> 'c)
     \<Rightarrow> rateLimit \<Rightarrow> nat \<Rightarrow> 'c \<times> hitPhase list \<Rightarrow> 'c \<times> hitPhase list" where
  "hit_step get set_val r j s =
     (let (c, ws) = s in
      if length ws \<le> j then s
      else case ws ! j of
        HitStarts h \<Rightarrow> (c, ws[j := HitLooked h (incrementLook get r c (h_id h) (h_group h) (h_checkedAt h))])
      | HitLooked h v \<Rightarrow>
          let (res, c) = incrementAct set_val r c (h_id h) (h_group h) (h_refreshedAt h) v in (c, ws[j := HitDone res])
      | HitDone _ \<Rightarrow> s)"

definition hits_race ::
  "('c \<Rightarrow> string \<Rightarrow> cacheErr + string) \<Rightarrow> ('c \<Rightarrow> string \<Rightarrow> string \<Rightarrow> duration \<Rightarrow> (cacheErr + unit) \<times> 'c)
     \<Rightarrow> rateLimit \<Rightarrow> nat list \<Rightarrow> 'c \<times> hitPhase list \<Rightarrow> 'c \<times> hitPhase list" where
  "hits_race get set_val r js s = fold (hit_step get set_val r) js s"

context reliable_cache
begin

lemma all_look:
  assumes "holds get c i g l f" and "in_int64 f" and "\<not> l + 1 > rl_Limit r"
    and "\<forall>h \<in> set hs. h_id h = i \<and> h_group h = g \<and> in_window r \<lparr>st_Limit = l, st_FirstRequest = f\<rparr> (h_checkedAt h)"
    and "k \<le> length hs"
  shows "hits_race get set_val r [0..<k] (c, map HitStarts hs)
    = (c, map (\<lambda>h. HitLooked h (Count (l + 1) f)) (take k hs) @ map HitStarts (drop k hs))"
  using assms(5)
proof (induction k)
  case 0
  then show ?case by (simp add: hits_race_def)
next
  case (Suc k)
  then have "hs ! k \<in> set hs" "drop k hs = hs ! k # drop (Suc k) hs" "take (Suc k) hs = take k hs @ [hs ! k]"
    by (simp_all add: Cons_nth_drop_Suc take_Suc_conv_app_nth)
  moreover from this(1) have "incrementLook get r c (h_id (hs ! k)) (h_group (hs ! k)) (h_checkedAt (hs ! k)) = Count (l + 1) f"
    using assms(3,4) by (simp add: incrementLook_def rl_Get_holds [OF assms(1,2)])
  ultimately show ?case
    using Suc by (simp add: hits_race_def) (simp add: hit_step_def nth_append list_update_append)
qed

lemma all_act:
  assumes "\<not> l + 1 > rl_Limit r" and "\<forall>h \<in> set hs. h_id h = i \<and> h_group h = g" and "k \<le> length hs"
  shows "\<exists>c'. hits_race get set_val r [0..<k] (c, map (\<lambda>h. HitLooked h (Count (l + 1) f)) hs)
      = (c', replicate k (HitDone (Inr False)) @ map (\<lambda>h. HitLooked h (Count (l + 1) f)) (drop k hs))
    \<and> (0 < k \<longrightarrow> holds get c' i g (l + 1) f)"
  using assms(3)
proof (induction k)
  case 0
  then show ?case by (simp add: hits_race_def)
next
  case (Suc k)
  then obtain c1 where c1: "hits_race get set_val r [0..<k] (c, map (\<lambda>h. HitLooked h (Count (l + 1) f)) hs)
      = (c1, replicate k (HitDone (Inr False)) @ map (\<lambda>h. HitLooked h (Count (l + 1) f)) (drop k hs))" by auto
  have "hs ! k \<in> set hs" "drop k hs = hs ! k # drop (Suc k) hs" using Suc.prems by (simp_all add: Cons_nth_drop_Suc)
  with c1 assms(1,2) show ?case
    by (simp add: hits_race_def)
      (simp add: hit_step_def nth_append list_update_append incrementAct_def storeRecord_eq replicate_append_same
        storeRecord_holds [unfolded storeRecord_eq snd_conv])
qed

end

text \<open>
  Hits of a subject that read the record before any of them has stored its count are all let through
  while one more is within the limit, however many they are, and leave the count of a single hit.
\<close>

theorem concurrent_hits_all_pass:
  assumes "holds cache_Get m i g l f" and "in_int64 f" and "\<not> l + 1 > rl_Limit r" and "hs \<noteq> []"
    and "\<forall>h \<in> set hs. h_id h = i \<and> h_group h = g \<and> in_window r \<lparr>st_Limit = l, st_FirstRequest = f\<rparr> (h_checkedAt h)"
  shows "\<exists>m'. hits_race cache_Get cache_Set r ([0..<length hs] @ [0..<length hs]) (m, map HitStarts hs)
      = (m', replicate (length hs) (HitDone (Inr False))) \<and> holds cache_Get m' i g (l + 1) f"
  using memory_cache.all_look [OF assms(1-3,5) order_refl] memory_cache.all_act [OF assms(3) _ order_refl, of hs i g m f] assms(4,5)
  by (simp add: hits_race_def)

theorem concurrent_hits_all_pass_witness:
  "let m = snd (cache_Set (NewMemory NewMemoryContainer (\<lambda>_. 0)) (FormatKey 7 ''a'') (FormatValue 1 0) 0);
       h = \<lparr>h_id = 7, h_group = ''a'', h_checkedAt = 10 ^ 9, h_refreshedAt = 10 ^ 9\<rparr>
   in \<exists>m'. hits_race cache_Get cache_Set (NewRateLimit 2 (60 * 10 ^ 9)) [0, 1, 2, 0, 1, 2]
       (m, [HitStarts h, HitStarts h, HitStarts h])
     = (m', [HitDone (Inr False), HitDone (Inr False), HitDone (Inr False)])"
proof -
  let ?m = "snd (cache_Set (NewMemory NewMemoryContainer (\<lambda>_. 0)) (FormatKey 7 ''a'') (FormatValue 1 0) 0)"
  let ?h = "\<lparr>h_id = 7, h_group = ''a'', h_checkedAt = 10 ^ 9, h_refreshedAt = 10 ^ 9\<rparr>"
  have "holds cache_Get ?m 7 ''a'' 1 0" unfolding holds_def by (rule memory_cache.stored)
  from concurrent_hits_all_pass [OF this, of "NewRateLimit 2 (60 * 10 ^ 9)" "[?h, ?h, ?h]"] show ?thesis
    by (simp add: NewRateLimit_def in_window_def timeAdd_def fromUnix_def int64_def in_int64_def minInt64_def maxInt64_def
        upt_rec [of 0] upt_rec [of 1] upt_rec [of 2] numeral_3_eq_3 numeral_2_eq_2 Let_def) auto
qed

section \<open>The limiter over the in-memory cache\<close>

text \<open>
  C28. In a window, hits made one after the other are let through up to the limit and no further. Take the
  limiter over the in-memory cache, and let each call of \<open>Increment\<close> end before the next begins: the
  code reads the record and stores it in two calls of the cache with no lock held between them, and hits
  that overlap can all be let through (\<open>concurrent_hits_all_pass\<close>). Let a subject without a record make the
  first hit of a window, and then any hits be made, by it and by others in any order, those of the subject
  inside the window. Of the hits of the subject the first ones are let through, as many as the limit says,
  and all the later ones are banned; other subjects change nothing. So the hit that makes the count reach
  the limit is let through, where the comment on \<open>Increment\<close> says that it is banned (\<open>count >= Limit\<close>). The
  first hit is let through even when the limit is zero, and a limit of 255 bans nobody, because the count
  of eight bits wraps before it exceeds the limit.
\<close>

theorem window_lets_limit_through:
  assumes none: "cache_Get m (FormatKey i g) = Inl er" and first: "h_id h = i" "h_group h = g"
    and window: "\<And>h'. h' \<in> set hs \<Longrightarrow> h_id h' = i \<Longrightarrow> h_group h' = g
      \<Longrightarrow> timeAdd (h_checkedAt h') (int64 (- rl_Rate r)) < fromUnix (unixSeconds (h_refreshedAt h))"
    and n: "n = length (filter (\<lambda>h. h_id h = i \<and> h_group h = g) (h # hs))"
  shows "hits_on cache_Get cache_Set r i g m (h # hs)
    = (if rl_Limit r = 255 then replicate n (Inr False)
       else let k = max 1 (unat (rl_Limit r)) in replicate (min n k) (Inr False) @ replicate (n - k) (Inr True))"
proof (cases "rl_Limit r = 255")
  case True
  then show ?thesis
    using memory_cache.hits_never_banned [OF disjI1 [OF none] True, of "h # hs"] n
    by (simp add: of_subject_def [abs_def])
next
  case False
  let ?step = "Increment cache_Get cache_Set r m (h_id h) (h_group h) (h_checkedAt h) (h_refreshedAt h)"
  define hits where "hits = length (filter (of_subject i g) hs)"
  have nh: "n = Suc hits" using n first by (simp add: hits_def of_subject_def [abs_def])
  have step: "fst ?step = Inr False" "holds cache_Get (snd ?step) i g 1 (unixSeconds (h_refreshedAt h))"
    using memory_cache.Increment_first [OF none, of r "h_checkedAt h" "h_refreshedAt h"] first by simp_all
  have later: "in_window r \<lparr>st_Limit = n, st_FirstRequest = unixSeconds (h_refreshedAt h)\<rparr> (h_checkedAt h')"
    if "h' \<in> set hs" "of_subject i g h'" for h' n
    using window [OF that(1)] that(2) by (simp add: of_subject_def in_window_def)
  have one: "1 \<le> unat (1 :: u8)" "unat (1 :: u8) \<le> budget_of r" by (simp_all add: budget_of_def)
  have "hits_on cache_Get cache_Set r i g (snd ?step) hs = let_through (budget_of r - unat (1 :: u8)) hits"
    unfolding hits_def
    by (rule memory_cache.hits_in_window [OF step(2) in_int64_unixSeconds one False later])
  then have "hits_on cache_Get cache_Set r i g m (h # hs) = let_through (budget_of r) n"
    using step(1) first one(2) unfolding nh
    by (cases "budget_of r") (simp_all add: split_def Let_def)
  with False show ?thesis by (simp add: let_through_def budget_of_def Let_def del: hits_on.simps)
qed

theorem window_lets_limit_through_witness:
  "hits_on cache_Get cache_Set (NewRateLimit 2 (60 * 10 ^ 9)) 7 ''a'' (NewMemory NewMemoryContainer (\<lambda>_. 0))
     [\<lparr>h_id = 7, h_group = ''a'', h_checkedAt = 0, h_refreshedAt = 0\<rparr>,
      \<lparr>h_id = 8, h_group = ''a'', h_checkedAt = 5, h_refreshedAt = 5\<rparr>,
      \<lparr>h_id = 7, h_group = ''a'', h_checkedAt = 10 ^ 9, h_refreshedAt = 10 ^ 9\<rparr>,
      \<lparr>h_id = 7, h_group = ''a'', h_checkedAt = 10 ^ 10, h_refreshedAt = 10 ^ 10\<rparr>]
   = [Inr False, Inr False, Inr True]"
proof -
  let ?hit = "\<lambda>i t. \<lparr>h_id = i, h_group = ''a'', h_checkedAt = t, h_refreshedAt = t\<rparr>"
  have "cache_Get (NewMemory NewMemoryContainer (\<lambda>_. 0)) (FormatKey 7 ''a'') = Inl ErrFailedToGetValue"
    by (simp add: cache_defs NewMemory_def NewMemoryContainer_def)
  moreover have twice: "replicate 2 x = [x, x]" for x :: "rateErr + bool" by (simp add: numeral_2_eq_2)
  ultimately show ?thesis
    by (subst window_lets_limit_through [where n = 3])
      (auto simp: NewRateLimit_def timeAdd_def unixSeconds_def fromUnix_def int64_def Let_def twice)
qed

text \<open>
  What the check before a hit is worth. With a record whose window is active the check gives exactly the
  decision of the next hit. When the window has run out the next hit is let through whatever the
  check said, so a subject that used its limit up is reported as banned until it tries again. With
  no readable record the check fails where the hit is let through.
\<close>

theorem check_agrees_in_window:
  "case rl_Get cache_Get m i g of
     Inl er \<Rightarrow> CheckBanned cache_Get r m i g = Inl er
       \<and> fst (Increment cache_Get cache_Set r m i g t u) = Inr False
   | Inr st \<Rightarrow> CheckBanned cache_Get r m i g = Inr (st_Limit st + 1 > rl_Limit r)
       \<and> fst (Increment cache_Get cache_Set r m i g t u)
           = (if in_window r st t then CheckBanned cache_Get r m i g else Inr False)"
  by (simp add: CheckBanned_def Increment_steps refreshed_def memory_cache.Refresh_eq memory_cache.storeRecord_eq
      split: sum.split)

end
