(* ===== verification/Cache_Shutdown.thy ===== *)
theory Cache_Shutdown
  imports Memory_Cache
begin

text \<open>
  How \<open>Close\<close> stops the sweeper (\<open>yacache/memory.go\<close>): the goroutine of \<open>cleanup\<close> and any number of
  calls of \<open>Close\<close> as a step relation over where each of them is, who holds the mutex of the cache,
  and the channel \<open>done\<close>, which has no buffer: a send on it ends only in a step with the receiver.
  A tick may come at any moment. The maps themselves are in \<open>Memory_Cache\<close>.
\<close>

section \<open>The threads\<close>

datatype sweeperAt = SweeperSelects | SweeperLocks | SweeperSweeps | SweeperGone

datatype closerAt = CloserIdle | CloserLocks | CloserSends | CloserReturned

datatype holder = Unlocked | HeldBySweeper | HeldByCloser nat

record shutdown =
  sd_sweeper :: sweeperAt
  sd_closers :: "closerAt list"
  sd_mutex :: holder

definition shutdown_start :: "nat \<Rightarrow> shutdown" where
  "shutdown_start n = \<lparr>sd_sweeper = SweeperSelects, sd_closers = replicate n CloserIdle, sd_mutex = Unlocked\<rparr>"

text \<open>The loop of \<open>cleanup\<close>: the tick is taken before the mutex is asked for.\<close>

inductive sweeper_step :: "shutdown \<Rightarrow> shutdown \<Rightarrow> bool" where
  tick: "sd_sweeper s = SweeperSelects \<Longrightarrow> sweeper_step s (s\<lparr>sd_sweeper := SweeperLocks\<rparr>)"
| lock: "sd_sweeper s = SweeperLocks \<Longrightarrow> sd_mutex s = Unlocked
    \<Longrightarrow> sweeper_step s (s\<lparr>sd_sweeper := SweeperSweeps, sd_mutex := HeldBySweeper\<rparr>)"
| unlock: "sd_sweeper s = SweeperSweeps \<Longrightarrow> sweeper_step s (s\<lparr>sd_sweeper := SweeperSelects, sd_mutex := Unlocked\<rparr>)"

text \<open>
  \<open>Close\<close>: it takes the mutex, clears the maps, and sends on \<open>done\<close> before the deferred unlock. The
  send meets the sweeper only in its \<open>select\<close>, and the sweeper returns.
\<close>

inductive closer_step :: "shutdown \<Rightarrow> shutdown \<Rightarrow> bool" where
  call: "i < length (sd_closers s) \<Longrightarrow> sd_closers s ! i = CloserIdle
    \<Longrightarrow> closer_step s (s\<lparr>sd_closers := (sd_closers s)[i := CloserLocks]\<rparr>)"
| lock: "i < length (sd_closers s) \<Longrightarrow> sd_closers s ! i = CloserLocks \<Longrightarrow> sd_mutex s = Unlocked
    \<Longrightarrow> closer_step s (s\<lparr>sd_closers := (sd_closers s)[i := CloserSends], sd_mutex := HeldByCloser i\<rparr>)"
| send: "i < length (sd_closers s) \<Longrightarrow> sd_closers s ! i = CloserSends \<Longrightarrow> sd_sweeper s = SweeperSelects
    \<Longrightarrow> closer_step s (s\<lparr>sd_closers := (sd_closers s)[i := CloserReturned], sd_sweeper := SweeperGone,
           sd_mutex := Unlocked\<rparr>)"

inductive shutdown_steps :: "shutdown \<Rightarrow> shutdown \<Rightarrow> bool" where
  refl: "shutdown_steps s s"
| sweeper: "shutdown_steps s t \<Longrightarrow> sweeper_step t u \<Longrightarrow> shutdown_steps s u"
| closer: "shutdown_steps s t \<Longrightarrow> closer_step t u \<Longrightarrow> shutdown_steps s u"

inductive_cases sweeper_stepE: "sweeper_step s t"
inductive_cases closer_stepE: "closer_step s t"

section \<open>Who holds the mutex\<close>

definition mutex_ok :: "shutdown \<Rightarrow> bool" where
  "mutex_ok s \<longleftrightarrow> (sd_sweeper s = SweeperSweeps \<longleftrightarrow> sd_mutex s = HeldBySweeper)
     \<and> (\<forall>i < length (sd_closers s). sd_closers s ! i = CloserSends \<longleftrightarrow> sd_mutex s = HeldByCloser i)
     \<and> (\<forall>i < length (sd_closers s). \<forall>j < length (sd_closers s).
          sd_closers s ! i = CloserReturned \<longrightarrow> sd_closers s ! j = CloserReturned \<longrightarrow> i = j)
     \<and> (\<forall>i < length (sd_closers s). sd_closers s ! i = CloserReturned \<longrightarrow> sd_sweeper s = SweeperGone)"

lemma mutex_ok_start: "mutex_ok (shutdown_start n)"
  by (simp add: mutex_ok_def shutdown_start_def)

lemma sweeper_step_mutex: "sweeper_step s t \<Longrightarrow> mutex_ok s \<Longrightarrow> mutex_ok t"
  by (erule sweeper_step.cases) (simp_all add: mutex_ok_def)

lemma closer_step_mutex: "closer_step s t \<Longrightarrow> mutex_ok s \<Longrightarrow> mutex_ok t"
proof (erule closer_step.cases)
  fix i u
  assume "s = u" "t = u\<lparr>sd_closers := (sd_closers u)[i := CloserLocks]\<rparr>" "i < length (sd_closers u)"
    "sd_closers u ! i = CloserIdle" "mutex_ok s"
  then show "mutex_ok t" by (auto simp: mutex_ok_def nth_list_update)
next
  fix i u
  assume "s = u" "t = u\<lparr>sd_closers := (sd_closers u)[i := CloserSends], sd_mutex := HeldByCloser i\<rparr>"
    "i < length (sd_closers u)" "sd_closers u ! i = CloserLocks" "sd_mutex u = Unlocked" "mutex_ok s"
  then show "mutex_ok t" by (auto simp: mutex_ok_def nth_list_update)
next
  fix i u
  assume "s = u" "t = u\<lparr>sd_closers := (sd_closers u)[i := CloserReturned], sd_sweeper := SweeperGone, sd_mutex := Unlocked\<rparr>"
    "i < length (sd_closers u)" "sd_closers u ! i = CloserSends" "sd_sweeper u = SweeperSelects" "mutex_ok s"
  then show "mutex_ok t" by (auto simp: mutex_ok_def nth_list_update)
qed

lemma steps_mutex: "shutdown_steps s t \<Longrightarrow> mutex_ok s \<Longrightarrow> mutex_ok t"
  by (induction rule: shutdown_steps.induct) (auto intro: sweeper_step_mutex closer_step_mutex)

section \<open>Hanging\<close>

text \<open>A call of \<open>Close\<close> that sends to a sweeper that will not select again.\<close>

definition hung :: "nat \<Rightarrow> shutdown \<Rightarrow> bool" where
  "hung i s \<longleftrightarrow> i < length (sd_closers s) \<and> sd_closers s ! i = CloserSends \<and> sd_mutex s = HeldByCloser i
     \<and> (sd_sweeper s = SweeperLocks \<or> sd_sweeper s = SweeperGone)"

lemma hung_step:
  assumes "hung i s" and "mutex_ok s" and "sweeper_step s t \<or> closer_step s t"
  shows "hung i t"
  using assms(3)
proof
  assume "sweeper_step s t"
  with assms(1) show ?thesis by (auto simp: hung_def elim: sweeper_stepE)
next
  assume "closer_step s t"
  with assms(1) show ?thesis by (auto simp: hung_def nth_list_update elim!: closer_stepE)
qed

lemma hung_forever: "shutdown_steps s t \<Longrightarrow> mutex_ok s \<Longrightarrow> hung i s \<Longrightarrow> hung i t"
  by (induction rule: shutdown_steps.induct) (auto intro: hung_step steps_mutex)

lemma one_closer_hangs:
  assumes "0 < n"
  shows "\<exists>s. shutdown_steps (shutdown_start n) s \<and> hung 0 s"
proof -
  let ?s = "shutdown_start n"
  let ?a = "?s\<lparr>sd_closers := (sd_closers ?s)[0 := CloserLocks]\<rparr>"
  let ?b = "?a\<lparr>sd_closers := (sd_closers ?a)[0 := CloserSends], sd_mutex := HeldByCloser 0\<rparr>"
  let ?c = "?b\<lparr>sd_sweeper := SweeperLocks\<rparr>"
  have a: "closer_step ?s ?a" using assms by (intro closer_step.call) (simp_all add: shutdown_start_def)
  have b: "closer_step ?a ?b" using assms by (intro closer_step.lock) (simp_all add: shutdown_start_def)
  have c: "sweeper_step ?b ?c" by (rule sweeper_step.tick) (simp add: shutdown_start_def)
  have "shutdown_steps ?s ?c"
    by (rule shutdown_steps.sweeper [OF shutdown_steps.closer [OF shutdown_steps.closer [OF shutdown_steps.refl a] b] c])
  moreover have "hung 0 ?c" using assms by (simp add: hung_def shutdown_start_def)
  ultimately show ?thesis by (intro exI conjI)
qed

text \<open>
  Closing a cache may hang for ever. At most one call of \<open>Close\<close> ever returns, and any later one
  that gets the mutex keeps it for good. Even the first may never return: when a tick comes after
  \<open>Close\<close> has taken the mutex, the sweeper waits for the mutex and \<open>Close\<close> for the sweeper, whatever
  happens after, and with the mutex held every other operation on the cache waits too.
\<close>

theorem close_may_hang:
  assumes "0 < n"
  shows "(\<exists>s. shutdown_steps (shutdown_start n) s \<and> (\<forall>t. shutdown_steps s t \<longrightarrow>
        sd_closers t ! 0 = CloserSends \<and> sd_mutex t = HeldByCloser 0))
    \<and> (\<forall>s. shutdown_steps (shutdown_start n) s \<longrightarrow> length (filter (\<lambda>c. c = CloserReturned) (sd_closers s)) \<le> 1)
    \<and> (\<forall>s i. shutdown_steps (shutdown_start n) s \<longrightarrow> CloserReturned \<in> set (sd_closers s)
         \<longrightarrow> i < length (sd_closers s) \<longrightarrow> sd_closers s ! i = CloserSends
         \<longrightarrow> (\<forall>t. shutdown_steps s t \<longrightarrow> sd_closers t ! i = CloserSends \<and> sd_mutex t = HeldByCloser i))"
proof (intro conjI allI impI)
  have ok: "mutex_ok s" if "shutdown_steps (shutdown_start n) s" for s
    using steps_mutex [OF that mutex_ok_start] .
  obtain s where s: "shutdown_steps (shutdown_start n) s" "hung 0 s"
    using one_closer_hangs [OF assms] by blast
  have "sd_closers t ! 0 = CloserSends \<and> sd_mutex t = HeldByCloser 0" if "shutdown_steps s t" for t
    using hung_forever [OF that ok [OF s(1)] s(2)] by (simp add: hung_def)
  with s show "\<exists>s. shutdown_steps (shutdown_start n) s \<and> (\<forall>t. shutdown_steps s t \<longrightarrow>
        sd_closers t ! 0 = CloserSends \<and> sd_mutex t = HeldByCloser 0)" by blast
  fix s
  assume s: "shutdown_steps (shutdown_start n) s"
  have "i = j" if "i < length (sd_closers s)" "j < length (sd_closers s)"
      "sd_closers s ! i = CloserReturned" "sd_closers s ! j = CloserReturned" for i j
    using ok [OF s] that by (auto simp: mutex_ok_def)
  then have "card {i. i < length (sd_closers s) \<and> sd_closers s ! i = CloserReturned} \<le> Suc 0"
    by (auto simp: card_le_Suc0_iff_eq)
  then show "length (filter (\<lambda>c. c = CloserReturned) (sd_closers s)) \<le> 1"
    by (simp add: length_filter_conv_card)
  fix i t
  assume i: "CloserReturned \<in> set (sd_closers s)" "i < length (sd_closers s)" "sd_closers s ! i = CloserSends"
    and t: "shutdown_steps s t"
  then have "sd_sweeper s = SweeperGone" "sd_mutex s = HeldByCloser i"
    using ok [OF s] by (auto simp: mutex_ok_def in_set_conv_nth)
  with i have "hung i s" by (simp add: hung_def)
  then have "hung i t" by (rule hung_forever [OF t ok [OF s]])
  then show "sd_closers t ! i = CloserSends" "sd_mutex t = HeldByCloser i" by (simp_all add: hung_def)
qed

theorem close_may_hang_witness:
  "\<exists>s. shutdown_steps (shutdown_start 1) s \<and> (\<forall>t. shutdown_steps s t \<longrightarrow> sd_mutex t = HeldByCloser 0)"
  using close_may_hang [of 1] by auto

end
