(* ===== verification/Spec2Isabelle.thy ===== *)
theory Spec2Isabelle
  imports Markdown_Capacity Bot_Dispatch Bot_Middleware Totp_Props Time_Hash Bit_Flags Backoff Thread_Safe_Map Engine_Recovery Update_Scheduler_Props Result_Race Executor_Answers Client_Labels Loopback Message_Dispatcher Rate_Limit Cache_Shutdown Store_Properties Registry_Properties Frame Schedule
begin

text \<open>
  A model of the core of the GoYaCodeDevUtils repository: the distributed job scheduler
  \<open>yascheduler/\<close> with its wire protocol, its store, its engine, its executors and its clients, and the
  utility packages it or the Telegram bot framework rest on.

  \<^bold>\<open>How the program works.\<close> A \<^emph>\<open>store\<close> keeps jobs, executions, attempts and results. An \<^emph>\<open>engine\<close>
  materializes the occurrences of each job as executions, claims a due execution by a compare and
  set on its version, chooses an executor in its \<^emph>\<open>registry\<close> and sends it a request; the executor's
  \<^emph>\<open>runtime\<close> admits the request against its capacity, runs the function and sends the result back,
  over frames of the \<^emph>\<open>protocol\<close> or, in one process, over the \<^emph>\<open>loopback\<close>. The engine settles the
  execution, schedules a retry, and pushes results to the \<^emph>\<open>client\<close> that asked for them, which
  acknowledges each. What can go wrong is time and identity: late reports of attempts that were
  abandoned, two dispatchers of one execution, connections that die with calls in flight, results
  that come before anyone waits for them. Most properties are about that.

  \<^bold>\<open>Conventions\<close> (\<open>Prelude\<close>). Go structs are records, closed interfaces and enumerations are
  datatypes, \<open>uintN\<close> is a word of that width, \<open>time.Time\<close> and \<open>time.Duration\<close> are integers of
  nanoseconds with the 64-bit wrap and saturation of the source written out, a map is an
  association list or a HOL map, a method under a lock is one function of the state, a nil
  dereference is \<open>None\<close>, and an error is a value. Goroutines are state machines: each critical section
  or channel operation is one step, and properties quantify over all sequences of steps. Text that is
  only logged is not modelled. Code outside the repository (MessagePack, the functions a caller
  registers, a cache given as an interface) is an argument of the definitions that use it.

  \<^bold>\<open>What is one step.\<close> Where a claim depends on it, what the code does in several unlocked steps is in
  several here: a delivery's lookup and send and the receive and close of \<open>Await\<close> (\<open>Result_Waiters\<close>), the read
  and the store of a hit (\<open>Rate_Limit\<close>), the calls of a client and the executions of a runtime. An operation of
  the engine, a dispatch or a handler, is one step although the code holds no lock across its repository
  calls: versions and states fence these, which \<open>version_claimed_once\<close> and \<open>dispatch_fenced\<close> are about, and the
  properties of the engine are about operations that do not overlap. Those that say that something is done
  assume that no repository call fails (\<open>reliable\<close>); those that say that nothing wrong is done do not.

  \<^bold>\<open>The wire protocol\<close> (\<open>yascheduler/protocol/\<close>).
    \<^item> \<open>Protocol_Types\<close>, \<open>Messages\<close>: identifiers, limits and messages (\<open>types.go\<close>, \<open>constants.go\<close>,
      \<open>messages.go\<close>).
    \<^item> \<open>Codec\<close>, \<open>Message_Codec\<close>: every read and write of a field (\<open>codec.go\<close>), each decoder the exact
      inverse of its encoder; a payload is accepted exactly when it encodes a message within the limits.
    \<^item> \<open>Frame\<close>: frames and reading them from a stream that arrives in arbitrary pieces (\<open>frame.go\<close>).

  \<^bold>\<open>The store\<close> (\<open>yascheduler/store/\<close>, \<open>store/memstore/\<close>).
    \<^item> \<open>Store_Types\<close>, \<open>Memstore\<close>: the persistent records, the transition table, and every method of
      \<open>memstore.go\<close> over the primary maps and their secondary indexes.
    \<^item> \<open>Memstore_Inv\<close>: the indexes are projections of the maps they cache, which each method preserves.
    \<^item> \<open>Store_Machine\<close>, \<open>Store_Properties\<close>: runs of interleaved calls, and what they never break. Its
      steps carry the conditions the callers keep, which the header of \<open>Store_Machine\<close> names: a new key comes
      with an unused identifier, a conditional update of an attempt starts from states that are not
      terminal, and the identifier counters do not wrap. The store checks none of them;
      \<open>duplicate_uuid_panics\<close> shows what the first is for.

  \<^bold>\<open>The engine\<close> (\<open>yascheduler/engine/\<close>).
    \<^item> \<open>Ring_Buffer\<close>, \<open>Thread_Safe_Set\<close>: the structures below the registry (\<open>yaringbuffer/\<close>,
      \<open>yathreadsafeset/\<close>), each with a locale that states its contract and an interpretation on the model.
    \<^item> \<open>Registry\<close>, \<open>Registry_Inv\<close>, \<open>Registry_Properties\<close>: connected executors and selection
      (\<open>registry.go\<close>), proved over those contracts.
    \<^item> \<open>Engine_Config\<close>, \<open>Schedule\<close>: settings, attempt budgets and retry delays (\<open>config.go\<close>,
      \<open>retry.go\<close>, over a parameter for \<open>float64\<close> multiplication), occurrences (\<open>schedule.go\<close>).
      \<open>collectMissed\<close> is a loop that may not end, hence a \<open>partial_function\<close>, and is proved to return.
    \<^item> \<open>Engine\<close>, \<open>Engine_Handlers\<close>, \<open>Engine_Jobs\<close>: the operations (\<open>engine.go\<close>, \<open>dispatch.go\<close>,
      \<open>handlers.go\<close>, \<open>results.go\<close>, \<open>retention.go\<close>, \<open>labels.go\<close>), as functions of one record that
      has the store, the registry and the messages sent. Which repository calls fail, which messages a
      connection takes and what the clock shows are sequences nothing constrains.
    \<^item> \<open>Engine_Inv\<close>, \<open>Engine_Safety\<close>, \<open>Engine_Machine\<close>: the locale \<open>repo_call\<close> of what the engine needs of a
      repository, every operation as a run of the store machine, and the machine of all operations.
    \<^item> \<open>Engine_Dispatch\<close>, \<open>Engine_Fencing\<close>, \<open>Engine_Recovery\<close>, \<open>Engine_Results\<close>: fenced dispatch, stale
      reports, what a restart recovers, and held results. \<open>Engine_Demo\<close> has the engines of the witnesses.

  \<^bold>\<open>Executors and clients\<close> (\<open>yascheduler/*.go\<close>).
    \<^item> \<open>Executor_Functions\<close>, \<open>Executor_Runtime\<close> with \<open>_Inv\<close>, \<open>_Props\<close>, \<open>Executor_Answers\<close>: registration
      and lookup (\<open>registry.go\<close>), and the runtime's goroutines (\<open>runtime.go\<close>).
    \<^item> \<open>Result_Waiters\<close>, \<open>Result_Race\<close>: waiting for results (\<open>results.go\<close>), with any number of goroutines
      inside \<open>Await\<close> and any number of deliveries on their way, and its composition with the engine that
      delivers them. One wait at a time yields at most one result; two at a time may yield two.
    \<^item> \<open>Client_Config\<close>, \<open>Client_Connection\<close>, \<open>Client_Pending\<close>, \<open>Client_Labels\<close>: the client's settings,
      calls and connection (\<open>client.go\<close>, \<open>jobs.go\<close>, \<open>types.go\<close>).
    \<^item> \<open>Loopback\<close>: the in-process link (\<open>loopback.go\<close>).

  \<^bold>\<open>Utility packages.\<close>
    \<^item> \<open>Strconv\<close>, \<open>Memory_Cache\<close>, \<open>Memory_Cache_Props\<close>, \<open>Cache_Shutdown\<close>: the cache \<open>yacache/memory.go\<close>,
      which between sweeps is a pair of maps with a counter for each hash, the number \<open>HLen\<close> answers, that
      drifts from the number of fields; its sweeper; and its shutdown, of which \<open>Close\<close> is a part.
    \<^item> \<open>Rate_Limit\<close>: \<open>yaratelimit/\<close> inside the locale of the cache it needs, interpreted on that cache: hits one
      after the other keep the limit, hits at the same time need not.
    \<^item> \<open>Message_Queue\<close>, \<open>Message_Dispatcher\<close>: the bot's message queue (\<open>yatgbot/messagequeue/\<close>).
    \<^item> \<open>Update_Scheduler\<close> with \<open>_Inv\<close>, \<open>_Props\<close>: the bot's keyed scheduler (\<open>yatgbot/update_scheduler.go\<close>).
    \<^item> \<open>Thread_Safe_Map\<close>: \<open>threadsafemap/\<close>, each method under the lock as one function.
    \<^item> \<open>Float_Double\<close>, \<open>Backoff\<close>: the exponential back-off (\<open>yabackoff/\<close>) over a model of the \<open>float64\<close>
      it computes with, 53-bit significands rounded to nearest even; a conversion out of range, which
      Go leaves to the implementation, is an argument.
    \<^item> \<open>Markdown\<close>, \<open>Markdown_Parse\<close>, \<open>Markdown_Unparse\<close>: the Markdown of Telegram messages
      (\<open>yatgmessageencoding/\<close>), from text to entities and back. \<open>Markdown_Outcomes\<close> shows when a parse
      returns and when it hangs or panics; \<open>Markdown_Text\<close>, \<open>Markdown_Render\<close>, \<open>Markdown_Roundtrip\<close> that
      simple formatting survives writing and parsing; \<open>Markdown_Capacity\<close> what becomes of an encoder
      that is used again. Valid texts are lists of code points there, the bytes of a Go string else.
    \<^item> \<open>Bot_Updates\<close>, \<open>Bot_Router\<close>, \<open>Bot_Dispatch\<close>: the bot's updates, filters, router groups and
      dispatch (\<open>yatgbot/updates.go\<close>, \<open>filter.go\<close>, \<open>router.go\<close>, \<open>middlewares.go\<close>, \<open>dispatcher.go\<close>): groups
      live in a store of addresses, the walks along it are \<open>partial_function\<close>s. \<open>Bot_Middleware\<close> is the
      same \<open>append\<close> on arrays that two dispatches share.
    \<^item> \<open>Totp\<close>, \<open>Totp_Props\<close>: one-time passwords (\<open>yatotp/\<close>), over HMAC as an argument; acceptance within the
      skew, and no replay.
    \<^item> \<open>Value_Parser\<close>, \<open>Time_Hash\<close>: parsing a text into a value (\<open>valueparser/\<close>, without floating-point
      kinds, arrays and maps), and time-bound hashes (\<open>yahash/\<close>) over it and over any hashing function.
    \<^item> \<open>Bit_Flags\<close>: \<open>yaflags/\<close> for words of any width, and \<open>yaautoflags/\<close> for structures as lists of fields.

  \<^bold>\<open>Fuel and bounds.\<close> No definition has fuel: loops over collections are structural recursions,
  \<open>readChunks\<close> terminates by the bytes still wanted, and \<open>collectMissed\<close> is proved to return. The loops of the
  Markdown parser and writer are \<open>while_option\<close>, where \<open>None\<close> is a loop that never ends, because
  the parser has such texts; that they return on others is proved.
  Identifiers, tokens and versions are 64-bit words that wrap; a property that needs them distinct says
  how many calls it allows: \<open>room\<close> is the number of identifiers left, and \<open>op_cost\<close> how many an
  operation of the engine may take.

  \<^bold>\<open>Not modelled\<close>, and why.
    \<^item> \<open>store/redisstore/\<close>: the same repositories as Lua scripts that a Redis server runs; the Go code
      only marshals their arguments. \<open>store/storetest/\<close> is a test suite.
    \<^item> Sockets, deadlines, timers, tickers and the goroutine loops that repeat a modelled step (\<open>Run\<close>,
      \<open>serve\<close>, the reconnect loop); \<open>Local.Run\<close>, which only starts and stops modelled parts.
    \<^item> \<open>config/\<close>, \<open>yafsm/\<close> and the arrays and maps of \<open>valueparser/\<close>: reflection over the caller's types.
    \<^item> The case mapping of a TOTP secret is that of ASCII letters (\<open>asciiUpper\<close>); \<open>strings.ToUpper\<close> maps two
      more letters to ASCII ones, the dotless i and the long s.
    \<^item> \<open>yatgclient/\<close>, \<open>yatgstorage/\<close> and the rest of \<open>yatgbot/\<close>: glue over gotd, gorm and the network.
    \<^item> \<open>yarsa/\<close>, \<open>yaturnstile/\<close>, \<open>yatginitdata/\<close>, \<open>yaencoding/\<close>, \<open>yagzip/\<close>,
      \<open>yaimagesupport/\<close>, \<open>yaerrors/\<close>, \<open>yalogger/\<close>, \<open>yalocales/\<close>, \<open>yaginmiddleware/\<close>, \<open>yasmtp/\<close>: wrappers
      of libraries and services, or formatting.
\<close>

end
